(* ===== verification/Prelude.thy ===== *)
theory Prelude
  imports Main "HOL-Library.Word" "HOL-Library.List_Lexorder" "HOL-Library.Code_Target_Nat"
begin

text \<open>
  Shared ground of the development: the types the components use for Rust's
  strings, bytes and durations, the string operations of Rust's standard library
  that the sources call, and generic lemmas on lists and options.

  A Rust \<open>str\<close> is a list of Unicode scalar values (\<open>ustr\<close>), because
  \<open>trim\<close>, \<open>chars\<close>, \<open>split_whitespace\<close> and the patterns of
  \<open>find\<close> and \<open>split\<close> work on characters; a byte buffer is a list of
  8-bit words. Source literals are written \<open>lit ''data:''\<close>. A
  \<open>Duration\<close> is its number of nanoseconds.
\<close>

named_theorems str_simps \<open>rewrite rules of the string operations\<close>
named_theorems model_simps \<open>unfolding of the model's small definitions\<close>

type_synonym ustr = "nat list"
type_synonym bytes = "8 word list"
type_synonym duration = nat

subsection \<open>Literals and characters\<close>

definition lit :: "string \<Rightarrow> ustr" where
  "lit s = map of_char s"

lemma lit_Nil [simp]: "lit [] = []"
  by (simp add: lit_def)

lemma lit_eq_Nil [simp]: "lit s = [] \<longleftrightarrow> s = []"
  by (simp add: lit_def)

lemma lit_inject [simp]: "lit s = lit t \<longleftrightarrow> s = t"
  unfolding lit_def by (rule inj_map_eq_map) (simp add: inj_on_def)

text \<open>\<open>char::is_whitespace\<close>: the code points with the Unicode property
  \<open>White_Space\<close>.\<close>

definition is_whitespace :: "nat \<Rightarrow> bool" where
  "is_whitespace c \<longleftrightarrow>
     9 \<le> c \<and> c \<le> 13 \<or> c = 32 \<or> c = 133 \<or> c = 160 \<or> c = 5760 \<or>
     8192 \<le> c \<and> c \<le> 8202 \<or> c = 8232 \<or> c = 8233 \<or> c = 8239 \<or> c = 8287 \<or> c = 12288"

definition to_ascii_lowercase :: "ustr \<Rightarrow> ustr" where
  "to_ascii_lowercase s = map (\<lambda>c. if 65 \<le> c \<and> c \<le> 90 then c + 32 else c) s"

definition is_ascii_alphanumeric :: "nat \<Rightarrow> bool" where
  "is_ascii_alphanumeric c \<longleftrightarrow>
     48 \<le> c \<and> c \<le> 57 \<or> 65 \<le> c \<and> c \<le> 90 \<or> 97 \<le> c \<and> c \<le> 122"

text \<open>\<open>str::len\<close> counts UTF-8 bytes.\<close>

definition utf8_width :: "nat \<Rightarrow> nat" where
  "utf8_width c = (if c < 128 then 1 else if c < 2048 then 2 else if c < 65536 then 3 else 4)"

definition str_len :: "ustr \<Rightarrow> nat" where
  "str_len s = sum_list (map utf8_width s)"

subsection \<open>Trimming, prefixes and suffixes\<close>

definition trim_start :: "ustr \<Rightarrow> ustr" where
  "trim_start s = dropWhile is_whitespace s"

definition trim_end :: "ustr \<Rightarrow> ustr" where
  "trim_end s = rev (dropWhile is_whitespace (rev s))"

definition trim :: "ustr \<Rightarrow> ustr" where
  "trim s = trim_end (trim_start s)"

fun strip_prefix :: "'a list \<Rightarrow> 'a list \<Rightarrow> 'a list option" where
  "strip_prefix [] s = Some s"
| "strip_prefix (p # ps) [] = None"
| "strip_prefix (p # ps) (c # s) = (if p = c then strip_prefix ps s else None)"

definition starts_with :: "'a list \<Rightarrow> 'a list \<Rightarrow> bool" where
  "starts_with p s \<longleftrightarrow> strip_prefix p s \<noteq> None"

definition strip_suffix :: "'a list \<Rightarrow> 'a list \<Rightarrow> 'a list option" where
  "strip_suffix p s = map_option rev (strip_prefix (rev p) (rev s))"

definition ends_with :: "'a list \<Rightarrow> 'a list \<Rightarrow> bool" where
  "ends_with p s \<longleftrightarrow> strip_suffix p s \<noteq> None"

lemma strip_prefix_Some: "strip_prefix p s = Some r \<longleftrightarrow> s = p @ r"
  by (induction p s rule: strip_prefix.induct) auto

lemma strip_prefix_append [simp]: "strip_prefix p (p @ r) = Some r"
  by (simp add: strip_prefix_Some)

lemma strip_suffix_Some: "strip_suffix p s = Some r \<longleftrightarrow> s = r @ p"
proof -
  have "strip_suffix p s = Some r \<longleftrightarrow> strip_prefix (rev p) (rev s) = Some (rev r)"
    unfolding strip_suffix_def by (cases "strip_prefix (rev p) (rev s)") auto
  also have "\<dots> \<longleftrightarrow> rev s = rev (r @ p)"
    by (simp add: strip_prefix_Some)
  finally show ?thesis by (simp only: rev_is_rev_conv)
qed

lemma starts_with_iff: "starts_with p s \<longleftrightarrow> (\<exists>r. s = p @ r)"
  by (simp add: starts_with_def strip_prefix_Some)

lemma ends_with_iff: "ends_with p s \<longleftrightarrow> (\<exists>r. s = r @ p)"
  by (simp add: ends_with_def strip_suffix_Some)

lemma trim_start_append: "\<exists>w. s = w @ trim_start s \<and> list_all is_whitespace w"
  unfolding trim_start_def
  by (rule exI [of _ "takeWhile is_whitespace s"]) (auto simp: list_all_iff dest: set_takeWhileD)

lemma trim_end_append: "\<exists>w. s = trim_end s @ w \<and> list_all is_whitespace w"
proof -
  have "s = rev (dropWhile is_whitespace (rev s)) @ rev (takeWhile is_whitespace (rev s))"
    by (metis rev_append rev_rev_ident takeWhile_dropWhile_id)
  then show ?thesis
    unfolding trim_end_def
    by (intro exI [of _ "rev (takeWhile is_whitespace (rev s))"])
       (auto simp: list_all_iff dest: set_takeWhileD)
qed

lemma trim_eq_Nil [str_simps]: "trim s = [] \<longleftrightarrow> list_all is_whitespace s"
proof
  assume "trim s = []"
  then have e: "trim_end (trim_start s) = []" by (simp add: trim_def)
  obtain v where v: "trim_start s = trim_end (trim_start s) @ v" "list_all is_whitespace v"
    using trim_end_append by blast
  obtain w where w: "s = w @ trim_start s" "list_all is_whitespace w"
    using trim_start_append by blast
  have "list_all is_whitespace (trim_start s)" using v e by simp
  then show "list_all is_whitespace s"
    by (subst w(1)) (use w(2) in simp)
next
  assume "list_all is_whitespace s"
  then have "trim_start s = []"
    by (simp add: trim_start_def list_all_iff)
  then show "trim s = []" by (simp add: trim_def trim_end_def)
qed

text \<open>A text whose first and last characters are no white space is already trimmed.\<close>

lemma trim_id: "s \<noteq> [] \<Longrightarrow> \<not> is_whitespace (hd s) \<Longrightarrow> \<not> is_whitespace (last s) \<Longrightarrow> trim s = s"
proof -
  assume s: "s \<noteq> []" "\<not> is_whitespace (hd s)" "\<not> is_whitespace (last s)"
  then have 1: "trim_start s = s" by (cases s) (auto simp: trim_start_def)
  from s have "rev s \<noteq> []" "\<not> is_whitespace (hd (rev s))" by (auto simp: hd_rev)
  then have "dropWhile is_whitespace (rev s) = rev s" by (cases "rev s") auto
  with 1 show "trim s = s" by (simp add: trim_def trim_end_def)
qed

subsection \<open>Searching and splitting\<close>

fun find_sub :: "'a list \<Rightarrow> 'a list \<Rightarrow> nat option" where
  "find_sub p [] = (if p = [] then Some 0 else None)"
| "find_sub p (c # s) =
     (if starts_with p (c # s) then Some 0 else map_option Suc (find_sub p s))"

definition contains_sub :: "'a list \<Rightarrow> 'a list \<Rightarrow> bool" where
  "contains_sub p s \<longleftrightarrow> find_sub p s \<noteq> None"

lemma find_sub_Some: "find_sub p s = Some i \<Longrightarrow> starts_with p (drop i s) \<and> i \<le> length s"
  by (induction s arbitrary: i) (auto split: if_splits simp: starts_with_iff)

lemma contains_sub_iff: "contains_sub p s \<longleftrightarrow> (\<exists>a b. s = a @ p @ b)"
proof (induction s)
  case Nil
  then show ?case by (auto simp: contains_sub_def)
next
  case (Cons c s)
  have "contains_sub p (c # s) \<longleftrightarrow> starts_with p (c # s) \<or> contains_sub p s"
    by (auto simp: contains_sub_def)
  also have "\<dots> \<longleftrightarrow> (\<exists>a b. c # s = a @ p @ b)"
    unfolding Cons.IH starts_with_iff
    by (metis append_Cons append_Nil list.exhaust list.inject)
  finally show ?case .
qed

fun split_on :: "'a \<Rightarrow> 'a list \<Rightarrow> 'a list list" where
  "split_on sep [] = [[]]"
| "split_on sep (c # s) =
     (if c = sep then [] # split_on sep s
      else (case split_on sep s of [] \<Rightarrow> [[c]] | p # ps \<Rightarrow> (c # p) # ps))"

fun join :: "'a list \<Rightarrow> 'a list list \<Rightarrow> 'a list" where
  "join sep [] = []"
| "join sep [p] = p"
| "join sep (p # q # ps) = p @ sep @ join sep (q # ps)"

lemma split_on_neq_Nil [simp]: "split_on sep s \<noteq> []"
  by (cases s) (auto split: list.splits)

lemma join_Cons_ne: "ps \<noteq> [] \<Longrightarrow> join sep (p # ps) = p @ sep @ join sep ps"
  by (cases ps) auto

lemma join_split_on: "join [sep] (split_on sep s) = s"
proof (induction s)
  case (Cons c s)
  obtain p ps where e: "split_on sep s = p # ps"
    by (cases "split_on sep s") auto
  with Cons show ?case by (cases ps) auto
qed simp

lemma split_on_append: "sep \<notin> set a \<Longrightarrow> split_on sep (a @ sep # b) = a # split_on sep b"
  by (induction a) auto

lemma split_on_no_sep: "sep \<notin> set s \<Longrightarrow> split_on sep s = [s]"
  by (induction s) auto

text \<open>\<open>str::split_whitespace\<close>: the maximal runs of characters that are no white space.\<close>

function split_whitespace :: "ustr \<Rightarrow> ustr list" where
  "split_whitespace s =
     (let t = trim_start s in
      if t = [] then []
      else takeWhile (\<lambda>c. \<not> is_whitespace c) t #
           split_whitespace (dropWhile (\<lambda>c. \<not> is_whitespace c) t))"
  by pat_completeness auto
termination
proof (relation "measure length")
  fix s t :: ustr
  assume t: "t = trim_start s" "t \<noteq> []"
  then have "\<not> is_whitespace (hd t)"
    by (auto simp: trim_start_def hd_dropWhile)
  with t(2) have "length (dropWhile (\<lambda>c. \<not> is_whitespace c) t) < length t"
    by (cases t) (auto simp: less_Suc_eq_le length_dropWhile_le)
  also have "length t \<le> length s"
    unfolding t(1) trim_start_def by (rule length_dropWhile_le)
  finally show "(dropWhile (\<lambda>c. \<not> is_whitespace c) t, s) \<in> measure length" by simp
qed simp

declare split_whitespace.simps [simp del]

text \<open>\<open>str::lines\<close>: split at line feeds, drop one trailing carriage return of
  each line, and do not report an empty last line.\<close>

definition strip_cr :: "ustr \<Rightarrow> ustr" where
  "strip_cr l = (case strip_suffix [13] l of Some r \<Rightarrow> r | None \<Rightarrow> l)"

definition str_lines :: "ustr \<Rightarrow> ustr list" where
  "str_lines s =
     (let ps = split_on 10 s in
      if last ps = [] then map strip_cr (butlast ps)
      else map strip_cr (butlast ps) @ [last ps])"

text \<open>\<open>Display\<close> of an unsigned integer.\<close>

fun show_nat :: "nat \<Rightarrow> ustr" where
  "show_nat n = (if n < 10 then [48 + n] else show_nat (n div 10) @ [48 + n mod 10])"

declare show_nat.simps [simp del]

subsection \<open>Durations\<close>

text \<open>\<open>Duration::MAX\<close> is \<open>u64::MAX\<close> seconds and 999,999,999 nanoseconds; the
  saturating operations stop there and at zero.\<close>

definition duration_max :: duration where
  "duration_max = (2 ^ 64 - 1) * 1000000000 + 999999999"

definition dur_saturating_add :: "duration \<Rightarrow> duration \<Rightarrow> duration" where
  "dur_saturating_add a b = min (a + b) duration_max"

definition dur_saturating_sub :: "duration \<Rightarrow> duration \<Rightarrow> duration" where
  "dur_saturating_sub a b = a - b"

text \<open>\<open>Duration::as_millis() as u64\<close>.\<close>

definition dur_millis_u64 :: "duration \<Rightarrow> nat" where
  "dur_millis_u64 d = (d div 1000000) mod 2 ^ 64"

subsection \<open>Lists and options\<close>

lemma fold_plus_append: "fold (\<lambda>x acc. acc @ f x) xs acc = acc @ concat (map f xs)"
  by (induction xs arbitrary: acc) auto

definition option_or :: "'a option \<Rightarrow> 'a option \<Rightarrow> 'a option" where
  "option_or a b = (case a of Some _ \<Rightarrow> a | None \<Rightarrow> b)"

lemma option_or_simps [simp]:
  "option_or (Some x) b = Some x" "option_or None b = b"
  by (simp_all add: option_or_def)

lemma option_or_None [simp]: "option_or a b = None \<longleftrightarrow> a = None \<and> b = None"
  by (cases a) auto

lemma find_append: "find p (xs @ ys) = option_or (find p xs) (find p ys)"
  by (induction xs) auto

definition unwrap_or :: "'a option \<Rightarrow> 'a \<Rightarrow> 'a" where
  "unwrap_or a d = (case a of Some x \<Rightarrow> x | None \<Rightarrow> d)"

lemma unwrap_or_simps [simp]: "unwrap_or (Some x) d = x" "unwrap_or None d = d"
  by (simp_all add: unwrap_or_def)

text \<open>\<open>Option::filter\<close>.\<close>

definition option_filter :: "('a \<Rightarrow> bool) \<Rightarrow> 'a option \<Rightarrow> 'a option" where
  "option_filter p a = (case a of Some x \<Rightarrow> if p x then Some x else None | None \<Rightarrow> None)"

lemma option_filter_simps [simp]:
  "option_filter p None = None"
  "option_filter p (Some x) = (if p x then Some x else None)"
  by (simp_all add: option_filter_def)

lemma option_filter_Some_iff: "option_filter p a = Some x \<longleftrightarrow> a = Some x \<and> p x"
  by (cases a) auto

lemma list_all_map_iff [simp]: "list_all p (map f xs) \<longleftrightarrow> list_all (\<lambda>x. p (f x)) xs"
  by (simp add: list_all_iff)

lemma map_filter_append [simp]: "List.map_filter f (xs @ ys) = List.map_filter f xs @ List.map_filter f ys"
  by (induction xs) (auto simp: List.map_filter_simps split: option.splits)

definition hd_opt :: "'a list \<Rightarrow> 'a option" where
  "hd_opt xs = (case xs of [] \<Rightarrow> None | x # _ \<Rightarrow> Some x)"

definition last_opt :: "'a list \<Rightarrow> 'a option" where
  "last_opt xs = (if xs = [] then None else Some (last xs))"

lemma hd_opt_simps [simp]: "hd_opt [] = None" "hd_opt (x # xs) = Some x"
  by (simp_all add: hd_opt_def)

lemma hd_opt_append [simp]: "hd_opt (xs @ ys) = option_or (hd_opt xs) (hd_opt ys)"
  by (cases xs) auto

lemma hd_opt_None [simp]: "hd_opt xs = None \<longleftrightarrow> xs = []"
  by (cases xs) auto

lemma last_opt_append [simp]: "last_opt (xs @ ys) = option_or (last_opt ys) (last_opt xs)"
  by (cases ys rule: rev_cases) (auto simp: last_opt_def)

lemma last_opt_simps [simp]: "last_opt [] = None" "last_opt [x] = Some x"
  by (simp_all add: last_opt_def)

lemma last_opt_None [simp]: "last_opt xs = None \<longleftrightarrow> xs = []"
  by (simp add: last_opt_def)

subsection \<open>Numbers and byte indices\<close>

definition u64_max :: nat where
  "u64_max = 2 ^ 64 - 1"

fun parse_digits :: "nat \<Rightarrow> ustr \<Rightarrow> nat option" where
  "parse_digits acc [] = Some acc"
| "parse_digits acc (c # cs) =
     (if 48 \<le> c \<and> c \<le> 57
      then (let v = acc * 10 + (c - 48) in if v \<le> u64_max then parse_digits v cs else None)
      else None)"

text \<open>\<open>str::parse::<u64>\<close>: an optional plus sign, then digits, and no overflow.\<close>

definition parse_u64 :: "ustr \<Rightarrow> nat option" where
  "parse_u64 s =
     (let ds = unwrap_or (strip_prefix (lit ''+'') s) s
      in if ds = [] then None else parse_digits 0 ds)"

text \<open>\<open>&s[..n]\<close>: a byte index that is out of range or inside a character panics, \<open>None\<close>.\<close>

fun slice_to :: "nat \<Rightarrow> ustr \<Rightarrow> ustr option" where
  "slice_to n [] = (if n = 0 then Some [] else None)"
| "slice_to n (c # cs) =
     (if n = 0 then Some []
      else if utf8_width c \<le> n then map_option (Cons c) (slice_to (n - utf8_width c) cs)
      else None)"

lemma slice_to_ascii: "list_all (\<lambda>c. c < 128) s \<Longrightarrow> n \<le> length s \<Longrightarrow> slice_to n s = Some (take n s)"
  by (induction n s rule: slice_to.induct) (auto simp: utf8_width_def take_Cons')

lemma slice_to_Some: "slice_to n s = Some t \<Longrightarrow> str_len t = n \<and> (\<exists>r. s = t @ r)"
  by (induction n s arbitrary: t rule: slice_to.induct) (fastforce simp: str_len_def split: if_splits)+

text \<open>A plain \<open>sum::<u64>()\<close>: it wraps in the release build.\<close>

definition sum_u64 :: "nat list \<Rightarrow> nat" where
  "sum_u64 xs = sum_list xs mod 2 ^ 64"

text \<open>A saturating sum of \<open>u64\<close>s.\<close>

definition sat64 :: "nat \<Rightarrow> nat \<Rightarrow> nat" where
  "sat64 a b = min (a + b) (2 ^ 64 - 1)"

lemma foldl_sat64: "a \<le> 2 ^ 64 - 1 \<Longrightarrow> foldl sat64 a xs = min (a + sum_list xs) (2 ^ 64 - 1)"
  by (induction xs arbitrary: a) (auto simp: sat64_def min_def)

text \<open>\<open>Display\<close> of a signed integer.\<close>

definition show_int :: "int \<Rightarrow> ustr" where
  "show_int i = (if i < 0 then lit ''-'' else []) @ show_nat (nat \<bar>i\<bar>)"

text \<open>\<open>str::split_once\<close> at a character.\<close>

fun split_once :: "nat \<Rightarrow> ustr \<Rightarrow> (ustr \<times> ustr) option" where
  "split_once c [] = None"
| "split_once c (x # xs) =
     (if x = c then Some ([], xs) else map_option (\<lambda>(a, b). (x # a, b)) (split_once c xs))"

text \<open>Replacing every occurrence, from the left and without overlap.\<close>

function replace_all :: "'a list \<Rightarrow> 'a list \<Rightarrow> 'a list \<Rightarrow> 'a list" where
  "replace_all pat by s =
     (if pat = [] then by @ concat (map (\<lambda>c. c # by) s)
      else case strip_prefix pat s of
        Some rest \<Rightarrow> by @ replace_all pat by rest
      | None \<Rightarrow> (case s of [] \<Rightarrow> [] | c # cs \<Rightarrow> c # replace_all pat by cs))"
  by auto
termination
  by (relation "measure (\<lambda>(pat, by, s). length s)") (auto simp: strip_prefix_Some)

declare replace_all.simps [simp del]

end
