(* ===== verification/Ordered_Map.thy ===== *)
theory Ordered_Map
  imports Prelude
begin

text \<open>
  Rust's \<open>BTreeMap\<close> as an association list with strictly ascending keys, so that
  iteration visits the keys in order. The interface every client of such a map relies on is
  the locale \<open>ordered_map\<close>; the lemmas about loops that update a map are proved there
  once, and the interpretation at the end discharges the laws for the list representation.
\<close>

type_synonym ('k, 'v) btree = "('k \<times> 'v) list"

fun bt_insert :: "'k::linorder \<Rightarrow> 'v \<Rightarrow> ('k, 'v) btree \<Rightarrow> ('k, 'v) btree" where
  "bt_insert k v [] = [(k, v)]"
| "bt_insert k v ((k', v') # m) =
     (if k < k' then (k, v) # (k', v') # m
      else if k = k' then (k, v) # m
      else (k', v') # bt_insert k v m)"

fun bt_remove :: "'k::linorder \<Rightarrow> ('k, 'v) btree \<Rightarrow> ('k, 'v) btree" where
  "bt_remove k [] = []"
| "bt_remove k ((k', v') # m) = (if k = k' then m else (k', v') # bt_remove k m)"

definition bt_get :: "('k, 'v) btree \<Rightarrow> 'k \<Rightarrow> 'v option" where
  "bt_get m k = map_of m k"

definition bt_inv :: "('k::linorder, 'v) btree \<Rightarrow> bool" where
  "bt_inv m \<longleftrightarrow> sorted_wrt (<) (map fst m)"

definition bt_values :: "('k, 'v) btree \<Rightarrow> 'v list" where
  "bt_values m = map snd m"

text \<open>\<open>entry(k).or_default().push(v)\<close>.\<close>

definition bt_push :: "'k::linorder \<Rightarrow> 'v \<Rightarrow> ('k, 'v list) btree \<Rightarrow> ('k, 'v list) btree" where
  "bt_push k v m = bt_insert k (case bt_get m k of None \<Rightarrow> [v] | Some vs \<Rightarrow> vs @ [v]) m"

subsection \<open>The interface\<close>

locale ordered_map =
  fixes emp :: "'m"
    and get :: "'m \<Rightarrow> 'k \<Rightarrow> 'v option"
    and ins :: "'k \<Rightarrow> 'v \<Rightarrow> 'm \<Rightarrow> 'm"
    and del :: "'k \<Rightarrow> 'm \<Rightarrow> 'm"
    and inv :: "'m \<Rightarrow> bool"
  assumes inv_emp: "inv emp"
    and inv_ins: "inv m \<Longrightarrow> inv (ins k v m)"
    and inv_del: "inv m \<Longrightarrow> inv (del k m)"
    and get_emp: "get emp k = None"
    and get_ins: "inv m \<Longrightarrow> get (ins k v m) k' = (if k' = k then Some v else get m k')"
    and get_del: "inv m \<Longrightarrow> get (del k m) k' = (if k' = k then None else get m k')"
begin

text \<open>A loop that sets or clears one key per item: the last item of a key decides it.\<close>

lemma inv_fold_update:
  "inv m \<Longrightarrow> inv (fold (\<lambda>x m. case f x of Some v \<Rightarrow> ins (key x) v m | None \<Rightarrow> del (key x) m) xs m)"
  by (induction xs arbitrary: m) (auto intro: inv_ins inv_del split: option.splits)

lemma get_fold_update:
  assumes "inv m"
  shows "get (fold (\<lambda>x m. case f x of Some v \<Rightarrow> ins (key x) v m | None \<Rightarrow> del (key x) m) xs m) k =
    (case find (\<lambda>x. key x = k) (rev xs) of Some x \<Rightarrow> f x | None \<Rightarrow> get m k)"
  using assms
proof (induction xs arbitrary: m)
  case (Cons x xs)
  let ?u = "\<lambda>x m. case f x of Some v \<Rightarrow> ins (key x) v m | None \<Rightarrow> del (key x) m"
  have i: "inv (?u x m)" using Cons.prems by (auto intro: inv_ins inv_del split: option.splits)
  have g: "get (?u x m) k = (if k = key x then f x else get m k)"
    using Cons.prems by (auto simp: get_ins get_del split: option.splits)
  show ?case using Cons.IH [OF i] g by (auto simp: find_append option_or_def split: option.splits)
qed simp

text \<open>A loop that only inserts.\<close>

lemma inv_fold_ins: "inv m \<Longrightarrow> inv (fold (\<lambda>x m. ins (key x) (val x) m) xs m)"
  by (induction xs arbitrary: m) (auto intro: inv_ins)

lemma get_fold_ins_notin:
  "inv m \<Longrightarrow> k \<notin> key ` set xs \<Longrightarrow> get (fold (\<lambda>x m. ins (key x) (val x) m) xs m) k = get m k"
  by (induction xs arbitrary: m) (auto simp: inv_ins get_ins)

lemma get_fold_ins_distinct:
  "inv m \<Longrightarrow> distinct (map key xs) \<Longrightarrow> x \<in> set xs \<Longrightarrow>
   get (fold (\<lambda>x m. ins (key x) (val x) m) xs m) (key x) = Some (val x)"
proof (induction xs arbitrary: m)
  case (Cons y ys)
  show ?case
  proof (cases "x \<in> set ys")
    case True
    then show ?thesis using Cons by (simp add: inv_ins)
  next
    case False
    then have "x = y" "key x \<notin> key ` set ys" using Cons.prems by auto
    then show ?thesis using Cons.prems by (simp add: get_fold_ins_notin inv_ins get_ins)
  qed
qed simp

end

subsection \<open>The list representation keeps the laws\<close>

lemma bt_insert_keys: "set (map fst (bt_insert k v m)) = insert k (set (map fst m))"
  by (induction k v m rule: bt_insert.induct) auto

lemma bt_remove_keys: "set (map fst (bt_remove k m)) \<subseteq> set (map fst m)"
  by (induction k m rule: bt_remove.induct) auto

lemma bt_inv_Nil [simp]: "bt_inv []"
  by (simp add: bt_inv_def)

lemma bt_inv_Cons: "bt_inv (p # m) \<longleftrightarrow> (\<forall>k \<in> set (map fst m). fst p < k) \<and> bt_inv m"
  by (simp add: bt_inv_def)

lemma bt_insert_not_Nil [simp]: "bt_insert k v m \<noteq> []"
  by (induction k v m rule: bt_insert.induct) auto

lemma fold_insert_not_Nil: "m \<noteq> [] \<or> xs \<noteq> [] \<Longrightarrow> fold (\<lambda>x m. bt_insert (key x) (val x) m) xs m \<noteq> []"
  by (induction xs arbitrary: m) auto

lemma bt_inv_insert: "bt_inv m \<Longrightarrow> bt_inv (bt_insert k v m)"
proof (induction k v m rule: bt_insert.induct)
  case (2 k v k' v' m)
  then show ?case
    using bt_insert_keys [of k v m] by (auto simp: bt_inv_Cons)
qed (simp add: bt_inv_Cons)

lemma bt_inv_remove: "bt_inv m \<Longrightarrow> bt_inv (bt_remove k m)"
proof (induction k m rule: bt_remove.induct)
  case (2 k k' v' m)
  then show ?case
    using bt_remove_keys [of k m] by (auto simp: bt_inv_Cons) (metis fst_conv imageE image_eqI subsetD)
qed simp

lemma bt_get_insert: "bt_get (bt_insert k v m) k' = (if k' = k then Some v else bt_get m k')"
  by (induction k v m rule: bt_insert.induct) (auto simp: bt_get_def)

lemma bt_get_above: "\<forall>k' \<in> set (map fst m). k < k' \<Longrightarrow> bt_get m k = None"
  for k :: "'k::linorder"
  by (induction m) (auto simp: bt_get_def)

lemma bt_get_remove:
  "bt_inv m \<Longrightarrow> bt_get (bt_remove k m) k' = (if k' = k then None else bt_get m k')"
proof (induction k m rule: bt_remove.induct)
  case (2 k k1 v1 m)
  then show ?case
    using bt_get_above [of m k1] by (auto simp: bt_inv_Cons bt_get_def)
qed (simp add: bt_get_def)

interpretation btree: ordered_map "[] :: ('k::linorder, 'v) btree" bt_get bt_insert bt_remove bt_inv
  by unfold_locales
     (auto simp: bt_inv_insert bt_inv_remove bt_get_insert bt_get_remove, simp add: bt_get_def)

lemma bt_get_Some_in: "bt_get m k = Some v \<Longrightarrow> (k, v) \<in> set m"
  by (simp add: bt_get_def map_of_SomeD)

lemma bt_get_iff: "bt_inv m \<Longrightarrow> bt_get m k = Some v \<longleftrightarrow> (k, v) \<in> set m"
  unfolding bt_get_def bt_inv_def by (simp add: strict_sorted_iff)

subsection \<open>Grouping\<close>

text \<open>A loop of pushes collects the items of a key, in order; keys without items are absent.\<close>

lemma bt_get_push: "bt_get (bt_push k v m) k' = (if k' = k then Some (unwrap_or (bt_get m k) [] @ [v]) else bt_get m k')"
  by (auto simp: bt_push_def bt_get_insert split: option.splits)

lemma bt_inv_push: "bt_inv m \<Longrightarrow> bt_inv (bt_push k v m)"
  by (simp add: bt_push_def bt_inv_insert)

lemma bt_inv_group: "bt_inv m \<Longrightarrow> bt_inv (fold (\<lambda>x m. bt_push (key x) (val x) m) xs m)"
  by (induction xs arbitrary: m) (auto intro: bt_inv_push)

lemma bt_get_group_acc:
  "bt_get (fold (\<lambda>x m. bt_push (key x) (val x) m) xs m) k =
     (if \<exists>x \<in> set xs. key x = k then Some (unwrap_or (bt_get m k) [] @ map val (filter (\<lambda>x. key x = k) xs))
      else bt_get m k)"
  by (induction xs arbitrary: m) (auto simp: bt_get_push)

lemma bt_get_group:
  "bt_get (fold (\<lambda>x m. bt_push (key x) (val x) m) xs []) k = Some vs \<longleftrightarrow>
     vs \<noteq> [] \<and> vs = map val (filter (\<lambda>x. key x = k) xs)"
  unfolding bt_get_group_acc by (auto simp: bt_get_def filter_empty_conv)

end
