(* ===== verification/F64.thy ===== *)
theory F64
  imports Complex_Main "HOL-Library.Log_Nat" Prelude
begin

text \<open>
  Rust's \<open>f64\<close>: IEEE 754 binary64 with round-to-nearest-even. A finite value carries
  its exact rational; every arithmetic operation computes the exact rational result and
  rounds it with \<open>rnd\<close>. The two zeros are one value (no operation of the sources
  depends on the sign of a zero) and all NaNs are one value. The order declared for the
  type is \<open>f64::total_cmp\<close>; \<open>flt\<close>, \<open>fle\<close> and \<open>feq\<close> are the IEEE comparisons,
  which are false on NaN.
\<close>

subsection \<open>Rounding to an integer, half to even\<close>

definition rne :: "rat \<Rightarrow> int" where
  "rne x = (let f = \<lfloor>x\<rfloor>; d = x - of_int f in
     if d < 1 / 2 then f else if 1 / 2 < d then f + 1 else if even f then f else f + 1)"

lemma rne_of_int [simp]: "rne (of_int n) = n"
  by (simp add: rne_def)

lemma rne_bounds: "\<bar>of_int (rne x) - x\<bar> \<le> 1 / 2"
proof -
  have "of_int \<lfloor>x\<rfloor> \<le> x" "x < of_int \<lfloor>x\<rfloor> + 1" by linarith+
  then show ?thesis by (auto simp: rne_def Let_def abs_le_iff)
qed

lemma rne_ge_floor: "\<lfloor>x\<rfloor> \<le> rne x" and rne_le_Suc_floor: "rne x \<le> \<lfloor>x\<rfloor> + 1"
  by (auto simp: rne_def Let_def)

lemma rne_mono: assumes "x \<le> y" shows "rne x \<le> rne y"
proof (cases "\<lfloor>x\<rfloor> = \<lfloor>y\<rfloor>")
  case True
  with assms show ?thesis by (auto simp: rne_def Let_def)
next
  case False
  with assms have "\<lfloor>x\<rfloor> + 1 \<le> \<lfloor>y\<rfloor>"
    using floor_mono [OF assms] by linarith
  with rne_le_Suc_floor [of x] rne_ge_floor [of y] show ?thesis by linarith
qed

lemma rne_uminus: "rne (- x) = - rne x"
proof (cases "x = of_int \<lfloor>x\<rfloor>")
  case True
  then show ?thesis by (metis of_int_minus rne_of_int)
next
  case False
  have le: "of_int \<lfloor>x\<rfloor> \<le> x" "x < of_int \<lfloor>x\<rfloor> + 1" by linarith+
  with False have "of_int \<lfloor>x\<rfloor> < x" by linarith
  with le have f: "\<lfloor>- x\<rfloor> = - \<lfloor>x\<rfloor> - 1"
    by (intro floor_unique) auto
  show ?thesis
    unfolding rne_def f Let_def by (auto simp: field_simps)
qed

lemma rne_le_of_int: "x \<le> of_int n \<Longrightarrow> rne x \<le> n"
  using rne_mono [of x "of_int n"] by simp

lemma rne_ge_of_int: "of_int n \<le> x \<Longrightarrow> n \<le> rne x"
  using rne_mono [of "of_int n" x] by simp

subsection \<open>Powers of two and the binade of a rational\<close>

definition pow2 :: "int \<Rightarrow> rat" where
  "pow2 e = (if 0 \<le> e then 2 ^ nat e else 1 / 2 ^ nat (- e))"

lemma pow2_pos [simp]: "0 < pow2 e"
  by (simp add: pow2_def)

lemma pow2_neq_0 [simp]: "pow2 e \<noteq> 0"
  using pow2_pos [of e] by linarith

lemma pow2_powi: "pow2 e = 2 powi e"
  by (simp add: pow2_def power_int_def inverse_eq_divide power_one_over)

lemma pow2_add: "pow2 (a + b) = pow2 a * pow2 b"
  by (simp add: pow2_powi power_int_add)

lemma pow2_diff: "pow2 (a - b) = pow2 a / pow2 b"
  by (simp add: pow2_powi power_int_diff)

lemma pow2_mono: "a \<le> b \<Longrightarrow> pow2 a \<le> pow2 b"
  by (simp add: pow2_powi power_int_increasing)

lemma pow2_nonneg_int: "0 \<le> e \<Longrightarrow> pow2 e = of_int (2 ^ nat e)"
  by (simp add: pow2_def)

definition log2_floor :: "rat \<Rightarrow> int" where
  "log2_floor x =
     (let (n, d) = quotient_of x; e = bitlen n - bitlen d
      in if pow2 e \<le> x then e else e - 1)"

lemma bitlen_rat_bounds:
  assumes "0 < n"
  shows "pow2 (bitlen n - 1) \<le> of_int n" "of_int n < pow2 (bitlen n)"
proof -
  have b: "2 ^ nat (bitlen n - 1) \<le> n \<and> n < 2 ^ nat (bitlen n)"
    using bitlen_bounds [OF assms] by simp
  have p: "1 \<le> bitlen n"
    using assms bitlen_eq_zero_iff [of n] bitlen_nonneg [of n] by linarith
  have "pow2 (bitlen n - 1) = of_int (2 ^ nat (bitlen n - 1))"
    using p by (intro pow2_nonneg_int) simp
  also have "\<dots> \<le> of_int n" using b by (simp only: of_int_le_iff)
  finally show "pow2 (bitlen n - 1) \<le> of_int n" .
  have "of_int n < (of_int (2 ^ nat (bitlen n)) :: rat)"
    using b by (simp only: of_int_less_iff)
  also have "\<dots> = pow2 (bitlen n)"
    using p by (intro pow2_nonneg_int [symmetric]) simp
  finally show "of_int n < pow2 (bitlen n)" .
qed

lemma log2_floor_bounds:
  assumes "0 < x"
  shows "pow2 (log2_floor x) \<le> x" "x < pow2 (log2_floor x + 1)"
proof -
  obtain n d where q: "quotient_of x = (n, d)" by (cases "quotient_of x") auto
  have d: "0 < d" using quotient_of_denom_pos [OF q] .
  have x: "x = of_int n / of_int d" using quotient_of_div [OF q] .
  have n: "0 < n" using assms d by (simp add: x zero_less_divide_iff)
  define e where "e = bitlen n - bitlen d"
  note bn = bitlen_rat_bounds [OF n] and bd = bitlen_rat_bounds [OF d]
  have dpos: "0 < (of_int d :: rat)" using d by simp
  have "x < pow2 (bitlen n) / pow2 (bitlen d - 1)"
    unfolding x using bn(2) bd(1) dpos n by (intro frac_less) auto
  also have "\<dots> = pow2 (e + 1)"
    by (simp add: e_def pow2_diff [symmetric] algebra_simps)
  finally have hi: "x < pow2 (e + 1)" .
  have "pow2 (bitlen n - 1) / pow2 (bitlen d) \<le> x"
    unfolding x using bn(1) bd(2) dpos n by (intro frac_le) auto
  moreover have "pow2 (e - 1) = pow2 (bitlen n - 1) / pow2 (bitlen d)"
    by (simp add: e_def pow2_diff [symmetric] algebra_simps)
  ultimately have lo: "pow2 (e - 1) \<le> x" by simp
  have l: "log2_floor x = (if pow2 e \<le> x then e else e - 1)"
    by (simp add: log2_floor_def q e_def Let_def)
  show "pow2 (log2_floor x) \<le> x" using lo by (simp add: l)
  show "x < pow2 (log2_floor x + 1)" using hi by (simp add: l)
qed

lemma log2_floor_mono:
  assumes "0 < x" "x \<le> y"
  shows "log2_floor x \<le> log2_floor y"
proof (rule ccontr)
  assume "\<not> ?thesis"
  then have "log2_floor y + 1 \<le> log2_floor x" by simp
  then have "pow2 (log2_floor y + 1) \<le> pow2 (log2_floor x)" by (rule pow2_mono)
  also have "\<dots> \<le> x" using log2_floor_bounds(1) [OF assms(1)] .
  finally show False
    using log2_floor_bounds(2) [of y] assms by linarith
qed

subsection \<open>Rounding to binary64\<close>

text \<open>The exponent of the unit in the last place: 53 significant bits, and never below
  the smallest subnormal \<open>2^-1074\<close>.\<close>

definition ulp_exp :: "rat \<Rightarrow> int" where
  "ulp_exp x = max (log2_floor \<bar>x\<bar> - 52) (- 1074)"

definition rnd_rat :: "rat \<Rightarrow> rat" where
  "rnd_rat x = (if x = 0 then 0 else let u = pow2 (ulp_exp x) in of_int (rne (x / u)) * u)"

lemma rnd_rat_0 [simp]: "rnd_rat 0 = 0"
  by (simp add: rnd_rat_def)

lemma rnd_rat_uminus: "rnd_rat (- x) = - rnd_rat x"
  by (simp add: rnd_rat_def ulp_exp_def Let_def minus_divide_left [symmetric] rne_uminus)

lemma ulp_exp_mono: "0 < x \<Longrightarrow> x \<le> y \<Longrightarrow> ulp_exp x \<le> ulp_exp y"
  using log2_floor_mono [of x y] by (simp add: ulp_exp_def)

text \<open>A bound that is a multiple of the unit of \<open>x\<close> bounds the rounding of \<open>x\<close>.\<close>

lemma rnd_rat_le_multiple:
  assumes "0 < x" "x \<le> of_int k * pow2 (ulp_exp x)"
  shows "rnd_rat x \<le> of_int k * pow2 (ulp_exp x)"
proof -
  have "x / pow2 (ulp_exp x) \<le> of_int k"
    using assms(2) by (simp add: divide_le_eq)
  then have "rne (x / pow2 (ulp_exp x)) \<le> k" by (rule rne_le_of_int)
  then show ?thesis
    using assms(1) by (simp add: rnd_rat_def Let_def mult_right_mono)
qed

lemma rnd_rat_ge_multiple:
  assumes "0 < x" "of_int k * pow2 (ulp_exp x) \<le> x"
  shows "of_int k * pow2 (ulp_exp x) \<le> rnd_rat x"
proof -
  have "of_int k \<le> x / pow2 (ulp_exp x)"
    using assms(2) by (simp add: le_divide_eq)
  then have "k \<le> rne (x / pow2 (ulp_exp x))" by (rule rne_ge_of_int)
  then show ?thesis
    using assms(1) by (simp add: rnd_rat_def Let_def mult_right_mono)
qed

lemma rnd_rat_nonneg: "0 \<le> x \<Longrightarrow> 0 \<le> rnd_rat x"
  using rnd_rat_ge_multiple [of x 0] by (cases "x = 0") auto

lemma rnd_rat_mono_same:
  assumes "0 < x" "x \<le> y" "ulp_exp x = ulp_exp y"
  shows "rnd_rat x \<le> rnd_rat y"
proof -
  have "rne (x / pow2 (ulp_exp y)) \<le> rne (y / pow2 (ulp_exp y))"
    using assms(2) by (intro rne_mono divide_right_mono) (auto simp: less_imp_le)
  then show ?thesis
    using assms by (simp add: rnd_rat_def Let_def mult_right_mono)
qed

lemma rnd_rat_mono_diff:
  assumes "0 < x" "x \<le> y" "ulp_exp x < ulp_exp y"
  shows "rnd_rat x \<le> rnd_rat y"
proof -
  let ?l = "log2_floor y"
  from assms have y0: "0 < y" by simp
  have uy: "ulp_exp y = ?l - 52" and lx: "log2_floor x + 1 \<le> ?l"
    using assms y0 by (auto simp: ulp_exp_def split: if_splits)
  have "x < pow2 (log2_floor x + 1)" using log2_floor_bounds(2) [OF assms(1)] .
  also have "\<dots> \<le> pow2 ?l" using lx by (rule pow2_mono)
  finally have xl: "x \<le> pow2 ?l" by simp
  have ux: "ulp_exp x \<le> ?l" using assms(3) uy by simp
  have bx: "pow2 ?l = of_int (2 ^ nat (?l - ulp_exp x)) * pow2 (ulp_exp x)"
    using ux pow2_nonneg_int [of "?l - ulp_exp x"] pow2_add [of "?l - ulp_exp x" "ulp_exp x"]
    by simp
  have "rnd_rat x \<le> pow2 ?l"
    unfolding bx by (rule rnd_rat_le_multiple [OF assms(1)]) (use xl bx in simp)
  also have yl: "pow2 ?l = of_int (2 ^ 52) * pow2 (ulp_exp y)"
    using pow2_add [of 52 "?l - 52"] uy by (simp add: pow2_def)
  also have "\<dots> \<le> rnd_rat y"
    by (rule rnd_rat_ge_multiple [OF y0])
       (use log2_floor_bounds(1) [OF y0] yl in simp)
  finally show ?thesis .
qed

lemma rnd_rat_mono_pos: "0 < x \<Longrightarrow> x \<le> y \<Longrightarrow> rnd_rat x \<le> rnd_rat y"
  using rnd_rat_mono_same rnd_rat_mono_diff ulp_exp_mono by (metis order_le_less)

lemma rnd_rat_mono: assumes "x \<le> y" shows "rnd_rat x \<le> rnd_rat y"
proof (cases "0 < x")
  case True
  then show ?thesis using assms by (rule rnd_rat_mono_pos)
next
  case False
  show ?thesis
  proof (cases "0 \<le> y")
    case True
    have "0 \<le> rnd_rat (- x)" using False by (intro rnd_rat_nonneg) simp
    then show ?thesis using rnd_rat_nonneg [OF True] by (simp add: rnd_rat_uminus)
  next
    case y: False
    then have "rnd_rat (- y) \<le> rnd_rat (- x)"
      using assms by (intro rnd_rat_mono_pos) auto
    then show ?thesis by (simp add: rnd_rat_uminus)
  qed
qed

text \<open>Integers of at most 53 bits are exact.\<close>

lemma rnd_rat_of_int_pos:
  assumes "0 < n" "n \<le> 2 ^ 53"
  shows "rnd_rat (of_int n) = of_int n"
proof -
  let ?u = "ulp_exp (of_int n)"
  have pos: "0 < (of_int n :: rat)" using assms by simp
  have "log2_floor (of_int n) \<le> 53"
  proof (rule ccontr)
    assume "\<not> ?thesis"
    then have "pow2 54 \<le> pow2 (log2_floor (of_int n))" by (intro pow2_mono) simp
    also have "\<dots> \<le> of_int n" using log2_floor_bounds(1) [OF pos] .
    also have "\<dots> \<le> of_int (2 ^ 53)" using assms(2) by (simp only: of_int_le_iff)
    finally show False by (simp add: pow2_def)
  qed
  then have u1: "?u \<le> 1" using pos by (simp add: ulp_exp_def)
  show ?thesis
  proof (cases "?u \<le> 0")
    case True
    then have "of_int n / pow2 ?u = of_int (n * 2 ^ nat (- ?u))"
      by (simp add: pow2_def divide_simps)
    then have "rne (of_int n / pow2 ?u) = n * 2 ^ nat (- ?u)" by (simp only: rne_of_int)
    with True pos show ?thesis by (simp add: rnd_rat_def Let_def pow2_def)
  next
    case False
    with u1 have u: "?u = 1" by simp
    have "log2_floor (of_int n) = 53" using u pos \<open>log2_floor (of_int n) \<le> 53\<close>
      by (simp add: ulp_exp_def max_def split: if_splits)
    then have "pow2 53 \<le> of_int n" using log2_floor_bounds(1) [OF pos] by simp
    then have "(of_int (2 ^ 53) :: rat) \<le> of_int n" by (simp add: pow2_def)
    then have n: "n = 2 ^ 53" using assms(2) by (simp only: of_int_le_iff)
    then have "of_int n / pow2 ?u = of_int (2 ^ 52)"
      unfolding u by (simp add: pow2_def)
    then have "rne (of_int n / pow2 ?u) = 2 ^ 52" by (simp only: rne_of_int)
    moreover have "rnd_rat (of_int n) = of_int (rne (of_int n / pow2 ?u)) * pow2 ?u"
      using pos by (simp add: rnd_rat_def Let_def)
    ultimately show ?thesis unfolding u by (simp add: pow2_def n)
  qed
qed

lemma rnd_rat_of_int: assumes "\<bar>n\<bar> \<le> 2 ^ 53" shows "rnd_rat (of_int n) = of_int n"
proof (cases "n = 0")
  case False
  show ?thesis
  proof (cases "0 < n")
    case True
    then show ?thesis using assms by (intro rnd_rat_of_int_pos) auto
  next
    case neg: False
    then have "rnd_rat (of_int (- n)) = of_int (- n)"
      using assms False by (intro rnd_rat_of_int_pos) auto
    then show ?thesis by (simp add: rnd_rat_uminus)
  qed
qed simp

text \<open>Multiples of a unit with at most 53 bits are exact, so rounding is idempotent.\<close>

lemma rnd_rat_representable_pos:
  assumes "0 < k" "k \<le> 2 ^ 53" "- 1074 \<le> e"
  shows "rnd_rat (of_int k * pow2 e) = of_int k * pow2 e"
proof -
  let ?y = "of_int k * pow2 e :: rat"
  let ?u = "ulp_exp ?y"
  have y: "0 < ?y" using assms(1) by simp
  obtain m :: int where m: "?y = of_int m * pow2 ?u"
  proof (cases "?u \<le> e")
    case True
    have "pow2 e = of_int (2 ^ nat (e - ?u)) * pow2 ?u"
      using True pow2_nonneg_int [of "e - ?u"] pow2_add [of "e - ?u" ?u] by simp
    then show ?thesis by (intro that [of "k * 2 ^ nat (e - ?u)"]) simp
  next
    case False
    then have l: "log2_floor ?y = ?u + 52" using y assms(3) by (auto simp: ulp_exp_def split: if_splits)
    have "pow2 (e + 53) \<le> pow2 (?u + 52)" using False by (intro pow2_mono) simp
    also have "\<dots> \<le> ?y" using log2_floor_bounds(1) [OF y] unfolding l .
    finally have "pow2 53 * pow2 e \<le> of_int k * pow2 e" by (simp add: pow2_add)
    then have "pow2 53 \<le> of_int k" by simp
    then have "(of_int (2 ^ 53) :: rat) \<le> of_int k" by (simp add: pow2_def)
    then have k: "k = 2 ^ 53" using assms(2) by (simp only: of_int_le_iff)
    have y2: "?y = pow2 (e + 53)" unfolding k by (simp add: pow2_add) (simp add: pow2_def)
    have "?u \<le> e + 53"
    proof (rule ccontr)
      assume "\<not> ?thesis"
      then have "pow2 (1 + (e + 53)) \<le> pow2 (?u + 52)" by (intro pow2_mono) simp
      moreover have "pow2 (1 + (e + 53)) = 2 * pow2 (e + 53)" unfolding pow2_add [of 1] by (simp add: pow2_def)
      ultimately have "pow2 (e + 53) < pow2 (?u + 52)" using pow2_pos [of "e + 53"] by linarith
      then show False using log2_floor_bounds(1) [OF y] y2 unfolding l by simp
    qed
    then have "?y = of_int (2 ^ nat (e + 53 - ?u)) * pow2 ?u"
      using y2 pow2_nonneg_int [of "e + 53 - ?u"] pow2_add [of "e + 53 - ?u" ?u] by simp
    then show ?thesis by (rule that)
  qed
  then have "?y / pow2 ?u = of_int m" by (simp add: divide_simps)
  then have "rnd_rat ?y = of_int m * pow2 ?u" using y assms(1) by (simp add: rnd_rat_def Let_def)
  then show ?thesis using m by simp
qed

lemma rnd_rat_idem_pos: assumes "0 < x" shows "rnd_rat (rnd_rat x) = rnd_rat x"
proof -
  let ?e = "ulp_exp x"
  let ?k = "rne (x / pow2 ?e)"
  have r: "rnd_rat x = of_int ?k * pow2 ?e" using assms by (simp add: rnd_rat_def Let_def)
  have e: "- 1074 \<le> ?e" by (simp add: ulp_exp_def)
  have "x < pow2 (log2_floor x + 1)" using log2_floor_bounds(2) [OF assms] .
  also have "\<dots> \<le> pow2 (?e + 53)" using assms by (intro pow2_mono) (simp add: ulp_exp_def)
  also have "\<dots> = of_int (2 ^ 53) * pow2 ?e" by (simp add: pow2_add) (simp add: pow2_def)
  finally have "x / pow2 ?e \<le> of_int (2 ^ 53)" by (simp add: divide_le_eq)
  then have k1: "?k \<le> 2 ^ 53" by (rule rne_le_of_int)
  have "of_int 0 \<le> x / pow2 ?e" using assms by (simp add: less_imp_le)
  then have k0: "0 \<le> ?k" by (rule rne_ge_of_int)
  show ?thesis
  proof (cases "?k = 0")
    case False
    then show ?thesis unfolding r using k0 k1 e by (intro rnd_rat_representable_pos) auto
  qed (simp add: r)
qed

lemma rnd_rat_idem: "rnd_rat (rnd_rat x) = rnd_rat x"
proof (cases "x = 0")
  case False
  show ?thesis
  proof (cases "0 < x")
    case True
    then show ?thesis by (rule rnd_rat_idem_pos)
  next
    case neg: False
    then have "rnd_rat (rnd_rat (- x)) = rnd_rat (- x)" using False by (intro rnd_rat_idem_pos) simp
    then show ?thesis by (simp add: rnd_rat_uminus)
  qed
qed simp

text \<open>Rounding moves a value by at most half a unit.\<close>

lemma rnd_rat_error: "\<bar>rnd_rat x - x\<bar> \<le> pow2 (ulp_exp x) / 2"
proof (cases "x = 0")
  case False
  let ?u = "pow2 (ulp_exp x)"
  have "rnd_rat x - x = (of_int (rne (x / ?u)) - x / ?u) * ?u"
    using False by (simp add: rnd_rat_def Let_def left_diff_distrib)
  then have "\<bar>rnd_rat x - x\<bar> = \<bar>of_int (rne (x / ?u)) - x / ?u\<bar> * ?u"
    by (simp add: abs_mult less_imp_le)
  also have "\<dots> \<le> 1 / 2 * ?u"
    by (intro mult_right_mono rne_bounds) (simp add: less_imp_le)
  finally show ?thesis by simp
qed (simp add: less_imp_le)

subsection \<open>The type and its total order\<close>

datatype f64 = NInf | Fin rat | PInf | NaN

text \<open>The declared order is \<open>f64::total_cmp\<close>.\<close>

instantiation f64 :: linorder
begin

fun less_eq_f64 :: "f64 \<Rightarrow> f64 \<Rightarrow> bool" where
  "less_eq_f64 NInf y = True"
| "less_eq_f64 (Fin a) (Fin b) = (a \<le> b)"
| "less_eq_f64 (Fin a) y = (y \<noteq> NInf)"
| "less_eq_f64 PInf y = (y = PInf \<or> y = NaN)"
| "less_eq_f64 NaN y = (y = NaN)"

definition less_f64 :: "f64 \<Rightarrow> f64 \<Rightarrow> bool" where
  "less_f64 x y \<longleftrightarrow> x \<le> y \<and> \<not> y \<le> (x :: f64)"

instance
proof
  fix x y z :: f64
  show "x < y \<longleftrightarrow> x \<le> y \<and> \<not> y \<le> x" by (rule less_f64_def)
  show "x \<le> x" by (cases x) auto
  show "x \<le> y \<Longrightarrow> y \<le> z \<Longrightarrow> x \<le> z" by (cases x; cases y; cases z) auto
  show "x \<le> y \<Longrightarrow> y \<le> x \<Longrightarrow> x = y" by (cases x; cases y) auto
  show "x \<le> y \<or> y \<le> x" by (cases x; cases y) auto
qed

end

lemma less_f64_Fin [simp]: "Fin a < Fin b \<longleftrightarrow> a < b"
  by (auto simp: less_f64_def)

text \<open>\<open>f64::is_finite\<close> and the IEEE comparisons.\<close>

fun is_finite :: "f64 \<Rightarrow> bool" where
  "is_finite (Fin _) = True"
| "is_finite _ = False"

definition fle :: "f64 \<Rightarrow> f64 \<Rightarrow> bool" where
  "fle x y \<longleftrightarrow> x \<noteq> NaN \<and> y \<noteq> NaN \<and> x \<le> y"

definition flt :: "f64 \<Rightarrow> f64 \<Rightarrow> bool" where
  "flt x y \<longleftrightarrow> x \<noteq> NaN \<and> y \<noteq> NaN \<and> x < y"

definition feq :: "f64 \<Rightarrow> f64 \<Rightarrow> bool" where
  "feq x y \<longleftrightarrow> x \<noteq> NaN \<and> x = y"

lemma is_finite_iff: "is_finite x \<longleftrightarrow> (\<exists>a. x = Fin a)"
  by (cases x) auto

lemma is_finiteE: "is_finite x \<Longrightarrow> (\<And>a. x = Fin a \<Longrightarrow> P) \<Longrightarrow> P"
  by (auto simp: is_finite_iff)

lemma fle_Fin [simp]: "fle (Fin a) (Fin b) \<longleftrightarrow> a \<le> b"
  by (simp add: fle_def)

lemma flt_Fin [simp]: "flt (Fin a) (Fin b) \<longleftrightarrow> a < b"
  by (simp add: flt_def)

lemma feq_Fin [simp]: "feq (Fin a) (Fin b) \<longleftrightarrow> a = b"
  by (simp add: feq_def)

subsection \<open>Rounded arithmetic\<close>

definition rnd :: "rat \<Rightarrow> f64" where
  "rnd x = (let q = rnd_rat x in
     if 2 ^ 1024 \<le> q then PInf else if q \<le> - (2 ^ 1024) then NInf else Fin q)"

fun fneg :: "f64 \<Rightarrow> f64" where
  "fneg NInf = PInf"
| "fneg PInf = NInf"
| "fneg NaN = NaN"
| "fneg (Fin a) = Fin (- a)"

fun fadd :: "f64 \<Rightarrow> f64 \<Rightarrow> f64" where
  "fadd NaN y = NaN"
| "fadd x NaN = NaN"
| "fadd (Fin a) (Fin b) = rnd (a + b)"
| "fadd PInf NInf = NaN"
| "fadd NInf PInf = NaN"
| "fadd PInf y = PInf"
| "fadd NInf y = NInf"
| "fadd (Fin a) y = y"

definition fsub :: "f64 \<Rightarrow> f64 \<Rightarrow> f64" where
  "fsub x y = fadd x (fneg y)"

fun fsgn :: "f64 \<Rightarrow> int" where
  "fsgn NInf = - 1"
| "fsgn PInf = 1"
| "fsgn NaN = 0"
| "fsgn (Fin a) = (if a < 0 then - 1 else if 0 < a then 1 else 0)"

definition finf :: "int \<Rightarrow> f64" where
  "finf s = (if s < 0 then NInf else if 0 < s then PInf else NaN)"

definition fmul :: "f64 \<Rightarrow> f64 \<Rightarrow> f64" where
  "fmul x y = (case (x, y) of
     (Fin a, Fin b) \<Rightarrow> rnd (a * b)
   | _ \<Rightarrow> if x = NaN \<or> y = NaN then NaN else finf (fsgn x * fsgn y))"

definition fdiv :: "f64 \<Rightarrow> f64 \<Rightarrow> f64" where
  "fdiv x y = (case (x, y) of
     (Fin a, Fin b) \<Rightarrow> if b = 0 then finf (fsgn x) else rnd (a / b)
   | (NaN, _) \<Rightarrow> NaN
   | (_, NaN) \<Rightarrow> NaN
   | (Fin a, _) \<Rightarrow> Fin 0
   | (_, Fin b) \<Rightarrow> (if b < 0 then fneg x else x)
   | _ \<Rightarrow> NaN)"

fun fabs :: "f64 \<Rightarrow> f64" where
  "fabs NInf = PInf"
| "fabs PInf = PInf"
| "fabs NaN = NaN"
| "fabs (Fin a) = Fin \<bar>a\<bar>"

text \<open>\<open>f64::min\<close> and \<open>f64::max\<close> return the other operand when one is NaN;
  \<open>f64::clamp\<close> keeps a NaN.\<close>

definition fmin :: "f64 \<Rightarrow> f64 \<Rightarrow> f64" where
  "fmin x y = (if x = NaN then y else if y = NaN then x else min x y)"

definition fmax :: "f64 \<Rightarrow> f64 \<Rightarrow> f64" where
  "fmax x y = (if x = NaN then y else if y = NaN then x else max x y)"

definition fclamp :: "f64 \<Rightarrow> f64 \<Rightarrow> f64 \<Rightarrow> f64" where
  "fclamp x lo hi = (if flt x lo then lo else if flt hi x then hi else x)"

text \<open>\<open>n as f64\<close>, and \<open>x as usize\<close>, which truncates and saturates.\<close>

definition f_of_nat :: "nat \<Rightarrow> f64" where
  "f_of_nat n = rnd (of_nat n)"

fun f_to_usize :: "f64 \<Rightarrow> nat" where
  "f_to_usize NaN = 0"
| "f_to_usize NInf = 0"
| "f_to_usize PInf = 2 ^ 64 - 1"
| "f_to_usize (Fin a) = (if a < 0 then 0 else min (nat \<lfloor>a\<rfloor>) (2 ^ 64 - 1))"

fun f_floor :: "f64 \<Rightarrow> f64" where
  "f_floor (Fin a) = Fin (of_int \<lfloor>a\<rfloor>)"
| "f_floor x = x"

fun f_ceil :: "f64 \<Rightarrow> f64" where
  "f_ceil (Fin a) = Fin (of_int \<lceil>a\<rceil>)"
| "f_ceil x = x"

text \<open>\<open>f64::fract() == 0.0\<close>.\<close>

fun f_is_integral :: "f64 \<Rightarrow> bool" where
  "f_is_integral (Fin a) = (of_int \<lfloor>a\<rfloor> = a)"
| "f_is_integral x = False"

text \<open>\<open>Iterator::sum::<f64>\<close> folds from the left.\<close>

definition f_sum :: "f64 list \<Rightarrow> f64" where
  "f_sum xs = foldl fadd (Fin 0) xs"

text \<open>\<open>Duration::as_secs_f64\<close>: whole seconds plus nanoseconds over \<open>1e9\<close>.\<close>

definition as_secs_f64 :: "duration \<Rightarrow> f64" where
  "as_secs_f64 d =
     fadd (f_of_nat (d div 1000000000)) (fdiv (f_of_nat (d mod 1000000000)) (Fin 1000000000))"

subsection \<open>Rounding as an interface\<close>

text \<open>
  What the components use of rounding: it is monotone, never NaN, and exact on integers of
  53 bits. Sign and range facts about computed rates follow from these three laws alone.
\<close>

locale monotone_rounding =
  fixes rd :: "rat \<Rightarrow> f64"
  assumes rd_mono: "x \<le> y \<Longrightarrow> rd x \<le> rd y"
    and rd_exact: "\<bar>n\<bar> \<le> 2 ^ 53 \<Longrightarrow> rd (of_int n) = Fin (of_int n)"
    and rd_not_NaN: "rd x \<noteq> NaN"
begin

lemma between_ints:
  assumes "of_int m \<le> x" "x \<le> of_int n" "\<bar>m\<bar> \<le> 2 ^ 53" "\<bar>n\<bar> \<le> 2 ^ 53"
  shows "Fin (of_int m) \<le> rd x" "rd x \<le> Fin (of_int n)"
  using rd_mono [OF assms(1)] rd_mono [OF assms(2)] assms(3,4) by (simp_all add: rd_exact)

lemma nonneg: "0 \<le> x \<Longrightarrow> Fin 0 \<le> rd x"
  using rd_mono [of 0 x] rd_exact [of 0] by simp

lemma nonpos: "x \<le> 0 \<Longrightarrow> rd x \<le> Fin 0"
  using rd_mono [of x 0] rd_exact [of 0] by simp

lemma le_one: "x \<le> 1 \<Longrightarrow> rd x \<le> Fin 1"
  using rd_mono [of x 1] rd_exact [of 1] by simp

lemma unit_finite:
  assumes "0 \<le> x" "x \<le> 1"
  obtains r where "rd x = Fin r" "0 \<le> r" "r \<le> 1"
proof -
  have "Fin 0 \<le> rd x" "rd x \<le> Fin 1" by (simp_all add: nonneg le_one assms)
  then show ?thesis using that rd_not_NaN [of x] by (cases "rd x") auto
qed

end

lemma rnd_mono: "x \<le> y \<Longrightarrow> rnd x \<le> rnd y"
  using rnd_rat_mono [of x y] by (auto simp: rnd_def Let_def)

lemma rnd_not_NaN [simp]: "rnd x \<noteq> NaN"
  by (simp add: rnd_def Let_def)

lemma rnd_of_int: assumes "\<bar>n\<bar> \<le> 2 ^ 53" shows "rnd (of_int n) = Fin (of_int n)"
proof -
  have "\<bar>of_int n :: rat\<bar> \<le> of_int (2 ^ 53)"
    using assms by (simp only: of_int_abs [symmetric] of_int_le_iff)
  moreover have "(of_int (2 ^ 53) :: rat) < 2 ^ 1024" by simp
  ultimately have "\<bar>of_int n :: rat\<bar> < 2 ^ 1024" by (rule order_le_less_trans)
  then have "\<not> 2 ^ 1024 \<le> (of_int n :: rat)" "\<not> (of_int n :: rat) \<le> - (2 ^ 1024)"
    by (auto simp only: abs_less_iff)
  then show ?thesis
    unfolding rnd_def Let_def rnd_rat_of_int [OF assms] by (simp only: if_False)
qed

interpretation f64_round: monotone_rounding rnd
  by unfold_locales (auto simp: rnd_of_int intro: rnd_mono)

lemma rnd_0 [simp]: "rnd 0 = Fin 0" and rnd_1 [simp]: "rnd 1 = Fin 1"
  using rnd_of_int [of 0] rnd_of_int [of 1] by simp_all

lemma rnd_cases: "(\<And>r. rnd x = Fin r \<Longrightarrow> P) \<Longrightarrow> (rnd x = PInf \<Longrightarrow> P) \<Longrightarrow> (rnd x = NInf \<Longrightarrow> P) \<Longrightarrow> P"
  using rnd_not_NaN [of x] by (cases "rnd x") auto

lemma f_of_nat_0 [simp]: "f_of_nat 0 = Fin 0"
  by (simp add: f_of_nat_def)

lemma f_of_nat_exact: "n \<le> 2 ^ 53 \<Longrightarrow> f_of_nat n = Fin (of_nat n)"
proof -
  assume "n \<le> 2 ^ 53"
  then have "int n \<le> int (2 ^ 53)" by (simp only: of_nat_le_iff)
  then have "\<bar>int n\<bar> \<le> 2 ^ 53" by simp
  then show ?thesis using rnd_of_int [of "int n"] by (simp add: f_of_nat_def)
qed

lemma f_of_nat_mono: "m \<le> n \<Longrightarrow> f_of_nat m \<le> f_of_nat n"
  by (simp add: f_of_nat_def rnd_mono)

lemma f_of_nat_not_NaN [simp]: "f_of_nat n \<noteq> NaN"
  by (simp add: f_of_nat_def)

lemma f_of_nat_nonneg [simp]: "Fin 0 \<le> f_of_nat n"
  using f_of_nat_mono [of 0 n] by simp

lemma f_of_nat_pos: assumes "0 < n" shows "Fin 1 \<le> f_of_nat n"
  using f_of_nat_mono [of 1 n] f_of_nat_exact [of 1] assms by simp

text \<open>A 64-bit count is below the overflow threshold, so it converts to a finite value.\<close>

lemma rnd_rat_le_2_64: assumes "x \<le> 18446744073709551616" shows "rnd_rat x < 2 ^ 1024"
proof -
  have "rnd_rat x \<le> rnd_rat 18446744073709551616" using assms by (rule rnd_rat_mono)
  also have "rnd_rat 18446744073709551616 = 18446744073709551616" by code_simp
  also have "\<dots> < (2 :: rat) ^ 1024" by simp
  finally show ?thesis .
qed

lemma rnd_small: assumes "\<bar>x\<bar> \<le> 18446744073709551616" shows "rnd x = Fin (rnd_rat x)"
proof -
  have up: "\<not> 2 ^ 1024 \<le> rnd_rat x"
    using rnd_rat_le_2_64 [of x] assms unfolding not_le abs_le_iff by blast
  have "rnd_rat (- x) < 2 ^ 1024" using assms by (intro rnd_rat_le_2_64) (simp add: abs_le_iff)
  then have down: "\<not> rnd_rat x \<le> - (2 ^ 1024)"
    unfolding rnd_rat_uminus not_le by (simp only: minus_less_iff)
  show ?thesis
    unfolding rnd_def Let_def using up down by (simp only: if_False)
qed

lemma rnd_finite: "\<bar>x\<bar> \<le> 18446744073709551616 \<Longrightarrow> is_finite (rnd x)"
  by (simp only: rnd_small is_finite.simps)

text \<open>Evaluation skips the overflow tests where they cannot matter.\<close>

lemma rnd_code [code]:
  "rnd x = (if \<bar>x\<bar> \<le> 18446744073709551616 then Fin (rnd_rat x)
            else let q = rnd_rat x in
              if 2 ^ 1024 \<le> q then PInf else if q \<le> - (2 ^ 1024) then NInf else Fin q)"
  using rnd_small [of x] unfolding rnd_def by (simp only: if_True if_False split: if_split) simp

lemma f_of_nat_finite: assumes "n < 2 ^ 64" shows "is_finite (f_of_nat n)"
proof -
  have "(of_nat n :: rat) \<le> of_nat (2 ^ 64)" using assms by (simp only: of_nat_le_iff)
  then show ?thesis unfolding f_of_nat_def by (intro rnd_finite) simp
qed

subsection \<open>Values that are numbers and not negative\<close>

definition nonneg :: "f64 \<Rightarrow> bool" where
  "nonneg x \<longleftrightarrow> x \<noteq> NaN \<and> Fin 0 \<le> x"

lemma nonneg_Fin [simp]: "nonneg (Fin a) \<longleftrightarrow> 0 \<le> a"
  and nonneg_PInf [simp]: "nonneg PInf"
  and nonneg_NInf [simp]: "\<not> nonneg NInf"
  and nonneg_NaN [simp]: "\<not> nonneg NaN"
  by (simp_all add: nonneg_def)

lemma nonneg_rnd: "0 \<le> x \<Longrightarrow> nonneg (rnd x)"
  by (simp add: nonneg_def f64_round.nonneg)

lemma nonneg_f_of_nat [simp]: "nonneg (f_of_nat n)"
  by (simp add: nonneg_def)

lemma nonneg_fadd: "nonneg x \<Longrightarrow> nonneg y \<Longrightarrow> nonneg (fadd x y)"
  by (cases x; cases y) (auto intro: nonneg_rnd)

lemma nonneg_fmul: "is_finite x \<Longrightarrow> is_finite y \<Longrightarrow> nonneg x \<Longrightarrow> nonneg y \<Longrightarrow> nonneg (fmul x y)"
  by (cases x; cases y) (auto simp: fmul_def intro: nonneg_rnd)

lemma nonneg_fdiv:
  "nonneg x \<Longrightarrow> is_finite y \<Longrightarrow> flt (Fin 0) y \<Longrightarrow> nonneg (fdiv x y)"
  by (cases x; cases y) (auto simp: fdiv_def intro: nonneg_rnd)

lemma nonneg_fmax_0: "nonneg (fmax x (Fin 0))"
  by (cases x) (auto simp: fmax_def max_def)

lemma nonneg_f_sum: assumes "list_all nonneg xs" shows "nonneg (f_sum xs)"
proof -
  have "nonneg a \<Longrightarrow> nonneg (foldl fadd a xs)" for a
    using assms by (induction xs arbitrary: a) (auto intro: nonneg_fadd)
  then show ?thesis by (simp add: f_sum_def)
qed

lemma nonneg_as_secs_f64: "nonneg (as_secs_f64 d)"
  unfolding as_secs_f64_def
  by (intro nonneg_fadd nonneg_f_of_nat nonneg_fdiv) auto

lemma rnd_idem: assumes "rnd x = Fin r" shows "rnd r = Fin r"
proof -
  have r: "r = rnd_rat x" and b: "\<not> 2 ^ 1024 \<le> r" "\<not> r \<le> - (2 ^ 1024)"
    using assms unfolding rnd_def Let_def by (auto split: if_splits)
  have "rnd_rat r = r" unfolding r by (rule rnd_rat_idem)
  then show ?thesis unfolding rnd_def Let_def using b by (simp only: if_False)
qed

text \<open>The values a computation can hold: everything but rationals that are no binary64 value.\<close>

fun is_f64 :: "f64 \<Rightarrow> bool" where
  "is_f64 (Fin a) = (rnd a = Fin a)"
| "is_f64 _ = True"

lemma is_f64_rnd [simp]: "is_f64 (rnd x)"
  by (cases "rnd x") (auto dest: rnd_idem)

lemma is_f64_fadd: "is_f64 x \<Longrightarrow> is_f64 y \<Longrightarrow> is_f64 (fadd x y)"
  by (cases x; cases y) simp_all

lemma fadd_ge: assumes "is_f64 x" "nonneg y" "nonneg x" shows "x \<le> fadd x y"
proof (cases x; cases y)
  fix a b assume "x = Fin a" "y = Fin b"
  then show ?thesis using assms rnd_mono [of a "a + b"] by simp
qed (use assms in \<open>auto simp: nonneg_def\<close>)

text \<open>A quotient of counts \<open>k \<le> n\<close> is a number in the unit interval.\<close>

lemma fraction_unit:
  assumes "k \<le> n" "0 < n" "n < 2 ^ 64"
  obtains r where "fdiv (f_of_nat k) (f_of_nat n) = Fin r" "0 \<le> r" "r \<le> 1"
proof -
  obtain a where a: "f_of_nat k = Fin a"
    using f_of_nat_finite [of k] assms by (auto elim: is_finiteE)
  obtain b where b: "f_of_nat n = Fin b"
    using f_of_nat_finite [of n] assms by (auto elim: is_finiteE)
  have a0: "0 \<le> a" using f_of_nat_nonneg [of k] a by simp
  have b1: "1 \<le> b" using f_of_nat_pos [OF assms(2)] b by simp
  have ab: "a \<le> b" using f_of_nat_mono [OF assms(1)] a b by simp
  have "0 \<le> a / b" "a / b \<le> 1" using a0 b1 ab by simp_all
  then show ?thesis
    by (rule f64_round.unit_finite) (use that a b b1 in \<open>simp add: fdiv_def\<close>)
qed

end
