(* ===== verification/Json.thy ===== *)
theory Json
  imports Ordered_Map F64
begin

text \<open>
  JSON values as the sources see them through \<open>serde_json::Value\<close>: objects are
  \<open>BTreeMap\<close>s, numbers are an unsigned or negative 64-bit integer or a finite
  \<open>f64\<close>. The accessors \<open>get\<close>, \<open>as_u64\<close>, \<open>as_f64\<close>, \<open>as_str\<close>, \<open>as_array\<close>,
  \<open>as_object\<close>, indexing and \<open>pointer\<close> are the ones the sources call. Parsing and
  printing are code of that package, so they are parameters of the definitions that use
  them.
\<close>

datatype jnumber = PosInt nat | NegInt int | Float f64

datatype json =
    JNull
  | JBool bool
  | JNumber jnumber
  | JString ustr
  | JArray "json list"
  | JObject "(ustr \<times> json) list"

type_synonym json_map = "(ustr, json) btree"

text \<open>The parameter that stands for the package: the text parser (\<open>None\<close> is a parse
  error) and the printer behind \<open>Value::to_string\<close>.\<close>

record serde =
  from_str :: "ustr \<Rightarrow> json option"
  to_string :: "json \<Rightarrow> ustr"

subsection \<open>Accessors\<close>

fun as_object :: "json \<Rightarrow> json_map option" where
  "as_object (JObject m) = Some m"
| "as_object _ = None"

fun as_array :: "json \<Rightarrow> json list option" where
  "as_array (JArray xs) = Some xs"
| "as_array _ = None"

fun as_str :: "json \<Rightarrow> ustr option" where
  "as_str (JString s) = Some s"
| "as_str _ = None"

fun as_u64 :: "json \<Rightarrow> nat option" where
  "as_u64 (JNumber (PosInt n)) = Some n"
| "as_u64 _ = None"

fun as_i64 :: "json \<Rightarrow> int option" where
  "as_i64 (JNumber (PosInt n)) = (if n < 2 ^ 63 then Some (int n) else None)"
| "as_i64 (JNumber (NegInt i)) = Some i"
| "as_i64 _ = None"

fun as_bool :: "json \<Rightarrow> bool option" where
  "as_bool (JBool b) = Some b"
| "as_bool _ = None"

fun as_f64 :: "json \<Rightarrow> f64 option" where
  "as_f64 (JNumber (PosInt n)) = Some (f_of_nat n)"
| "as_f64 (JNumber (NegInt i)) = Some (rnd (of_int i))"
| "as_f64 (JNumber (Float x)) = Some x"
| "as_f64 _ = None"

fun is_null :: "json \<Rightarrow> bool" where
  "is_null JNull = True"
| "is_null _ = False"

definition jget :: "json \<Rightarrow> string \<Rightarrow> json option" where
  "jget v k = Option.bind (as_object v) (\<lambda>m. bt_get m (lit k))"

text \<open>\<open>value["k"]\<close> is \<open>null\<close> where the key is absent or the value is no object.\<close>

definition jindex :: "json \<Rightarrow> string \<Rightarrow> json" where
  "jindex v k = (case jget v k of Some x \<Rightarrow> x | None \<Rightarrow> JNull)"

text \<open>\<open>Value::pointer\<close> on a path whose tokens are names: an array has no such index.\<close>

fun pointer :: "json \<Rightarrow> string list \<Rightarrow> json option" where
  "pointer v [] = Some v"
| "pointer v (k # ks) = (case jget v k of Some x \<Rightarrow> pointer x ks | None \<Rightarrow> None)"

definition get_str :: "json \<Rightarrow> string \<Rightarrow> ustr option" where
  "get_str v k = Option.bind (jget v k) as_str"

definition get_u64 :: "json \<Rightarrow> string \<Rightarrow> nat option" where
  "get_u64 v k = Option.bind (jget v k) as_u64"

definition get_array :: "json \<Rightarrow> string \<Rightarrow> json list option" where
  "get_array v k = Option.bind (jget v k) as_array"

text \<open>Building values: \<open>json!\<close> objects, numbers (\<open>null\<close> where a float is not finite) and options.\<close>

definition jobject :: "(string \<times> json) list \<Rightarrow> json" where
  "jobject kvs = JObject (fold (\<lambda>(k, v). bt_insert (lit k) v) kvs [])"

definition jnat :: "nat \<Rightarrow> json" where
  "jnat n = JNumber (PosInt n)"

definition jint :: "int \<Rightarrow> json" where
  "jint i = JNumber (if 0 \<le> i then PosInt (nat i) else NegInt i)"

definition jf64 :: "f64 \<Rightarrow> json" where
  "jf64 x = (if is_finite x then JNumber (Float x) else JNull)"

definition jopt :: "('a \<Rightarrow> json) \<Rightarrow> 'a option \<Rightarrow> json" where
  "jopt f v = (case v of None \<Rightarrow> JNull | Some x \<Rightarrow> f x)"

definition jstr :: "string \<Rightarrow> json" where
  "jstr s = JString (lit s)"

lemmas json_access = jget_def jindex_def get_str_def get_u64_def get_array_def bt_get_def

subsection \<open>Well-formed values\<close>

fun wf_number :: "jnumber \<Rightarrow> bool" where
  "wf_number (PosInt n) = (n < 2 ^ 64)"
| "wf_number (NegInt i) = (- (2 ^ 63) \<le> i \<and> i < 0)"
| "wf_number (Float x) = is_finite x"

fun wf_json :: "json \<Rightarrow> bool" where
  "wf_json (JNumber n) = wf_number n"
| "wf_json (JArray xs) = list_all wf_json xs"
| "wf_json (JObject m) = (bt_inv m \<and> list_all (\<lambda>kv. wf_json (snd kv)) m)"
| "wf_json _ = True"

lemma wf_json_get: "wf_json v \<Longrightarrow> jget v k = Some x \<Longrightarrow> wf_json x"
  by (cases v) (auto simp: jget_def list_all_iff dest!: bt_get_Some_in)

lemma wf_json_as_u64: "wf_json v \<Longrightarrow> as_u64 v = Some n \<Longrightarrow> n < 2 ^ 64"
  by (cases v rule: as_u64.cases) auto

lemma wf_json_pointer: "wf_json v \<Longrightarrow> pointer v ks = Some x \<Longrightarrow> wf_json x"
  by (induction v ks rule: pointer.induct) (auto split: option.splits intro: wf_json_get)

text \<open>Every number of a well-formed value is finite as an \<open>f64\<close>.\<close>

lemma rnd_of_int_i64: assumes "- (2 ^ 63) \<le> i" "i < 0" shows "is_finite (rnd (of_int i))"
proof (rule rnd_finite)
  have "(of_int (- (2 ^ 63)) :: rat) \<le> of_int i" "(of_int i :: rat) < 0"
    using assms by (simp_all only: of_int_le_iff of_int_less_0_iff)
  then show "\<bar>of_int i :: rat\<bar> \<le> 18446744073709551616" by (simp add: abs_le_iff)
qed

lemma wf_json_as_f64: "wf_json v \<Longrightarrow> as_f64 v = Some x \<Longrightarrow> is_finite x"
  by (cases v rule: as_f64.cases) (auto simp: f_of_nat_finite rnd_of_int_i64)

end
