(* ===== verification/Utf8.thy ===== *)
theory Utf8
  imports Prelude
begin

text \<open>
  UTF-8 as Rust's standard library reads and writes it: \<open>String::from_utf8_lossy\<close> replaces
  every maximal ill-formed prefix by U+FFFD, and a \<open>str\<close> holds Unicode scalar values
  only. Decoding an encoded text gives the text back.
\<close>

definition scalar :: "nat \<Rightarrow> bool" where
  "scalar c \<longleftrightarrow> c < 55296 \<or> 57344 \<le> c \<and> c < 1114112"

definition is_cont :: "nat \<Rightarrow> bool" where
  "is_cont b \<longleftrightarrow> 128 \<le> b \<and> b \<le> 191"

text \<open>The second byte a three- or four-byte lead admits.\<close>

definition second3_ok :: "nat \<Rightarrow> nat \<Rightarrow> bool" where
  "second3_ok b b1 \<longleftrightarrow>
     (if b = 224 then 160 \<le> b1 \<and> b1 \<le> 191
      else if b = 237 then 128 \<le> b1 \<and> b1 \<le> 159 else is_cont b1)"

definition second4_ok :: "nat \<Rightarrow> nat \<Rightarrow> bool" where
  "second4_ok b b1 \<longleftrightarrow>
     (if b = 240 then 144 \<le> b1 \<and> b1 \<le> 191
      else if b = 244 then 128 \<le> b1 \<and> b1 \<le> 143 else is_cont b1)"

definition byte_at :: "nat list \<Rightarrow> nat \<Rightarrow> nat" where
  "byte_at bs i = (if i < length bs then bs ! i else 0)"

definition replacement :: nat where
  "replacement = 65533"

text \<open>One character of \<open>b # bs\<close> and how many bytes of \<open>bs\<close> it uses.\<close>

definition decode1 :: "nat \<Rightarrow> nat list \<Rightarrow> nat \<times> nat" where
  "decode1 b bs =
     (let b1 = byte_at bs 0; b2 = byte_at bs 1; b3 = byte_at bs 2 in
      if b < 128 then (b, 0)
      else if 194 \<le> b \<and> b \<le> 223 then
        (if is_cont b1 then ((b - 192) * 64 + (b1 - 128), 1) else (replacement, 0))
      else if 224 \<le> b \<and> b \<le> 239 then
        (if \<not> second3_ok b b1 then (replacement, 0)
         else if \<not> is_cont b2 then (replacement, 1)
         else ((b - 224) * 4096 + (b1 - 128) * 64 + (b2 - 128), 2))
      else if 240 \<le> b \<and> b \<le> 244 then
        (if \<not> second4_ok b b1 then (replacement, 0)
         else if \<not> is_cont b2 then (replacement, 1)
         else if \<not> is_cont b3 then (replacement, 2)
         else ((b - 240) * 262144 + (b1 - 128) * 4096 + (b2 - 128) * 64 + (b3 - 128), 3))
      else (replacement, 0))"

function decode_lossy :: "nat list \<Rightarrow> ustr" where
  "decode_lossy [] = []"
| "decode_lossy (b # bs) =
     (let (c, n) = decode1 b bs in c # decode_lossy (drop n bs))"
  by pat_completeness auto
termination
  by (relation "measure length") auto

definition from_utf8_lossy :: "bytes \<Rightarrow> ustr" where
  "from_utf8_lossy bs = decode_lossy (map unat bs)"

definition encode1 :: "nat \<Rightarrow> nat list" where
  "encode1 c =
     (if c < 128 then [c]
      else if c < 2048 then [192 + c div 64, 128 + c mod 64]
      else if c < 65536 then [224 + c div 4096, 128 + c div 64 mod 64, 128 + c mod 64]
      else [240 + c div 262144, 128 + c div 4096 mod 64, 128 + c div 64 mod 64, 128 + c mod 64])"

definition utf8_encode :: "ustr \<Rightarrow> bytes" where
  "utf8_encode s = map of_nat (concat (map encode1 s))"

subsection \<open>Round trip\<close>

lemma byte_at_Cons [simp]: "byte_at (x # xs) 0 = x" "byte_at (x # xs) (Suc i) = byte_at xs i"
  by (simp_all add: byte_at_def)

lemma byte_at_1 [simp]: "byte_at (x # xs) 1 = byte_at xs 0"
  and byte_at_2 [simp]: "byte_at (x # xs) 2 = byte_at xs 1"
  by (simp_all add: byte_at_def)

text \<open>The base-64 digits of a code point, as fresh variables for linear arithmetic.\<close>

lemma digits64:
  obtains a b d e :: nat where
    "c = a * 262144 + b * 4096 + d * 64 + e" "b < 64" "d < 64" "e < 64"
    "c mod 64 = e" "c div 64 mod 64 = d" "c div 4096 mod 64 = b" "c div 262144 = a"
    "c div 64 = a * 4096 + b * 64 + d" "c div 4096 = a * 64 + b"
proof -
  define q where "q = c div 64"
  define p where "p = q div 64"
  have c: "c = 64 * q + c mod 64" and q: "q = 64 * p + q mod 64" and p: "p = 64 * (p div 64) + p mod 64"
    by (simp_all add: q_def p_def)
  have d4: "c div 4096 = p" using div_mult2_eq [of c 64 64] by (simp add: p_def q_def)
  have d5: "c div 262144 = p div 64" using div_mult2_eq [of c 4096 64] d4 by simp
  have q': "q = p div 64 * 4096 + p mod 64 * 64 + q mod 64" using q p by linarith
  then have "c = p div 64 * 262144 + p mod 64 * 4096 + q mod 64 * 64 + c mod 64" using c by linarith
  then show ?thesis
    by (rule that [of "p div 64" "p mod 64" "q mod 64" "c mod 64"])
       (use p q' d4 d5 in \<open>simp_all add: q_def [symmetric]\<close>)
qed

lemma encode1_two:
  assumes "128 \<le> c" "c < 2048"
  shows "decode1 (192 + c div 64) ((128 + c mod 64) # r) = (c, 1)"
proof (rule digits64 [of c])
  fix a b d e
  assume c: "c = a * 262144 + b * 4096 + d * 64 + e" "e < 64" "c mod 64 = e"
    "c div 64 = a * 4096 + b * 64 + d"
  then have "a = 0" "b = 0" using assms by linarith+
  then show ?thesis
    using c assms unfolding c(3,4) by (simp add: decode1_def is_cont_def)
qed

lemma encode1_three:
  assumes "2048 \<le> c" "c < 65536" "scalar c"
  shows "decode1 (224 + c div 4096) ((128 + c div 64 mod 64) # (128 + c mod 64) # r) = (c, 2)"
proof (rule digits64 [of c])
  fix a b d e
  assume c: "c = a * 262144 + b * 4096 + d * 64 + e" "b < 64" "d < 64" "e < 64"
    "c mod 64 = e" "c div 64 mod 64 = d" "c div 4096 = a * 64 + b"
  then have a: "a = 0" and b: "b < 16" using assms by linarith+
  have s: "second3_ok (224 + b) (128 + d)"
    using c(1,3,4) a assms unfolding second3_ok_def is_cont_def scalar_def
    by (auto split: if_splits)
  show ?thesis
    unfolding c(5,6,7) using a b s c(1,3,4) by (simp add: decode1_def is_cont_def)
qed

lemma encode1_four:
  assumes "65536 \<le> c" "scalar c"
  shows "decode1 (240 + c div 262144)
    ((128 + c div 4096 mod 64) # (128 + c div 64 mod 64) # (128 + c mod 64) # r) = (c, 3)"
proof (rule digits64 [of c])
  fix a b d e
  assume c: "c = a * 262144 + b * 4096 + d * 64 + e" "b < 64" "d < 64" "e < 64"
    "c mod 64 = e" "c div 64 mod 64 = d" "c div 4096 mod 64 = b" "c div 262144 = a"
  have lim: "c < 1114112" using assms by (auto simp: scalar_def)
  then have a: "a \<le> 4" using c(1) by linarith
  have s: "second4_ok (240 + a) (128 + b)"
    using c(1-4) a lim assms unfolding second4_ok_def is_cont_def by (auto split: if_splits)
  show ?thesis
    unfolding c(5-8) using a s c(1-4) by (simp add: decode1_def is_cont_def)
qed

lemma decode_lossy_step: "decode1 b bs = (c, n) \<Longrightarrow> decode_lossy (b # bs) = c # decode_lossy (drop n bs)"
  by simp

lemma decode_encode1: assumes "scalar c" shows "decode_lossy (encode1 c @ bs) = c # decode_lossy bs"
proof -
  consider "c < 128" | "128 \<le> c" "c < 2048" | "2048 \<le> c" "c < 65536" | "65536 \<le> c" by linarith
  then show ?thesis
  proof cases
    case 1
    then show ?thesis by (simp add: encode1_def decode1_def)
  next
    case 2
    then show ?thesis
      using decode_lossy_step [OF encode1_two [OF 2, of bs]] by (simp only: encode1_def) simp
  next
    case 3
    then show ?thesis
      using decode_lossy_step [OF encode1_three [OF 3 assms, of bs]] by (simp only: encode1_def) simp
  next
    case 4
    then show ?thesis
      using decode_lossy_step [OF encode1_four [OF 4 assms, of bs]] by (simp only: encode1_def) simp
  qed
qed

lemma decode_encode: "list_all scalar s \<Longrightarrow> decode_lossy (concat (map encode1 s)) = s"
  by (induction s) (simp_all add: decode_encode1)

lemma encode1_byte: assumes "scalar c" shows "list_all (\<lambda>b. b < 256) (encode1 c)"
proof (rule digits64 [of c])
  fix a b d e
  assume c: "c = a * 262144 + b * 4096 + d * 64 + e" "b < 64" "d < 64" "e < 64"
    "c mod 64 = e" "c div 64 mod 64 = d" "c div 4096 mod 64 = b" "c div 262144 = a"
    "c div 64 = a * 4096 + b * 64 + d" "c div 4096 = a * 64 + b"
  have "c < 1114112" using assms by (auto simp: scalar_def)
  then have "a \<le> 4" using c(1) by linarith
  moreover have "c < 65536 \<Longrightarrow> a * 64 + b < 32" "c < 2048 \<Longrightarrow> a * 4096 + b * 64 + d < 64"
    using c(1-4) by linarith+
  ultimately show ?thesis
    unfolding encode1_def unfolding c(5-8) unfolding c(9,10) using c(2-4)
    by (simp add: add.assoc)
qed

lemma unat_of_nat_byte: "b < 256 \<Longrightarrow> unat (of_nat b :: 8 word) = b"
  by (simp add: unat_of_nat)

lemma from_utf8_lossy_encode: assumes "list_all scalar s" shows "from_utf8_lossy (utf8_encode s) = s"
proof -
  have "list_all (\<lambda>b. b < 256) (concat (map encode1 s))"
    using assms by (induction s) (auto simp: encode1_byte)
  then have "map (unat \<circ> (of_nat :: nat \<Rightarrow> 8 word)) (concat (map encode1 s)) = concat (map encode1 s)"
    by (intro map_idI) (auto simp: list_all_iff unat_of_nat_byte)
  then show ?thesis
    by (simp only: from_utf8_lossy_def utf8_encode_def map_map decode_encode [OF assms])
qed

text \<open>Encoded text is free of a given ASCII byte when the text is.\<close>

lemma encode1_ascii: "a < 128 \<Longrightarrow> a \<in> set (encode1 c) \<Longrightarrow> a = c"
  unfolding encode1_def by (cases "c < 128"; cases "c < 2048"; cases "c < 65536") auto

lemma utf8_encode_ascii_notin:
  assumes "list_all scalar s" "a < 128" "a \<notin> set s"
  shows "(of_nat a :: 8 word) \<notin> set (utf8_encode s)"
proof
  assume "(of_nat a :: 8 word) \<in> set (utf8_encode s)"
  then obtain c b where c: "c \<in> set s" "b \<in> set (encode1 c)" "(of_nat a :: 8 word) = of_nat b"
    by (auto simp: utf8_encode_def)
  have "b < 256" using encode1_byte [of c] assms(1) c(1,2) by (auto simp: list_all_iff)
  then have "unat (of_nat b :: 8 word) = b" by (rule unat_of_nat_byte)
  moreover have "unat (of_nat a :: 8 word) = a" using assms(2) by (intro unat_of_nat_byte) simp
  ultimately have "a = b" using arg_cong [OF c(3), of unat] by (simp only:)
  then show False using encode1_ascii [of a c] c(1,2) assms(2,3) by auto
qed

lemma utf8_encode_append: "utf8_encode (s @ t) = utf8_encode s @ utf8_encode t"
  by (simp add: utf8_encode_def)

end
