(* ===== verification/Sse.thy ===== *)
theory Sse
  imports Json Utf8
begin

text \<open>
  Server-sent event framing (\<open>src/sse.rs\<close>): the incremental parser
  \<open>SseParser\<close> and the predicates on one streamed choice. The JSON parser is the
  parameter \<open>serde\<close>. The contract of an incremental parser, that its events do not
  depend on how the bytes are cut into chunks, is the locale \<open>incremental_parser\<close>.
\<close>

datatype sse_event = Done | Json json | Raw ustr

record sse_parser =
  pending :: bytes
  data_lines :: "ustr list"

definition sse_new :: sse_parser where
  "sse_new = \<lparr>pending = [], data_lines = []\<rparr>"

definition dispatch_event :: "serde \<Rightarrow> sse_parser \<Rightarrow> sse_parser \<times> sse_event option" where
  "dispatch_event sj p =
     (if data_lines p = [] then (p, None)
      else let payload = join [10] (data_lines p);
               p' = p\<lparr>data_lines := []\<rparr>
           in if payload = lit ''[DONE]'' then (p', Some Done)
              else (case from_str sj payload of
                      Some v \<Rightarrow> (p', Some (Json v))
                    | None \<Rightarrow> (p', Some (Raw payload))))"

definition handle_line :: "serde \<Rightarrow> sse_parser \<Rightarrow> bytes \<Rightarrow> sse_parser \<times> sse_event option" where
  "handle_line sj p line =
     (let txt = from_utf8_lossy line in
      if trim txt = [] then dispatch_event sj p
      else if starts_with (lit '':'') txt then (p, None)
      else let trimmed = trim_end txt in
        (case strip_prefix (lit ''data:'') trimmed of
           Some rest \<Rightarrow>
             let payload = unwrap_or (strip_prefix (lit '' '') rest) rest
             in (p\<lparr>data_lines := data_lines p @ [payload]\<rparr>, None)
         | None \<Rightarrow>
             if contains_sub (lit '':'') trimmed then (p, None) else (p, None)))"

text \<open>The position of the first line feed in the buffer.\<close>

fun position_nl :: "bytes \<Rightarrow> nat option" where
  "position_nl [] = None"
| "position_nl (b # bs) = (if b = 10 then Some 0 else map_option Suc (position_nl bs))"

definition pop_byte :: "8 word \<Rightarrow> bytes \<Rightarrow> bytes" where
  "pop_byte b line = (if line \<noteq> [] \<and> last line = b then butlast line else line)"

lemma position_nl_bound: "position_nl bs = Some n \<Longrightarrow> n < length bs"
  by (induction bs arbitrary: n) (auto split: if_splits)

text \<open>The loop of \<open>feed\<close> over the complete lines of the buffer.\<close>

lemma handle_line_pending: "pending (fst (handle_line sj p line)) = pending p"
  by (simp add: handle_line_def dispatch_event_def Let_def split: option.splits)

function feed_loop :: "serde \<Rightarrow> sse_parser \<Rightarrow> sse_parser \<times> sse_event list" where
  "feed_loop sj p =
     (case position_nl (pending p) of
        None \<Rightarrow> (p, [])
      | Some nl \<Rightarrow>
          let line = pop_byte 13 (pop_byte 10 (take (Suc nl) (pending p)));
              (p1, ev) = handle_line sj (p\<lparr>pending := drop (Suc nl) (pending p)\<rparr>) line;
              (p2, evs) = feed_loop sj p1
          in (p2, (case ev of Some e \<Rightarrow> e # evs | None \<Rightarrow> evs)))"
  by pat_completeness auto
termination
proof (relation "measure (\<lambda>(sj, p). length (pending p))", goal_cases)
  case (2 sj p nl line x p1 ev)
  then have "pending p1 = drop (Suc nl) (pending p)"
    using handle_line_pending [of sj "p\<lparr>pending := drop (Suc nl) (pending p)\<rparr>" line]
    by (metis fst_conv select_convs(1) surjective update_convs(1))
  then show ?case using position_nl_bound [OF 2(1)] by simp
qed simp

declare feed_loop.simps [simp del]

definition feed :: "serde \<Rightarrow> sse_parser \<Rightarrow> bytes \<Rightarrow> sse_parser \<times> sse_event list" where
  "feed sj p chunk = feed_loop sj (p\<lparr>pending := pending p @ chunk\<rparr>)"

definition has_pending :: "sse_parser \<Rightarrow> bool" where
  "has_pending p \<longleftrightarrow> pending p \<noteq> [] \<or> data_lines p \<noteq> []"

subsection \<open>Predicates on one choice\<close>

definition is_nonempty_str :: "ustr option \<Rightarrow> bool" where
  "is_nonempty_str s = (case s of Some t \<Rightarrow> t \<noteq> [] | None \<Rightarrow> False)"

definition choice_output_text :: "json \<Rightarrow> ustr option" where
  "choice_output_text choice =
     option_or (Option.bind (jget choice ''delta'') (\<lambda>d. get_str d ''content''))
       (get_str choice ''text'')"

definition choice_has_output_token :: "json \<Rightarrow> bool" where
  "choice_has_output_token choice =
     (if is_nonempty_str (choice_output_text choice) then True
      else case jget choice ''delta'' of
        None \<Rightarrow> False
      | Some delta \<Rightarrow>
          is_nonempty_str (Option.bind (jget delta ''function_call'') (\<lambda>fc. get_str fc ''arguments'')) \<or>
          (case get_array delta ''tool_calls'' of
             None \<Rightarrow> False
           | Some calls \<Rightarrow>
               list_ex (\<lambda>tc. is_nonempty_str
                 (Option.bind (jget tc ''function'') (\<lambda>f. get_str f ''arguments''))) calls))"

definition choice_has_reasoning_token :: "json \<Rightarrow> bool" where
  "choice_has_reasoning_token choice =
     (case jget choice ''delta'' of
        None \<Rightarrow> False
      | Some delta \<Rightarrow>
          list_ex (\<lambda>k. is_nonempty_str (get_str delta k)) [''reasoning_content'', ''reasoning''])"

definition choice_finish_reason :: "json \<Rightarrow> ustr option" where
  "choice_finish_reason choice = get_str choice ''finish_reason''"

subsection \<open>Incremental parsers\<close>

fun feed_all :: "('s \<Rightarrow> 'b list \<Rightarrow> 's \<times> 'e list) \<Rightarrow> 's \<Rightarrow> 'b list list \<Rightarrow> 's \<times> 'e list" where
  "feed_all f s [] = (s, [])"
| "feed_all f s (c # cs) =
     (let (s1, e1) = f s c; (s2, e2) = feed_all f s1 cs in (s2, e1 @ e2))"

locale incremental_parser =
  fixes f :: "'s \<Rightarrow> 'b list \<Rightarrow> 's \<times> 'e list"
    and idle :: "'s \<Rightarrow> bool"
  assumes idle_feed: "idle (fst (f s c))"
    and feed_Nil: "idle s \<Longrightarrow> f s [] = (s, [])"
    and feed_append: "f s (c @ d) = (let (s1, e1) = f s c; (s2, e2) = f s1 d in (s2, e1 @ e2))"
begin

lemma feed_all_concat: "idle s \<Longrightarrow> feed_all f s cs = f s (concat cs)"
proof (induction cs arbitrary: s)
  case (Cons c cs)
  then show ?case
    using idle_feed [of s c] by (cases "f s c") (simp add: feed_append Let_def split: prod.splits)
qed (simp add: feed_Nil)

lemma chunking: "idle s \<Longrightarrow> concat cs = concat ds \<Longrightarrow> feed_all f s cs = feed_all f s ds"
  by (simp add: feed_all_concat)

end

subsection \<open>The event parser is one\<close>

lemma handle_line_frame:
  "handle_line sj (p\<lparr>pending := x\<rparr>) line =
     (let (q, e) = handle_line sj p line in (q\<lparr>pending := x\<rparr>, e))"
  by (simp add: handle_line_def dispatch_event_def Let_def split: option.splits)

lemma position_nl_append: "position_nl bs = Some n \<Longrightarrow> position_nl (bs @ d) = Some n"
  by (induction bs arbitrary: n) (auto split: if_splits)

lemma position_nl_None: "position_nl bs = None \<longleftrightarrow> 10 \<notin> set bs"
  by (induction bs) auto

lemma feed_loop_None: "position_nl (pending p) = None \<Longrightarrow> feed_loop sj p = (p, [])"
  by (simp add: feed_loop.simps [of sj p])

lemma feed_loop_Some:
  assumes "position_nl (pending p) = Some nl"
    and "handle_line sj (p\<lparr>pending := drop (Suc nl) (pending p)\<rparr>)
      (pop_byte 13 (pop_byte 10 (take (Suc nl) (pending p)))) = (p1, ev)"
  shows "feed_loop sj p =
    (fst (feed_loop sj p1), (case ev of Some e \<Rightarrow> [e] | None \<Rightarrow> []) @ snd (feed_loop sj p1))"
  using assms
  by (subst feed_loop.simps) (simp add: Let_def split: option.splits prod.splits)

lemma feed_loop_idle: "position_nl (pending (fst (feed_loop sj p))) = None"
proof (induction sj p rule: feed_loop.induct)
  case (1 sj p)
  show ?case
  proof (cases "position_nl (pending p)")
    case None
    then show ?thesis by (simp add: feed_loop_None)
  next
    case (Some nl)
    obtain p1 ev where h: "handle_line sj (p\<lparr>pending := drop (Suc nl) (pending p)\<rparr>)
        (pop_byte 13 (pop_byte 10 (take (Suc nl) (pending p)))) = (p1, ev)"
      by (cases "handle_line sj (p\<lparr>pending := drop (Suc nl) (pending p)\<rparr>)
        (pop_byte 13 (pop_byte 10 (take (Suc nl) (pending p))))") auto
    have "position_nl (pending (fst (feed_loop sj p1))) = None"
      using 1 [OF Some refl] h by auto
    then show ?thesis by (simp add: feed_loop_Some [OF Some h])
  qed
qed

lemma feed_loop_append:
  "feed_loop sj (p\<lparr>pending := pending p @ d\<rparr>) =
     (let (p1, e1) = feed_loop sj p;
          (p2, e2) = feed_loop sj (p1\<lparr>pending := pending p1 @ d\<rparr>) in (p2, e1 @ e2))"
proof (induction sj p rule: feed_loop.induct)
  case (1 sj p)
  show ?case
  proof (cases "position_nl (pending p)")
    case None
    then show ?thesis by (simp add: feed_loop_None)
  next
    case (Some nl)
    let ?line = "pop_byte 13 (pop_byte 10 (take (Suc nl) (pending p)))"
    let ?rest = "drop (Suc nl) (pending p)"
    obtain p1 ev where h: "handle_line sj (p\<lparr>pending := ?rest\<rparr>) ?line = (p1, ev)"
      by (cases "handle_line sj (p\<lparr>pending := ?rest\<rparr>) ?line") auto
    have p1: "pending p1 = ?rest"
      using handle_line_pending [of sj "p\<lparr>pending := ?rest\<rparr>" ?line] h by simp
    have nl: "nl < length (pending p)" using position_nl_bound [OF Some] .
    have h': "handle_line sj (p\<lparr>pending := ?rest @ d\<rparr>) ?line = (p1\<lparr>pending := pending p1 @ d\<rparr>, ev)"
      using handle_line_frame [where p = "p\<lparr>pending := ?rest\<rparr>" and x = "?rest @ d" and line = ?line] h p1 by simp
    let ?q = "p\<lparr>pending := pending p @ d\<rparr>"
    have q: "position_nl (pending ?q) = Some nl" using position_nl_append [OF Some] by simp
    have hq: "handle_line sj (?q\<lparr>pending := drop (Suc nl) (pending ?q)\<rparr>)
        (pop_byte 13 (pop_byte 10 (take (Suc nl) (pending ?q)))) = (p1\<lparr>pending := pending p1 @ d\<rparr>, ev)"
      using h' nl by simp
    have IH: "feed_loop sj (p1\<lparr>pending := pending p1 @ d\<rparr>) =
        (let (p1, e1) = feed_loop sj p1;
             (p2, e2) = feed_loop sj (p1\<lparr>pending := pending p1 @ d\<rparr>) in (p2, e1 @ e2))"
      using 1 [OF Some refl] h by auto
    show ?thesis
      unfolding feed_loop_Some [OF Some h] feed_loop_Some [OF q hq] IH
      by (simp add: Let_def split: prod.splits)
  qed
qed

definition sse_idle :: "sse_parser \<Rightarrow> bool" where
  "sse_idle p \<longleftrightarrow> 10 \<notin> set (pending p)"

lemma sse_idle_new: "sse_idle sse_new"
  by (simp add: sse_idle_def sse_new_def)

interpretation sse: incremental_parser "feed sj" sse_idle for sj
proof
  show "sse_idle (fst (feed sj s c))" for s c
    by (simp add: sse_idle_def feed_def position_nl_None [symmetric] feed_loop_idle)
  show "sse_idle s \<Longrightarrow> feed sj s [] = (s, [])" for s
    by (simp add: feed_def sse_idle_def feed_loop_None position_nl_None)
  show "feed sj s (c @ d) = (let (s1, e1) = feed sj s c; (s2, e2) = feed sj s1 d in (s2, e1 @ e2))"
    for s c d
    using feed_loop_append [of sj "s\<lparr>pending := pending s @ c\<rparr>" d] by (simp add: feed_def)
qed

subsection \<open>One line, one event\<close>

lemma pop_byte_snoc [simp]: "pop_byte b (xs @ [b]) = xs"
  by (simp add: pop_byte_def)

lemma pop_byte_notin: "b \<notin> set xs \<Longrightarrow> pop_byte b xs = xs"
  by (auto simp: pop_byte_def dest: last_in_set)

lemma feed_line:
  assumes "sse_idle p" "10 \<notin> set l"
    and "handle_line sj (p\<lparr>pending := []\<rparr>) (pop_byte 13 (pending p @ l)) = (q, ev)"
  shows "feed sj p (l @ [10]) = (q, case ev of Some e \<Rightarrow> [e] | None \<Rightarrow> [])"
proof -
  let ?p = "p\<lparr>pending := pending p @ l @ [10]\<rparr>"
  have n: "position_nl (xs @ [10]) = Some (length xs)" if "10 \<notin> set xs" for xs
    using that by (induction xs) auto
  have nl: "position_nl (pending ?p) = Some (length (pending p @ l))"
    using n [of "pending p @ l"] assms(1,2) by (simp add: sse_idle_def)
  have "take (Suc (length (pending p @ l))) (pending ?p) = (pending p @ l) @ [10]" by simp
  then have h: "handle_line sj (?p\<lparr>pending := drop (Suc (length (pending p @ l))) (pending ?p)\<rparr>)
      (pop_byte 13 (pop_byte 10 (take (Suc (length (pending p @ l))) (pending ?p)))) = (q, ev)"
    using assms(3) by (simp only: pop_byte_snoc) simp
  have "pending q = []"
    using handle_line_pending [of sj "p\<lparr>pending := []\<rparr>" "pop_byte 13 (pending p @ l)"] assms(3) by simp
  then have "feed_loop sj q = (q, [])" by (simp add: feed_loop_None)
  then show ?thesis
    unfolding feed_def using feed_loop_Some [OF nl h] by (simp split: option.splits)
qed

text \<open>The event a joined payload stands for.\<close>

definition sse_classify :: "serde \<Rightarrow> ustr \<Rightarrow> sse_event" where
  "sse_classify sj payload =
     (if payload = lit ''[DONE]'' then Done
      else case from_str sj payload of Some v \<Rightarrow> Json v | None \<Rightarrow> Raw payload)"

lemma dispatch_event_eq:
  "dispatch_event sj p =
     (if data_lines p = [] then (p, None)
      else (p\<lparr>data_lines := []\<rparr>, Some (sse_classify sj (join [10] (data_lines p)))))"
  by (simp add: dispatch_event_def sse_classify_def Let_def split: option.splits)

lemma from_utf8_lossy_Nil [simp]: "from_utf8_lossy [] = []"
  by (simp add: from_utf8_lossy_def)

lemma handle_blank: "handle_line sj p [] = dispatch_event sj p"
  by (simp add: handle_line_def str_simps)

text \<open>A payload line: no line break, no white space at the end.\<close>

definition payload_ok :: "ustr \<Rightarrow> bool" where
  "payload_ok s \<longleftrightarrow> list_all scalar s \<and> s \<noteq> [] \<and> 10 \<notin> set s \<and> 13 \<notin> set s \<and>
     \<not> is_whitespace (last s)"

lemma trim_end_id: "s \<noteq> [] \<Longrightarrow> \<not> is_whitespace (last s) \<Longrightarrow> trim_end s = s"
  by (cases s rule: rev_cases) (auto simp: trim_end_def)

lemma lit_data: "lit ''data: '' = [100, 97, 116, 97, 58, 32]" and lit_data': "lit ''data:'' = [100, 97, 116, 97, 58]"
  by (simp_all add: lit_def)

lemma handle_data_line:
  assumes "payload_ok s"
  shows "handle_line sj p (utf8_encode (lit ''data: '' @ s)) =
    (p\<lparr>data_lines := data_lines p @ [s]\<rparr>, None)"
proof -
  let ?t = "lit ''data: '' @ s"
  have sc: "list_all scalar ?t" using assms by (simp add: lit_data payload_ok_def scalar_def)
  have t: "from_utf8_lossy (utf8_encode ?t) = ?t" by (rule from_utf8_lossy_encode [OF sc])
  have te: "trim_end ?t = ?t" using assms by (intro trim_end_id) (auto simp: payload_ok_def)
  have ne: "trim ?t \<noteq> []" by (simp add: str_simps lit_data is_whitespace_def)
  have st: "\<not> starts_with (lit '':'') ?t" by (simp add: lit_data starts_with_iff lit_def)
  have sp: "strip_prefix (lit ''data:'') ?t = Some (lit '' '' @ s)"
    by (simp add: lit_data lit_data' lit_def)
  show ?thesis
    unfolding handle_line_def t Let_def te using ne st sp by simp
qed

lemma feed_data_line:
  assumes "sse_idle p" "pending p = []" "payload_ok s"
  shows "feed sj p (utf8_encode (lit ''data: '' @ s) @ [10]) =
    (p\<lparr>data_lines := data_lines p @ [s]\<rparr>, [])"
proof -
  let ?l = "utf8_encode (lit ''data: '' @ s)"
  have sc: "list_all scalar (lit ''data: '' @ s)"
    using assms by (simp add: lit_data payload_ok_def scalar_def)
  have nl: "10 \<notin> set ?l" and cr: "13 \<notin> set ?l"
    using utf8_encode_ascii_notin [OF sc, of 10] utf8_encode_ascii_notin [OF sc, of 13] assms(3)
    by (auto simp: lit_data payload_ok_def)
  have pop: "pop_byte 13 (pending p @ ?l) = ?l"
    using cr assms(2) by (simp add: pop_byte_notin)
  have "handle_line sj (p\<lparr>pending := []\<rparr>) (pop_byte 13 (pending p @ ?l)) =
      (p\<lparr>data_lines := data_lines p @ [s]\<rparr>, None)"
    unfolding pop using handle_data_line [OF assms(3), of sj "p\<lparr>pending := []\<rparr>"] assms(2) by simp
  from feed_line [OF assms(1) nl this] show ?thesis by simp
qed

lemma feed_blank_line:
  assumes "sse_idle p" "pending p = []" "data_lines p \<noteq> []"
  shows "feed sj p [10] = (p\<lparr>data_lines := []\<rparr>, [sse_classify sj (join [10] (data_lines p))])"
proof -
  have "handle_line sj (p\<lparr>pending := []\<rparr>) (pop_byte 13 (pending p @ [])) =
      (p\<lparr>data_lines := []\<rparr>, Some (sse_classify sj (join [10] (data_lines p))))"
    using assms by (simp add: pop_byte_def handle_blank dispatch_event_eq)
  from feed_line [OF assms(1) _ this] show ?thesis by simp
qed

text \<open>A server's frame for an event of several data lines.\<close>

definition sse_frame :: "ustr list \<Rightarrow> bytes" where
  "sse_frame ls = concat (map (\<lambda>s. utf8_encode (lit ''data: '' @ s) @ [10]) ls) @ [10]"

lemma feed_data_lines:
  assumes "pending p = []" "list_all payload_ok ls"
  shows "feed sj p (concat (map (\<lambda>s. utf8_encode (lit ''data: '' @ s) @ [10]) ls)) =
    (p\<lparr>data_lines := data_lines p @ ls\<rparr>, [])"
  using assms
proof (induction ls arbitrary: p)
  case Nil
  then show ?case using sse.feed_Nil [of p sj] by (simp add: sse_idle_def)
next
  case (Cons s ls)
  have f: "feed sj p (utf8_encode (lit ''data: '' @ s) @ [10]) = (p\<lparr>data_lines := data_lines p @ [s]\<rparr>, [])"
    using Cons.prems by (intro feed_data_line) (auto simp: sse_idle_def)
  have "feed sj p ((utf8_encode (lit ''data: '' @ s) @ [10]) @
      concat (map (\<lambda>s. utf8_encode (lit ''data: '' @ s) @ [10]) ls)) =
      (p\<lparr>data_lines := data_lines p @ s # ls\<rparr>, [])"
    unfolding sse.feed_append [of sj p "utf8_encode (lit ''data: '' @ s) @ [10]"] f
    using Cons.IH [of "p\<lparr>data_lines := data_lines p @ [s]\<rparr>"] Cons.prems by simp
  then show ?case by simp
qed

lemma feed_frame:
  assumes "pending p = []" "data_lines p = []" "ls \<noteq> []" "list_all payload_ok ls"
  shows "feed sj p (sse_frame ls) = (p, [sse_classify sj (join [10] ls)])"
proof -
  have "feed sj (p\<lparr>data_lines := ls\<rparr>) [10] = (p\<lparr>data_lines := []\<rparr>, [sse_classify sj (join [10] ls)])"
    using assms feed_blank_line [of "p\<lparr>data_lines := ls\<rparr>" sj] by (simp add: sse_idle_def)
  then show ?thesis
    using assms feed_data_lines [OF assms(1,4), of sj]
    by (simp only: sse_frame_def sse.feed_append) simp
qed

lemma feed_frames:
  assumes "list_all (\<lambda>ls. ls \<noteq> [] \<and> list_all payload_ok ls) fs"
  shows "feed sj sse_new (concat (map sse_frame fs)) =
    (sse_new, map (\<lambda>ls. sse_classify sj (join [10] ls)) fs)"
  using assms
proof (induction fs)
  case Nil
  then show ?case using sse.feed_Nil [OF sse_idle_new] by simp
next
  case (Cons ls fs)
  have "feed sj sse_new (sse_frame ls) = (sse_new, [sse_classify sj (join [10] ls)])"
    using Cons.prems by (intro feed_frame) (auto simp: sse_new_def)
  then show ?case using Cons by (simp add: sse.feed_append)
qed

subsection \<open>Properties\<close>

text \<open>
C3: The parser does not depend on how the network cuts the body: two ways to split the same
bytes into chunks give the same events and leave the same parser.
\<close>

theorem sse_chunking_invariant:
  assumes "concat cs = concat ds"
  shows "feed_all (feed sj) sse_new cs = feed_all (feed sj) sse_new ds"
  by (rule sse.chunking [OF sse_idle_new assms])

theorem sse_chunking_invariant_witness:
  "feed_all (feed \<lparr>from_str = (\<lambda>_. None), to_string = (\<lambda>_. [])\<rparr>) sse_new [[100, 97], [116], [97, 58, 49, 10], [10]] =
   feed_all (feed \<lparr>from_str = (\<lambda>_. None), to_string = (\<lambda>_. [])\<rparr>) sse_new [[100], [97, 116, 97, 58], [49, 10, 10]]"
  by (rule sse_chunking_invariant) simp

text \<open>
C2: A sequence of well-formed frames is read back event by event, whatever the chunks are:
each frame gives exactly one event, its data lines joined by line feeds and classified as end
marker, JSON or raw text, and the parser is left empty. A frame whose payload is no JSON
becomes a raw event and does not disturb the frames after it.
\<close>

theorem sse_frames_roundtrip:
  assumes "list_all (\<lambda>ls. ls \<noteq> [] \<and> list_all payload_ok ls) fs"
    and "concat cs = concat (map sse_frame fs)"
  shows "feed_all (feed sj) sse_new cs = (sse_new, map (\<lambda>ls. sse_classify sj (join [10] ls)) fs)"
  using sse.feed_all_concat [OF sse_idle_new, of sj cs] feed_frames [OF assms(1), of sj] assms(2)
  by simp

theorem sse_frames_roundtrip_witness:
  "feed_all (feed \<lparr>from_str = (\<lambda>_. None), to_string = (\<lambda>_. [])\<rparr>) sse_new
     [take 9 (concat (map sse_frame [[lit ''{bad'', lit ''x''], [lit ''[DONE]'']])),
      drop 9 (concat (map sse_frame [[lit ''{bad'', lit ''x''], [lit ''[DONE]'']]))] =
   (sse_new, [Raw (lit ''{bad'' @ [10] @ lit ''x''), Done])"
proof -
  let ?fs = "[[lit ''{bad'', lit ''x''], [lit ''[DONE]'']]"
  let ?sj = "\<lparr>from_str = (\<lambda>_. None), to_string = (\<lambda>_. [])\<rparr>"
  have ok: "list_all (\<lambda>ls. ls \<noteq> [] \<and> list_all payload_ok ls) ?fs" by code_simp
  have ev: "map (\<lambda>ls. sse_classify ?sj (join [10] ls)) ?fs =
      [Raw (lit ''{bad'' @ [10] @ lit ''x''), Done]" by code_simp
  show ?thesis
    using sse_frames_roundtrip [OF ok, of "[take 9 (concat (map sse_frame ?fs)),
      drop 9 (concat (map sse_frame ?fs))]" ?sj]
    unfolding ev by (simp only: concat.simps append_Nil2 append_take_drop_id)
qed

end
