(* ===== verification/Usage.thy ===== *)
theory Usage
  imports Json
begin

text \<open>
  Server \<open>usage\<close> objects (\<open>src/usage.rs\<close>) and request body overrides
  (\<open>src/request.rs\<close>): the reasoning-token lookup over the accepted locations, the split
  of completion tokens, and the top-level merge of \<open>--extra-body-json\<close>.
\<close>

subsection \<open>Reasoning tokens\<close>

definition REASONING_TOKEN_POINTERS :: "string list list" where
  "REASONING_TOKEN_POINTERS =
     [[''completion_tokens_details'', ''reasoning_tokens''],
      [''output_tokens_details'', ''reasoning_tokens''],
      [''reasoning_tokens'']]"

definition non_negative_count :: "json \<Rightarrow> nat option" where
  "non_negative_count v =
     option_or (as_u64 v)
       (map_option f_to_usize
          (option_filter (\<lambda>x. is_finite x \<and> fle (Fin 0) x \<and> f_is_integral x) (as_f64 v)))"

fun reasoning_loop :: "json \<Rightarrow> string list list \<Rightarrow> bool \<Rightarrow> nat option" where
  "reasoning_loop usage [] reported_zero = (if reported_zero then Some 0 else None)"
| "reasoning_loop usage (p # ps) reported_zero =
     (case Option.bind (pointer usage p) non_negative_count of
        None \<Rightarrow> reasoning_loop usage ps reported_zero
      | Some tokens \<Rightarrow>
          if tokens = 0 then reasoning_loop usage ps True else Some tokens)"

definition reasoning_tokens :: "json \<Rightarrow> nat option" where
  "reasoning_tokens usage = reasoning_loop usage REASONING_TOKEN_POINTERS False"

definition visible_completion_tokens :: "nat \<Rightarrow> nat option \<Rightarrow> nat option" where
  "visible_completion_tokens completion_tokens reasoning =
     (case reasoning of
        None \<Rightarrow> None
      | Some r \<Rightarrow> if r \<le> completion_tokens then Some (completion_tokens - r) else None)"

text \<open>The counts reported at the accepted locations, in order.\<close>

definition reported_counts :: "json \<Rightarrow> nat list" where
  "reported_counts usage =
     List.map_filter (\<lambda>p. Option.bind (pointer usage p) non_negative_count)
       REASONING_TOKEN_POINTERS"

lemma reasoning_loop_spec:
  "reasoning_loop usage ps z =
     (let cs = List.map_filter (\<lambda>p. Option.bind (pointer usage p) non_negative_count) ps in
      case find (\<lambda>c. c \<noteq> 0) cs of
        Some c \<Rightarrow> Some c
      | None \<Rightarrow> if z \<or> cs \<noteq> [] then Some 0 else None)"
  by (induction usage ps z rule: reasoning_loop.induct)
     (auto simp: List.map_filter_simps Let_def split: option.splits)

lemma reasoning_tokens_eq:
  "reasoning_tokens usage =
     (case find (\<lambda>c. c \<noteq> 0) (reported_counts usage) of
        Some c \<Rightarrow> Some c
      | None \<Rightarrow> if reported_counts usage = [] then None else Some 0)"
  by (auto simp: reasoning_tokens_def reported_counts_def reasoning_loop_spec Let_def
      split: option.splits)

lemma find_nonzero_in: "find (\<lambda>c. c \<noteq> 0) cs = Some c \<Longrightarrow> c \<in> set cs \<and> c \<noteq> (0::nat)"
  by (induction cs) (auto split: if_splits)

lemma find_nonzero_None: "find (\<lambda>c. c \<noteq> 0) cs = None \<longleftrightarrow> (\<forall>c \<in> set cs. c = (0::nat))"
  by (induction cs) auto

lemma find_nonzero_split:
  "find (\<lambda>c. c \<noteq> 0) cs = Some (Suc n) \<longleftrightarrow>
     (\<exists>zs ys. cs = zs @ Suc n # ys \<and> list_all (\<lambda>c. c = 0) zs)"
proof (induction cs)
  case (Cons c cs)
  show ?case
  proof (cases "c = 0")
    case True
    have "(\<exists>zs ys. 0 # cs = zs @ Suc n # ys \<and> list_all (\<lambda>c. c = 0) zs) \<longleftrightarrow>
        (\<exists>zs ys. cs = zs @ Suc n # ys \<and> list_all (\<lambda>c. c = 0) zs)" (is "?l = ?r")
    proof
      assume ?r
      then obtain zs ys where "0 # cs = (0 # zs) @ Suc n # ys" "list_all (\<lambda>c. c = 0) (0 # zs)" by auto
      then show ?l by blast
    qed (auto simp: Cons_eq_append_conv)
    then show ?thesis using Cons True by simp
  next
    case False
    then show ?thesis by (auto simp: Cons_eq_append_conv)
  qed
qed simp

subsection \<open>Body overrides\<close>

datatype merge_error = ExtraBodyNotAnObject

definition merge_extra_body :: "json_map \<Rightarrow> json \<Rightarrow> merge_error + json_map" where
  "merge_extra_body base extra =
     (case as_object extra of
        None \<Rightarrow> Inl ExtraBodyNotAnObject
      | Some kvs \<Rightarrow>
          Inr (fold (\<lambda>kv m. if is_null (snd kv) then bt_remove (fst kv) m
                            else bt_insert (fst kv) (snd kv) m) kvs base))"

lemma merge_step_eq:
  "(if is_null v then bt_remove k m else bt_insert k v m) =
     (case (if is_null v then None else Some v) of Some w \<Rightarrow> bt_insert k w m | None \<Rightarrow> bt_remove k m)"
  by simp

lemma find_key_unique:
  assumes "bt_inv m"
  shows "find (\<lambda>kv. fst kv = k) (rev m) = map_option (Pair k) (bt_get m k)"
proof (cases "bt_get m k")
  case None
  then have "k \<notin> fst ` set m" by (simp add: bt_get_def map_of_eq_None_iff)
  with None show ?thesis by (force simp: find_None_iff)
next
  case (Some v)
  then have kv: "(k, v) \<in> set m" by (simp add: bt_get_Some_in)
  then obtain x where x: "find (\<lambda>kv. fst kv = k) (rev m) = Some x"
    by (cases "find (\<lambda>kv. fst kv = k) (rev m)") (auto simp: find_None_iff)
  then obtain i where "i < length (rev m)" "x = rev m ! i" "fst x = k"
    by (auto simp: find_Some_iff)
  then have "x \<in> set m" "fst x = k" using nth_mem [of i "rev m"] by auto
  then have "bt_get m k = Some (snd x)" using assms by (metis bt_get_iff prod.collapse)
  with Some x \<open>fst x = k\<close> show ?thesis by (cases x) simp
qed

text \<open>The merged body: a key of the overrides is removed by \<open>null\<close> and replaced
  otherwise; every other key keeps its value.\<close>

lemma merge_extra_body_get:
  assumes "bt_inv base" "bt_inv kvs"
    and merged: "merge_extra_body base (JObject kvs) = Inr out"
  shows "bt_inv out"
    and "bt_get out k =
      (case bt_get kvs k of None \<Rightarrow> bt_get base k | Some v \<Rightarrow> if is_null v then None else Some v)"
proof -
  let ?f = "\<lambda>kv. if is_null (snd kv) then None else Some (snd kv)"
  have out: "out = fold (\<lambda>kv m. case ?f kv of Some v \<Rightarrow> bt_insert (fst kv) v m
      | None \<Rightarrow> bt_remove (fst kv) m) kvs base"
    using merged by (simp add: merge_extra_body_def merge_step_eq)
  show "bt_inv out" unfolding out by (rule btree.inv_fold_update [OF assms(1)])
  show "bt_get out k = (case bt_get kvs k of None \<Rightarrow> bt_get base k
      | Some v \<Rightarrow> if is_null v then None else Some v)"
    unfolding out btree.get_fold_update [OF assms(1)] find_key_unique [OF assms(2)]
    by (simp split: option.splits)
qed

subsection \<open>Properties\<close>

text \<open>
The reasoning-token count of a usage object is the first non-zero count among the accepted
locations; zero is reported only when every reported count is zero, and nothing is reported
when no location holds a count. The visible tokens are never more than the completion tokens.
\<close>

lemma reasoning_tokens_first_nonzero:
  "(reasoning_tokens usage = None \<longleftrightarrow> reported_counts usage = []) \<and>
   (reasoning_tokens usage = Some 0 \<longleftrightarrow>
      reported_counts usage \<noteq> [] \<and> list_all (\<lambda>c. c = 0) (reported_counts usage)) \<and>
   (reasoning_tokens usage = Some (Suc n) \<longleftrightarrow>
      (\<exists>zs cs. reported_counts usage = zs @ Suc n # cs \<and> list_all (\<lambda>c. c = 0) zs)) \<and>
   (visible_completion_tokens completion (reasoning_tokens usage) = Some visible \<longleftrightarrow>
      (\<exists>r. reasoning_tokens usage = Some r \<and> visible + r = completion))"
proof (intro conjI)
  show "reasoning_tokens usage = Some (Suc n) \<longleftrightarrow>
      (\<exists>zs cs. reported_counts usage = zs @ Suc n # cs \<and> list_all (\<lambda>c. c = 0) zs)"
    unfolding reasoning_tokens_eq find_nonzero_split [symmetric]
    by (auto split: option.splits)
  show "visible_completion_tokens completion (reasoning_tokens usage) = Some visible \<longleftrightarrow>
      (\<exists>r. reasoning_tokens usage = Some r \<and> visible + r = completion)"
    by (auto simp: visible_completion_tokens_def split: option.splits)
qed (auto simp: reasoning_tokens_eq find_nonzero_None list_all_iff simp del: neq0_conv
      dest: find_nonzero_in split: option.splits)

text \<open>
The merged request body: a key of the overrides is removed when its value is \<open>null\<close> and
replaced otherwise, every other key keeps its value, and the result is a map again; overrides
that are no object are refused.
\<close>

lemma merge_extra_body_spec:
  assumes "bt_inv base" "bt_inv kvs"
  shows "(case merge_extra_body base (JObject kvs) of
       Inl e \<Rightarrow> False
     | Inr out \<Rightarrow> bt_inv out \<and> bt_get out k =
         (case bt_get kvs k of None \<Rightarrow> bt_get base k | Some v \<Rightarrow> if is_null v then None else Some v)) \<and>
   (merge_extra_body base extra = Inl ExtraBodyNotAnObject \<longleftrightarrow> as_object extra = None)"
proof -
  obtain out where out: "merge_extra_body base (JObject kvs) = Inr out"
    by (simp add: merge_extra_body_def)
  show ?thesis
    using merge_extra_body_get [OF assms out] out
    by (simp add: merge_extra_body_def split: option.splits)
qed


end
