(* ===== verification/Errors.thy ===== *)
theory Errors
  imports Prelude
begin

text \<open>
  Request failures (\<open>src/error.rs\<close>) and the message-based fallback
  \<open>classify_app_error\<close> (\<open>src/jsonl.rs\<close>). A transport error of the HTTP client is
  the record \<open>reqwest_error\<close> of what its predicates answer; an error chain is the list of
  its links, outermost first.
\<close>

datatype request_error =
    Timeout
  | Connect
  | HttpStatus nat
  | RateLimit
  | StreamTruncated
  | ParseError ustr
  | NoOutputToken
  | ReasoningTruncated
  | UsageMissing
  | ApiError ustr
  | OtherError ustr

datatype io_kind = ConnectionReset | BrokenPipe | ConnectionAborted | OtherIo

text \<open>One link of a client error's source chain: its I/O kind when it is an I/O error, and
  its printed text.\<close>

record chain_link =
  io_kind_of :: "io_kind option"
  link_text :: ustr

text \<open>What the HTTP client answers about an error: the predicates, the status, the chain
  (the error itself first) and the text with its URL redacted.\<close>

record reqwest_error =
  is_timeout :: bool
  is_connect :: bool
  err_status :: "nat option"
  err_chain :: "chain_link list"
  redacted_text :: ustr

definition from_status :: "nat \<Rightarrow> request_error" where
  "from_status status = (if status = 429 then RateLimit else HttpStatus status)"

definition reset_kind :: "io_kind \<Rightarrow> bool" where
  "reset_kind k \<longleftrightarrow> k = ConnectionReset \<or> k = BrokenPipe \<or> k = ConnectionAborted"

fun is_connection_reset :: "chain_link list \<Rightarrow> bool" where
  "is_connection_reset [] = False"
| "is_connection_reset (e # es) =
     (if (case io_kind_of e of Some k \<Rightarrow> reset_kind k | None \<Rightarrow> False) then True
      else let msg = to_ascii_lowercase (link_text e) in
        if contains_sub (lit ''connection reset'') msg \<or> contains_sub (lit ''broken pipe'') msg \<or>
           contains_sub (lit ''connection aborted'') msg
        then True else is_connection_reset es)"

definition from_reqwest :: "reqwest_error \<Rightarrow> request_error" where
  "from_reqwest err =
     (if is_timeout err then Timeout
      else if is_connect err then Connect
      else case err_status err of
        Some status \<Rightarrow> from_status status
      | None \<Rightarrow>
          if is_connection_reset (err_chain err) then Connect
          else OtherError (redacted_text err))"

definition classify_app_error :: "ustr \<Rightarrow> request_error" where
  "classify_app_error msg =
     (let lower = to_ascii_lowercase msg in
      if contains_sub (lit ''no output token'') lower then NoOutputToken
      else if contains_sub (lit ''stream truncated'') lower then StreamTruncated
      else if contains_sub (lit ''api error'') lower then ApiError msg
      else OtherError msg)"

text \<open>A link of the chain walked by \<open>from_error\<close>: a typed request error, a client error,
  or any other error. The fallback reads the text of the outermost error.\<close>

datatype error_link = TypedLink request_error | ReqwestLink reqwest_error | OtherLink

fun walk_chain :: "ustr \<Rightarrow> error_link list \<Rightarrow> request_error" where
  "walk_chain outer [] = classify_app_error outer"
| "walk_chain outer (TypedLink e # es) = e"
| "walk_chain outer (ReqwestLink r # es) = from_reqwest r"
| "walk_chain outer (OtherLink # es) = walk_chain outer es"

definition from_error :: "ustr \<Rightarrow> error_link list \<Rightarrow> request_error" where
  "from_error outer chain = walk_chain outer chain"

fun type_name :: "request_error \<Rightarrow> string" where
  "type_name Timeout = ''timeout''"
| "type_name Connect = ''connect''"
| "type_name (HttpStatus _) = ''http_status''"
| "type_name RateLimit = ''rate_limit''"
| "type_name StreamTruncated = ''stream_truncated''"
| "type_name (ParseError _) = ''parse_error''"
| "type_name NoOutputToken = ''no_output_token''"
| "type_name ReasoningTruncated = ''reasoning_truncated''"
| "type_name UsageMissing = ''usage_missing''"
| "type_name (ApiError _) = ''api_error''"
| "type_name (OtherError _) = ''other''"

fun display_error :: "request_error \<Rightarrow> ustr" where
  "display_error Timeout = lit ''timeout''"
| "display_error Connect = lit ''connect error''"
| "display_error (HttpStatus status) = lit ''HTTP '' @ show_nat status"
| "display_error RateLimit = lit ''rate limited (429)''"
| "display_error StreamTruncated = lit ''stream truncated''"
| "display_error (ParseError m) = lit ''parse error: '' @ m"
| "display_error NoOutputToken = lit ''no output token''"
| "display_error ReasoningTruncated = lit ''reasoning truncated before visible output''"
| "display_error UsageMissing = lit ''usage missing''"
| "display_error (ApiError m) = lit ''API error: '' @ m"
| "display_error (OtherError m) = m"

lemma walk_chain_skip:
  "list_all (\<lambda>l. l = OtherLink) pre \<Longrightarrow> walk_chain outer (pre @ es) = walk_chain outer es"
  by (induction pre) auto

lemma contains_sub_append: "contains_sub p s \<Longrightarrow> contains_sub p (a @ s @ b)"
  unfolding contains_sub_iff by (metis append.assoc)

lemma contains_sub_self [simp]: "contains_sub p p"
  unfolding contains_sub_iff by (metis append_Nil append_Nil2)

lemma lower_append: "to_ascii_lowercase (s @ t) = to_ascii_lowercase s @ to_ascii_lowercase t"
  by (simp add: to_ascii_lowercase_def)

lemma lower_lit_api: "to_ascii_lowercase (lit ''API error: '') = lit ''api error'' @ lit '': ''"
  by (simp add: to_ascii_lowercase_def lit_def)

lemma lower_lit_small:
  "to_ascii_lowercase (lit ''no output token'') = lit ''no output token''"
  "to_ascii_lowercase (lit ''stream truncated'') = lit ''stream truncated''"
  by (simp_all add: to_ascii_lowercase_def lit_def)

subsection \<open>Properties\<close>

text \<open>
The classification of a failed request is decided by the first typed error of the chain;
untyped wrappers before it change nothing, and only a chain without any typed error falls back
to the message. Of the client's errors, a timeout wins over everything, status 429 and nothing
else is a rate limit, a reset in the chain counts as a connection failure, and a text is kept
only in its redacted form.
\<close>

lemma from_error_first_typed:
  assumes "list_all (\<lambda>l. l = OtherLink) pre"
  shows "from_error outer (pre @ TypedLink e # es) = e \<and>
    from_error outer (pre @ ReqwestLink r # es) =
      (if is_timeout r then Timeout
       else if is_connect r \<or> err_status r = None \<and> is_connection_reset (err_chain r) then Connect
       else if err_status r = Some 429 then RateLimit
       else case err_status r of Some st \<Rightarrow> HttpStatus st | None \<Rightarrow> OtherError (redacted_text r)) \<and>
    from_error outer pre = classify_app_error outer"
  using assms walk_chain_skip [of pre outer "[]"]
  by (auto simp: from_error_def walk_chain_skip from_reqwest_def from_status_def split: option.splits)

lemma from_error_first_typed_example:
  "from_error [] ([OtherLink, OtherLink] @ TypedLink NoOutputToken # [TypedLink Timeout]) = NoOutputToken"
  using from_error_first_typed [of "[OtherLink, OtherLink]" "[]" NoOutputToken "[TypedLink Timeout]"]
  by simp

end
