(* ===== verification/Chat_Stream.thy ===== *)
theory Chat_Stream
  imports Sse Usage Errors
begin

text \<open>
  Consumption of a chat stream (\<open>src/chat_stream.rs\<close>): the consumer state, one step per
  event, the loop over the body's chunks with its clock readings, and the terminal
  classification. A failed step keeps the state reached so far, because the caller reports
  the usage seen before the failure.
\<close>

record stream_event_trace =
  tr_index :: nat
  tr_t_ms :: nat
  tr_categories :: "string list"

record partial_usage =
  pu_prompt_tokens :: nat
  pu_completion_tokens :: nat
  pu_total_tokens :: nat
  pu_reasoning_tokens :: "nat option"
  pu_usage_complete :: bool
  pu_prompt_tokens_present :: bool
  pu_completion_tokens_present :: bool

record chat_stream_result =
  r_latency :: duration
  r_ttft :: "duration option"
  r_first_reasoning :: "duration option"
  r_finish_reason :: "ustr option"
  r_itl :: "duration list"
  r_prompt_tokens :: nat
  r_completion_tokens :: nat
  r_total_tokens :: nat
  r_usage_complete :: bool
  r_prompt_tokens_present :: bool
  r_completion_tokens_present :: bool
  r_reasoning_tokens :: "nat option"
  r_completion_text :: ustr
  r_trace :: "stream_event_trace list option"

record consumer =
  parser :: sse_parser
  trace :: "stream_event_trace list option"
  first_token_time :: "duration option"
  first_reasoning_time :: "duration option"
  last_token_at :: "duration option"
  itl :: "duration list"
  prompt_tokens :: nat
  completion_tokens :: nat
  total_tokens :: nat
  prompt_tokens_present :: bool
  completion_tokens_present :: bool
  c_reasoning_tokens :: "nat option"
  is_done :: bool
  saw_finish :: bool
  finish_reason :: "ustr option"
  completion_text :: ustr

definition consumer_default :: consumer where
  "consumer_default =
     \<lparr>parser = sse_new, trace = None, first_token_time = None, first_reasoning_time = None,
      last_token_at = None, itl = [], prompt_tokens = 0, completion_tokens = 0, total_tokens = 0,
      prompt_tokens_present = False, completion_tokens_present = False,
      c_reasoning_tokens = None, is_done = False, saw_finish = False, finish_reason = None,
      completion_text = []\<rparr>"

definition partial_usage :: "consumer \<Rightarrow> partial_usage" where
  "partial_usage c =
     \<lparr>pu_prompt_tokens = prompt_tokens c, pu_completion_tokens = completion_tokens c,
      pu_total_tokens = total_tokens c, pu_reasoning_tokens = c_reasoning_tokens c,
      pu_usage_complete = (prompt_tokens_present c \<and> completion_tokens_present c),
      pu_prompt_tokens_present = prompt_tokens_present c,
      pu_completion_tokens_present = completion_tokens_present c\<rparr>"

definition usage_presence :: "json \<Rightarrow> bool \<times> bool" where
  "usage_presence usage =
     (get_u64 usage ''prompt_tokens'' \<noteq> None, get_u64 usage ''completion_tokens'' \<noteq> None)"

text \<open>Choice index 0; a choice without an index is read by its position.\<close>

definition measured_choices :: "json list \<Rightarrow> json list" where
  "measured_choices choices =
     map snd (filter (\<lambda>(position, choice).
        case get_u64 choice ''index'' of None \<Rightarrow> position = 0 | Some index \<Rightarrow> index = 0)
       (enumerate 0 choices))"

definition choice_categories :: "json \<Rightarrow> string list" where
  "choice_categories choice =
     (if choice_finish_reason choice \<noteq> None then [''finish''] else []) @
     (if choice_has_reasoning_token choice then [''reasoning''] else []) @
     (if choice_has_output_token choice then [''content''] else [])"

fun event_categories :: "sse_event \<Rightarrow> string list" where
  "event_categories Done = [''done'']"
| "event_categories (Raw _) = [''other'']"
| "event_categories (Json parsed) =
     (let cats = (if jget parsed ''error'' \<noteq> None then [''error''] else []) @
                 (if jget parsed ''usage'' \<noteq> None then [''usage''] else []) @
                 (case get_array parsed ''choices'' of
                    None \<Rightarrow> []
                  | Some choices \<Rightarrow> concat (map choice_categories (measured_choices choices)))
      in if cats = [] then [''other''] else cats)"

definition push_trace :: "sse_event \<Rightarrow> duration \<Rightarrow> consumer \<Rightarrow> consumer" where
  "push_trace ev elapsed c =
     (case trace c of
        None \<Rightarrow> c
      | Some t \<Rightarrow>
          c\<lparr>trace := Some (t @ [\<lparr>tr_index = length t mod 2 ^ 32, tr_t_ms = dur_millis_u64 elapsed,
                                 tr_categories = event_categories ev\<rparr>])\<rparr>)"

definition apply_usage :: "json \<Rightarrow> consumer \<Rightarrow> consumer" where
  "apply_usage usage c =
     (let (prompt_present, completion_present) = usage_presence usage in
      c\<lparr>prompt_tokens_present := prompt_tokens_present c \<or> prompt_present,
        completion_tokens_present := completion_tokens_present c \<or> completion_present,
        prompt_tokens := unwrap_or (get_u64 usage ''prompt_tokens'') (prompt_tokens c),
        completion_tokens := unwrap_or (get_u64 usage ''completion_tokens'') (completion_tokens c),
        total_tokens := unwrap_or (get_u64 usage ''total_tokens'') (total_tokens c),
        c_reasoning_tokens := option_or (reasoning_tokens usage) (c_reasoning_tokens c)\<rparr>)"

definition note_finish :: "json \<Rightarrow> consumer \<Rightarrow> consumer" where
  "note_finish choice c =
     (case choice_finish_reason choice of
        Some reason \<Rightarrow> c\<lparr>saw_finish := True, finish_reason := Some reason\<rparr>
      | None \<Rightarrow> c)"

definition note_reasoning :: "duration \<Rightarrow> json \<Rightarrow> consumer \<Rightarrow> consumer" where
  "note_reasoning elapsed choice c =
     (if first_reasoning_time c = None \<and> choice_has_reasoning_token choice
      then c\<lparr>first_reasoning_time := Some elapsed\<rparr> else c)"

definition note_output :: "duration \<Rightarrow> json \<Rightarrow> consumer \<Rightarrow> consumer" where
  "note_output elapsed choice c =
     (if choice_has_output_token choice then
        (let c1 = (if first_token_time c = None then c\<lparr>first_token_time := Some elapsed\<rparr>
                   else case last_token_at c of
                     Some prev \<Rightarrow> c\<lparr>itl := itl c @ [dur_saturating_sub elapsed prev]\<rparr>
                   | None \<Rightarrow> c)
         in c1\<lparr>last_token_at := Some elapsed\<rparr>)
      else c)"

definition append_text :: "json \<Rightarrow> consumer \<Rightarrow> consumer" where
  "append_text choice c =
     (case choice_output_text choice of
        Some content \<Rightarrow> c\<lparr>completion_text := completion_text c @ content\<rparr>
      | None \<Rightarrow> c)"

definition apply_choice :: "duration \<Rightarrow> consumer \<Rightarrow> json \<Rightarrow> consumer" where
  "apply_choice elapsed c choice =
     append_text choice (note_output elapsed choice (note_reasoning elapsed choice (note_finish choice c)))"

definition apply_choices :: "duration \<Rightarrow> json \<Rightarrow> consumer \<Rightarrow> consumer" where
  "apply_choices elapsed parsed c =
     (case get_array parsed ''choices'' of
        None \<Rightarrow> c
      | Some choices \<Rightarrow> foldl (apply_choice elapsed) c (measured_choices choices))"

text \<open>One event: \<open>Some e\<close> stops the loop over the events with the error \<open>e\<close>.\<close>

fun handle_event :: "serde \<Rightarrow> duration \<Rightarrow> consumer \<Rightarrow> sse_event \<Rightarrow> consumer \<times> request_error option" where
  "handle_event sj elapsed c Done = (c\<lparr>is_done := True\<rparr>, None)"
| "handle_event sj elapsed c (Raw _) = (c, Some (ParseError (lit ''invalid JSON in SSE data event'')))"
| "handle_event sj elapsed c (Json parsed) =
     (case jget parsed ''error'' of
        Some error \<Rightarrow> (c, Some (ApiError (to_string sj error)))
      | None \<Rightarrow>
          (apply_choices elapsed parsed
             (case jget parsed ''usage'' of Some usage \<Rightarrow> apply_usage usage c | None \<Rightarrow> c), None))"

fun handle_events ::
  "serde \<Rightarrow> duration \<Rightarrow> consumer \<Rightarrow> sse_event list \<Rightarrow> consumer \<times> request_error option" where
  "handle_events sj elapsed c [] = (c, None)"
| "handle_events sj elapsed c (ev # evs) =
     (case handle_event sj elapsed (push_trace ev elapsed c) ev of
        (c', Some e) \<Rightarrow> (c', Some e)
      | (c', None) \<Rightarrow> handle_events sj elapsed c' evs)"

definition consumer_feed ::
  "serde \<Rightarrow> consumer \<Rightarrow> bytes \<Rightarrow> duration \<Rightarrow> consumer \<times> request_error option" where
  "consumer_feed sj c bs elapsed =
     (let (p, events) = feed sj (parser c) bs
      in handle_events sj elapsed (c\<lparr>parser := p\<rparr>) events)"

definition finish :: "consumer \<Rightarrow> duration \<Rightarrow> bool \<Rightarrow> request_error + chat_stream_result" where
  "finish c latency allow_missing_ttft =
     (if \<not> is_done c \<and> \<not> saw_finish c then Inl StreamTruncated
      else if first_token_time c = None \<and> \<not> allow_missing_ttft then Inl NoOutputToken
      else Inr \<lparr>r_latency = latency, r_ttft = first_token_time c,
                r_first_reasoning = first_reasoning_time c, r_finish_reason = finish_reason c,
                r_itl = itl c, r_prompt_tokens = prompt_tokens c,
                r_completion_tokens = completion_tokens c, r_total_tokens = total_tokens c,
                r_usage_complete = (prompt_tokens_present c \<and> completion_tokens_present c),
                r_prompt_tokens_present = prompt_tokens_present c,
                r_completion_tokens_present = completion_tokens_present c,
                r_reasoning_tokens = c_reasoning_tokens c,
                r_completion_text = completion_text c, r_trace = trace c\<rparr>)"

definition output_error :: "chat_stream_result \<Rightarrow> request_error option" where
  "output_error r =
     (if r_ttft r \<noteq> None then None
      else if r_first_reasoning r \<noteq> None \<and> r_finish_reason r = Some (lit ''length'')
      then Some ReasoningTruncated
      else Some NoOutputToken)"

subsection \<open>The loop over the body\<close>

text \<open>A body is the list of what the stream yields, each with the clock reading taken after
  it arrived; the list's end is the end of the body.\<close>

type_synonym stream_item = "(reqwest_error + bytes) \<times> duration"

record chat_stream_failure =
  f_error :: request_error
  f_usage :: partial_usage

datatype read_outcome = ReadFailed chat_stream_failure | ReadEnded consumer "stream_item list"

fun read_body :: "serde \<Rightarrow> consumer \<Rightarrow> stream_item list \<Rightarrow> read_outcome" where
  "read_body sj c [] = ReadEnded c []"
| "read_body sj c ((Inl err, t) # items) =
     ReadFailed \<lparr>f_error = from_reqwest err, f_usage = partial_usage c\<rparr>"
| "read_body sj c ((Inr bs, t) # items) =
     (case consumer_feed sj c bs t of
        (c', Some e) \<Rightarrow> ReadFailed \<lparr>f_error = e, f_usage = partial_usage c'\<rparr>
      | (c', None) \<Rightarrow> if is_done c' then ReadEnded c' items else read_body sj c' items)"

text \<open>\<open>latency\<close> is the clock reading after the loop; the bytes after the end marker are
  drained without any effect on the result.\<close>

definition consume_with_clock ::
  "serde \<Rightarrow> stream_item list \<Rightarrow> duration \<Rightarrow> bool \<Rightarrow> bool \<Rightarrow>
     chat_stream_failure + chat_stream_result" where
  "consume_with_clock sj items latency allow_missing_ttft trace_on =
     (case read_body sj (consumer_default\<lparr>trace := (if trace_on then Some [] else None)\<rparr>) items of
        ReadFailed f \<Rightarrow> Inl f
      | ReadEnded c rest \<Rightarrow>
          (case finish c latency allow_missing_ttft of
             Inl e \<Rightarrow> Inl \<lparr>f_error = e, f_usage = partial_usage c\<rparr>
           | Inr r \<Rightarrow> Inr r))"

definition consume_preserving_usage ::
  "serde \<Rightarrow> stream_item list \<Rightarrow> duration \<Rightarrow> bool \<Rightarrow> bool \<Rightarrow>
     chat_stream_failure + chat_stream_result" where
  "consume_preserving_usage sj items latency allow_missing_ttft trace_on =
     consume_with_clock sj items latency allow_missing_ttft trace_on"

definition consume_with_options ::
  "serde \<Rightarrow> stream_item list \<Rightarrow> duration \<Rightarrow> bool \<Rightarrow> bool \<Rightarrow> request_error + chat_stream_result" where
  "consume_with_options sj items latency allow_missing_ttft trace_on =
     (case consume_preserving_usage sj items latency allow_missing_ttft trace_on of
        Inl f \<Rightarrow> Inl (f_error f)
      | Inr r \<Rightarrow> Inr r)"

definition consume :: "serde \<Rightarrow> stream_item list \<Rightarrow> duration \<Rightarrow> request_error + chat_stream_result" where
  "consume sj items latency = consume_with_options sj items latency False False"

definition DRAIN_TIMEOUT :: duration where
  "DRAIN_TIMEOUT = 250 * 1000000"

definition DRAIN_BYTE_CAP :: nat where
  "DRAIN_BYTE_CAP = 64 * 1024"

text \<open>How many bytes the drain reads: items carry their arrival after the drain began; an
  error, the end of the body, the time limit or the byte cap stops it.\<close>

fun drain_after_done :: "nat \<Rightarrow> stream_item list \<Rightarrow> nat" where
  "drain_after_done drained [] = drained"
| "drain_after_done drained ((item, t) # items) =
     (if DRAIN_TIMEOUT \<le> t then drained
      else case item of
        Inl _ \<Rightarrow> drained
      | Inr bs \<Rightarrow>
          let drained' = drained + length bs in
          if DRAIN_BYTE_CAP < drained' then drained' else drain_after_done drained' items)"

subsection \<open>Unary responses\<close>

definition nonempty_text :: "json option \<Rightarrow> bool" where
  "nonempty_text v = (case v of Some x \<Rightarrow> is_nonempty_str (as_str x) | None \<Rightarrow> False)"

definition selected_choice :: "json list \<Rightarrow> json option" where
  "selected_choice choices =
     option_or (find (\<lambda>c. get_u64 c ''index'' = Some 0) choices)
       (option_filter (\<lambda>c. jget c ''index'' = None)
          (case choices of [] \<Rightarrow> None | c # _ \<Rightarrow> Some c))"

definition message_visible :: "json \<Rightarrow> bool" where
  "message_visible msg \<longleftrightarrow>
     (case jget msg ''content'' of
        None \<Rightarrow> False
      | Some content \<Rightarrow>
          nonempty_text (Some content) \<or>
          (case as_array content of
             None \<Rightarrow> False
           | Some parts \<Rightarrow> list_ex (\<lambda>p. nonempty_text (jget p ''text'')) parts)) \<or>
     (case get_array msg ''tool_calls'' of None \<Rightarrow> False | Some calls \<Rightarrow> calls \<noteq> []) \<or>
     (case jget msg ''function_call'' of None \<Rightarrow> False | Some fc \<Rightarrow> as_object fc \<noteq> None)"

definition response_has_visible_output :: "json \<Rightarrow> bool" where
  "response_has_visible_output response =
     (case get_array response ''choices'' of
        None \<Rightarrow> False
      | Some choices \<Rightarrow>
          (case selected_choice choices of
             None \<Rightarrow> False
           | Some choice \<Rightarrow>
               if nonempty_text (jget choice ''text'') then True
               else (case jget choice ''message'' of None \<Rightarrow> False | Some msg \<Rightarrow> message_visible msg)))"

subsection \<open>What a stream says: an abstract view\<close>

text \<open>
  The view of a stream is what its events say, without the consumer's state: the times of
  the visible tokens, the times of the reasoning chunks, the text, the finish reasons and the
  usage objects. The consumer refines it.
\<close>

record stream_view =
  v_tokens :: "duration list"
  v_reasoning :: "duration list"
  v_text :: ustr
  v_finish :: "ustr list"
  v_usage :: "json list"

definition view_empty :: stream_view where
  "view_empty = \<lparr>v_tokens = [], v_reasoning = [], v_text = [], v_finish = [], v_usage = []\<rparr>"

definition view_append :: "stream_view \<Rightarrow> stream_view \<Rightarrow> stream_view" where
  "view_append v w =
     \<lparr>v_tokens = v_tokens v @ v_tokens w, v_reasoning = v_reasoning v @ v_reasoning w,
      v_text = v_text v @ v_text w, v_finish = v_finish v @ v_finish w,
      v_usage = v_usage v @ v_usage w\<rparr>"

definition choice_view :: "duration \<Rightarrow> json \<Rightarrow> stream_view" where
  "choice_view t choice =
     \<lparr>v_tokens = (if choice_has_output_token choice then [t] else []),
      v_reasoning = (if choice_has_reasoning_token choice then [t] else []),
      v_text = unwrap_or (choice_output_text choice) [],
      v_finish = (case choice_finish_reason choice of Some r \<Rightarrow> [r] | None \<Rightarrow> []),
      v_usage = []\<rparr>"

fun event_view :: "duration \<Rightarrow> sse_event \<Rightarrow> stream_view" where
  "event_view t (Json parsed) =
     (if jget parsed ''error'' \<noteq> None then view_empty
      else foldl (\<lambda>v ch. view_append v (choice_view t ch))
        (case jget parsed ''usage'' of Some u \<Rightarrow> view_empty\<lparr>v_usage := [u]\<rparr> | None \<Rightarrow> view_empty)
        (case get_array parsed ''choices'' of Some cs \<Rightarrow> measured_choices cs | None \<Rightarrow> []))"
| "event_view t _ = view_empty"

definition events_view :: "duration \<Rightarrow> sse_event list \<Rightarrow> stream_view" where
  "events_view t evs = foldl (\<lambda>v ev. view_append v (event_view t ev)) view_empty evs"

fun body_view :: "serde \<Rightarrow> sse_parser \<Rightarrow> stream_item list \<Rightarrow> stream_view" where
  "body_view sj p [] = view_empty"
| "body_view sj p ((Inl _, t) # items) = view_empty"
| "body_view sj p ((Inr bs, t) # items) =
     (let (p', evs) = feed sj p bs in
      view_append (events_view t evs) (if Done \<in> set evs then view_empty else body_view sj p' items))"

text \<open>Gaps between consecutive readings.\<close>

definition gaps :: "duration list \<Rightarrow> duration list" where
  "gaps ts = map2 (\<lambda>a b. dur_saturating_sub b a) ts (tl ts)"

definition last_count :: "string \<Rightarrow> json list \<Rightarrow> nat option" where
  "last_count k us = last_opt (List.map_filter (\<lambda>u. get_u64 u k) us)"

definition view_rel :: "consumer \<Rightarrow> stream_view \<Rightarrow> bool" where
  "view_rel c v \<longleftrightarrow>
     first_token_time c = hd_opt (v_tokens v) \<and> last_token_at c = last_opt (v_tokens v) \<and>
     itl c = gaps (v_tokens v) \<and> first_reasoning_time c = hd_opt (v_reasoning v) \<and>
     completion_text c = v_text v \<and> finish_reason c = last_opt (v_finish v) \<and>
     saw_finish c = (v_finish v \<noteq> []) \<and>
     prompt_tokens c = unwrap_or (last_count ''prompt_tokens'' (v_usage v)) 0 \<and>
     completion_tokens c = unwrap_or (last_count ''completion_tokens'' (v_usage v)) 0 \<and>
     total_tokens c = unwrap_or (last_count ''total_tokens'' (v_usage v)) 0 \<and>
     prompt_tokens_present c = (last_count ''prompt_tokens'' (v_usage v) \<noteq> None) \<and>
     completion_tokens_present c = (last_count ''completion_tokens'' (v_usage v) \<noteq> None) \<and>
     c_reasoning_tokens c = last_opt (List.map_filter reasoning_tokens (v_usage v))"

lemma view_append_empty [simp]: "view_append v view_empty = v" "view_append view_empty v = v"
  by (simp_all add: view_append_def view_empty_def)

lemma view_append_assoc: "view_append (view_append u v) w = view_append u (view_append v w)"
  by (simp add: view_append_def)

lemma foldl_view: "foldl (\<lambda>v x. view_append v (f x)) (view_append u v) xs =
    view_append u (foldl (\<lambda>v x. view_append v (f x)) v xs)"
  by (induction xs arbitrary: v) (simp_all add: view_append_assoc)

lemma events_view_Cons: "events_view t (ev # evs) = view_append (event_view t ev) (events_view t evs)"
  using foldl_view [of "event_view t" "event_view t ev" view_empty evs] by (simp add: events_view_def)

lemma events_view_Nil [simp]: "events_view t [] = view_empty"
  by (simp add: events_view_def)

lemma gaps_snoc: "ts \<noteq> [] \<Longrightarrow> gaps (ts @ [t]) = gaps ts @ [dur_saturating_sub t (last ts)]"
proof (induction ts)
  case (Cons x xs)
  then show ?case by (cases xs) (auto simp: gaps_def)
qed simp

lemma gaps_simps [simp]: "gaps [] = []" "gaps [t] = []"
  by (simp_all add: gaps_def)

lemma length_gaps: "length (gaps ts) = length ts - 1"
  by (simp add: gaps_def)

lemma gaps_telescope:
  "sorted ts \<Longrightarrow> ts \<noteq> [] \<Longrightarrow> hd ts + sum_list (gaps ts) = last ts"
proof (induction ts rule: rev_induct)
  case (snoc t ts)
  show ?case
  proof (cases "ts = []")
    case False
    have le: "last ts \<le> t" using snoc.prems(1) False by (simp add: sorted_append)
    have "hd ts + sum_list (gaps ts) = last ts" using snoc False by (simp add: sorted_append)
    then show ?thesis using le False by (simp add: gaps_snoc dur_saturating_sub_def)
  qed simp
qed simp

subsection \<open>The consumer refines the view\<close>

lemma view_rel_default: "view_rel (consumer_default\<lparr>trace := x\<rparr>) view_empty"
  by (simp add: view_rel_def view_empty_def consumer_default_def last_count_def List.map_filter_simps)

lemma view_rel_parser [simp]: "view_rel (c\<lparr>parser := p\<rparr>) v \<longleftrightarrow> view_rel c v"
  and view_rel_done [simp]: "view_rel (c\<lparr>is_done := d\<rparr>) v \<longleftrightarrow> view_rel c v"
  and view_rel_trace [simp]: "view_rel (c\<lparr>trace := x\<rparr>) v \<longleftrightarrow> view_rel c v"
  by (simp_all add: view_rel_def)

lemma view_rel_push_trace [simp]: "view_rel (push_trace ev t c) v \<longleftrightarrow> view_rel c v"
  by (simp add: push_trace_def split: option.splits)

lemma last_opt_filter_snoc:
  "last_opt (List.map_filter f (xs @ [x])) = option_or (f x) (last_opt (List.map_filter f xs))"
  by (simp add: List.map_filter_simps option_or_def split: option.splits)

lemma unwrap_or_option_or: "unwrap_or (option_or a b) d = unwrap_or a (unwrap_or b d)"
  by (simp add: option_or_def unwrap_or_def split: option.splits)

lemma option_or_eq_None: "option_or a b = None \<longleftrightarrow> a = None \<and> b = None"
  by (simp add: option_or_def split: option.splits)

lemma last_count_snoc: "last_count k (us @ [u]) = option_or (get_u64 u k) (last_count k us)"
  unfolding last_count_def by (rule last_opt_filter_snoc)

lemmas usage_simps = apply_usage_def usage_presence_def last_count_snoc last_opt_filter_snoc
  unwrap_or_option_or option_or_eq_None

lemma view_rel_usage:
  "view_rel c v \<Longrightarrow> view_rel (apply_usage u c) (v\<lparr>v_usage := v_usage v @ [u]\<rparr>)"
  by (simp add: view_rel_def usage_simps del: map_filter_append) blast

lemma view_rel_finish:
  "view_rel c v \<Longrightarrow> view_rel (note_finish ch c)
     (v\<lparr>v_finish := v_finish v @ (case choice_finish_reason ch of Some r \<Rightarrow> [r] | None \<Rightarrow> [])\<rparr>)"
  by (auto simp: view_rel_def note_finish_def split: option.splits)

lemma view_rel_reasoning:
  "view_rel c v \<Longrightarrow> view_rel (note_reasoning t ch c)
     (v\<lparr>v_reasoning := v_reasoning v @ (if choice_has_reasoning_token ch then [t] else [])\<rparr>)"
  by (auto simp: view_rel_def note_reasoning_def option_or_def split: option.splits)

lemma view_rel_output:
  "view_rel c v \<Longrightarrow> view_rel (note_output t ch c)
     (v\<lparr>v_tokens := v_tokens v @ (if choice_has_output_token ch then [t] else [])\<rparr>)"
proof (cases "v_tokens v = []")
  case False
  then obtain a where "hd_opt (v_tokens v) = Some a" "last_opt (v_tokens v) = Some (last (v_tokens v))"
    by (cases "v_tokens v") (auto simp: last_opt_def)
  then show "view_rel c v \<Longrightarrow> ?thesis"
    using False by (auto simp: view_rel_def note_output_def gaps_snoc Let_def)
qed (auto simp: view_rel_def note_output_def Let_def)

lemma view_rel_text:
  "view_rel c v \<Longrightarrow> view_rel (append_text ch c)
     (v\<lparr>v_text := v_text v @ unwrap_or (choice_output_text ch) []\<rparr>)"
  by (auto simp: view_rel_def append_text_def split: option.splits)

lemma view_rel_choice:
  assumes "view_rel c v"
  shows "view_rel (apply_choice t c ch) (view_append v (choice_view t ch))"
  using view_rel_text [OF view_rel_output [OF view_rel_reasoning [OF view_rel_finish [OF assms]]]]
  by (cases v) (simp add: apply_choice_def view_append_def choice_view_def)

lemma view_rel_choices:
  "view_rel c v \<Longrightarrow> view_rel (foldl (apply_choice t) c chs)
     (foldl (\<lambda>v ch. view_append v (choice_view t ch)) v chs)"
  by (induction chs arbitrary: c v) (auto intro: view_rel_choice)

lemma view_rel_event:
  assumes "view_rel c v" "handle_event sj t c ev = (c', None)"
  shows "view_rel c' (view_append v (event_view t ev))"
proof (cases ev)
  case (Json parsed)
  let ?u = "case jget parsed ''usage'' of Some u \<Rightarrow> view_empty\<lparr>v_usage := [u]\<rparr> | None \<Rightarrow> view_empty"
  let ?chs = "case get_array parsed ''choices'' of Some cs \<Rightarrow> measured_choices cs | None \<Rightarrow> []"
  let ?c = "case jget parsed ''usage'' of Some usage \<Rightarrow> apply_usage usage c | None \<Rightarrow> c"
  have c': "c' = foldl (apply_choice t) ?c ?chs" and e: "jget parsed ''error'' = None"
    using assms(2) Json by (auto simp: apply_choices_def split: option.splits)
  have "view_rel ?c (view_append v ?u)"
    using assms(1) view_rel_usage [OF assms(1)]
    by (cases v) (auto simp: view_append_def view_empty_def split: option.splits)
  from view_rel_choices [OF this, of t ?chs] show ?thesis
    using Json e c' by (simp add: foldl_view)
qed (use assms in auto)

lemma view_rel_events:
  "view_rel c v \<Longrightarrow> handle_events sj t c evs = (c', None) \<Longrightarrow>
   view_rel c' (view_append v (events_view t evs))"
proof (induction evs arbitrary: c v)
  case (Cons ev evs)
  from Cons.prems(2) obtain c1 where h: "handle_event sj t (push_trace ev t c) ev = (c1, None)"
    and r: "handle_events sj t c1 evs = (c', None)"
    by (auto split: prod.splits option.splits)
  have "view_rel c1 (view_append v (event_view t ev))"
    using view_rel_event [OF _ h] Cons.prems(1) by simp
  from Cons.IH [OF this r] show ?case by (simp add: events_view_Cons view_append_assoc)
qed simp

lemma consumer_fields_frame:
  "is_done (push_trace ev t c) = is_done c" "parser (push_trace ev t c) = parser c"
  "is_done (apply_usage u c) = is_done c" "parser (apply_usage u c) = parser c"
  by (auto simp: push_trace_def apply_usage_def Let_def split: option.splits prod.splits)

lemma apply_choice_frame:
  "is_done (apply_choice t c ch) = is_done c" "parser (apply_choice t c ch) = parser c"
  by (auto simp: apply_choice_def append_text_def note_output_def note_reasoning_def note_finish_def
      Let_def split: option.splits)

lemma foldl_choice_frame:
  "is_done (foldl (apply_choice t) c chs) = is_done c"
  "parser (foldl (apply_choice t) c chs) = parser c"
  by (induction chs arbitrary: c) (auto simp: apply_choice_frame)

lemma handle_event_frame:
  assumes "handle_event sj t c ev = (c', r)"
  shows "parser c' = parser c" "is_done c' = (is_done c \<or> ev = Done)"
  using assms
  by (cases ev; auto simp: apply_choices_def foldl_choice_frame consumer_fields_frame
      split: option.splits)+

lemma handle_events_frame:
  "handle_events sj t c evs = (c', r) \<Longrightarrow> parser c' = parser c"
  "handle_events sj t c evs = (c', None) \<Longrightarrow> is_done c' = (is_done c \<or> Done \<in> set evs)"
  by (induction evs arbitrary: c)
     (auto split: prod.splits option.splits dest: handle_event_frame simp: consumer_fields_frame)

lemma view_rel_body:
  "view_rel c v \<Longrightarrow> \<not> is_done c \<Longrightarrow> read_body sj c items = ReadEnded c' rest \<Longrightarrow>
   view_rel c' (view_append v (body_view sj (parser c) items))"
proof (induction sj c items arbitrary: v rule: read_body.induct)
  case (3 sj c bs t items)
  obtain p evs where p: "feed sj (parser c) bs = (p, evs)" by (cases "feed sj (parser c) bs")
  obtain c1 where f: "handle_events sj t (c\<lparr>parser := p\<rparr>) evs = (c1, None)"
    using 3(4) p by (auto simp: consumer_feed_def split: prod.splits option.splits)
  have v1: "view_rel c1 (view_append v (events_view t evs))"
    using view_rel_events [OF _ f] 3(2) by simp
  have d: "is_done c1 = (Done \<in> set evs)" and p1: "parser c1 = p"
    using handle_events_frame [OF f] handle_events_frame(1) [OF f] 3(3) by simp_all
  have cf: "consumer_feed sj c bs t = (c1, None)" using p f by (simp add: consumer_feed_def)
  show ?case
  proof (cases "is_done c1")
    case True
    then show ?thesis using 3(4) v1 cf d p by simp
  next
    case False
    then have "view_rel c' (view_append (view_append v (events_view t evs)) (body_view sj p items))"
      using 3(1) [OF cf [symmetric] refl _ v1] 3(4) cf p1 by simp
    then show ?thesis using False d p by (simp add: view_append_assoc)
  qed
qed simp_all

lemma consume_success_body:
  assumes "consume_with_clock sj items latency allow tr = Inr r"
  obtains c rest where
    "read_body sj (consumer_default\<lparr>trace := (if tr then Some [] else None)\<rparr>) items = ReadEnded c rest"
    "finish c latency allow = Inr r" "view_rel c (body_view sj sse_new items)"
proof -
  let ?c0 = "consumer_default\<lparr>trace := (if tr then Some [] else None)\<rparr>"
  from assms obtain c rest where b: "read_body sj ?c0 items = ReadEnded c rest"
    and f: "finish c latency allow = Inr r"
    by (auto simp: consume_with_clock_def split: read_outcome.splits sum.splits)
  have "view_rel c (view_append view_empty (body_view sj (parser ?c0) items))"
    by (rule view_rel_body [OF view_rel_default _ b]) (simp add: consumer_default_def)
  then show ?thesis using that [OF b f] by (simp add: consumer_default_def)
qed

lemma finish_Inr:
  "finish c latency allow = Inr r \<Longrightarrow>
     (is_done c \<or> saw_finish c) \<and> (first_token_time c \<noteq> None \<or> allow) \<and>
     r_latency r = latency \<and> r_ttft r = first_token_time c \<and> r_itl r = itl c \<and>
     r_first_reasoning r = first_reasoning_time c \<and> r_finish_reason r = finish_reason c \<and>
     r_completion_text r = completion_text c \<and> r_prompt_tokens r = prompt_tokens c \<and>
     r_completion_tokens r = completion_tokens c \<and> r_total_tokens r = total_tokens c \<and>
     r_usage_complete r = (prompt_tokens_present c \<and> completion_tokens_present c) \<and>
     r_reasoning_tokens r = c_reasoning_tokens c \<and> r_trace r = trace c"
  by (auto simp: finish_def split: if_splits)

lemma read_body_prefix:
  "read_body sj c pre = ReadEnded c' [] \<Longrightarrow> \<not> is_done c' \<Longrightarrow>
   read_body sj c (pre @ items) = read_body sj c' items"
proof (induction sj c pre rule: read_body.induct)
  case (3 sj c bs t pre)
  obtain c1 e where f: "consumer_feed sj c bs t = (c1, e)" by (cases "consumer_feed sj c bs t")
  with 3(2) have e: "e = None" by (cases e) auto
  show ?case
  proof (cases "is_done c1")
    case True
    with 3(2,3) f e show ?thesis by auto
  next
    case False
    with 3 f e show ?thesis by auto
  qed
qed simp_all

lemma read_body_after_done:
  "read_body sj c pre = ReadEnded c' rest \<Longrightarrow> is_done c' \<Longrightarrow> \<not> is_done c \<Longrightarrow>
   read_body sj c (pre @ items) = ReadEnded c' (rest @ items)"
proof (induction sj c pre rule: read_body.induct)
  case (3 sj c bs t pre)
  obtain c1 e where f: "consumer_feed sj c bs t = (c1, e)" by (cases "consumer_feed sj c bs t")
  with 3(2) have e: "e = None" by (cases e) auto
  show ?case
  proof (cases "is_done c1")
    case True
    with 3(2) f e show ?thesis by auto
  next
    case False
    with 3 f e show ?thesis by auto
  qed
qed auto

subsection \<open>The trace\<close>

definition trace_categories :: "string list" where
  "trace_categories = [''done'', ''other'', ''error'', ''usage'', ''finish'', ''reasoning'', ''content'']"

definition trace_ok :: "stream_event_trace list option \<Rightarrow> bool" where
  "trace_ok tr \<longleftrightarrow> (case tr of None \<Rightarrow> True | Some t \<Rightarrow>
     \<forall>i < length t. tr_index (t ! i) = i mod 2 ^ 32 \<and> tr_categories (t ! i) \<noteq> [] \<and>
       set (tr_categories (t ! i)) \<subseteq> set trace_categories)"

lemma event_categories_ok: "event_categories ev \<noteq> [] \<and> set (event_categories ev) \<subseteq> set trace_categories"
  by (cases ev) (auto simp: trace_categories_def choice_categories_def Let_def split: if_splits option.splits)

lemma trace_ok_push: "trace_ok (trace c) \<Longrightarrow> trace_ok (trace (push_trace ev t c))"
  using event_categories_ok [of ev]
  by (auto simp: trace_ok_def push_trace_def nth_append less_Suc_eq split: option.splits)

lemma trace_frame:
  "trace (apply_usage u c) = trace c" "trace (apply_choice t c ch) = trace c"
  by (auto simp: apply_usage_def apply_choice_def append_text_def note_output_def note_reasoning_def
      note_finish_def Let_def split: option.splits prod.splits)

lemma foldl_choice_trace: "trace (foldl (apply_choice t) c chs) = trace c"
  by (induction chs arbitrary: c) (auto simp: trace_frame)

lemma handle_event_trace: "handle_event sj t c ev = (c', r) \<Longrightarrow> trace c' = trace c"
  by (cases ev) (auto simp: apply_choices_def foldl_choice_trace trace_frame split: option.splits)

lemma handle_events_trace:
  "handle_events sj t c evs = (c', r) \<Longrightarrow> trace_ok (trace c) \<Longrightarrow>
   trace_ok (trace c') \<and> (trace c = None \<longleftrightarrow> trace c' = None)"
proof (induction evs arbitrary: c)
  case (Cons ev evs)
  obtain c1 e where h: "handle_event sj t (push_trace ev t c) ev = (c1, e)"
    by (cases "handle_event sj t (push_trace ev t c) ev")
  have t1: "trace c1 = trace (push_trace ev t c)" using handle_event_trace [OF h] .
  have n: "trace (push_trace ev t c) = None \<longleftrightarrow> trace c = None"
    by (simp add: push_trace_def split: option.splits)
  show ?case
  proof (cases e)
    case None
    then show ?thesis
      using Cons.IH [of c1] Cons.prems h t1 n trace_ok_push [of c ev t] by simp
  next
    case (Some x)
    then show ?thesis using Cons.prems h t1 n trace_ok_push [of c ev t] by auto
  qed
qed auto

lemma read_body_trace:
  "read_body sj c items = ReadEnded c' rest \<Longrightarrow> trace_ok (trace c) \<Longrightarrow>
   trace_ok (trace c') \<and> (trace c = None \<longleftrightarrow> trace c' = None)"
proof (induction sj c items rule: read_body.induct)
  case (3 sj c bs t items)
  obtain p evs where p: "feed sj (parser c) bs = (p, evs)" by (cases "feed sj (parser c) bs")
  obtain c1 where f: "handle_events sj t (c\<lparr>parser := p\<rparr>) evs = (c1, None)"
    using 3(2) p by (auto simp: consumer_feed_def split: prod.splits option.splits)
  have cf: "consumer_feed sj c bs t = (c1, None)" using p f by (simp add: consumer_feed_def)
  have t1: "trace_ok (trace c1) \<and> (trace c = None \<longleftrightarrow> trace c1 = None)"
    using handle_events_trace [OF f] 3(3) by simp
  show ?case
    using 3(1) [OF cf [symmetric] refl] 3(2) cf t1 by (auto split: if_splits)
qed auto

subsection \<open>Bodies made of whole frames\<close>

text \<open>A body in which every chunk is one frame, read event by event.\<close>

fun read_frames ::
  "serde \<Rightarrow> consumer \<Rightarrow> (ustr \<times> duration) list \<Rightarrow> consumer \<times> request_error option \<times> nat" where
  "read_frames sj c [] = (c, None, 0)"
| "read_frames sj c ((s, t) # ss) =
     (case handle_events sj t c [sse_classify sj s] of
        (c', Some e) \<Rightarrow> (c', Some e, length ss)
      | (c', None) \<Rightarrow> if is_done c' then (c', None, length ss) else read_frames sj c' ss)"

fun frames_view :: "serde \<Rightarrow> (ustr \<times> duration) list \<Rightarrow> stream_view" where
  "frames_view sj [] = view_empty"
| "frames_view sj ((s, t) # ss) =
     view_append (event_view t (sse_classify sj s))
       (if sse_classify sj s = Done then view_empty else frames_view sj ss)"

definition frame_items :: "(ustr \<times> duration) list \<Rightarrow> stream_item list" where
  "frame_items ss = map (\<lambda>(s, t). (Inr (sse_frame [s]), t)) ss"

lemma feed_one_frame:
  "payload_ok s \<Longrightarrow> feed sj sse_new (sse_frame [s]) = (sse_new, [sse_classify sj s])"
  using feed_frame [of sse_new "[s]" sj] by (simp add: sse_new_def)

lemma read_body_frames:
  assumes "list_all (\<lambda>(s, t). payload_ok s) ss" "parser c = sse_new"
  shows "read_body sj c (frame_items ss) =
    (case read_frames sj c ss of
       (c', None, n) \<Rightarrow> ReadEnded c' (drop (length ss - n) (frame_items ss))
     | (c', Some e, n) \<Rightarrow> ReadFailed \<lparr>f_error = e, f_usage = partial_usage c'\<rparr>)"
  using assms
proof (induction sj c ss rule: read_frames.induct)
  case (2 sj c s t ss)
  have p: "c\<lparr>parser := sse_new\<rparr> = c" using 2(3) by simp
  obtain c1 e where h: "handle_events sj t c [sse_classify sj s] = (c1, e)"
    by (cases "handle_events sj t c [sse_classify sj s]")
  have cf: "consumer_feed sj c (sse_frame [s]) t = (c1, e)"
    using 2(2,3) h by (simp add: consumer_feed_def feed_one_frame p del: handle_events.simps)
  have p1: "parser c1 = sse_new" using handle_events_frame(1) [OF h] 2(3) by simp
  have n: "fst (snd (read_frames sj c1 ss)) = None \<Longrightarrow> snd (snd (read_frames sj c1 ss)) \<le> length ss"
    by (induction sj c1 ss rule: read_frames.induct) (auto split: prod.splits option.splits if_splits)
  show ?case
  proof (cases "e = None \<and> \<not> is_done c1")
    case True
    then show ?thesis
      using 2(1) [OF h [symmetric]] 2(2) p1 cf h n
      by (cases "read_frames sj c1 ss")
         (auto simp: frame_items_def Suc_diff_le split: option.splits)
  next
    case False
    then show ?thesis using cf h by (cases e) (auto simp: frame_items_def)
  qed
qed (simp add: frame_items_def)

lemma body_view_frames:
  "list_all (\<lambda>(s, t). payload_ok s) ss \<Longrightarrow>
   body_view sj sse_new (frame_items ss) = frames_view sj ss"
proof (induction ss)
  case (Cons x ss)
  obtain s t where x: "x = (s, t)" by (cases x)
  have "events_view t [ev] = event_view t ev" for ev by (simp add: events_view_Cons)
  then show ?case using Cons x by (simp add: frame_items_def feed_one_frame eq_commute)
qed (simp add: frame_items_def)

subsection \<open>Properties\<close>

text \<open>
C1: A stream that is consumed successfully reports exactly what its events say: TTFT is the
time of the first visible token, the inter-token latencies are the gaps between consecutive
visible tokens, the reasoning time, the finish reason, the text and the token counts are the
first, last, concatenated and last reported ones, and usage is complete only when both counts
were reported.
\<close>

theorem consume_reports_view:
  assumes "consume_with_clock sj items latency allow tr = Inr r"
  defines "v \<equiv> body_view sj sse_new items"
  shows "r_latency r = latency \<and> r_ttft r = hd_opt (v_tokens v) \<and> r_itl r = gaps (v_tokens v) \<and>
    r_first_reasoning r = hd_opt (v_reasoning v) \<and> r_finish_reason r = last_opt (v_finish v) \<and>
    r_completion_text r = v_text v \<and>
    r_prompt_tokens r = unwrap_or (last_count ''prompt_tokens'' (v_usage v)) 0 \<and>
    r_completion_tokens r = unwrap_or (last_count ''completion_tokens'' (v_usage v)) 0 \<and>
    r_usage_complete r = (last_count ''prompt_tokens'' (v_usage v) \<noteq> None \<and>
      last_count ''completion_tokens'' (v_usage v) \<noteq> None) \<and>
    r_reasoning_tokens r = last_opt (List.map_filter reasoning_tokens (v_usage v))"
proof -
  obtain c rest where f: "finish c latency allow = Inr r" and w: "view_rel c v"
    using consume_success_body [OF assms(1)] unfolding v_def by metis
  show ?thesis using finish_Inr [OF f] w unfolding view_rel_def by simp
qed

definition demo_serde :: serde where
  "demo_serde =
     \<lparr>from_str = (\<lambda>s. if s = lit ''tok'' then
          Some (JObject [(lit ''choices'', JArray [JObject [(lit ''delta'',
            JObject [(lit ''content'', JString (lit ''hi''))])]])])
        else if s = lit ''use'' then
          Some (JObject [(lit ''usage'', JObject [(lit ''completion_tokens'', JNumber (PosInt 8)),
            (lit ''prompt_tokens'', JNumber (PosInt 4))])])
        else None),
      to_string = (\<lambda>_. [])\<rparr>"

definition demo_frames :: "(ustr \<times> duration) list" where
  "demo_frames = [(lit ''tok'', 30), (lit ''tok'', 60), (lit ''use'', 70), (lit ''[DONE]'', 80)]"

definition demo_result :: chat_stream_result where
  "demo_result =
     \<lparr>r_latency = 90, r_ttft = Some 30, r_first_reasoning = None, r_finish_reason = None,
      r_itl = [30], r_prompt_tokens = 4, r_completion_tokens = 8, r_total_tokens = 0,
      r_usage_complete = True, r_prompt_tokens_present = True, r_completion_tokens_present = True,
      r_reasoning_tokens = None, r_completion_text = lit ''hihi'', r_trace = None\<rparr>"

lemma demo_payloads:
  "list_all (\<lambda>(s, t). payload_ok s) demo_frames" "payload_ok (lit ''tok'')" "payload_ok (lit ''use'')"
  by code_simp+

lemma demo_consume: "consume_with_clock demo_serde (frame_items demo_frames) 90 False False = Inr demo_result"
proof -
  let ?c0 = "consumer_default\<lparr>trace := None\<rparr>"
  have "case read_frames demo_serde ?c0 demo_frames of
      (c, e, n) \<Rightarrow> e = None \<and> finish c 90 False = Inr demo_result" by code_simp
  then obtain c n where "read_frames demo_serde ?c0 demo_frames = (c, None, n)"
    "finish c 90 False = Inr demo_result" by auto
  moreover have "parser ?c0 = sse_new" by (simp add: consumer_default_def)
  ultimately show ?thesis
    using read_body_frames [OF demo_payloads(1), of ?c0 demo_serde]
    by (simp add: consume_with_clock_def)
qed

lemma demo_view: "v_tokens (body_view demo_serde sse_new (frame_items demo_frames)) = [30, 60]"
  unfolding body_view_frames [OF demo_payloads(1)] by code_simp

theorem consume_reports_view_witness:
  "consume_with_clock demo_serde (frame_items demo_frames) 90 False False = Inr demo_result \<and>
   hd_opt (v_tokens (body_view demo_serde sse_new (frame_items demo_frames))) = Some 30 \<and>
   gaps (v_tokens (body_view demo_serde sse_new (frame_items demo_frames))) = [30]"
  using consume_reports_view [OF demo_consume] demo_consume by (simp add: demo_result_def)

text \<open>
C4: With a clock that does not run backwards, the first-token time and the inter-token
latencies of a successful stream telescope to the time of the last visible token, and there is
one latency less than there are visible tokens.
\<close>

theorem consume_itl_telescopes:
  assumes "consume_with_clock sj items latency allow tr = Inr r"
    and "sorted (v_tokens (body_view sj sse_new items))"
    and "r_ttft r = Some t"
  shows "t + sum_list (r_itl r) = last (v_tokens (body_view sj sse_new items)) \<and>
    length (r_itl r) + 1 = length (v_tokens (body_view sj sse_new items))"
proof -
  let ?ts = "v_tokens (body_view sj sse_new items)"
  obtain c rest where f: "finish c latency allow = Inr r" and w: "view_rel c (body_view sj sse_new items)"
    using consume_success_body [OF assms(1)] by metis
  have t: "hd_opt ?ts = Some t" and i: "r_itl r = gaps ?ts"
    using finish_Inr [OF f] w assms(3) by (auto simp: view_rel_def)
  then have ne: "?ts \<noteq> []" and h: "hd ?ts = t" by (auto simp: hd_opt_def split: list.splits)
  then show ?thesis
    using gaps_telescope [OF assms(2) ne] i by (cases ?ts) (simp_all add: length_gaps)
qed

theorem consume_itl_telescopes_witness:
  "(30 :: nat) + sum_list (r_itl demo_result) =
     last (v_tokens (body_view demo_serde sse_new (frame_items demo_frames))) \<and>
   length (r_itl demo_result) + 1 =
     length (v_tokens (body_view demo_serde sse_new (frame_items demo_frames)))"
proof -
  have s: "sorted (v_tokens (body_view demo_serde sse_new (frame_items demo_frames)))"
    by (simp add: demo_view)
  have t: "r_ttft demo_result = Some 30" by (simp add: demo_result_def)
  show ?thesis by (rule consume_itl_telescopes [OF demo_consume s t])
qed

text \<open>
Nothing that arrives after the end marker changes the outcome: once the consumer has seen
\<open>[DONE]\<close>, any further items of the body leave the result as it is.
\<close>

lemma consume_ignores_after_done:
  assumes "read_body sj (consumer_default\<lparr>trace := (if tr then Some [] else None)\<rparr>) items =
      ReadEnded c rest"
    and "is_done c"
  shows "consume_with_clock sj (items @ extra) latency allow tr =
    consume_with_clock sj items latency allow tr"
  using read_body_after_done [OF assms, of extra] assms(1)
  by (simp add: consume_with_clock_def consumer_default_def)

lemma consume_ignores_after_done_example:
  "consume_with_clock demo_serde (frame_items demo_frames @ [(Inr [1, 2, 3], 99)]) 90 False False =
     consume_with_clock demo_serde (frame_items demo_frames) 90 False False"
proof -
  let ?c0 = "consumer_default\<lparr>trace := (if False then Some [] else None)\<rparr>"
  have "case read_frames demo_serde ?c0 demo_frames of
      (c, e, n) \<Rightarrow> e = None \<and> is_done c" by code_simp
  then obtain c n where r: "read_frames demo_serde ?c0 demo_frames = (c, None, n)" and d: "is_done c"
    by auto
  have "parser ?c0 = sse_new" by (simp add: consumer_default_def)
  from read_body_frames [OF demo_payloads(1) this, of demo_serde] r obtain rest where
    "read_body demo_serde ?c0 (frame_items demo_frames) = ReadEnded c rest" by simp
  then show ?thesis using d by (rule consume_ignores_after_done)
qed

text \<open>
C5: A transport failure in the middle of a body is reported with the usage seen so far: the
error is the classified client error, and the counts are the last ones reported by the events
before it.
\<close>

theorem consume_failure_keeps_usage:
  assumes "read_body sj (consumer_default\<lparr>trace := (if tr then Some [] else None)\<rparr>) pre = ReadEnded c []"
    and "\<not> is_done c"
  defines "us \<equiv> v_usage (body_view sj sse_new pre)"
  shows "\<exists>f. consume_with_clock sj (pre @ (Inl err, t) # post) latency allow tr = Inl f \<and>
    f_error f = from_reqwest err \<and>
    pu_prompt_tokens (f_usage f) = unwrap_or (last_count ''prompt_tokens'' us) 0 \<and>
    pu_completion_tokens (f_usage f) = unwrap_or (last_count ''completion_tokens'' us) 0 \<and>
    pu_usage_complete (f_usage f) =
      (last_count ''prompt_tokens'' us \<noteq> None \<and> last_count ''completion_tokens'' us \<noteq> None)"
proof -
  let ?c0 = "consumer_default\<lparr>trace := (if tr then Some [] else None)\<rparr>"
  have "view_rel c (view_append view_empty (body_view sj (parser ?c0) pre))"
    by (rule view_rel_body [OF view_rel_default _ assms(1)]) (simp add: consumer_default_def)
  then have w: "view_rel c (body_view sj sse_new pre)" by (simp add: consumer_default_def)
  show ?thesis
    using read_body_prefix [OF assms(1,2), of "(Inl err, t) # post"] w
    by (simp add: consume_with_clock_def partial_usage_def view_rel_def us_def)
qed

theorem consume_failure_keeps_usage_witness:
  "\<exists>f. consume_with_clock demo_serde
       (frame_items [(lit ''use'', 10)] @ (Inl \<lparr>is_timeout = True, is_connect = False,
          err_status = None, err_chain = [], redacted_text = []\<rparr>, 20) # []) 30 False False = Inl f \<and>
     f_error f = Timeout \<and> pu_completion_tokens (f_usage f) = 8"
proof -
  let ?e = "\<lparr>is_timeout = True, is_connect = False, err_status = None, err_chain = [], redacted_text = []\<rparr>"
  let ?c0 = "consumer_default\<lparr>trace := (if False then Some [] else None)\<rparr>"
  let ?ss = "[(lit ''use'', 10)] :: (ustr \<times> duration) list"
  have "case read_frames demo_serde ?c0 ?ss of
      (c, e, n) \<Rightarrow> e = None \<and> n = 0 \<and> \<not> is_done c" by code_simp
  then obtain c where r: "read_frames demo_serde ?c0 ?ss = (c, None, 0)" and d: "\<not> is_done c" by auto
  have ok: "list_all (\<lambda>(s, t). payload_ok s) ?ss" using demo_payloads(3) by simp
  have p0: "parser ?c0 = sse_new" by (simp add: consumer_default_def)
  have b: "read_body demo_serde ?c0 (frame_items ?ss) = ReadEnded c []"
    using read_body_frames [OF ok p0, of demo_serde] r by (simp add: frame_items_def)
  have u: "last_count ''completion_tokens'' (v_usage (body_view demo_serde sse_new (frame_items ?ss))) = Some 8"
    unfolding body_view_frames [OF ok] by code_simp
  show ?thesis
    using consume_failure_keeps_usage [OF b d, of ?e 20 "[]" 30 False] u
    by (auto simp: from_reqwest_def)
qed

text \<open>
The event timeline holds categories and times only: its entries are numbered in arrival
order, every entry has a category, and all categories come from the fixed list; without the
flag there is no timeline.
\<close>

lemma trace_is_content_free:
  assumes "consume_with_clock sj items latency allow tr = Inr r"
  shows "trace_ok (r_trace r) \<and> (r_trace r = None \<longleftrightarrow> \<not> tr)"
proof -
  obtain c rest where
    b: "read_body sj (consumer_default\<lparr>trace := (if tr then Some [] else None)\<rparr>) items = ReadEnded c rest"
    and f: "finish c latency allow = Inr r"
    using consume_success_body [OF assms] by metis
  have "trace_ok (if tr then Some [] else None)" by (simp add: trace_ok_def)
  then have "trace_ok (trace c) \<and> (tr \<longleftrightarrow> trace c \<noteq> None)"
    using read_body_trace [OF b] by (cases tr) auto
  then show ?thesis using finish_Inr [OF f] by (simp split: if_splits)
qed

lemma trace_is_content_free_example:
  "trace_ok (r_trace demo_result) \<and> (r_trace demo_result = None \<longleftrightarrow> \<not> False)"
  by (rule trace_is_content_free [OF demo_consume])

text \<open>
The terminal classification of a finished stream: a missing visible token is an error
unless it is allowed, a stream that neither finished nor ended is truncated, and among the
results without a visible token exactly those that reasoned and stopped at the length limit
are classified as truncated reasoning.
\<close>

lemma finish_classification:
  "(finish c latency allow = Inl StreamTruncated \<longleftrightarrow> \<not> is_done c \<and> \<not> saw_finish c) \<and>
   (finish c latency allow = Inl NoOutputToken \<longleftrightarrow>
      (is_done c \<or> saw_finish c) \<and> first_token_time c = None \<and> \<not> allow) \<and>
   (case finish c latency allow of
      Inl e \<Rightarrow> e = StreamTruncated \<or> e = NoOutputToken
    | Inr r \<Rightarrow>
        (output_error r = None \<longleftrightarrow> first_token_time c \<noteq> None) \<and>
        (output_error r = Some ReasoningTruncated \<longleftrightarrow>
           first_token_time c = None \<and> first_reasoning_time c \<noteq> None \<and>
           finish_reason c = Some (lit ''length'')))"
  by (simp add: finish_def output_error_def)

lemma drain_bounded:
  "drained \<le> DRAIN_BYTE_CAP \<Longrightarrow> \<forall>x \<in> set items. case x of (Inr bs, _) \<Rightarrow> length bs \<le> m | _ \<Rightarrow> True \<Longrightarrow>
   drain_after_done drained items \<le> DRAIN_BYTE_CAP + m"
proof (induction drained items rule: drain_after_done.induct)
  case (2 drained item t items)
  then show ?case by (cases item) (auto simp: Let_def)
qed simp

text \<open>
The drain after the end marker is bounded: whatever the server keeps sending, at most the
byte cap plus one chunk is read.
\<close>

lemma drain_reads_bounded:
  assumes "\<forall>x \<in> set items. case x of (Inr bs, _) \<Rightarrow> length bs \<le> m | _ \<Rightarrow> True"
  shows "drain_after_done 0 items \<le> 64 * 1024 + m"
  using drain_bounded [of 0 items m] assms by (simp add: DRAIN_BYTE_CAP_def)

lemma drain_reads_bounded_example:
  "drain_after_done 0 [(Inr [0, 1, 2], 5), (Inr [3], 6), (Inl undefined, 7)] \<le> 64 * 1024 + 3"
  by (rule drain_reads_bounded) simp

end
