(* ===== verification/Connect_Timing.thy ===== *)
theory Connect_Timing
  imports F64
begin

text \<open>
  The HTTP phase trace of one request (\<open>src/connect_timing.rs\<close>): the slot's state, the
  writers called by the connector layer, the resolver, \<open>send\<close> and the counted body stream,
  and the snapshot \<open>trace\<close>. Instants are nanoseconds of the monotonic clock. The writers run
  in whatever order the client drives them, so a request is a list of events.
\<close>

record trace_state =
  connect_attempted :: bool
  connect_completed :: bool
  ts_connect :: "duration option"
  ts_dns :: "duration option"
  pending_dns :: "duration option"
  ts_bytes_sent :: "nat option"
  headers_at :: "nat option"
  body_end_at :: "nat option"
  ts_bytes_received :: nat
  ts_chunks_received :: nat

record http_trace =
  ht_connect_s :: f64
  ht_connection_reused :: bool
  ht_dns_s :: f64
  ht_bytes_sent :: "nat option"
  ht_receive_s :: "f64 option"
  ht_bytes_received :: "nat option"
  ht_chunks_received :: "nat option"

definition trace_state_default :: trace_state where
  "trace_state_default =
     \<lparr>connect_attempted = False, connect_completed = False, ts_connect = None, ts_dns = None,
      pending_dns = None, ts_bytes_sent = None, headers_at = None, body_end_at = None,
      ts_bytes_received = 0, ts_chunks_received = 0\<rparr>"

definition slot_record :: "duration \<Rightarrow> trace_state \<Rightarrow> trace_state" where
  "slot_record elapsed s =
     (if headers_at s = None then
        (let s1 = s\<lparr>connect_completed := True,
                    ts_connect := Some (unwrap_or (ts_connect s) 0 + elapsed)\<rparr>
         in case pending_dns s1 of
              Some pending \<Rightarrow> s1\<lparr>pending_dns := None, ts_dns := Some (unwrap_or (ts_dns s1) 0 + pending)\<rparr>
            | None \<Rightarrow> s1)
      else s)"

definition record_dns :: "duration \<Rightarrow> trace_state \<Rightarrow> trace_state" where
  "record_dns elapsed s =
     (if headers_at s = None
      then s\<lparr>pending_dns := Some (unwrap_or (pending_dns s) 0 + elapsed)\<rparr> else s)"

definition slot_take :: "trace_state \<Rightarrow> f64" where
  "slot_take s = (case ts_connect s of None \<Rightarrow> Fin 0 | Some d \<Rightarrow> as_secs_f64 d)"

definition slot_trace :: "trace_state \<Rightarrow> http_trace" where
  "slot_trace s =
     (let receive_s = (case (headers_at s, body_end_at s) of
            (Some headers, Some fin) \<Rightarrow> Some (as_secs_f64 (fin - headers))
          | _ \<Rightarrow> None);
          body_read = body_end_at s \<noteq> None
      in \<lparr>ht_connect_s = slot_take s,
          ht_connection_reused =
            (if headers_at s \<noteq> None then \<not> connect_completed s else \<not> connect_attempted s),
          ht_dns_s = as_secs_f64 (unwrap_or (ts_dns s) 0 +
            unwrap_or (case headers_at s of None \<Rightarrow> pending_dns s | Some _ \<Rightarrow> None) 0),
          ht_bytes_sent = ts_bytes_sent s,
          ht_receive_s = receive_s,
          ht_bytes_received = (if body_read then Some (ts_bytes_received s) else None),
          ht_chunks_received = (if body_read then Some (ts_chunks_received s) else None)\<rparr>)"

subsection \<open>The counted body\<close>

record counted_body =
  cb_chunks :: nat
  cb_bytes :: nat
  cb_last_at :: "nat option"
  cb_flushed :: bool

definition counted :: counted_body where
  "counted = \<lparr>cb_chunks = 0, cb_bytes = 0, cb_last_at = None, cb_flushed = False\<rparr>"

definition flush_body :: "nat \<Rightarrow> trace_state \<times> counted_body \<Rightarrow> trace_state \<times> counted_body" where
  "flush_body fin st =
     (let (s, b) = st in
      if cb_flushed b then (s, b)
      else (s\<lparr>ts_chunks_received := ts_chunks_received s + cb_chunks b,
              ts_bytes_received := ts_bytes_received s + cb_bytes b, body_end_at := Some fin\<rparr>,
            b\<lparr>cb_flushed := True\<rparr>))"

text \<open>What happens to a request: the connector is called, succeeds after a time or fails; a
  lookup ends; the body length is recorded; the headers arrive; the body yields a chunk, ends,
  fails or is dropped.\<close>

datatype http_event =
    ConnectCall
  | ConnectOk duration
  | ConnectErr
  | DnsDrop duration
  | BytesSent "nat option"
  | Headers nat
  | BodyChunk nat nat
  | BodyEnd nat
  | BodyErr
  | BodyDrop

fun on_event :: "http_event \<Rightarrow> trace_state \<times> counted_body \<Rightarrow> trace_state \<times> counted_body" where
  "on_event ConnectCall (s, b) = (s\<lparr>connect_attempted := True\<rparr>, b)"
| "on_event (ConnectOk d) (s, b) = (slot_record d s, b)"
| "on_event ConnectErr (s, b) = (s, b)"
| "on_event (DnsDrop d) (s, b) = (record_dns d s, b)"
| "on_event (BytesSent n) (s, b) = (s\<lparr>ts_bytes_sent := n\<rparr>, b)"
| "on_event (Headers t) (s, b) = (s\<lparr>headers_at := Some t\<rparr>, b)"
| "on_event (BodyChunk n t) (s, b) =
     (s, b\<lparr>cb_chunks := cb_chunks b + 1, cb_bytes := cb_bytes b + n, cb_last_at := Some t\<rparr>)"
| "on_event (BodyEnd t) (s, b) = flush_body t (s, b)"
| "on_event BodyErr (s, b) = (s, b)"
| "on_event BodyDrop (s, b) =
     (case cb_last_at b of Some fin \<Rightarrow> flush_body fin (s, b) | None \<Rightarrow> (s, b))"

definition run_events :: "http_event list \<Rightarrow> trace_state \<times> counted_body" where
  "run_events evs = fold on_event evs (trace_state_default, counted)"

subsection \<open>What the trace means\<close>

fun is_headers :: "http_event \<Rightarrow> bool" where
  "is_headers (Headers _) = True"
| "is_headers _ = False"

definition before_headers :: "http_event list \<Rightarrow> http_event list" where
  "before_headers evs = takeWhile (\<lambda>e. \<not> is_headers e) evs"

fun connect_times :: "http_event list \<Rightarrow> duration list" where
  "connect_times [] = []"
| "connect_times (ConnectOk d # evs) = d # connect_times evs"
| "connect_times (_ # evs) = connect_times evs"

text \<open>Lookup time is booked when a connect completes after it; the rest stays pending.\<close>

fun dns_times :: "duration \<Rightarrow> http_event list \<Rightarrow> duration \<times> duration" where
  "dns_times pending [] = (0, pending)"
| "dns_times pending (ConnectOk _ # evs) = (let (b, p) = dns_times 0 evs in (pending + b, p))"
| "dns_times pending (DnsDrop d # evs) = dns_times (pending + d) evs"
| "dns_times pending (_ # evs) = dns_times pending evs"

lemma fold_headers_seen:
  assumes "headers_at s \<noteq> None"
  shows "let s' = fst (fold on_event evs (s, b)) in
    headers_at s' \<noteq> None \<and> ts_connect s' = ts_connect s \<and> ts_dns s' = ts_dns s \<and>
    connect_completed s' = connect_completed s"
  using assms
proof (induction evs arbitrary: s b)
  case (Cons ev evs)
  obtain s1 b1 where e: "on_event ev (s, b) = (s1, b1)" by (cases "on_event ev (s, b)")
  have "headers_at s1 \<noteq> None \<and> ts_connect s1 = ts_connect s \<and> ts_dns s1 = ts_dns s \<and>
      connect_completed s1 = connect_completed s"
    using e Cons.prems
    by (cases ev) (auto simp: slot_record_def record_dns_def flush_body_def split: if_splits option.splits)
  then show ?case using Cons.IH [of s1 b1] e by (simp add: Let_def)
qed simp

lemma slot_record_books:
  assumes "headers_at s = None"
  shows "headers_at (slot_record d s) = None" "ts_connect (slot_record d s) = Some (unwrap_or (ts_connect s) 0 + d)"
    "connect_completed (slot_record d s)"
    "unwrap_or (ts_dns (slot_record d s)) 0 = unwrap_or (ts_dns s) 0 + unwrap_or (pending_dns s) 0"
    "unwrap_or (pending_dns (slot_record d s)) 0 = 0"
  using assms by (auto simp: slot_record_def Let_def split: option.splits)

lemma record_dns_books:
  assumes "headers_at s = None"
  shows "headers_at (record_dns d s) = None" "ts_connect (record_dns d s) = ts_connect s"
    "connect_completed (record_dns d s) = connect_completed s" "ts_dns (record_dns d s) = ts_dns s"
    "unwrap_or (pending_dns (record_dns d s)) 0 = unwrap_or (pending_dns s) 0 + d"
  using assms by (auto simp: record_dns_def Let_def split: option.splits)

lemma flush_books:
  shows "headers_at (fst (flush_body t (s, b))) = headers_at s" "ts_connect (fst (flush_body t (s, b))) = ts_connect s"
    "connect_completed (fst (flush_body t (s, b))) = connect_completed s" "ts_dns (fst (flush_body t (s, b))) = ts_dns s"
    "pending_dns (fst (flush_body t (s, b))) = pending_dns s"
  by (auto simp: flush_body_def Let_def split: option.splits if_splits)

lemma fold_before_headers:
  assumes "list_all (\<lambda>e. \<not> is_headers e) evs" "headers_at s = None"
  shows "let s' = fst (fold on_event evs (s, b)) in
    headers_at s' = None \<and>
    unwrap_or (ts_connect s') 0 = unwrap_or (ts_connect s) 0 + sum_list (connect_times evs) \<and>
    (ts_connect s' = None \<longleftrightarrow> ts_connect s = None \<and> connect_times evs = []) \<and>
    connect_completed s' = (connect_completed s \<or> connect_times evs \<noteq> []) \<and>
    unwrap_or (ts_dns s') 0 = unwrap_or (ts_dns s) 0 + fst (dns_times (unwrap_or (pending_dns s) 0) evs) \<and>
    unwrap_or (pending_dns s') 0 = snd (dns_times (unwrap_or (pending_dns s) 0) evs)"
  using assms
proof (induction evs arbitrary: s b)
  case (Cons ev evs)
  have flush: ?case if "on_event ev (s, b) = flush_body t (s, b)" "connect_times (ev # evs) = connect_times evs"
      "\<And>p. dns_times p (ev # evs) = dns_times p evs" for t
    using that Cons.IH [of "fst (flush_body t (s, b))" "snd (flush_body t (s, b))"] Cons.prems
    by (simp add: flush_books)
  show ?case
  proof (cases ev)
    case ConnectCall
    then show ?thesis using Cons.IH [of "s\<lparr>connect_attempted := True\<rparr>" b] Cons.prems by simp
  next
    case (BytesSent n)
    then show ?thesis using Cons.IH [of "s\<lparr>ts_bytes_sent := n\<rparr>" b] Cons.prems by simp
  next
    case (ConnectOk d)
    then show ?thesis
      using Cons.IH [OF _ slot_record_books(1), of s d b] Cons.prems
      by (simp add: slot_record_books Let_def split_beta add_ac)
  next
    case (DnsDrop d)
    then show ?thesis
      using Cons.IH [OF _ record_dns_books(1), of s d b] Cons.prems by (simp add: record_dns_books Let_def)
  next
    case (BodyEnd t)
    then show ?thesis by (intro flush [of t]) simp_all
  next
    case BodyDrop
    then show ?thesis
      using flush Cons.IH [of s b] Cons.prems by (cases "cb_last_at b") simp_all
  qed (use Cons.IH Cons.prems in simp_all)
qed simp

lemma as_secs_f64_0 [simp]: "as_secs_f64 0 = Fin 0"
  by (simp add: as_secs_f64_def fdiv_def)

lemma dns_times_unbooked: "connect_times evs = [] \<Longrightarrow> fst (dns_times p evs) = 0"
  by (induction p evs rule: dns_times.induct) auto

lemma slot_take_eq: "slot_take s = as_secs_f64 (unwrap_or (ts_connect s) 0)"
  by (simp add: slot_take_def unwrap_or_def split: option.splits)

fun ends_body :: "http_event \<Rightarrow> bool" where
  "ends_body (BodyEnd _) = True"
| "ends_body BodyDrop = True"
| "ends_body _ = False"

fun chunk_sizes :: "http_event list \<Rightarrow> nat list" where
  "chunk_sizes [] = []"
| "chunk_sizes (BodyChunk n _ # evs) = n # chunk_sizes evs"
| "chunk_sizes (_ # evs) = chunk_sizes evs"

lemma fold_flushed:
  assumes "cb_flushed b"
  shows "let (s', b') = fold on_event evs (s, b) in
    ts_bytes_received s' = ts_bytes_received s \<and> ts_chunks_received s' = ts_chunks_received s \<and>
    body_end_at s' = body_end_at s"
  using assms
proof (induction evs arbitrary: s b)
  case (Cons ev evs)
  obtain s1 b1 where e: "on_event ev (s, b) = (s1, b1)" by (cases "on_event ev (s, b)")
  have "cb_flushed b1 \<and> ts_bytes_received s1 = ts_bytes_received s \<and>
      ts_chunks_received s1 = ts_chunks_received s \<and> body_end_at s1 = body_end_at s"
    using e Cons.prems
    by (cases ev) (auto simp: slot_record_def record_dns_def flush_body_def Let_def
        split: if_splits option.splits)
  then show ?case using Cons.IH [of b1 s1] e by (auto split: prod.splits)
qed simp

lemma fold_counting:
  assumes "list_all (\<lambda>e. \<not> ends_body e) evs"
  shows "let (s', b') = fold on_event evs (s, b) in
    ts_bytes_received s' = ts_bytes_received s \<and> ts_chunks_received s' = ts_chunks_received s \<and>
    cb_flushed b' = cb_flushed b \<and> cb_bytes b' = cb_bytes b + sum_list (chunk_sizes evs) \<and>
    cb_chunks b' = cb_chunks b + length (chunk_sizes evs) \<and>
    (cb_last_at b' = None \<longleftrightarrow> cb_last_at b = None \<and> chunk_sizes evs = [])"
  using assms
proof (induction evs arbitrary: s b)
  case (Cons ev evs)
  obtain s1 b1 where e: "on_event ev (s, b) = (s1, b1)" by (cases "on_event ev (s, b)")
  show ?case
    using Cons.IH [of s1 b1] Cons.prems e
    by (cases ev) (auto simp: slot_record_def record_dns_def flush_body_def Let_def
        split: if_splits option.splits prod.splits)
qed simp

subsection \<open>Properties\<close>

text \<open>
C11: Once the response headers have arrived, the trace books exactly the connector and lookup
work that finished before them: later connector or resolver events change nothing, the
connection counts as reused exactly when no connect finished before the headers, and a reused
connection has zero connect and lookup time.
\<close>

theorem trace_books_winning_connect:
  assumes "list_all (\<lambda>e. \<not> is_headers e) pre"
  shows "let tr = slot_trace (fst (run_events (pre @ Headers t # post))) in
    ht_connect_s tr = as_secs_f64 (sum_list (connect_times pre)) \<and>
    ht_dns_s tr = as_secs_f64 (fst (dns_times 0 pre)) \<and>
    (ht_connection_reused tr \<longleftrightarrow> connect_times pre = []) \<and>
    (ht_connection_reused tr \<longrightarrow> ht_connect_s tr = Fin 0 \<and> ht_dns_s tr = Fin 0)"
proof -
  obtain s1 b1 where s1: "fold on_event pre (trace_state_default, counted) = (s1, b1)"
    by (cases "fold on_event pre (trace_state_default, counted)")
  let ?h = "s1\<lparr>headers_at := Some t\<rparr>"
  let ?s = "fst (fold on_event post (?h, b1))"
  have r: "fst (run_events (pre @ Headers t # post)) = ?s"
    by (simp add: run_events_def s1)
  have pre: "unwrap_or (ts_connect s1) 0 = sum_list (connect_times pre)"
    "connect_completed s1 = (connect_times pre \<noteq> [])"
    "unwrap_or (ts_dns s1) 0 = fst (dns_times 0 pre)"
    using fold_before_headers [OF assms, of trace_state_default counted] s1
    by (simp_all add: Let_def trace_state_default_def unwrap_or_def)
  have "headers_at ?s \<noteq> None \<and> ts_connect ?s = ts_connect s1 \<and> ts_dns ?s = ts_dns s1 \<and>
      connect_completed ?s = connect_completed s1"
    using fold_headers_seen [of ?h post b1] by (simp add: Let_def)
  then show ?thesis
    unfolding r using pre dns_times_unbooked [of pre 0]
    by (auto simp: slot_trace_def Let_def slot_take_eq unwrap_or_def)
qed

theorem trace_books_winning_connect_witness:
  "ht_connection_reused (slot_trace (fst (run_events
     ([ConnectCall, DnsDrop 3] @ Headers 10 # [ConnectOk 50]))))"
  using trace_books_winning_connect [of "[ConnectCall, DnsDrop 3]" 10 "[ConnectOk 50]"]
  by (simp add: Let_def)

text \<open>
Body bytes and chunks are counted once: when the body ends, or is dropped after at least
one chunk, the trace reports the sizes of exactly the chunks read before, and nothing that
happens later (a drop after the end, further polls) changes the counts.
\<close>

lemma body_counted_once:
  assumes "list_all (\<lambda>e. \<not> ends_body e) pre"
    and "fin = BodyEnd t \<or> fin = BodyDrop \<and> chunk_sizes pre \<noteq> []"
  shows "let tr = slot_trace (fst (run_events (pre @ fin # post))) in
    ht_bytes_received tr = Some (sum_list (chunk_sizes pre)) \<and>
    ht_chunks_received tr = Some (length (chunk_sizes pre))"
proof -
  obtain s1 b1 where s1: "fold on_event pre (trace_state_default, counted) = (s1, b1)"
    by (cases "fold on_event pre (trace_state_default, counted)")
  have c: "ts_bytes_received s1 = 0" "ts_chunks_received s1 = 0" "\<not> cb_flushed b1"
    "cb_bytes b1 = sum_list (chunk_sizes pre)" "cb_chunks b1 = length (chunk_sizes pre)"
    "cb_last_at b1 = None \<longleftrightarrow> chunk_sizes pre = []"
    using fold_counting [OF assms(1), of trace_state_default counted] s1
    by (simp_all add: Let_def trace_state_default_def counted_def)
  obtain s2 b2 where s2: "on_event fin (s1, b1) = (s2, b2)" by (cases "on_event fin (s1, b1)")
  have f: "cb_flushed b2" "ts_bytes_received s2 = sum_list (chunk_sizes pre)"
    "ts_chunks_received s2 = length (chunk_sizes pre)" "body_end_at s2 \<noteq> None"
    using s2 assms(2) c by (auto simp: flush_body_def split: option.splits)
  have "fst (run_events (pre @ fin # post)) = fst (fold on_event post (s2, b2))"
    by (simp add: run_events_def s1 s2)
  then show ?thesis
    using fold_flushed [OF f(1), of post s2] f by (auto simp: slot_trace_def Let_def split: prod.splits)
qed

lemma body_counted_once_example:
  "ht_bytes_received (slot_trace (fst (run_events
     ([Headers 1, BodyChunk 7 2, BodyChunk 5 3] @ BodyEnd 4 # [BodyDrop])))) = Some 12"
  using body_counted_once [of "[Headers 1, BodyChunk 7 2, BodyChunk 5 3]" "BodyEnd 4" 4 "[BodyDrop]"]
  by (simp add: Let_def)

end
