(* ===== verification/Request_Record.thy ===== *)
theory Request_Record
  imports Usage Errors Connect_Timing
begin

text \<open>
  Request records (\<open>src/record.rs\<close>): phases, the record, its two constructors, the
  builder methods and the derived metrics. Field names carry the prefix \<open>rr_\<close>. A time stamp
  is a number of nanoseconds since the epoch.
\<close>

type_synonym datetime = int

datatype phase_kind = Warmup | Measure | Drain

datatype ttft_source = Stream | FirstByteApprox | FirstTokenFallback

fun ttft_source_as_str :: "ttft_source \<Rightarrow> string" where
  "ttft_source_as_str Stream = ''stream''"
| "ttft_source_as_str FirstByteApprox = ''first_byte_approx''"
| "ttft_source_as_str FirstTokenFallback = ''first_token_fallback''"

record resolved_ttft =
  rt_ttft_s :: "f64 option"
  rt_source :: "ttft_source option"

definition SCHEMA_VERSION_REQUEST :: string where
  "SCHEMA_VERSION_REQUEST = ''metrum-ai-bench-cli.request.v5''"

definition audit_schemas :: "string list" where
  "audit_schemas =
     [SCHEMA_VERSION_REQUEST, ''metrum-ai-bench-cli.summary.v5'',
      ''metrum-ai-bench-cli.request.v4'', ''metrum-ai-bench-cli.summary.v4'',
      ''metrum-ai-bench-cli.request.v3'', ''metrum-ai-bench-cli.summary.v3'',
      ''metrum-ai-bench-cli.request.v2'', ''metrum-ai-bench-cli.summary.v2'',
      ''metrum-ai-bench.request.v3'', ''metrum-ai-bench.summary.v3'',
      ''metrum-ai-bench.request.v2'', ''metrum-ai-bench.summary.v2'']"

definition accepts_audit_schema :: "ustr \<Rightarrow> bool" where
  "accepts_audit_schema schema_version \<longleftrightarrow>
     schema_version \<in> set (map lit audit_schemas) \<or>
     contains_sub (lit ''imagegen.request'') schema_version \<or>
     contains_sub (lit ''imagegen.summary'') schema_version"

definition for_seq :: "nat \<Rightarrow> nat \<Rightarrow> phase_kind" where
  "for_seq seq warmup_requests = (if seq < warmup_requests then Warmup else Measure)"

record request_record =
  rr_schema_version :: string
  rr_run_id :: "ustr option"
  rr_seq :: nat
  rr_phase :: phase_kind
  rr_endpoint :: ustr
  rr_started_at :: datetime
  rr_completed_at :: datetime
  rr_send_offset_s :: "f64 option"
  rr_scheduled_offset_s :: "f64 option"
  rr_queue_delay_s :: f64
  rr_latency_s :: f64
  rr_first_byte_s :: "f64 option"
  rr_connect_s :: "f64 option"
  rr_connection_reused :: "bool option"
  rr_dns_s :: "f64 option"
  rr_bytes_sent :: "nat option"
  rr_receive_s :: "f64 option"
  rr_bytes_received :: "nat option"
  rr_chunks_received :: "nat option"
  rr_ttft_s :: "f64 option"
  rr_ttft_visible_answer_s :: "f64 option"
  rr_outcome :: "string option"
  rr_answer_completed :: "bool option"
  rr_ttft_source :: "ttft_source option"
  rr_prefill_s :: "f64 option"
  rr_decode_s :: "f64 option"
  rr_decode_tok_s :: "f64 option"
  rr_first_reasoning_s :: "f64 option"
  rr_ttft_first_any_s :: "f64 option"
  rr_finish_reason :: "ustr option"
  rr_itl_s :: "f64 list"
  rr_in_flight_at_send :: "nat option"
  rr_prompt_tokens :: nat
  rr_completion_tokens :: nat
  rr_total_tokens :: nat
  rr_reasoning_tokens :: "nat option"
  rr_visible_completion_tokens :: "nat option"
  rr_tokenized_prompt_tokens :: "nat option"
  rr_tokenized_completion_tokens :: "nat option"
  rr_usage_missing :: bool
  rr_usage_prompt_tokens_present :: "bool option"
  rr_usage_completion_tokens_present :: "bool option"
  rr_modality_metrics :: "(ustr, f64) btree"
  rr_modality_labels :: "(ustr, ustr) btree"
  rr_error :: "request_error option"
  rr_partial :: bool

definition is_success :: "request_record \<Rightarrow> bool" where
  "is_success r \<longleftrightarrow> rr_error r = None"

definition with_phase_metrics :: "request_record \<Rightarrow> request_record" where
  "with_phase_metrics r =
     (if \<not> is_success r then r\<lparr>rr_prefill_s := None, rr_decode_s := None, rr_decode_tok_s := None\<rparr>
      else
        let prefill = (case (rr_ttft_s r, rr_connect_s r) of
                (Some ttft, Some conn) \<Rightarrow> Some (fmax (fsub ttft conn) (Fin 0))
              | (Some ttft, None) \<Rightarrow> Some ttft
              | _ \<Rightarrow> None);
            decode = map_option (\<lambda>ttft. fmax (fsub (rr_latency_s r) ttft) (Fin 0)) (rr_ttft_s r);
            decode_tok = (case decode of
                Some d \<Rightarrow>
                  if flt (Fin 0) d \<and> 0 < rr_completion_tokens r
                  then Some (fdiv (f_of_nat (rr_completion_tokens r)) d) else None
              | None \<Rightarrow> None)
        in r\<lparr>rr_prefill_s := prefill, rr_decode_s := decode, rr_decode_tok_s := decode_tok\<rparr>)"

definition min_opt :: "duration option \<Rightarrow> duration option \<Rightarrow> duration option" where
  "min_opt a b = (case (a, b) of (Some x, Some y) \<Rightarrow> Some (min x y) | (None, y) \<Rightarrow> y | (x, None) \<Rightarrow> x)"

definition success ::
  "nat \<Rightarrow> phase_kind \<Rightarrow> ustr \<Rightarrow> datetime \<Rightarrow> datetime \<Rightarrow> duration \<Rightarrow> duration option \<Rightarrow>
   duration option \<Rightarrow> duration list \<Rightarrow> nat \<Rightarrow> nat \<Rightarrow> nat \<Rightarrow> request_record" where
  "success seq ph ep started completed latency ttft reasoning itl prompt completion tot =
     (let first_any = min_opt ttft reasoning in with_phase_metrics
     \<lparr>rr_schema_version = SCHEMA_VERSION_REQUEST, rr_run_id = None, rr_seq = seq, rr_phase = ph,
      rr_endpoint = ep, rr_started_at = started, rr_completed_at = completed,
      rr_send_offset_s = None, rr_scheduled_offset_s = None, rr_queue_delay_s = Fin 0,
      rr_latency_s = as_secs_f64 latency, rr_first_byte_s = None, rr_connect_s = None,
      rr_connection_reused = None, rr_dns_s = None, rr_bytes_sent = None, rr_receive_s = None,
      rr_bytes_received = None, rr_chunks_received = None,
      rr_ttft_s = map_option as_secs_f64 first_any,
      rr_ttft_visible_answer_s = map_option as_secs_f64 ttft, rr_outcome = None,
      rr_answer_completed = None, rr_ttft_source = map_option (\<lambda>_. Stream) first_any,
      rr_prefill_s = None, rr_decode_s = None, rr_decode_tok_s = None,
      rr_first_reasoning_s = map_option as_secs_f64 reasoning,
      rr_ttft_first_any_s = map_option as_secs_f64 first_any, rr_finish_reason = None,
      rr_itl_s = map as_secs_f64 itl, rr_in_flight_at_send = None, rr_prompt_tokens = prompt,
      rr_completion_tokens = completion, rr_total_tokens = tot, rr_reasoning_tokens = None,
      rr_visible_completion_tokens = None, rr_tokenized_prompt_tokens = None,
      rr_tokenized_completion_tokens = None, rr_usage_missing = False,
      rr_usage_prompt_tokens_present = None, rr_usage_completion_tokens_present = None,
      rr_modality_metrics = [], rr_modality_labels = [], rr_error = None, rr_partial = False\<rparr>)"

definition failed ::
  "nat \<Rightarrow> phase_kind \<Rightarrow> ustr \<Rightarrow> datetime \<Rightarrow> datetime \<Rightarrow> duration \<Rightarrow> request_error \<Rightarrow>
   request_record" where
  "failed seq ph ep started completed latency err =
     \<lparr>rr_schema_version = SCHEMA_VERSION_REQUEST, rr_run_id = None, rr_seq = seq, rr_phase = ph,
      rr_endpoint = ep, rr_started_at = started, rr_completed_at = completed,
      rr_send_offset_s = None, rr_scheduled_offset_s = None, rr_queue_delay_s = Fin 0,
      rr_latency_s = as_secs_f64 latency, rr_first_byte_s = None, rr_connect_s = None,
      rr_connection_reused = None, rr_dns_s = None, rr_bytes_sent = None, rr_receive_s = None,
      rr_bytes_received = None, rr_chunks_received = None, rr_ttft_s = None,
      rr_ttft_visible_answer_s = None, rr_outcome = None, rr_answer_completed = None,
      rr_ttft_source = None, rr_prefill_s = None, rr_decode_s = None, rr_decode_tok_s = None,
      rr_first_reasoning_s = None, rr_ttft_first_any_s = None, rr_finish_reason = None,
      rr_itl_s = [], rr_in_flight_at_send = None, rr_prompt_tokens = 0, rr_completion_tokens = 0,
      rr_total_tokens = 0, rr_reasoning_tokens = None, rr_visible_completion_tokens = None,
      rr_tokenized_prompt_tokens = None, rr_tokenized_completion_tokens = None,
      rr_usage_missing = True, rr_usage_prompt_tokens_present = None,
      rr_usage_completion_tokens_present = None, rr_modality_metrics = [],
      rr_modality_labels = [], rr_error = Some err, rr_partial = False\<rparr>"

subsection \<open>Builders\<close>

fun chat_outcome_name :: "request_error option \<Rightarrow> string" where
  "chat_outcome_name (Some ReasoningTruncated) = ''reasoning_truncated''"
| "chat_outcome_name (Some NoOutputToken) = ''no_output_token''"
| "chat_outcome_name (Some _) = ''error''"
| "chat_outcome_name None = ''answer''"

definition with_chat_outcome :: "request_error option \<Rightarrow> bool \<Rightarrow> request_record \<Rightarrow> request_record" where
  "with_chat_outcome err strict r =
     with_phase_metrics
       (r\<lparr>rr_answer_completed := Some (rr_ttft_visible_answer_s r \<noteq> None),
          rr_outcome := Some (chat_outcome_name err),
          rr_error := (if err = Some ReasoningTruncated \<and> \<not> strict then None else err)\<rparr>)"

definition with_nonstream_chat_outcome :: "bool \<Rightarrow> request_record \<Rightarrow> request_record" where
  "with_nonstream_chat_outcome answered r =
     (let r1 = r\<lparr>rr_answer_completed := Some answered,
                 rr_outcome := Some (if answered then ''answer'' else ''no_output_token'')\<rparr>
      in if answered then r1 else r1\<lparr>rr_error := Some NoOutputToken\<rparr>)"

definition with_run_id :: "ustr \<Rightarrow> request_record \<Rightarrow> request_record" where
  "with_run_id i r = r\<lparr>rr_run_id := Some i\<rparr>"

definition with_send_offset :: "duration \<Rightarrow> request_record \<Rightarrow> request_record" where
  "with_send_offset d r = r\<lparr>rr_send_offset_s := Some (as_secs_f64 d)\<rparr>"

definition with_first_byte :: "duration \<Rightarrow> request_record \<Rightarrow> request_record" where
  "with_first_byte d r = r\<lparr>rr_first_byte_s := Some (as_secs_f64 d)\<rparr>"

definition with_resolved_ttft :: "resolved_ttft \<Rightarrow> request_record \<Rightarrow> request_record" where
  "with_resolved_ttft resolved r =
     with_phase_metrics (r\<lparr>rr_ttft_s := rt_ttft_s resolved, rr_ttft_source := rt_source resolved\<rparr>)"

definition with_connect :: "f64 \<Rightarrow> request_record \<Rightarrow> request_record" where
  "with_connect c r = with_phase_metrics (r\<lparr>rr_connect_s := Some c\<rparr>)"

definition with_http_trace :: "http_trace \<Rightarrow> request_record \<Rightarrow> request_record" where
  "with_http_trace tr r =
     (let r1 = r\<lparr>rr_connection_reused := Some (ht_connection_reused tr),
                 rr_dns_s := Some (ht_dns_s tr), rr_bytes_sent := ht_bytes_sent tr\<rparr>;
          r2 = (if is_success r1
                then r1\<lparr>rr_receive_s := ht_receive_s tr, rr_bytes_received := ht_bytes_received tr,
                        rr_chunks_received := ht_chunks_received tr\<rparr> else r1)
      in with_connect (ht_connect_s tr) r2)"

definition with_reasoning_tokens :: "nat option \<Rightarrow> request_record \<Rightarrow> request_record" where
  "with_reasoning_tokens n r =
     r\<lparr>rr_reasoning_tokens := n,
       rr_visible_completion_tokens := visible_completion_tokens (rr_completion_tokens r) n\<rparr>"

definition with_in_flight :: "nat \<Rightarrow> request_record \<Rightarrow> request_record" where
  "with_in_flight n r = r\<lparr>rr_in_flight_at_send := Some n\<rparr>"

definition with_schedule :: "duration \<Rightarrow> duration \<Rightarrow> request_record \<Rightarrow> request_record" where
  "with_schedule scheduled delay r =
     r\<lparr>rr_scheduled_offset_s := Some (as_secs_f64 scheduled), rr_queue_delay_s := as_secs_f64 delay\<rparr>"

subsection \<open>Readers\<close>

definition is_completed_response :: "request_record \<Rightarrow> bool" where
  "is_completed_response r \<longleftrightarrow>
     is_success r \<or> rr_outcome r = Some ''reasoning_truncated'' \<or> rr_outcome r = Some ''no_output_token''"

definition corrected_latency_s :: "request_record \<Rightarrow> f64" where
  "corrected_latency_s r = fadd (rr_latency_s r) (rr_queue_delay_s r)"

definition tpot_s :: "request_record \<Rightarrow> f64 option" where
  "tpot_s r =
     (case rr_ttft_s r of
        None \<Rightarrow> None
      | Some ttft \<Rightarrow>
          let gen = fmax (fsub (rr_latency_s r) ttft) (Fin 0) in
          if rr_completion_tokens r \<le> 1 \<or> feq gen (Fin 0) then None
          else Some (fdiv gen (f_of_nat (rr_completion_tokens r - 1))))"

definition user_tps :: "request_record \<Rightarrow> f64 option" where
  "user_tps r =
     (if \<not> is_success r \<or> rr_completion_tokens r = 0 \<or> fle (rr_latency_s r) (Fin 0) then None
      else Some (fdiv (f_of_nat (rr_completion_tokens r)) (rr_latency_s r)))"

subsection \<open>Derived metrics stay in step\<close>

definition metrics_ok ::
  "bool \<Rightarrow> f64 option \<Rightarrow> f64 option \<Rightarrow> f64 \<Rightarrow> nat \<Rightarrow> f64 option \<Rightarrow> f64 option \<Rightarrow> f64 option \<Rightarrow> bool" where
  "metrics_ok ok ttft conn latency tokens prefill decode rate \<longleftrightarrow>
     (if ok then
        prefill = (case ttft of
            None \<Rightarrow> None
          | Some t \<Rightarrow> Some (case conn of Some c \<Rightarrow> fmax (fsub t c) (Fin 0) | None \<Rightarrow> t)) \<and>
        decode = map_option (\<lambda>t. fmax (fsub latency t) (Fin 0)) ttft \<and>
        (\<forall>x. rate = Some x \<longleftrightarrow> (\<exists>d. decode = Some d \<and> flt (Fin 0) d \<and> 0 < tokens \<and>
           x = fdiv (f_of_nat tokens) d))
      else prefill = None \<and> decode = None \<and> rate = None)"

definition derived_ok :: "request_record \<Rightarrow> bool" where
  "derived_ok r \<longleftrightarrow>
     metrics_ok (is_success r) (rr_ttft_s r) (rr_connect_s r) (rr_latency_s r)
       (rr_completion_tokens r) (rr_prefill_s r) (rr_decode_s r) (rr_decode_tok_s r)"

lemma derived_ok_refresh [simp]: "derived_ok (with_phase_metrics r)"
  unfolding derived_ok_def metrics_ok_def with_phase_metrics_def is_success_def
  by (auto simp: Let_def split: option.splits)

lemma is_success_refresh [simp]: "is_success (with_phase_metrics r) = is_success r"
  by (simp add: is_success_def with_phase_metrics_def Let_def)

text \<open>The builder calls as data, so that a record is a constructor followed by a list.\<close>

datatype record_op =
    OpChatOutcome "request_error option" bool
  | OpNonstream bool
  | OpRunId ustr
  | OpSendOffset duration
  | OpFirstByte duration
  | OpResolvedTtft resolved_ttft
  | OpHttpTrace http_trace
  | OpConnect f64
  | OpReasoningTokens "nat option"
  | OpInFlight nat
  | OpSchedule duration duration

fun apply_op :: "record_op \<Rightarrow> request_record \<Rightarrow> request_record" where
  "apply_op (OpChatOutcome e strict) r = with_chat_outcome e strict r"
| "apply_op (OpNonstream answered) r = with_nonstream_chat_outcome answered r"
| "apply_op (OpRunId i) r = with_run_id i r"
| "apply_op (OpSendOffset d) r = with_send_offset d r"
| "apply_op (OpFirstByte d) r = with_first_byte d r"
| "apply_op (OpResolvedTtft t) r = with_resolved_ttft t r"
| "apply_op (OpHttpTrace tr) r = with_http_trace tr r"
| "apply_op (OpConnect c) r = with_connect c r"
| "apply_op (OpReasoningTokens n) r = with_reasoning_tokens n r"
| "apply_op (OpInFlight n) r = with_in_flight n r"
| "apply_op (OpSchedule d e) r = with_schedule d e r"

fun refreshes :: "record_op \<Rightarrow> bool" where
  "refreshes (OpChatOutcome _ _) = True"
| "refreshes (OpResolvedTtft _) = True"
| "refreshes (OpHttpTrace _) = True"
| "refreshes (OpConnect _) = True"
| "refreshes _ = False"

lemmas builder_defs = with_chat_outcome_def with_nonstream_chat_outcome_def with_run_id_def
  with_send_offset_def with_first_byte_def with_resolved_ttft_def with_connect_def
  with_http_trace_def with_reasoning_tokens_def with_in_flight_def with_schedule_def

lemma apply_op_refreshes: "refreshes op \<Longrightarrow> derived_ok (apply_op op r)"
  by (cases op) (simp_all add: builder_defs Let_def)

lemma apply_op_frame: "derived_ok r \<Longrightarrow> op \<noteq> OpNonstream False \<Longrightarrow> derived_ok (apply_op op r)"
proof (cases "refreshes op")
  case False
  assume "derived_ok r" "op \<noteq> OpNonstream False"
  then show ?thesis
    using False by (cases op) (auto simp: builder_defs Let_def derived_ok_def is_success_def)
qed (simp add: apply_op_refreshes)

lemma fold_apply_ok:
  "derived_ok r \<Longrightarrow> list_all (\<lambda>op. op \<noteq> OpNonstream False) ops \<Longrightarrow> derived_ok (fold apply_op ops r)"
  by (induction ops arbitrary: r) (simp_all add: apply_op_frame)

lemma derived_ok_nonneg:
  assumes "derived_ok r" "rr_decode_s r = Some d" shows "nonneg d"
proof -
  obtain t where "d = fmax (fsub (rr_latency_s r) t) (Fin 0)"
    using assms by (cases "rr_ttft_s r") (auto simp: derived_ok_def metrics_ok_def split: if_splits)
  then show ?thesis by (simp add: nonneg_fmax_0)
qed

subsection \<open>Properties\<close>

text \<open>
C10: The phase metrics of a record never go stale: however the builder methods are combined,
after a refreshing one (an outcome, a resolved first-token time, a connect time, an HTTP trace),
and from either constructor on, prefill, decode and decode rate are the ones computed from the
record's own first-token, connect and latency fields, absent on a failure, and the decode time
is never negative. The only call that must be followed by a refreshing one is the outcome of a
non-streaming request without an answer.
\<close>

theorem record_metrics_in_sync:
  assumes "list_all (\<lambda>op. op \<noteq> OpNonstream False) ops"
    and "r0 = success seq ph ep st en lat ttft rea itl pt ct tt \<or> r0 = failed seq ph ep st en lat e \<or>
      refreshes op \<and> r0 = apply_op op r"
  shows "derived_ok (fold apply_op ops r0) \<and>
    (case rr_decode_s (fold apply_op ops r0) of None \<Rightarrow> True | Some d \<Rightarrow> nonneg d)"
proof -
  have "derived_ok (success seq ph ep st en lat ttft rea itl pt ct tt)"
    by (simp add: success_def Let_def)
  moreover have "derived_ok (failed seq ph ep st en lat e)"
    by (simp add: failed_def derived_ok_def metrics_ok_def is_success_def)
  ultimately have "derived_ok r0" using assms(2) apply_op_refreshes by metis
  then have ok: "derived_ok (fold apply_op ops r0)" using assms(1) by (rule fold_apply_ok)
  then show ?thesis using derived_ok_nonneg [OF ok] by (simp split: option.splits)
qed

theorem record_metrics_in_sync_witness:
  "derived_ok (fold apply_op [OpInFlight 3, OpSchedule 1 2, OpConnect (Fin 0)]
     (failed 1 Measure [] 0 5 7 Timeout))"
  using record_metrics_in_sync [of "[OpInFlight 3, OpSchedule 1 2, OpConnect (Fin 0)]"
    "failed 1 Measure [] 0 5 7 Timeout" 1 Measure "[]" 0 5 7 None None "[]" 0 0 0 Timeout "OpInFlight 0"
    "failed 1 Measure [] 0 5 7 Timeout"]
  by simp

text \<open>
The outcome of a chat stream is recorded whatever the policy says, and only the policy
decides whether a truncated reasoning counts as a failure: the record is a success exactly when
there was no error, or the reasoning was truncated and the run is not strict; it is a completed
response exactly when it is a success or the stream ended without an answer; and the name of
the outcome and the completion flag do not depend on strictness.
\<close>

lemma chat_outcome_policy:
  "let r' = with_chat_outcome err strict r in
   (is_success r' \<longleftrightarrow> err = None \<or> err = Some ReasoningTruncated \<and> \<not> strict) \<and>
   (is_completed_response r' \<longleftrightarrow>
      err = None \<or> err = Some ReasoningTruncated \<or> err = Some NoOutputToken) \<and>
   rr_outcome r' = Some (chat_outcome_name err) \<and>
   (chat_outcome_name err = ''answer'' \<longleftrightarrow> err = None) \<and>
   rr_answer_completed r' = Some (rr_ttft_visible_answer_s r \<noteq> None) \<and>
   rr_outcome (with_chat_outcome err (\<not> strict) r) = rr_outcome r'"
proof -
  have f: "rr_outcome (with_phase_metrics x) = rr_outcome x"
    "rr_answer_completed (with_phase_metrics x) = rr_answer_completed x" for x
    by (simp_all add: with_phase_metrics_def Let_def)
  have n: "chat_outcome_name err = ''reasoning_truncated'' \<longleftrightarrow> err = Some ReasoningTruncated"
    "chat_outcome_name err = ''no_output_token'' \<longleftrightarrow> err = Some NoOutputToken"
    "chat_outcome_name err = ''answer'' \<longleftrightarrow> err = None"
    by (cases err rule: chat_outcome_name.cases; simp)+
  show ?thesis
    unfolding with_chat_outcome_def Let_def is_completed_response_def
    by (auto simp: f n is_success_def [of "_\<lparr>rr_error := _\<rparr>"] split: if_splits)
qed

text \<open>
Token rates are reported only where they mean something, and are never negative or
undefined: a time per output token needs a first token, at least two tokens and a positive
generation time; tokens per second need a success, a token and a positive latency.
\<close>

lemma token_rates_defined:
  assumes "is_finite (rr_latency_s r)" "rr_completion_tokens r < 2 ^ 64"
    and "\<forall>t. rr_ttft_s r = Some t \<longrightarrow> is_finite t"
  shows "(\<forall>x. tpot_s r = Some x \<longrightarrow> 2 \<le> rr_completion_tokens r \<and> rr_ttft_s r \<noteq> None \<and> nonneg x) \<and>
    (\<forall>x. user_tps r = Some x \<longrightarrow> is_success r \<and> 0 < rr_completion_tokens r \<and>
       flt (Fin 0) (rr_latency_s r) \<and> nonneg x)"
proof (intro conjI allI impI)
  fix x assume x: "tpot_s r = Some x"
  then obtain t where t: "rr_ttft_s r = Some t" and c: "2 \<le> rr_completion_tokens r"
    and g: "x = fdiv (fmax (fsub (rr_latency_s r) t) (Fin 0)) (f_of_nat (rr_completion_tokens r - 1))"
    by (auto simp: tpot_s_def Let_def split: option.splits if_splits)
  show "2 \<le> rr_completion_tokens r" by (rule c)
  show "rr_ttft_s r \<noteq> None" using t by simp
  have "Fin 1 \<le> f_of_nat (rr_completion_tokens r - 1)" using c by (intro f_of_nat_pos) simp
  moreover have "is_finite (f_of_nat (rr_completion_tokens r - 1))"
    using assms(2) by (intro f_of_nat_finite) simp
  ultimately show "nonneg x" unfolding g
    by (intro nonneg_fdiv nonneg_fmax_0) (auto elim!: is_finiteE)
next
  fix x assume x: "user_tps r = Some x"
  then have u: "is_success r" "0 < rr_completion_tokens r" "\<not> fle (rr_latency_s r) (Fin 0)"
    "x = fdiv (f_of_nat (rr_completion_tokens r)) (rr_latency_s r)"
    by (auto simp: user_tps_def split: if_splits)
  then show "is_success r" "0 < rr_completion_tokens r" by simp_all
  show "flt (Fin 0) (rr_latency_s r)" using u(3) assms(1) by (auto elim!: is_finiteE)
  show "nonneg x" using u(3,4) assms(1) by (auto elim!: is_finiteE intro!: nonneg_fdiv)
qed

definition demo_record :: request_record where
  "demo_record = success 1 Measure [] 0 5 3000000000 (Some 1000000000) None [] 1 3 4"


end
