(* ===== verification/Stats.thy ===== *)
theory Stats
  imports F64 "HOL-Library.Multiset"
begin

text \<open>
  Sample statistics (\<open>src/stats.rs\<close>): type 7 percentiles, mean, sample deviation, median
  absolute deviation, the distribution summary and the bootstrap interval. All arithmetic is
  the rounded arithmetic of \<open>F64\<close>, in the order the code computes it. The random draws of
  the bootstrap are a parameter.
\<close>

subsection \<open>Square roots\<close>

text \<open>\<open>f64::sqrt\<close> is correctly rounded: the integer root of the scaled operand, then a
  comparison with the midpoint.\<close>

fun isqrt :: "nat \<Rightarrow> nat" where
  "isqrt n = (if n = 0 then 0 else
     let r = 2 * isqrt (n div 4) in if (r + 1) * (r + 1) \<le> n then r + 1 else r)"

declare isqrt.simps [simp del]

definition sqrt_rat :: "rat \<Rightarrow> rat" where
  "sqrt_rat a =
     (if a = 0 then 0
      else let e = max (log2_floor a div 2 - 52) (- 1074);
               s = a / (pow2 e * pow2 e);
               q = isqrt (nat \<lfloor>s\<rfloor>);
               mid = (of_nat q + 1 / 2) * (of_nat q + 1 / 2);
               k = (if mid < s \<or> mid = s \<and> odd q then q + 1 else q)
           in of_nat k * pow2 e)"

fun fsqrt :: "f64 \<Rightarrow> f64" where
  "fsqrt (Fin a) = (if a < 0 then NaN else Fin (sqrt_rat a))"
| "fsqrt PInf = PInf"
| "fsqrt _ = NaN"

lemma isqrt_bounds: "isqrt n * isqrt n \<le> n \<and> n < (isqrt n + 1) * (isqrt n + 1)"
proof (induction n rule: less_induct)
  case (less n)
  show ?case
  proof (cases "n = 0")
    case False
    let ?q = "isqrt (n div 4)"
    have "?q * ?q \<le> n div 4" "n div 4 < (?q + 1) * (?q + 1)" using less [of "n div 4"] False by auto
    moreover have "4 * (n div 4) \<le> n" "n < 4 * (n div 4) + 4" by simp_all
    ultimately have "4 * (?q * ?q) \<le> n" "n < 4 * ((?q + 1) * (?q + 1))" by linarith+
    then have "2 * ?q * (2 * ?q) \<le> n" "n < (2 * ?q + 2) * (2 * ?q + 2)" by (simp_all add: algebra_simps)
    then show ?thesis using False by (subst (1 2 3 4) isqrt.simps) (auto simp: Let_def algebra_simps)
  qed (simp add: isqrt.simps)
qed

subsection \<open>Percentiles\<close>

definition pct_rank :: "nat \<Rightarrow> f64 \<Rightarrow> f64" where
  "pct_rank n p =
     fmul (fsub (f_of_nat n) (Fin 1)) (fdiv (fclamp p (Fin 0) (Fin 100)) (Fin 100))"

definition percentile_type7 :: "f64 list \<Rightarrow> f64 \<Rightarrow> f64 option" where
  "percentile_type7 xs p =
     (if xs = [] \<or> \<not> is_finite p then None
      else let n = length xs in
        if n = 1 then Some (xs ! 0)
        else let h = pct_rank n p;
                 lo = min (f_to_usize (f_floor h)) (n - 1);
                 hi = min (f_to_usize (f_ceil h)) (n - 1)
             in if lo = hi then Some (xs ! lo)
                else let w = fsub h (f_of_nat lo)
                     in Some (fadd (fmul (xs ! lo) (fsub (Fin 1) w)) (fmul (xs ! hi) w)))"

definition percentile_unreliable :: "nat \<Rightarrow> f64 \<Rightarrow> bool" where
  "percentile_unreliable n p \<longleftrightarrow>
     n = 0 \<or> flt (fmul (f_of_nat n) (fsub (Fin 1) (fdiv p (Fin 100)))) (Fin 1)"

subsection \<open>Moments\<close>

definition mean :: "f64 list \<Rightarrow> f64 option" where
  "mean values = (if values = [] then None else Some (fdiv (f_sum values) (f_of_nat (length values))))"

definition std_sample :: "f64 list \<Rightarrow> f64 option" where
  "std_sample values =
     (if length values < 2 then None
      else case mean values of
        None \<Rightarrow> None
      | Some m \<Rightarrow>
          Some (fsqrt (fdiv (f_sum (map (\<lambda>x. fmul (fsub x m) (fsub x m)) values))
            (f_of_nat (length values - 1)))))"

text \<open>The comparison sort orders values that are numbers; the callers pass finite ones.\<close>

definition mad :: "f64 list \<Rightarrow> f64 option" where
  "mad values =
     (if values = [] then None
      else let xs = sort values in
        case percentile_type7 xs (Fin 50) of
          None \<Rightarrow> None
        | Some med \<Rightarrow> percentile_type7 (sort (map (\<lambda>x. fabs (fsub x med)) xs)) (Fin 50))"

definition sort_finite :: "f64 list \<Rightarrow> f64 list" where
  "sort_finite values = sort (filter is_finite values)"

record dist_summary =
  ds_n :: nat
  ds_min :: "f64 option"
  ds_max :: "f64 option"
  ds_avg :: "f64 option"
  ds_std :: "f64 option"
  ds_mad :: "f64 option"
  ds_p50 :: "f64 option"
  ds_p90 :: "f64 option"
  ds_p95 :: "f64 option"
  ds_p99 :: "f64 option"
  p90_unreliable :: bool
  p95_unreliable :: bool
  p99_unreliable :: bool

definition dist_from_values :: "f64 list \<Rightarrow> dist_summary" where
  "dist_from_values values =
     (let xs = sort_finite values; n = length xs in
      \<lparr>ds_n = n, ds_min = hd_opt xs, ds_max = last_opt xs, ds_avg = mean xs,
       ds_std = std_sample xs, ds_mad = mad xs,
       ds_p50 = percentile_type7 xs (Fin 50), ds_p90 = percentile_type7 xs (Fin 90),
       ds_p95 = percentile_type7 xs (Fin 95), ds_p99 = percentile_type7 xs (Fin 99),
       p90_unreliable = percentile_unreliable n (Fin 90),
       p95_unreliable = percentile_unreliable n (Fin 95),
       p99_unreliable = percentile_unreliable n (Fin 99)\<rparr>)"

definition dist_default :: dist_summary where
  "dist_default = dist_from_values []"

subsection \<open>Bootstrap interval\<close>

record confidence_interval =
  ci_level :: f64
  ci_low :: "f64 option"
  ci_high :: "f64 option"
  ci_resamples :: nat

text \<open>\<open>draw r i\<close> is the index drawn for position \<open>i\<close> of resample \<open>r\<close>; the generator
  returns indices below the sample size.\<close>

definition bootstrap_means :: "(nat \<Rightarrow> nat \<Rightarrow> nat) \<Rightarrow> f64 list \<Rightarrow> nat \<Rightarrow> f64 list" where
  "bootstrap_means draw fin resamples =
     map (\<lambda>r. fdiv (f_sum (map (\<lambda>i. fin ! draw r i) [0..<length fin])) (f_of_nat (length fin)))
       [0..<resamples]"

definition bootstrap_mean_ci ::
  "(nat \<Rightarrow> nat \<Rightarrow> nat) \<Rightarrow> f64 list \<Rightarrow> f64 \<Rightarrow> nat \<Rightarrow> confidence_interval" where
  "bootstrap_mean_ci draw values level resamples =
     (let fin = sort_finite values in
      if fin = [] \<or> resamples = 0
      then \<lparr>ci_level = level, ci_low = None, ci_high = None, ci_resamples = resamples\<rparr>
      else let means = sort (bootstrap_means draw fin resamples);
               alpha = fmul (fdiv (fsub (Fin 1) (fclamp level (Fin 0) (Fin 1))) (Fin 2)) (Fin 100)
           in \<lparr>ci_level = level, ci_low = percentile_type7 means alpha,
               ci_high = percentile_type7 means (fsub (Fin 100) alpha), ci_resamples = resamples\<rparr>)"

subsection \<open>Ranks\<close>

lemma fclamp_range:
  assumes "is_finite p"
  obtains c where "fclamp p (Fin 0) (Fin 100) = Fin c" "0 \<le> c" "c \<le> 100"
    "p = Fin c \<or> (\<exists>a. p = Fin a \<and> (a < 0 \<and> c = 0 \<or> 100 < a \<and> c = 100))"
proof -
  obtain a where p: "p = Fin a" using assms by (rule is_finiteE)
  consider "a < 0" | "100 < a" | "0 \<le> a" "a \<le> 100" by linarith
  then show ?thesis using that p by cases (auto simp: fclamp_def)
qed

lemma fsub_of_nat_1:
  assumes "0 < n" "n \<le> 2 ^ 53" shows "fsub (f_of_nat n) (Fin 1) = Fin (of_nat (n - 1))"
proof -
  have "int n - 1 \<le> 2 ^ 53" using assms(2) by (simp add: nat_le_iff [symmetric] of_nat_le_iff [symmetric] del: of_nat_le_iff)
  then have "rnd (of_int (int n - 1)) = Fin (of_int (int n - 1))"
    using assms by (intro rnd_of_int) auto
  then show ?thesis
    using assms by (simp add: f_of_nat_exact fsub_def of_nat_diff)
qed

text \<open>The rank lies between the first and the last index.\<close>

lemma pct_rank_range:
  assumes "0 < n" "n \<le> 2 ^ 53" "is_finite p"
  obtains h where "pct_rank n p = Fin h" "0 \<le> h" "h \<le> of_nat (n - 1)"
proof -
  obtain c where c: "fclamp p (Fin 0) (Fin 100) = Fin c" "0 \<le> c" "c \<le> 100"
    using fclamp_range [OF assms(3)] by metis
  have "0 \<le> c / 100" "c / 100 \<le> 1" using c by simp_all
  then obtain r where r: "rnd (c / 100) = Fin r" "0 \<le> r" "r \<le> 1" by (rule f64_round.unit_finite)
  have e: "pct_rank n p = rnd (of_nat (n - 1) * r)"
    using c(1) r(1) fsub_of_nat_1 [OF assms(1,2)] by (simp add: pct_rank_def fmul_def fdiv_def)
  have b: "of_int 0 \<le> of_nat (n - 1) * r" "of_nat (n - 1) * r \<le> of_int (int (n - 1))"
    using r mult_left_mono [of r 1 "of_nat (n - 1)"] by simp_all
  have "int (n - 1) \<le> int (2 ^ 53)" using assms(2) by (simp only: of_nat_le_iff)
  then have "\<bar>int (n - 1)\<bar> \<le> 2 ^ 53" by simp
  from f64_round.between_ints [OF b _ this] have "Fin 0 \<le> pct_rank n p" "pct_rank n p \<le> Fin (of_nat (n - 1))"
    unfolding e by simp_all
  then show ?thesis using that by (cases "pct_rank n p") auto
qed

lemma f_to_usize_floor:
  assumes "0 \<le> h" "h \<le> of_nat m" "m < 2 ^ 64"
  shows "min (f_to_usize (f_floor (Fin h))) m = nat \<lfloor>h\<rfloor>"
    and "min (f_to_usize (f_ceil (Fin h))) m = nat \<lceil>h\<rceil>"
proof -
  have "\<lfloor>h\<rfloor> \<le> int m" "\<lceil>h\<rceil> \<le> int m" using assms(2) by (simp_all add: floor_le_iff ceiling_le_iff)
  then have "nat \<lfloor>h\<rfloor> \<le> m" "nat \<lceil>h\<rceil> \<le> m" by simp_all
  then show "min (f_to_usize (f_floor (Fin h))) m = nat \<lfloor>h\<rfloor>"
    "min (f_to_usize (f_ceil (Fin h))) m = nat \<lceil>h\<rceil>"
    using assms by (auto simp: min_def)
qed

text \<open>The index computation never leaves the list, and the two indices are neighbours.\<close>

lemma percentile_type7_cases:
  assumes "xs \<noteq> []" "length xs \<le> 2 ^ 53" "is_finite p"
  obtains h where "pct_rank (length xs) p = Fin h" "0 \<le> h" "h \<le> of_nat (length xs - 1)"
    "nat \<lfloor>h\<rfloor> < length xs"
    "\<lfloor>h\<rfloor> = \<lceil>h\<rceil> \<longrightarrow> percentile_type7 xs p = Some (xs ! nat \<lfloor>h\<rfloor>)"
    "\<lfloor>h\<rfloor> \<noteq> \<lceil>h\<rceil> \<longrightarrow> nat \<lfloor>h\<rfloor> + 1 < length xs \<and> percentile_type7 xs p =
       Some (fadd (fmul (xs ! nat \<lfloor>h\<rfloor>) (fsub (Fin 1) (fsub (Fin h) (f_of_nat (nat \<lfloor>h\<rfloor>)))))
         (fmul (xs ! (nat \<lfloor>h\<rfloor> + 1)) (fsub (Fin h) (f_of_nat (nat \<lfloor>h\<rfloor>)))))"
proof -
  let ?n = "length xs"
  obtain h where h: "pct_rank ?n p = Fin h" "0 \<le> h" "h \<le> of_nat (?n - 1)"
    using pct_rank_range [of ?n p] assms by auto
  have "?n - 1 < 2 ^ 64" using assms(2) by simp
  note idx = f_to_usize_floor [OF h(2,3) this]
  have fl: "\<lfloor>h\<rfloor> \<le> int (?n - 1)" and ce: "\<lceil>h\<rceil> \<le> int (?n - 1)"
    using h(3) by (simp_all add: floor_le_iff ceiling_le_iff)
  have f0: "0 \<le> \<lfloor>h\<rfloor>" "0 \<le> \<lceil>h\<rceil>" using h(2) by (simp_all add: zero_le_ceiling less_le_trans)
  have eq: "nat \<lfloor>h\<rfloor> = nat \<lceil>h\<rceil> \<longleftrightarrow> \<lfloor>h\<rfloor> = \<lceil>h\<rceil>" by (rule eq_nat_nat_iff [OF f0])
  have one: "?n = 1 \<Longrightarrow> \<lfloor>h\<rfloor> = 0 \<and> \<lceil>h\<rceil> = 0" using h by simp
  have p: "percentile_type7 xs p = (if \<lfloor>h\<rfloor> = \<lceil>h\<rceil> then Some (xs ! nat \<lfloor>h\<rfloor>) else
      Some (fadd (fmul (xs ! nat \<lfloor>h\<rfloor>) (fsub (Fin 1) (fsub (Fin h) (f_of_nat (nat \<lfloor>h\<rfloor>)))))
        (fmul (xs ! nat \<lceil>h\<rceil>) (fsub (Fin h) (f_of_nat (nat \<lfloor>h\<rfloor>))))))"
    using assms one unfolding percentile_type7_def Let_def h(1) idx eq by simp
  have nb: "\<lfloor>h\<rfloor> \<noteq> \<lceil>h\<rceil> \<Longrightarrow> nat \<lceil>h\<rceil> = nat \<lfloor>h\<rfloor> + 1"
    using f0 by (simp add: ceiling_altdef nat_add_distrib split: if_splits)
  have lt: "0 < ?n" using assms(1) by simp
  show ?thesis
    by (rule that [OF h]) (use p nb fl ce f0 lt in \<open>auto simp: nat_less_iff of_nat_diff\<close>)
qed

lemma pct_rank_ends:
  assumes "0 < n" "n \<le> 2 ^ 53"
  shows "a \<le> 0 \<Longrightarrow> pct_rank n (Fin a) = Fin 0"
    and "100 \<le> a \<Longrightarrow> pct_rank n (Fin a) = Fin (of_nat (n - 1))"
proof -
  have cl: "a \<le> 0 \<Longrightarrow> fclamp (Fin a) (Fin 0) (Fin 100) = Fin 0"
    "100 \<le> a \<Longrightarrow> fclamp (Fin a) (Fin 0) (Fin 100) = Fin 100" by (auto simp: fclamp_def)
  show "a \<le> 0 \<Longrightarrow> pct_rank n (Fin a) = Fin 0"
    using cl(1) fsub_of_nat_1 [OF assms] by (simp add: pct_rank_def fdiv_def fmul_def)
  have "n - 1 \<le> 2 ^ 53" using assms(2) by simp
  then have "rnd (of_nat (n - 1)) = Fin (of_nat (n - 1))"
    using f_of_nat_exact [of "n - 1"] by (simp add: f_of_nat_def)
  then show "100 \<le> a \<Longrightarrow> pct_rank n (Fin a) = Fin (of_nat (n - 1))"
    using cl(2) fsub_of_nat_1 [OF assms] by (simp add: pct_rank_def fdiv_def fmul_def)
qed

lemma weight_range:
  assumes "0 \<le> h" "h \<le> of_nat m" "m \<le> 2 ^ 53"
  obtains w where "fsub (Fin h) (f_of_nat (nat \<lfloor>h\<rfloor>)) = Fin w" "0 \<le> w" "w \<le> 1"
    and "\<exists>v. fsub (Fin 1) (Fin w) = Fin v \<and> 0 \<le> v \<and> v \<le> 1"
proof -
  have fl: "\<lfloor>h\<rfloor> \<le> int m" "0 \<le> \<lfloor>h\<rfloor>" using assms by (simp_all add: floor_le_iff)
  then have "nat \<lfloor>h\<rfloor> \<le> m" by simp
  then have "nat \<lfloor>h\<rfloor> \<le> 2 ^ 53" using assms(3) by (rule order_trans)
  then have e: "fsub (Fin h) (f_of_nat (nat \<lfloor>h\<rfloor>)) = rnd (h - of_int \<lfloor>h\<rfloor>)"
    using fl(2) by (simp add: f_of_nat_exact fsub_def)
  have d0: "0 \<le> h - of_int \<lfloor>h\<rfloor>" by simp
  have d1: "h - of_int \<lfloor>h\<rfloor> \<le> 1" by linarith
  from d0 d1 obtain w where w: "rnd (h - of_int \<lfloor>h\<rfloor>) = Fin w" "0 \<le> w" "w \<le> 1"
    by (rule f64_round.unit_finite)
  have v0: "0 \<le> 1 - w" and v1: "1 - w \<le> 1" using w by simp_all
  from v0 v1 obtain v where "rnd (1 - w) = Fin v" "0 \<le> v" "v \<le> 1" by (rule f64_round.unit_finite)
  then show ?thesis using that [of w] w e by (simp add: fsub_def)
qed

lemma sort_finite_mset:
  "mset (filter is_finite xs) = mset (filter is_finite ys) \<Longrightarrow> sort_finite xs = sort_finite ys"
  unfolding sort_finite_def by (metis mset_sort properties_for_sort sorted_sort)

lemma hd_sort_le: "x \<in> set xs \<Longrightarrow> \<exists>m. hd_opt (sort xs) = Some m \<and> m \<in> set xs \<and> m \<le> x"
proof -
  assume x: "x \<in> set xs"
  then have "x \<in> set (sort xs)" by simp
  then obtain m ms where s: "sort xs = m # ms" by (cases "sort xs") auto
  then have "m \<in> set xs" by (metis list.set_intros(1) set_sort)
  moreover have "m \<le> x" using x s sorted_sort [of xs] by (metis set_ConsD set_sort sorted_simps(2) order_refl)
  ultimately show ?thesis using s by simp
qed

lemma last_sort_ge: "x \<in> set xs \<Longrightarrow> \<exists>m. last_opt (sort xs) = Some m \<and> m \<in> set xs \<and> x \<le> m"
proof -
  assume x: "x \<in> set xs"
  then have "x \<in> set (sort xs)" by simp
  then have ne: "sort xs \<noteq> []" by (metis empty_iff list.set(1))
  then obtain ms m where s: "sort xs = ms @ [m]" by (metis append_butlast_last_id)
  then have "m \<in> set xs" by (metis in_set_conv_decomp set_sort)
  moreover have "x \<le> m" using \<open>x \<in> set (sort xs)\<close> s sorted_sort [of xs] by (auto simp: sorted_append)
  ultimately show ?thesis using s by (simp add: last_opt_def)
qed

subsection \<open>Properties\<close>

text \<open>
A percentile of a non-empty sample is always computed from the sample's own order
statistics, without an index out of range: the rank lies between the first and the last index;
at an integral rank the result is that order statistic, and between two ranks it is the rounded
linear interpolation of the two neighbouring ones, with a weight in the unit interval.
\<close>

lemma percentile_type7_interpolates:
  assumes "xs \<noteq> []" "length xs \<le> 2 ^ 53" "is_finite p"
  shows "\<exists>h. pct_rank (length xs) p = Fin h \<and> 0 \<le> h \<and> h \<le> of_nat (length xs - 1) \<and>
    (let lo = nat \<lfloor>h\<rfloor> in lo < length xs \<and>
      (if \<lfloor>h\<rfloor> = \<lceil>h\<rceil> then percentile_type7 xs p = Some (xs ! lo)
       else lo + 1 < length xs \<and> (\<exists>w v. 0 \<le> w \<and> w \<le> 1 \<and> 0 \<le> v \<and> v \<le> 1 \<and>
          Fin w = fsub (Fin h) (f_of_nat lo) \<and> Fin v = fsub (Fin 1) (Fin w) \<and>
          percentile_type7 xs p = Some (fadd (fmul (xs ! lo) (Fin v)) (fmul (xs ! (lo + 1)) (Fin w))))))"
proof -
  obtain h where h: "pct_rank (length xs) p = Fin h" "0 \<le> h" "h \<le> of_nat (length xs - 1)"
    "nat \<lfloor>h\<rfloor> < length xs"
    "\<lfloor>h\<rfloor> = \<lceil>h\<rceil> \<longrightarrow> percentile_type7 xs p = Some (xs ! nat \<lfloor>h\<rfloor>)"
    "\<lfloor>h\<rfloor> \<noteq> \<lceil>h\<rceil> \<longrightarrow> nat \<lfloor>h\<rfloor> + 1 < length xs \<and> percentile_type7 xs p =
       Some (fadd (fmul (xs ! nat \<lfloor>h\<rfloor>) (fsub (Fin 1) (fsub (Fin h) (f_of_nat (nat \<lfloor>h\<rfloor>)))))
         (fmul (xs ! (nat \<lfloor>h\<rfloor> + 1)) (fsub (Fin h) (f_of_nat (nat \<lfloor>h\<rfloor>)))))"
    by (rule percentile_type7_cases [OF assms])
  have "length xs - 1 \<le> 2 ^ 53" using assms(2) by simp
  then obtain w v where "fsub (Fin h) (f_of_nat (nat \<lfloor>h\<rfloor>)) = Fin w" "0 \<le> w" "w \<le> 1"
    "fsub (Fin 1) (Fin w) = Fin v" "0 \<le> v" "v \<le> 1"
    using weight_range [OF h(2,3)] by metis
  then show ?thesis using h by (intro exI [of _ h]) (auto simp: Let_def)
qed

lemma percentile_type7_interpolates_example:
  "\<exists>h. pct_rank (length [Fin 1, Fin 2, Fin 5]) (Fin 50) = Fin h \<and> nat \<lfloor>h\<rfloor> < 3"
  using percentile_type7_interpolates [of "[Fin 1, Fin 2, Fin 5]" "Fin 50"] by (auto simp: Let_def)

text \<open>
The ends of the scale are exact and percentiles of latencies are never negative: at or
below percentile 0 the result is the least sample, at or above 100 the greatest, and for
finite non-negative samples every percentile is a number that is not negative.
\<close>

lemma percentile_type7_range:
  assumes "xs \<noteq> []" "length xs \<le> 2 ^ 53" "list_all (\<lambda>x. is_finite x \<and> nonneg x) xs" "is_finite p"
  shows "(\<exists>r. percentile_type7 xs p = Some r \<and> nonneg r) \<and>
    percentile_type7 xs (Fin 0) = Some (hd xs) \<and> percentile_type7 xs (Fin 100) = Some (last xs)"
proof (intro conjI)
  have pos: "0 < length xs" using assms(1) by simp
  obtain h where h: "pct_rank (length xs) p = Fin h" "0 \<le> h" "h \<le> of_nat (length xs - 1)"
    "nat \<lfloor>h\<rfloor> < length xs"
    "\<lfloor>h\<rfloor> = \<lceil>h\<rceil> \<longrightarrow> percentile_type7 xs p = Some (xs ! nat \<lfloor>h\<rfloor>)"
    "\<lfloor>h\<rfloor> \<noteq> \<lceil>h\<rceil> \<longrightarrow> nat \<lfloor>h\<rfloor> + 1 < length xs \<and> percentile_type7 xs p =
       Some (fadd (fmul (xs ! nat \<lfloor>h\<rfloor>) (fsub (Fin 1) (fsub (Fin h) (f_of_nat (nat \<lfloor>h\<rfloor>)))))
         (fmul (xs ! (nat \<lfloor>h\<rfloor> + 1)) (fsub (Fin h) (f_of_nat (nat \<lfloor>h\<rfloor>)))))"
    by (rule percentile_type7_cases [OF assms(1,2,4)])
  have "length xs - 1 \<le> 2 ^ 53" using assms(2) by simp
  then obtain w v where w: "fsub (Fin h) (f_of_nat (nat \<lfloor>h\<rfloor>)) = Fin w" "0 \<le> w"
    "fsub (Fin 1) (Fin w) = Fin v" "0 \<le> v"
    using weight_range [OF h(2,3)] by metis
  have el: "i < length xs \<Longrightarrow> is_finite (xs ! i) \<and> nonneg (xs ! i)" for i
    using assms(3) by (simp add: list_all_length)
  show "\<exists>r. percentile_type7 xs p = Some r \<and> nonneg r"
  proof (cases "\<lfloor>h\<rfloor> = \<lceil>h\<rceil>")
    case True
    then show ?thesis using h el by auto
  next
    case False
    then have lt: "nat \<lfloor>h\<rfloor> + 1 < length xs" using h by simp
    have "nonneg (fmul (xs ! nat \<lfloor>h\<rfloor>) (Fin v))" "nonneg (fmul (xs ! (nat \<lfloor>h\<rfloor> + 1)) (Fin w))"
      using el [of "nat \<lfloor>h\<rfloor>"] el [OF lt] lt w by (auto intro!: nonneg_fmul)
    then show ?thesis using False h w by (auto intro: nonneg_fadd)
  qed
  show "percentile_type7 xs (Fin 0) = Some (hd xs)"
    by (rule percentile_type7_cases [OF assms(1,2), of "Fin 0"])
       (use assms(1) pct_rank_ends(1) [OF pos assms(2)] in \<open>auto simp: hd_conv_nth\<close>)
  show "percentile_type7 xs (Fin 100) = Some (last xs)"
    by (rule percentile_type7_cases [OF assms(1,2), of "Fin 100"])
       (use assms(1) pct_rank_ends(2) [OF pos assms(2)] in \<open>auto simp: last_conv_nth nat_diff_distrib\<close>)
qed


text \<open>
A distribution summary depends only on which finite samples there are, not on the order in
which requests completed, and values that are not finite are left out: two samples with the
same finite values have the same summary, and minimum and maximum are the least and greatest
finite values.
\<close>

lemma dist_summary_order_insensitive:
  assumes "mset (filter is_finite xs) = mset (filter is_finite ys)"
  shows "dist_from_values xs = dist_from_values ys \<and>
    ds_n (dist_from_values xs) = size (filter_mset is_finite (mset xs)) \<and>
    (x \<in> set xs \<and> is_finite x \<longrightarrow>
      (\<exists>a b. ds_min (dist_from_values xs) = Some a \<and> ds_max (dist_from_values xs) = Some b \<and>
        a \<in> set xs \<and> b \<in> set xs \<and> a \<le> x \<and> x \<le> b))"
proof (intro conjI impI)
  show "dist_from_values xs = dist_from_values ys"
    unfolding dist_from_values_def sort_finite_mset [OF assms] ..
  show "ds_n (dist_from_values xs) = size (filter_mset is_finite (mset xs))"
    by (simp add: dist_from_values_def Let_def sort_finite_def size_mset [symmetric] del: size_mset)
  assume x: "x \<in> set xs \<and> is_finite x"
  then have "x \<in> set (filter is_finite xs)" by simp
  from hd_sort_le [OF this] last_sort_ge [OF this]
  show "\<exists>a b. ds_min (dist_from_values xs) = Some a \<and> ds_max (dist_from_values xs) = Some b \<and>
        a \<in> set xs \<and> b \<in> set xs \<and> a \<le> x \<and> x \<le> b"
    by (auto simp: dist_from_values_def Let_def sort_finite_def)
qed

lemma dist_summary_order_insensitive_example:
  "dist_from_values [Fin 3, NaN, Fin 1] = dist_from_values [Fin 1, Fin 3, PInf]"
  using dist_summary_order_insensitive [of "[Fin 3, NaN, Fin 1]" "[Fin 1, Fin 3, PInf]"] by simp

text \<open>
The interpolation formula is not closed under rounding: for four samples that are all the
double nearest to 0.9, the computed 90th percentile is greater than the maximum of the sample.
\<close>

lemma percentile_exceeds_max:
  "let s = rnd (9 / 10); d = dist_from_values [s, s, s, s] in
   ds_max d = Some s \<and> (\<exists>q. ds_p90 d = Some q \<and> s < q)"
proof -
  let ?s = "rnd (9 / 10)"
  have "is_finite ?s" by (rule rnd_finite) simp
  then have "sort_finite [?s, ?s, ?s, ?s] = [?s, ?s, ?s, ?s]" by (simp add: sort_finite_def)
  moreover have "case percentile_type7 [?s, ?s, ?s, ?s] (Fin 90) of Some q \<Rightarrow> ?s < q | None \<Rightarrow> False"
    by code_simp
  ultimately show ?thesis
    by (auto simp: dist_from_values_def Let_def last_opt_def split: option.splits)
qed

end
