(* ===== verification/Measurement.thy ===== *)
theory Measurement
  imports Request_Record Stats
begin

text \<open>
  Measurement gates (\<open>src/measurement.rs\<close>) and the validation of prompt and completion
  lengths (\<open>src/isl_osl.rs\<close>). Failures and warnings are data: one constructor per message.
\<close>

subsection \<open>First-token gates\<close>

datatype gate_error =
    WarmupConsumesRun nat nat
  | NoRequestsPerStage
  | StreamApproxMissing nat
  | NoVisibleTtft
  | InferMissing nat
  | AllReasoningTruncated bool
  | NoFirstTokenTtft
  | InferMissingFirstByte

datatype ttft_warning =
    ApproximatedFirstByte nat
  | FirstTokenFallbackUsed nat
  | TtftNotMeasured

record ttft_audit =
  approx_count :: nat
  audit_warning :: "ttft_warning option"

definition ensure_warmup_leaves_measurement :: "nat \<Rightarrow> nat \<Rightarrow> gate_error + unit" where
  "ensure_warmup_leaves_measurement warmup_requests num_requests =
     (if num_requests = 0 \<or> num_requests \<le> warmup_requests
      then Inl (WarmupConsumesRun warmup_requests num_requests) else Inr ())"

definition ensure_requests_per_stage :: "nat \<Rightarrow> gate_error + unit" where
  "ensure_requests_per_stage requests_per_stage =
     (if requests_per_stage = 0 then Inl NoRequestsPerStage else Inr ())"

definition resolve_ttft :: "bool \<Rightarrow> f64 option \<Rightarrow> f64 option \<Rightarrow> bool \<Rightarrow> resolved_ttft" where
  "resolve_ttft streaming stream_ttft_s first_byte_s infer_from_first_byte =
     (case (if streaming then stream_ttft_s else None) of
        Some ttft \<Rightarrow> \<lparr>rt_ttft_s = Some ttft, rt_source = Some Stream\<rparr>
      | None \<Rightarrow>
          (case (if infer_from_first_byte then first_byte_s else None) of
             Some first \<Rightarrow> \<lparr>rt_ttft_s = Some first, rt_source = Some FirstByteApprox\<rparr>
           | None \<Rightarrow> \<lparr>rt_ttft_s = None, rt_source = None\<rparr>))"

definition fmin_opt :: "f64 option \<Rightarrow> f64 option \<Rightarrow> f64 option" where
  "fmin_opt a b = (case (a, b) of (Some x, Some y) \<Rightarrow> Some (fmin x y) | (None, y) \<Rightarrow> y | (x, None) \<Rightarrow> x)"

definition resolve_ttft_with_fallback ::
  "bool \<Rightarrow> f64 option \<Rightarrow> f64 option \<Rightarrow> f64 option \<Rightarrow> bool \<Rightarrow> bool \<Rightarrow> resolved_ttft" where
  "resolve_ttft_with_fallback streaming stream_ttft_s first_reasoning first_byte infer fallback =
     resolve_ttft streaming (fmin_opt stream_ttft_s first_reasoning) first_byte infer"

definition audit_chat_ttft ::
  "bool \<Rightarrow> bool \<Rightarrow> nat \<Rightarrow> nat \<Rightarrow> nat \<Rightarrow> nat \<Rightarrow> gate_error + ttft_audit" where
  "audit_chat_ttft streaming infer measured_successes missing_ttft approx no_output_token_errors =
     (if streaming \<and> (0 < missing_ttft \<or> measured_successes = 0 \<and> 0 < no_output_token_errors) then
        (if infer \<and> 0 < missing_ttft then Inl (StreamApproxMissing missing_ttft) else Inl NoVisibleTtft)
      else if \<not> streaming \<and> infer \<and> 0 < missing_ttft then Inl (InferMissing missing_ttft)
      else if 0 < approx
      then Inr \<lparr>approx_count = approx, audit_warning = Some (ApproximatedFirstByte approx)\<rparr>
      else if \<not> streaming \<and> \<not> infer \<and> 0 < measured_successes
      then Inr \<lparr>approx_count = 0, audit_warning = Some TtftNotMeasured\<rparr>
      else Inr \<lparr>approx_count = 0, audit_warning = None\<rparr>)"

record chat_ttft_audit_input =
  ai_streaming :: bool
  ai_infer_from_first_byte :: bool
  ai_first_token_fallback :: bool
  ai_allow_missing :: bool
  ai_successes :: nat
  ai_missing_successes :: nat
  ai_no_answer :: nat
  ai_unresolved_no_answer :: nat
  ai_reasoning_truncated :: nat
  ai_measured :: nat
  ai_first_byte_count :: nat
  ai_first_token_count :: nat
  ai_thinking_toggle_supported :: bool

definition audit_chat_ttft_observed :: "chat_ttft_audit_input \<Rightarrow> gate_error + ttft_audit" where
  "audit_chat_ttft_observed i =
     (if ai_streaming i \<and> \<not> ai_allow_missing i \<and>
         (0 < ai_missing_successes i \<or>
          ai_successes i = 0 \<and> 0 < ai_no_answer i \<and> 0 < ai_unresolved_no_answer i) then
        (if 0 < ai_measured i \<and> ai_reasoning_truncated i = ai_measured i
         then Inl (AllReasoningTruncated (ai_thinking_toggle_supported i))
         else Inl NoFirstTokenTtft)
      else if \<not> ai_streaming i \<and> ai_infer_from_first_byte i \<and> 0 < ai_missing_successes i
      then Inl InferMissingFirstByte
      else Inr \<lparr>approx_count = ai_first_byte_count i,
        audit_warning =
          (if 0 < ai_first_byte_count i then Some (ApproximatedFirstByte (ai_first_byte_count i))
           else if 0 < ai_first_token_count i then Some (FirstTokenFallbackUsed (ai_first_token_count i))
           else if \<not> ai_streaming i \<and> \<not> ai_infer_from_first_byte i \<and> 0 < ai_successes i
           then Some TtftNotMeasured else None)\<rparr>)"

definition count_if :: "('a \<Rightarrow> bool) \<Rightarrow> 'a list \<Rightarrow> nat" where
  "count_if P xs = length (filter P xs)"

definition no_answer_row :: "request_record \<Rightarrow> bool" where
  "no_answer_row r \<longleftrightarrow> rr_error r = Some NoOutputToken \<or> rr_error r = Some ReasoningTruncated"

definition measured_rows :: "request_record list \<Rightarrow> request_record list" where
  "measured_rows records = filter (\<lambda>r. rr_phase r = Measure) records"

definition audit_chat_request_records ::
  "request_record list \<Rightarrow> bool \<Rightarrow> bool \<Rightarrow> bool \<Rightarrow> bool \<Rightarrow> gate_error + ttft_audit" where
  "audit_chat_request_records records streaming infer fallback allow_missing =
     (let rows = measured_rows records in
      audit_chat_ttft_observed
        \<lparr>ai_streaming = streaming, ai_infer_from_first_byte = infer,
         ai_first_token_fallback = fallback, ai_allow_missing = allow_missing,
         ai_successes = count_if is_success rows,
         ai_missing_successes = count_if (\<lambda>r. is_success r \<and> rr_ttft_s r = None) rows,
         ai_no_answer = count_if no_answer_row rows,
         ai_unresolved_no_answer = count_if (\<lambda>r. no_answer_row r \<and> rr_ttft_s r = None) rows,
         ai_reasoning_truncated = count_if (\<lambda>r. rr_error r = Some ReasoningTruncated) rows,
         ai_measured = length rows,
         ai_first_byte_count = count_if (\<lambda>r. rr_ttft_source r = Some FirstByteApprox) rows,
         ai_first_token_count = count_if (\<lambda>r. rr_ttft_source r = Some FirstTokenFallback) rows,
         ai_thinking_toggle_supported = True\<rparr>)"

record measured_ttft_row =
  mr_success :: bool
  mr_warmup :: bool
  mr_ttft_s :: "f64 option"
  mr_ttft_source :: "ttft_source option"

fun count_ttft_gaps :: "measured_ttft_row list \<Rightarrow> nat \<times> nat \<times> nat" where
  "count_ttft_gaps [] = (0, 0, 0)"
| "count_ttft_gaps (row # rows) =
     (let (successes, missing, approx) = count_ttft_gaps rows in
      if \<not> mr_success row \<or> mr_warmup row then (successes, missing, approx)
      else (case mr_ttft_source row of
              Some FirstByteApprox \<Rightarrow> (successes + 1, missing, approx + 1)
            | Some _ \<Rightarrow> (successes + 1, missing, approx)
            | None \<Rightarrow>
                if mr_ttft_s row = None then (successes + 1, missing + 1, approx)
                else (successes + 1, missing, approx)))"

subsection \<open>Prompt and completion lengths\<close>

datatype basis = ServerUsage | Tokenizer

datatype target_source = FromCli | FromMixReport

record isl_osl_targets =
  isl_target :: "f64 option"
  osl_target :: "f64 option"
  isl_tolerance :: f64
  osl_tolerance :: f64
  target_source :: "target_source option"

record isl_osl_validation =
  iv_targets :: isl_osl_targets
  length_basis :: "basis option"
  isl_mean :: "f64 option"
  isl_p50 :: "f64 option"
  osl_mean :: "f64 option"
  osl_p50 :: "f64 option"
  isl_mismatch_count :: nat
  osl_mismatch_count :: nat
  compared :: nat

datatype length_error =
    MixReportUnreadable
  | BadIslTarget
  | BadOslTarget
  | BadIslTolerance
  | BadOslTolerance
  | OslMismatch nat nat

definition is_active :: "isl_osl_targets \<Rightarrow> bool" where
  "is_active t \<longleftrightarrow> isl_target t \<noteq> None \<or> osl_target t \<noteq> None"

record mix_report_targets =
  mix_isl_target :: "f64 option"
  mix_osl_target :: "f64 option"
  mix_isl_tolerance :: "f64 option"
  mix_osl_tolerance :: "f64 option"

text \<open>The report file is read and parsed outside; \<open>None\<close> is a failure of either.\<close>

definition load_mix_report :: "json option \<Rightarrow> length_error + mix_report_targets" where
  "load_mix_report file =
     (case file of
        None \<Rightarrow> Inl MixReportUnreadable
      | Some v \<Rightarrow>
          Inr \<lparr>mix_isl_target = Option.bind (pointer v [''isl'', ''target'']) as_f64,
               mix_osl_target = Option.bind (pointer v [''osl'', ''target'']) as_f64,
               mix_isl_tolerance = Option.bind (pointer v [''isl'', ''tolerance'']) as_f64,
               mix_osl_tolerance = Option.bind (pointer v [''osl'', ''tolerance'']) as_f64\<rparr>)"

definition bad_bound :: "f64 \<Rightarrow> bool" where
  "bad_bound v \<longleftrightarrow> \<not> is_finite v \<or> flt v (Fin 0)"

definition check_targets :: "isl_osl_targets \<Rightarrow> length_error + isl_osl_targets" where
  "check_targets t =
     (if (case isl_target t of Some v \<Rightarrow> bad_bound v | None \<Rightarrow> False) then Inl BadIslTarget
      else if (case osl_target t of Some v \<Rightarrow> bad_bound v | None \<Rightarrow> False) then Inl BadOslTarget
      else if bad_bound (isl_tolerance t) then Inl BadIslTolerance
      else if bad_bound (osl_tolerance t) then Inl BadOslTolerance
      else Inr t)"

definition fill_from_report :: "mix_report_targets \<Rightarrow> isl_osl_targets \<Rightarrow> isl_osl_targets" where
  "fill_from_report m t =
     (let t1 = t\<lparr>isl_target := option_or (isl_target t) (mix_isl_target m),
                 osl_target := option_or (osl_target t) (mix_osl_target m),
                 isl_tolerance := (if feq (isl_tolerance t) (Fin 0)
                   then unwrap_or (mix_isl_tolerance m) (isl_tolerance t) else isl_tolerance t),
                 osl_tolerance := (if feq (osl_tolerance t) (Fin 0)
                   then unwrap_or (mix_osl_tolerance m) (osl_tolerance t) else osl_tolerance t)\<rparr>
      in if target_source t1 = None \<and> is_active t1
         then t1\<lparr>target_source := Some FromMixReport\<rparr> else t1)"

definition resolve_targets ::
  "f64 option \<Rightarrow> f64 option \<Rightarrow> f64 \<Rightarrow> f64 \<Rightarrow> json option option \<Rightarrow> length_error + isl_osl_targets" where
  "resolve_targets cli_isl cli_osl isl_tol osl_tol mix_report =
     (let t = \<lparr>isl_target = cli_isl, osl_target = cli_osl, isl_tolerance = isl_tol,
               osl_tolerance = osl_tol,
               target_source = (if cli_isl \<noteq> None \<or> cli_osl \<noteq> None then Some FromCli else None)\<rparr>
      in case mix_report of
           None \<Rightarrow> check_targets t
         | Some file \<Rightarrow>
             (case load_mix_report file of
                Inl e \<Rightarrow> Inl e
              | Inr m \<Rightarrow> check_targets (fill_from_report m t)))"

definition measured_isl :: "request_record \<Rightarrow> (f64 \<times> basis) option" where
  "measured_isl r =
     (if \<not> rr_usage_missing r then Some (f_of_nat (rr_prompt_tokens r), ServerUsage)
      else map_option (\<lambda>n. (f_of_nat n, Tokenizer)) (rr_tokenized_prompt_tokens r))"

definition measured_osl :: "request_record \<Rightarrow> (f64 \<times> basis) option" where
  "measured_osl r =
     (if \<not> rr_usage_missing r then Some (f_of_nat (rr_completion_tokens r), ServerUsage)
      else map_option (\<lambda>n. (f_of_nat n, Tokenizer)) (rr_tokenized_completion_tokens r))"

definition outside_tolerance :: "f64 \<Rightarrow> f64 \<Rightarrow> f64 \<Rightarrow> bool" where
  "outside_tolerance v target tolerance \<longleftrightarrow> flt tolerance (fabs (fsub v target))"

definition mismatch :: "f64 option \<Rightarrow> f64 \<Rightarrow> f64 option \<Rightarrow> bool" where
  "mismatch target tolerance value =
     (case (target, value) of
        (Some t, Some v) \<Rightarrow> outside_tolerance v t tolerance
      | _ \<Rightarrow> False)"

definition summarize_pairs ::
  "isl_osl_targets \<Rightarrow> f64 list \<Rightarrow> f64 list \<Rightarrow> nat \<Rightarrow> (f64 option \<times> f64 option) list \<Rightarrow>
   basis option \<Rightarrow> isl_osl_validation" where
  "summarize_pairs t isl_vals osl_vals n pairs b =
     (let isl_dist = dist_from_values isl_vals; osl_dist = dist_from_values osl_vals in
      \<lparr>iv_targets = t, length_basis = b, isl_mean = ds_avg isl_dist, isl_p50 = ds_p50 isl_dist,
       osl_mean = ds_avg osl_dist, osl_p50 = ds_p50 osl_dist,
       isl_mismatch_count = count_if (\<lambda>p. mismatch (isl_target t) (isl_tolerance t) (fst p)) pairs,
       osl_mismatch_count = count_if (\<lambda>p. mismatch (osl_target t) (osl_tolerance t) (snd p)) pairs,
       compared = n\<rparr>)"

definition measured_successes :: "request_record list \<Rightarrow> request_record list" where
  "measured_successes records = filter (\<lambda>r. rr_phase r = Measure \<and> is_success r) records"

definition validate_records ::
  "request_record list \<Rightarrow> isl_osl_targets \<Rightarrow> isl_osl_validation option" where
  "validate_records records t =
     (if \<not> is_active t then None
      else let successes = measured_successes records;
               isl_pairs = List.map_filter measured_isl successes;
               osl_pairs = List.map_filter measured_osl successes;
               b = option_or (find (\<lambda>b. b = Tokenizer) (map snd (isl_pairs @ osl_pairs)))
                     (map_option snd (option_or (hd_opt isl_pairs) (hd_opt osl_pairs)))
           in Some (summarize_pairs t (map fst isl_pairs) (map fst osl_pairs) (length successes)
                (map (\<lambda>r. (map_option fst (measured_isl r), map_option fst (measured_osl r))) successes) b))"

definition validate_token_counts ::
  "(nat \<times> nat) list \<Rightarrow> isl_osl_targets \<Rightarrow> isl_osl_validation option" where
  "validate_token_counts rows t =
     (if \<not> is_active t then None
      else Some (summarize_pairs t (map (\<lambda>(i, u). f_of_nat i) rows) (map (\<lambda>(i, u). f_of_nat u) rows)
        (length rows) (map (\<lambda>(i, u). (Some (f_of_nat i), Some (f_of_nat u))) rows) (Some ServerUsage)))"

text \<open>A mismatch is a warning (\<open>Inr\<close> with the two counts) unless the gate fails the run.\<close>

definition enforce_osl_gate ::
  "isl_osl_validation \<Rightarrow> bool \<Rightarrow> length_error + (nat \<times> nat) option" where
  "enforce_osl_gate v fail_on_osl_mismatch =
     (if osl_target (iv_targets v) = None then Inr None
      else if osl_mismatch_count v = 0 then Inr None
      else if fail_on_osl_mismatch then Inl (OslMismatch (osl_mismatch_count v) (compared v))
      else Inr (Some (osl_mismatch_count v, compared v)))"

subsection \<open>Lemmas\<close>

lemma count_if_0: "count_if P xs = 0 \<longleftrightarrow> list_all (\<lambda>x. \<not> P x) xs"
  by (simp add: count_if_def filter_empty_conv list_all_iff)

lemma count_if_le: "count_if P xs \<le> length xs"
  by (simp add: count_if_def)

lemma count_if_map: "count_if P (map f xs) = count_if (P \<circ> f) xs"
  by (simp add: count_if_def filter_map)

subsection \<open>Properties\<close>

text \<open>
The source of a first-token time is always told truthfully: a streamed time is used
whenever the run streams and a token was seen, and is then the earlier of visible and reasoning
token; the HTTP first byte is used only when there is none and the approximation was asked for,
and is labelled as such; otherwise nothing is reported, and the compatibility flag has no
influence.
\<close>

lemma resolved_ttft_provenance:
  "let r = resolve_ttft_with_fallback streaming vis rea byte infer fallback in
   (rt_source r = Some Stream \<longleftrightarrow> streaming \<and> \<not> (vis = None \<and> rea = None)) \<and>
   (rt_source r = Some FirstByteApprox \<longleftrightarrow>
      \<not> (streaming \<and> \<not> (vis = None \<and> rea = None)) \<and> infer \<and> byte \<noteq> None) \<and>
   rt_source r \<noteq> Some FirstTokenFallback \<and>
   rt_ttft_s r = (case rt_source r of
       Some Stream \<Rightarrow> fmin_opt vis rea | Some _ \<Rightarrow> byte | None \<Rightarrow> None) \<and>
   r = resolve_ttft_with_fallback streaming vis rea byte infer (\<not> fallback)"
  by (cases vis; cases rea; cases byte)
     (auto simp: resolve_ttft_with_fallback_def resolve_ttft_def fmin_opt_def)

text \<open>
A streaming chat run that passes the audit without an opt-out has a first-token time on
every measured success; the audit looks at measured rows only, so warmup and drain rows can
neither fail nor pass it, and an approximation from the first byte is never passed over in
silence.
\<close>

lemma audit_ok_means_ttft:
  assumes "audit_chat_request_records records streaming infer fallback allow_missing = Inr a"
  shows "(streaming \<and> \<not> allow_missing \<longrightarrow>
       list_all (\<lambda>r. is_success r \<longrightarrow> rr_ttft_s r \<noteq> None) (measured_rows records)) \<and>
    (approx_count a = count_if (\<lambda>r. rr_ttft_source r = Some FirstByteApprox) (measured_rows records)) \<and>
    (0 < approx_count a \<longrightarrow> audit_warning a = Some (ApproximatedFirstByte (approx_count a))) \<and>
    audit_chat_request_records (measured_rows records) streaming infer fallback allow_missing = Inr a"
proof (intro conjI impI)
  let ?P = "\<lambda>r. is_success r \<and> rr_ttft_s r = None"
  assume "streaming \<and> \<not> allow_missing"
  then have "count_if ?P (measured_rows records) = 0"
    using assms by (auto simp: audit_chat_request_records_def audit_chat_ttft_observed_def Let_def
        split: if_splits)
  then show "list_all (\<lambda>r. is_success r \<longrightarrow> rr_ttft_s r \<noteq> None) (measured_rows records)"
    by (simp add: count_if_0)
next
  show "audit_chat_request_records (measured_rows records) streaming infer fallback allow_missing = Inr a"
    using assms by (simp add: audit_chat_request_records_def measured_rows_def)
qed (use assms in \<open>auto simp: audit_chat_request_records_def audit_chat_ttft_observed_def Let_def
    split: if_splits\<close>)

lemma audit_ok_means_ttft_example:
  "rr_ttft_s (success 2 Measure [] 0 5 9 (Some 3) None [] 1 1 2) \<noteq> None"
proof -
  let ?r = "success 2 Measure [] 0 5 9 (Some 3) None [] 1 1 2"
  let ?rs = "[failed 1 Warmup [] 0 5 7 Timeout, ?r]"
  have "\<exists>a. audit_chat_request_records ?rs True False False False = Inr a"
    by (simp add: audit_chat_request_records_def audit_chat_ttft_observed_def measured_rows_def
        count_if_def success_def failed_def with_phase_metrics_def is_success_def min_opt_def
        no_answer_row_def Let_def)
  then obtain a where "audit_chat_request_records ?rs True False False False = Inr a" ..
  from audit_ok_means_ttft [OF this]
  have "list_all (\<lambda>r. is_success r \<longrightarrow> rr_ttft_s r \<noteq> None) (measured_rows ?rs)" by blast
  moreover have "?r \<in> set (measured_rows ?rs)" "is_success ?r"
    by (simp_all add: measured_rows_def success_def with_phase_metrics_def is_success_def Let_def)
  ultimately show ?thesis by (simp add: list_all_iff)
qed

lemma rnd_small_int:
  assumes "m \<le> 2 ^ 53" "n \<le> 2 ^ 53"
  shows "fabs (rnd (of_nat m - of_nat n)) = Fin (of_nat (max m n - min m n))"
proof -
  have "int m \<le> 2 ^ 53" "int n \<le> 2 ^ 53" using assms by simp_all
  then have b: "\<bar>int m - int n\<bar> \<le> 2 ^ 53" by (simp add: abs_le_iff)
  have "rnd (of_nat m - of_nat n) = Fin (of_int (int m - int n))" using rnd_of_int [OF b] by simp
  then show ?thesis by (cases "m \<le> n") (simp_all add: of_nat_diff)
qed

text \<open>
C31: The length validation counts exactly the measured successes whose prompt, and separately whose
completion, misses its own target by more than its own tolerance. The length is the server's count,
or the tokenizer's where the server reported no usage; a request without any count, or a run
without that target, is no mismatch. On whole-number targets and lengths up to 2^53 the distance is
the exact one. The gate fails a run exactly when it was asked to and some measured success misses
the completion target; when it was not asked to it warns with the two counts instead.
\<close>

theorem osl_gate_exact:
  assumes "validate_records records t = Some v"
  defines "prompt \<equiv> \<lambda>r. if rr_usage_missing r then rr_tokenized_prompt_tokens r else Some (rr_prompt_tokens r)"
    and "completion \<equiv> \<lambda>r. if rr_usage_missing r then rr_tokenized_completion_tokens r else Some (rr_completion_tokens r)"
    and "far \<equiv> \<lambda>target tolerance tokens. \<exists>x n. target = Some x \<and> tokens = Some n \<and>
      flt tolerance (fabs (fsub (f_of_nat n) x))"
    and "rows \<equiv> filter (\<lambda>r. rr_phase r = Measure \<and> is_success r) records"
  shows "compared v = length rows \<and>
    isl_mismatch_count v = length (filter (\<lambda>r. far (isl_target t) (isl_tolerance t) (prompt r)) rows) \<and>
    osl_mismatch_count v = length (filter (\<lambda>r. far (osl_target t) (osl_tolerance t) (completion r)) rows) \<and>
    (\<forall>n x tol. n \<le> 2 ^ 53 \<and> x \<le> 2 ^ 53 \<longrightarrow>
       (far (Some (Fin (of_nat x))) (Fin tol) (Some n) \<longleftrightarrow> tol < of_nat (max n x - min n x))) \<and>
    enforce_osl_gate v strict =
      (if \<not> list_ex (\<lambda>r. far (osl_target t) (osl_tolerance t) (completion r)) rows then Inr None
       else if strict then Inl (OslMismatch (osl_mismatch_count v) (length rows))
       else Inr (Some (osl_mismatch_count v, length rows)))"
proof -
  have far: "mismatch target tol (map_option fst (measured_isl r)) = far target tol (prompt r)"
    "mismatch target tol (map_option fst (measured_osl r)) = far target tol (completion r)" for target tol r
    by (auto simp: mismatch_def outside_tolerance_def measured_isl_def measured_osl_def far_def prompt_def
        completion_def split: option.splits)
  have v: "compared v = length rows" "iv_targets v = t"
    "isl_mismatch_count v = count_if (\<lambda>r. far (isl_target t) (isl_tolerance t) (prompt r)) rows"
    "osl_mismatch_count v = count_if (\<lambda>r. far (osl_target t) (osl_tolerance t) (completion r)) rows"
    using assms(1) unfolding rows_def measured_successes_def [symmetric]
    by (auto simp: validate_records_def summarize_pairs_def Let_def count_if_map comp_def far split: if_splits)
  have "far (Some (Fin (of_nat x))) (Fin tol) (Some n) \<longleftrightarrow> tol < of_nat (max n x - min n x)"
    if "n \<le> 2 ^ 53" "x \<le> 2 ^ 53" for n x tol
    using rnd_small_int [OF that] rnd_small_int [of n 0] that
    by (simp add: far_def fsub_def f_of_nat_def rnd_of_int [of "int n", simplified] flt_def)
  moreover have "osl_target t = None \<Longrightarrow> \<not> far (osl_target t) (osl_tolerance t) (completion r)" for r
    by (simp add: far_def)
  moreover have "count_if P xs = 0 \<longleftrightarrow> \<not> list_ex P xs" for P and xs :: "request_record list"
    unfolding count_if_0 by (simp add: list_all_iff list_ex_iff)
  ultimately show ?thesis using v unfolding count_if_def [symmetric]
    by (auto simp: enforce_osl_gate_def list_ex_iff)
qed

definition demo_targets :: isl_osl_targets where
  "demo_targets = \<lparr>isl_target = Some (Fin 1), osl_target = Some (Fin 8), isl_tolerance = Fin 0,
     osl_tolerance = Fin 1, target_source = None\<rparr>"

theorem osl_gate_exact_witness:
  "\<exists>v. validate_records [success 2 Measure [] 0 5 9 (Some 3) None [] 1 1 2] demo_targets = Some v \<and>
     compared v = 1 \<and> enforce_osl_gate v True = Inl (OslMismatch 1 1)"
proof -
  let ?r = "success 2 Measure [] 0 5 9 (Some 3) None [] 1 1 2"
  obtain v where v: "validate_records [?r] demo_targets = Some v"
    by (simp add: validate_records_def is_active_def demo_targets_def Let_def)
  have r: "rr_phase ?r = Measure" "is_success ?r" "\<not> rr_usage_missing ?r" "rr_completion_tokens ?r = 1"
    by (simp_all add: success_def with_phase_metrics_def is_success_def Let_def)
  have "flt (Fin 1) (fabs (fsub (f_of_nat 1) (Fin 8)))"
    using rnd_small_int [of 1 8] by (simp add: fsub_def f_of_nat_def flt_def)
  then show ?thesis using osl_gate_exact [OF v, of True] v r by (simp add: demo_targets_def)
qed

end
