(* ===== verification/Asr.thy ===== *)
theory Asr
  imports Json
begin

text \<open>
  Speech recognition accuracy (\<open>src/asr.rs\<close>): text normalisation, the edit distance over
  two rows, word and character error rates, the sample and reference loaders and the response
  parser. The Unicode tables behind \<open>to_lowercase\<close> and \<open>is_alphanumeric\<close>, and the JSON
  parser, are parameters.
\<close>

record unicode =
  to_lowercase :: "ustr \<Rightarrow> ustr"
  is_alphanumeric :: "nat \<Rightarrow> bool"

datatype normalizer = WhisperEnglish | WhisperBasic | NoNormalizer

text \<open>The scan of \<open>basic\<close>; 8217 is the right single quotation mark.\<close>

definition fold_quotes :: "ustr \<Rightarrow> ustr" where
  "fold_quotes s = map (\<lambda>c. if c = 8217 \<or> c = 96 then 39 else c) s"

fun basic_scan :: "unicode \<Rightarrow> bool \<Rightarrow> ustr \<Rightarrow> ustr" where
  "basic_scan u in_brackets [] = []"
| "basic_scan u in_brackets (c # cs) =
     (if c = 91 \<or> c = 40 \<or> c = 60 then basic_scan u True cs
      else if c = 93 \<or> c = 41 \<or> c = 62 then 32 # basic_scan u False cs
      else if in_brackets then basic_scan u True cs
      else if is_alphanumeric u c \<or> c = 39 then c # basic_scan u False cs
      else 32 # basic_scan u False cs)"

definition basic :: "unicode \<Rightarrow> ustr \<Rightarrow> ustr" where
  "basic u txt = join (lit '' '') (split_whitespace (basic_scan u False (fold_quotes (to_lowercase u txt))))"

definition ENGLISH_FORMS :: "(string \<times> string list) list" where
  "ENGLISH_FORMS =
     [(''can'' @ [CHR 0x27] @ ''t'', [''can'', ''not'']), (''won'' @ [CHR 0x27] @ ''t'', [''will'', ''not'']),
      (''i'' @ [CHR 0x27] @ ''m'', [''i'', ''am'']), (''it'' @ [CHR 0x27] @ ''s'', [''it'', ''is'']),
      (''that'' @ [CHR 0x27] @ ''s'', [''that'', ''is'']), (''there'' @ [CHR 0x27] @ ''s'', [''there'', ''is'']),
      (''don'' @ [CHR 0x27] @ ''t'', [''do'', ''not'']), (''doesn'' @ [CHR 0x27] @ ''t'', [''does'', ''not'']),
      (''didn'' @ [CHR 0x27] @ ''t'', [''did'', ''not'']), (''isn'' @ [CHR 0x27] @ ''t'', [''is'', ''not'']),
      (''aren'' @ [CHR 0x27] @ ''t'', [''are'', ''not'']), (''wasn'' @ [CHR 0x27] @ ''t'', [''was'', ''not'']),
      (''weren'' @ [CHR 0x27] @ ''t'', [''were'', ''not'']),
      (''zero'', [''0'']), (''one'', [''1'']), (''two'', [''2'']), (''three'', [''3'']),
      (''four'', [''4'']), (''five'', [''5'']), (''six'', [''6'']), (''seven'', [''7'']),
      (''eight'', [''8'']), (''nine'', [''9'']), (''ten'', [''10''])]"

definition english_word :: "ustr \<Rightarrow> ustr list" where
  "english_word w =
     (case find (\<lambda>(form, _). lit form = w) ENGLISH_FORMS of
        Some (_, ws) \<Rightarrow> map lit ws
      | None \<Rightarrow> [w])"

definition english :: "ustr \<Rightarrow> ustr" where
  "english txt = join (lit '' '') (concat (map english_word (split_whitespace txt)))"

definition normalize :: "unicode \<Rightarrow> ustr \<Rightarrow> normalizer \<Rightarrow> ustr" where
  "normalize u txt n =
     (case n of
        NoNormalizer \<Rightarrow> txt
      | WhisperBasic \<Rightarrow> basic u txt
      | WhisperEnglish \<Rightarrow> english (basic u txt))"

subsection \<open>Edit distance\<close>

definition ed_cell :: "nat list \<Rightarrow> nat list \<Rightarrow> nat \<Rightarrow> 'a \<Rightarrow> 'a \<Rightarrow> nat" where
  "ed_cell previous current j x y =
     min (min (previous ! (j + 1) + 1) (current ! j + 1)) (previous ! j + of_bool (x \<noteq> y))"

definition ed_row :: "'a list \<Rightarrow> nat list \<Rightarrow> nat \<times> 'a \<Rightarrow> nat list" where
  "ed_row actual previous p =
     foldl (\<lambda>current (j, y). current[j + 1 := ed_cell previous current j (snd p) y])
       (replicate (length actual + 1) (fst p + 1)) (enumerate 0 actual)"

definition edit_distance :: "'a list \<Rightarrow> 'a list \<Rightarrow> nat" where
  "edit_distance expected actual =
     foldl (ed_row actual) [0..<length actual + 1] (enumerate 0 expected) ! length actual"

subsection \<open>Error rates\<close>

definition word_error_rate :: "unicode \<Rightarrow> ustr \<Rightarrow> ustr \<Rightarrow> normalizer \<Rightarrow> f64 option" where
  "word_error_rate u reference hypothesis n =
     (let expected = split_whitespace (normalize u reference n);
          actual = split_whitespace (normalize u hypothesis n)
      in if expected = [] then (if actual = [] then Some (Fin 0) else None)
         else Some (fdiv (f_of_nat (edit_distance expected actual)) (f_of_nat (length expected))))"

definition character_error_rate :: "unicode \<Rightarrow> ustr \<Rightarrow> ustr \<Rightarrow> normalizer \<Rightarrow> f64 option" where
  "character_error_rate u reference hypothesis n =
     (let expected = normalize u reference n; actual = normalize u hypothesis n
      in if expected = [] then (if actual = [] then Some (Fin 0) else None)
         else Some (fdiv (f_of_nat (edit_distance expected actual)) (f_of_nat (length expected))))"

definition transcript_error_rates :: "unicode \<Rightarrow> ustr \<Rightarrow> ustr \<Rightarrow> normalizer \<Rightarrow> f64 \<times> f64" where
  "transcript_error_rates u reference hypothesis n =
     (unwrap_or (word_error_rate u reference hypothesis n) (Fin 1),
      unwrap_or (character_error_rate u reference hypothesis n) (Fin 1))"

definition rtfx :: "f64 \<Rightarrow> f64 \<Rightarrow> f64 option" where
  "rtfx audio client =
     (if is_finite audio \<and> flt (Fin 0) audio \<and> is_finite client \<and> flt (Fin 0) client
      then Some (fdiv audio client) else None)"

subsection \<open>Inputs and responses\<close>

record audio_sample =
  as_id :: ustr
  as_url :: "ustr option"
  as_format :: ustr
  as_duration :: "f64 option"
  as_ground_truth :: "ustr option"
  as_local_file_path :: "ustr option"

datatype asr_error =
    BadJson
  | MissingId
  | MissingPathAndUrl
  | MissingTranscript
  | NoTranscriptionText
  | UnsupportedFormat ustr

definition mime_for_format :: "unicode \<Rightarrow> ustr \<Rightarrow> string" where
  "mime_for_format u fmt =
     (let f = to_lowercase u fmt in
      if f \<in> {lit ''mp3'', lit ''mpeg''} then ''audio/mpeg''
      else if f = lit ''wav'' then ''audio/wav''
      else if f = lit ''webm'' then ''audio/webm''
      else if f \<in> {lit ''ogg'', lit ''oga''} then ''audio/ogg''
      else if f \<in> {lit ''m4a'', lit ''mp4''} then ''audio/mp4''
      else if f = lit ''flac'' then ''audio/flac''
      else ''audio/mpeg'')"

definition audio_row :: "json \<Rightarrow> asr_error + audio_sample" where
  "audio_row sample =
     (case get_str sample ''id'' of
        None \<Rightarrow> Inl MissingId
      | Some i \<Rightarrow>
          (let path = get_str sample ''path''; url = get_str sample ''url'' in
           if path = None \<and> url = None then Inl MissingPathAndUrl
           else Inr \<lparr>as_id = i, as_url = url,
                     as_format = unwrap_or (get_str sample ''format'') (lit ''unknown''),
                     as_duration = Option.bind (jget sample ''duration'') as_f64,
                     as_ground_truth = None, as_local_file_path = path\<rparr>))"

text \<open>The line loop both loaders share: blank lines are skipped, the first failure stops.\<close>

fun load_rows :: "serde \<Rightarrow> (json \<Rightarrow> asr_error + 'r) \<Rightarrow> ustr list \<Rightarrow> asr_error + 'r list" where
  "load_rows sj row [] = Inr []"
| "load_rows sj row (line # ls) =
     (let l = trim line in
      if l = [] then load_rows sj row ls
      else case from_str sj l of
        None \<Rightarrow> Inl BadJson
      | Some v \<Rightarrow>
          (case row v of
             Inl e \<Rightarrow> Inl e
           | Inr r \<Rightarrow> (case load_rows sj row ls of Inl e \<Rightarrow> Inl e | Inr rs \<Rightarrow> Inr (r # rs))))"

definition load_audio_samples :: "serde \<Rightarrow> ustr \<Rightarrow> asr_error + audio_sample list" where
  "load_audio_samples sj content = load_rows sj audio_row (str_lines content)"

definition truth_row :: "json \<Rightarrow> asr_error + (ustr \<times> ustr)" where
  "truth_row v =
     (case get_str v ''id'' of
        None \<Rightarrow> Inl MissingId
      | Some i \<Rightarrow>
          (case get_str v ''transcript'' of None \<Rightarrow> Inl MissingTranscript | Some t \<Rightarrow> Inr (i, t)))"

definition load_ground_truth :: "serde \<Rightarrow> ustr \<Rightarrow> asr_error + (ustr \<rightharpoonup> ustr)" where
  "load_ground_truth sj content =
     (case load_rows sj truth_row (str_lines content) of
        Inl e \<Rightarrow> Inl e
      | Inr rows \<Rightarrow> Inr (fold (\<lambda>(i, t) m. m(i \<mapsto> t)) rows Map.empty))"

text \<open>The parts of the upload form, in the order they are added.\<close>

datatype form_part =
    FilePart ustr string "nat list"
  | TextPart string ustr

definition transcription_form ::
  "unicode \<Rightarrow> ustr \<Rightarrow> ustr \<Rightarrow> ustr \<Rightarrow> ustr \<Rightarrow> ustr \<Rightarrow> nat list \<Rightarrow> form_part list" where
  "transcription_form u model response_format language file_name fmt file_content =
     [FilePart file_name (mime_for_format u fmt) file_content,
      TextPart ''model'' model, TextPart ''response_format'' response_format] @
     (if language \<noteq> [] then [TextPart ''language'' language] else []) @
     (if response_format = lit ''json'' \<or> response_format = lit ''verbose_json''
      then [TextPart ''timestamp_granularities[]'' (lit ''word'')] else [])"

record transcription =
  tx_text :: ustr
  tx_server_time :: "f64 option"
  tx_usage :: "json option"

definition parse_transcription :: "serde \<Rightarrow> ustr \<Rightarrow> ustr \<Rightarrow> asr_error + transcription" where
  "parse_transcription sj response_format body =
     (if response_format \<in> {lit ''verbose_json'', lit ''json''} then
        (case from_str sj body of
           None \<Rightarrow> Inl BadJson
         | Some v \<Rightarrow>
             (case option_or (get_str v ''text'') (get_str v ''transcription'') of
                None \<Rightarrow> Inl NoTranscriptionText
              | Some t \<Rightarrow>
                  Inr \<lparr>tx_text = t,
                       tx_server_time = option_filter (\<lambda>x. is_finite x \<and> fle (Fin 0) x)
                         (Option.bind (jget v ''inference_time'') as_f64),
                       tx_usage = jget v ''usage''\<rparr>))
      else if response_format \<in> {lit ''text'', lit ''srt'', lit ''vtt''}
      then Inr \<lparr>tx_text = body, tx_server_time = None, tx_usage = None\<rparr>
      else Inl (UnsupportedFormat response_format))"

subsection \<open>Alignments\<close>

text \<open>\<open>align n xs ys\<close>: deleting, inserting and replacing at most \<open>n\<close> elements in all turns
  \<open>xs\<close> into \<open>ys\<close>. The recursion \<open>lev\<close> computes the cheapest alignment.\<close>

inductive align :: "nat \<Rightarrow> 'a list \<Rightarrow> 'a list \<Rightarrow> bool" where
  Done: "align 0 [] []"
| Del: "align n xs ys \<Longrightarrow> align (n + 1) (x # xs) ys"
| Ins: "align n xs ys \<Longrightarrow> align (n + 1) xs (y # ys)"
| Sub: "align n xs ys \<Longrightarrow> align (n + of_bool (x \<noteq> y)) (x # xs) (y # ys)"

fun lev :: "'a list \<Rightarrow> 'a list \<Rightarrow> nat" where
  "lev [] ys = length ys"
| "lev (x # xs) [] = Suc (length xs)"
| "lev (x # xs) (y # ys) =
     min (min (lev xs (y # ys) + 1) (lev (x # xs) ys + 1)) (lev xs ys + of_bool (x \<noteq> y))"

lemma lev_Nil [simp]: "lev xs [] = length xs"
  by (cases xs) simp_all

lemma align_del: "align (length xs) xs []"
  by (induction xs) (auto intro: align.intros dest: align.Del)

lemma align_ins: "align (length ys) [] ys"
  by (induction ys) (auto intro: align.intros dest: align.Ins)

lemma align_lev: "align (lev xs ys) xs ys"
proof (induction xs ys rule: lev.induct)
  case (1 ys)
  then show ?case by (simp add: align_ins)
next
  case (2 x xs)
  then show ?case using align_del [of "x # xs"] by simp
next
  case (3 x xs y ys)
  from 3 have d: "align (lev xs (y # ys) + 1) (x # xs) (y # ys)"
    and i: "align (lev (x # xs) ys + 1) (x # xs) (y # ys)"
    and s: "align (lev xs ys + of_bool (x \<noteq> y)) (x # xs) (y # ys)"
    by (blast intro: align.intros)+
  have "lev (x # xs) (y # ys) \<in> {lev xs (y # ys) + 1, lev (x # xs) ys + 1, lev xs ys + of_bool (x \<noteq> y)}"
    by (simp add: min_def)
  then show ?case using d i s by (elim insertE) (simp_all only: , blast)
qed

lemma lev_Cons_le: "lev (x # xs) ys \<le> lev xs ys + 1" and lev_le_Cons: "lev xs (y # ys) \<le> lev xs ys + 1"
proof -
  show "lev (x # xs) ys \<le> lev xs ys + 1" by (cases ys) simp_all
  show "lev xs (y # ys) \<le> lev xs ys + 1" by (cases xs) simp_all
qed

lemma lev_least: "align n xs ys \<Longrightarrow> lev xs ys \<le> n"
proof (induction rule: align.induct)
  case (Del n xs ys x)
  then show ?case using lev_Cons_le [of x xs ys] by simp
next
  case (Ins n xs ys y)
  then show ?case using lev_le_Cons [of xs y ys] by simp
qed (auto simp: min_def)

text \<open>Alignments can be read from either end.\<close>

lemma align_snoc:
  assumes "align n xs ys"
  shows "align (n + 1) (xs @ [x]) ys" "align (n + 1) xs (ys @ [y])"
    "align (n + of_bool (x \<noteq> y)) (xs @ [x]) (ys @ [y])"
  using assms
proof (induction arbitrary: x y rule: align.induct)
  case Done
  { case 1 show ?case using align.Del [OF align.Done] by simp }
  { case 2 show ?case using align.Ins [OF align.Done] by simp }
  { case 3 show ?case using align.Sub [OF align.Done, of x y] by simp }
next
  case (Del n xs ys z)
  { case 1 show ?case using align.Del [OF Del.IH(1)] by simp }
  { case 2 show ?case using align.Del [OF Del.IH(2)] by simp }
  { case 3 show ?case using align.Del [OF Del.IH(3), of x y z] by (simp add: ac_simps) }
next
  case (Ins n xs ys z)
  { case 1 show ?case using align.Ins [OF Ins.IH(1)] by simp }
  { case 2 show ?case using align.Ins [OF Ins.IH(2)] by simp }
  { case 3 show ?case using align.Ins [OF Ins.IH(3), of x y z] by (simp add: ac_simps) }
next
  case (Sub n xs ys z w)
  { case 1 show ?case using align.Sub [OF Sub.IH(1), of z w x] by (simp add: ac_simps) }
  { case 2 show ?case using align.Sub [OF Sub.IH(2), of z w] by (simp add: ac_simps) }
  { case 3 show ?case using align.Sub [OF Sub.IH(3), of x y z w] by (simp add: ac_simps) }
qed

lemma align_rev: "align n xs ys \<Longrightarrow> align n (rev xs) (rev ys)"
  by (induction rule: align.induct) (simp_all only: rev.simps align.Done align_snoc)

lemma lev_rev: "lev (rev xs) (rev ys) = lev xs ys"
  using lev_least [OF align_rev [OF align_lev [of xs ys]]]
    lev_least [OF align_rev [OF align_lev [of "rev xs" "rev ys"]]] by simp

subsection \<open>The rows of the table\<close>

abbreviation prefix_dist :: "'a list \<Rightarrow> 'a list \<Rightarrow> nat \<Rightarrow> nat \<Rightarrow> nat" where
  "prefix_dist xs ys i j \<equiv> lev (rev (take i xs)) (rev (take j ys))"

lemma rev_take_Suc: "i < length xs \<Longrightarrow> rev (take (Suc i) xs) = xs ! i # rev (take i xs)"
  by (simp add: take_Suc_conv_app_nth)

lemma prefix_dist_step:
  assumes "i < length xs" "j < length ys"
  shows "prefix_dist xs ys (Suc i) (Suc j) =
    min (min (prefix_dist xs ys i (Suc j) + 1) (prefix_dist xs ys (Suc i) j + 1))
      (prefix_dist xs ys i j + of_bool (xs ! i \<noteq> ys ! j))"
  using assms by (simp add: rev_take_Suc)

definition ed_partial :: "'a list \<Rightarrow> nat list \<Rightarrow> nat \<times> 'a \<Rightarrow> nat \<Rightarrow> nat list" where
  "ed_partial actual previous p m =
     foldl (\<lambda>current (j, y). current[j + 1 := ed_cell previous current j (snd p) y])
       (replicate (length actual + 1) (fst p + 1)) (enumerate 0 (take m actual))"

lemma ed_partial_Suc:
  "m < length actual \<Longrightarrow> ed_partial actual previous p (Suc m) =
     (let c = ed_partial actual previous p m in c[m + 1 := ed_cell previous c m (snd p) (actual ! m)])"
  by (simp add: ed_partial_def take_Suc_conv_app_nth enumerate_append_eq Let_def)

lemma ed_partial_inv:
  assumes "i < length xs" "length previous = length ys + 1"
    and "\<forall>k \<le> length ys. previous ! k = prefix_dist xs ys i k"
  shows "m \<le> length ys \<Longrightarrow>
    length (ed_partial ys previous (i, xs ! i) m) = length ys + 1 \<and>
    (\<forall>k \<le> m. ed_partial ys previous (i, xs ! i) m ! k = prefix_dist xs ys (Suc i) k)"
proof (induction m)
  case 0
  then show ?case using assms(1) by (simp add: ed_partial_def)
next
  case (Suc m)
  let ?c = "ed_partial ys previous (i, xs ! i) m"
  from Suc have len: "length ?c = length ys + 1" and cells: "\<forall>k \<le> m. ?c ! k = prefix_dist xs ys (Suc i) k"
    by auto
  have "ed_cell previous ?c m (xs ! i) (ys ! m) = prefix_dist xs ys (Suc i) (Suc m)"
    using assms Suc.prems cells prefix_dist_step [of i xs m ys] by (simp add: ed_cell_def)
  then show ?case
    using Suc.prems len cells by (auto simp: ed_partial_Suc Let_def nth_list_update le_Suc_eq)
qed

lemma ed_row_inv:
  assumes "i < length xs" "length previous = length ys + 1"
    and "\<forall>k \<le> length ys. previous ! k = prefix_dist xs ys i k"
  shows "length (ed_row ys previous (i, xs ! i)) = length ys + 1 \<and>
    (\<forall>k \<le> length ys. ed_row ys previous (i, xs ! i) ! k = prefix_dist xs ys (Suc i) k)"
  using ed_partial_inv [OF assms, of "length ys"] by (simp add: ed_partial_def ed_row_def)

lemma ed_rows_inv:
  "i \<le> length xs \<Longrightarrow>
   (let row = foldl (ed_row ys) [0..<length ys + 1] (enumerate 0 (take i xs)) in
    length row = length ys + 1 \<and> (\<forall>k \<le> length ys. row ! k = prefix_dist xs ys i k))"
proof (induction i)
  case 0
  then show ?case by (simp add: Let_def nth_append less_Suc_eq_le del: upt_Suc)
next
  case (Suc i)
  let ?row = "foldl (ed_row ys) [0..<length ys + 1] (enumerate 0 (take i xs))"
  have "foldl (ed_row ys) [0..<length ys + 1] (enumerate 0 (take (Suc i) xs)) = ed_row ys ?row (i, xs ! i)"
    using Suc.prems by (simp add: take_Suc_conv_app_nth enumerate_append_eq del: upt_Suc)
  then show ?case
    using Suc ed_row_inv [of i xs ?row ys] by (simp add: Let_def del: upt_Suc)
qed

lemma edit_distance_lev: "edit_distance xs ys = lev xs ys"
  using ed_rows_inv [of "length xs" xs ys] lev_rev [of xs ys]
  by (simp add: edit_distance_def Let_def del: upt_Suc)

lemma align_0_eq: "align n xs ys \<Longrightarrow> n = 0 \<Longrightarrow> xs = ys"
  by (induction rule: align.induct) auto

lemma lev_self: "lev xs xs = 0"
proof -
  have "align 0 xs xs"
  proof (induction xs)
    case (Cons x xs)
    then show ?case using align.Sub [of 0 xs xs x x] by simp
  qed (rule align.Done)
  then show ?thesis using lev_least by blast
qed

lemma lev_le_max: "lev xs ys \<le> max (length xs) (length ys)"
  by (induction xs ys rule: lev.induct) (auto simp: min_def)

lemma align_length: "align n xs ys \<Longrightarrow> length ys \<le> length xs + n"
  by (induction rule: align.induct) auto

lemma edit_distance_is_least: "edit_distance xs ys = (LEAST n. align n xs ys)"
  using align_lev lev_least by (intro Least_equality [symmetric]) (auto simp: edit_distance_lev)

lemma length_split_whitespace: "length (split_whitespace s) \<le> length s"
proof (induction s rule: split_whitespace.induct)
  case (1 s)
  let ?t = "trim_start s"
  show ?case
  proof (cases "?t = []")
    case False
    then have "\<not> is_whitespace (hd ?t)"
      unfolding trim_start_def using hd_dropWhile by blast
    then have "length (dropWhile (\<lambda>c. \<not> is_whitespace c) ?t) < length ?t"
      using False by (cases ?t) (auto simp: less_Suc_eq_le length_dropWhile_le)
    moreover have "length ?t \<le> length s" by (simp add: trim_start_def length_dropWhile_le)
    ultimately show ?thesis
      using 1 False by (simp add: split_whitespace.simps [of s] Let_def)
  qed (simp add: split_whitespace.simps [of s] Let_def)
qed

subsection \<open>Properties\<close>

text \<open>
C38: The two-row table computes the edit distance: its result is the cost of some alignment of
the two sequences, and no alignment by deletions, insertions and replacements is cheaper.
Hence it is zero exactly for equal sequences and never exceeds the longer length.
\<close>

theorem edit_distance_is_cheapest_alignment:
  "align (edit_distance xs ys) xs ys \<and>
   edit_distance xs ys = (LEAST n. align n xs ys) \<and>
   (edit_distance xs ys = 0 \<longleftrightarrow> xs = ys) \<and>
   edit_distance xs ys \<le> max (length xs) (length ys)"
proof (intro conjI)
  show a: "align (edit_distance xs ys) xs ys" by (simp add: edit_distance_lev align_lev)
  show "edit_distance xs ys = (LEAST n. align n xs ys)" by (rule edit_distance_is_least)
  show "edit_distance xs ys = 0 \<longleftrightarrow> xs = ys"
    using align_0_eq [OF a] lev_self by (auto simp: edit_distance_lev)
  show "edit_distance xs ys \<le> max (length xs) (length ys)"
    by (simp add: edit_distance_lev lev_le_max)
qed

lemma rate_zero_iff:
  assumes "k < 2 ^ 53" "0 < n" "n < 2 ^ 53"
  shows "fdiv (f_of_nat k) (f_of_nat n) = Fin 0 \<longleftrightarrow> k = 0"
proof
  assume z: "fdiv (f_of_nat k) (f_of_nat n) = Fin 0"
  show "k = 0"
  proof (rule ccontr)
    assume "k \<noteq> 0"
    then have q: "(1 :: rat) / of_nat n \<le> of_nat k / of_nat n"
      using assms by (intro divide_right_mono) auto
    have "(of_nat n :: rat) \<le> of_nat (2 ^ 53)" using assms(3) by (simp only: of_nat_le_iff)
    then have "pow2 (- 53) \<le> 1 / of_nat n"
      using assms(2) by (simp add: pow2_def divide_simps)
    with q have "pow2 (- 53) \<le> of_nat k / of_nat n" by (rule order_trans [rotated])
    then have "rnd (pow2 (- 53)) \<le> rnd (of_nat k / of_nat n)" by (rule rnd_mono)
    moreover have "rnd (of_nat k / of_nat n) = Fin 0"
      using z assms f_of_nat_exact [of k] f_of_nat_exact [of n] by (simp add: fdiv_def)
    moreover have "rnd (pow2 (- 53)) = Fin (pow2 (- 53))"
      using rnd_rat_representable_pos [of 1 "- 53"] rnd_small [of "pow2 (- 53)"] by (simp add: pow2_def)
    ultimately show False using pow2_pos [of "- 53"] by simp
  qed
next
  have "f_of_nat n = Fin (of_nat n)" using assms(3) by (intro f_of_nat_exact) simp
  then show "k = 0 \<Longrightarrow> fdiv (f_of_nat k) (f_of_nat n) = Fin 0" using assms(2) by (simp add: fdiv_def)
qed

text \<open>An error rate from its two sequences: rounded cost of the cheapest alignment per element.\<close>

definition rate_of :: "'a list \<Rightarrow> 'a list \<Rightarrow> f64" where
  "rate_of expected actual =
     (if expected = [] then (if actual = [] then Fin 0 else Fin 1)
      else rnd (of_nat (LEAST k. align k expected actual) / of_nat (length expected)))"

lemma rate_of_sound:
  fixes e a :: "'a list"
  assumes "length e < 2 ^ 53" "length a < 2 ^ 53"
  shows "e \<noteq> [] \<Longrightarrow> fdiv (f_of_nat (edit_distance e a)) (f_of_nat (length e)) = rate_of e a"
    and "nonneg (rate_of e a)" and "rate_of e a = Fin 0 \<longleftrightarrow> e = a"
proof -
  let ?d = "edit_distance e a"
  have least: "(LEAST k. align k e a) = ?d" using edit_distance_is_least [of e a] by simp
  have d: "?d < 2 ^ 53" "?d = 0 \<longleftrightarrow> e = a"
    using lev_le_max [of e a] assms lev_self align_0_eq [OF align_lev [of e a]]
    by (auto simp: edit_distance_lev)
  show r: "fdiv (f_of_nat ?d) (f_of_nat (length e)) = rate_of e a" if "e \<noteq> []"
    using that d(1) assms(1) f_of_nat_exact [of ?d] f_of_nat_exact [of "length e"]
    by (simp add: rate_of_def least fdiv_def)
  have "nonneg (fdiv (f_of_nat ?d) (f_of_nat (length e)))" if "e \<noteq> []"
    using that assms(1) f_of_nat_exact [of "length e"] by (intro nonneg_fdiv) auto
  then show "nonneg (rate_of e a)" using r by (cases "e = []") (auto simp: rate_of_def)
  show "rate_of e a = Fin 0 \<longleftrightarrow> e = a"
    using r rate_zero_iff [OF d(1) _ assms(1)] d(2) by (cases "e = []") (auto simp: rate_of_def)
qed

text \<open>
C39: The two recorded error rates are always numbers and never negative, for transcripts whose
normalised texts have fewer than 2^53 characters. The word error rate compares the words of the
normalised texts, the character error rate their characters; for a non-empty reference each is the
cost of the cheapest alignment divided by the length of the reference, rounded to binary64; an empty
reference scores zero against an empty transcript and one against any other. A rate of zero means
what it says: the word rate is zero exactly when the words are the same, the character rate exactly
when the texts are.
\<close>

theorem transcript_error_rates_sound:
  assumes "length (normalize u reference n) < 2 ^ 53" "length (normalize u hypothesis n) < 2 ^ 53"
  shows "let (wer, cer) = transcript_error_rates u reference hypothesis n;
      expected = normalize u reference n; actual = normalize u hypothesis n;
      words = split_whitespace expected; spoken = split_whitespace actual;
      rate = (\<lambda>distance len. rnd (of_nat distance / of_nat len))
    in nonneg wer \<and> nonneg cer \<and>
       (wer = Fin 0 \<longleftrightarrow> words = spoken) \<and> (cer = Fin 0 \<longleftrightarrow> expected = actual) \<and>
       (if words = [] then wer = (if spoken = [] then Fin 0 else Fin 1)
        else wer = rate (LEAST k. align k words spoken) (length words)) \<and>
       (if expected = [] then cer = (if actual = [] then Fin 0 else Fin 1)
        else cer = rate (LEAST k. align k expected actual) (length expected))"
proof -
  let ?e = "normalize u reference n" and ?a = "normalize u hypothesis n"
  let ?w = "split_whitespace ?e" and ?s = "split_whitespace ?a"
  have l: "length ?w < 2 ^ 53" "length ?s < 2 ^ 53"
    using assms length_split_whitespace [of ?e] length_split_whitespace [of ?a] by linarith+
  have "transcript_error_rates u reference hypothesis n = (rate_of ?w ?s, rate_of ?e ?a)"
    using rate_of_sound(1) [OF l] rate_of_sound(1) [OF assms]
    by (auto simp: transcript_error_rates_def word_error_rate_def character_error_rate_def rate_of_def Let_def)
  then show ?thesis
    using rate_of_sound(2,3) [OF l] rate_of_sound(2,3) [OF assms] by (auto simp: Let_def rate_of_def)
qed

definition ascii_unicode :: unicode where
  "ascii_unicode = \<lparr>to_lowercase = to_ascii_lowercase, is_alphanumeric = is_ascii_alphanumeric\<rparr>"

theorem transcript_error_rates_sound_witness:
  "fst (transcript_error_rates ascii_unicode (lit ''Two cats'') (lit ''2 (noise) cats!'') WhisperEnglish) = Fin 0 \<and>
   snd (transcript_error_rates ascii_unicode (lit ''Two cats'') (lit ''2 (noise) cats!'') WhisperEnglish) = Fin 0"
proof -
  have n: "normalize ascii_unicode (lit ''Two cats'') WhisperEnglish = lit ''2 cats'' \<and>
      normalize ascii_unicode (lit ''2 (noise) cats!'') WhisperEnglish = lit ''2 cats''" by code_simp
  obtain wer cer where r: "transcript_error_rates ascii_unicode (lit ''Two cats'') (lit ''2 (noise) cats!'') WhisperEnglish =
      (wer, cer)" by fastforce
  have "length (lit ''2 cats'') < 2 ^ 53" by (simp add: lit_def)
  then show ?thesis
    using transcript_error_rates_sound [of ascii_unicode "lit ''Two cats''" WhisperEnglish "lit ''2 (noise) cats!''"] n r
    by (simp add: Let_def)
qed

end
