(* ===== verification/Systems.thy ===== *)
theory Systems
  imports Prelude
begin

text \<open>
  The interface of the development's state machines: a start, a step relation and an invariant,
  and for those that terminate a rank that every step lowers. What holds in every reachable
  state, how long a run can be and that a run can be driven to its end follow from the laws of
  the two locales; the components interpret them with their own steps.
\<close>

subsection \<open>Transition systems with an invariant and a rank\<close>

locale invariant_system =
  fixes init :: "'s \<Rightarrow> bool" and step :: "'s \<Rightarrow> 's \<Rightarrow> bool" and I :: "'s \<Rightarrow> bool"
  assumes I_init: "init s \<Longrightarrow> I s"
    and I_step: "I s \<Longrightarrow> step s s' \<Longrightarrow> I s'"
begin

lemma I_reach: "init s \<Longrightarrow> step\<^sup>*\<^sup>* s s' \<Longrightarrow> I s'"
proof -
  assume "step\<^sup>*\<^sup>* s s'" and i: "init s"
  then show ?thesis by (induction rule: rtranclp_induct) (auto intro: I_init [OF i] I_step)
qed

end

locale ranked_system = invariant_system +
  fixes rank :: "'s \<Rightarrow> nat"
  assumes rank_step: "I s \<Longrightarrow> step s s' \<Longrightarrow> rank s' < rank s"
begin

lemma run_bounded: "I s \<Longrightarrow> (step ^^ k) s s' \<Longrightarrow> k + rank s' \<le> rank s"
proof (induction k arbitrary: s')
  case (Suc k)
  from Suc.prems(2) obtain t where t: "(step ^^ k) s t" "step t s'" by auto
  have "step\<^sup>*\<^sup>* s t" using t(1) by (rule relpowp_imp_rtranclp)
  then have "I t" using Suc.prems(1) by (induction rule: rtranclp_induct) (auto intro: I_step)
  then have "rank s' < rank t" using t(2) by (rule rank_step)
  then show ?case using Suc.IH [OF Suc.prems(1) t(1)] by simp
qed simp

lemma reaches_final: "I s \<Longrightarrow> \<exists>t. step\<^sup>*\<^sup>* s t \<and> (\<forall>u. \<not> step t u)"
proof (induction "rank s" arbitrary: s rule: less_induct)
  case less
  show ?case
  proof (cases "\<exists>u. step s u")
    case True
    then obtain u where u: "step s u" by blast
    from less.hyps [OF rank_step [OF less.prems u] I_step [OF less.prems u]] u
    show ?thesis by (meson converse_rtranclp_into_rtranclp)
  qed blast
qed

end

end
