(* ===== verification/Endpoints.thy ===== *)
theory Endpoints
  imports Ordered_Map Systems
begin

text \<open>
  Endpoint resolution and selection (\<open>src/endpoints.rs\<close>): the weighted list, the selector
  with its round-robin cursor, in-flight counters and ejection deadlines, host names, the
  redaction of URLs and the validation of endpoint URLs. The URL parser and the YAML parser are
  parameters; the clock is an argument. Counters are 64-bit words.
\<close>

type_synonym endpoint = "ustr \<times> ustr \<times> ustr"

record endpoint_config =
  ec_url :: ustr
  ec_api_key :: ustr
  ec_name :: "ustr option"
  ec_weight :: "nat option"

datatype resolved_endpoints =
    Single ustr ustr ustr
  | Multi "endpoint list" "(ustr \<times> nat) list"

fun endpoint_names_for_display :: "resolved_endpoints \<Rightarrow> (ustr \<times> nat) list" where
  "endpoint_names_for_display (Single url key name) = [(name, 1)]"
| "endpoint_names_for_display (Multi ws names) = names"

fun urls :: "resolved_endpoints \<Rightarrow> ustr list" where
  "urls (Single url key name) = [url]"
| "urls (Multi ws names) =
     foldl (\<lambda>out (url, _, _). if url \<in> set out then out else out @ [url]) [] ws"

definition DEFAULT_CONNECT_EJECT_BACKOFF :: duration where
  "DEFAULT_CONNECT_EJECT_BACKOFF = 5 * 1000000000"

subsection \<open>The selector\<close>

datatype load_balancer = RoundRobin | LeastInflight

record selector =
  sel_next :: "64 word"
  sel_inflight :: "(ustr, 64 word) btree"
  ejected_until :: "(ustr, nat option) btree"
  eject_backoff :: duration

definition with_eject_backoff :: "resolved_endpoints \<Rightarrow> duration \<Rightarrow> selector" where
  "with_eject_backoff eps backoff =
     (let names = endpoint_names_for_display eps in
      \<lparr>sel_next = 0,
       sel_inflight = fold (\<lambda>(name, _) m. bt_insert name 0 m) names [],
       ejected_until = fold (\<lambda>(name, _) m. bt_insert name None m) names [],
       eject_backoff = backoff\<rparr>)"

definition selector_new :: "resolved_endpoints \<Rightarrow> selector" where
  "selector_new eps = with_eject_backoff eps DEFAULT_CONNECT_EJECT_BACKOFF"

text \<open>The largest \<open>Instant\<close> in nanoseconds: 63 bits of seconds.\<close>

definition INSTANT_MAX :: nat where
  "INSTANT_MAX = (2 ^ 63 - 1) * 1000000000 + 999999999"

text \<open>
  The first component tells of a panic: \<open>Instant::now() + eject_backoff\<close> overflows while the lock of
  the slot is held. The poisoned slot is then neither read nor written again, like an absent one.
\<close>

definition note_connect_failure :: "nat \<Rightarrow> ustr \<Rightarrow> selector \<Rightarrow> bool \<times> selector" where
  "note_connect_failure now name s =
     (case bt_get (ejected_until s) name of
        Some _ \<Rightarrow>
          if INSTANT_MAX < now + eject_backoff s
          then (True, s\<lparr>ejected_until := bt_remove name (ejected_until s)\<rparr>)
          else (False, s\<lparr>ejected_until := bt_insert name (Some (now + eject_backoff s)) (ejected_until s)\<rparr>)
      | None \<Rightarrow> (False, s))"

definition is_ejected :: "nat \<Rightarrow> selector \<Rightarrow> ustr \<Rightarrow> bool" where
  "is_ejected now s name =
     (case bt_get (ejected_until s) name of Some (Some until) \<Rightarrow> now < until | _ \<Rightarrow> False)"

fun choices :: "resolved_endpoints \<Rightarrow> endpoint list" where
  "choices (Single url key name) = [(url, key, name)]"
| "choices (Multi ws names) = ws"

definition select_key :: "nat \<Rightarrow> selector \<Rightarrow> endpoint \<Rightarrow> nat \<times> nat" where
  "select_key now s c =
     (of_bool (is_ejected now s (snd (snd c))),
      case bt_get (sel_inflight s) (snd (snd c)) of Some n \<Rightarrow> unat n | None \<Rightarrow> 2 ^ 64 - 1)"

definition key_less :: "nat \<times> nat \<Rightarrow> nat \<times> nat \<Rightarrow> bool" where
  "key_less a b \<longleftrightarrow> fst a < fst b \<or> fst a = fst b \<and> snd a < snd b"

text \<open>\<open>min_by_key\<close> keeps the first of equal minima.\<close>

fun min_index :: "(nat \<times> nat) list \<Rightarrow> nat" where
  "min_index [] = 0"
| "min_index [k] = 0"
| "min_index (k # ks) = (let i = min_index ks in if key_less (ks ! i) k then Suc i else 0)"

definition select_index :: "nat \<Rightarrow> load_balancer \<Rightarrow> endpoint list \<Rightarrow> selector \<Rightarrow> nat \<times> selector" where
  "select_index now strategy cs s =
     (case strategy of
        RoundRobin \<Rightarrow> (unat (sel_next s) mod length cs, s\<lparr>sel_next := sel_next s + 1\<rparr>)
      | LeastInflight \<Rightarrow> (min_index (map (select_key now s) cs), s))"

text \<open>\<open>None\<close> is a panic: no endpoint to index, or a name without a counter.\<close>

definition select :: "nat \<Rightarrow> resolved_endpoints \<Rightarrow> load_balancer \<Rightarrow> selector \<Rightarrow> (endpoint \<times> selector) option" where
  "select now eps strategy s =
     (let cs = choices eps in
      if cs = [] then None
      else let (i, s1) = select_index now strategy cs s; c = cs ! i in
        case bt_get (sel_inflight s1) (snd (snd c)) of
          None \<Rightarrow> None
        | Some n \<Rightarrow> Some (c, s1\<lparr>sel_inflight := bt_insert (snd (snd c)) (n + 1) (sel_inflight s1)\<rparr>))"

text \<open>Dropping a lease decrements its endpoint's counter.\<close>

definition drop_lease :: "ustr \<Rightarrow> selector \<Rightarrow> selector" where
  "drop_lease name s =
     (case bt_get (sel_inflight s) name of
        Some n \<Rightarrow> s\<lparr>sel_inflight := bt_insert name (n - 1) (sel_inflight s)\<rparr>
      | None \<Rightarrow> s)"

subsection \<open>Names and redaction\<close>

definition hostname_from_url :: "ustr \<Rightarrow> ustr" where
  "hostname_from_url url =
     hd (split_on 47 (unwrap_or (option_or (strip_prefix (lit ''https://'') url)
       (strip_prefix (lit ''http://'') url)) url))"

definition position_of :: "nat \<Rightarrow> ustr \<Rightarrow> nat option" where
  "position_of c s = find_sub [c] s"

definition redact_pair :: "ustr \<Rightarrow> ustr" where
  "redact_pair p =
     (case split_once 61 p of
        Some (k, _) \<Rightarrow> if k \<noteq> [] then k @ lit ''=REDACTED'' else p
      | None \<Rightarrow> p)"

definition redact_userinfo :: "ustr \<Rightarrow> ustr" where
  "redact_userinfo out =
     (let auth_start = (case find_sub (lit ''://'') out of Some i \<Rightarrow> i + 3 | None \<Rightarrow> 0);
          first_sep = (case position_of 47 (drop auth_start out) of
              Some i \<Rightarrow> auth_start + i | None \<Rightarrow> length out)
      in case position_of 64 (drop auth_start out) of
           Some a \<Rightarrow>
             if auth_start + a < first_sep
             then take auth_start out @ lit ''REDACTED'' @ drop (auth_start + a) out else out
         | None \<Rightarrow> out)"

definition redact_query :: "ustr \<Rightarrow> ustr" where
  "redact_query out =
     (case position_of 63 out of
        Some q \<Rightarrow> take q out @ join [38] (map redact_pair (split_on 38 (drop q out)))
      | None \<Rightarrow> out)"

definition redact_url_string_level :: "ustr \<Rightarrow> ustr" where
  "redact_url_string_level trimmed = redact_query (redact_userinfo trimmed)"

record 'u url_ops =
  url_parse :: "ustr \<Rightarrow> 'u option"
  url_has_authority :: "'u \<Rightarrow> bool"
  url_username :: "'u \<Rightarrow> ustr"
  url_set_username :: "ustr \<Rightarrow> 'u \<Rightarrow> 'u"
  url_clear_password :: "'u \<Rightarrow> 'u"
  url_query_keys :: "'u \<Rightarrow> ustr list option"
  url_set_query :: "ustr \<Rightarrow> 'u \<Rightarrow> 'u"
  url_to_string :: "'u \<Rightarrow> ustr"
  url_scheme :: "'u \<Rightarrow> ustr"
  url_host :: "'u \<Rightarrow> ustr option"

definition redact_url :: "'u url_ops \<Rightarrow> ustr \<Rightarrow> ustr" where
  "redact_url ops raw =
     (let trimmed = trim raw in
      case option_filter (url_has_authority ops) (url_parse ops trimmed) of
        Some url \<Rightarrow>
          let u1 = (if url_username ops url \<noteq> [] then url_set_username ops (lit ''REDACTED'') url else url);
              u2 = url_clear_password ops u1;
              u3 = (case url_query_keys ops u2 of
                      Some ks \<Rightarrow> url_set_query ops (join [38] (map (\<lambda>k. k @ lit ''=REDACTED'') ks)) u2
                    | None \<Rightarrow> u2)
          in url_to_string ops u3
      | None \<Rightarrow> redact_url_string_level trimmed)"

text \<open>An error carries its URL, if any.\<close>

definition redact_reqwest_error :: "'u url_ops \<Rightarrow> ustr \<Rightarrow> ustr option \<Rightarrow> ustr" where
  "redact_reqwest_error ops txt url =
     (case url of
        Some raw \<Rightarrow> replace_all raw (redact_url ops raw) txt
      | None \<Rightarrow> txt)"

lemma redact_second_at:
  "redact_url_string_level (lit ''u:p@ss@h/x'') = lit ''REDACTED@ss@h/x''"
  by code_simp

subsection \<open>Resolution\<close>

datatype url_error = EmptyUrl | InvalidUrl ustr | NotHttp ustr ustr | NoHost ustr

definition validate_endpoint_url :: "'u url_ops \<Rightarrow> ustr \<Rightarrow> url_error + unit" where
  "validate_endpoint_url ops raw =
     (let url = trim raw in
      if url = [] then Inl EmptyUrl
      else case url_parse ops url of
        None \<Rightarrow> Inl (InvalidUrl (redact_url ops url))
      | Some parsed \<Rightarrow>
          if url_scheme ops parsed \<noteq> lit ''http'' \<and> url_scheme ops parsed \<noteq> lit ''https''
          then Inl (NotHttp (redact_url ops url) (url_scheme ops parsed))
          else if (case url_host ops parsed of None \<Rightarrow> True | Some h \<Rightarrow> h = [])
          then Inl (NoHost (redact_url ops url)) else Inr ())"

datatype resolve_error =
    UnreadableFile
  | InvalidYaml
  | NoEndpoints
  | EmptyEndpointUrl
  | BadEndpointUrl url_error
  | EmptyApiKey
  | NeitherMode
  | BothModes

definition resolve_config :: "'u url_ops \<Rightarrow> endpoint_config \<Rightarrow> resolve_error + (endpoint \<times> nat)" where
  "resolve_config ops c =
     (let url = trim (ec_url c); key = trim (ec_api_key c) in
      if url = [] then Inl EmptyEndpointUrl
      else case validate_endpoint_url ops url of
        Inl e \<Rightarrow> Inl (BadEndpointUrl e)
      | Inr _ \<Rightarrow>
          if key = [] then Inl EmptyApiKey
          else Inr ((url, key, unwrap_or (option_filter (\<lambda>s. s \<noteq> []) (ec_name c)) (hostname_from_url url)),
                    max (unwrap_or (ec_weight c) 1) 1))"

fun resolve_configs :: "'u url_ops \<Rightarrow> endpoint_config list \<Rightarrow> resolve_error + (endpoint \<times> nat) list" where
  "resolve_configs ops [] = Inr []"
| "resolve_configs ops (c # cs) =
     (case resolve_config ops c of
        Inl e \<Rightarrow> Inl e
      | Inr r \<Rightarrow> (case resolve_configs ops cs of Inl e \<Rightarrow> Inl e | Inr rs \<Rightarrow> Inr (r # rs)))"

text \<open>The file: unreadable, no valid YAML, or a list of entries.\<close>

definition load_endpoints_file ::
  "'u url_ops \<Rightarrow> endpoint_config list option option \<Rightarrow>
     resolve_error + (endpoint list \<times> (ustr \<times> nat) list)" where
  "load_endpoints_file ops file =
     (case file of
        None \<Rightarrow> Inl UnreadableFile
      | Some None \<Rightarrow> Inl InvalidYaml
      | Some (Some configs) \<Rightarrow>
          if configs = [] then Inl NoEndpoints
          else case resolve_configs ops configs of
            Inl e \<Rightarrow> Inl e
          | Inr rs \<Rightarrow> Inr (concat (map (\<lambda>(e, w). replicate w e) rs), map (\<lambda>((u, k, n), w). (n, w)) rs))"

definition resolve_endpoints ::
  "'u url_ops \<Rightarrow> ustr option \<Rightarrow> ustr option \<Rightarrow> endpoint_config list option option option \<Rightarrow>
     resolve_error + resolved_endpoints" where
  "resolve_endpoints ops url key file =
     (case (url, key, file) of
        (Some u, Some k, None) \<Rightarrow>
          (case validate_endpoint_url ops u of
             Inl e \<Rightarrow> Inl (BadEndpointUrl e)
           | Inr _ \<Rightarrow> Inr (Single u k (hostname_from_url u)))
      | (None, None, Some f) \<Rightarrow>
          (case load_endpoints_file ops f of
             Inl e \<Rightarrow> Inl e
           | Inr (ws, names) \<Rightarrow> Inr (Multi ws names))
      | (None, None, None) \<Rightarrow> Inl NeitherMode
      | _ \<Rightarrow> Inl BothModes)"

subsection \<open>Least in flight\<close>

lemma key_less_trans: "key_less a b \<Longrightarrow> \<not> key_less c b \<Longrightarrow> \<not> key_less c a"
  by (auto simp: key_less_def)

lemma min_index_least:
  "ks \<noteq> [] \<Longrightarrow> min_index ks < length ks \<and> (\<forall>k \<in> set ks. \<not> key_less k (ks ! min_index ks))"
proof (induction ks rule: min_index.induct)
  case (3 k k' ks)
  let ?i = "min_index (k' # ks)"
  have IH: "?i < length (k' # ks)" "\<forall>x \<in> set (k' # ks). \<not> key_less x ((k' # ks) ! ?i)" using 3 by auto
  show ?case
  proof (cases "key_less ((k' # ks) ! ?i) k")
    case True
    then show ?thesis using IH by (auto simp: Let_def key_less_def)
  next
    case False
    then have "\<forall>x \<in> set (k' # ks). \<not> key_less x k"
      using IH(2) by (auto simp: key_less_def)
    then show ?thesis using False by (auto simp: Let_def key_less_def)
  qed
qed (auto simp: key_less_def)

subsection \<open>Leases\<close>

definition endpoints_wf :: "resolved_endpoints \<Rightarrow> bool" where
  "endpoints_wf eps \<longleftrightarrow> choices eps \<noteq> [] \<and>
     (\<forall>c \<in> set (choices eps). snd (snd c) \<in> fst ` set (endpoint_names_for_display eps))"

text \<open>A run of the selector: leases are the names of the requests in flight.\<close>

inductive lease_step ::
  "resolved_endpoints \<Rightarrow> selector \<times> ustr list \<Rightarrow> selector \<times> ustr list \<Rightarrow> bool" for eps where
  take_lease: "select now eps strategy s = Some (c, s') \<Longrightarrow> lease_step eps (s, ls) (s', snd (snd c) # ls)"
| end_lease: "name \<in> set ls \<Longrightarrow> lease_step eps (s, ls) (drop_lease name s, remove1 name ls)"
| connect_failed: "lease_step eps (s, ls) (snd (note_connect_failure now name s), ls)"

definition lease_init :: "resolved_endpoints \<Rightarrow> selector \<times> ustr list \<Rightarrow> bool" where
  "lease_init eps st \<longleftrightarrow> endpoints_wf eps \<and> (\<exists>backoff. st = (with_eject_backoff eps backoff, []))"

definition lease_inv :: "resolved_endpoints \<Rightarrow> selector \<times> ustr list \<Rightarrow> bool" where
  "lease_inv eps st \<longleftrightarrow> endpoints_wf eps \<and>
     (\<forall>name. bt_get (sel_inflight (fst st)) name =
        (if name \<in> fst ` set (endpoint_names_for_display eps)
         then Some (of_nat (count_list (snd st) name)) else None)) \<and>
     set (snd st) \<subseteq> fst ` set (endpoint_names_for_display eps)"

lemma bt_get_fold_const:
  "bt_get (fold (\<lambda>(name, _) m. bt_insert name v m) ns m) k =
     (if k \<in> fst ` set ns then Some v else bt_get m k)"
  by (induction ns arbitrary: m) (auto simp: bt_get_insert)

lemma select_index_bound: "cs \<noteq> [] \<Longrightarrow> fst (select_index now strategy cs s) < length cs"
  using min_index_least [of "map (select_key now s) cs"]
  by (cases strategy) (auto simp: select_index_def)

lemma select_index_frame [simp]:
  "sel_inflight (snd (select_index now strategy cs s)) = sel_inflight s"
  by (cases strategy) (simp_all add: select_index_def)

lemma select_Some:
  assumes "lease_inv eps (s, ls)"
  obtains i c s1 where "select_index now strategy (choices eps) s = (i, s1)" "i < length (choices eps)"
    "c = choices eps ! i" "snd (snd c) \<in> fst ` set (endpoint_names_for_display eps)"
    "select now eps strategy s = Some (c, s1\<lparr>sel_inflight :=
       bt_insert (snd (snd c)) (of_nat (count_list ls (snd (snd c))) + 1) (sel_inflight s)\<rparr>)"
proof -
  obtain i s1 where i: "select_index now strategy (choices eps) s = (i, s1)"
    by (cases "select_index now strategy (choices eps) s")
  have wf: "endpoints_wf eps" using assms by (simp add: lease_inv_def)
  then have lt: "i < length (choices eps)"
    using select_index_bound [of "choices eps" now strategy s] i by (simp add: endpoints_wf_def)
  let ?c = "choices eps ! i"
  have n: "snd (snd ?c) \<in> fst ` set (endpoint_names_for_display eps)"
    using wf lt by (simp add: endpoints_wf_def)
  have "sel_inflight s1 = sel_inflight s" using select_index_frame [of now strategy "choices eps" s] i by simp
  then have "select now eps strategy s = Some (?c, s1\<lparr>sel_inflight :=
       bt_insert (snd (snd ?c)) (of_nat (count_list ls (snd (snd ?c))) + 1) (sel_inflight s)\<rparr>)"
    using i wf n assms by (simp add: select_def Let_def endpoints_wf_def lease_inv_def)
  then show ?thesis using that i lt n by blast
qed

lemma count_list_remove1: "count_list (remove1 x xs) y = count_list xs y - of_bool (x = y)"
  by (induction xs) (auto simp: count_list_0_iff)

lemma lease_inv_step:
  assumes inv: "lease_inv eps st" and step: "lease_step eps st st'"
  shows "lease_inv eps st'"
  using step
proof (cases rule: lease_step.cases)
  case (take_lease now strategy s c s' ls)
  have i: "lease_inv eps (s, ls)" using inv take_lease by simp
  show ?thesis
  proof (rule select_Some [OF i, of now strategy])
    fix k c' s1
    assume "snd (snd c') \<in> fst ` set (endpoint_names_for_display eps)"
      and "select now eps strategy s = Some (c', s1\<lparr>sel_inflight :=
        bt_insert (snd (snd c')) (of_nat (count_list ls (snd (snd c'))) + 1) (sel_inflight s)\<rparr>)"
    then show ?thesis using take_lease i by (auto simp: lease_inv_def bt_get_insert add.commute)
  qed
next
  case (end_lease name ls s)
  have i: "lease_inv eps (s, ls)" using inv end_lease by simp
  have n: "name \<in> fst ` set (endpoint_names_for_display eps)" using i end_lease by (auto simp: lease_inv_def)
  have pos: "1 \<le> count_list ls name" using end_lease by (metis count_list_0_iff less_one not_le)
  have "(of_nat (count_list ls name) :: 64 word) - 1 = of_nat (count_list ls name - 1)"
    using pos by (simp add: of_nat_diff)
  then show ?thesis
    using i n end_lease notin_set_remove1
    by (auto simp: lease_inv_def drop_lease_def bt_get_insert count_list_remove1 dest: set_mp [OF set_remove1_subset])
next
  case (connect_failed s ls now name)
  have "sel_inflight (snd (note_connect_failure now name s)) = sel_inflight s"
    by (simp add: note_connect_failure_def split: option.splits)
  then show ?thesis using inv connect_failed by (simp add: lease_inv_def)
qed

lemma lease_inv_init: "lease_init eps st \<Longrightarrow> lease_inv eps st"
  unfolding lease_init_def lease_inv_def with_eject_backoff_def Let_def
  by (elim conjE exE) (simp add: bt_get_fold_const btree.get_emp)

interpretation leases: invariant_system "lease_init eps" "lease_step eps" "lease_inv eps" for eps
  by unfold_locales (fact lease_inv_init lease_inv_step)+

lemma resolve_configs_names:
  "resolve_configs ops cs = Inr rs \<Longrightarrow> length rs = length cs \<and> (\<forall>(e, w) \<in> set rs. 1 \<le> w)"
  by (induction cs arbitrary: rs)
     (auto simp: resolve_config_def Let_def split: sum.splits if_splits)

lemma resolve_endpoints_wf:
  assumes "resolve_endpoints ops url key file = Inr eps" shows "endpoints_wf eps"
proof (cases eps)
  case (Multi ws names)
  then obtain configs rs where c: "configs \<noteq> []" "resolve_configs ops configs = Inr rs"
    "ws = concat (map (\<lambda>(e, w). replicate w e) rs)" "names = map (\<lambda>((u, k, n), w). (n, w)) rs"
    using assms by (auto simp: resolve_endpoints_def load_endpoints_file_def
        split: option.splits sum.splits if_splits prod.splits)
  note r = resolve_configs_names [OF c(2)]
  have "rs \<noteq> []" using r c(1) by auto
  then obtain e w where "(e, w) \<in> set rs" "1 \<le> w" using r by (cases rs) auto
  then have "e \<in> set ws" using c(3) by (cases e) (auto intro!: bexI [of _ "(e, w)"])
  moreover have "\<forall>x \<in> set ws. snd (snd x) \<in> fst ` set names" using c(3,4) by force
  ultimately show ?thesis using Multi by (auto simp: endpoints_wf_def)
qed (simp add: endpoints_wf_def)

subsection \<open>Round robin\<close>

text \<open>The endpoints handed out by \<open>m\<close> round-robin selections in a row.\<close>

fun round_robin :: "nat \<Rightarrow> resolved_endpoints \<Rightarrow> selector \<Rightarrow> endpoint list option" where
  "round_robin 0 eps s = Some []"
| "round_robin (Suc m) eps s =
     (case select 0 eps RoundRobin s of
        None \<Rightarrow> None
      | Some (c, s') \<Rightarrow> map_option (Cons c) (round_robin m eps s'))"

lemma round_robin_eq:
  assumes "lease_inv eps (s, ls)" "unat (sel_next s) + m < 2 ^ 64"
  shows "round_robin m eps s =
    Some (map (\<lambda>j. choices eps ! ((unat (sel_next s) + j) mod length (choices eps))) [0..<m])"
  using assms
proof (induction m arbitrary: s ls)
  case (Suc m)
  show ?case
  proof (rule select_Some [OF Suc.prems(1), of 0 RoundRobin])
    fix i c s1
    assume i: "select_index 0 RoundRobin (choices eps) s = (i, s1)" and c: "c = choices eps ! i"
      and sel: "select 0 eps RoundRobin s = Some (c, s1\<lparr>sel_inflight :=
        bt_insert (snd (snd c)) (of_nat (count_list ls (snd (snd c))) + 1) (sel_inflight s)\<rparr>)"
    let ?s = "s1\<lparr>sel_inflight :=
        bt_insert (snd (snd c)) (of_nat (count_list ls (snd (snd c))) + 1) (sel_inflight s)\<rparr>"
    have inv: "lease_inv eps (?s, snd (snd c) # ls)"
      using lease_inv_step [OF Suc.prems(1) lease_step.take_lease [OF sel]] .
    have nx: "sel_next ?s = sel_next s + 1" "i = unat (sel_next s) mod length (choices eps)"
      using i by (auto simp: select_index_def)
    have u: "unat (sel_next ?s) = unat (sel_next s) + 1"
      unfolding nx(1) using Suc.prems(2) by (simp add: unat_word_ariths(1))
    have "round_robin m eps ?s =
        Some (map (\<lambda>j. choices eps ! ((unat (sel_next s) + 1 + j) mod length (choices eps))) [0..<m])"
      using Suc.IH [OF inv] Suc.prems(2) unfolding u by simp
    then show ?thesis
      using sel c nx(2) by (simp add: upt_conv_Cons map_Suc_upt [symmetric] comp_def del: upt_Suc)
  qed
qed simp

lemma count_list_rotate: "count_list (rotate k xs) c = count_list xs c"
proof (induction k)
  case (Suc k)
  have "count_list (rotate1 ys) c = count_list ys c" for ys by (cases ys) auto
  then show ?case using Suc by (simp add: rotate_def)
qed simp

lemma map_mod_rotate: "map (\<lambda>j. xs ! ((k + j) mod length xs)) [0..<length xs] = rotate k xs"
  by (rule nth_equalityI) (simp_all add: nth_rotate add.commute)

subsection \<open>Properties\<close>

text \<open>
C32: For every endpoint list that resolution accepts, no selection panics and the selector's in-flight
counters are exactly the leases that are out: in any state reached by selections with either
strategy, dropped leases and connect failures (those whose deadline overflows the clock and panic
included), the next selection succeeds and each endpoint's counter is the number of its outstanding
requests, as a 64-bit count.
\<close>

theorem selector_counts_leases:
  assumes "resolve_endpoints ops url key file = Inr eps"
    and "(lease_step eps)\<^sup>*\<^sup>* (with_eject_backoff eps backoff, []) (s, leases)"
  shows "select now eps strategy s \<noteq> None \<and>
    (\<forall>c \<in> set (choices eps).
       bt_get (sel_inflight s) (snd (snd c)) = Some (of_nat (count_list leases (snd (snd c)))))"
proof -
  have "lease_init eps (with_eject_backoff eps backoff, [])"
    using resolve_endpoints_wf [OF assms(1)] by (auto simp: lease_init_def)
  then have inv: "lease_inv eps (s, leases)" using assms(2) by (rule leases.I_reach)
  have "select now eps strategy s \<noteq> None" by (rule select_Some [OF inv, of now strategy]) simp
  then show ?thesis using inv by (auto simp: lease_inv_def endpoints_wf_def)
qed

definition demo_urls :: "unit url_ops" where
  "demo_urls =
     \<lparr>url_parse = (\<lambda>_. Some ()), url_has_authority = (\<lambda>_. True), url_username = (\<lambda>_. []),
      url_set_username = (\<lambda>_ u. u), url_clear_password = id, url_query_keys = (\<lambda>_. None),
      url_set_query = (\<lambda>_ u. u), url_to_string = (\<lambda>_. []), url_scheme = (\<lambda>_. lit ''https''),
      url_host = (\<lambda>_. Some (lit ''h''))\<rparr>"

definition demo_config :: "nat \<Rightarrow> nat \<Rightarrow> endpoint_config" where
  "demo_config n w = \<lparr>ec_url = [104, n], ec_api_key = [107], ec_name = Some [n], ec_weight = Some w\<rparr>"

definition demo_eps :: resolved_endpoints where
  "demo_eps = Multi [([104, 97], [107], [97]), ([104, 97], [107], [97]), ([104, 98], [107], [98])]
     [([97], 2), ([98], 1)]"

lemma demo_resolves:
  "resolve_endpoints demo_urls None None (Some (Some (Some [demo_config 97 2, demo_config 98 0]))) = Inr demo_eps"
  by code_simp

theorem selector_counts_leases_witness:
  "select 7 demo_eps LeastInflight (with_eject_backoff demo_eps 5) \<noteq> None"
  using selector_counts_leases [OF demo_resolves rtranclp.rtrancl_refl] by blast

text \<open>
Round robin is fair by weight: from any reachable state, as many selections in a row as the
weighted list is long hand out that list, rotated to the cursor, so every endpoint gets exactly
its weight (up to the wrap of the 64-bit cursor).
\<close>

lemma round_robin_fair:
  assumes "resolve_endpoints ops url key file = Inr eps"
    and "(lease_step eps)\<^sup>*\<^sup>* (with_eject_backoff eps backoff, []) (s, leases)"
    and "unat (sel_next s) + length (choices eps) < 2 ^ 64"
  shows "round_robin (length (choices eps)) eps s = Some (rotate (unat (sel_next s)) (choices eps)) \<and>
    map_option (\<lambda>cs. count_list cs c) (round_robin (length (choices eps)) eps s) =
      Some (count_list (choices eps) c)"
proof -
  have "lease_init eps (with_eject_backoff eps backoff, [])"
    using resolve_endpoints_wf [OF assms(1)] by (auto simp: lease_init_def)
  then have inv: "lease_inv eps (s, leases)" using assms(2) by (rule leases.I_reach)
  have r: "round_robin (length (choices eps)) eps s = Some (rotate (unat (sel_next s)) (choices eps))"
    using round_robin_eq [OF inv assms(3)] by (simp add: map_mod_rotate)
  have "count_list (rotate (unat (sel_next s)) (choices eps)) c = count_list (choices eps) c"
    by (rule count_list_rotate)
  then show ?thesis using r by simp
qed

lemma round_robin_fair_example:
  "map_option (\<lambda>cs. count_list cs ([104, 97], [107], [97])) (round_robin 3 demo_eps (with_eject_backoff demo_eps 5)) =
     Some (count_list (choices demo_eps) ([104, 97], [107], [97]))"
proof -
  let ?s = "with_eject_backoff demo_eps 5"
  have l: "length (choices demo_eps) = 3" "unat (sel_next ?s) = 0"
    by (simp_all add: demo_eps_def with_eject_backoff_def Let_def)
  then have "unat (sel_next ?s) + length (choices demo_eps) < 2 ^ 64" by simp
  from round_robin_fair [OF demo_resolves rtranclp.rtrancl_refl this] show ?thesis unfolding l by blast
qed

text \<open>
The least-in-flight strategy prefers healthy endpoints and, among those, the least loaded:
the chosen endpoint is ejected only if all are, and no endpoint in the same state has fewer
requests in flight. An ejection lasts exactly for the backoff after the failure.
\<close>

lemma least_inflight_prefers_healthy:
  assumes "select now eps LeastInflight s = Some (c, s')" "d \<in> set (choices eps)"
  shows "c \<in> set (choices eps) \<and>
    (is_ejected now s (snd (snd c)) \<longrightarrow> is_ejected now s (snd (snd d))) \<and>
    (is_ejected now s (snd (snd c)) = is_ejected now s (snd (snd d)) \<longrightarrow>
       snd (select_key now s c) \<le> snd (select_key now s d)) \<and>
    (bt_get (ejected_until s) (snd (snd c)) \<noteq> None \<and> now + eject_backoff s \<le> INSTANT_MAX \<longrightarrow>
       is_ejected t (snd (note_connect_failure now (snd (snd c)) s)) (snd (snd c)) = (t < now + eject_backoff s))"
proof -
  let ?ks = "map (select_key now s) (choices eps)"
  have ne: "choices eps \<noteq> []" using assms(2) by auto
  then have m: "min_index ?ks < length (choices eps)"
    "\<forall>k \<in> set ?ks. \<not> key_less k (?ks ! min_index ?ks)" using min_index_least [of ?ks] by auto
  have c: "c = choices eps ! min_index ?ks"
    using assms(1) ne by (auto simp: select_def select_index_def Let_def split: option.splits)
  then have "\<not> key_less (select_key now s d) (select_key now s c)" using m assms(2) by simp
  then show ?thesis
    using c m(1) by (auto simp: key_less_def select_key_def note_connect_failure_def is_ejected_def
        bt_get_insert of_bool_def split: if_splits option.splits)
qed

lemma least_inflight_prefers_healthy_example:
  "\<exists>c s'. select 7 demo_eps LeastInflight (with_eject_backoff demo_eps 5) = Some (c, s') \<and> c \<in> set (choices demo_eps)"
proof -
  have "select 7 demo_eps LeastInflight (with_eject_backoff demo_eps 5) \<noteq> None" by code_simp
  then obtain c s' where s: "select 7 demo_eps LeastInflight (with_eject_backoff demo_eps 5) = Some (c, s')"
    by auto
  have "([104, 98], [107], [98]) \<in> set (choices demo_eps)" by (simp add: demo_eps_def)
  from least_inflight_prefers_healthy [OF s this] s show ?thesis by blast
qed

end
