(* ===== verification/Prompt_Sequence.thy ===== *)
theory Prompt_Sequence
  imports Ordered_Map
begin

text \<open>
  Effective prompt sequences and their replay (\<open>src/prompt_sequence.rs\<close>). The SHA-256
  fingerprint, the row parser, the shuffle and the jitter digest are parameters. An index out of
  range is a panic, written \<open>None\<close> or an error of its own. The prompts a run uses and the slots it
  issues are those of \<open>src/bin/metrum-ai-bench-cli-llm.rs\<close>.
\<close>

record prompt_slot_entry =
  pe_seq :: nat
  prompt_index :: nat
  prompt_sha256_16 :: ustr
  prompt_bytes :: nat
  cohort :: nat

definition slot_index :: "nat \<Rightarrow> nat \<Rightarrow> nat list option \<Rightarrow> nat option" where
  "slot_index seq pool_len prescribed =
     (case prescribed of
        Some order \<Rightarrow> if order = [] then None else Some (order ! (seq mod length order))
      | None \<Rightarrow> if pool_len = 0 then None else Some (seq mod pool_len))"

definition sequence_entry ::
  "(ustr \<Rightarrow> ustr) \<Rightarrow> ustr list \<Rightarrow> nat \<Rightarrow> nat list option \<Rightarrow> nat \<Rightarrow> prompt_slot_entry option" where
  "sequence_entry fingerprint prompts cohort_width prescribed seq =
     (case slot_index seq (length prompts) prescribed of
        None \<Rightarrow> None
      | Some i \<Rightarrow>
          if i < length prompts
          then Some \<lparr>pe_seq = seq, prompt_index = i, prompt_sha256_16 = fingerprint (prompts ! i),
                     prompt_bytes = str_len (prompts ! i), cohort = seq div cohort_width\<rparr>
          else None)"

fun rows_for :: "(nat \<Rightarrow> 'r option) \<Rightarrow> nat list \<Rightarrow> 'r list option" where
  "rows_for f [] = Some []"
| "rows_for f (i # is) =
     (case f i of
        None \<Rightarrow> None
      | Some r \<Rightarrow> map_option (Cons r) (rows_for f is))"

text \<open>The rows written to the log.\<close>

definition write_sequence_log ::
  "(ustr \<Rightarrow> ustr) \<Rightarrow> ustr list \<Rightarrow> nat \<Rightarrow> nat \<Rightarrow> nat list option \<Rightarrow> prompt_slot_entry list option" where
  "write_sequence_log fingerprint prompts num_requests effective_concurrency prescribed =
     rows_for (sequence_entry fingerprint prompts (max effective_concurrency 1) prescribed) [0..<num_requests]"

datatype sequence_error =
    UnreadableSequence
  | BadSequenceLine nat
  | EmptySequence
  | UnknownFingerprint nat ustr
  | EmptyPool
  | IndexOutOfRange nat nat nat

fun parse_rows :: "(ustr \<Rightarrow> 'r option) \<Rightarrow> nat \<Rightarrow> ustr list \<Rightarrow> sequence_error + 'r list" where
  "parse_rows parse n [] = Inr []"
| "parse_rows parse n (l # ls) =
     (case parse l of
        None \<Rightarrow> Inl (BadSequenceLine (n + 1))
      | Some r \<Rightarrow> (case parse_rows parse (n + 1) ls of Inl e \<Rightarrow> Inl e | Inr rs \<Rightarrow> Inr (r # rs)))"

definition load_prescribed_entries ::
  "(ustr \<Rightarrow> prompt_slot_entry option) \<Rightarrow> ustr option \<Rightarrow> sequence_error + prompt_slot_entry list" where
  "load_prescribed_entries parse file =
     (case file of
        None \<Rightarrow> Inl UnreadableSequence
      | Some txt \<Rightarrow>
          (case parse_rows parse 0 (filter (\<lambda>l. trim l \<noteq> []) (str_lines txt)) of
             Inl e \<Rightarrow> Inl e
           | Inr entries \<Rightarrow> if entries = [] then Inl EmptySequence else Inr entries))"

fun check_indices :: "nat \<Rightarrow> nat \<Rightarrow> nat list \<Rightarrow> sequence_error + unit" where
  "check_indices pool_len slot [] = Inr ()"
| "check_indices pool_len slot (i # is) =
     (if pool_len \<le> i then Inl (IndexOutOfRange slot i pool_len) else check_indices pool_len (slot + 1) is)"

definition validate_prescribed_sequence :: "nat list \<Rightarrow> nat \<Rightarrow> sequence_error + unit" where
  "validate_prescribed_sequence order pool_len =
     (if pool_len = 0 then Inl EmptyPool else check_indices pool_len 0 order)"

definition index_by_fingerprint :: "(ustr \<Rightarrow> ustr) \<Rightarrow> ustr list \<Rightarrow> (ustr, nat list) btree" where
  "index_by_fingerprint fingerprint prompts =
     fold (\<lambda>(i, p) m. bt_insert (fingerprint p) (unwrap_or (bt_get m (fingerprint p)) [] @ [i]) m)
       (enumerate 0 prompts) []"

fun resolve_loop ::
  "(ustr, nat list) btree \<Rightarrow> nat \<Rightarrow> (ustr, nat) btree \<Rightarrow> nat \<Rightarrow> prompt_slot_entry list \<Rightarrow>
     sequence_error + nat list" where
  "resolve_loop by_fp pool_len used slot [] = Inr []"
| "resolve_loop by_fp pool_len used slot (e # es) =
     (case bt_get by_fp (prompt_sha256_16 e) of
        Some candidates \<Rightarrow>
          (let seen = unwrap_or (bt_get used (prompt_sha256_16 e)) 0;
               index = candidates ! (seen mod length candidates);
               used' = bt_insert (prompt_sha256_16 e) (seen + 1) used
           in case resolve_loop by_fp pool_len used' (slot + 1) es of
                Inl err \<Rightarrow> Inl err | Inr is \<Rightarrow> Inr (index # is))
      | None \<Rightarrow>
          if prompt_sha256_16 e \<noteq> [] then Inl (UnknownFingerprint slot (prompt_sha256_16 e))
          else (case validate_prescribed_sequence [prompt_index e] pool_len of
                  Inl err \<Rightarrow> Inl err
                | Inr _ \<Rightarrow>
                    (case resolve_loop by_fp pool_len used (slot + 1) es of
                       Inl err \<Rightarrow> Inl err | Inr is \<Rightarrow> Inr (prompt_index e # is))))"

definition resolve_prescribed_order ::
  "(ustr \<Rightarrow> ustr) \<Rightarrow> prompt_slot_entry list \<Rightarrow> ustr list \<Rightarrow> sequence_error + nat list" where
  "resolve_prescribed_order fingerprint entries prompts =
     resolve_loop (index_by_fingerprint fingerprint prompts) (length prompts) [] 0 entries"

definition apply_prescribed_sequence :: "ustr list \<Rightarrow> nat list \<Rightarrow> ustr list" where
  "apply_prescribed_sequence prompts order = map (\<lambda>i. prompts ! i) order"

text \<open>
  The prompts of a run and the order handed to the log: with a sequence file (\<open>Some\<close> its entries or
  its error) the pool is reordered by it, otherwise it is shuffled. Slots cycle over the result.
\<close>

definition run_prompts ::
  "(ustr \<Rightarrow> ustr) \<Rightarrow> (ustr list \<Rightarrow> ustr list) \<Rightarrow> (sequence_error + prompt_slot_entry list) option \<Rightarrow> ustr list \<Rightarrow>
     sequence_error + (ustr list \<times> nat list option)" where
  "run_prompts fingerprint shuffle sequence prompts =
     (case sequence of
        None \<Rightarrow> Inr (shuffle prompts, None)
      | Some (Inl e) \<Rightarrow> Inl e
      | Some (Inr entries) \<Rightarrow>
          (case resolve_prescribed_order fingerprint entries prompts of
             Inl e \<Rightarrow> Inl e
           | Inr order \<Rightarrow> Inr (apply_prescribed_sequence prompts order, Some order)))"

definition issued_prompt :: "ustr list \<Rightarrow> nat \<Rightarrow> ustr option" where
  "issued_prompt prompts i = (if prompts = [] then None else Some (prompts ! (i mod length prompts)))"

record start_jitter =
  max_ms :: nat
  jitter_seed :: "64 word"

text \<open>\<open>draw seed seq\<close> is the 64-bit value taken from the digest of the pair.\<close>

definition delay_ns :: "(64 word \<Rightarrow> nat \<Rightarrow> nat) \<Rightarrow> start_jitter \<Rightarrow> nat \<Rightarrow> nat" where
  "delay_ns draw j seq =
     (if max_ms j = 0 then 0 else draw (jitter_seed j) seq mod min (max_ms j * 1000000) (2 ^ 64 - 1))"

subsection \<open>The fingerprint index\<close>

definition indices_of :: "(ustr \<Rightarrow> ustr) \<Rightarrow> ustr list \<Rightarrow> ustr \<Rightarrow> nat list" where
  "indices_of fingerprint prompts f =
     map fst (filter (\<lambda>(i, p). fingerprint p = f) (enumerate 0 prompts))"

lemma index_fold:
  "bt_get (fold (\<lambda>(i, p) m. bt_insert (fp p) (unwrap_or (bt_get m (fp p)) [] @ [i]) m) ips m) f =
     (let is = map fst (filter (\<lambda>(i, p). fp p = f) ips) in
      if is = [] then bt_get m f else Some (unwrap_or (bt_get m f) [] @ is))"
  by (induction ips arbitrary: m) (auto simp: bt_get_insert Let_def)

lemma index_by_fingerprint_get:
  "bt_get (index_by_fingerprint fp prompts) f =
     (if indices_of fp prompts f = [] then None else Some (indices_of fp prompts f))"
  by (simp add: index_by_fingerprint_def index_fold indices_of_def btree.get_emp Let_def)

lemma indices_of_mem: "i \<in> set (indices_of fp prompts f) \<longleftrightarrow> i < length prompts \<and> fp (prompts ! i) = f"
  by (auto simp: indices_of_def in_set_enumerate_eq image_iff)

lemma resolve_loop_content:
  assumes "\<forall>e \<in> set es. \<exists>p \<in> set prompts. prompt_sha256_16 e = fp p"
  shows "\<exists>order. resolve_loop (index_by_fingerprint fp prompts) n used slot es = Inr order \<and>
    length order = length es \<and>
    (\<forall>k < length es. order ! k < length prompts \<and> fp (prompts ! (order ! k)) = prompt_sha256_16 (es ! k))"
  using assms
proof (induction es arbitrary: used slot)
  case (Cons e es)
  let ?cs = "indices_of fp prompts (prompt_sha256_16 e)"
  obtain p where "p \<in> set prompts" "prompt_sha256_16 e = fp p" using Cons.prems by auto
  then obtain i where "i \<in> set ?cs" using indices_of_mem by (metis in_set_conv_nth)
  then have ne: "?cs \<noteq> []" by auto
  define j where "j = unwrap_or (bt_get used (prompt_sha256_16 e)) 0 mod length ?cs"
  have "?cs ! j \<in> set ?cs" using ne by (simp add: j_def)
  then have j: "?cs ! j < length prompts" "fp (prompts ! (?cs ! j)) = prompt_sha256_16 e"
    by (simp_all add: indices_of_mem)
  let ?used = "bt_insert (prompt_sha256_16 e) (unwrap_or (bt_get used (prompt_sha256_16 e)) 0 + 1) used"
  have "\<forall>e \<in> set es. \<exists>p \<in> set prompts. prompt_sha256_16 e = fp p" using Cons.prems by simp
  from Cons.IH [OF this, of ?used "slot + 1"] obtain order where
    o: "resolve_loop (index_by_fingerprint fp prompts) n ?used (slot + 1) es = Inr order"
    "length order = length es"
    "\<forall>k < length es. order ! k < length prompts \<and> fp (prompts ! (order ! k)) = prompt_sha256_16 (es ! k)"
    by blast
  have "bt_get (index_by_fingerprint fp prompts) (prompt_sha256_16 e) = Some ?cs"
    using ne by (simp add: index_by_fingerprint_get)
  then have "resolve_loop (index_by_fingerprint fp prompts) n used slot (e # es) = Inr (?cs ! j # order)"
    using o(1) by (simp add: Let_def j_def)
  then show ?case
    using o(2,3) j by (intro exI [of _ "?cs ! j # order"]) (auto simp: less_Suc_eq_0_disj)
qed simp

lemma rows_for_Some:
  "rows_for f is = Some rs \<Longrightarrow> length rs = length is \<and> (\<forall>k < length is. f (is ! k) = Some (rs ! k))"
proof (induction "is" arbitrary: rs)
  case (Cons i "is")
  then show ?case by (auto simp: less_Suc_eq_0_disj split: option.splits)
qed simp

lemma rows_for_total: "\<forall>i \<in> set is. f i \<noteq> None \<Longrightarrow> \<exists>rs. rows_for f is = Some rs"
  by (induction "is") auto

text \<open>The prompt a slot is said to use.\<close>

definition used_slot :: "ustr list \<Rightarrow> nat list option \<Rightarrow> nat \<Rightarrow> nat" where
  "used_slot prompts prescribed k =
     (case prescribed of None \<Rightarrow> k mod length prompts | Some order \<Rightarrow> order ! (k mod length order))"

definition order_fits :: "ustr list \<Rightarrow> nat list option \<Rightarrow> bool" where
  "order_fits prompts prescribed \<longleftrightarrow> prompts \<noteq> [] \<and>
     (case prescribed of None \<Rightarrow> True | Some order \<Rightarrow> order \<noteq> [] \<and> list_all (\<lambda>i. i < length prompts) order)"

lemma used_slot_fits: "order_fits prompts prescribed \<Longrightarrow> used_slot prompts prescribed k < length prompts"
  by (auto simp: order_fits_def used_slot_def list_all_length split: option.splits)

lemma sequence_entry_fits:
  "order_fits prompts prescribed \<Longrightarrow> sequence_entry fp prompts width prescribed k =
     (let i = used_slot prompts prescribed k in
      Some \<lparr>pe_seq = k, prompt_index = i, prompt_sha256_16 = fp (prompts ! i),
        prompt_bytes = str_len (prompts ! i), cohort = k div width\<rparr>)"
  using used_slot_fits [of prompts prescribed k]
  by (auto simp: sequence_entry_def slot_index_def used_slot_def order_fits_def Let_def split: option.splits)

lemma sequence_log_rows:
  assumes "order_fits prompts prescribed"
  shows "write_sequence_log fp prompts n conc prescribed = Some (map (\<lambda>k.
      let i = used_slot prompts prescribed k in
      \<lparr>pe_seq = k, prompt_index = i, prompt_sha256_16 = fp (prompts ! i),
       prompt_bytes = str_len (prompts ! i), cohort = k div max conc 1\<rparr>) [0..<n])"
proof -
  have "rows_for (sequence_entry fp prompts (max conc 1) prescribed) is = Some (map (\<lambda>k.
      let i = used_slot prompts prescribed k in
      \<lparr>pe_seq = k, prompt_index = i, prompt_sha256_16 = fp (prompts ! i),
       prompt_bytes = str_len (prompts ! i), cohort = k div max conc 1\<rparr>) is)" for "is"
    by (induction "is") (simp_all add: sequence_entry_fits [OF assms] Let_def)
  then show ?thesis by (simp add: write_sequence_log_def)
qed

subsection \<open>Properties\<close>

text \<open>
C40: A recorded prompt sequence replays exactly, also against a pool in another order. The log of a
non-empty pool, with no prescribed order or with a non-empty one whose indices all lie in that
pool, is written without a panic and names for slot k the prompt at k modulo the pool, or at the
prescribed index. It resolves against every pool with the same prompts, and a run that is given it
issues, slot by slot, the prompts the log names. Fingerprints must tell the prompts apart.
\<close>

theorem prompt_sequence_replays:
  assumes "prompts \<noteq> []" "set pool = set prompts" "inj_on fingerprint (set prompts)"
    and "\<forall>order. prescribed = Some order \<longrightarrow> order \<noteq> [] \<and> (\<forall>i \<in> set order. i < length prompts)"
  defines "named \<equiv> \<lambda>k. prompts ! (case prescribed of None \<Rightarrow> k mod length prompts | Some order \<Rightarrow> order ! (k mod length order))"
  shows "\<exists>entries order. write_sequence_log fingerprint prompts n conc prescribed = Some entries \<and>
    map prompt_sha256_16 entries = map (\<lambda>k. fingerprint (named k)) [0..<n] \<and>
    resolve_prescribed_order fingerprint entries pool = Inr order \<and>
    validate_prescribed_sequence order (length pool) = Inr () \<and>
    run_prompts fingerprint shuffle (Some (Inr entries)) pool = Inr (map named [0..<n], Some order) \<and>
    (\<forall>k < n. issued_prompt (map named [0..<n]) k = Some (named k))"
proof -
  have fits: "order_fits prompts prescribed"
    using assms(1,4) by (auto simp: order_fits_def list_all_iff split: option.splits)
  obtain entries where e: "write_sequence_log fingerprint prompts n conc prescribed = Some entries"
    "map prompt_sha256_16 entries = map (\<lambda>k. fingerprint (named k)) [0..<n]"
    using sequence_log_rows [OF fits, of fingerprint n conc]
    by (auto simp: comp_def Let_def named_def used_slot_def)
  have len: "length entries = n" using arg_cong [OF e(2), of length] by simp
  have fp: "prompt_sha256_16 (entries ! k) = fingerprint (named k)" if "k < n" for k
    using arg_cong [OF e(2), of "\<lambda>xs. xs ! k"] that len by simp
  have mem: "named k \<in> set prompts" for k
    using used_slot_fits [OF fits, of k] by (simp add: named_def used_slot_def)
  have "\<forall>x \<in> set entries. \<exists>p \<in> set pool. prompt_sha256_16 x = fingerprint p"
    using fp mem len assms(2) by (metis in_set_conv_nth)
  then obtain order where o: "resolve_prescribed_order fingerprint entries pool = Inr order"
    "length order = n"
    "\<forall>k < n. order ! k < length pool \<and> fingerprint (pool ! (order ! k)) = prompt_sha256_16 (entries ! k)"
    unfolding resolve_prescribed_order_def using resolve_loop_content len by metis
  have "pool ! (order ! k) = named k" if "k < n" for k
  proof (rule inj_onD [OF assms(3)])
    show "fingerprint (pool ! (order ! k)) = fingerprint (named k)" using o(3) fp that by simp
    show "pool ! (order ! k) \<in> set prompts" using o(3) that assms(2) by (metis nth_mem)
  qed (rule mem)
  then have a: "apply_prescribed_sequence pool order = map named [0..<n]"
    using o(2) by (intro nth_equalityI) (auto simp: apply_prescribed_sequence_def)
  have "check_indices (length pool) m is = Inr ()" if "\<forall>i \<in> set is. i < length pool" for m "is"
    using that by (induction "is" arbitrary: m) auto
  moreover have "\<forall>i \<in> set order. i < length pool" using o by (auto simp: in_set_conv_nth)
  moreover have "pool \<noteq> []" using assms(1,2) by auto
  ultimately have "validate_prescribed_sequence order (length pool) = Inr ()"
    by (simp add: validate_prescribed_sequence_def)
  then show ?thesis using e o(1) a by (auto simp: run_prompts_def issued_prompt_def)
qed

theorem prompt_sequence_replays_witness:
  "\<exists>entries order. write_sequence_log id [[1], [2]] 3 2 (Some [1, 0]) = Some entries \<and>
     run_prompts id rev (Some (Inr entries)) [[2], [1]] = Inr ([[2], [1], [2]], Some order)"
proof -
  have p: "[[1], [2]] \<noteq> ([] :: ustr list)" "set [[2], [1]] = set [[1], [2 :: nat]]"
    "inj_on id (set [[1], [2 :: nat]])"
    "\<forall>order. Some [1, 0] = Some order \<longrightarrow> order \<noteq> [] \<and> (\<forall>i \<in> set order. i < length [[1], [2 :: nat]])" by auto
  from prompt_sequence_replays [OF p, of 3 2 rev] show ?thesis by (auto simp: numeral_3_eq_3)
qed

text \<open>
  The program writes the log of a replaying run from the pool it has already reordered, with the
  same order again. So the log names other prompts than the run issues (the second slot below
  issues the first prompt, the log names the third), and where an index lies beyond the reordered
  pool the run panics before its first request.
\<close>

definition demo_entry :: "ustr \<Rightarrow> prompt_slot_entry" where
  "demo_entry fp = \<lparr>pe_seq = 0, prompt_index = 0, prompt_sha256_16 = fp, prompt_bytes = 1, cohort = 0\<rparr>"

lemma replayed_log_names_other_prompts:
  "run_prompts id rev (Some (Inr (map demo_entry [[3], [1], [2]]))) [[1], [2], [3]] = Inr ([[3], [1], [2]], Some [2, 0, 1]) \<and>
   map (issued_prompt [[3], [1], [2]]) [0, 1, 2] = [Some [3], Some [1], Some [2]] \<and>
   map_option (map prompt_sha256_16) (write_sequence_log id [[3], [1], [2]] 3 1 (Some [2, 0, 1])) = Some [[2], [3], [1]]"
  by code_simp

lemma replayed_log_panics:
  "run_prompts id rev (Some (Inr [demo_entry [3]])) [[1], [2], [3]] = Inr ([[3]], Some [2]) \<and>
   write_sequence_log id [[3]] 1 1 (Some [2]) = None"
  by code_simp

end
