(* ===== verification/Concurrency.thy ===== *)
theory Concurrency
  imports Stats Systems
begin

text \<open>
  The outstanding-request cap (\<open>src/concurrency.rs\<close>): the in-flight gauge
  \<open>InFlightTracker\<close> with its 64-bit atomics, the slot that pairs a gauge entry with a
  permit, and the acquire path. Request tasks run concurrently, so the operations are also
  given as their atomic actions, and \<open>slot_step\<close> interleaves the actions of any number of
  tasks. The semaphore belongs to the runtime: it is the parameter \<open>sem_ops\<close>, and
  \<open>semaphore_ok\<close> states what is documented of it.
\<close>

subsection \<open>The gauge\<close>

record tracker =
  t_current :: "64 word"
  t_max :: "64 word"
  t_samples :: "f64 list"
  t_acquires :: "64 word"
  t_waits :: "64 word"
  t_cap :: nat

record observed_concurrency =
  oc_cap :: nat
  in_flight_mean :: "f64 option"
  in_flight_p50 :: "f64 option"
  in_flight_max :: "f64 option"
  cap_engagement_fraction :: "f64 option"
  acquire_count :: "64 word"
  wait_count :: "64 word"

definition tracker_new :: "nat \<Rightarrow> tracker" where
  "tracker_new cap =
     \<lparr>t_current = 0, t_max = 0, t_samples = [], t_acquires = 0, t_waits = 0, t_cap = max cap 1\<rparr>"

text \<open>The atomic actions: each is one read-modify-write of the code.\<close>

definition add_acquire :: "tracker \<Rightarrow> tracker" where
  "add_acquire t = t\<lparr>t_acquires := t_acquires t + 1\<rparr>"

definition add_wait :: "tracker \<Rightarrow> tracker" where
  "add_wait t = t\<lparr>t_waits := t_waits t + 1\<rparr>"

definition note_acquire :: "bool \<Rightarrow> tracker \<Rightarrow> tracker" where
  "note_acquire waited t = (let t' = add_acquire t in if waited then add_wait t' else t')"

definition add_current :: "tracker \<Rightarrow> tracker \<times> 64 word" where
  "add_current t = (let now = t_current t + 1 in (t\<lparr>t_current := now\<rparr>, now))"

definition raise_max :: "64 word \<Rightarrow> tracker \<Rightarrow> tracker" where
  "raise_max now t = t\<lparr>t_max := max (t_max t) now\<rparr>"

definition push_sample :: "64 word \<Rightarrow> tracker \<Rightarrow> tracker" where
  "push_sample now t = t\<lparr>t_samples := t_samples t @ [f_of_nat (unat now)]\<rparr>"

definition enter :: "tracker \<Rightarrow> tracker \<times> 64 word" where
  "enter t = (let (t1, now) = add_current t in (push_sample now (raise_max now t1), now))"

definition leave :: "tracker \<Rightarrow> tracker" where
  "leave t = t\<lparr>t_current := t_current t - 1\<rparr>"

definition reset_counts :: "tracker \<Rightarrow> tracker" where
  "reset_counts t = t\<lparr>t_samples := [], t_max := t_current t, t_acquires := 0, t_waits := 0\<rparr>"

definition snapshot :: "tracker \<Rightarrow> observed_concurrency" where
  "snapshot t =
     (let dist = dist_from_values (t_samples t) in
      \<lparr>oc_cap = t_cap t, in_flight_mean = ds_avg dist, in_flight_p50 = ds_p50 dist,
       in_flight_max =
         (if t_max t = 0 \<and> t_samples t = [] then None else Some (f_of_nat (unat (t_max t)))),
       cap_engagement_fraction =
         (if t_acquires t = 0 then None
          else Some (fdiv (f_of_nat (unat (t_waits t))) (f_of_nat (unat (t_acquires t))))),
       acquire_count = t_acquires t, wait_count = t_waits t\<rparr>)"

subsection \<open>The semaphore\<close>

record 'sem sem_ops =
  sem_available :: "'sem \<Rightarrow> nat"
  sem_closed :: "'sem \<Rightarrow> bool"
  sem_take :: "'sem \<Rightarrow> 'sem"
  sem_release :: "'sem \<Rightarrow> 'sem"

definition semaphore_ok :: "'sem sem_ops \<Rightarrow> bool" where
  "semaphore_ok ops \<longleftrightarrow>
     (\<forall>s. 0 < sem_available ops s \<longrightarrow> sem_available ops (sem_take ops s) = sem_available ops s - 1) \<and>
     (\<forall>s. sem_available ops (sem_release ops s) = sem_available ops s + 1) \<and>
     (\<forall>s. sem_closed ops (sem_take ops s) = sem_closed ops s) \<and>
     (\<forall>s. sem_closed ops (sem_release ops s) = sem_closed ops s)"

definition can_take :: "'sem sem_ops \<Rightarrow> 'sem \<Rightarrow> bool" where
  "can_take ops s \<longleftrightarrow> 0 < sem_available ops s \<and> \<not> sem_closed ops s"

subsection \<open>Request tasks\<close>

text \<open>
  Where a task is: before \<open>try_acquire\<close>; waiting for a permit after a miss; holding a
  permit with its acquire and its wait still to be counted; inside \<open>enter\<close> after the
  increment and after the maximum; running; after the gauge was left; done; or refused by a
  closed semaphore.
\<close>

datatype phase =
    Ready
  | Blocked
  | Granted bool
  | Counted
  | Permitted
  | Entered "64 word"
  | Maxed "64 word"
  | Running "64 word"
  | Left
  | Released
  | Refused

record 'sem slots =
  sem :: 'sem
  gauge :: tracker
  tasks :: "phase list"

definition task_at :: "nat \<Rightarrow> phase \<Rightarrow> 'sem slots \<Rightarrow> bool" where
  "task_at i p s \<longleftrightarrow> i < length (tasks s) \<and> tasks s ! i = p"

definition goto :: "nat \<Rightarrow> phase \<Rightarrow> 'sem slots \<Rightarrow> 'sem slots" where
  "goto i p s = s\<lparr>tasks := (tasks s)[i := p]\<rparr>"

text \<open>
  \<open>acquire_with_engagement\<close> is the first six rules, \<open>InFlightSlot::new\<close> the next three, and
  dropping the slot the last two: the guard is declared before the permit, so the gauge is left
  first.
\<close>

inductive slot_step :: "'sem sem_ops \<Rightarrow> 'sem slots \<Rightarrow> 'sem slots \<Rightarrow> bool" for ops where
  try_hit: "task_at i Ready s \<Longrightarrow> can_take ops (sem s) \<Longrightarrow>
    slot_step ops s (goto i (Granted False) (s\<lparr>sem := sem_take ops (sem s)\<rparr>))"
| try_miss: "task_at i Ready s \<Longrightarrow> \<not> can_take ops (sem s) \<Longrightarrow> slot_step ops s (goto i Blocked s)"
| granted: "task_at i Blocked s \<Longrightarrow> can_take ops (sem s) \<Longrightarrow>
    slot_step ops s (goto i (Granted True) (s\<lparr>sem := sem_take ops (sem s)\<rparr>))"
| refused: "task_at i Blocked s \<Longrightarrow> sem_closed ops (sem s) \<Longrightarrow> slot_step ops s (goto i Refused s)"
| count_acquire: "task_at i (Granted waited) s \<Longrightarrow>
    slot_step ops s
      (goto i (if waited then Counted else Permitted) (s\<lparr>gauge := add_acquire (gauge s)\<rparr>))"
| count_wait: "task_at i Counted s \<Longrightarrow>
    slot_step ops s (goto i Permitted (s\<lparr>gauge := add_wait (gauge s)\<rparr>))"
| enter_add: "task_at i Permitted s \<Longrightarrow> add_current (gauge s) = (g, now) \<Longrightarrow>
    slot_step ops s (goto i (Entered now) (s\<lparr>gauge := g\<rparr>))"
| enter_max: "task_at i (Entered now) s \<Longrightarrow>
    slot_step ops s (goto i (Maxed now) (s\<lparr>gauge := raise_max now (gauge s)\<rparr>))"
| enter_sample: "task_at i (Maxed now) s \<Longrightarrow>
    slot_step ops s (goto i (Running now) (s\<lparr>gauge := push_sample now (gauge s)\<rparr>))"
| drop_guard: "task_at i (Running now) s \<Longrightarrow>
    slot_step ops s (goto i Left (s\<lparr>gauge := leave (gauge s)\<rparr>))"
| drop_permit: "task_at i Left s \<Longrightarrow>
    slot_step ops s (goto i Released (s\<lparr>sem := sem_release ops (sem s)\<rparr>))"

inductive_cases slot_stepE: "slot_step ops s s'"

definition slots_init :: "'sem sem_ops \<Rightarrow> nat \<Rightarrow> nat \<Rightarrow> 'sem slots \<Rightarrow> bool" where
  "slots_init ops cap n s \<longleftrightarrow>
     semaphore_ok ops \<and> 1 \<le> cap \<and> cap < 2 ^ 32 \<and> n < 2 ^ 64 \<and>
     sem_available ops (sem s) = cap \<and>
     gauge s = tracker_new cap \<and> tasks s = replicate n Ready"

subsection \<open>Counting tasks\<close>

definition cnt :: "(phase \<Rightarrow> bool) \<Rightarrow> 'sem slots \<Rightarrow> nat" where
  "cnt P s = length (filter P (tasks s))"

lemma filter_update:
  "i < length xs \<Longrightarrow>
   length (filter P (xs[i := y])) + of_bool (P (xs ! i)) = length (filter P xs) + of_bool (P y)"
proof (induction xs arbitrary: i)
  case (Cons x xs)
  then show ?case by (cases i) auto
qed simp

lemma cnt_goto:
  "task_at i p s \<Longrightarrow> cnt P (goto i q s) + of_bool (P p) = cnt P s + of_bool (P q)"
  using filter_update [of i "tasks s" P q] by (simp add: cnt_def goto_def task_at_def)

lemma filter_le: "(\<And>p. P p \<Longrightarrow> Q p) \<Longrightarrow> length (filter P xs) \<le> length (filter Q xs)"
  by (induction xs) auto

lemma filter_less:
  "\<lbrakk>\<And>p. P p \<Longrightarrow> Q p; x \<in> set xs; Q x; \<not> P x\<rbrakk> \<Longrightarrow> length (filter P xs) < length (filter Q xs)"
proof (induction xs)
  case (Cons y ys)
  have "length (filter P ys) \<le> length (filter Q ys)"
    using Cons.prems(1) by (rule filter_le)
  then show ?case using Cons by (auto simp: less_Suc_eq_le)
qed simp

lemma cnt_less:
  "task_at i p s \<Longrightarrow> (\<And>p. P p \<Longrightarrow> Q p) \<Longrightarrow> Q p \<Longrightarrow> \<not> P p \<Longrightarrow> cnt P s < cnt Q s"
  unfolding cnt_def task_at_def by (rule filter_less [of P Q p]) auto

lemma cnt_le: "(\<And>p. P p \<Longrightarrow> Q p) \<Longrightarrow> cnt P s \<le> cnt Q s"
  unfolding cnt_def by (rule filter_le)

lemma cnt_pos: "task_at i p s \<Longrightarrow> P p \<Longrightarrow> 0 < cnt P s"
  using cnt_less [of i p s "\<lambda>_. False" P] by (simp add: cnt_def)

lemma cnt_zero: "cnt P s = 0 \<longleftrightarrow> (\<forall>p \<in> set (tasks s). \<not> P p)"
  by (auto simp: cnt_def filter_empty_conv)

lemma cnt_frame [simp]:
  "cnt P (s\<lparr>sem := x\<rparr>) = cnt P s" "cnt P (s\<lparr>gauge := g\<rparr>) = cnt P s"
  "task_at i p (s\<lparr>sem := x\<rparr>) = task_at i p s" "task_at i p (s\<lparr>gauge := g\<rparr>) = task_at i p s"
  by (simp_all add: cnt_def task_at_def)

lemma goto_simps [simp]:
  "sem (goto i q s) = sem s" "gauge (goto i q s) = gauge s"
  "length (tasks (goto i q s)) = length (tasks s)"
  by (simp_all add: goto_def)

lemma tasks_goto: "p \<in> set (tasks (goto i q s)) \<Longrightarrow> p = q \<or> p \<in> set (tasks s)"
  using set_update_subset_insert [of "tasks s" i q] by (auto simp: goto_def)

subsection \<open>The invariant\<close>

fun holds :: "phase \<Rightarrow> bool" where
  "holds Ready = False"
| "holds Blocked = False"
| "holds Released = False"
| "holds Refused = False"
| "holds _ = True"

fun inside :: "phase \<Rightarrow> bool" where
  "inside (Entered _) = True"
| "inside (Maxed _) = True"
| "inside (Running _) = True"
| "inside _ = False"

fun counted :: "phase \<Rightarrow> bool" where
  "counted (Granted _) = False"
| "counted Released = True"
| "counted p = holds p"

fun sampled :: "phase \<Rightarrow> bool" where
  "sampled (Running _) = True"
| "sampled Left = True"
| "sampled Released = True"
| "sampled _ = False"

fun seen_ok :: "nat \<Rightarrow> phase \<Rightarrow> bool" where
  "seen_ok cap (Entered now) = (1 \<le> unat now \<and> unat now \<le> cap)"
| "seen_ok cap (Maxed now) = (1 \<le> unat now \<and> unat now \<le> cap)"
| "seen_ok cap (Running now) = (1 \<le> unat now \<and> unat now \<le> cap)"
| "seen_ok cap _ = True"

definition slots_inv :: "'sem sem_ops \<Rightarrow> nat \<Rightarrow> nat \<Rightarrow> 'sem slots \<Rightarrow> bool" where
  "slots_inv ops cap n s \<longleftrightarrow>
     semaphore_ok ops \<and> 1 \<le> cap \<and> cap < 2 ^ 32 \<and> n < 2 ^ 64 \<and> length (tasks s) = n \<and>
     sem_available ops (sem s) + cnt holds s = cap \<and>
     unat (t_current (gauge s)) = cnt inside s \<and>
     unat (t_acquires (gauge s)) = cnt counted s \<and>
     unat (t_waits (gauge s)) + cnt (\<lambda>p. p = Counted) s \<le> unat (t_acquires (gauge s)) \<and>
     unat (t_max (gauge s)) \<le> cap \<and>
     length (t_samples (gauge s)) = cnt sampled s \<and>
     (\<forall>x \<in> set (t_samples (gauge s)). \<exists>k. 1 \<le> k \<and> k \<le> cap \<and> x = f_of_nat k) \<and>
     (\<forall>p \<in> set (tasks s). seen_ok cap p) \<and>
     (Refused \<in> set (tasks s) \<longrightarrow> sem_closed ops (sem s))"

lemma slots_inv_init: "slots_init ops cap n s \<Longrightarrow> slots_inv ops cap n s"
  by (auto simp: slots_init_def slots_inv_def cnt_def tracker_new_def)

text \<open>One task moves from phase \<open>p\<close> to \<open>q\<close>: what its action must keep in step.\<close>

lemma slots_inv_goto:
  assumes inv: "slots_inv ops cap n s" and a: "task_at i p s"
    and "seen_ok cap q" "sem_closed ops x = sem_closed ops (sem s)" "q = Refused \<longrightarrow> sem_closed ops x"
    and "sem_available ops x + of_bool (holds q) = sem_available ops (sem s) + of_bool (holds p)"
    and "unat (t_current g) + of_bool (inside p) = unat (t_current (gauge s)) + of_bool (inside q)"
    and "unat (t_acquires g) + of_bool (counted p) = unat (t_acquires (gauge s)) + of_bool (counted q)"
    and "unat (t_waits g) + of_bool (q = Counted) + unat (t_acquires (gauge s)) \<le>
      unat (t_waits (gauge s)) + of_bool (p = Counted) + unat (t_acquires g)"
    and "unat (t_max g) \<le> cap"
    and "length (t_samples g) + of_bool (sampled p) = length (t_samples (gauge s)) + of_bool (sampled q)"
    and "\<forall>x \<in> set (t_samples g). \<exists>k. 1 \<le> k \<and> k \<le> cap \<and> x = f_of_nat k"
  shows "slots_inv ops cap n (goto i q (s\<lparr>sem := x, gauge := g\<rparr>))"
proof -
  let ?s = "goto i q (s\<lparr>sem := x, gauge := g\<rparr>)"
  have c: "cnt P ?s + of_bool (P p) = cnt P s + of_bool (P q)" for P
    using cnt_goto [of i p "s\<lparr>sem := x, gauge := g\<rparr>" P q] a by simp
  have t: "r \<in> set (tasks ?s) \<Longrightarrow> r = q \<or> r \<in> set (tasks s)" for r
    using tasks_goto [of r i q "s\<lparr>sem := x, gauge := g\<rparr>"] by simp
  have seen: "\<forall>r \<in> set (tasks ?s). seen_ok cap r" and
    ref: "Refused \<in> set (tasks ?s) \<longrightarrow> sem_closed ops x"
    using t inv assms(3,4,5) unfolding slots_inv_def by metis+
  have "sem_available ops x + cnt holds ?s = cap"
    and "unat (t_current g) = cnt inside ?s" and "unat (t_acquires g) = cnt counted ?s"
    and "unat (t_waits g) + cnt (\<lambda>p. p = Counted) ?s \<le> unat (t_acquires g)"
    and "length (t_samples g) = cnt sampled ?s"
    using c [of holds] c [of inside] c [of counted] c [of sampled] c [of "\<lambda>p. p = Counted"] assms(6-9,11)
      inv unfolding slots_inv_def by linarith+
  then show ?thesis using inv seen ref assms(10,12) by (simp add: slots_inv_def)
qed

lemma unat_Suc: "unat (w :: 64 word) < m \<Longrightarrow> m < 2 ^ 64 \<Longrightarrow> unat (w + 1) = unat w + 1"
  by (simp add: unat_word_ariths(1))

lemma slots_room:
  assumes "slots_inv ops cap n s"
  shows "cnt holds s \<le> cap" "cnt inside s \<le> cnt holds s" "cnt counted s \<le> n"
    "cap < 2 ^ 64"
proof -
  show "cnt holds s \<le> cap" using assms by (auto simp: slots_inv_def)
  show "cnt inside s \<le> cnt holds s" by (rule cnt_le) (auto elim: inside.elims)
  show "cnt counted s \<le> n" using assms by (auto simp: slots_inv_def cnt_def)
  show "cap < 2 ^ 64" using assms by (auto simp: slots_inv_def)
qed

text \<open>The actions that touch the semaphore, the counters and the gauge.\<close>

lemma sem_take_ok:
  "semaphore_ok ops \<Longrightarrow> can_take ops x \<Longrightarrow>
   sem_available ops (sem_take ops x) + 1 = sem_available ops x \<and>
   sem_closed ops (sem_take ops x) = sem_closed ops x"
  by (auto simp: semaphore_ok_def can_take_def)

lemma sem_release_ok:
  "semaphore_ok ops \<Longrightarrow> sem_available ops (sem_release ops x) = sem_available ops x + 1 \<and>
   sem_closed ops (sem_release ops x) = sem_closed ops x"
  by (auto simp: semaphore_ok_def)

lemma add_acquire_ok:
  assumes "slots_inv ops cap n s" "task_at i (Granted w) s"
  shows "unat (t_acquires (gauge s) + 1) = unat (t_acquires (gauge s)) + 1"
proof -
  have "cnt counted s < cnt (\<lambda>_. True) s" by (rule cnt_less [OF assms(2)]) auto
  then show ?thesis
    using assms(1) by (intro unat_Suc [of _ n]) (auto simp: slots_inv_def cnt_def)
qed

lemma add_wait_ok:
  assumes "slots_inv ops cap n s" "task_at i Counted s"
  shows "unat (t_waits (gauge s) + 1) = unat (t_waits (gauge s)) + 1"
proof -
  have "0 < cnt (\<lambda>p. p = Counted) s" by (rule cnt_pos [OF assms(2)]) simp
  moreover have "cnt counted s \<le> n" using assms(1) by (rule slots_room)
  ultimately show ?thesis
    using assms(1) by (intro unat_Suc [of _ n]) (auto simp: slots_inv_def)
qed

lemma add_current_ok:
  assumes "slots_inv ops cap n s" "task_at i Permitted s"
  shows "unat (t_current (gauge s) + 1) = unat (t_current (gauge s)) + 1"
    and "unat (t_current (gauge s)) + 1 \<le> cap"
proof -
  have "cnt inside s < cnt holds s"
    by (rule cnt_less [OF assms(2)]) (auto elim: inside.elims)
  then have c: "unat (t_current (gauge s)) < cap"
    using assms(1) slots_room(1) [OF assms(1)] by (auto simp: slots_inv_def)
  then show "unat (t_current (gauge s)) + 1 \<le> cap" by simp
  show "unat (t_current (gauge s) + 1) = unat (t_current (gauge s)) + 1"
    using c slots_room(4) [OF assms(1)] by (rule unat_Suc)
qed

lemma leave_ok:
  assumes "slots_inv ops cap n s" "task_at i p s" "inside p"
  shows "0 < t_current (gauge s)" and "unat (t_current (gauge s) - 1) + 1 = unat (t_current (gauge s))"
proof -
  have "0 < cnt inside s" using assms(2,3) by (rule cnt_pos)
  then have u: "0 < unat (t_current (gauge s))" using assms(1) by (simp add: slots_inv_def)
  then show p: "0 < t_current (gauge s)" by (simp add: unat_gt_0 word_neq_0_conv)
  show "unat (t_current (gauge s) - 1) + 1 = unat (t_current (gauge s))"
    using u unat_minus_one [of "t_current (gauge s)"] by (cases "t_current (gauge s) = 0") simp_all
qed

lemma raise_max_ok: "unat a \<le> cap \<Longrightarrow> unat b \<le> cap \<Longrightarrow> unat (max a b :: 64 word) \<le> cap"
  by (simp add: max_def)

lemma slots_seen: "slots_inv ops cap n s \<Longrightarrow> task_at i p s \<Longrightarrow> seen_ok cap p"
  by (auto simp: slots_inv_def task_at_def)

lemma slots_inv_step:
  assumes inv: "slots_inv ops cap n s" and step: "slot_step ops s s'"
  shows "slots_inv ops cap n s'"
proof -
  have ok: "semaphore_ok ops" and mx: "unat (t_max (gauge s)) \<le> cap" and
    sm: "\<forall>x \<in> set (t_samples (gauge s)). \<exists>k. 1 \<le> k \<and> k \<le> cap \<and> x = f_of_nat k"
    using inv by (auto simp: slots_inv_def)
  note go = slots_inv_goto [OF inv]
  from step show ?thesis
  proof (cases rule: slot_step.cases)
    case (try_hit i)
    then show ?thesis
      using go [of i Ready "Granted False" "sem_take ops (sem s)" "gauge s"] sem_take_ok [OF ok] mx sm by simp
  next
    case (try_miss i)
    then show ?thesis using go [of i Ready Blocked "sem s" "gauge s"] mx sm by simp
  next
    case (granted i)
    then show ?thesis
      using go [of i Blocked "Granted True" "sem_take ops (sem s)" "gauge s"] sem_take_ok [OF ok] mx sm by simp
  next
    case (refused i)
    then show ?thesis using go [of i Blocked Refused "sem s" "gauge s"] mx sm by simp
  next
    case (count_acquire i w)
    then show ?thesis
      using go [of i "Granted w" "if w then Counted else Permitted" "sem s" "add_acquire (gauge s)"]
        add_acquire_ok [OF inv count_acquire(2)] mx sm by (cases w) (simp_all add: add_acquire_def)
  next
    case (count_wait i)
    then show ?thesis
      using go [of i Counted Permitted "sem s" "add_wait (gauge s)"]
        add_wait_ok [OF inv count_wait(2)] mx sm by (simp add: add_wait_def)
  next
    case (enter_add i g now)
    then show ?thesis
      using go [of i Permitted "Entered now" "sem s" g] add_current_ok [OF inv enter_add(2)] mx sm
      by (auto simp: add_current_def Let_def)
  next
    case (enter_max i now)
    then show ?thesis
      using go [of i "Entered now" "Maxed now" "sem s" "raise_max now (gauge s)"]
        slots_seen [OF inv enter_max(2)] raise_max_ok mx sm by (simp add: raise_max_def)
  next
    case (enter_sample i now)
    then show ?thesis
      using go [of i "Maxed now" "Running now" "sem s" "push_sample now (gauge s)"]
        slots_seen [OF inv enter_sample(2)] mx sm by (auto simp: push_sample_def)
  next
    case (drop_guard i now)
    then show ?thesis
      using go [of i "Running now" Left "sem s" "leave (gauge s)"] leave_ok [OF inv drop_guard(2)] mx sm
      by (simp add: leave_def)
  next
    case (drop_permit i)
    then show ?thesis
      using go [of i Left Released "sem_release ops (sem s)" "gauge s"] sem_release_ok [OF ok] mx sm by simp
  qed
qed

subsection \<open>Every run ends\<close>

fun phase_rank :: "phase \<Rightarrow> nat" where
  "phase_rank Ready = 9"
| "phase_rank Blocked = 8"
| "phase_rank (Granted _) = 7"
| "phase_rank Counted = 6"
| "phase_rank Permitted = 5"
| "phase_rank (Entered _) = 4"
| "phase_rank (Maxed _) = 3"
| "phase_rank (Running _) = 2"
| "phase_rank Left = 1"
| "phase_rank _ = 0"

definition slots_rank :: "'sem slots \<Rightarrow> nat" where
  "slots_rank s = sum_list (map phase_rank (tasks s))"

lemma sum_list_update_less:
  assumes "i < length xs" "f y < f (xs ! i)"
  shows "sum_list (map f (xs[i := y])) < (sum_list (map f xs) :: nat)"
  using assms
proof (induction xs arbitrary: i)
  case (Cons x xs)
  then show ?case by (cases i) auto
qed simp

lemma slots_rank_goto:
  "task_at i p s \<Longrightarrow> phase_rank q < phase_rank p \<Longrightarrow> slots_rank (goto i q s) < slots_rank s"
  using sum_list_update_less [of i "tasks s" phase_rank q]
  by (simp add: slots_rank_def goto_def task_at_def)

lemma slots_rank_frame [simp]:
  "slots_rank (goto i q (s\<lparr>sem := x\<rparr>)) = slots_rank (goto i q s)"
  "slots_rank (goto i q (s\<lparr>gauge := g\<rparr>)) = slots_rank (goto i q s)"
  by (simp_all add: slots_rank_def goto_def)

lemma slots_rank_step: "slot_step ops s s' \<Longrightarrow> slots_rank s' < slots_rank s"
  by (erule slot_stepE) (auto elim!: slots_rank_goto split: if_splits)

interpretation slots: ranked_system "slots_init ops cap n" "slot_step ops" "slots_inv ops cap n" slots_rank
  for ops :: "'sem sem_ops" and cap n
  by unfold_locales (auto intro: slots_inv_init slots_inv_step slots_rank_step)

definition settled :: "phase \<Rightarrow> bool" where
  "settled p \<longleftrightarrow> p = Released \<or> p = Refused"

text \<open>A holder of a permit can always act, whatever the others do.\<close>

lemma holder_steps: "task_at i p s \<Longrightarrow> holds p \<Longrightarrow> \<exists>s'. slot_step ops s s'"
  using slot_step.enter_add [of i s "fst (add_current (gauge s))" "snd (add_current (gauge s))" ops]
  by (cases p) (auto intro: slot_step.intros)

lemma slots_progress:
  assumes inv: "slots_inv ops cap n s" and "p \<in> set (tasks s)" "\<not> settled p"
  shows "\<exists>s'. slot_step ops s s'"
proof -
  obtain i where a: "task_at i p s" using assms(2) by (auto simp: in_set_conv_nth task_at_def)
  consider "p = Ready" | "p = Blocked" | "holds p"
    using assms(3) by (cases p) (auto simp: settled_def)
  then show ?thesis
  proof cases
    case 1
    then show ?thesis using a slot_step.try_hit slot_step.try_miss by metis
  next
    case 3
    then show ?thesis using a by (intro holder_steps)
  next
    case 2
    consider "can_take ops (sem s)" | "sem_closed ops (sem s)" | "sem_available ops (sem s) = 0"
      by (auto simp: can_take_def)
    then show ?thesis
    proof cases
      case 3
      then have "cnt holds s \<noteq> 0" using inv by (auto simp: slots_inv_def)
      then obtain q where "q \<in> set (tasks s)" "holds q" by (auto simp: cnt_zero)
      then show ?thesis using holder_steps by (metis in_set_conv_nth task_at_def)
    qed (use a 2 slot_step.intros in blast)+
  qed
qed

subsection \<open>Properties\<close>

text \<open>
C6: The cap holds in every interleaving: with any number of request tasks whose atomic actions
interleave freely, neither the in-flight gauge nor its maximum ever exceeds the cap; every
recorded occupancy sample and every count a running task has seen for itself lies between one
and the cap; the waits never outnumber the acquires; and a task that is about to leave the gauge
finds it above zero, so the decrement cannot wrap.
\<close>

theorem in_flight_never_exceeds_cap:
  assumes "slots_init ops cap n s" "(slot_step ops)\<^sup>*\<^sup>* s s'"
  shows "unat (t_current (gauge s')) \<le> cap \<and> unat (t_max (gauge s')) \<le> cap \<and>
    list_all (\<lambda>x. \<exists>k. 1 \<le> k \<and> k \<le> cap \<and> x = f_of_nat k) (t_samples (gauge s')) \<and>
    list_all (seen_ok cap) (tasks s') \<and>
    t_waits (gauge s') \<le> t_acquires (gauge s') \<and>
    (task_at i (Running now) s' \<longrightarrow> 0 < t_current (gauge s'))"
proof -
  have inv: "slots_inv ops cap n s'" using assms by (rule slots.I_reach)
  have "t_waits (gauge s') \<le> t_acquires (gauge s')"
    using inv by (simp add: slots_inv_def word_le_nat_alt)
  moreover have "task_at i (Running now) s' \<longrightarrow> 0 < t_current (gauge s')"
    using leave_ok(1) [OF inv] by fastforce
  ultimately show ?thesis
    using inv slots_room [OF inv] by (auto simp: slots_inv_def list_all_iff)
qed

definition nat_sem :: "nat sem_ops" where
  "nat_sem = \<lparr>sem_available = id, sem_closed = (\<lambda>_. False), sem_take = (\<lambda>k. k - 1), sem_release = Suc\<rparr>"

definition demo_slots :: "nat slots" where
  "demo_slots = \<lparr>sem = 1, gauge = tracker_new 1, tasks = [Ready, Ready]\<rparr>"

lemma demo_init: "slots_init nat_sem 1 2 demo_slots"
  by (simp add: slots_init_def demo_slots_def nat_sem_def semaphore_ok_def) (simp add: numeral_2_eq_2)

theorem in_flight_never_exceeds_cap_witness:
  "\<exists>s'. slot_step nat_sem demo_slots s' \<and> unat (t_max (gauge s')) \<le> 1"
proof -
  let ?s = "goto 0 (Granted False) (demo_slots\<lparr>sem := sem_take nat_sem (sem demo_slots)\<rparr>)"
  have st: "slot_step nat_sem demo_slots ?s"
    by (rule slot_step.try_hit) (simp_all add: demo_slots_def task_at_def can_take_def nat_sem_def)
  have "unat (t_max (gauge ?s)) \<le> 1"
    using in_flight_never_exceeds_cap [OF demo_init r_into_rtranclp, OF st] by blast
  with st show ?thesis by blast
qed

text \<open>
C7: No run of the request tasks gets stuck or loops, and nothing leaks: a run of \<open>n\<close> tasks
takes at most \<open>9 n\<close> atomic actions, and where no task can act, every task has settled, the
gauge is back at zero and all permits are free again; if the semaphore was never closed, every
task ran, with exactly one acquire counted and one sample recorded for each.
\<close>

theorem slots_settle_without_leak:
  assumes "slots_init ops cap n s" "(slot_step ops ^^ k) s s'"
  shows "k \<le> 9 * n \<and>
    ((\<forall>u. \<not> slot_step ops s' u) \<longrightarrow>
       list_all settled (tasks s') \<and> t_current (gauge s') = 0 \<and>
       sem_available ops (sem s') = cap \<and>
       (sem_closed ops (sem s') \<or>
         tasks s' = replicate n Released \<and> unat (t_acquires (gauge s')) = n \<and>
         length (t_samples (gauge s')) = n))"
proof (intro conjI impI)
  have "slots_rank s = 9 * n" using assms(1) by (simp add: slots_init_def slots_rank_def sum_list_replicate)
  then show "k \<le> 9 * n"
    using slots.run_bounded [OF slots_inv_init [OF assms(1)] assms(2)] by simp
  have inv: "slots_inv ops cap n s'"
    using slots.I_reach [OF assms(1)] relpowp_imp_rtranclp [OF assms(2)] by blast
  assume stuck: "\<forall>u. \<not> slot_step ops s' u"
  then have st: "\<forall>p \<in> set (tasks s'). settled p" using slots_progress [OF inv] by blast
  then show "list_all settled (tasks s')" by (simp add: list_all_iff)
  have z: "cnt holds s' = 0" "cnt inside s' = 0"
    using st by (auto simp: cnt_zero settled_def)
  then show "t_current (gauge s') = 0"
    using inv by (simp add: slots_inv_def unat_eq_zero)
  show "sem_available ops (sem s') = cap" using inv z by (simp add: slots_inv_def)
  show "sem_closed ops (sem s') \<or>
      tasks s' = replicate n Released \<and> unat (t_acquires (gauge s')) = n \<and>
      length (t_samples (gauge s')) = n"
  proof (cases "sem_closed ops (sem s')")
    case False
    then have "Refused \<notin> set (tasks s')" using inv by (auto simp: slots_inv_def)
    then have "\<forall>p \<in> set (tasks s'). p = Released" using st by (auto simp: settled_def)
    moreover have "length (tasks s') = n" using inv by (simp add: slots_inv_def)
    ultimately have t: "tasks s' = replicate n Released" by (simp add: replicate_eqI)
    then show ?thesis using inv by (simp add: slots_inv_def cnt_def)
  qed simp
qed

theorem slots_settle_without_leak_witness:
  "\<exists>k s'. (slot_step nat_sem ^^ k) demo_slots s' \<and> k \<le> 18 \<and> tasks s' = replicate 2 Released \<and>
     t_current (gauge s') = 0"
proof -
  obtain s' where r: "(slot_step nat_sem)\<^sup>*\<^sup>* demo_slots s'" and f: "\<forall>u. \<not> slot_step nat_sem s' u"
    using slots.reaches_final [OF slots_inv_init [OF demo_init]] by blast
  then obtain k where k: "(slot_step nat_sem ^^ k) demo_slots s'" by (auto dest: rtranclp_imp_relpowp)
  have "\<not> sem_closed nat_sem (sem s')" by (simp add: nat_sem_def)
  then show ?thesis using slots_settle_without_leak [OF demo_init k] f k by auto
qed

text \<open>
The concurrency snapshot of a run is in range: the reported maximum is at most the cap, and
the fraction of acquires that had to wait, when there was any acquire, is a number between
zero and one. After the warmup reset, with no request in flight, the snapshot is empty.
\<close>

lemma snapshot_in_range:
  assumes "slots_init ops cap n s" "(slot_step ops)\<^sup>*\<^sup>* s s'"
  shows "(case in_flight_max (snapshot (gauge s')) of
       None \<Rightarrow> True | Some m \<Rightarrow> \<exists>k. k \<le> cap \<and> m = f_of_nat k) \<and>
    (case cap_engagement_fraction (snapshot (gauge s')) of
       None \<Rightarrow> acquire_count (snapshot (gauge s')) = 0
     | Some x \<Rightarrow> \<exists>r. x = Fin r \<and> 0 \<le> r \<and> r \<le> 1) \<and>
    in_flight_max (snapshot (reset_counts (tracker_new cap\<lparr>t_samples := ys, t_max := m\<rparr>))) = None"
proof (intro conjI)
  have inv: "slots_inv ops cap n s'" using assms by (rule slots.I_reach)
  then show "case in_flight_max (snapshot (gauge s')) of
      None \<Rightarrow> True | Some m \<Rightarrow> \<exists>k. k \<le> cap \<and> m = f_of_nat k"
    by (auto simp: snapshot_def Let_def slots_inv_def)
  have w: "unat (t_waits (gauge s')) \<le> unat (t_acquires (gauge s'))"
    using inv by (simp add: slots_inv_def)
  show "case cap_engagement_fraction (snapshot (gauge s')) of
      None \<Rightarrow> acquire_count (snapshot (gauge s')) = 0
    | Some x \<Rightarrow> \<exists>r. x = Fin r \<and> 0 \<le> r \<and> r \<le> 1"
  proof (cases "t_acquires (gauge s') = 0")
    case False
    then have "0 < unat (t_acquires (gauge s'))" by (simp add: unat_gt_0)
    moreover have "unat (t_acquires (gauge s')) < 2 ^ 64"
      using unsigned_less [of "t_acquires (gauge s')"] by simp
    ultimately show ?thesis
      using fraction_unit [OF w] False by (auto simp: snapshot_def Let_def)
  qed (simp add: snapshot_def Let_def)
qed (simp add: snapshot_def reset_counts_def tracker_new_def Let_def)


end
