(* ===== verification/Runner.thy ===== *)
theory Runner
  imports Request_Record Concurrency
begin

text \<open>
  Arrival schedules (\<open>src/load.rs\<close>) and the shared run bookkeeping (\<open>src/runner.rs\<close>): stop
  signals, the warmup barrier, the descriptor guard, queue delays and the measured window. The
  random draws and the logarithm are parameters of the Poisson schedule; a panic of
  \<open>Duration::from_secs_f64\<close> is \<open>None\<close>.
\<close>

subsection \<open>Schedules\<close>

datatype arrival_kind = ClosedLoop | Constant | Poisson | Burst

record request_slot =
  slot_seq :: nat
  scheduled_delay :: duration

record fake_clock =
  clock_now :: duration

definition advance :: "duration \<Rightarrow> fake_clock \<Rightarrow> fake_clock" where
  "advance d c = c\<lparr>clock_now := dur_saturating_add (clock_now c) d\<rparr>"

definition sleep_until :: "duration \<Rightarrow> fake_clock \<Rightarrow> fake_clock" where
  "sleep_until deadline c = (if clock_now c < deadline then c\<lparr>clock_now := deadline\<rparr> else c)"

text \<open>Whole nanoseconds, rounded to nearest; negative, overflowing and non-finite seconds
  panic.\<close>

fun from_secs_f64 :: "f64 \<Rightarrow> duration option" where
  "from_secs_f64 (Fin a) =
     (if a < 0 then None
      else let ns = nat (rne (a * 1000000000)) in if ns \<le> duration_max then Some ns else None)"
| "from_secs_f64 _ = None"

fun collect :: "('a \<Rightarrow> 'b option) \<Rightarrow> 'a list \<Rightarrow> 'b list option" where
  "collect f [] = Some []"
| "collect f (x # xs) =
     (case f x of
        None \<Rightarrow> None
      | Some y \<Rightarrow> (case collect f xs of None \<Rightarrow> None | Some ys \<Rightarrow> Some (y # ys)))"

definition slot_at :: "nat \<times> f64 \<Rightarrow> request_slot option" where
  "slot_at p = map_option (\<lambda>d. \<lparr>slot_seq = fst p, scheduled_delay = d\<rparr>) (from_secs_f64 (snd p))"

definition EPSILON :: f64 where
  "EPSILON = Fin (1 / 2 ^ 52)"

text \<open>The offsets of a Poisson schedule: one exponential gap per slot after the first.\<close>

fun poisson_offsets :: "(f64 \<Rightarrow> f64) \<Rightarrow> (nat \<Rightarrow> f64) \<Rightarrow> f64 \<Rightarrow> f64 \<Rightarrow> nat list \<Rightarrow> (nat \<times> f64) list" where
  "poisson_offsets log_fn draw lambda t [] = []"
| "poisson_offsets log_fn draw lambda t (seq # seqs) =
     (let t' = (if 0 < seq \<and> flt (Fin 0) lambda
                then fadd t (fdiv (fneg (log_fn (fclamp (draw seq) EPSILON (Fin 1)))) lambda) else t)
      in (seq, t') # poisson_offsets log_fn draw lambda t' seqs)"

definition schedule ::
  "(f64 \<Rightarrow> f64) \<Rightarrow> (nat \<Rightarrow> f64) \<Rightarrow> arrival_kind \<Rightarrow> nat \<Rightarrow> f64 \<Rightarrow> request_slot list option" where
  "schedule log_fn draw kind n request_rate =
     (case kind of
        Constant \<Rightarrow>
          let dt = (if flt (Fin 0) request_rate then fdiv (Fin 1) request_rate else Fin 0)
          in collect slot_at (map (\<lambda>seq. (seq, fmul (f_of_nat seq) dt)) [0..<n])
      | Poisson \<Rightarrow>
          collect slot_at (poisson_offsets log_fn draw (fmax request_rate (Fin 0)) (Fin 0) [0..<n])
      | _ \<Rightarrow> Some (map (\<lambda>seq. \<lparr>slot_seq = seq, scheduled_delay = 0\<rparr>) [0..<n]))"

subsection \<open>Stop signals\<close>

record stop_flag =
  stopped :: bool
  signaled :: bool

datatype signal_action = DrainRun | HardExit

definition stop_new :: stop_flag where
  "stop_new = \<lparr>stopped = False, signaled = False\<rparr>"

definition stop :: "stop_flag \<Rightarrow> stop_flag" where
  "stop f = f\<lparr>stopped := True\<rparr>"

definition is_stopped :: "stop_flag \<Rightarrow> bool" where
  "is_stopped f = stopped f"

definition on_signal :: "stop_flag \<Rightarrow> stop_flag \<times> signal_action" where
  "on_signal f = (stop (f\<lparr>signaled := True\<rparr>), if signaled f then HardExit else DrainRun)"

subsection \<open>The warmup barrier\<close>

record warmup_barrier =
  warmup_requests :: nat
  shift :: duration
  join_errors :: nat
  barrier_tracker :: "tracker option"

definition barrier_new :: "nat \<Rightarrow> warmup_barrier" where
  "barrier_new n = \<lparr>warmup_requests = n, shift = 0, join_errors = 0, barrier_tracker = None\<rparr>"

definition with_tracker :: "tracker \<Rightarrow> warmup_barrier \<Rightarrow> warmup_barrier" where
  "with_tracker t b = b\<lparr>barrier_tracker := Some t\<rparr>"

definition shifted :: "warmup_barrier \<Rightarrow> request_slot \<Rightarrow> request_slot" where
  "shifted b slot =
     \<lparr>slot_seq = slot_seq slot, scheduled_delay = dur_saturating_add (scheduled_delay slot) (shift b)\<rparr>"

text \<open>A handle is whether its task joins; \<open>elapsed\<close> is the run clock after all have.\<close>

definition before_slot ::
  "duration \<Rightarrow> request_slot \<Rightarrow> warmup_barrier \<times> bool list \<Rightarrow>
     (warmup_barrier \<times> bool list) \<times> request_slot" where
  "before_slot elapsed slot st =
     (let (b, handles) = st;
          (b1, handles1) =
            (if 0 < warmup_requests b \<and> slot_seq slot = warmup_requests b
             then (b\<lparr>join_errors := join_errors b + length (filter (\<lambda>ok. \<not> ok) handles),
                     shift := dur_saturating_sub elapsed (scheduled_delay slot),
                     barrier_tracker := map_option reset_counts (barrier_tracker b)\<rparr>, [])
             else (b, handles))
      in ((b1, handles1), shifted b1 slot))"

subsection \<open>The descriptor guard\<close>

definition FD_FALLBACK :: nat where
  "FD_FALLBACK = 1024"

fun fd_limit_lines :: "ustr list \<Rightarrow> nat" where
  "fd_limit_lines [] = FD_FALLBACK"
| "fd_limit_lines (line # rest) =
     (if starts_with (lit ''Max open files'') line then
        (let tokens = split_whitespace line in
         if 5 \<le> length tokens then
           (if tokens ! 3 = lit ''unlimited'' then u64_max
            else case parse_u64 (tokens ! 3) of Some soft \<Rightarrow> soft | None \<Rightarrow> fd_limit_lines rest)
         else fd_limit_lines rest)
      else fd_limit_lines rest)"

definition fd_soft_limit :: "ustr option \<Rightarrow> nat" where
  "fd_soft_limit limits = (case limits of None \<Rightarrow> FD_FALLBACK | Some txt \<Rightarrow> fd_limit_lines (str_lines txt))"

definition BURST_FD_HEADROOM :: nat where
  "BURST_FD_HEADROOM = 128"

text \<open>The refusal carries the population, the budget and the limit.\<close>

definition uncapped_burst_fd_guard :: "ustr option \<Rightarrow> nat \<Rightarrow> (nat \<times> nat \<times> nat) + unit" where
  "uncapped_burst_fd_guard limits population =
     (let budget = fd_soft_limit limits - BURST_FD_HEADROOM in
      if budget < population then Inl (population, budget, fd_soft_limit limits) else Inr ())"

definition effective_max_concurrency_source :: "arrival_kind \<Rightarrow> bool \<Rightarrow> string" where
  "effective_max_concurrency_source kind explicit_cap =
     (if explicit_cap then ''max-concurrency''
      else if kind = Burst then ''uncapped-burst'' else ''concurrency'')"

subsection \<open>Delays and the window\<close>

definition queue_delay_for_slot :: "arrival_kind \<Rightarrow> duration \<Rightarrow> duration \<Rightarrow> duration" where
  "queue_delay_for_slot kind run_elapsed scheduled =
     (case kind of ClosedLoop \<Rightarrow> 0 | _ \<Rightarrow> dur_saturating_sub run_elapsed scheduled)"

definition should_record_schedule :: "arrival_kind \<Rightarrow> bool" where
  "should_record_schedule kind \<longleftrightarrow> kind \<noteq> ClosedLoop"

definition datetime_to_unix_secs :: "datetime \<Rightarrow> f64" where
  "datetime_to_unix_secs ts =
     fadd (rnd (of_int (ts div 1000000000))) (fdiv (f_of_nat (nat (ts mod 1000000000))) (Fin 1000000000))"

definition send_offset_seconds :: "request_record \<Rightarrow> f64" where
  "send_offset_seconds r = unwrap_or (rr_send_offset_s r) (datetime_to_unix_secs (rr_started_at r))"

fun window_loop :: "request_record list \<Rightarrow> f64 \<times> f64 \<Rightarrow> f64 \<times> f64" where
  "window_loop [] acc = acc"
| "window_loop (r # rs) (min_send, max_end) =
     (let send = send_offset_seconds r
      in window_loop rs (fmin min_send send, fmax max_end (fadd send (rr_latency_s r))))"

definition window_seconds_from_records :: "request_record list \<Rightarrow> f64" where
  "window_seconds_from_records records =
     (let measured = filter (\<lambda>r. rr_phase r = Measure) records in
      if measured = [] then Fin 0
      else let (min_send, max_end) = window_loop measured (PInf, NInf) in
        if \<not> is_finite min_send \<or> \<not> is_finite max_end \<or> flt max_end min_send then Fin 0
        else fsub max_end min_send)"

subsection \<open>Schedules are in order\<close>

lemma from_secs_f64_mono:
  assumes "x \<le> y" "from_secs_f64 x = Some d" "from_secs_f64 y = Some e" shows "d \<le> e"
proof -
  obtain a where x: "x = Fin a" using assms(2) by (cases x) auto
  obtain b where y: "y = Fin b" using assms(3) by (cases y) auto
  have "a \<le> b" using assms(1) x y by simp
  then have "rne (a * 1000000000) \<le> rne (b * 1000000000)" by (intro rne_mono) simp
  then show ?thesis using assms x y by (auto simp: Let_def nat_mono split: if_splits)
qed

lemma collect_slots:
  "collect slot_at ps = Some slots \<Longrightarrow>
   map slot_seq slots = map fst ps \<and> length slots = length ps \<and>
   (\<forall>i < length ps. from_secs_f64 (snd (ps ! i)) = Some (scheduled_delay (slots ! i)))"
proof (induction ps arbitrary: slots)
  case (Cons p ps)
  then obtain s ss where s: "slot_at p = Some s" "collect slot_at ps = Some ss" "slots = s # ss"
    by (auto split: option.splits)
  have "slot_seq s = fst p" "from_secs_f64 (snd p) = Some (scheduled_delay s)"
    using s(1) by (auto simp: slot_at_def)
  then show ?case using Cons.IH [OF s(2)] s(3) by (auto simp: less_Suc_eq_0_disj)
qed simp

lemma collect_slots_sorted:
  assumes "collect slot_at ps = Some slots" "sorted (map snd ps)"
  shows "sorted (map scheduled_delay slots)"
proof -
  note c = collect_slots [OF assms(1)]
  show ?thesis
    unfolding sorted_iff_nth_mono
  proof (intro allI impI)
    fix i j assume ij: "i \<le> j" "j < length (map scheduled_delay slots)"
    have "snd (ps ! i) \<le> snd (ps ! j)"
      using assms(2) ij c by (auto simp: sorted_iff_nth_mono)
    then have "scheduled_delay (slots ! i) \<le> scheduled_delay (slots ! j)"
      using c ij by (intro from_secs_f64_mono) auto
    then show "map scheduled_delay slots ! i \<le> map scheduled_delay slots ! j" using ij by simp
  qed
qed

lemma fmul_nat_mono:
  assumes "i \<le> j" "is_finite (f_of_nat j)" "is_finite (f_of_nat i)" "0 \<le> d"
  shows "fmul (f_of_nat i) (Fin d) \<le> fmul (f_of_nat j) (Fin d)"
proof -
  obtain a b where ab: "f_of_nat i = Fin a" "f_of_nat j = Fin b" using assms(2,3) by (auto elim!: is_finiteE)
  have "a \<le> b" using f_of_nat_mono [OF assms(1)] ab by simp
  then show ?thesis using ab assms(4) by (simp add: fmul_def rnd_mono mult_right_mono)
qed

text \<open>What the Poisson schedule needs of the logarithm: it is a number that is not positive on
  the unit interval.\<close>

definition log_ok :: "(f64 \<Rightarrow> f64) \<Rightarrow> bool" where
  "log_ok log_fn \<longleftrightarrow> (\<forall>u. EPSILON \<le> u \<and> u \<le> Fin 1 \<longrightarrow> (\<exists>a. log_fn u = Fin a \<and> a \<le> 0))"

lemma clamp_unit: "x \<noteq> NaN \<Longrightarrow> EPSILON \<le> fclamp x EPSILON (Fin 1) \<and> fclamp x EPSILON (Fin 1) \<le> Fin 1"
  by (cases x) (auto simp: fclamp_def flt_def EPSILON_def less_f64_def)

lemma poisson_offsets_sorted:
  assumes "log_ok log_fn" "\<forall>k. draw k \<noteq> NaN" "is_f64 t" "nonneg t" "flt (Fin 0) lambda \<longrightarrow> is_finite lambda"
  shows "sorted (map snd (poisson_offsets log_fn draw lambda t seqs)) \<and>
    list_all (\<lambda>p. t \<le> snd p) (poisson_offsets log_fn draw lambda t seqs)"
  using assms(3,4)
proof (induction seqs arbitrary: t)
  case (Cons seq seqs)
  let ?u = "fclamp (draw seq) EPSILON (Fin 1)"
  let ?t = "if 0 < seq \<and> flt (Fin 0) lambda then fadd t (fdiv (fneg (log_fn ?u)) lambda) else t"
  have "EPSILON \<le> ?u \<and> ?u \<le> Fin 1" using assms(2) by (intro clamp_unit) blast
  then obtain a where "log_fn ?u = Fin a" "a \<le> 0" using assms(1) unfolding log_ok_def by blast
  then have g: "flt (Fin 0) lambda \<Longrightarrow> nonneg (fdiv (fneg (log_fn ?u)) lambda)"
    using assms(5) by (intro nonneg_fdiv) auto
  have f: "flt (Fin 0) lambda \<Longrightarrow> is_f64 (fdiv (fneg (log_fn ?u)) lambda)"
    using assms(5) \<open>log_fn ?u = Fin a\<close> by (cases lambda) (auto simp: fdiv_def)
  have t: "is_f64 ?t" "nonneg ?t" "t \<le> ?t"
    using Cons.prems g f by (auto intro: is_f64_fadd nonneg_fadd fadd_ge)
  from Cons.IH [OF t(1,2)] t(3) show ?case
    by (auto simp: Let_def list_all_iff intro: order_trans)
qed simp

lemma poisson_offsets_fst: "map fst (poisson_offsets log_fn draw lambda t seqs) = seqs"
  by (induction seqs arbitrary: t) (simp_all add: Let_def)

lemma constant_offsets_sorted:
  assumes "n < 2 ^ 64" "nonneg dt"
    and "collect slot_at (map (\<lambda>seq. (seq, fmul (f_of_nat seq) dt)) [0..<n]) = Some slots"
  shows "sorted (map scheduled_delay slots)"
proof (cases "n = 0")
  case True
  then show ?thesis using assms(3) by simp
next
  case False
  have fin: "is_finite (f_of_nat i)" if "i < n" for i using that assms(1) by (intro f_of_nat_finite) simp
  have "from_secs_f64 (fmul (Fin 0) dt) \<noteq> None"
    using collect_slots [OF assms(3)] False by (auto dest!: spec [of _ 0])
  then obtain d where d: "dt = Fin d" "0 \<le> d"
    using assms(2) by (cases dt) (auto simp: fmul_def finf_def nonneg_def)
  have "sorted (map snd (map (\<lambda>seq. (seq, fmul (f_of_nat seq) dt)) [0..<n]))"
    using fin d by (auto simp: sorted_iff_nth_mono intro!: fmul_nat_mono)
  with assms(3) show ?thesis by (rule collect_slots_sorted)
qed

subsection \<open>The window\<close>

lemma fmin_le: "x \<noteq> NaN \<Longrightarrow> y \<noteq> NaN \<Longrightarrow> fmin x y \<le> x \<and> fmin x y \<le> y \<and> fmin x y \<noteq> NaN"
  by (auto simp: fmin_def min_def)

lemma fmax_ge: "x \<noteq> NaN \<Longrightarrow> y \<noteq> NaN \<Longrightarrow> x \<le> fmax x y \<and> y \<le> fmax x y \<and> fmax x y \<noteq> NaN"
  by (auto simp: fmax_def max_def)

definition row_timed :: "request_record \<Rightarrow> bool" where
  "row_timed r \<longleftrightarrow> send_offset_seconds r \<noteq> NaN \<and> fadd (send_offset_seconds r) (rr_latency_s r) \<noteq> NaN"

lemma window_loop_bounds:
  assumes "list_all row_timed rs" "lo \<noteq> NaN" "hi \<noteq> NaN" "window_loop rs (lo, hi) = (a, b)"
  shows "a \<le> lo \<and> hi \<le> b \<and> a \<noteq> NaN \<and> b \<noteq> NaN \<and>
    list_all (\<lambda>r. a \<le> send_offset_seconds r \<and> fadd (send_offset_seconds r) (rr_latency_s r) \<le> b) rs"
  using assms
proof (induction rs arbitrary: lo hi)
  case (Cons r rs)
  let ?s = "send_offset_seconds r"
  have r: "?s \<noteq> NaN" "fadd ?s (rr_latency_s r) \<noteq> NaN" using Cons.prems(1) by (auto simp: row_timed_def)
  note lo = fmin_le [OF Cons.prems(2) r(1)] and hi = fmax_ge [OF Cons.prems(3) r(2)]
  have "window_loop rs (fmin lo ?s, fmax hi (fadd ?s (rr_latency_s r))) = (a, b)"
    using Cons.prems(4) by (simp add: Let_def)
  from Cons.IH [OF _ _ _ this] Cons.prems(1) lo hi show ?case by (auto intro: order_trans)
qed simp

lemma window_loop_attained:
  "window_loop rs (lo, hi) = (a, b) \<Longrightarrow> rs \<noteq> [] \<Longrightarrow> list_all row_timed rs \<Longrightarrow> lo \<noteq> NaN \<Longrightarrow> hi \<noteq> NaN \<Longrightarrow>
   (a = lo \<or> (\<exists>r \<in> set rs. a = send_offset_seconds r)) \<and>
   (b = hi \<or> (\<exists>r \<in> set rs. b = fadd (send_offset_seconds r) (rr_latency_s r)))"
proof (induction rs arbitrary: lo hi)
  case (Cons r rs)
  let ?s = "send_offset_seconds r"
  let ?e = "fadd ?s (rr_latency_s r)"
  have r: "?s \<noteq> NaN" "?e \<noteq> NaN" using Cons.prems(3) by (auto simp: row_timed_def)
  have w: "window_loop rs (fmin lo ?s, fmax hi ?e) = (a, b)" using Cons.prems(1) by (simp add: Let_def)
  have m: "fmin lo ?s = lo \<or> fmin lo ?s = ?s" "fmax hi ?e = hi \<or> fmax hi ?e = ?e"
    by (auto simp: fmin_def fmax_def min_def max_def)
  show ?case
  proof (cases "rs = []")
    case True
    then show ?thesis using w m by auto
  next
    case False
    have "fmin lo ?s \<noteq> NaN" "fmax hi ?e \<noteq> NaN"
      using fmin_le [OF Cons.prems(4) r(1)] fmax_ge [OF Cons.prems(5) r(2)] by auto
    from Cons.IH [OF w False _ this] Cons.prems(3) m show ?thesis by auto
  qed
qed simp

subsection \<open>Signals as sequences\<close>

datatype stop_event = InternalStop | RealSignal

fun on_stop_event :: "stop_event \<Rightarrow> stop_flag \<Rightarrow> stop_flag \<times> signal_action option" where
  "on_stop_event InternalStop f = (stop f, None)"
| "on_stop_event RealSignal f = (let (f', a) = on_signal f in (f', Some a))"

fun run_stop_events :: "stop_flag \<Rightarrow> stop_event list \<Rightarrow> stop_flag \<times> signal_action list" where
  "run_stop_events f [] = (f, [])"
| "run_stop_events f (e # es) =
     (let (f1, a) = on_stop_event e f; (f2, as) = run_stop_events f1 es
      in (f2, (case a of Some x \<Rightarrow> x # as | None \<Rightarrow> as)))"

lemma run_stop_events_spec:
  "run_stop_events f es = (f', as) \<Longrightarrow>
     (stopped f' \<longleftrightarrow> stopped f \<or> es \<noteq> []) \<and> (signaled f' \<longleftrightarrow> signaled f \<or> RealSignal \<in> set es) \<and>
     as = (let n = length (filter (\<lambda>e. e = RealSignal) es) in
           if signaled f then replicate n HardExit
           else if n = 0 then [] else DrainRun # replicate (n - 1) HardExit)"
proof (induction f es arbitrary: f' as rule: run_stop_events.induct)
  case (2 f e es)
  obtain f1 a where s: "on_stop_event e f = (f1, a)" by (cases "on_stop_event e f")
  obtain f2 as2 where r: "run_stop_events f1 es = (f2, as2)" by (cases "run_stop_events f1 es")
  show ?case
    using 2(2) s r 2(1) [OF s [symmetric] refl r]
    by (cases e) (auto simp: on_signal_def stop_def Let_def split: if_splits option.splits)
qed simp

text \<open>What a schedule of each kind holds, slot by slot.\<close>

lemma collect_eq_None: "collect f xs = None \<longleftrightarrow> (\<exists>x \<in> set xs. f x = None)"
  by (induction xs) (auto split: option.splits)

lemma from_secs_zero: "from_secs_f64 (Fin 0) = Some 0"
  by (simp add: duration_max_def rne_of_int [of 0, simplified])

lemma constant_schedule_exists:
  "schedule log_fn draw Constant n rate \<noteq> None \<longleftrightarrow> (\<forall>i<n. from_secs_f64
     (fmul (f_of_nat i) (if flt (Fin 0) rate then fdiv (Fin 1) rate else Fin 0)) \<noteq> None)"
  by (simp only: schedule_def arrival_kind.case Let_def collect_eq_None)
    (auto simp: slot_at_def simp del: not_None_eq)

lemma constant_schedule_order:
  assumes "n < 2 ^ 64" "is_finite rate" "schedule log_fn draw Constant n rate = Some slots"
  shows "map slot_seq slots = [0..<n] \<and> sorted (map scheduled_delay slots) \<and>
    (slots \<noteq> [] \<longrightarrow> scheduled_delay (hd slots) = 0) \<and>
    (\<forall>i<n. from_secs_f64 (fmul (f_of_nat i) (if flt (Fin 0) rate then fdiv (Fin 1) rate else Fin 0)) =
       Some (scheduled_delay (slots ! i)))"
proof -
  let ?dt = "if flt (Fin 0) rate then fdiv (Fin 1) rate else Fin 0"
  have c: "collect slot_at (map (\<lambda>seq. (seq, fmul (f_of_nat seq) ?dt)) [0..<n]) = Some slots"
    using assms(3) by (simp add: schedule_def Let_def)
  obtain r where r: "rate = Fin r" using assms(2) by (rule is_finiteE)
  then have nn: "nonneg ?dt" by (auto intro: nonneg_fdiv)
  note s = collect_slots [OF c]
  have at: "from_secs_f64 (fmul (f_of_nat i) ?dt) = Some (scheduled_delay (slots ! i))" if "i < n" for i
    using s that by simp
  have "scheduled_delay (hd slots) = 0" if "slots \<noteq> []"
  proof -
    have "from_secs_f64 (fmul (Fin 0) ?dt) = Some (scheduled_delay (hd slots))"
      using at [of 0] s that by (auto simp: hd_conv_nth)
    moreover have "fmul (Fin 0) ?dt \<noteq> Fin 0 \<Longrightarrow> from_secs_f64 (fmul (Fin 0) ?dt) = None"
      using nn by (cases ?dt) (auto simp: fmul_def finf_def nonneg_def split: if_splits)
    ultimately show ?thesis by (metis from_secs_zero option.distinct(1) option.inject)
  qed
  then show ?thesis using constant_offsets_sorted [OF assms(1) nn c] s at by (simp add: comp_def)
qed

lemma poisson_offsets_idle:
  "\<not> flt (Fin 0) lambda \<Longrightarrow> list_all (\<lambda>p. snd p = t) (poisson_offsets log_fn draw lambda t seqs)"
  by (induction seqs) (auto simp: Let_def)

lemma poisson_schedule_order:
  assumes "is_finite rate" "log_ok log_fn" "\<forall>k. draw k \<noteq> NaN"
    and "schedule log_fn draw Poisson n rate = Some slots"
  shows "map slot_seq slots = [0..<n] \<and> sorted (map scheduled_delay slots) \<and>
    (slots \<noteq> [] \<longrightarrow> scheduled_delay (hd slots) = 0) \<and>
    (\<not> flt (Fin 0) rate \<longrightarrow> list_all (\<lambda>s. scheduled_delay s = 0) slots)"
proof -
  let ?ps = "poisson_offsets log_fn draw (fmax rate (Fin 0)) (Fin 0) [0..<n]"
  have c: "collect slot_at ?ps = Some slots" using assms(4) by (simp add: schedule_def)
  obtain r where r: "rate = Fin r" using assms(1) by (rule is_finiteE)
  then have "is_finite (fmax rate (Fin 0))" by (simp add: fmax_def max_def)
  then have "sorted (map snd ?ps)"
    using poisson_offsets_sorted [OF assms(2,3), of "Fin 0" "fmax rate (Fin 0)" "[0..<n]"] by simp
  note so = collect_slots_sorted [OF c this]
  note s = collect_slots [OF c]
  have at: "from_secs_f64 (snd (?ps ! i)) = Some (scheduled_delay (slots ! i))" if "i < length slots" for i
    using s that by simp
  have "scheduled_delay (hd slots) = 0" if "slots \<noteq> []"
  proof -
    have "0 < n" using s that by (cases n) auto
    then have "snd (?ps ! 0) = Fin 0" by (simp add: upt_conv_Cons Let_def)
    then show ?thesis using at [of 0] that from_secs_zero by (simp add: hd_conv_nth)
  qed
  moreover have "scheduled_delay x = 0" if "\<not> flt (Fin 0) rate" and x: "x \<in> set slots" for x
  proof -
    have "\<not> flt (Fin 0) (fmax rate (Fin 0))" using that r by (simp add: fmax_def max_def)
    then have z: "list_all (\<lambda>p. snd p = Fin 0) ?ps" by (rule poisson_offsets_idle)
    obtain i where i: "i < length slots" "x = slots ! i" using x by (auto simp: in_set_conv_nth)
    have "?ps ! i \<in> set ?ps" using i s by (intro nth_mem) simp
    then have "snd (?ps ! i) = Fin 0" using z unfolding list_all_iff by blast
    with at [OF i(1)] i(2) from_secs_zero show ?thesis by (metis option.inject)
  qed
  ultimately show ?thesis using so s poisson_offsets_fst by (simp add: list_all_iff)
qed

subsection \<open>Properties\<close>

text \<open>
C9: An arrival schedule issues the requests in sequence order and never schedules one before
its predecessor: for a finite rate, a logarithm that is at most zero on the unit interval and
draws that are numbers, the sequence numbers of a schedule are 0 to n-1, the delays do not
decrease and the first one is zero for every kind. Closed-loop and burst schedules always exist
and are all zero. A constant schedule exists exactly when every offset is a representable
duration, and slot i is then due i times the rounded gap 1 / rate after the start (at once for a
rate that is not positive); a Poisson schedule of such a rate is all zero.
\<close>

theorem schedule_in_order:
  assumes "n < 2 ^ 64" "is_finite rate" "log_ok log_fn" "\<forall>k. draw k \<noteq> NaN"
  defines "offset \<equiv> \<lambda>i. from_secs_f64
    (fmul (f_of_nat i) (if flt (Fin 0) rate then fdiv (Fin 1) rate else Fin 0))"
  shows "(kind = ClosedLoop \<or> kind = Burst \<longrightarrow> schedule log_fn draw kind n rate =
       Some (map (\<lambda>i. \<lparr>slot_seq = i, scheduled_delay = 0\<rparr>) [0..<n])) \<and>
    (kind = Constant \<longrightarrow>
       (schedule log_fn draw kind n rate \<noteq> None \<longleftrightarrow> (\<forall>i<n. offset i \<noteq> None))) \<and>
    (\<forall>slots. schedule log_fn draw kind n rate = Some slots \<longrightarrow>
       map slot_seq slots = [0..<n] \<and> sorted (map scheduled_delay slots) \<and>
       (slots \<noteq> [] \<longrightarrow> scheduled_delay (hd slots) = 0) \<and>
       (kind = Constant \<longrightarrow> (\<forall>i<n. offset i = Some (scheduled_delay (slots ! i)))) \<and>
       (kind = Poisson \<and> \<not> flt (Fin 0) rate \<longrightarrow> list_all (\<lambda>s. scheduled_delay s = 0) slots))"
proof (cases kind)
  case Constant
  show ?thesis
    using constant_schedule_order [OF assms(1,2)] constant_schedule_exists Constant
    unfolding offset_def by blast
next
  case Poisson
  then show ?thesis using poisson_schedule_order [OF assms(2-4)] by blast
qed (auto simp: schedule_def comp_def list_all_iff sorted_iff_nth_mono hd_map)

theorem schedule_in_order_witness:
  "schedule (\<lambda>_. Fin 0) (\<lambda>_. Fin 1) Burst 2 (Fin 1) \<noteq> None \<and>
   (\<exists>slots. schedule (\<lambda>_. Fin 0) (\<lambda>_. Fin 1) Poisson 2 (Fin 1) = Some slots \<and>
      map slot_seq slots = [0..<2] \<and> scheduled_delay (hd slots) = 0)"
proof -
  have e: "\<exists>slots. schedule (\<lambda>_. Fin 0) (\<lambda>_. Fin 1) Poisson 2 (Fin 1) = Some slots \<and> slots \<noteq> []"
    by (simp add: schedule_def upt_rec numeral_2_eq_2 slot_at_def fmax_def fdiv_def duration_max_def
        rne_of_int [of 0, simplified] Let_def)
  then obtain slots where s: "schedule (\<lambda>_. Fin 0) (\<lambda>_. Fin 1) Poisson 2 (Fin 1) = Some slots" "slots \<noteq> []"
    by blast
  have l: "log_ok (\<lambda>_. Fin 0)" by (simp add: log_ok_def)
  have n: "(2::nat) < 2 ^ 64" "is_finite (Fin 1)" "\<forall>k::nat. Fin 1 \<noteq> NaN" by simp_all
  note p = schedule_in_order [OF n(1,2) l, of "\<lambda>_. Fin 1"]
  show ?thesis using p [of Burst] p [of Poisson] s by auto
qed

text \<open>
Stop signals: whatever sequence of internal stops and real signals arrives, only the second
and later real signals ask for a hard exit; the first one always drains, even after an internal
stop, and once stopped a run stays stopped.
\<close>

lemma first_signal_drains:
  "let (f, actions) = run_stop_events stop_new es; n = length (filter (\<lambda>e. e = RealSignal) es) in
   actions = (if n = 0 then [] else DrainRun # replicate (n - 1) HardExit) \<and>
   (is_stopped f \<longleftrightarrow> es \<noteq> [])"
  using run_stop_events_spec [of stop_new es]
  by (auto simp: stop_new_def is_stopped_def Let_def split: prod.splits if_splits)

text \<open>
The warmup barrier shifts the measured schedule without compressing it: the slot at the
barrier is due no earlier than the time the last warmup task ended, later slots keep their
distance to it, earlier ones are untouched; all warmup handles have been joined, every failed
join is counted, and the concurrency samples start afresh.
\<close>

lemma warmup_barrier_shifts:
  assumes "before_slot elapsed slot (barrier_new w, handles) = ((b, handles'), slot')"
    and "0 < w" "slot_seq slot = w"
    and "scheduled_delay slot \<le> scheduled_delay later"
    and "scheduled_delay later + elapsed \<le> duration_max"
  shows "handles' = [] \<and> join_errors b = length (filter (\<lambda>ok. \<not> ok) handles) \<and>
    scheduled_delay slot' = max elapsed (scheduled_delay slot) \<and>
    scheduled_delay (shifted b later) - scheduled_delay slot' = scheduled_delay later - scheduled_delay slot \<and>
    slot_seq (shifted b later) = slot_seq later \<and>
    shifted (barrier_new w) early = \<lparr>slot_seq = slot_seq early,
      scheduled_delay = min (scheduled_delay early) duration_max\<rparr>"
  using assms
  by (auto simp: before_slot_def barrier_new_def shifted_def dur_saturating_add_def
      dur_saturating_sub_def Let_def)

lemma warmup_barrier_shifts_example:
  "scheduled_delay (snd (before_slot 50 \<lparr>slot_seq = 2, scheduled_delay = 20\<rparr> (barrier_new 2, [True, False]))) = 50"
proof -
  let ?s = "\<lparr>slot_seq = 2, scheduled_delay = 20\<rparr>"
  obtain b h s' where e: "before_slot 50 ?s (barrier_new 2, [True, False]) = ((b, h), s')"
    by (metis surj_pair)
  show ?thesis
    using warmup_barrier_shifts [OF e, of ?s ?s] e by (simp add: duration_max_def)
qed

text \<open>
C8: The measured window covers every measured request and nothing else: it is never negative
or undefined; warmup and drain rows do not change it; when it is not zero, it runs from the
earliest send to the latest end among the measured rows, and every measured request lies in it.
The send and end times of the measured rows must be numbers (not NaN).
\<close>

theorem window_covers_measured:
  fixes records :: "request_record list"
  defines "rows \<equiv> filter (\<lambda>r. rr_phase r = Measure) records"
  assumes "list_all row_timed rows"
  shows "nonneg (window_seconds_from_records records) \<and>
    window_seconds_from_records records = window_seconds_from_records rows \<and>
    (window_seconds_from_records records = Fin 0 \<or>
     (\<exists>lo hi. window_seconds_from_records records = fsub hi lo \<and>
        (\<exists>r \<in> set rows. lo = send_offset_seconds r) \<and>
        (\<exists>r \<in> set rows. hi = fadd (send_offset_seconds r) (rr_latency_s r)) \<and>
        list_all (\<lambda>r. lo \<le> send_offset_seconds r \<and>
          fadd (send_offset_seconds r) (rr_latency_s r) \<le> hi) rows))"
proof -
  obtain lo hi where w: "window_loop rows (PInf, NInf) = (lo, hi)"
    by (cases "window_loop rows (PInf, NInf)")
  have e: "window_seconds_from_records records =
      (if rows = [] \<or> \<not> is_finite lo \<or> \<not> is_finite hi \<or> flt hi lo then Fin 0 else fsub hi lo)"
    unfolding window_seconds_from_records_def Let_def rows_def [symmetric] w by simp
  have same: "window_seconds_from_records records = window_seconds_from_records rows"
    by (simp add: window_seconds_from_records_def rows_def)
  show ?thesis
  proof (cases "rows = [] \<or> \<not> is_finite lo \<or> \<not> is_finite hi \<or> flt hi lo")
    case True
    then show ?thesis using e same by simp
  next
    case False
    then obtain a b where ab: "lo = Fin a" "hi = Fin b" "a \<le> b" by (auto elim!: is_finiteE)
    then have n: "nonneg (fsub hi lo)" by (simp add: fsub_def nonneg_rnd)
    have at: "(\<exists>r \<in> set rows. lo = send_offset_seconds r) \<and>
        (\<exists>r \<in> set rows. hi = fadd (send_offset_seconds r) (rr_latency_s r))"
      using window_loop_attained [OF w _ assms(2)] False ab by auto
    have "list_all (\<lambda>r. lo \<le> send_offset_seconds r \<and>
          fadd (send_offset_seconds r) (rr_latency_s r) \<le> hi) rows"
      using window_loop_bounds [OF assms(2) _ _ w] by simp
    then show ?thesis using e False n same at by auto
  qed
qed

theorem window_covers_measured_witness:
  "nonneg (window_seconds_from_records
     [with_send_offset 2000000000 (failed 1 Measure [] 0 5 1000000000 Timeout)])"
proof -
  let ?r = "with_send_offset 2000000000 (failed 1 Measure [] 0 5 1000000000 Timeout)"
  have "list_all row_timed (filter (\<lambda>r. rr_phase r = Measure) [?r])"
    by (simp add: row_timed_def send_offset_seconds_def with_send_offset_def failed_def as_secs_f64_def
        f_of_nat_exact fdiv_def rnd_of_int [of 2, simplified])
  from window_covers_measured [OF this] show ?thesis by blast
qed

text \<open>
The descriptor guard lets an uncapped burst through exactly when its population fits into
the soft limit less the headroom, and an unreadable limit falls back to 1024.
\<close>

lemma burst_guard_exact:
  "(uncapped_burst_fd_guard limits population = Inr () \<longleftrightarrow>
      population + (if fd_soft_limit limits < 128 then fd_soft_limit limits else 128) \<le> fd_soft_limit limits) \<and>
   (uncapped_burst_fd_guard None population = Inr () \<longleftrightarrow> population \<le> 896)"
  by (auto simp: uncapped_burst_fd_guard_def BURST_FD_HEADROOM_def fd_soft_limit_def FD_FALLBACK_def Let_def)

end
