(* ===== verification/Time_Weighted.thy ===== *)
theory Time_Weighted
  imports F64 "HOL-Library.Multiset"
begin

text \<open>
  Time-weighted metrics of a run (\<open>src/time_weighted.rs\<close>): the spans of the measured
  successes are turned into segments, and a sweep line over the segments' events yields the
  integral, the active time and the peak. The sweep is a loop that need not end on every event
  list, since its inner loop compares times with \<open>==\<close>; it is a \<open>partial_function\<close> whose
  value \<open>None\<close> is a run that never returns.
\<close>

record request_span =
  start_s :: f64
  latency_s :: f64
  prefill_end_s :: "f64 option"
  input_tokens :: "nat option"
  output_tokens :: "nat option"

record time_weighted_stat =
  tw_n :: nat
  tw_avg :: "f64 option"
  tw_active_avg :: "f64 option"
  tw_max :: "f64 option"
  tw_active_s :: "f64 option"

record time_weighted_metrics =
  effective_concurrency :: time_weighted_stat
  effective_prefill_concurrency :: time_weighted_stat
  effective_decode_concurrency :: time_weighted_stat
  tokens_in_flight :: time_weighted_stat
  effective_prefill_throughput :: time_weighted_stat
  effective_decode_throughput :: time_weighted_stat

record segment =
  seg_start :: f64
  seg_end :: f64
  seg_level :: f64
  seg_slope :: f64

definition flat :: "f64 \<Rightarrow> f64 \<Rightarrow> f64 \<Rightarrow> segment" where
  "flat s e l = \<lparr>seg_start = s, seg_end = e, seg_level = l, seg_slope = Fin 0\<rparr>"

subsection \<open>The sweep line\<close>

type_synonym event = "f64 \<times> int \<times> f64 \<times> f64"

record sweep_state =
  sw_open :: int
  sw_a :: f64
  sw_b :: f64
  sw_max :: f64
  sw_active :: f64

definition clip_start :: "segment \<Rightarrow> f64" where
  "clip_start seg = fmax (seg_start seg) (Fin 0)"

definition clip_end :: "f64 \<Rightarrow> segment \<Rightarrow> f64" where
  "clip_end w seg = fmin (seg_end seg) w"

text \<open>One segment: its area is added to the integral, its two events are appended.\<close>

definition add_segment :: "f64 \<Rightarrow> f64 \<times> event list \<Rightarrow> segment \<Rightarrow> f64 \<times> event list" where
  "add_segment w acc seg =
     (let s = clip_start seg; e = clip_end w seg in
      if fle e s then acc
      else let level = fadd (seg_level seg) (fmul (seg_slope seg) (fsub s (seg_start seg)));
               width = fsub e s;
               a = fsub level (fmul (seg_slope seg) s)
           in (fadd (fst acc) (fadd (fmul width level)
                 (fdiv (fmul (fmul (seg_slope seg) width) width) (Fin 2))),
               snd acc @ [(s, 1, a, seg_slope seg), (e, - 1, fneg a, fneg (seg_slope seg))]))"

definition sweep_events :: "f64 \<Rightarrow> segment list \<Rightarrow> f64 \<times> event list" where
  "sweep_events w segs = foldl (add_segment w) (Fin 0, []) segs"

fun apply_group :: "f64 \<Rightarrow> event list \<Rightarrow> sweep_state \<Rightarrow> event list \<times> sweep_state" where
  "apply_group t [] s = ([], s)"
| "apply_group t ((t', d, a, b) # es) s =
     (if feq t' t
      then apply_group t es (s\<lparr>sw_open := sw_open s + d, sw_a := fadd (sw_a s) a, sw_b := fadd (sw_b s) b\<rparr>)
      else ((t', d, a, b) # es, s))"

definition peak_seen :: "f64 \<Rightarrow> sweep_state \<Rightarrow> sweep_state" where
  "peak_seen t s =
     (if 0 < sw_open s then s\<lparr>sw_max := fmax (sw_max s) (fadd (sw_a s) (fmul (sw_b s) t))\<rparr> else s)"

definition close_group :: "f64 \<Rightarrow> event list \<Rightarrow> sweep_state \<Rightarrow> sweep_state" where
  "close_group t rest s =
     (if 0 < sw_open s then
        (case rest of
           [] \<Rightarrow> peak_seen t s
         | e # _ \<Rightarrow> (peak_seen t s)\<lparr>sw_active := fadd (sw_active s) (fsub (fst e) t)\<rparr>)
      else s\<lparr>sw_a := Fin 0, sw_b := Fin 0\<rparr>)"

definition sweep_step :: "f64 \<Rightarrow> event list \<Rightarrow> sweep_state \<Rightarrow> event list \<times> sweep_state" where
  "sweep_step t es s =
     (case apply_group t es (peak_seen t s) of (rest, s') \<Rightarrow> (rest, close_group t rest s'))"

partial_function (option) sweep_loop :: "event list \<Rightarrow> sweep_state \<Rightarrow> sweep_state option" where
  "sweep_loop es s =
     (case es of
        [] \<Rightarrow> Some s
      | e # _ \<Rightarrow> (case sweep_step (fst e) es s of (rest, s') \<Rightarrow> sweep_loop rest s'))"

definition sweep_init :: sweep_state where
  "sweep_init = \<lparr>sw_open = 0, sw_a = Fin 0, sw_b = Fin 0, sw_max = Fin 0, sw_active = Fin 0\<rparr>"

definition empty_stat :: "nat \<Rightarrow> time_weighted_stat" where
  "empty_stat n = \<lparr>tw_n = n, tw_avg = None, tw_active_avg = None, tw_max = None, tw_active_s = None\<rparr>"

definition sweep :: "segment list \<Rightarrow> nat \<Rightarrow> f64 \<Rightarrow> time_weighted_stat option" where
  "sweep segs n w =
     (if n = 0 \<or> \<not> is_finite w \<or> fle w (Fin 0) then Some (empty_stat n)
      else case sweep_events w segs of
        (integral, events) \<Rightarrow>
          map_option
            (\<lambda>s. \<lparr>tw_n = n, tw_avg = Some (fdiv integral w),
                  tw_active_avg = (if flt (Fin 0) (sw_active s) then Some (fdiv integral (sw_active s)) else None),
                  tw_max = Some (sw_max s), tw_active_s = Some (sw_active s)\<rparr>)
            (sweep_loop (sort_key fst events) sweep_init))"

subsection \<open>The segments of a run\<close>

definition span_ok :: "request_span \<Rightarrow> bool" where
  "span_ok r \<longleftrightarrow> is_finite (start_s r) \<and> is_finite (latency_s r) \<and> \<not> flt (latency_s r) (Fin 0)"

definition span_first :: "request_span \<Rightarrow> f64 option" where
  "span_first r = map_option (\<lambda>v. fclamp v (Fin 0) (latency_s r)) (option_filter is_finite (prefill_end_s r))"

record segments =
  sg_all :: "segment list"
  sg_prefill :: "segment list"
  sg_decode :: "segment list"
  sg_tokens :: "segment list"
  sg_prefill_rate :: "segment list"
  sg_decode_rate :: "segment list"
  n_split :: nat
  n_tokens :: nat
  n_prefill_rate :: nat
  n_decode_rate :: nat

definition add_tokens :: "request_span \<Rightarrow> f64 \<Rightarrow> f64 \<Rightarrow> f64 \<Rightarrow> f64 \<Rightarrow> segments \<Rightarrow> segments" where
  "add_tokens r s e split decode_s g =
     (case (input_tokens r, output_tokens r) of
        (Some itok, Some otok) \<Rightarrow>
          g\<lparr>n_tokens := n_tokens g + 1,
            sg_tokens := sg_tokens g @
              [flat s split (f_of_nat itok),
               \<lparr>seg_start = split, seg_end = e, seg_level = f_of_nat itok,
                seg_slope = (if flt (Fin 0) decode_s then fdiv (f_of_nat otok) decode_s else Fin 0)\<rparr>]\<rparr>
      | _ \<Rightarrow> g)"

definition add_rates :: "request_span \<Rightarrow> f64 \<Rightarrow> f64 \<Rightarrow> f64 \<Rightarrow> f64 \<Rightarrow> f64 \<Rightarrow> segments \<Rightarrow> segments" where
  "add_rates r s e split first decode_s g =
     (let g1 = (case option_filter (\<lambda>t. 0 < t) (input_tokens r) of
                  Some itok \<Rightarrow>
                    if flt (Fin 0) first
                    then g\<lparr>n_prefill_rate := n_prefill_rate g + 1,
                           sg_prefill_rate := sg_prefill_rate g @ [flat s split (fdiv (f_of_nat itok) first)]\<rparr>
                    else g
                | None \<Rightarrow> g)
      in case option_filter (\<lambda>t. 0 < t) (output_tokens r) of
           Some otok \<Rightarrow>
             if flt (Fin 0) decode_s
             then g1\<lparr>n_decode_rate := n_decode_rate g1 + 1,
                     sg_decode_rate := sg_decode_rate g1 @ [flat split e (fdiv (f_of_nat otok) decode_s)]\<rparr>
             else g1
         | None \<Rightarrow> g1)"

definition add_span :: "f64 \<Rightarrow> segments \<Rightarrow> request_span \<Rightarrow> segments" where
  "add_span ws g r =
     (if \<not> span_ok r then g
      else let s = fsub (start_s r) ws; e = fadd s (latency_s r);
               g1 = g\<lparr>sg_all := sg_all g @ [flat s e (Fin 1)]\<rparr>
           in case span_first r of
                None \<Rightarrow> g1
              | Some first \<Rightarrow>
                  let split = fadd s first; decode_s = fsub (latency_s r) first;
                      g2 = g1\<lparr>n_split := n_split g1 + 1,
                              sg_prefill := sg_prefill g1 @ [flat s split (Fin 1)],
                              sg_decode := sg_decode g1 @ [flat split e (Fin 1)]\<rparr>
                  in add_rates r s e split first decode_s (add_tokens r s e split decode_s g2))"

definition no_segments :: segments where
  "no_segments =
     \<lparr>sg_all = [], sg_prefill = [], sg_decode = [], sg_tokens = [], sg_prefill_rate = [],
      sg_decode_rate = [], n_split = 0, n_tokens = 0, n_prefill_rate = 0, n_decode_rate = 0\<rparr>"

definition segments_of :: "f64 \<Rightarrow> request_span list \<Rightarrow> segments" where
  "segments_of ws spans = foldl (add_span ws) no_segments spans"

definition compute :: "request_span list \<Rightarrow> f64 \<Rightarrow> f64 \<Rightarrow> time_weighted_metrics option" where
  "compute spans ws w =
     (let g = segments_of ws spans in
      case (sweep (sg_all g) (length (sg_all g)) w, sweep (sg_prefill g) (n_split g) w,
            sweep (sg_decode g) (n_split g) w, sweep (sg_tokens g) (n_tokens g) w,
            sweep (sg_prefill_rate g) (n_prefill_rate g) w, sweep (sg_decode_rate g) (n_decode_rate g) w) of
        (Some a, Some b, Some c, Some d, Some e, Some f) \<Rightarrow>
          Some \<lparr>effective_concurrency = a, effective_prefill_concurrency = b,
                effective_decode_concurrency = c, tokens_in_flight = d,
                effective_prefill_throughput = e, effective_decode_throughput = f\<rparr>
      | _ \<Rightarrow> None)"

subsection \<open>The sweep ends\<close>

definition apply_event :: "sweep_state \<Rightarrow> event \<Rightarrow> sweep_state" where
  "apply_event s e =
     s\<lparr>sw_open := sw_open s + fst (snd e), sw_a := fadd (sw_a s) (fst (snd (snd e))),
       sw_b := fadd (sw_b s) (snd (snd (snd e)))\<rparr>"

lemma apply_group_split:
  "t \<noteq> NaN \<Longrightarrow> apply_group t es s =
     (dropWhile (\<lambda>e. fst e = t) es, foldl apply_event s (takeWhile (\<lambda>e. fst e = t) es))"
  by (induction t es s rule: apply_group.induct) (auto simp: feq_def apply_event_def)

lemma sweep_loop_Nil [simp]: "sweep_loop [] s = Some s"
  by (simp add: sweep_loop.simps)

lemma sweep_loop_Cons:
  assumes "fst e \<noteq> NaN"
  shows "sweep_loop (e # es) s =
    (let g = takeWhile (\<lambda>x. fst x = fst e) (e # es); rest = dropWhile (\<lambda>x. fst x = fst e) (e # es) in
     sweep_loop rest (close_group (fst e) rest (foldl apply_event (peak_seen (fst e) s) g)))"
  by (subst sweep_loop.simps)
    (simp add: sweep_step_def apply_group_split [OF assms] Let_def del: takeWhile.simps dropWhile.simps)

lemma sweep_loop_returns: "\<forall>e \<in> set es. fst e \<noteq> NaN \<Longrightarrow> \<exists>s'. sweep_loop es s = Some s'"
proof (induction "length es" arbitrary: es s rule: less_induct)
  case less
  show ?case
  proof (cases es)
    case (Cons e es')
    let ?rest = "dropWhile (\<lambda>x. fst x = fst e) (e # es')"
    have "length ?rest < length es" using Cons by (simp add: length_dropWhile_le le_imp_less_Suc)
    moreover have "\<forall>x \<in> set ?rest. fst x \<noteq> NaN" using less.prems Cons by (auto dest: set_dropWhileD)
    ultimately show ?thesis
      using less.hyps less.prems Cons by (simp add: sweep_loop_Cons Let_def del: dropWhile.simps takeWhile.simps)
  qed simp
qed

text \<open>An event at NaN never leaves the inner loop's guard: the sweep would spin forever.\<close>

lemma sweep_loop_NaN:
  assumes "sweep_loop es s = Some s'" "es \<noteq> []"
  shows "fst (hd es) \<noteq> NaN"
proof -
  have "es \<noteq> [] \<longrightarrow> fst (hd es) \<noteq> NaN"
  proof (rule sweep_loop.raw_induct [OF _ assms(1), where P = "\<lambda>es _ _. es \<noteq> [] \<longrightarrow> fst (hd es) \<noteq> NaN"])
    fix loop :: "event list \<Rightarrow> sweep_state \<Rightarrow> sweep_state option" and es s y
    assume IH: "\<And>es s y. loop es s = Some y \<Longrightarrow> es \<noteq> [] \<longrightarrow> fst (hd es) \<noteq> NaN"
      and eq: "(case es of [] \<Rightarrow> Some s
        | e # _ \<Rightarrow> (case sweep_step (fst e) es s of (rest, s') \<Rightarrow> loop rest s')) = Some y"
    show "es \<noteq> [] \<longrightarrow> fst (hd es) \<noteq> NaN"
    proof (cases es)
      case (Cons e es')
      obtain t d a b where e: "e = (t, d, a, b)" by (metis prod.exhaust)
      have "sweep_step NaN es s = (es, close_group NaN es (peak_seen NaN s))" if "t = NaN"
        using that Cons e by (simp add: sweep_step_def feq_def)
      then show ?thesis using IH eq Cons e by fastforce
    qed simp
  qed
  then show ?thesis using assms(2) by simp
qed

subsection \<open>Unit segments\<close>

definition bal :: "event list \<Rightarrow> int" where
  "bal es = (\<Sum>e \<leftarrow> es. fst (snd e))"

lemma bal_simps [simp]: "bal [] = 0" "bal (e # es) = fst (snd e) + bal es" "bal (xs @ ys) = bal xs + bal ys"
  by (simp_all add: bal_def)

definition unit_event :: "event \<Rightarrow> bool" where
  "unit_event e \<longleftrightarrow> is_finite (fst e) \<and> \<bar>fst (snd e)\<bar> = 1 \<and> snd (snd e) = (Fin (of_int (fst (snd e))), Fin 0)"

definition counts :: "int \<Rightarrow> sweep_state \<Rightarrow> bool" where
  "counts n s \<longleftrightarrow> sw_open s = n \<and> sw_a s = Fin (of_int n) \<and> sw_b s = Fin 0"

lemma counts_apply:
  assumes "counts n s" "list_all unit_event es" "\<bar>n\<bar> + int (length es) \<le> 2 ^ 53"
  shows "counts (n + bal es) (foldl apply_event s es) \<and> sw_max (foldl apply_event s es) = sw_max s"
  using assms
proof (induction es arbitrary: s n)
  case (Cons e es)
  then have u: "\<bar>fst (snd e)\<bar> = 1" "fst (snd (snd e)) = Fin (of_int (fst (snd e)))" "snd (snd (snd e)) = Fin 0"
    by (simp_all add: unit_event_def)
  have b: "\<bar>n + fst (snd e)\<bar> + int (length es) \<le> 2 ^ 53" using Cons.prems(3) u(1) by simp
  then have "\<bar>n + fst (snd e)\<bar> \<le> 2 ^ 53" by linarith
  from rnd_of_int [OF this] have "rnd (of_int n + of_int (fst (snd e))) = Fin (of_int (n + fst (snd e)))"
    by simp
  then have "counts (n + fst (snd e)) (apply_event s e)" "sw_max (apply_event s e) = sw_max s"
    using Cons.prems(1) u by (simp_all add: counts_def apply_event_def)
  from Cons.IH [OF this(1) _ b] this(2) show ?case using Cons.prems by (simp add: add.assoc)
qed simp

lemma counts_value:
  assumes "counts n s" "\<bar>n\<bar> \<le> 2 ^ 53" "is_finite t"
  shows "fadd (sw_a s) (fmul (sw_b s) t) = Fin (of_int n)"
  using assms rnd_of_int [OF assms(2)] by (auto simp: counts_def fmul_def elim!: is_finiteE)

lemma counts_raise:
  assumes "counts n s" "\<bar>n\<bar> \<le> 2 ^ 53" "is_finite t" "sw_max s = Fin (of_int m)" "0 \<le> m"
  shows "sw_max (peak_seen t s) = Fin (of_int (max m n)) \<and> counts n (peak_seen t s)"
proof (cases "0 < n")
  case True
  then show ?thesis using assms counts_value [OF assms(1-3)]
    by (auto simp: peak_seen_def counts_def fmax_def max_def)
next
  case False
  then show ?thesis using assms by (auto simp: peak_seen_def counts_def max_def)
qed

lemma counts_close:
  assumes "counts n s" "0 \<le> n" "n \<le> 2 ^ 53" "is_finite t" "sw_max s = Fin (of_int m)" "0 \<le> m"
  shows "sw_max (close_group t rest s) = Fin (of_int (max m n)) \<and> counts n (close_group t rest s)"
proof (cases "0 < n")
  case True
  with assms counts_raise [of n s t m] show ?thesis
    by (auto simp: close_group_def counts_def split: list.split)
next
  case False
  with assms have "n = 0" by simp
  with assms show ?thesis by (auto simp: close_group_def counts_def max_def)
qed

definition until_time :: "f64 \<Rightarrow> event list \<Rightarrow> event list" where
  "until_time x es = filter (\<lambda>e. fst e \<le> x) es"

lemma sorted_group:
  assumes "sorted (map fst (e # es))"
  shows "takeWhile (\<lambda>x. fst x = fst e) (e # es) = until_time (fst e) (e # es)"
    "dropWhile (\<lambda>x. fst x = fst e) (e # es) = filter (\<lambda>x. fst e < fst x) (e # es)"
proof -
  have "takeWhile (\<lambda>x. fst x = t) xs = filter (\<lambda>x. fst x \<le> t) xs \<and>
      dropWhile (\<lambda>x. fst x = t) xs = filter (\<lambda>x. t < fst x) xs"
    if "sorted (map fst xs)" "\<forall>x \<in> set xs. t \<le> fst x" for t :: f64 and xs :: "event list"
    using that
  proof (induction xs)
    case (Cons x xs)
    show ?case
    proof (cases "fst x = t")
      case False
      then have "\<forall>y \<in> set (x # xs). t < fst y" using Cons.prems by (auto simp: le_less)
      then have "filter (\<lambda>x. fst x \<le> t) (x # xs) = []" "filter (\<lambda>x. t < fst x) (x # xs) = x # xs"
        by (auto simp: filter_empty_conv not_le)
      then show ?thesis using False by simp
    qed (use Cons in auto)
  qed simp
  from this [of "e # es" "fst e"] assms
  show "takeWhile (\<lambda>x. fst x = fst e) (e # es) = until_time (fst e) (e # es)"
    "dropWhile (\<lambda>x. fst x = fst e) (e # es) = filter (\<lambda>x. fst e < fst x) (e # es)"
    by (auto simp: until_time_def)
qed

lemma bal_until_time_later:
  assumes "t \<le> x"
  shows "bal (until_time x es) = bal (until_time t es) + bal (until_time x (filter (\<lambda>e. t < fst e) es))"
  using assms by (induction es) (auto simp: until_time_def not_le)

lemma loop_peak:
  assumes "sorted (map fst es)" "list_all unit_event es" "counts n s" "0 \<le> n" "n + int (length es) \<le> 2 ^ 53"
    "sw_max s = Fin (of_int m)" "n \<le> m" "\<And>x. 0 \<le> n + bal (until_time x es)"
  shows "\<exists>s' M. sweep_loop es s = Some s' \<and> sw_max s' = Fin (of_int M) \<and> m \<le> M \<and>
    (\<forall>x. n + bal (until_time x es) \<le> M) \<and> (M = m \<or> (\<exists>x. n + bal (until_time x es) = M))"
  using assms
proof (induction "length es" arbitrary: es s n m rule: less_induct)
  case less
  show ?case
  proof (cases es)
    case Nil
    then show ?thesis using less.prems by (auto simp: until_time_def)
  next
    case (Cons e es')
    let ?t = "fst e" and ?rest = "filter (\<lambda>x. fst e < fst x) es"
    let ?g = "until_time ?t es" and ?n = "n + bal (until_time ?t es)"
    let ?s1 = "foldl apply_event (peak_seen ?t s) ?g"
    let ?s2 = "close_group ?t ?rest ?s1"
    have t: "is_finite ?t" using less.prems(2) Cons by (simp add: unit_event_def)
    have tn: "?t \<noteq> NaN" using t by auto
    have len: "length ?g + length ?rest = length es"
      using sum_length_filter_compl [of "\<lambda>x. fst x \<le> ?t" es] by (simp add: until_time_def not_le)
    have ge: "1 \<le> length ?g" using Cons by (simp add: until_time_def)
    have unit: "list_all unit_event ?g" "list_all unit_event ?rest"
      using less.prems(2) by (auto simp: until_time_def list_all_iff)
    have nb: "\<bar>n\<bar> \<le> 2 ^ 53" "\<bar>n\<bar> + int (length ?g) \<le> 2 ^ 53" using less.prems(4,5) len by auto
    have r: "sw_max (peak_seen ?t s) = Fin (of_int m) \<and> counts n (peak_seen ?t s)"
      using counts_raise [OF less.prems(3) nb(1) t less.prems(6)] less.prems(4,7) by (simp add: max_def)
    from counts_apply [OF conjunct2 [OF r] unit(1) nb(2)] r
    have c1: "counts ?n ?s1" "sw_max ?s1 = Fin (of_int m)" by simp_all
    have n0: "0 \<le> ?n" using less.prems(8) .
    have balb: "bal xs \<le> int (length xs)" if "list_all unit_event xs" for xs
      using that by (induction xs) (auto simp: unit_event_def)
    have nl: "?n + int (length ?rest) \<le> 2 ^ 53" using balb [OF unit(1)] less.prems(5) len by linarith
    have c2: "sw_max ?s2 = Fin (of_int (max m ?n)) \<and> counts ?n ?s2"
      by (rule counts_close [OF c1(1) n0 _ t c1(2)]) (use nl less.prems(4,7) in linarith)+
    have later: "n + bal (until_time x es) = ?n + bal (until_time x ?rest)" if "?t \<le> x" for x
      using bal_until_time_later [OF that, of es] by simp
    have early: "until_time x ?rest = []" if "x < ?t" for x using that by (auto simp: until_time_def filter_empty_conv)
    have early': "until_time x es = []" if "x < ?t" for x
      using that less.prems(1) Cons by (force simp: until_time_def filter_empty_conv)
    have pos: "0 \<le> ?n + bal (until_time x ?rest)" for x
    proof (cases "?t \<le> x")
      case True
      show ?thesis using less.prems(8) [of x] unfolding later [OF True] .
    next
      case False
      then have "until_time x ?rest = []" by (intro early) simp
      then show ?thesis using n0 by simp
    qed
    have lt: "length ?rest < length es" using len ge by simp
    have srt: "sorted (map fst ?rest)" using less.prems(1) by (simp add: sorted_filter)
    have mx: "?n \<le> max m ?n" by simp
    from less.hyps [OF lt srt unit(2) conjunct2 [OF c2] n0 nl conjunct1 [OF c2] mx pos]
    obtain s' M where ih0: "sweep_loop ?rest ?s2 = Some s' \<and> sw_max s' = Fin (of_int M) \<and>
      max m ?n \<le> M \<and> (\<forall>x. ?n + bal (until_time x ?rest) \<le> M) \<and>
      (M = max m ?n \<or> (\<exists>x. ?n + bal (until_time x ?rest) = M))"
      by (elim exE)
    have ih: "sweep_loop ?rest ?s2 = Some s'" "sw_max s' = Fin (of_int M)"
      "max m ?n \<le> M" "\<forall>x. ?n + bal (until_time x ?rest) \<le> M"
      "M = max m ?n \<or> (\<exists>x. ?n + bal (until_time x ?rest) = M)"
      by (rule conjunct1 [OF ih0], rule conjunct1 [OF conjunct2 [OF ih0]],
          rule conjunct1 [OF conjunct2 [OF conjunct2 [OF ih0]]],
          rule conjunct1 [OF conjunct2 [OF conjunct2 [OF conjunct2 [OF ih0]]]],
          rule conjunct2 [OF conjunct2 [OF conjunct2 [OF conjunct2 [OF ih0]]]])
    have "sweep_loop es s = Some s'"
      using ih(1) less.prems(1) Cons
      by (simp add: sweep_loop_Cons [OF tn] sorted_group Let_def del: takeWhile.simps dropWhile.simps filter.simps)
    moreover have "n + bal (until_time x es) \<le> M" for x
    proof (cases "?t \<le> x")
      case True
      show ?thesis unfolding later [OF True] using ih(4) by (rule spec)
    next
      case False
      then have "until_time x es = []" by (intro early') simp
      then show ?thesis using ih(3) less.prems(7) by simp
    qed
    moreover have "M = m \<or> (\<exists>x. n + bal (until_time x es) = M)"
    proof (cases "M = max m ?n")
      case True
      then show ?thesis by (auto simp: max_def)
    next
      case False
      then obtain x where x: "?n + bal (until_time x ?rest) = M" using ih(5) by blast
      have "?t \<le> x"
      proof (rule ccontr)
        assume "\<not> ?t \<le> x"
        then have "until_time x ?rest = []" by (intro early) simp
        then show False using x False ih(3) by simp
      qed
      from later [OF this] x show ?thesis by metis
    qed
    ultimately show ?thesis using ih(2,3) by auto
  qed
qed

subsection \<open>Spans and their peak\<close>

definition unit_segment :: "segment \<Rightarrow> bool" where
  "unit_segment seg \<longleftrightarrow> is_finite (seg_start seg) \<and> is_f64 (seg_start seg) \<and> is_finite (seg_end seg) \<and>
     seg_level seg = Fin 1 \<and> seg_slope seg = Fin 0"

definition live_at :: "f64 \<Rightarrow> f64 \<Rightarrow> segment \<Rightarrow> bool" where
  "live_at w t seg \<longleftrightarrow> clip_start seg \<le> t \<and> t < clip_end w seg"

definition unit_pair :: "f64 \<Rightarrow> segment \<Rightarrow> event list" where
  "unit_pair w seg =
     (if fle (clip_end w seg) (clip_start seg) then []
      else [(clip_start seg, 1, Fin 1, Fin 0), (clip_end w seg, - 1, Fin (- 1), Fin 0)])"

lemma clip_not_NaN: "clip_start seg \<noteq> NaN" "w \<noteq> NaN \<Longrightarrow> clip_end w seg \<noteq> NaN"
  by (auto simp: clip_start_def clip_end_def fmax_def fmin_def max_def min_def)

lemma clip_finite:
  assumes "unit_segment seg" "is_finite w"
  shows "is_finite (clip_start seg)" "is_finite (clip_end w seg)"
  using assms by (auto simp: unit_segment_def clip_start_def clip_end_def fmax_def fmin_def max_def min_def)

lemma add_unit_segment:
  assumes "unit_segment seg" "is_finite w"
  shows "snd (add_segment w acc seg) = snd acc @ unit_pair w seg"
proof -
  obtain a where a: "seg_start seg = Fin a" "rnd a = Fin a" and l: "seg_level seg = Fin 1" "seg_slope seg = Fin 0"
    using assms(1) by (auto simp: unit_segment_def elim!: is_finiteE)
  obtain r where r: "rnd_rat a = r" "\<not> 2 ^ 1024 \<le> r" "\<not> r \<le> - (2 ^ 1024)"
    using a(2) by (auto simp: rnd_def Let_def split: if_splits)
  have "is_finite (rnd (- a))" using r by (auto simp: rnd_def Let_def rnd_rat_uminus)
  then have "is_finite (fsub (clip_start seg) (seg_start seg))"
    using a by (auto simp: fsub_def clip_start_def fmax_def max_def elim!: is_finiteE)
  then have "fadd (Fin 1) (fmul (Fin 0) (fsub (clip_start seg) (seg_start seg))) = Fin 1"
    by (auto simp: fmul_def elim!: is_finiteE)
  moreover have "fsub (Fin 1) (fmul (Fin 0) (clip_start seg)) = Fin 1"
    using clip_finite(1) [OF assms] by (auto simp: fmul_def fsub_def elim!: is_finiteE)
  ultimately show ?thesis using l by (simp add: add_segment_def Let_def unit_pair_def)
qed

lemma sweep_events_unit:
  assumes "\<forall>seg \<in> set segs. unit_segment seg" "is_finite w"
  shows "snd (sweep_events w segs) = concat (map (unit_pair w) segs)"
proof -
  have "snd (foldl (add_segment w) acc segs) = snd acc @ concat (map (unit_pair w) segs)" for acc
    using assms(1) by (induction segs arbitrary: acc) (simp_all add: add_unit_segment [OF _ assms(2)])
  then show ?thesis by (simp add: sweep_events_def)
qed

lemma bal_mset: "mset xs = mset ys \<Longrightarrow> bal xs = bal ys"
  by (simp add: bal_def flip: sum_mset_sum_list)

lemma bal_sort: "bal (until_time x (sort_key fst es)) = bal (until_time x es)"
  by (rule bal_mset) (simp add: until_time_def)

lemma bal_pairs:
  assumes "is_finite w"
  shows "bal (until_time t (concat (map (unit_pair w) segs))) = int (length (filter (live_at w t) segs))"
proof (induction segs)
  case (Cons seg segs)
  have "w \<noteq> NaN" using assms by auto
  note nn = clip_not_NaN(1) [of seg] clip_not_NaN(2) [OF this, of seg]
  have "bal (until_time t (unit_pair w seg)) = of_bool (live_at w t seg)"
    using nn by (auto simp: unit_pair_def until_time_def live_at_def fle_def not_le dest: leD)
  moreover have "until_time t (unit_pair w seg @ es) = until_time t (unit_pair w seg) @ until_time t es" for es
    by (simp add: until_time_def)
  ultimately show ?case using Cons by simp
qed (simp add: until_time_def)

lemma sweep_events_times:
  assumes "w \<noteq> NaN" "\<forall>e \<in> set (snd acc). fst e \<noteq> NaN"
  shows "\<forall>e \<in> set (snd (foldl (add_segment w) acc segs)). fst e \<noteq> NaN"
  using assms(2)
proof (induction segs arbitrary: acc)
  case (Cons seg segs)
  have "\<forall>e \<in> set (snd (add_segment w acc seg)). fst e \<noteq> NaN"
    using Cons.prems clip_not_NaN(1) [of seg] clip_not_NaN(2) [OF assms(1), of seg]
    by (auto simp: add_segment_def Let_def)
  from Cons.IH [OF this] show ?case by simp
qed simp

lemma sweep_returns: "\<exists>st. sweep segs n w = Some st"
proof (cases "n = 0 \<or> \<not> is_finite w \<or> fle w (Fin 0)")
  case False
  then have "w \<noteq> NaN" by auto
  then have "\<forall>e \<in> set (sort_key fst (snd (sweep_events w segs))). fst e \<noteq> NaN"
    unfolding sweep_events_def set_sort by (rule sweep_events_times) simp
  from sweep_loop_returns [OF this, of sweep_init] show ?thesis
    by (auto simp: sweep_def split: prod.split)
qed (simp add: sweep_def)

lemma sweep_peak:
  assumes "\<forall>seg \<in> set segs. unit_segment seg" "is_finite w" "flt (Fin 0) w" "2 * length segs \<le> 2 ^ 53"
    "n \<noteq> 0" "sweep segs n w = Some st"
  shows "\<exists>m. tw_max st = Some (f_of_nat m) \<and> (\<forall>t. length (filter (live_at w t) segs) \<le> m) \<and>
    (\<exists>t. length (filter (live_at w t) segs) = m)"
proof -
  let ?E = "snd (sweep_events w segs)" and ?live = "\<lambda>t. int (length (filter (live_at w t) segs))"
  have E: "?E = concat (map (unit_pair w) segs)" by (rule sweep_events_unit [OF assms(1,2)])
  have bal: "bal (until_time t (sort_key fst ?E)) = ?live t" for t
    by (simp add: bal_sort E bal_pairs [OF assms(2)])
  have u: "list_all unit_event (sort_key fst ?E)"
    using assms(1) clip_finite [OF _ assms(2)]
    by (auto simp: list_all_iff E unit_pair_def unit_event_def)
  have pair: "length (unit_pair w seg) \<le> 2" for seg by (simp add: unit_pair_def)
  have "length ?E \<le> 2 * length segs" unfolding E
  proof (induction segs)
    case (Cons seg segs)
    then show ?case using pair [of seg] by simp
  qed simp
  then have len: "0 + int (length (sort_key fst ?E)) \<le> 2 ^ 53" using assms(4) by simp
  have "\<not> (n = 0 \<or> \<not> is_finite w \<or> fle w (Fin 0))"
    using assms(2,3,5) by (auto simp: fle_def flt_def)
  then obtain s where s: "sweep_loop (sort_key fst ?E) sweep_init = Some s" "tw_max st = Some (sw_max s)"
    using assms(6) by (auto simp: sweep_def split: prod.splits)
  have init: "counts 0 sweep_init" "sw_max sweep_init = Fin (of_int 0)" by (simp_all add: counts_def sweep_init_def)
  have pos: "0 \<le> 0 + bal (until_time x (sort_key fst ?E))" for x by (simp add: bal)
  from loop_peak [OF sorted_sort_key u init(1) order_refl len init(2) order_refl pos] s(1)
  obtain M where M: "sw_max s = Fin (of_int M)" "0 \<le> M" "\<forall>x. ?live x \<le> M" "M = 0 \<or> (\<exists>x. ?live x = M)"
    by (auto simp: bal)
  have ex: "\<exists>x. ?live x = M"
  proof (cases "M = 0")
    case True
    then show ?thesis using M(3) by (metis of_nat_0_le_iff order_antisym)
  qed (use M(4) in blast)
  then have "M \<le> int (length segs)" using length_filter_le by (metis of_nat_le_iff)
  then have "nat M \<le> 2 ^ 53" using assms(4) by linarith
  from f_of_nat_exact [OF this] have "sw_max s = f_of_nat (nat M)"
    using M(1,2) by (metis int_nat_eq of_int_of_nat_eq)
  then show ?thesis using s(2) M(2,3) ex by (intro exI [of _ "nat M"]) (auto simp: nat_le_iff le_nat_iff)
qed

lemma sg_all_foldl:
  "sg_all (foldl (add_span ws) g spans) = sg_all g @
    map (\<lambda>r. flat (fsub (start_s r) ws) (fadd (fsub (start_s r) ws) (latency_s r)) (Fin 1)) (filter span_ok spans)"
proof (induction spans arbitrary: g)
  case (Cons r spans)
  have "sg_all (add_tokens r s e sp d g) = sg_all g" "sg_all (add_rates r s e sp f d g) = sg_all g" for s e sp d f g
    by (simp_all add: add_tokens_def add_rates_def Let_def split: option.split)
  then have "sg_all (add_span ws g r) = sg_all g @
      (if span_ok r then [flat (fsub (start_s r) ws) (fadd (fsub (start_s r) ws) (latency_s r)) (Fin 1)] else [])"
    by (simp add: add_span_def Let_def split: option.split)
  then show ?case by (simp add: Cons.IH)
qed simp

text \<open>The requests of \<open>spans\<close> that are open at instant \<open>t\<close> of the window, by their own times.\<close>

definition in_flight_at :: "f64 \<Rightarrow> f64 \<Rightarrow> request_span list \<Rightarrow> f64 \<Rightarrow> nat" where
  "in_flight_at ws w spans t =
     length (filter (\<lambda>r. span_ok r \<and> fsub (start_s r) ws \<le> t \<and> Fin 0 \<le> t \<and>
       t < fadd (fsub (start_s r) ws) (latency_s r) \<and> t < w) spans)"

subsection \<open>Properties\<close>

lemma compute_Some: "compute spans ws w \<noteq> None"
proof -
  let ?g = "segments_of ws spans"
  obtain a b c d e f where
    "sweep (sg_all ?g) (length (sg_all ?g)) w = Some a" "sweep (sg_prefill ?g) (n_split ?g) w = Some b"
    "sweep (sg_decode ?g) (n_split ?g) w = Some c" "sweep (sg_tokens ?g) (n_tokens ?g) w = Some d"
    "sweep (sg_prefill_rate ?g) (n_prefill_rate ?g) w = Some e"
    "sweep (sg_decode_rate ?g) (n_decode_rate ?g) w = Some f"
    using sweep_returns by meson
  then show ?thesis by (simp add: compute_def Let_def)
qed

text \<open>
C12: Computing the time-weighted metrics always returns, on any spans, window start and window
length, NaN and infinities included: clipping keeps NaN out of the event times, the one value
on which the sweep's inner loop would spin forever.
\<close>

theorem compute_returns: "\<exists>m. compute spans ws w = Some m"
  using compute_Some by blast

text \<open>
C13: The peak of the effective concurrency is exact: it is the largest number of measured
requests open at one instant of the window, counted over their half-open intervals, and it is
reached. No rounding enters, for up to \<open>2 ^ 52\<close> spans.
\<close>

theorem peak_concurrency_exact:
  assumes "is_finite w" "flt (Fin 0) w" "length spans \<le> 2 ^ 52" "filter span_ok spans \<noteq> []"
    "\<forall>r \<in> set spans. is_finite (fsub (start_s r) ws) \<and> is_finite (fadd (fsub (start_s r) ws) (latency_s r))"
    "compute spans ws w = Some m"
  shows "\<exists>peak. tw_max (effective_concurrency m) = Some (f_of_nat peak) \<and>
    (\<forall>t. in_flight_at ws w spans t \<le> peak) \<and> (\<exists>t. in_flight_at ws w spans t = peak)"
proof -
  let ?segs = "sg_all (segments_of ws spans)"
  have segs: "?segs = map (\<lambda>r. flat (fsub (start_s r) ws) (fadd (fsub (start_s r) ws) (latency_s r)) (Fin 1))
      (filter span_ok spans)"
    by (simp add: segments_of_def sg_all_foldl no_segments_def)
  have sub: "is_f64 (fsub (Fin a) y)" for a y by (cases y) (simp_all add: fsub_def)
  have unit: "\<forall>seg \<in> set ?segs. unit_segment seg"
    using assms(5) sub by (auto simp: segs unit_segment_def flat_def span_ok_def elim!: is_finiteE)
  have len: "2 * length ?segs \<le> 2 ^ 53"
    using order_trans [OF length_filter_le [of span_ok spans] assms(3)] by (simp add: segs)
  have ne: "length ?segs \<noteq> 0" using assms(4) by (simp add: segs)
  have st: "sweep ?segs (length ?segs) w = Some (effective_concurrency m)"
    using assms(6) by (auto simp: compute_def Let_def split: option.splits)
  have live: "length (filter (live_at w t) ?segs) = in_flight_at ws w spans t" for t
  proof -
    have "live_at w t (flat (fsub (start_s r) ws) (fadd (fsub (start_s r) ws) (latency_s r)) (Fin 1)) \<longleftrightarrow>
        fsub (start_s r) ws \<le> t \<and> Fin 0 \<le> t \<and> t < fadd (fsub (start_s r) ws) (latency_s r) \<and> t < w"
      if "r \<in> set spans" for r
      using assms(1,5) that by (auto simp: live_at_def flat_def clip_start_def clip_end_def fmax_def fmin_def elim!: is_finiteE)
    then show ?thesis
      by (auto simp: segs in_flight_at_def filter_map comp_def intro!: arg_cong [where f = length] filter_cong)
  qed
  from sweep_peak [OF unit assms(1,2) len ne st] show ?thesis unfolding live .
qed

definition demo_span :: "rat \<Rightarrow> request_span" where
  "demo_span s = \<lparr>start_s = Fin s, latency_s = Fin 2, prefill_end_s = None, input_tokens = None, output_tokens = None\<rparr>"

theorem peak_concurrency_exact_witness:
  "\<exists>m peak. compute [demo_span 0, demo_span 1] (Fin 0) (Fin 5) = Some m \<and>
     tw_max (effective_concurrency m) = Some (f_of_nat peak) \<and>
     (\<exists>t. in_flight_at (Fin 0) (Fin 5) [demo_span 0, demo_span 1] t = peak)"
proof -
  obtain m where m: "compute [demo_span 0, demo_span 1] (Fin 0) (Fin 5) = Some m"
    using compute_Some by blast
  have "rnd 2 = Fin 2" "rnd 3 = Fin 3" using rnd_of_int [of 2] rnd_of_int [of 3] by simp_all
  then have "\<forall>r \<in> set [demo_span 0, demo_span 1]. is_finite (fsub (start_s r) (Fin 0)) \<and>
      is_finite (fadd (fsub (start_s r) (Fin 0)) (latency_s r))"
    by (simp add: demo_span_def fsub_def)
  moreover have "filter span_ok [demo_span 0, demo_span 1] \<noteq> []" by (simp add: demo_span_def span_ok_def)
  ultimately show ?thesis
    using peak_concurrency_exact [of "Fin 5" "[demo_span 0, demo_span 1]" "Fin 0" m] m by simp blast
qed

end
