(* ===== verification/Sut.thy ===== *)
theory Sut
  imports F64 Ordered_Map "HOL-Library.Word"
begin

text \<open>
  Declarations of the system under test (\<open>src/sut.rs\<close>): the declaration, its two validation
  profiles, the resolution of the command line flags and the locality of a benchmark URL. The
  JSON and YAML readers are parameters; messages are constructors.
\<close>

record sut_cost =
  price_per_hour :: "f64 option"
  currency :: "ustr option"

record sut_gpu =
  gpu_model :: "ustr option"
  gpu_count :: "nat option"
  gpu_memory_gb :: "nat option"

record sut_runtime =
  rt_name :: "ustr option"
  rt_version :: "ustr option"
  rt_config :: "ustr option"

record sut_kernel_evidence =
  ke_kernel :: "ustr option"
  ke_graph_mode :: "ustr option"
  ke_source :: "ustr option"
  ke_log_sha256 :: "ustr option"

record sut_quality_evidence =
  qe_uri :: "ustr option"
  qe_sha256 :: "ustr option"
  qe_n :: "nat option"
  qe_errors :: "nat option"
  qe_confidence :: "ustr option"

record sut_model =
  sm_id :: "ustr option"
  sm_revision :: "ustr option"
  sm_quantization :: "ustr option"
  sm_kv_dtype :: "ustr option"
  sm_kernel_evidence :: "sut_kernel_evidence option"
  sm_quality_evidence :: "sut_quality_evidence option"

record sut =
  sut_provenance :: ustr
  sut_name :: "ustr option"
  sut_vendor :: "ustr option"
  sut_gpu_decl :: "sut_gpu option"
  sut_cpu :: "ustr option"
  sut_memory_gb :: "nat option"
  sut_driver_version :: "ustr option"
  sut_runtime_decl :: "sut_runtime option"
  sut_model_decl :: "sut_model option"
  sut_host_os :: "ustr option"
  sut_notes :: "ustr option"
  sut_cost_decl :: "sut_cost option"
  sut_field_provenance :: "(ustr, ustr) btree"
  sut_extra :: "(ustr, ustr) btree"

datatype sut_profile = Standard | Strict

datatype sut_error =
    UnreadableSut
  | InvalidSutJson
  | InvalidSutYaml
  | UnsupportedExtension
  | Incomplete "string list"
  | BadSha string ustr
  | StrictIncomplete "string list"
  | SutRequired

text \<open>Only this refusal carries \<open>StrictSutError\<close>, on which the binaries exit with code 2.\<close>

fun is_strict_sut_error :: "sut_error \<Rightarrow> bool" where
  "is_strict_sut_error (StrictIncomplete _) = True"
| "is_strict_sut_error _ = False"

definition nonblank :: "ustr option \<Rightarrow> bool" where
  "nonblank v = (case v of Some s \<Rightarrow> trim s \<noteq> [] | None \<Rightarrow> False)"

definition is_ascii_hexdigit :: "nat \<Rightarrow> bool" where
  "is_ascii_hexdigit c \<longleftrightarrow> 48 \<le> c \<and> c \<le> 57 \<or> 65 \<le> c \<and> c \<le> 70 \<or> 97 \<le> c \<and> c \<le> 102"

definition valid_sha256_hex :: "ustr \<Rightarrow> bool" where
  "valid_sha256_hex s \<longleftrightarrow> str_len s = 64 \<and> list_all is_ascii_hexdigit s"

text \<open>The name of a field that is pushed when its check fails.\<close>

definition need :: "string \<Rightarrow> bool \<Rightarrow> string list" where
  "need field ok = (if ok then [] else [field])"

definition missing_inventory :: "sut \<Rightarrow> string list" where
  "missing_inventory s =
     (case sut_gpu_decl s of
        None \<Rightarrow> [''gpu'']
      | Some g \<Rightarrow> need ''gpu.model'' (nonblank (gpu_model g)) @
          need ''gpu.count'' (case gpu_count g of Some c \<Rightarrow> 0 < c | None \<Rightarrow> False)) @
     need ''driver_version'' (nonblank (sut_driver_version s)) @
     (case sut_runtime_decl s of
        None \<Rightarrow> [''runtime'']
      | Some r \<Rightarrow> need ''runtime.name'' (nonblank (rt_name r)) @
          need ''runtime.version'' (nonblank (rt_version r)) @
          need ''runtime.config'' (nonblank (rt_config r))) @
     need ''host_os'' (nonblank (sut_host_os s))"

definition validate_publishable_sut :: "sut \<Rightarrow> sut_error + unit" where
  "validate_publishable_sut s =
     (if missing_inventory s = [] then Inr () else Inl (Incomplete (missing_inventory s)))"

definition kernel_missing :: "sut_kernel_evidence option \<Rightarrow> sut_error + string list" where
  "kernel_missing ke =
     (case ke of
        None \<Rightarrow> Inr [''model.kernel_evidence'']
      | Some k \<Rightarrow>
          (case option_filter (\<lambda>sha. \<not> valid_sha256_hex sha) (ke_log_sha256 k) of
             Some sha \<Rightarrow> Inl (BadSha ''model.kernel_evidence.log_sha256'' sha)
           | None \<Rightarrow> Inr
               (need ''model.kernel_evidence.kernel'' (nonblank (ke_kernel k)) @
                need ''model.kernel_evidence.graph_mode'' (nonblank (ke_graph_mode k)) @
                need ''model.kernel_evidence.source'' (nonblank (ke_source k)))))"

definition quality_missing :: "sut_quality_evidence option \<Rightarrow> sut_error + string list" where
  "quality_missing qe =
     (case qe of
        None \<Rightarrow> Inr [''model.quality_evidence'']
      | Some q \<Rightarrow>
          (case option_filter (\<lambda>sha. \<not> valid_sha256_hex sha) (qe_sha256 q) of
             Some sha \<Rightarrow> Inl (BadSha ''model.quality_evidence.sha256'' sha)
           | None \<Rightarrow> Inr
               (need ''model.quality_evidence.uri'' (nonblank (qe_uri q)) @
                need ''model.quality_evidence.sha256'' (qe_sha256 q \<noteq> None) @
                need ''model.quality_evidence.n'' (case qe_n q of Some n \<Rightarrow> 1 \<le> n | None \<Rightarrow> False) @
                need ''model.quality_evidence.errors''
                  (case (qe_errors q, qe_n q) of (Some e, Some n) \<Rightarrow> e \<le> n | _ \<Rightarrow> False) @
                need ''model.quality_evidence.confidence'' (nonblank (qe_confidence q)))))"

definition missing_strict :: "sut \<Rightarrow> sut_error + string list" where
  "missing_strict s =
     (case sut_model_decl s of
        None \<Rightarrow> Inr [''model'']
      | Some m \<Rightarrow>
          (case kernel_missing (sm_kernel_evidence m) of
             Inl e \<Rightarrow> Inl e
           | Inr km \<Rightarrow>
               (case quality_missing (sm_quality_evidence m) of
                  Inl e \<Rightarrow> Inl e
                | Inr qm \<Rightarrow> Inr
                    (need ''model.id'' (nonblank (sm_id m)) @
                     need ''model.revision'' (nonblank (sm_revision m)) @
                     need ''model.quantization'' (nonblank (sm_quantization m)) @
                     need ''model.kv_dtype'' (nonblank (sm_kv_dtype m)) @ km @ qm))))"

definition validate_strict_sut :: "sut \<Rightarrow> sut_error + unit" where
  "validate_strict_sut s =
     (case missing_strict s of
        Inl e \<Rightarrow> Inl e
      | Inr missing \<Rightarrow> if missing = [] then Inr () else Inl (StrictIncomplete missing))"

text \<open>The file: its text unless unreadable, and its extension.\<close>

definition load_sut ::
  "(ustr \<Rightarrow> sut option) \<Rightarrow> (ustr \<Rightarrow> sut option) \<Rightarrow> ustr option \<times> ustr \<Rightarrow> sut_error + sut" where
  "load_sut json yaml file =
     (case file of
        (None, _) \<Rightarrow> Inl UnreadableSut
      | (Some raw, ext) \<Rightarrow>
          (let e = to_ascii_lowercase ext in
           if e = lit ''json'' then (case json raw of Some s \<Rightarrow> Inr s | None \<Rightarrow> Inl InvalidSutJson)
           else if e = lit ''yaml'' \<or> e = lit ''yml''
           then (case yaml raw of Some s \<Rightarrow> Inr s | None \<Rightarrow> Inl InvalidSutYaml)
           else Inl UnsupportedExtension))"

definition resolve_sut_profile_flags ::
  "(ustr \<Rightarrow> sut option) \<Rightarrow> (ustr \<Rightarrow> sut option) \<Rightarrow> (ustr option \<times> ustr) option \<Rightarrow> bool \<Rightarrow> bool \<Rightarrow>
     sut_profile \<Rightarrow> sut_error + (sut option \<times> bool)" where
  "resolve_sut_profile_flags json yaml path require_sut redact_hostname profile =
     (let required = require_sut \<or> profile = Strict; redact = redact_hostname \<or> required in
      case path of
        Some file \<Rightarrow>
          (case load_sut json yaml file of
             Inl e \<Rightarrow> Inl e
           | Inr s \<Rightarrow>
               (case (if required then validate_publishable_sut s else Inr ()) of
                  Inl e \<Rightarrow> Inl e
                | Inr _ \<Rightarrow>
                    (case (if profile = Strict then validate_strict_sut s else Inr ()) of
                       Inl e \<Rightarrow> Inl e
                     | Inr _ \<Rightarrow> Inr (Some s, redact))))
      | None \<Rightarrow> if required then Inl SutRequired else Inr (None, redact))"

definition resolve_sut_flags ::
  "(ustr \<Rightarrow> sut option) \<Rightarrow> (ustr \<Rightarrow> sut option) \<Rightarrow> (ustr option \<times> ustr) option \<Rightarrow> bool \<Rightarrow> bool \<Rightarrow>
     sut_error + (sut option \<times> bool)" where
  "resolve_sut_flags json yaml path require_sut redact_hostname =
     resolve_sut_profile_flags json yaml path require_sut redact_hostname Standard"

text \<open>The quantization string the speed-not-quality notice names.\<close>

definition warn_quantization :: "sut \<Rightarrow> ustr option" where
  "warn_quantization s =
     option_filter (\<lambda>q. q \<noteq> []) (map_option trim (Option.bind (sut_model_decl s) sm_quantization))"

subsection \<open>Local benchmark URLs\<close>

datatype ip_addr = V4 nat nat nat nat | V6 "16 word list"

fun v4_local :: "nat \<Rightarrow> nat \<Rightarrow> bool" where
  "v4_local a b \<longleftrightarrow>
     a = 127 \<or> a = 10 \<or> a = 172 \<and> 16 \<le> b \<and> b \<le> 31 \<or> a = 192 \<and> b = 168 \<or> a = 169 \<and> b = 254"

fun ip_local :: "ip_addr \<Rightarrow> bool" where
  "ip_local (V4 a b c d) = v4_local a b"
| "ip_local (V6 ws) = (ws = [0, 0, 0, 0, 0, 0, 0, 1] \<or> and (hd ws) 0xfe00 = 0xfc00)"

definition trim_brackets :: "ustr \<Rightarrow> ustr" where
  "trim_brackets s =
     (let b = (\<lambda>c. c = 91 \<or> c = 93) in rev (dropWhile b (rev (dropWhile b s))))"

definition url_host_is_local :: "(ustr \<Rightarrow> ip_addr option) \<Rightarrow> ustr \<Rightarrow> bool" where
  "url_host_is_local parse_ip host =
     (let h = trim_brackets (trim host) in
      if to_ascii_lowercase h = lit ''localhost'' then True
      else case parse_ip h of Some ip \<Rightarrow> ip_local ip | None \<Rightarrow> False)"

fun after_first :: "ustr \<Rightarrow> ustr \<Rightarrow> ustr option" where
  "after_first p s =
     (case find_sub p s of Some i \<Rightarrow> Some (drop (i + length p) s) | None \<Rightarrow> None)"

definition host_from_http_url :: "ustr \<Rightarrow> ustr option" where
  "host_from_http_url url =
     map_option (\<lambda>rest.
       let hostport = last (split_on 64 (hd (split_on 47 rest)))
       in if starts_with [91] hostport
          then hd (split_on 93 (dropWhile (\<lambda>c. c = 91) hostport))
          else hd (split_on 58 hostport))
       (after_first (lit ''://'') url)"

text \<open>The host the remote-URL warning names, if it is printed.\<close>

definition warn_remote_benchmark_url :: "(ustr \<Rightarrow> ip_addr option) \<Rightarrow> bool \<Rightarrow> ustr \<Rightarrow> ustr option" where
  "warn_remote_benchmark_url parse_ip allow_remote url =
     (if allow_remote then None
      else option_filter (\<lambda>host. \<not> url_host_is_local parse_ip host) (host_from_http_url url))"

lemma link_local_v6_is_remote:
  "\<not> url_host_is_local (\<lambda>_. Some (V6 [0xfe80, 0, 0, 0, 0, 0, 0, 1])) (lit ''fe80::1'')"
  by code_simp

lemma bad_sha_is_no_strict_error:
  "\<lbrakk>sut_model_decl s = Some m; sm_kernel_evidence m = Some k; ke_log_sha256 k = Some sha; \<not> valid_sha256_hex sha\<rbrakk>
    \<Longrightarrow> \<exists>e. validate_strict_sut s = Inl e \<and> \<not> is_strict_sut_error e"
  by (simp add: validate_strict_sut_def missing_strict_def kernel_missing_def)

subsection \<open>Properties\<close>

lemma need_Nil [simp]: "need f ok = [] \<longleftrightarrow> ok"
  by (simp add: need_def)

definition kernel_declared :: "sut_kernel_evidence option \<Rightarrow> bool" where
  "kernel_declared ke \<longleftrightarrow>
     (case ke of
        Some k \<Rightarrow> nonblank (ke_kernel k) \<and> nonblank (ke_graph_mode k) \<and> nonblank (ke_source k) \<and>
          (case ke_log_sha256 k of Some sha \<Rightarrow> valid_sha256_hex sha | None \<Rightarrow> True)
      | None \<Rightarrow> False)"

definition quality_linked :: "sut_quality_evidence option \<Rightarrow> bool" where
  "quality_linked qe \<longleftrightarrow>
     (case qe of
        Some q \<Rightarrow> nonblank (qe_uri q) \<and> nonblank (qe_confidence q) \<and>
          (\<exists>sha. qe_sha256 q = Some sha \<and> valid_sha256_hex sha) \<and>
          (\<exists>n e. qe_n q = Some n \<and> qe_errors q = Some e \<and> 1 \<le> n \<and> e \<le> n)
      | None \<Rightarrow> False)"

lemma kernel_missing_Nil: "kernel_missing ke = Inr [] \<longleftrightarrow> kernel_declared ke"
  by (auto simp: kernel_missing_def kernel_declared_def split: option.splits if_splits)

lemma quality_missing_Nil: "quality_missing qe = Inr [] \<longleftrightarrow> quality_linked qe"
  by (auto simp: quality_missing_def quality_linked_def split: option.splits if_splits)

lemma strict_ok:
  "validate_strict_sut s = Inr () \<longleftrightarrow>
     (\<exists>m. sut_model_decl s = Some m \<and> nonblank (sm_id m) \<and> nonblank (sm_revision m) \<and>
       nonblank (sm_quantization m) \<and> nonblank (sm_kv_dtype m) \<and>
       kernel_declared (sm_kernel_evidence m) \<and> quality_linked (sm_quality_evidence m))"
  unfolding validate_strict_sut_def missing_strict_def kernel_missing_Nil [symmetric] quality_missing_Nil [symmetric]
  by (auto split: option.splits sum.splits)

text \<open>
The strict profile lets a run start exactly when the whole evidence is declared: a readable
declaration with the publication inventory, the model's identity, revision, quantization and KV
data type, kernel and graph evidence with a well-formed digest if any, and a linked quality
artifact with its digest, a positive sample size and no more errors than samples. The host name
is then always redacted.
\<close>

lemma strict_profile_exact:
  "(\<exists>r. resolve_sut_profile_flags json yaml path require_sut redact Strict = Inr r) \<longleftrightarrow>
   (\<exists>file s m. path = Some file \<and> load_sut json yaml file = Inr s \<and>
      resolve_sut_profile_flags json yaml path require_sut redact Strict = Inr (Some s, True) \<and>
      missing_inventory s = [] \<and> sut_model_decl s = Some m \<and> nonblank (sm_id m) \<and>
      nonblank (sm_revision m) \<and> nonblank (sm_quantization m) \<and> nonblank (sm_kv_dtype m) \<and>
      kernel_declared (sm_kernel_evidence m) \<and> quality_linked (sm_quality_evidence m))"
proof (cases path)
  case None
  then show ?thesis by (simp add: resolve_sut_profile_flags_def)
next
  case (Some src)
  show ?thesis
  proof (cases "load_sut json yaml src")
    case (Inl e)
    then show ?thesis using Some by (simp add: resolve_sut_profile_flags_def)
  next
    case (Inr s)
    have "validate_publishable_sut s = Inr () \<longleftrightarrow> missing_inventory s = []"
      by (simp add: validate_publishable_sut_def)
    then show ?thesis
      using Some Inr strict_ok [of s]
      by (cases "validate_strict_sut s"; cases "validate_publishable_sut s")
        (auto simp: resolve_sut_profile_flags_def)
  qed
qed

end
