(* ===== verification/Summary.thy ===== *)
theory Summary
  imports Runner Measurement Concurrency Time_Weighted Sut
begin

text \<open>
  The run summary (\<open>src/summary.rs\<close>): thresholds and cost, the token accounting, the
  distributions over the recorded fields, the per-endpoint groups, the throughput bins and the
  assembly of \<open>RunSummary\<close> from request records. The number parser, the environment
  collector and the attached configuration are parameters; printing is left out. Token counts
  are 64-bit in the source; \<open>sat64\<close> is its saturating sum.
\<close>

subsection \<open>Thresholds and cost\<close>

record slo_config =
  slo_ttft_s :: "f64 option"
  slo_tpot_s :: "f64 option"
  slo_e2e_s :: "f64 option"
  slo_user_tps :: "f64 option"

definition slo_default :: slo_config where
  "slo_default = \<lparr>slo_ttft_s = None, slo_tpot_s = None, slo_e2e_s = None, slo_user_tps = None\<rparr>"

datatype slo_error =
    NoEquals ustr
  | BadNumber
  | BadDuration
  | BadUserTps
  | UnknownMetric ustr

text \<open>\<open>0.001\<close> is the nearest binary64 value.\<close>

definition parse_duration_seconds :: "(ustr \<Rightarrow> f64 option) \<Rightarrow> ustr \<Rightarrow> slo_error + f64" where
  "parse_duration_seconds parse_f64 raw =
     (let (number, scale) =
            (case strip_suffix (lit ''ms'') raw of
               Some v \<Rightarrow> (v, rnd (1 / 1000))
             | None \<Rightarrow> (case strip_suffix (lit ''s'') raw of Some v \<Rightarrow> (v, Fin 1) | None \<Rightarrow> (raw, Fin 1)))
      in case parse_f64 number of
           None \<Rightarrow> Inl BadNumber
         | Some value \<Rightarrow>
             if \<not> is_finite value \<or> flt value (Fin 0) then Inl BadDuration else Inr (fmul value scale))"

definition parse_slo :: "(ustr \<Rightarrow> f64 option) \<Rightarrow> ustr \<Rightarrow> slo_config \<Rightarrow> slo_error + slo_config" where
  "parse_slo parse_f64 v config =
     (case split_once 61 v of
        None \<Rightarrow> Inl (NoEquals v)
      | Some (name, raw) \<Rightarrow>
          if name = lit ''ttft''
          then map_sum id (\<lambda>x. config\<lparr>slo_ttft_s := Some x\<rparr>) (parse_duration_seconds parse_f64 raw)
          else if name = lit ''tpot''
          then map_sum id (\<lambda>x. config\<lparr>slo_tpot_s := Some x\<rparr>) (parse_duration_seconds parse_f64 raw)
          else if name = lit ''e2e'' \<or> name = lit ''latency''
          then map_sum id (\<lambda>x. config\<lparr>slo_e2e_s := Some x\<rparr>) (parse_duration_seconds parse_f64 raw)
          else if name = lit ''user_tps'' then
            (case parse_f64 (trim raw) of
               None \<Rightarrow> Inl BadNumber
             | Some rate \<Rightarrow>
                 if \<not> is_finite rate \<or> flt rate (Fin 0) then Inl BadUserTps
                 else Inr (config\<lparr>slo_user_tps := Some rate\<rparr>))
          else Inl (UnknownMetric name))"

fun parse_slos :: "(ustr \<Rightarrow> f64 option) \<Rightarrow> ustr list \<Rightarrow> slo_config \<Rightarrow> slo_error + slo_config" where
  "parse_slos parse_f64 [] config = Inr config"
| "parse_slos parse_f64 (v # vs) config =
     (case parse_slo parse_f64 v config of
        Inl e \<Rightarrow> Inl e
      | Inr config' \<Rightarrow> parse_slos parse_f64 vs config')"

definition cost_per_million_output_tokens :: "f64 \<Rightarrow> f64 \<Rightarrow> f64 option" where
  "cost_per_million_output_tokens price toks_per_sec =
     (if \<not> is_finite price \<or> flt price (Fin 0) then None
      else if \<not> is_finite toks_per_sec \<or> fle toks_per_sec (Fin 0) then None
      else Some (fmul (fdiv price (fmul toks_per_sec (Fin 3600))) (Fin 1000000)))"

definition resolve_price_per_hour :: "f64 option \<Rightarrow> sut option \<Rightarrow> (f64 \<times> string) option" where
  "resolve_price_per_hour cli s =
     (case cli of
        Some price \<Rightarrow> Some (price, ''cli'')
      | None \<Rightarrow> map_option (\<lambda>price. (price, ''sut''))
          (Option.bind (Option.bind s sut_cost_decl) price_per_hour))"

definition slo_thresholds :: "slo_config \<Rightarrow> (ustr, f64) btree" where
  "slo_thresholds slos =
     fold (\<lambda>(name, v) m. case v of Some x \<Rightarrow> bt_insert (lit name) x m | None \<Rightarrow> m)
       [(''ttft'', slo_ttft_s slos), (''tpot'', slo_tpot_s slos), (''e2e'', slo_e2e_s slos),
        (''user_tps'', slo_user_tps slos)] []"

definition holds_or_unset :: "f64 option \<Rightarrow> (f64 \<Rightarrow> bool) \<Rightarrow> bool" where
  "holds_or_unset limit p = (case limit of None \<Rightarrow> True | Some l \<Rightarrow> p l)"

definition some_and :: "f64 option \<Rightarrow> (f64 \<Rightarrow> bool) \<Rightarrow> bool" where
  "some_and x p = (case x of None \<Rightarrow> False | Some v \<Rightarrow> p v)"

definition meets_slos :: "request_record \<Rightarrow> slo_config \<Rightarrow> bool" where
  "meets_slos r slos \<longleftrightarrow>
     holds_or_unset (slo_e2e_s slos) (\<lambda>limit. fle (corrected_latency_s r) limit) \<and>
     holds_or_unset (slo_ttft_s slos) (\<lambda>limit. some_and (rr_ttft_s r) (\<lambda>v. fle v limit)) \<and>
     holds_or_unset (slo_tpot_s slos) (\<lambda>limit. some_and (tpot_s r) (\<lambda>v. fle v limit)) \<and>
     holds_or_unset (slo_user_tps slos) (\<lambda>low. some_and (user_tps r) (\<lambda>v. fle low v))"

subsection \<open>Token accounting\<close>

definition token_total :: "nat list \<Rightarrow> nat option" where
  "token_total values = (if values = [] then None else Some (foldl sat64 0 values))"

definition counts_f64 :: "nat list \<Rightarrow> f64 list" where
  "counts_f64 values = map f_of_nat values"

definition reports_tokens :: "request_record \<Rightarrow> bool" where
  "reports_tokens r \<longleftrightarrow> 0 < rr_prompt_tokens r \<or> 0 < rr_completion_tokens r \<or> 0 < rr_total_tokens r"

definition record_tokens :: "request_record \<Rightarrow> nat \<Rightarrow> nat option \<Rightarrow> nat option" where
  "record_tokens r server tokenized =
     (if rr_usage_missing r then tokenized
      else if reports_tokens r then Some server else None)"

definition record_isl_tokens :: "request_record \<Rightarrow> nat option" where
  "record_isl_tokens r = record_tokens r (rr_prompt_tokens r) (rr_tokenized_prompt_tokens r)"

definition record_osl_tokens :: "request_record \<Rightarrow> nat option" where
  "record_osl_tokens r = record_tokens r (rr_completion_tokens r) (rr_tokenized_completion_tokens r)"

record token_samples =
  tsm_values :: "f64 list"
  tsm_server :: nat
  tsm_tokenizer :: nat

definition samples_source :: "token_samples \<Rightarrow> string option" where
  "samples_source s =
     (if 0 < tsm_server s \<and> 0 < tsm_tokenizer s then Some ''mixed''
      else if 0 < tsm_server s then Some ''server_usage''
      else if 0 < tsm_tokenizer s then Some ''tokenizer_fallback''
      else None)"

definition add_token_sample ::
  "(request_record \<Rightarrow> nat \<times> nat option) \<Rightarrow> token_samples \<Rightarrow> request_record \<Rightarrow> token_samples" where
  "add_token_sample pick s r =
     (case pick r of (server, tokenized) \<Rightarrow>
        if rr_usage_missing r then
          (case tokenized of
             Some n \<Rightarrow> s\<lparr>tsm_values := tsm_values s @ [f_of_nat n], tsm_tokenizer := tsm_tokenizer s + 1\<rparr>
           | None \<Rightarrow> s)
        else if reports_tokens r
        then s\<lparr>tsm_values := tsm_values s @ [f_of_nat server], tsm_server := tsm_server s + 1\<rparr>
        else s)"

definition token_samples_of ::
  "request_record list \<Rightarrow> (request_record \<Rightarrow> nat \<times> nat option) \<Rightarrow> token_samples" where
  "token_samples_of successes pick =
     foldl (add_token_sample pick) \<lparr>tsm_values = [], tsm_server = 0, tsm_tokenizer = 0\<rparr> successes"

record token_sum =
  sum_usage_missing_count :: nat
  sum_tokens :: nat
  sum_source :: "string option"

definition sum_total :: "token_sum \<Rightarrow> nat option" where
  "sum_total s = map_option (\<lambda>_. sum_tokens s) (sum_source s)"

text \<open>The loop's counters: rows without usage, the sum, a tokenizer fill, a gap left open.\<close>

definition add_token_sum ::
  "(request_record \<Rightarrow> nat \<times> nat option) \<Rightarrow> nat \<times> nat \<times> bool \<times> bool \<Rightarrow> request_record \<Rightarrow>
     nat \<times> nat \<times> bool \<times> bool" where
  "add_token_sum pick acc r =
     (case (acc, pick r) of ((missing, s, fallback, gap), (server, tokenized)) \<Rightarrow>
        if rr_usage_missing r then
          (case tokenized of
             Some n \<Rightarrow> (missing + 1, sat64 s n, True, gap)
           | None \<Rightarrow> (missing + 1, s, fallback, True))
        else (missing, sat64 s server, fallback, gap))"

definition token_sum_accounting ::
  "request_record list \<Rightarrow> (request_record \<Rightarrow> nat \<times> nat option) \<Rightarrow> token_sum" where
  "token_sum_accounting rows pick =
     (case foldl (add_token_sum pick) (0, 0, False, False) rows of (missing, s, fallback, gap) \<Rightarrow>
        \<lparr>sum_usage_missing_count = missing, sum_tokens = s,
         sum_source =
           (if gap \<or> rows = [] then None
            else if fallback then Some ''tokenizer_fallback''
            else if 0 < s \<or> 0 < missing \<or>
                (\<exists>r \<in> set rows. rr_usage_prompt_tokens_present r = Some True \<and>
                   rr_usage_completion_tokens_present r = Some True)
            then Some ''server_usage''
            else None)\<rparr>)"

subsection \<open>Recorded fields\<close>

definition dist_of :: "('r \<Rightarrow> f64 option) \<Rightarrow> 'r list \<Rightarrow> dist_summary" where
  "dist_of pick rows = dist_from_values (List.map_filter pick rows)"

definition ttft_is_first_byte_approx :: "ttft_source option \<Rightarrow> bool" where
  "ttft_is_first_byte_approx source \<longleftrightarrow> source = Some FirstByteApprox"

definition first_generated_token_s :: "f64 option \<Rightarrow> f64 option \<Rightarrow> f64 option" where
  "first_generated_token_s ttft first_reasoning =
     map_option (\<lambda>t. case first_reasoning of None \<Rightarrow> t | Some r \<Rightarrow> fmin r t) ttft"

definition phase_split_s :: "f64 option \<Rightarrow> ttft_source option \<Rightarrow> f64 option \<Rightarrow> f64 option" where
  "phase_split_s ttft source first_reasoning =
     (if ttft_is_first_byte_approx source then None else first_generated_token_s ttft first_reasoning)"

record http_trace_dists =
  ht_dns_s :: dist_summary
  ht_receive_s :: dist_summary
  ht_bytes_sent :: dist_summary
  ht_bytes_received :: dist_summary
  ht_chunks_received :: dist_summary
  ht_connections_reused :: "nat option"
  ht_connection_reuse_rate :: "f64 option"

definition reuse_count :: "bool list \<Rightarrow> nat option" where
  "reuse_count flags = (if flags = [] then None else Some (length (filter id flags)))"

definition reuse_rate :: "bool list \<Rightarrow> f64 option" where
  "reuse_rate flags =
     (if flags = [] then None else Some (fdiv (f_of_nat (length (filter id flags))) (f_of_nat (length flags))))"

definition http_trace_dists_of :: "request_record list \<Rightarrow> http_trace_dists" where
  "http_trace_dists_of successes =
     (let flags = List.map_filter rr_connection_reused successes in
      \<lparr>ht_dns_s = dist_of rr_dns_s successes, ht_receive_s = dist_of rr_receive_s successes,
       ht_bytes_sent = dist_of (\<lambda>r. map_option f_of_nat (rr_bytes_sent r)) successes,
       ht_bytes_received = dist_of (\<lambda>r. map_option f_of_nat (rr_bytes_received r)) successes,
       ht_chunks_received = dist_of (\<lambda>r. map_option f_of_nat (rr_chunks_received r)) successes,
       ht_connections_reused = reuse_count flags, ht_connection_reuse_rate = reuse_rate flags\<rparr>)"

definition prefill_rate :: "request_record \<Rightarrow> f64 option" where
  "prefill_rate r =
     (if ttft_is_first_byte_approx (rr_ttft_source r) then None
      else case (record_isl_tokens r, first_generated_token_s (rr_ttft_s r) (rr_first_reasoning_s r)) of
        (Some isl_n, Some first) \<Rightarrow>
          if 0 < isl_n \<and> flt (Fin 0) first then Some (fdiv (f_of_nat isl_n) first) else None
      | _ \<Rightarrow> None)"

definition second_token :: "request_record \<Rightarrow> f64 option" where
  "second_token r =
     Option.bind
       (option_or (rr_ttft_visible_answer_s r)
         (if rr_first_reasoning_s r = None \<and> \<not> ttft_is_first_byte_approx (rr_ttft_source r)
          then rr_ttft_s r else None))
       (\<lambda>visible. map_option (fadd visible) (hd_opt (rr_itl_s r)))"

record recorded_field_dists =
  rf_first_byte_s :: dist_summary
  rf_queue_delay_s :: dist_summary
  rf_first_reasoning_s :: dist_summary
  rf_prefill_tps_per_user :: dist_summary
  rf_time_to_second_token_s :: dist_summary
  rf_user_tps :: dist_summary
  rf_isl_tokens :: dist_summary
  rf_isl_tokens_source :: "string option"
  rf_osl_tokens :: dist_summary
  rf_osl_tokens_source :: "string option"
  rf_reasoning_tokens :: dist_summary
  rf_reasoning_tokens_total :: "nat option"
  rf_visible_completion_tokens :: dist_summary
  rf_visible_completion_tokens_total :: "nat option"

definition recorded_field_dists_of :: "request_record list \<Rightarrow> recorded_field_dists" where
  "recorded_field_dists_of successes =
     (let isls = token_samples_of successes (\<lambda>r. (rr_prompt_tokens r, rr_tokenized_prompt_tokens r));
          osls = token_samples_of successes (\<lambda>r. (rr_completion_tokens r, rr_tokenized_completion_tokens r));
          reasoning = List.map_filter rr_reasoning_tokens successes;
          visible = List.map_filter rr_visible_completion_tokens successes
      in \<lparr>rf_first_byte_s = dist_of rr_first_byte_s successes,
          rf_queue_delay_s = dist_from_values
            (map rr_queue_delay_s (filter (\<lambda>r. rr_scheduled_offset_s r \<noteq> None) successes)),
          rf_first_reasoning_s = dist_of rr_first_reasoning_s successes,
          rf_prefill_tps_per_user = dist_of prefill_rate successes,
          rf_time_to_second_token_s = dist_of second_token successes,
          rf_user_tps = dist_of user_tps successes,
          rf_isl_tokens = dist_from_values (tsm_values isls), rf_isl_tokens_source = samples_source isls,
          rf_osl_tokens = dist_from_values (tsm_values osls), rf_osl_tokens_source = samples_source osls,
          rf_reasoning_tokens = dist_from_values (counts_f64 reasoning),
          rf_reasoning_tokens_total = token_total reasoning,
          rf_visible_completion_tokens = dist_from_values (counts_f64 visible),
          rf_visible_completion_tokens_total = token_total visible\<rparr>)"

subsection \<open>Endpoints, bins and the time-weighted blocks\<close>

definition summary_time_weighted ::
  "request_record list \<Rightarrow> request_record list \<Rightarrow> f64 \<Rightarrow> time_weighted_metrics option" where
  "summary_time_weighted measured successes window_seconds =
     (let start = foldl fmin PInf (map send_offset_seconds measured);
          spans = map (\<lambda>r. \<lparr>start_s = send_offset_seconds r, latency_s = rr_latency_s r,
                       prefill_end_s = phase_split_s (rr_ttft_s r) (rr_ttft_source r) (rr_first_reasoning_s r),
                       input_tokens = record_isl_tokens r, output_tokens = record_osl_tokens r\<rparr>) successes
      in compute spans start window_seconds)"

record endpoint_summary =
  ep_attempted :: nat
  ep_successes :: nat
  ep_errors :: nat
  ep_latency_s :: dist_summary
  ep_ttft_s :: dist_summary
  ep_tpot_s :: dist_summary
  ep_itl_s :: dist_summary
  ep_first_byte_s :: dist_summary
  ep_queue_delay_s :: dist_summary
  ep_first_reasoning_s :: dist_summary
  ep_isl_tokens :: dist_summary
  ep_isl_tokens_source :: "string option"
  ep_osl_tokens :: dist_summary
  ep_osl_tokens_source :: "string option"
  ep_reasoning_tokens :: dist_summary
  ep_visible_completion_tokens :: dist_summary

definition group_by_endpoint :: "request_record list \<Rightarrow> (ustr, request_record list) btree" where
  "group_by_endpoint records =
     foldl (\<lambda>m r. bt_insert (rr_endpoint r) (unwrap_or (bt_get m (rr_endpoint r)) [] @ [r]) m) [] records"

definition endpoint_summary_of :: "request_record list \<Rightarrow> endpoint_summary" where
  "endpoint_summary_of rows =
     (let ok = filter is_success rows; rf = recorded_field_dists_of ok in
      \<lparr>ep_attempted = length rows, ep_successes = length ok, ep_errors = length rows - length ok,
       ep_latency_s = dist_from_values (map rr_latency_s ok), ep_ttft_s = dist_of rr_ttft_s ok,
       ep_tpot_s = dist_of tpot_s ok, ep_itl_s = dist_from_values (concat (map rr_itl_s ok)),
       ep_first_byte_s = rf_first_byte_s rf, ep_queue_delay_s = rf_queue_delay_s rf,
       ep_first_reasoning_s = rf_first_reasoning_s rf, ep_isl_tokens = rf_isl_tokens rf,
       ep_isl_tokens_source = rf_isl_tokens_source rf, ep_osl_tokens = rf_osl_tokens rf,
       ep_osl_tokens_source = rf_osl_tokens_source rf, ep_reasoning_tokens = rf_reasoning_tokens rf,
       ep_visible_completion_tokens = rf_visible_completion_tokens rf\<rparr>)"

definition endpoint_summaries :: "request_record list \<Rightarrow> (ustr, endpoint_summary) btree" where
  "endpoint_summaries records = map (\<lambda>(name, rows). (name, endpoint_summary_of rows)) (group_by_endpoint records)"

text \<open>\<open>Iterator::min_by\<close> and \<open>max_by\<close> with \<open>f64::total_cmp\<close>.\<close>

definition min_total :: "f64 list \<Rightarrow> f64 option" where
  "min_total xs = (case xs of [] \<Rightarrow> None | x # ys \<Rightarrow> Some (foldl min x ys))"

definition max_total :: "f64 list \<Rightarrow> f64 option" where
  "max_total xs = (case xs of [] \<Rightarrow> None | x # ys \<Rightarrow> Some (foldl max x ys))"

definition open_loop_anchor :: "request_record list \<Rightarrow> f64 option" where
  "open_loop_anchor measured = min_total (List.map_filter rr_scheduled_offset_s measured)"

definition bump_bin :: "nat list \<Rightarrow> nat \<Rightarrow> nat list" where
  "bump_bin bins i = (if i < length bins then bins[i := bins ! i + 1] else bins)"

definition bin_index :: "f64 \<Rightarrow> f64 \<Rightarrow> f64 \<Rightarrow> nat" where
  "bin_index origin bin_seconds offset = f_to_usize (f_floor (fdiv (fsub offset origin) bin_seconds))"

definition fill_bins :: "request_record list \<Rightarrow> f64 option \<Rightarrow> f64 \<Rightarrow> nat list \<Rightarrow> nat list" where
  "fill_bins records anchor bin_seconds bins =
     (if \<exists>r \<in> set records. rr_scheduled_offset_s r \<noteq> None then
        foldl (\<lambda>bs r. case rr_scheduled_offset_s r of
            Some offset \<Rightarrow> bump_bin bs (bin_index (unwrap_or anchor (Fin 0)) bin_seconds offset)
          | None \<Rightarrow> bs) bins records
      else
        let min_send = foldl fmin PInf (map send_offset_seconds records) in
        if is_finite min_send
        then foldl (\<lambda>bs r. bump_bin bs (bin_index min_send bin_seconds (send_offset_seconds r))) bins records
        else bins)"

definition bin_rate :: "f64 \<Rightarrow> f64 \<Rightarrow> nat \<times> nat \<Rightarrow> f64" where
  "bin_rate window bin_seconds p =
     (let start = fmul (f_of_nat (fst p)) bin_seconds;
          width = fclamp (fsub window start) EPSILON bin_seconds
      in fdiv (f_of_nat (snd p)) width)"

text \<open>The length of the vector of bins. \<open>vec![0usize; count]\<close> panics with a capacity overflow once its
  bytes exceed \<open>isize::MAX\<close> (an infinite quotient saturates to the largest \<open>usize\<close>), and
  \<open>clamp(f64::EPSILON, bin_seconds)\<close> panics on a bin narrower than the epsilon: both are no
  value. A smaller vector the allocator refuses aborts the process and is not modelled.\<close>

definition bin_count :: "f64 \<Rightarrow> f64 \<Rightarrow> nat" where
  "bin_count window bin_seconds = f_to_usize (fmax (f_ceil (fdiv window bin_seconds)) (Fin 1))"

definition vec_fits :: "nat \<Rightarrow> bool" where
  "vec_fits len \<longleftrightarrow> len * 8 < 2 ^ 63"

definition throughput_bins :: "request_record list \<Rightarrow> f64 option \<Rightarrow> f64 \<Rightarrow> f64 \<Rightarrow> f64 list option" where
  "throughput_bins records anchor window bin_seconds =
     (if records = [] \<or> \<not> is_finite bin_seconds \<or> fle bin_seconds (Fin 0) then Some []
      else if \<not> vec_fits (bin_count window bin_seconds) then None
      else let bins = fill_bins records anchor bin_seconds (replicate (bin_count window bin_seconds) 0)
           in if list_all (\<lambda>c. c = 0) bins then Some [fdiv (f_of_nat (length records)) (fmax window EPSILON)]
              else if \<not> fle EPSILON bin_seconds then None
              else Some (map (bin_rate window bin_seconds) (enumerate 0 bins)))"

subsection \<open>Coverage of the first token\<close>

record ttft_coverage =
  cov_measured :: nat
  cov_visible :: nat
  cov_reasoning_only :: nat
  cov_reasoning_truncated :: nat
  cov_no_token :: nat
  cov_missing_visible :: nat
  cov_stream :: nat
  cov_first_token_fallback :: nat
  cov_first_byte_approx :: nat
  cov_unresolved :: nat

definition coverage_default :: ttft_coverage where
  "coverage_default =
     \<lparr>cov_measured = 0, cov_visible = 0, cov_reasoning_only = 0, cov_reasoning_truncated = 0,
      cov_no_token = 0, cov_missing_visible = 0, cov_stream = 0, cov_first_token_fallback = 0,
      cov_first_byte_approx = 0, cov_unresolved = 0\<rparr>"

definition cover_source :: "ttft_source option \<Rightarrow> ttft_coverage \<Rightarrow> ttft_coverage" where
  "cover_source source c =
     (case source of
        Some Stream \<Rightarrow> c\<lparr>cov_stream := cov_stream c + 1\<rparr>
      | Some FirstTokenFallback \<Rightarrow> c\<lparr>cov_first_token_fallback := cov_first_token_fallback c + 1\<rparr>
      | Some FirstByteApprox \<Rightarrow> c\<lparr>cov_first_byte_approx := cov_first_byte_approx c + 1\<rparr>
      | None \<Rightarrow> c\<lparr>cov_unresolved := cov_unresolved c + 1\<rparr>)"

definition cover_flags :: "bool \<Rightarrow> bool \<Rightarrow> bool \<Rightarrow> bool \<Rightarrow> ttft_coverage \<Rightarrow> ttft_coverage" where
  "cover_flags visible reasoning truncated no_token c =
     (let c1 = (if visible then c\<lparr>cov_visible := cov_visible c + 1\<rparr> else c);
          c2 = (if reasoning \<and> \<not> visible then c1\<lparr>cov_reasoning_only := cov_reasoning_only c1 + 1\<rparr> else c1);
          c3 = (if truncated then c2\<lparr>cov_reasoning_truncated := cov_reasoning_truncated c2 + 1\<rparr> else c2)
      in if no_token \<and> \<not> reasoning then c3\<lparr>cov_no_token := cov_no_token c3 + 1\<rparr> else c3)"

definition cover_row :: "ttft_coverage \<Rightarrow> request_record \<Rightarrow> ttft_coverage" where
  "cover_row c r =
     cover_flags (rr_ttft_visible_answer_s r \<noteq> None) (rr_first_reasoning_s r \<noteq> None)
       (rr_outcome r = Some ''reasoning_truncated'' \<or> rr_error r = Some ReasoningTruncated)
       (rr_error r = Some NoOutputToken) (cover_source (rr_ttft_source r) c)"

definition coverage_by :: "(ttft_coverage \<Rightarrow> 'r \<Rightarrow> ttft_coverage) \<Rightarrow> 'r list \<Rightarrow> ttft_coverage" where
  "coverage_by row pool =
     (let c = foldl row (coverage_default\<lparr>cov_measured := length pool\<rparr>) pool
      in c\<lparr>cov_missing_visible := length pool - cov_visible c\<rparr>)"

definition coverage_of :: "request_record list \<Rightarrow> ttft_coverage" where
  "coverage_of pool = coverage_by cover_row pool"

text \<open>\<open>flatten().reduce(f64::min)\<close>.\<close>

definition reduce_fmin :: "f64 option list \<Rightarrow> f64 option" where
  "reduce_fmin xs =
     (case List.map_filter id xs of [] \<Rightarrow> None | x # ys \<Rightarrow> Some (foldl fmin x ys))"

definition observed_any :: "request_record \<Rightarrow> f64 option" where
  "observed_any r =
     reduce_fmin [rr_ttft_first_any_s r, if rr_ttft_source r = Some Stream then rr_ttft_s r else None,
       rr_first_reasoning_s r]"

definition fallback_ttft :: "request_record \<Rightarrow> f64 option" where
  "fallback_ttft r =
     (if \<not> is_success r \<and> rr_ttft_source r \<in> {Some FirstTokenFallback, Some FirstByteApprox}
      then rr_ttft_s r else None)"

subsection \<open>The summary\<close>

record goodput_summary =
  gp_count :: nat
  gp_requests_per_second :: "f64 option"
  gp_fraction_of_attempted :: f64
  gp_thresholds_s :: "(ustr, f64) btree"

record run_summary =
  rs_schema_version :: string
  rs_attempted :: nat
  rs_successes :: nat
  rs_errors :: nat
  rs_error_rate :: f64
  rs_errors_by_type :: "(ustr, nat) btree"
  rs_ttft_coverage :: ttft_coverage
  rs_observed_reasoning_tokens :: dist_summary
  rs_observed_reasoning_tokens_total :: "nat option"
  rs_observed_visible_completion_tokens :: dist_summary
  rs_observed_visible_completion_tokens_total :: "nat option"
  rs_fallback_ttft_s :: dist_summary
  rs_window_seconds :: f64
  rs_requests_per_second :: "f64 option"
  rs_usage_missing_count :: nat
  rs_completion_tokens_per_second :: "f64 option"
  rs_completion_tokens_source :: "string option"
  rs_prompt_tokens_total :: "nat option"
  rs_completion_tokens_total :: "nat option"
  rs_input_tokens_per_second :: "f64 option"
  rs_total_tokens_per_second :: "f64 option"
  rs_latency_s :: dist_summary
  rs_coordinated_omission_latency_s :: dist_summary
  rs_ttft_s :: dist_summary
  rs_ttft_visible_answer_s :: dist_summary
  rs_answered_requests :: nat
  rs_answered_requests_per_second :: "f64 option"
  rs_legacy_success_completion_tokens_per_second :: "f64 option"
  rs_non_reasoning_completion_tokens_per_second :: "f64 option"
  rs_tpot_s :: dist_summary
  rs_itl_s :: dist_summary
  rs_connect_s :: dist_summary
  rs_prefill_s :: dist_summary
  rs_decode_s :: dist_summary
  rs_decode_tok_s :: dist_summary
  rs_recorded :: recorded_field_dists
  rs_first_reasoning_s :: dist_summary
  rs_ttft_first_any_s :: dist_summary
  rs_http :: http_trace_dists
  rs_throughput_bins_rps :: dist_summary
  rs_goodput :: goodput_summary
  rs_pooled_mixture :: bool
  rs_per_endpoint :: "(ustr, endpoint_summary) btree"
  rs_environment :: json
  rs_sut :: "sut option"
  rs_price_per_hour :: "f64 option"
  rs_price_provenance :: "string option"
  rs_cost_per_million_output_tokens :: "f64 option"
  rs_observed_concurrency :: "observed_concurrency option"
  rs_time_weighted :: time_weighted_metrics
  rs_isl_osl :: "isl_osl_validation option"
  rs_ttft_approx_count :: nat
  rs_ttft_warning :: "ustr option"
  rs_telemetry :: "json option"
  rs_partial :: bool
  rs_config :: "json option"

definition SCHEMA_VERSION_SUMMARY :: string where
  "SCHEMA_VERSION_SUMMARY = ''metrum-ai-bench-cli.summary.v5''"

definition measured_pool :: "request_record list \<Rightarrow> request_record list" where
  "measured_pool records = filter (\<lambda>r. rr_phase r = Measure) records"

definition errors_by_type :: "request_record list \<Rightarrow> (ustr, nat) btree" where
  "errors_by_type errs =
     foldl (\<lambda>m r. case rr_error r of
         Some err \<Rightarrow> bt_insert (lit (type_name err)) (unwrap_or (bt_get m (lit (type_name err))) 0 + 1) m
       | None \<Rightarrow> m) [] errs"

text \<open>The v1.7.2 rate: completion tokens of old-style successes over first send to their last end.\<close>

definition legacy_rate :: "request_record list \<Rightarrow> f64 option" where
  "legacy_rate pool =
     (let legacy = filter (\<lambda>r. is_success r \<and> rr_outcome r \<noteq> Some ''reasoning_truncated'') pool;
          tokens = sum_total (token_sum_accounting legacy
            (\<lambda>r. (rr_completion_tokens r, rr_tokenized_completion_tokens r)));
          window = Option.bind (min_total (map send_offset_seconds pool))
            (\<lambda>start. map_option (\<lambda>e. fsub e start)
              (max_total (map (\<lambda>r. fadd (send_offset_seconds r) (rr_latency_s r)) legacy)))
      in Option.bind (option_filter (\<lambda>w. flt (Fin 0) w) window)
           (\<lambda>w. map_option (\<lambda>t. fdiv (f_of_nat t) w) tokens))"

definition non_reasoning_rate :: "request_record list \<Rightarrow> bool \<Rightarrow> f64 \<Rightarrow> f64 option" where
  "non_reasoning_rate pool valid_window window =
     (if valid_window \<and> pool \<noteq> [] \<and>
         list_all (\<lambda>r. \<not> rr_usage_missing r \<and> rr_visible_completion_tokens r \<noteq> None) pool
      then Some (fdiv (f_of_nat (sum_u64 (List.map_filter rr_visible_completion_tokens pool))) window)
      else None)"

definition fraction_of :: "nat \<Rightarrow> nat \<Rightarrow> f64" where
  "fraction_of k n = (if n = 0 then Fin 0 else fdiv (f_of_nat k) (f_of_nat n))"

definition per_window :: "bool \<Rightarrow> f64 \<Rightarrow> nat \<Rightarrow> f64 option" where
  "per_window valid_window window n = (if valid_window then Some (fdiv (f_of_nat n) window) else None)"

definition goodput_of ::
  "request_record list \<Rightarrow> request_record list \<Rightarrow> slo_config \<Rightarrow> bool \<Rightarrow> f64 \<Rightarrow> goodput_summary" where
  "goodput_of pool successes slos valid_window window =
     (let good = length (filter (\<lambda>r. rr_answer_completed r \<noteq> Some False \<and> meets_slos r slos) successes) in
      \<lparr>gp_count = good, gp_requests_per_second = per_window valid_window window good,
       gp_fraction_of_attempted = fraction_of good (length pool), gp_thresholds_s = slo_thresholds slos\<rparr>)"

definition from_records_with_options ::
  "json \<Rightarrow> request_record list \<Rightarrow> f64 \<Rightarrow> bool \<Rightarrow> slo_config \<Rightarrow> f64 \<Rightarrow> run_summary option" where
  "from_records_with_options environment records window_seconds partial slos bin_seconds =
     (let pool = measured_pool records;
          ok = filter is_success pool;
          errs = filter (\<lambda>r. \<not> is_success r) pool;
          completion = token_sum_accounting pool (\<lambda>r. (rr_completion_tokens r, None));
          prompt = token_sum_accounting pool (\<lambda>r. (rr_prompt_tokens r, None));
          valid_window = is_finite window_seconds \<and> flt (Fin 0) window_seconds;
          window = (if valid_window then window_seconds else Fin 1);
          answered = length (filter (\<lambda>r. rr_answer_completed r = Some True) pool);
          reasoning = List.map_filter rr_reasoning_tokens pool;
          visible = List.map_filter rr_visible_completion_tokens pool;
          per_endpoint = endpoint_summaries pool;
          bins = (if valid_window then throughput_bins ok (open_loop_anchor pool) window bin_seconds else Some [])
      in Option.bind bins (\<lambda>bin_rates. map_option (\<lambda>tw.
        \<lparr>rs_schema_version = SCHEMA_VERSION_SUMMARY, rs_attempted = length pool, rs_successes = length ok,
         rs_errors = length errs, rs_error_rate = fraction_of (length errs) (length pool),
         rs_errors_by_type = errors_by_type errs, rs_ttft_coverage = coverage_of pool,
         rs_observed_reasoning_tokens = dist_from_values (counts_f64 reasoning),
         rs_observed_reasoning_tokens_total = token_total reasoning,
         rs_observed_visible_completion_tokens = dist_from_values (counts_f64 visible),
         rs_observed_visible_completion_tokens_total = token_total visible,
         rs_fallback_ttft_s = dist_of fallback_ttft pool, rs_window_seconds = window_seconds,
         rs_requests_per_second = per_window valid_window window (length (filter is_completed_response pool)),
         rs_usage_missing_count = sum_usage_missing_count completion,
         rs_completion_tokens_per_second =
           (if valid_window then map_option (\<lambda>t. fdiv (f_of_nat t) window) (sum_total completion) else None),
         rs_completion_tokens_source = sum_source completion,
         rs_prompt_tokens_total = sum_total prompt, rs_completion_tokens_total = sum_total completion,
         rs_input_tokens_per_second =
           (if valid_window then map_option (\<lambda>t. fdiv (f_of_nat t) window) (sum_total prompt) else None),
         rs_total_tokens_per_second =
           (case (sum_total prompt, sum_total completion) of
              (Some p, Some c) \<Rightarrow> per_window valid_window window (sat64 p c) | _ \<Rightarrow> None),
         rs_latency_s = dist_from_values (map rr_latency_s ok),
         rs_coordinated_omission_latency_s = dist_from_values (map corrected_latency_s ok),
         rs_ttft_s = dist_of rr_ttft_s (filter is_completed_response pool),
         rs_ttft_visible_answer_s = dist_of rr_ttft_visible_answer_s pool,
         rs_answered_requests = answered,
         rs_answered_requests_per_second = per_window valid_window window answered,
         rs_legacy_success_completion_tokens_per_second = legacy_rate pool,
         rs_non_reasoning_completion_tokens_per_second = non_reasoning_rate pool valid_window window,
         rs_tpot_s = dist_of tpot_s ok, rs_itl_s = dist_from_values (concat (map rr_itl_s ok)),
         rs_connect_s = dist_of rr_connect_s ok, rs_prefill_s = dist_of rr_prefill_s ok,
         rs_decode_s = dist_of rr_decode_s ok, rs_decode_tok_s = dist_of rr_decode_tok_s ok,
         rs_recorded = recorded_field_dists_of ok,
         rs_first_reasoning_s = dist_of rr_first_reasoning_s pool,
         rs_ttft_first_any_s = dist_of observed_any pool,
         rs_http = http_trace_dists_of ok, rs_throughput_bins_rps = dist_from_values bin_rates,
         rs_goodput = goodput_of pool ok slos valid_window window,
         rs_pooled_mixture = (1 < length per_endpoint), rs_per_endpoint = per_endpoint,
         rs_environment = environment, rs_sut = None, rs_price_per_hour = None,
         rs_price_provenance = None, rs_cost_per_million_output_tokens = None,
         rs_observed_concurrency = None, rs_time_weighted = tw, rs_isl_osl = None,
         rs_ttft_approx_count = 0, rs_ttft_warning = None, rs_telemetry = None,
         rs_partial = partial, rs_config = None\<rparr>)
        (summary_time_weighted pool ok window_seconds)))"

definition from_records :: "json \<Rightarrow> request_record list \<Rightarrow> f64 \<Rightarrow> bool \<Rightarrow> run_summary option" where
  "from_records environment records window_seconds partial =
     from_records_with_options environment records window_seconds partial slo_default (Fin 10)"

definition with_price :: "(f64 \<times> string) option \<Rightarrow> run_summary \<Rightarrow> run_summary" where
  "with_price price s =
     (case price of
        Some (p, provenance) \<Rightarrow>
          s\<lparr>rs_price_per_hour := Some p, rs_price_provenance := Some provenance,
            rs_cost_per_million_output_tokens :=
              Option.bind (rs_completion_tokens_per_second s) (cost_per_million_output_tokens p)\<rparr>
      | None \<Rightarrow>
          s\<lparr>rs_price_per_hour := None, rs_price_provenance := None,
            rs_cost_per_million_output_tokens := None\<rparr>)"

definition with_ttft_audit :: "nat \<Rightarrow> ustr option \<Rightarrow> run_summary \<Rightarrow> run_summary" where
  "with_ttft_audit n warning s = s\<lparr>rs_ttft_approx_count := n, rs_ttft_warning := warning\<rparr>"

definition with_config :: "json \<Rightarrow> run_summary \<Rightarrow> run_summary" where
  "with_config c s = s\<lparr>rs_config := Some c\<rparr>"

definition with_telemetry :: "json option \<Rightarrow> run_summary \<Rightarrow> run_summary" where
  "with_telemetry t s = s\<lparr>rs_telemetry := t\<rparr>"

definition with_sut :: "sut option \<Rightarrow> run_summary \<Rightarrow> run_summary" where
  "with_sut x s = s\<lparr>rs_sut := x\<rparr>"

definition with_observed_concurrency :: "observed_concurrency option \<Rightarrow> run_summary \<Rightarrow> run_summary" where
  "with_observed_concurrency x s = s\<lparr>rs_observed_concurrency := x\<rparr>"

definition with_isl_osl :: "isl_osl_validation option \<Rightarrow> run_summary \<Rightarrow> run_summary" where
  "with_isl_osl x s = s\<lparr>rs_isl_osl := x\<rparr>"

datatype cohort_error = NonzeroQueueDelay | TooFewAnswered | EqualAnswered

text \<open>The median latency of the answered cohort.\<close>

definition answered_e2e_median :: "request_record list \<Rightarrow> cohort_error + f64" where
  "answered_e2e_median records =
     (if \<exists>r \<in> set records. rr_phase r = Measure \<and> \<not> feq (rr_queue_delay_s r) (Fin 0) then Inl NonzeroQueueDelay
      else let values = sort (map rr_latency_s
                 (filter (\<lambda>r. rr_phase r = Measure \<and> is_success r \<and> rr_answer_completed r = Some True) records));
               middle = length values div 2
           in if length values < 2 \<or> (\<exists>v \<in> set values. \<not> is_finite v \<or> fle v (Fin 0)) then Inl TooFewAnswered
              else if hd_opt values = last_opt values then Inl EqualAnswered
              else Inr (if even (length values)
                then fadd (fdiv (values ! (middle - 1)) (Fin 2)) (fdiv (values ! middle) (Fin 2))
                else values ! middle))"

record cross_run_summary =
  cr_runs :: nat
  cr_requests_per_second :: dist_summary
  cr_requests_per_second_ci95 :: confidence_interval
  cr_completion_tokens_per_second :: dist_summary
  cr_completion_tokens_per_second_ci95 :: confidence_interval

text \<open>\<open>draw seed r i\<close>: the generator seeded with \<open>seed\<close>; \<open>0.95\<close> is a parameter of the interval.\<close>

definition from_runs :: "(64 word \<Rightarrow> nat \<Rightarrow> nat \<Rightarrow> nat) \<Rightarrow> run_summary list \<Rightarrow> 64 word \<Rightarrow> cross_run_summary" where
  "from_runs draw runs seed =
     (let rates = List.map_filter rs_requests_per_second runs;
          tokens = List.map_filter rs_completion_tokens_per_second runs
      in \<lparr>cr_runs = length runs, cr_requests_per_second = dist_from_values rates,
          cr_requests_per_second_ci95 = bootstrap_mean_ci (draw seed) rates (rnd (95 / 100)) 10000,
          cr_completion_tokens_per_second = dist_from_values tokens,
          cr_completion_tokens_per_second_ci95 =
            bootstrap_mean_ci (draw (seed + 1)) tokens (rnd (95 / 100)) 10000\<rparr>)"

subsection \<open>Parsed thresholds are durations and rates\<close>

text \<open>A binary64 value, finite and not negative.\<close>

definition limit_ok :: "f64 option \<Rightarrow> bool" where
  "limit_ok v = (case v of None \<Rightarrow> True | Some x \<Rightarrow> is_f64 x \<and> is_finite x \<and> nonneg x)"

definition slo_ok :: "slo_config \<Rightarrow> bool" where
  "slo_ok c \<longleftrightarrow> limit_ok (slo_ttft_s c) \<and> limit_ok (slo_tpot_s c) \<and> limit_ok (slo_e2e_s c) \<and>
     limit_ok (slo_user_tps c)"

lemma limit_ok_simps [simp]:
  "limit_ok None" "limit_ok (Some x) \<longleftrightarrow> is_f64 x \<and> is_finite x \<and> nonneg x"
  by (simp_all add: limit_ok_def)

lemma checked_value: "is_finite x \<Longrightarrow> \<not> flt x (Fin 0) \<Longrightarrow> nonneg x"
  by (cases x) auto

lemma scaled_ok:
  assumes x: "is_f64 x" "is_finite x" "nonneg x" and b: "0 \<le> b" "b \<le> 1"
  shows "is_f64 (fmul x (Fin b)) \<and> is_finite (fmul x (Fin b)) \<and> nonneg (fmul x (Fin b))"
proof -
  from x obtain a where a: "x = Fin a" "rnd a = Fin a" "0 \<le> a" by (auto elim: is_finiteE)
  then have p: "0 \<le> a * b" "a * b \<le> a" using b by (simp_all add: mult_left_le)
  from rnd_mono [OF p(2)] a(2) have "rnd (a * b) \<le> Fin a" by simp
  moreover have "nonneg (rnd (a * b))" by (rule nonneg_rnd) (rule p(1))
  ultimately have "is_finite (rnd (a * b))" using rnd_not_NaN [of "a * b"] by (cases "rnd (a * b)") auto
  with \<open>nonneg (rnd (a * b))\<close> show ?thesis by (simp add: a(1) fmul_def)
qed

lemma parse_duration_ok:
  assumes pf: "\<And>t x. pf t = Some x \<Longrightarrow> is_f64 x" and r: "parse_duration_seconds pf raw = Inr v"
  shows "is_f64 v \<and> is_finite v \<and> nonneg v"
proof -
  obtain m where m: "rnd (1 / 1000) = Fin m" "0 \<le> m" "m \<le> 1"
    using f64_round.unit_finite [of "1 / 1000"] by auto
  from r obtain number scale x where x: "pf number = Some x" "is_finite x" "\<not> flt x (Fin 0)"
    and v: "v = fmul x scale" and "scale \<in> {rnd (1 / 1000), Fin 1}"
    by (fastforce simp: parse_duration_seconds_def Let_def split: option.splits if_splits prod.splits)
  then obtain b where "scale = Fin b" "0 \<le> b" "b \<le> 1" using m by auto
  with scaled_ok [of x b] pf [OF x(1)] x checked_value v show ?thesis by simp
qed

lemma parse_slo_ok:
  assumes pf: "\<And>t x. pf t = Some x \<Longrightarrow> is_f64 x" and c: "slo_ok c" and r: "parse_slo pf v c = Inr c'"
  shows "slo_ok c'"
  using c r parse_duration_ok [of pf] pf checked_value
  by (auto simp: parse_slo_def slo_ok_def map_sum_def split: option.splits if_splits prod.splits sum.splits)

text \<open>
C21: Every accepted list of SLO flags yields a well-formed configuration, when the number parser
returns binary64 values: each threshold set is a finite, non-negative binary64 value, scaling by
milliseconds included, so that no comparison with a threshold is against NaN or an infinity.
\<close>

theorem parsed_slos_well_formed:
  assumes "\<And>t x. parse_f64 t = Some x \<Longrightarrow> is_f64 x" and "parse_slos parse_f64 vs slo_default = Inr c"
  shows "slo_ok c"
proof -
  have step: "slo_ok c2" if "slo_ok c1" "parse_slo parse_f64 v c1 = Inr c2" for v c1 c2
    using assms(1) that by (rule parse_slo_ok)
  have "slo_ok c0 \<Longrightarrow> parse_slos parse_f64 vs c0 = Inr c \<Longrightarrow> slo_ok c" for c0
    by (induction vs arbitrary: c0) (auto split: sum.splits dest: step)
  from this [of slo_default] show ?thesis using assms(2) by (simp add: slo_ok_def slo_default_def)
qed

definition demo_parse :: "ustr \<Rightarrow> f64 option" where
  "demo_parse t = (if t = lit ''250'' then Some (Fin 250) else None)"

lemma demo_parse_f64: "demo_parse t = Some x \<Longrightarrow> is_f64 x"
  using rnd_of_int [of 250] by (auto simp: demo_parse_def split: if_splits)

lemma demo_slos:
  "parse_slos demo_parse [lit ''ttft=250'', lit ''user_tps= 250''] slo_default =
     Inr \<lparr>slo_ttft_s = Some (fmul (Fin 250) (Fin 1)), slo_tpot_s = None, slo_e2e_s = None,
       slo_user_tps = Some (Fin 250)\<rparr>"
  by code_simp

theorem parsed_slos_well_formed_witness:
  "slo_ok \<lparr>slo_ttft_s = Some (fmul (Fin 250) (Fin 1)), slo_tpot_s = None, slo_e2e_s = None,
     slo_user_tps = Some (Fin 250)\<rparr>"
  by (rule parsed_slos_well_formed [OF demo_parse_f64 demo_slos])

subsection \<open>Counting over ordered maps\<close>

lemma bt_get_Cons: "bt_get ((a, b) # m) k = (if k = a then Some b else bt_get m k)"
  by (simp add: bt_get_def)

lemma sum_bt_insert:
  "bt_inv m \<Longrightarrow>
    (\<Sum>p \<leftarrow> bt_insert k v m. f (snd p)) + (case bt_get m k of Some old \<Rightarrow> f old | None \<Rightarrow> 0) =
    (\<Sum>p \<leftarrow> m. f (snd p)) + (f v :: nat)"
proof (induction k v m rule: bt_insert.induct)
  case (2 k v a b m)
  show ?case
  proof (cases "k < a")
    case True
    then have "bt_get ((a, b) # m) k = None"
      using 2(2) by (intro bt_get_above) (auto simp: bt_inv_Cons)
    then show ?thesis using True by simp
  next
    case False
    then show ?thesis using 2 by (cases "k = a") (auto simp: bt_get_Cons bt_inv_Cons)
  qed
qed (simp add: bt_get_def)

lemma group_sum:
  fixes w :: "request_record \<Rightarrow> nat"
  assumes "g [] = 0" "\<And>xs r. g (xs @ [r]) = g xs + w r"
  shows "(\<Sum>p \<leftarrow> group_by_endpoint rows. g (snd p)) = (\<Sum>r \<leftarrow> rows. w r)"
proof -
  let ?step = "\<lambda>m r. bt_insert (rr_endpoint r) (unwrap_or (bt_get m (rr_endpoint r)) [] @ [r]) m"
  have "bt_inv m \<Longrightarrow> (\<Sum>p \<leftarrow> foldl ?step m rows. g (snd p)) = (\<Sum>p \<leftarrow> m. g (snd p)) + (\<Sum>r \<leftarrow> rows. w r)" for m
  proof (induction rows arbitrary: m)
    case (Cons r rows)
    have "(\<Sum>p \<leftarrow> ?step m r. g (snd p)) = (\<Sum>p \<leftarrow> m. g (snd p)) + w r"
      using sum_bt_insert [OF Cons.prems, where k = "rr_endpoint r" and f = g and
          v = "unwrap_or (bt_get m (rr_endpoint r)) [] @ [r]"]
      using assms(1) assms(2) [of "[]" r] by (cases "bt_get m (rr_endpoint r)") (simp_all add: assms(2))
    then show ?case using Cons.IH [OF bt_inv_insert [OF Cons.prems]] by simp
  qed simp
  from this [of "[]"] show ?thesis by (simp add: group_by_endpoint_def)
qed

lemma errors_by_type_sum:
  assumes "\<forall>r \<in> set errs. rr_error r \<noteq> None"
  shows "(\<Sum>p \<leftarrow> errors_by_type errs. snd p) = length errs"
proof -
  let ?step = "\<lambda>m r. case rr_error r of
      Some err \<Rightarrow> bt_insert (lit (type_name err)) (unwrap_or (bt_get m (lit (type_name err))) 0 + 1) m
    | None \<Rightarrow> m"
  have "bt_inv m \<Longrightarrow> (\<Sum>p \<leftarrow> foldl ?step m errs. snd p) = (\<Sum>p \<leftarrow> m. snd p) + length errs" for m :: "(ustr, nat) btree"
    using assms
  proof (induction errs arbitrary: m)
    case (Cons r errs)
    then obtain e where e: "rr_error r = Some e" by auto
    let ?k = "lit (type_name e)"
    have "(\<Sum>p \<leftarrow> bt_insert ?k (unwrap_or (bt_get m ?k) 0 + 1) m. snd p) = (\<Sum>p \<leftarrow> m. snd p) + 1"
      using sum_bt_insert [OF Cons.prems(1), where k = ?k and f = id and v = "unwrap_or (bt_get m ?k) 0 + 1"]
      by (cases "bt_get m ?k") simp_all
    then show ?case using Cons.IH [OF bt_inv_insert [OF Cons.prems(1)]] Cons.prems(2) e by simp
  qed simp
  from this [of "[]"] show ?thesis by (simp add: errors_by_type_def)
qed

subsection \<open>Coverage\<close>

lemma cover_flags_frame [simp]:
  "cov_stream (cover_flags v r t n c) = cov_stream c" "cov_unresolved (cover_flags v r t n c) = cov_unresolved c"
  "cov_first_token_fallback (cover_flags v r t n c) = cov_first_token_fallback c"
  "cov_first_byte_approx (cover_flags v r t n c) = cov_first_byte_approx c"
  "cov_measured (cover_flags v r t n c) = cov_measured c"
  "cov_visible (cover_flags v r t n c) = cov_visible c + of_bool v"
  "cov_reasoning_only (cover_flags v r t n c) = cov_reasoning_only c + of_bool (r \<and> \<not> v)"
  by (simp_all add: cover_flags_def Let_def)

definition cov_sources :: "ttft_coverage \<Rightarrow> nat" where
  "cov_sources c = cov_stream c + cov_first_token_fallback c + cov_first_byte_approx c + cov_unresolved c"

lemma cov_sources_flags [simp]: "cov_sources (cover_flags v r t n c) = cov_sources c"
  by (simp add: cov_sources_def)

lemma cover_source_counts [simp]:
  "cov_sources (cover_source s c) = cov_sources c + 1" "cov_visible (cover_source s c) = cov_visible c"
  "cov_measured (cover_source s c) = cov_measured c" "cov_reasoning_only (cover_source s c) = cov_reasoning_only c"
  by (auto simp: cover_source_def cov_sources_def split: option.split ttft_source.split)

text \<open>A row's step sets the flags after counting its source; runs and sweep stages count their
  coverage by such steps.\<close>

locale coverage_rows =
  fixes row :: "ttft_coverage \<Rightarrow> 'r \<Rightarrow> ttft_coverage"
  assumes row_step: "\<exists>v rs t n s. row c r = cover_flags v rs t n (cover_source s c)"
begin

lemma row_counts:
  "cov_sources (row c r) = cov_sources c + 1 \<and>
   cov_visible (row c r) + cov_reasoning_only (row c r) \<le> cov_visible c + cov_reasoning_only c + 1"
  using row_step [of c r] by auto

lemma foldl_row:
  "cov_sources (foldl row c rows) = cov_sources c + length rows \<and>
   cov_visible (foldl row c rows) + cov_reasoning_only (foldl row c rows) \<le>
     cov_visible c + cov_reasoning_only c + length rows"
proof (induction rows arbitrary: c)
  case (Cons r rows)
  show ?case using Cons.IH [of "row c r"] row_counts [of c r] by simp
qed simp

lemma coverage_counts:
  "cov_sources (coverage_by row pool) = length pool"
  "cov_visible (coverage_by row pool) + cov_missing_visible (coverage_by row pool) = length pool"
  "cov_reasoning_only (coverage_by row pool) \<le> cov_missing_visible (coverage_by row pool)"
proof -
  define c where "c = foldl row (coverage_default\<lparr>cov_measured := length pool\<rparr>) pool"
  have c: "cov_sources c = length pool" "cov_visible c + cov_reasoning_only c \<le> length pool"
    using foldl_row [of "coverage_default\<lparr>cov_measured := length pool\<rparr>" pool]
    by (simp_all add: c_def coverage_default_def cov_sources_def)
  have e: "coverage_by row pool = c\<lparr>cov_missing_visible := length pool - cov_visible c\<rparr>"
    by (simp add: coverage_by_def c_def Let_def)
  show "cov_sources (coverage_by row pool) = length pool"
    using c(1) by (simp add: e cov_sources_def)
  show "cov_visible (coverage_by row pool) + cov_missing_visible (coverage_by row pool) = length pool"
    "cov_reasoning_only (coverage_by row pool) \<le> cov_missing_visible (coverage_by row pool)"
    using c(2) by (simp_all add: e)
qed

end

interpretation run_coverage: coverage_rows cover_row
  unfolding coverage_rows_def cover_row_def by blast

lemmas coverage_of_counts = run_coverage.coverage_counts [folded coverage_of_def]

subsection \<open>Token sums\<close>

lemma sum_length_of_bool: "(\<Sum>x \<leftarrow> xs. of_bool (P x)) = length (filter P xs)"
  by (induction xs) auto

lemma foldl_add_token_sum:
  "foldl (add_token_sum (\<lambda>r. (f r, None))) (missing, s, fallback, gap) rows =
     (missing + length (filter rr_usage_missing rows),
      foldl sat64 s (map f (filter (\<lambda>r. \<not> rr_usage_missing r) rows)), fallback,
      gap \<or> (\<exists>r \<in> set rows. rr_usage_missing r))"
  by (induction rows arbitrary: missing s fallback gap) (auto simp: add_token_sum_def)

lemma server_token_sum:
  fixes f :: "request_record \<Rightarrow> nat" and rows :: "request_record list"
  defines "a \<equiv> token_sum_accounting rows (\<lambda>r. (f r, None))"
  shows "sum_usage_missing_count a = length (filter rr_usage_missing rows)"
    "sum_source a \<in> {None, Some ''server_usage''}"
    "sum_total a = Some t \<Longrightarrow> rows \<noteq> [] \<and> list_all (\<lambda>r. \<not> rr_usage_missing r) rows \<and>
       t = min (sum_list (map f rows)) (2 ^ 64 - 1)"
    "sum_total a = None \<Longrightarrow> list_ex rr_usage_missing rows \<or> sum_list (map f rows) = 0"
proof -
  have all: "filter (\<lambda>r. \<not> rr_usage_missing r) rows = rows" if "list_all (\<lambda>r. \<not> rr_usage_missing r) rows"
    using that by (simp add: list_all_iff)
  show "sum_usage_missing_count a = length (filter rr_usage_missing rows)"
    "sum_source a \<in> {None, Some ''server_usage''}"
    by (simp_all add: a_def token_sum_accounting_def foldl_add_token_sum)
  show "rows \<noteq> [] \<and> list_all (\<lambda>r. \<not> rr_usage_missing r) rows \<and> t = min (sum_list (map f rows)) (2 ^ 64 - 1)"
    if "sum_total a = Some t"
  proof -
    from that have g: "rows \<noteq> []" "list_all (\<lambda>r. \<not> rr_usage_missing r) rows"
      by (auto simp: a_def sum_total_def token_sum_accounting_def foldl_add_token_sum list_all_iff split: if_splits)
    with that show ?thesis
      using foldl_sat64 [of 0 "map f rows"] all [OF g(2)]
      by (auto simp: a_def sum_total_def token_sum_accounting_def foldl_add_token_sum split: if_splits)
  qed
  show "list_ex rr_usage_missing rows \<or> sum_list (map f rows) = 0" if n: "sum_total a = None"
  proof (rule ccontr)
    assume "\<not> (list_ex rr_usage_missing rows \<or> sum_list (map f rows) = 0)"
    then have u: "\<not> list_ex rr_usage_missing rows" and p: "0 < sum_list (map f rows)"
      using neq0_conv by blast+
    then have u: "list_all (\<lambda>r. \<not> rr_usage_missing r) rows" by (simp add: list_ex_iff list_all_iff)
    have "0 < foldl sat64 0 (map f rows)" using foldl_sat64 [of 0 "map f rows"] p by simp
    moreover have "rows \<noteq> []" using p by auto
    moreover have "\<not> (\<exists>r \<in> set rows. rr_usage_missing r)" using u by (auto simp: list_all_iff)
    ultimately show False
      using all [OF u] n by (simp add: a_def sum_total_def token_sum_accounting_def foldl_add_token_sum)
  qed
qed

text \<open>When the bins of a window panic: too many of them, or counted ones narrower than the epsilon.\<close>

definition bins_panic :: "request_record list \<Rightarrow> f64 option \<Rightarrow> f64 \<Rightarrow> f64 \<Rightarrow> bool" where
  "bins_panic rows anchor w b \<longleftrightarrow> 2 ^ 60 \<le> bin_count w b \<or>
     (flt b EPSILON \<and> list_ex (\<lambda>c. 0 < c) (fill_bins rows anchor b (replicate (bin_count w b) 0)))"

lemma throughput_bins_None:
  "throughput_bins rows anchor w b = None \<longleftrightarrow>
     rows \<noteq> [] \<and> is_finite b \<and> flt (Fin 0) b \<and> bins_panic rows anchor w b"
  by (cases b) (auto simp: throughput_bins_def bins_panic_def vec_fits_def Let_def list_all_iff list_ex_iff
      EPSILON_def)

lemma compute_total: "(compute spans ws w = None) = False"
  using compute_Some by blast

lemma summary_None:
  "from_records_with_options env records w p slos b = None \<longleftrightarrow> is_finite w \<and> flt (Fin 0) w \<and>
     throughput_bins (filter is_success (measured_pool records))
       (open_loop_anchor (measured_pool records)) w b = None"
  by (auto simp: from_records_with_options_def summary_time_weighted_def Let_def bind_eq_None_conv
      compute_total)

lemma filter_Nil_list_ex: "filter P xs \<noteq> [] \<longleftrightarrow> list_ex P xs"
  by (induction xs) auto

lemma summary_counts:
  assumes "from_records_with_options env records w p slos b = Some s"
  shows "rs_attempted s = length (measured_pool records) \<and>
     rs_successes s = length (filter is_success (measured_pool records)) \<and>
     rs_successes s + rs_errors s = rs_attempted s \<and>
     cov_sources (rs_ttft_coverage s) = rs_attempted s \<and>
     cov_visible (rs_ttft_coverage s) + cov_missing_visible (rs_ttft_coverage s) = rs_attempted s \<and>
     cov_reasoning_only (rs_ttft_coverage s) \<le> cov_missing_visible (rs_ttft_coverage s) \<and>
     (\<Sum>p \<leftarrow> rs_per_endpoint s. ep_attempted (snd p)) = rs_attempted s \<and>
     (\<Sum>p \<leftarrow> rs_per_endpoint s. ep_successes (snd p)) = rs_successes s \<and>
     (\<Sum>p \<leftarrow> rs_errors_by_type s. snd p) = rs_errors s \<and>
     gp_count (rs_goodput s) \<le> rs_successes s"
proof -
  let ?pool = "measured_pool records"
  have f: "rs_attempted s = length ?pool" "rs_successes s = length (filter is_success ?pool)"
    "rs_errors s = length (filter (\<lambda>r. \<not> is_success r) ?pool)" "rs_ttft_coverage s = coverage_of ?pool"
    "rs_per_endpoint s = endpoint_summaries ?pool"
    "rs_errors_by_type s = errors_by_type (filter (\<lambda>r. \<not> is_success r) ?pool)"
    "gp_count (rs_goodput s) = length (filter (\<lambda>r. rr_answer_completed r \<noteq> Some False \<and> meets_slos r slos)
      (filter is_success ?pool))"
    using assms by (auto simp: from_records_with_options_def Let_def goodput_of_def bind_eq_Some_conv)
  have g: "gp_count (rs_goodput s) \<le> rs_successes s" unfolding f by (rule length_filter_le)
  note c = coverage_of_counts [of ?pool]
  have ep: "map (\<lambda>p. ep_attempted (snd p)) (endpoint_summaries ?pool) = map (\<lambda>p. length (snd p)) (group_by_endpoint ?pool)"
    "map (\<lambda>p. ep_successes (snd p)) (endpoint_summaries ?pool) =
       map (\<lambda>p. length (filter is_success (snd p))) (group_by_endpoint ?pool)"
    by (auto simp: endpoint_summaries_def endpoint_summary_of_def Let_def)
  have "(\<Sum>p \<leftarrow> endpoint_summaries ?pool. ep_attempted (snd p)) = length ?pool"
    unfolding ep(1) using group_sum [of length "\<lambda>_. 1" ?pool] by (simp add: sum_list_triv)
  moreover have "(\<Sum>p \<leftarrow> endpoint_summaries ?pool. ep_successes (snd p)) = length (filter is_success ?pool)"
    unfolding ep(2)
    using group_sum [of "\<lambda>xs. length (filter is_success xs)" "\<lambda>r. of_bool (is_success r)" ?pool]
    by (simp add: sum_length_of_bool)
  moreover have "(\<Sum>p \<leftarrow> errors_by_type (filter (\<lambda>r. \<not> is_success r) ?pool). snd p) = length (filter (\<lambda>r. \<not> is_success r) ?pool)"
    by (rule errors_by_type_sum) (auto simp: is_success_def)
  ultimately show ?thesis
    using g f(1-6) c sum_length_filter_compl [of is_success ?pool] by simp
qed

subsection \<open>Properties\<close>

text \<open>
C19: The only way a run cannot be summarized is a panic while its throughput is binned: exactly
when the window is finite and positive, a measured record succeeded, the bin width is finite and
positive, and the window has 2^60 bins or more (their vector exceeds the address space) or the
bins are narrower than the machine epsilon and one of them counts a request. In every summary
the counts partition the measured records: successes and errors; the four first-token sources,
as the comment on \<open>TtftCoverage\<close> says; visible and missing visible answers; the endpoints, for
attempts and for successes; and the typed errors. Goodput never exceeds the successes.
\<close>

theorem summary_partitions:
  defines "pool \<equiv> measured_pool"
  shows "(from_records_with_options env records w p slos b = None \<longleftrightarrow>
      is_finite w \<and> flt (Fin 0) w \<and> list_ex is_success (pool records) \<and> is_finite b \<and> flt (Fin 0) b \<and>
      bins_panic (filter is_success (pool records)) (open_loop_anchor (pool records)) w b) \<and>
    (\<forall>s. from_records_with_options env records w p slos b = Some s \<longrightarrow>
     rs_attempted s = length (pool records) \<and>
     rs_successes s = length (filter is_success (pool records)) \<and>
     rs_successes s + rs_errors s = rs_attempted s \<and>
     cov_sources (rs_ttft_coverage s) = rs_attempted s \<and>
     cov_visible (rs_ttft_coverage s) + cov_missing_visible (rs_ttft_coverage s) = rs_attempted s \<and>
     cov_reasoning_only (rs_ttft_coverage s) \<le> cov_missing_visible (rs_ttft_coverage s) \<and>
     (\<Sum>p \<leftarrow> rs_per_endpoint s. ep_attempted (snd p)) = rs_attempted s \<and>
     (\<Sum>p \<leftarrow> rs_per_endpoint s. ep_successes (snd p)) = rs_successes s \<and>
     (\<Sum>p \<leftarrow> rs_errors_by_type s. snd p) = rs_errors s \<and>
     gp_count (rs_goodput s) \<le> rs_successes s)"
  unfolding pool_def summary_None throughput_bins_None filter_Nil_list_ex
  using summary_counts by blast

text \<open>
C20: In every summary a token total, of the prompts as of the completions, is reported only when
it is complete: no measured record then lacks the server's usage and the total is the 64-bit
saturating sum of the server's counts over all measured records; a positive sum with no record
lacking usage is always reported. The tokenizer never fills these totals, whatever the field
comments say. Over a finite positive window the input, completion and total token rates are the
prompt total, the completion total and their saturating sum (when both are there) divided by the
window; over any other window there is none.
\<close>

theorem summary_token_totals:
  assumes "from_records_with_options env records w p slos b = Some s"
  defines "rate \<equiv> map_option (\<lambda>t. fdiv (f_of_nat t) w)" and "both \<equiv> \<lambda>x y. min (x + y) (2 ^ 64 - 1)"
  shows "rs_usage_missing_count s = length (filter rr_usage_missing (measured_pool records)) \<and>
     rs_completion_tokens_source s \<in> {None, Some ''server_usage''} \<and>
     (case rs_completion_tokens_total s of
        Some t \<Rightarrow> list_all (\<lambda>r. \<not> rr_usage_missing r) (measured_pool records) \<and>
          t = min (\<Sum>r \<leftarrow> measured_pool records. rr_completion_tokens r) (2 ^ 64 - 1)
      | None \<Rightarrow> list_ex rr_usage_missing (measured_pool records) \<or>
          (\<Sum>r \<leftarrow> measured_pool records. rr_completion_tokens r) = 0) \<and>
     (case rs_prompt_tokens_total s of
        Some t \<Rightarrow> list_all (\<lambda>r. \<not> rr_usage_missing r) (measured_pool records) \<and>
          t = min (\<Sum>r \<leftarrow> measured_pool records. rr_prompt_tokens r) (2 ^ 64 - 1)
      | None \<Rightarrow> list_ex rr_usage_missing (measured_pool records) \<or>
          (\<Sum>r \<leftarrow> measured_pool records. rr_prompt_tokens r) = 0) \<and>
     (if is_finite w \<and> flt (Fin 0) w
      then rs_input_tokens_per_second s = rate (rs_prompt_tokens_total s) \<and>
        rs_completion_tokens_per_second s = rate (rs_completion_tokens_total s) \<and>
        rs_total_tokens_per_second s = rate (case (rs_prompt_tokens_total s, rs_completion_tokens_total s) of
          (Some x, Some y) \<Rightarrow> Some (both x y) | _ \<Rightarrow> None)
      else rs_input_tokens_per_second s = None \<and> rs_completion_tokens_per_second s = None \<and>
        rs_total_tokens_per_second s = None)"
proof -
  let ?pool = "measured_pool records"
  let ?c = "token_sum_accounting ?pool (\<lambda>r. (rr_completion_tokens r, None))"
  let ?p = "token_sum_accounting ?pool (\<lambda>r. (rr_prompt_tokens r, None))"
  let ?valid = "is_finite w \<and> flt (Fin 0) w"
  have f: "rs_usage_missing_count s = sum_usage_missing_count ?c" "rs_completion_tokens_source s = sum_source ?c"
    "rs_completion_tokens_total s = sum_total ?c" "rs_prompt_tokens_total s = sum_total ?p"
    "rs_completion_tokens_per_second s = (if ?valid then rate (sum_total ?c) else None)"
    "rs_input_tokens_per_second s = (if ?valid then rate (sum_total ?p) else None)"
    using assms(1) by (auto simp: from_records_with_options_def Let_def bind_eq_Some_conv rate_def)
  have t: "rs_total_tokens_per_second s = (case (sum_total ?p, sum_total ?c) of
      (Some x, Some y) \<Rightarrow> per_window ?valid (if ?valid then w else Fin 1) (sat64 x y) | _ \<Rightarrow> None)"
    using assms(1) by (auto simp: from_records_with_options_def Let_def bind_eq_Some_conv)
  note c = server_token_sum [of ?pool rr_completion_tokens]
  note p = server_token_sum [of ?pool rr_prompt_tokens]
  have "case sum_total ?c of
        Some t \<Rightarrow> list_all (\<lambda>r. \<not> rr_usage_missing r) ?pool \<and>
          t = min (\<Sum>r \<leftarrow> ?pool. rr_completion_tokens r) (2 ^ 64 - 1)
      | None \<Rightarrow> list_ex rr_usage_missing ?pool \<or> (\<Sum>r \<leftarrow> ?pool. rr_completion_tokens r) = 0"
    using c(3,4) by (cases "sum_total ?c") simp_all
  moreover have "case sum_total ?p of
        Some t \<Rightarrow> list_all (\<lambda>r. \<not> rr_usage_missing r) ?pool \<and>
          t = min (\<Sum>r \<leftarrow> ?pool. rr_prompt_tokens r) (2 ^ 64 - 1)
      | None \<Rightarrow> list_ex rr_usage_missing ?pool \<or> (\<Sum>r \<leftarrow> ?pool. rr_prompt_tokens r) = 0"
    using p(3,4) by (cases "sum_total ?p") simp_all
  moreover have "rs_total_tokens_per_second s = (if ?valid then rate (case (sum_total ?p, sum_total ?c) of
      (Some x, Some y) \<Rightarrow> Some (both x y) | _ \<Rightarrow> None) else None)"
    unfolding t by (auto simp: per_window_def sat64_def rate_def both_def split: option.splits)
  ultimately show ?thesis using f c(1,2) by simp
qed

theorem summary_partitions_witness:
  "\<exists>s. from_records_with_options JNull [] (Fin 1) False slo_default (Fin 10) = Some s \<and>
     rs_successes s + rs_errors s = 0"
proof -
  note p = summary_partitions [of JNull "[]" "Fin 1" False slo_default "Fin 10"]
  then have "from_records_with_options JNull [] (Fin 1) False slo_default (Fin 10) \<noteq> None"
    by (simp add: measured_pool_def)
  then show ?thesis using p by (auto simp: measured_pool_def)
qed

theorem summary_token_totals_witness:
  "\<exists>s. from_records_with_options JNull [] (Fin 1) False slo_default (Fin 10) = Some s \<and>
     rs_usage_missing_count s = 0"
proof -
  obtain s where s: "from_records_with_options JNull [] (Fin 1) False slo_default (Fin 10) = Some s"
    using summary_None [of JNull "[]" "Fin 1" False slo_default "Fin 10"]
    by (auto simp: measured_pool_def throughput_bins_None)
  then show ?thesis using summary_token_totals [OF s] by (auto simp: measured_pool_def)
qed

text \<open>
The bin width is a command line flag nobody checks: one that is positive but tiny makes every
summary with a success panic, at the end of the run.
\<close>

lemma rnd_rat_half: assumes "1 \<le> x" shows "x / 2 \<le> rnd_rat x"
proof -
  have "pow2 (log2_floor x) \<le> x" using assms by (intro log2_floor_bounds) simp
  moreover have "pow2 (- 1074) \<le> pow2 0" by (rule pow2_mono) simp
  moreover have "pow2 (log2_floor x - 52) \<le> pow2 (log2_floor x)" by (rule pow2_mono) simp
  ultimately have "pow2 (ulp_exp x) \<le> x"
    using assms by (auto simp: ulp_exp_def max_def pow2_nonneg_int)
  moreover have "x - rnd_rat x \<le> pow2 (ulp_exp x) / 2"
    using rnd_rat_error [of x] unfolding abs_le_iff by simp
  ultimately show ?thesis by simp
qed

lemma tiny_bin_panics:
  assumes "list_ex is_success (measured_pool records)"
  shows "from_records_with_options env records (Fin 1) p slos (Fin (1 / 2 ^ 70)) = None"
proof -
  have q: "(2 ^ 60 :: rat) \<le> rnd_rat (2 ^ 70)" using rnd_rat_half [of "2 ^ 70"] by simp
  have "2 ^ 60 \<le> f_to_usize (fmax (f_ceil (rnd (2 ^ 70))) (Fin 1))"
  proof (cases "rnd (2 ^ 70)")
    case (Fin a)
    then have "a = rnd_rat (2 ^ 70)" by (auto simp: rnd_def Let_def split: if_splits)
    then have "(of_int (2 ^ 60) :: rat) \<le> of_int \<lceil>a\<rceil>" using q le_of_int_ceiling [of a] by simp
    then have "2 ^ 60 \<le> nat \<lceil>a\<rceil>" unfolding of_int_le_iff by (simp add: le_nat_iff)
    moreover have "1 < a" using q \<open>a = rnd_rat (2 ^ 70)\<close> by simp
    ultimately show ?thesis using Fin by (simp add: fmax_def max_def)
  qed (use q in \<open>auto simp: fmax_def max_def rnd_def Let_def split: if_splits\<close>)
  then have "2 ^ 60 \<le> bin_count (Fin 1) (Fin (1 / 2 ^ 70))" by (simp add: bin_count_def fdiv_def)
  then show ?thesis
    using assms by (auto simp: summary_None throughput_bins_None bins_panic_def filter_Nil_list_ex)
qed

end
