(* ===== verification/Strategic.thy ===== *)
theory Strategic
  imports Summary
begin

text \<open>
  Stages of a strategic sweep (\<open>src/strategic.rs\<close>): the record of a request, its derived
  metrics, the clock and window of a stage, and the sweep point that summarizes it. Fields of
  the record carry the prefix \<open>br_\<close>, fields of the sweep point \<open>sp_\<close>; its token counts
  and its distributions are kept in two records of their own.
\<close>

record bench_record =
  br_seq :: nat
  br_stage :: f64
  br_endpoint :: ustr
  br_scheduled_unix_ns :: nat
  br_sent_unix_ns :: nat
  br_latency_s :: f64
  br_queue_delay_s :: f64
  br_service_latency_s :: f64
  br_first_byte_s :: "f64 option"
  br_connect_s :: "f64 option"
  br_ttft_s :: "f64 option"
  br_ttft_source :: "ttft_source option"
  br_prefill_s :: "f64 option"
  br_decode_s :: "f64 option"
  br_decode_tok_s :: "f64 option"
  br_itl_s :: "f64 list"
  br_in_flight_at_send :: "nat option"
  br_success :: bool
  br_valid :: "bool option"
  br_input_tokens :: nat
  br_output_tokens :: nat
  br_session_id :: "ustr option"
  br_turn :: "nat option"
  br_error :: "ustr option"
  br_warmup :: bool
  br_first_reasoning_s :: "f64 option"
  br_reasoning_tokens :: "nat option"
  br_connection_reused :: "bool option"
  br_dns_s :: "f64 option"
  br_bytes_sent :: "nat option"
  br_receive_s :: "f64 option"
  br_bytes_received :: "nat option"
  br_chunks_received :: "nat option"
  br_send_offset_s :: "f64 option"
  br_ttft_visible_answer_s :: "f64 option"
  br_outcome :: "string option"
  br_answer_completed :: "bool option"
  br_usage_missing :: bool
  br_usage_prompt_tokens_present :: "bool option"
  br_usage_completion_tokens_present :: "bool option"

subsection \<open>The list column of a CSV row\<close>

definition serialize_itl_s :: "(f64 \<Rightarrow> ustr) \<Rightarrow> f64 list \<Rightarrow> ustr" where
  "serialize_itl_s show_f64 itl = join [59] (map show_f64 itl)"

fun parse_parts :: "(ustr \<Rightarrow> f64 option) \<Rightarrow> ustr list \<Rightarrow> f64 list option" where
  "parse_parts parse_f64 [] = Some []"
| "parse_parts parse_f64 (p # ps) =
     (case parse_f64 p of
        None \<Rightarrow> None
      | Some v \<Rightarrow> map_option (Cons v) (parse_parts parse_f64 ps))"

definition deserialize_itl_s :: "(ustr \<Rightarrow> f64 option) \<Rightarrow> ustr \<Rightarrow> f64 list option" where
  "deserialize_itl_s parse_f64 raw =
     (if trim raw = [] then Some [] else parse_parts parse_f64 (split_on 59 raw))"

subsection \<open>Derived metrics of a record\<close>

definition bench_completed_response :: "bench_record \<Rightarrow> bool" where
  "bench_completed_response r \<longleftrightarrow>
     br_success r \<or> br_outcome r \<in> {Some ''reasoning_truncated'', Some ''no_output_token''}"

definition first_any_s :: "bench_record \<Rightarrow> f64 option" where
  "first_any_s r =
     reduce_fmin [if br_ttft_source r = Some Stream then br_ttft_s r else None, br_first_reasoning_s r]"

definition bench_tpot_s :: "bench_record \<Rightarrow> f64 option" where
  "bench_tpot_s r =
     (case br_ttft_s r of
        None \<Rightarrow> None
      | Some ttft \<Rightarrow>
          let gen = fmax (fsub (br_service_latency_s r) ttft) (Fin 0) in
          if br_output_tokens r \<le> 1 \<or> feq gen (Fin 0) then None
          else Some (fdiv gen (f_of_nat (br_output_tokens r - 1))))"

definition bench_user_tps :: "bench_record \<Rightarrow> f64 option" where
  "bench_user_tps r =
     (if \<not> br_success r \<or> br_output_tokens r = 0 \<or> fle (br_service_latency_s r) (Fin 0) then None
      else Some (fdiv (f_of_nat (br_output_tokens r)) (br_service_latency_s r)))"

definition bench_phase_metrics :: "bench_record \<Rightarrow> bench_record" where
  "bench_phase_metrics r =
     (if \<not> br_success r then r\<lparr>br_prefill_s := None, br_decode_s := None, br_decode_tok_s := None\<rparr>
      else
        let prefill = (case (br_ttft_s r, br_connect_s r) of
                (Some ttft, Some conn) \<Rightarrow> Some (fmax (fsub ttft conn) (Fin 0))
              | (Some ttft, None) \<Rightarrow> Some ttft
              | _ \<Rightarrow> None);
            decode = map_option (\<lambda>ttft. fmax (fsub (br_service_latency_s r) ttft) (Fin 0)) (br_ttft_s r);
            decode_tok = (case decode of
                Some d \<Rightarrow>
                  if flt (Fin 0) d \<and> 0 < br_output_tokens r
                  then Some (fdiv (f_of_nat (br_output_tokens r)) d) else None
              | None \<Rightarrow> None)
        in r\<lparr>br_prefill_s := prefill, br_decode_s := decode, br_decode_tok_s := decode_tok\<rparr>)"

text \<open>Unlike \<open>meets_slos\<close> of a run, a request without first-token timing passes those limits.\<close>

definition strategic_meets_slos :: "bench_record \<Rightarrow> slo_config \<Rightarrow> bool" where
  "strategic_meets_slos r slos \<longleftrightarrow>
     holds_or_unset (slo_e2e_s slos) (\<lambda>limit. \<not> flt limit (br_latency_s r)) \<and>
     holds_or_unset (slo_ttft_s slos) (\<lambda>limit. holds_or_unset (br_ttft_s r) (\<lambda>v. \<not> flt limit v)) \<and>
     holds_or_unset (slo_tpot_s slos) (\<lambda>limit. holds_or_unset (bench_tpot_s r) (\<lambda>v. \<not> flt limit v)) \<and>
     holds_or_unset (slo_user_tps slos) (\<lambda>low. some_and (bench_user_tps r) (\<lambda>v. fle low v))"

subsection \<open>The clock and the window of a stage\<close>

record send_clock =
  monotonic_origin :: "f64 option"
  wall_origin :: nat

fun collect_some :: "'a option list \<Rightarrow> 'a list option" where
  "collect_some [] = Some []"
| "collect_some (None # xs) = None"
| "collect_some (Some x # xs) = map_option (Cons x) (collect_some xs)"

definition send_clock_new :: "bench_record list \<Rightarrow> send_clock option" where
  "send_clock_new measured =
     (if measured = [] then None
      else Some \<lparr>monotonic_origin =
          Option.bind (collect_some (map (\<lambda>r. option_filter is_finite (br_send_offset_s r)) measured)) min_total,
        wall_origin = Min (set (map br_sent_unix_ns measured))\<rparr>)"

definition send_s :: "send_clock \<Rightarrow> bench_record \<Rightarrow> f64" where
  "send_s clock r =
     (case (monotonic_origin clock, br_send_offset_s r) of
        (Some origin, Some offset) \<Rightarrow> fmax (fsub offset origin) (Fin 0)
      | _ \<Rightarrow> fdiv (f_of_nat (br_sent_unix_ns r - wall_origin clock)) (Fin 1000000000))"

definition end_of :: "send_clock \<Rightarrow> bench_record \<Rightarrow> f64" where
  "end_of clock r =
     (let l = br_service_latency_s r
      in fadd (send_s clock r) (if is_finite l then fmax l (Fin 0) else Fin 0))"

definition stage_window_seconds :: "bench_record list \<Rightarrow> f64 option" where
  "stage_window_seconds records =
     (let measured = filter (\<lambda>r. \<not> br_warmup r) records in
      Option.bind (send_clock_new measured)
        (\<lambda>clock. map_option (\<lambda>e. fmax e (Fin 0)) (max_total (map (end_of clock) measured))))"

definition metrics_default :: time_weighted_metrics where
  "metrics_default =
     \<lparr>effective_concurrency = empty_stat 0, effective_prefill_concurrency = empty_stat 0,
      effective_decode_concurrency = empty_stat 0, tokens_in_flight = empty_stat 0,
      effective_prefill_throughput = empty_stat 0, effective_decode_throughput = empty_stat 0\<rparr>"

definition stage_span :: "send_clock \<Rightarrow> bool \<Rightarrow> bench_record \<Rightarrow> request_span" where
  "stage_span clock generates_output r =
     (let has_tokens = 0 < br_input_tokens r \<or> 0 < br_output_tokens r in
      \<lparr>start_s = send_s clock r, latency_s = br_service_latency_s r,
       prefill_end_s = phase_split_s (br_ttft_s r) (br_ttft_source r) (br_first_reasoning_s r),
       input_tokens = (if has_tokens then Some (br_input_tokens r) else None),
       output_tokens = (if has_tokens \<and> generates_output then Some (br_output_tokens r) else None)\<rparr>)"

definition stage_time_weighted ::
  "bench_record list \<Rightarrow> bench_record list \<Rightarrow> bool \<Rightarrow> time_weighted_metrics option" where
  "stage_time_weighted measured successes generates_output =
     (case send_clock_new measured of
        None \<Rightarrow> Some metrics_default
      | Some clock \<Rightarrow>
          let spans = map (stage_span clock generates_output) successes;
              window = (if spans = [] then Fin 0 else unwrap_or (stage_window_seconds measured) (Fin 0))
          in compute spans (Fin 0) window)"

subsection \<open>The sweep point\<close>

record stage_tokens =
  sk_observed_reasoning_tokens_total :: "nat option"
  sk_observed_visible_completion_tokens_total :: "nat option"
  sk_completion_tokens_per_second :: "f64 option"
  sk_non_reasoning_completion_tokens_per_second :: "f64 option"
  sk_legacy_success_completion_tokens_per_second :: "f64 option"
  sk_prompt_tokens_total :: "nat option"
  sk_completion_tokens_total :: "nat option"
  sk_input_tokens_per_second :: "f64 option"
  sk_total_tokens_per_second :: "f64 option"
  sk_reasoning_tokens_total :: "nat option"
  sk_visible_completion_tokens_total :: "nat option"

record stage_dists =
  sd_ttft_first_any_s :: dist_summary
  sd_fallback_ttft_s :: dist_summary
  sd_observed_reasoning_tokens :: dist_summary
  sd_observed_visible_completion_tokens :: dist_summary
  sd_latency_s :: dist_summary
  sd_user_tps :: dist_summary
  sd_ttft_visible_answer_s :: dist_summary
  sd_prefill_tps_per_user :: dist_summary
  sd_time_to_second_token_s :: dist_summary
  sd_connect_s :: dist_summary
  sd_prefill_s :: dist_summary
  sd_decode_s :: dist_summary
  sd_decode_tok_s :: dist_summary
  sd_ttft_s :: dist_summary
  sd_first_byte_s :: dist_summary
  sd_queue_delay_s :: dist_summary
  sd_first_reasoning_s :: dist_summary
  sd_dns_s :: dist_summary
  sd_receive_s :: dist_summary
  sd_bytes_sent :: dist_summary
  sd_bytes_received :: dist_summary
  sd_chunks_received :: dist_summary
  sd_isl_tokens :: dist_summary
  sd_osl_tokens :: dist_summary
  sd_reasoning_tokens :: dist_summary
  sd_visible_completion_tokens :: dist_summary

record sweep_point =
  sp_ttft_coverage :: ttft_coverage
  sp_load :: f64
  sp_n :: nat
  sp_errors :: nat
  sp_throughput :: "f64 option"
  sp_p50_s :: "f64 option"
  sp_p95_s :: "f64 option"
  sp_p99_s :: "f64 option"
  sp_p99_unreliable :: bool
  sp_error_rate :: "f64 option"
  sp_validity_rate :: "f64 option"
  sp_goodput :: "f64 option"
  sp_goodput_equals_throughput :: bool
  sp_slo_thresholds_s :: "(ustr, f64) btree option"
  sp_users_at_slo :: "f64 option"
  sp_users_meeting_user_tps :: "nat option"
  sp_answered_requests :: nat
  sp_answered_requests_per_second :: "f64 option"
  sp_cost_per_million_output_tokens :: "f64 option"
  sp_observed_concurrency :: "observed_concurrency option"
  sp_time_weighted :: time_weighted_metrics
  sp_connections_reused :: "nat option"
  sp_connection_reuse_rate :: "f64 option"
  sp_ttft_approx_count :: nat
  sp_ttft_warning :: "ustr option"
  sp_isl_osl :: "isl_osl_validation option"
  sp_modality_metrics :: "(ustr, dist_summary) btree"
  sp_image_digests :: "json option"
  sp_config :: "json option"
  sp_tokens :: stage_tokens
  sp_dists :: stage_dists

definition stage_cover_row :: "ttft_coverage \<Rightarrow> bench_record \<Rightarrow> ttft_coverage" where
  "stage_cover_row c r =
     cover_flags (br_ttft_visible_answer_s r \<noteq> None) (br_first_reasoning_s r \<noteq> None)
       (br_outcome r = Some ''reasoning_truncated'' \<or>
        br_error r = Some (lit ''reasoning truncated before visible output''))
       (br_error r = Some (lit ''no output token'')) (cover_source (br_ttft_source r) c)"

definition stage_fallback_ttft :: "bench_record \<Rightarrow> f64 option" where
  "stage_fallback_ttft r =
     (if \<not> br_success r \<and> br_ttft_source r \<in> {Some FirstByteApprox, Some FirstTokenFallback}
      then br_ttft_s r else None)"

definition stage_good :: "slo_config \<Rightarrow> bench_record \<Rightarrow> bool" where
  "stage_good slos r \<longleftrightarrow>
     br_success r \<and> br_answer_completed r \<noteq> Some False \<and> unwrap_or (br_valid r) True \<and>
     strategic_meets_slos r slos"

definition stage_prefill_rate :: "bench_record \<Rightarrow> f64 option" where
  "stage_prefill_rate r =
     (if ttft_is_first_byte_approx (br_ttft_source r) then None
      else case first_generated_token_s (br_ttft_s r) (br_first_reasoning_s r) of
        Some first \<Rightarrow>
          if 0 < br_input_tokens r \<and> flt (Fin 0) first then Some (fdiv (f_of_nat (br_input_tokens r)) first)
          else None
      | None \<Rightarrow> None)"

definition stage_second_token :: "bench_record \<Rightarrow> f64 option" where
  "stage_second_token r =
     Option.bind
       (option_or (br_ttft_visible_answer_s r)
         (if br_first_reasoning_s r = None \<and> \<not> ttft_is_first_byte_approx (br_ttft_source r)
          then br_ttft_s r else None))
       (\<lambda>visible. map_option (fadd visible) (hd_opt (br_itl_s r)))"

definition stage_visible_tokens :: "bench_record \<Rightarrow> nat option" where
  "stage_visible_tokens r = visible_completion_tokens (br_output_tokens r) (br_reasoning_tokens r)"

definition stage_legacy_rate :: "bench_record list \<Rightarrow> f64 option" where
  "stage_legacy_rate measured =
     (let legacy = filter (\<lambda>r. br_success r \<and> br_outcome r \<noteq> Some ''reasoning_truncated'') measured in
      Option.bind (send_clock_new measured) (\<lambda>clock.
        if legacy = [] \<or> (\<exists>r \<in> set legacy. br_usage_missing r) then None
        else Option.bind (max_total (map (\<lambda>r. fadd (send_s clock r) (fmax (br_service_latency_s r) (Fin 0))) legacy))
          (\<lambda>e. if is_finite e \<and> flt (Fin 0) e
                then Some (fdiv (f_of_nat (sum_u64 (map br_output_tokens legacy))) e) else None)))"

definition stage_tokens_of :: "bench_record list \<Rightarrow> bool \<Rightarrow> f64 \<Rightarrow> bool \<Rightarrow> stage_tokens" where
  "stage_tokens_of measured valid_window elapsed generates_output =
     (let ok = filter br_success measured;
          complete = measured \<noteq> [] \<and> list_all (\<lambda>r. \<not> br_usage_missing r) measured;
          output = sum_u64 (map br_output_tokens measured);
          prompt_total = (if complete then Some (sum_u64 (map br_input_tokens measured)) else None);
          completion_total = (if complete \<and> generates_output then Some output else None)
      in \<lparr>sk_observed_reasoning_tokens_total = token_total (List.map_filter br_reasoning_tokens measured),
          sk_observed_visible_completion_tokens_total = token_total
            (List.map_filter stage_visible_tokens (filter (\<lambda>r. \<not> br_usage_missing r) measured)),
          sk_completion_tokens_per_second = per_window (valid_window \<and> complete \<and> generates_output) elapsed output,
          sk_non_reasoning_completion_tokens_per_second =
            per_window (valid_window \<and> complete \<and> generates_output \<and>
                list_all (\<lambda>r. case br_reasoning_tokens r of Some n \<Rightarrow> n \<le> br_output_tokens r | None \<Rightarrow> False) measured)
              elapsed (sum_u64 (map (\<lambda>r. br_output_tokens r - unwrap_or (br_reasoning_tokens r) 0) measured)),
          sk_legacy_success_completion_tokens_per_second = stage_legacy_rate measured,
          sk_prompt_tokens_total = prompt_total, sk_completion_tokens_total = completion_total,
          sk_input_tokens_per_second = Option.bind prompt_total (per_window valid_window elapsed),
          sk_total_tokens_per_second =
            (case (prompt_total, completion_total) of
               (Some p, Some c) \<Rightarrow> per_window valid_window elapsed (sat64 p c) | _ \<Rightarrow> None),
          sk_reasoning_tokens_total = token_total (List.map_filter br_reasoning_tokens ok),
          sk_visible_completion_tokens_total = token_total (List.map_filter stage_visible_tokens ok)\<rparr>)"

definition dist_counts :: "('r \<Rightarrow> nat option) \<Rightarrow> 'r list \<Rightarrow> dist_summary" where
  "dist_counts pick rows = dist_from_values (counts_f64 (List.map_filter pick rows))"

definition stage_dists_of :: "bench_record list \<Rightarrow> bool \<Rightarrow> stage_dists" where
  "stage_dists_of measured generates_output =
     (let ok = filter br_success measured;
          token_rows = filter (\<lambda>r. 0 < br_input_tokens r \<or> 0 < br_output_tokens r) ok;
          open_loop = (\<exists>r \<in> set measured. br_scheduled_unix_ns r \<noteq> br_sent_unix_ns r)
      in \<lparr>sd_ttft_first_any_s = dist_of first_any_s measured,
          sd_fallback_ttft_s = dist_of stage_fallback_ttft measured,
          sd_observed_reasoning_tokens = dist_counts br_reasoning_tokens measured,
          sd_observed_visible_completion_tokens =
            dist_counts stage_visible_tokens (filter (\<lambda>r. \<not> br_usage_missing r) measured),
          sd_latency_s = dist_from_values (map br_latency_s ok),
          sd_user_tps = dist_of bench_user_tps ok,
          sd_ttft_visible_answer_s = dist_of br_ttft_visible_answer_s measured,
          sd_prefill_tps_per_user = dist_of stage_prefill_rate ok,
          sd_time_to_second_token_s = dist_of stage_second_token ok,
          sd_connect_s = dist_of br_connect_s ok, sd_prefill_s = dist_of br_prefill_s ok,
          sd_decode_s = dist_of br_decode_s ok, sd_decode_tok_s = dist_of br_decode_tok_s ok,
          sd_ttft_s = dist_of br_ttft_s (filter bench_completed_response measured),
          sd_first_byte_s = dist_of br_first_byte_s ok,
          sd_queue_delay_s = dist_from_values (if open_loop then map br_queue_delay_s ok else []),
          sd_first_reasoning_s = dist_of br_first_reasoning_s measured,
          sd_dns_s = dist_of br_dns_s ok, sd_receive_s = dist_of br_receive_s ok,
          sd_bytes_sent = dist_counts br_bytes_sent ok, sd_bytes_received = dist_counts br_bytes_received ok,
          sd_chunks_received = dist_counts br_chunks_received ok,
          sd_isl_tokens = dist_from_values (map (\<lambda>r. f_of_nat (br_input_tokens r)) token_rows),
          sd_osl_tokens = dist_from_values
            (if generates_output then map (\<lambda>r. f_of_nat (br_output_tokens r)) token_rows else []),
          sd_reasoning_tokens = dist_counts br_reasoning_tokens ok,
          sd_visible_completion_tokens = dist_counts stage_visible_tokens ok\<rparr>)"

definition meeting_user_tps :: "slo_config \<Rightarrow> bench_record list \<Rightarrow> nat option" where
  "meeting_user_tps slos ok =
     map_option (\<lambda>low. length (filter (\<lambda>r. some_and (bench_user_tps r) (\<lambda>v. fle low v)) ok)) (slo_user_tps slos)"

definition users_at_slo :: "f64 \<Rightarrow> nat \<Rightarrow> nat \<Rightarrow> f64" where
  "users_at_slo load successes meeting =
     (if successes = 0 then Fin 0 else fmul load (fdiv (f_of_nat meeting) (f_of_nat successes)))"

text \<open>\<open>f64::is_finite\<close> and a positive length make the window valid; otherwise every rate is absent.\<close>

definition summarize_stage_with_options ::
  "f64 \<Rightarrow> bench_record list \<Rightarrow> f64 \<Rightarrow> slo_config \<Rightarrow> json option \<Rightarrow> f64 option \<Rightarrow>
     observed_concurrency option \<Rightarrow> isl_osl_validation option \<Rightarrow> bool \<Rightarrow> sweep_point option" where
  "summarize_stage_with_options load records seconds slos config price observed isl_osl generates_output =
     (let measured = filter (\<lambda>r. \<not> br_warmup r) records;
          ok = filter br_success measured;
          n = length measured; successes = length ok; errs = n - successes;
          valid = length (filter (\<lambda>r. br_success r \<and> unwrap_or (br_valid r) True) measured);
          validity_count = length (filter (\<lambda>r. br_valid r \<noteq> None) measured);
          good = length (filter (stage_good slos) measured);
          valid_window = is_finite seconds \<and> flt (Fin 0) seconds;
          elapsed = (if valid_window then seconds else Fin 1);
          answered = length (filter (\<lambda>r. br_answer_completed r = Some True) measured);
          completed = length (filter bench_completed_response measured);
          flags = List.map_filter br_connection_reused ok;
          thresholds = slo_thresholds slos;
          tokens = stage_tokens_of measured valid_window elapsed generates_output;
          dists = stage_dists_of measured generates_output
      in map_option (\<lambda>tw.
        \<lparr>sp_ttft_coverage = coverage_by stage_cover_row measured, sp_load = load, sp_n = n, sp_errors = errs,
         sp_throughput = per_window valid_window elapsed completed,
         sp_p50_s = ds_p50 (sd_latency_s dists), sp_p95_s = ds_p95 (sd_latency_s dists),
         sp_p99_s = ds_p99 (sd_latency_s dists), sp_p99_unreliable = p99_unreliable (sd_latency_s dists),
         sp_error_rate = (if measured = [] then None else Some (fdiv (f_of_nat errs) (f_of_nat n))),
         sp_validity_rate =
           (if 0 < validity_count then Some (fdiv (f_of_nat valid) (f_of_nat (max successes 1))) else None),
         sp_goodput = per_window valid_window elapsed good,
         sp_goodput_equals_throughput = (thresholds = [] \<and> good = completed),
         sp_slo_thresholds_s = (if thresholds = [] then None else Some thresholds),
         sp_users_at_slo = map_option (users_at_slo load successes) (meeting_user_tps slos ok),
         sp_users_meeting_user_tps = meeting_user_tps slos ok,
         sp_answered_requests = answered,
         sp_answered_requests_per_second = per_window valid_window elapsed answered,
         sp_cost_per_million_output_tokens =
           (case (price, sk_completion_tokens_per_second tokens) of
              (Some p, Some rate) \<Rightarrow> cost_per_million_output_tokens p rate | _ \<Rightarrow> None),
         sp_observed_concurrency = observed, sp_time_weighted = tw,
         sp_connections_reused = reuse_count flags, sp_connection_reuse_rate = reuse_rate flags,
         sp_ttft_approx_count = length (filter (\<lambda>r. br_ttft_source r = Some FirstByteApprox) ok),
         sp_ttft_warning = None, sp_isl_osl = isl_osl, sp_modality_metrics = [],
         sp_image_digests = None, sp_config = config, sp_tokens = tokens, sp_dists = dists\<rparr>)
        (stage_time_weighted measured ok generates_output))"

definition summarize_stage_with_price ::
  "f64 \<Rightarrow> bench_record list \<Rightarrow> f64 \<Rightarrow> slo_config \<Rightarrow> json option \<Rightarrow> f64 option \<Rightarrow> sweep_point option" where
  "summarize_stage_with_price load records seconds slos config price =
     summarize_stage_with_options load records seconds slos config price None None True"

definition summarize_stage ::
  "f64 \<Rightarrow> bench_record list \<Rightarrow> f64 \<Rightarrow> slo_config \<Rightarrow> json option \<Rightarrow> sweep_point option" where
  "summarize_stage load records seconds slos config =
     summarize_stage_with_options load records seconds slos config None None None True"

interpretation stage_coverage: coverage_rows stage_cover_row
  unfolding coverage_rows_def stage_cover_row_def by blast

subsection \<open>The window covers the stage\<close>

lemma max_total_Max: "max_total xs = (if xs = [] then None else Some (Max (set xs)))"
proof (cases xs)
  case (Cons a ys)
  have "(\<lambda>x a. max a x) = (max :: f64 \<Rightarrow> f64 \<Rightarrow> f64)" by (intro ext) (rule max.commute)
  then have "foldl max a ys = fold max ys a" by (simp add: foldl_conv_fold)
  then show ?thesis by (simp only: Cons max_total_def list.case Max.set_eq_fold list.distinct if_False)
qed (simp add: max_total_def)

lemma min_total_Min: "min_total xs = (if xs = [] then None else Some (Min (set xs)))"
proof (cases xs)
  case (Cons a ys)
  have "(\<lambda>x a. min a x) = (min :: f64 \<Rightarrow> f64 \<Rightarrow> f64)" by (intro ext) (rule min.commute)
  then have "foldl min a ys = fold min ys a" by (simp add: foldl_conv_fold)
  then show ?thesis by (simp only: Cons min_total_def list.case Min.set_eq_fold list.distinct if_False)
qed (simp add: min_total_def)

lemma max_total_ge: "max_total xs = Some m \<Longrightarrow> x \<in> set xs \<Longrightarrow> x \<le> m"
  by (auto simp: max_total_Max split: if_splits)

lemma stage_window_Some:
  assumes "filter (\<lambda>r. \<not> br_warmup r) records = measured" "measured \<noteq> []"
  obtains clock m where "send_clock_new measured = Some clock"
    "max_total (map (end_of clock) measured) = Some m"
    "stage_window_seconds records = Some (fmax m (Fin 0))"
  using assms by (auto simp: stage_window_seconds_def send_clock_new_def max_total_Max)

lemma stage_summary_built:
  "\<exists>p. summarize_stage_with_options load records seconds slos config price obs io g = Some p"
  using compute_Some
  by (auto simp: summarize_stage_with_options_def stage_time_weighted_def Let_def split: option.splits)

text \<open>The wall clock of every row replaced; with monotonic offsets on all rows it is never read.\<close>

definition with_wall_clock :: "(bench_record \<Rightarrow> nat) \<Rightarrow> bench_record \<Rightarrow> bench_record" where
  "with_wall_clock wall r = r\<lparr>br_sent_unix_ns := wall r\<rparr>"

lemma with_wall_clock_simps [simp]:
  "br_warmup (with_wall_clock wall r) = br_warmup r"
  "br_send_offset_s (with_wall_clock wall r) = br_send_offset_s r"
  "br_service_latency_s (with_wall_clock wall r) = br_service_latency_s r"
  by (simp_all add: with_wall_clock_def)

lemma collect_some_total: "list_all (\<lambda>x. x \<noteq> None) xs \<Longrightarrow> collect_some xs = Some (map the xs)"
  by (induction xs) auto

definition offsets_known :: "bench_record list \<Rightarrow> bool" where
  "offsets_known rows \<longleftrightarrow> list_all (\<lambda>r. option_filter is_finite (br_send_offset_s r) \<noteq> None) rows"

lemma monotonic_clock:
  assumes "offsets_known measured" "measured \<noteq> []"
  obtains clock o' where "send_clock_new measured = Some clock" "monotonic_origin clock = Some o'"
    "min_total (map (\<lambda>r. the (option_filter is_finite (br_send_offset_s r))) measured) = Some o'"
proof -
  let ?offs = "\<lambda>r. the (option_filter is_finite (br_send_offset_s r))"
  have "collect_some (map (\<lambda>r. option_filter is_finite (br_send_offset_s r)) measured) =
      Some (map ?offs measured)"
    using assms(1) by (subst collect_some_total) (auto simp: offsets_known_def list_all_iff)
  moreover obtain o' where "min_total (map ?offs measured) = Some o'"
    using assms(2) by (auto simp: min_total_Min)
  ultimately show ?thesis using that assms(2) by (simp add: send_clock_new_def)
qed

text \<open>The end of a request in seconds from \<open>o'\<close>, by offsets alone.\<close>

definition end_since :: "f64 \<Rightarrow> bench_record \<Rightarrow> f64" where
  "end_since o' r =
     fadd (fmax (fsub (the (br_send_offset_s r)) o') (Fin 0))
       (if is_finite (br_service_latency_s r) then fmax (br_service_latency_s r) (Fin 0) else Fin 0)"

lemma end_since_wall [simp]: "end_since o' (with_wall_clock wall r) = end_since o' r"
  by (simp add: end_since_def)

lemma end_of_monotonic:
  "monotonic_origin clock = Some o' \<Longrightarrow> br_send_offset_s r \<noteq> None \<Longrightarrow> end_of clock r = end_since o' r"
  by (auto simp: end_of_def end_since_def send_s_def Let_def)

lemma end_since_nonneg: "nonneg (end_since o' r)"
  unfolding end_since_def by (intro nonneg_fadd nonneg_fmax_0) (simp add: nonneg_fmax_0)

lemma nonneg_fmax_id: "nonneg x \<Longrightarrow> fmax x (Fin 0) = x"
  by (auto simp: nonneg_def fmax_def max_def)

lemma monotonic_window:
  assumes known: "offsets_known (filter (\<lambda>r. \<not> br_warmup r) records)"
    and "filter (\<lambda>r. \<not> br_warmup r) records = measured" "measured \<noteq> []"
    and origin: "min_total (map (\<lambda>r. the (option_filter is_finite (br_send_offset_s r))) measured) = Some o'"
  shows "stage_window_seconds records = Some (Max (set (map (end_since o') measured)))"
proof -
  from known have known: "offsets_known measured" by (simp add: assms(2))
  from assms(2,3) obtain clock m where c: "send_clock_new measured = Some clock"
    and m: "max_total (map (end_of clock) measured) = Some m"
    and w: "stage_window_seconds records = Some (fmax m (Fin 0))" by (rule stage_window_Some)
  have "monotonic_origin clock = Some o'"
    using monotonic_clock [OF known assms(3)] c origin by auto
  then have e: "map (end_of clock) measured = map (end_since o') measured"
    using known by (fastforce simp: offsets_known_def list_all_iff option_filter_Some_iff intro!: end_of_monotonic)
  have "m \<in> set (map (end_since o') measured)" and mx: "m = Max (set (map (end_since o') measured))"
    using m assms(3) unfolding e by (auto simp: max_total_Max simp del: set_map intro!: Max_in)
  then have "nonneg m" using end_since_nonneg by auto
  with w mx show ?thesis by (simp add: nonneg_fmax_id)
qed

text \<open>
C24: When every measured row of a stage has a monotonic send offset, the stage window ends at the
latest completion of any measured row, successes and failures alike, and is that completion
itself; warmup rows and the wall clock do not matter, so a stepped clock cannot stretch a rate.
\<close>

theorem stage_window_monotonic:
  assumes "filter (\<lambda>r. \<not> br_warmup r) records = measured" "measured \<noteq> []" "offsets_known measured"
  shows "\<exists>w o'. stage_window_seconds records = Some w \<and>
    stage_window_seconds (map (with_wall_clock wall) records) = Some w \<and>
    o' \<in> set (map (\<lambda>r. the (br_send_offset_s r)) measured) \<and>
    list_all (\<lambda>r. fle o' (the (br_send_offset_s r)) \<and> fle (end_since o' r) w) measured \<and>
    list_ex (\<lambda>r. end_since o' r = w) measured"
proof -
  let ?offs = "\<lambda>r. the (option_filter is_finite (br_send_offset_s r))"
  obtain o' where o': "min_total (map ?offs measured) = Some o'"
    using assms(2) by (auto simp: min_total_Min)
  let ?w = "Max (set (map (end_since o') measured))"
  have k: "offsets_known (filter (\<lambda>r. \<not> br_warmup r) records)" using assms by simp
  have w: "stage_window_seconds records = Some ?w"
    using k assms(1,2) o' by (rule monotonic_window)
  let ?ms = "map (with_wall_clock wall) measured"
  have f: "filter (\<lambda>r. \<not> br_warmup r) (map (with_wall_clock wall) records) = ?ms"
    using assms(1) by (auto simp: filter_map comp_def)
  have "stage_window_seconds (map (with_wall_clock wall) records) = Some (Max (set (map (end_since o') ?ms)))"
    by (rule monotonic_window) (use f assms o' in \<open>simp_all add: offsets_known_def comp_def\<close>)
  then have w2: "stage_window_seconds (map (with_wall_clock wall) records) = Some ?w"
    by (simp add: comp_def)
  have off: "?offs r = the (br_send_offset_s r)" "the (br_send_offset_s r) \<noteq> NaN" if "r \<in> set measured" for r
    using assms(3) that by (fastforce simp: offsets_known_def list_all_iff option_filter_Some_iff)+
  then have oset: "map ?offs measured = map (\<lambda>r. the (br_send_offset_s r)) measured" by simp
  have o_in: "o' \<in> set (map ?offs measured)" and o_le: "x \<in> set (map ?offs measured) \<Longrightarrow> o' \<le> x" for x
    using o' by (auto simp: min_total_Min simp del: set_map split: if_splits intro: Min_in)
  have nn: "end_since o' r \<noteq> NaN" for r using end_since_nonneg by (auto simp: nonneg_def)
  have w_in: "?w \<in> set (map (end_since o') measured)" using assms(2) by (intro Max_in) auto
  have ge: "end_since o' r \<le> ?w" if "r \<in> set measured" for r using that by (intro Max_ge) auto
  from w_in obtain r where "?w = end_since o' r" by auto
  then have nw: "?w \<noteq> NaN" using nn [of r] by simp
  have "list_all (\<lambda>r. fle o' (the (br_send_offset_s r)) \<and> fle (end_since o' r) ?w) measured"
    using o_le o_in off(2) nn nw ge unfolding oset list_all_iff fle_def by auto
  moreover have "list_ex (\<lambda>r. end_since o' r = ?w) measured" using w_in by (force simp: list_ex_iff)
  ultimately show ?thesis using w w2 o_in unfolding oset by blast
qed

subsection \<open>Rates of a stage\<close>

lemma length_filter_imp: "(\<And>x. P x \<Longrightarrow> Q x) \<Longrightarrow> length (filter P xs) \<le> length (filter Q xs)"
  by (induction xs) auto

lemma rate_mono:
  assumes "m \<le> n" "n < 2 ^ 64" "is_finite w" "flt (Fin 0) w"
  shows "fle (fdiv (f_of_nat m) w) (fdiv (f_of_nat n) w)"
proof -
  from assms obtain a b c where "f_of_nat m = Fin a" "f_of_nat n = Fin b" "w = Fin c"
    by (meson f_of_nat_finite is_finiteE le_less_trans)
  then show ?thesis using f_of_nat_mono [OF assms(1)] assms(4) rnd_mono [of "a / c" "b / c"]
    by (simp add: fdiv_def fle_def divide_right_mono)
qed

lemma users_at_slo_le:
  assumes "meeting \<le> successes" "successes < 2 ^ 64" "limit_ok (Some load)"
  shows "fle (users_at_slo load successes meeting) load"
proof (cases "successes = 0")
  case False
  then obtain f where f: "fdiv (f_of_nat meeting) (f_of_nat successes) = Fin f" "0 \<le> f" "f \<le> 1"
    using fraction_unit [of meeting successes] assms by auto
  from assms(3) obtain l where l: "load = Fin l" "rnd l = Fin l" "0 \<le> l" by (auto elim: is_finiteE)
  have "rnd (l * f) \<le> Fin l" using rnd_mono [of "l * f" l] l f by (simp add: mult_left_le)
  then show ?thesis using False f l by (simp add: users_at_slo_def fmul_def fle_def)
qed (use assms in \<open>auto simp: users_at_slo_def elim: is_finiteE\<close>)

lemma stage_fields:
  assumes "summarize_stage_with_options load records seconds slos config price obs io g = Some p"
    and "measured = filter (\<lambda>r. \<not> br_warmup r) records"
  shows "sp_n p = length measured" "sp_errors p = length measured - length (filter br_success measured)"
    "sp_ttft_coverage p = coverage_by stage_cover_row measured"
    "sp_throughput p = per_window (is_finite seconds \<and> flt (Fin 0) seconds)
       (if is_finite seconds \<and> flt (Fin 0) seconds then seconds else Fin 1)
       (length (filter bench_completed_response measured))"
    "sp_goodput p = per_window (is_finite seconds \<and> flt (Fin 0) seconds)
       (if is_finite seconds \<and> flt (Fin 0) seconds then seconds else Fin 1)
       (length (filter (stage_good slos) measured))"
    "sp_error_rate p =
       (if measured = [] then None else Some (fdiv (f_of_nat (sp_errors p)) (f_of_nat (sp_n p))))"
    "sp_users_at_slo p = map_option (users_at_slo load (length (filter br_success measured)))
       (meeting_user_tps slos (filter br_success measured))"
  using assms by (auto simp: summarize_stage_with_options_def Let_def)

lemma measured_idem:
  "filter (\<lambda>r. \<not> br_warmup r) (filter (\<lambda>r. \<not> br_warmup r) records) = filter (\<lambda>r. \<not> br_warmup r) records"
  by (induction records) simp_all

lemma stage_ignores_warmup:
  "summarize_stage_with_options load (filter (\<lambda>r. \<not> br_warmup r) records) seconds slos config price obs io g =
     summarize_stage_with_options load records seconds slos config price obs io g"
  unfolding summarize_stage_with_options_def measured_idem ..

text \<open>
C25: Every stage of fewer than 2^64 rows under a load that is a number, not negative and exactly
a binary64 can be summarized, and its figures are consistent: the errors are exactly the measured
rows that failed, errors and successes and likewise the coverage classes partition the measured
rows, the error rate is a fraction that is absent only on an empty stage, goodput is present
exactly when throughput is and never exceeds it, and the users credited with meeting a per-user
rate never exceed the load. Warmup rows count nowhere: the whole summary is the one of the
measured rows alone.
\<close>

theorem stage_summary_sound:
  assumes "length records < 2 ^ 64" "is_finite load" "is_f64 load" "fle (Fin 0) load"
  shows "\<exists>p. summarize_stage_with_options load records seconds slos config price obs io g = Some p \<and>
    summarize_stage_with_options load (filter (\<lambda>r. \<not> br_warmup r) records) seconds slos config price obs io g = Some p \<and>
    sp_n p = length (filter (\<lambda>r. \<not> br_warmup r) records) \<and>
    sp_errors p = length (filter (\<lambda>r. \<not> br_warmup r \<and> \<not> br_success r) records) \<and>
    sp_errors p + length (filter (\<lambda>r. \<not> br_warmup r \<and> br_success r) records) = sp_n p \<and>
    cov_sources (sp_ttft_coverage p) = sp_n p \<and>
    cov_visible (sp_ttft_coverage p) + cov_missing_visible (sp_ttft_coverage p) = sp_n p \<and>
    (case sp_error_rate p of None \<Rightarrow> sp_n p = 0 | Some e \<Rightarrow> fle (Fin 0) e \<and> fle e (Fin 1)) \<and>
    (case (sp_goodput p, sp_throughput p) of
       (Some good, Some all) \<Rightarrow> fle good all | (None, None) \<Rightarrow> True | _ \<Rightarrow> False) \<and>
    (case sp_users_at_slo p of None \<Rightarrow> slo_user_tps slos = None | Some u \<Rightarrow> fle u load)"
proof -
  let ?m = "filter (\<lambda>r. \<not> br_warmup r) records"
  have len: "length ?m < 2 ^ 64" using assms(1) length_filter_le [of _ records] by (rule le_less_trans [rotated])
  then have lim: "length (filter P ?m) < 2 ^ 64" for P using length_filter_le [of P ?m] by (rule le_less_trans [rotated])
  have load: "limit_ok (Some load)" using assms(2-4) by (cases load) (auto simp: fle_def)
  obtain p where p: "summarize_stage_with_options load records seconds slos config price obs io g = Some p"
    using stage_summary_built by blast
  note f = stage_fields [OF p refl]
  have "case sp_error_rate p of None \<Rightarrow> sp_n p = 0 | Some e \<Rightarrow> fle (Fin 0) e \<and> fle e (Fin 1)"
  proof (cases "?m = []")
    case False
    then obtain e where "fdiv (f_of_nat (sp_errors p)) (f_of_nat (sp_n p)) = Fin e" "0 \<le> e" "e \<le> 1"
      using fraction_unit [of "sp_errors p" "sp_n p"] len by (auto simp: f(1,2))
    then show ?thesis using False by (simp add: f(6))
  qed (simp add: f)
  moreover have "case (sp_goodput p, sp_throughput p) of
       (Some good, Some all) \<Rightarrow> fle good all | (None, None) \<Rightarrow> True | _ \<Rightarrow> False"
    using rate_mono [OF length_filter_imp [of "stage_good slos" bench_completed_response ?m] lim]
    by (auto simp: f(4,5) per_window_def stage_good_def bench_completed_response_def)
  moreover have "case sp_users_at_slo p of None \<Rightarrow> slo_user_tps slos = None | Some u \<Rightarrow> fle u load"
    using users_at_slo_le [OF length_filter_le lim load]
    by (simp add: f(7) meeting_user_tps_def del: filter_filter split: option.splits)
  moreover have "cov_sources (sp_ttft_coverage p) = sp_n p"
    "cov_visible (sp_ttft_coverage p) + cov_missing_visible (sp_ttft_coverage p) = sp_n p"
    unfolding f(1,3) by (rule stage_coverage.coverage_counts)+
  moreover have "sp_errors p = length (filter (\<lambda>r. \<not> br_warmup r \<and> \<not> br_success r) records)"
    "sp_errors p + length (filter (\<lambda>r. \<not> br_warmup r \<and> br_success r) records) = sp_n p"
    using sum_length_filter_compl [of br_success ?m] by (auto simp: f(1,2) conj_ac)
  ultimately show ?thesis using p f(1) by (intro exI [of _ p]) (simp add: stage_ignores_warmup)
qed

definition demo_bench :: "rat \<Rightarrow> bool \<Rightarrow> bench_record" where
  "demo_bench t ok =
     \<lparr>br_seq = 0, br_stage = Fin 2, br_endpoint = lit ''e'', br_scheduled_unix_ns = 5, br_sent_unix_ns = 5,
      br_latency_s = Fin 2, br_queue_delay_s = Fin 0, br_service_latency_s = Fin 2, br_first_byte_s = None,
      br_connect_s = None, br_ttft_s = None, br_ttft_source = None, br_prefill_s = None,
      br_decode_s = None, br_decode_tok_s = None, br_itl_s = [], br_in_flight_at_send = None,
      br_success = ok, br_valid = None, br_input_tokens = 3, br_output_tokens = 4, br_session_id = None,
      br_turn = None, br_error = None, br_warmup = False, br_first_reasoning_s = None,
      br_reasoning_tokens = None, br_connection_reused = None, br_dns_s = None, br_bytes_sent = None,
      br_receive_s = None, br_bytes_received = None, br_chunks_received = None,
      br_send_offset_s = Some (Fin t), br_ttft_visible_answer_s = None, br_outcome = None,
      br_answer_completed = None, br_usage_missing = False, br_usage_prompt_tokens_present = None,
      br_usage_completion_tokens_present = None\<rparr>"

theorem stage_summary_sound_witness:
  "\<exists>p. summarize_stage_with_options (Fin 2) [demo_bench 0 True, demo_bench 1 False] (Fin 3) slo_default
      None None None None True = Some p \<and> sp_n p = 2 \<and> cov_sources (sp_ttft_coverage p) = 2"
  using stage_summary_sound [of "[demo_bench 0 True, demo_bench 1 False]" "Fin 2" "Fin 3" slo_default
      None None None None True] rnd_of_int [of 2]
  by (auto simp: demo_bench_def)

theorem stage_window_monotonic_witness:
  "\<exists>w. stage_window_seconds [demo_bench 0 True, demo_bench 1 False] = Some w \<and>
     stage_window_seconds (map (with_wall_clock br_seq) [demo_bench 0 True, demo_bench 1 False]) = Some w"
proof -
  have "offsets_known [demo_bench 0 True, demo_bench 1 False]" by (simp add: offsets_known_def demo_bench_def)
  moreover have "filter (\<lambda>r. \<not> br_warmup r) [demo_bench 0 True, demo_bench 1 False] =
      [demo_bench 0 True, demo_bench 1 False]" by (simp add: demo_bench_def)
  ultimately show ?thesis
    using stage_window_monotonic [of "[demo_bench 0 True, demo_bench 1 False]" "[demo_bench 0 True, demo_bench 1 False]" br_seq]
    by blast
qed

end
