(* ===== verification/Knee.thy ===== *)
theory Knee
  imports Strategic
begin

text \<open>
  Detection of the knee of a sweep (\<open>src/strategic.rs\<close>): the saturation checks between
  neighbouring stages, Kneedle over the measured throughput and p95 curve, and their combination.
  A curve entry is the stage's index, its throughput and its p95.
\<close>

definition KNEE_MIN_POINTS :: nat where "KNEE_MIN_POINTS = 5"
definition KNEE_MIN_P95_RISE :: f64 where "KNEE_MIN_P95_RISE = rnd (1 / 5)"
definition KNEE_MIN_MARGINAL_GAIN :: f64 where "KNEE_MIN_MARGINAL_GAIN = Fin (1 / 2)"
definition KNEE_MAX_ERROR_RATE_RISE :: f64 where "KNEE_MAX_ERROR_RATE_RISE = rnd (1 / 20)"

datatype load_axis = ConcurrencyAxis | RateAxis

datatype knee_reason = InsufficientPoints | MissingLatency | FlatCurve | NoBend

datatype knee_method = Kneedle | Saturation

record knee_detection =
  kd_index :: "nat option"
  kd_reason :: "knee_reason option"
  kd_points :: nat
  kd_min_points :: nat
  kd_method :: "knee_method option"
  kd_p95_rise :: "f64 option"
  kd_saturated_index :: "nat option"
  kd_min_p95_rise :: f64
  kd_min_marginal_gain :: "f64 option"
  kd_max_error_rate_rise :: f64

definition detection_new :: "load_axis \<Rightarrow> nat \<Rightarrow> knee_detection" where
  "detection_new axis points =
     \<lparr>kd_index = None, kd_reason = None, kd_points = points, kd_min_points = KNEE_MIN_POINTS,
      kd_method = None, kd_p95_rise = None, kd_saturated_index = None,
      kd_min_p95_rise = KNEE_MIN_P95_RISE,
      kd_min_marginal_gain = (if axis = ConcurrencyAxis then Some KNEE_MIN_MARGINAL_GAIN else None),
      kd_max_error_rate_rise = KNEE_MAX_ERROR_RATE_RISE\<rparr>"

definition detection_none :: "knee_reason \<Rightarrow> knee_detection \<Rightarrow> knee_detection" where
  "detection_none reason d = d\<lparr>kd_index := None, kd_method := None, kd_reason := Some reason\<rparr>"

definition detection_knee :: "nat \<Rightarrow> knee_method \<Rightarrow> knee_detection \<Rightarrow> knee_detection" where
  "detection_knee i m d = d\<lparr>kd_index := Some i, kd_method := Some m, kd_reason := None\<rparr>"

subsection \<open>Saturated stages\<close>

definition one_wave :: "sweep_point \<Rightarrow> sweep_point \<Rightarrow> bool" where
  "one_wave prev point \<longleftrightarrow>
     fle (f_of_nat (sp_n prev)) (sp_load prev) \<and> fle (f_of_nat (sp_n point)) (sp_load point)"

definition marginal_saturated :: "load_axis \<Rightarrow> sweep_point \<Rightarrow> sweep_point \<Rightarrow> bool" where
  "marginal_saturated axis prev point \<longleftrightarrow>
     axis = ConcurrencyAxis \<and> \<not> one_wave prev point \<and> flt (Fin 0) (sp_load prev) \<and>
     flt (sp_load prev) (sp_load point) \<and>
     (case (sp_throughput prev, sp_throughput point) of
        (Some prev_rate, Some rate) \<Rightarrow>
          flt (Fin 0) prev_rate \<and>
          flt (fdiv (fsub rate prev_rate) prev_rate)
            (fmul KNEE_MIN_MARGINAL_GAIN (fdiv (fsub (sp_load point) (sp_load prev)) (sp_load prev)))
      | _ \<Rightarrow> False)"

definition error_saturated :: "f64 option \<Rightarrow> f64 \<Rightarrow> bool" where
  "error_saturated low rate \<longleftrightarrow>
     (case low of Some f \<Rightarrow> fle KNEE_MAX_ERROR_RATE_RISE (fsub rate f) | None \<Rightarrow> False)"

fun saturated_from ::
  "load_axis \<Rightarrow> f64 option \<Rightarrow> nat \<Rightarrow> sweep_point \<Rightarrow> sweep_point list \<Rightarrow> nat option" where
  "saturated_from axis low i prev [] = None"
| "saturated_from axis low i prev (point # rest) =
     (if marginal_saturated axis prev point then Some i
      else case sp_error_rate point of
        None \<Rightarrow> saturated_from axis low (i + 1) point rest
      | Some rate \<Rightarrow>
          if error_saturated low rate then Some i
          else saturated_from axis (Some (case low of None \<Rightarrow> rate | Some f \<Rightarrow> fmin f rate)) (i + 1) point rest)"

definition first_saturated_stage :: "sweep_point list \<Rightarrow> load_axis \<Rightarrow> nat option" where
  "first_saturated_stage points axis =
     (case points of [] \<Rightarrow> None | p # ps \<Rightarrow> saturated_from axis (sp_error_rate p) 1 p ps)"

subsection \<open>The bend of the curve\<close>

type_synonym curve = "(nat \<times> f64 \<times> f64) list"

definition thr :: "nat \<times> f64 \<times> f64 \<Rightarrow> f64" where "thr p = fst (snd p)"
definition p95 :: "nat \<times> f64 \<times> f64 \<Rightarrow> f64" where "p95 p = snd (snd p)"

definition measured_curve :: "sweep_point list \<Rightarrow> curve" where
  "measured_curve points =
     List.map_filter (\<lambda>(i, p). case (sp_throughput p, sp_p95_s p) of
         (Some x, Some y) \<Rightarrow> Some (i, x, y) | _ \<Rightarrow> None) (enumerate 0 points)"

definition data_range :: "f64 list \<Rightarrow> f64 \<times> f64" where
  "data_range xs = (foldl fmin PInf xs, foldl fmax NInf xs)"

definition flat_values :: "f64 list \<Rightarrow> bool" where
  "flat_values xs \<longleftrightarrow> fle (fsub (snd (data_range xs)) (fst (data_range xs))) EPSILON"

text \<open>\<open>max_by\<close> keeps the last of equal maxima.\<close>

definition last_max :: "(nat \<times> f64) list \<Rightarrow> (nat \<times> f64) option" where
  "last_max xs =
     (case xs of [] \<Rightarrow> None | x # ys \<Rightarrow> Some (foldl (\<lambda>b y. if snd b \<le> snd y then y else b) x ys))"

definition chord_distance :: "f64 \<times> f64 \<Rightarrow> f64 \<times> f64 \<Rightarrow> nat \<times> f64 \<times> f64 \<Rightarrow> nat \<times> f64" where
  "chord_distance xr yr p =
     (let x = fdiv (fsub (thr p) (fst xr)) (fsub (snd xr) (fst xr));
          y = fdiv (fsub (p95 p) (fst yr)) (fsub (snd yr) (fst yr))
      in (fst p, fabs (fsub y x)))"

definition kneedle :: "curve \<Rightarrow> nat option" where
  "kneedle c =
     (if length c < 3 \<or> flat_values (map thr c) \<or> flat_values (map p95 c) then None
      else map_option fst
        (last_max (map (chord_distance (data_range (map thr c)) (data_range (map p95 c))) (butlast (tl c)))))"

definition rise_of :: "curve \<Rightarrow> nat \<Rightarrow> nat \<Rightarrow> f64" where
  "rise_of c low pos = fsub (fdiv (p95 (c ! pos)) (p95 (c ! low))) (Fin 1)"

definition rise_low :: "curve \<Rightarrow> nat option \<Rightarrow> nat \<Rightarrow> nat option" where
  "rise_low c low pos =
     (if flt (Fin 0) (p95 (c ! pos)) \<and>
         (case low of None \<Rightarrow> True | Some l \<Rightarrow> flt (p95 (c ! pos)) (p95 (c ! l)))
      then Some pos else low)"

definition rise_step ::
  "curve \<Rightarrow> (nat \<times> nat \<times> f64) option \<times> nat option \<Rightarrow> nat \<Rightarrow> (nat \<times> nat \<times> f64) option \<times> nat option" where
  "rise_step c s pos =
     (case rise_low c (snd s) pos of
        None \<Rightarrow> (fst s, None)
      | Some l \<Rightarrow>
          (if (case fst s of None \<Rightarrow> True | Some (_, _, r) \<Rightarrow> flt r (rise_of c l pos))
           then Some (l, pos, rise_of c l pos) else fst s, Some l))"

definition largest_p95_rise :: "curve \<Rightarrow> (nat \<times> nat \<times> f64) option" where
  "largest_p95_rise c = fst (foldl (rise_step c) (None, None) [0..<length c])"

text \<open>The Kneedle knee, and whether p95 bends over flat throughput.\<close>

definition bend_knee :: "curve \<Rightarrow> nat option \<times> bool" where
  "bend_knee c =
     (case largest_p95_rise c of
        None \<Rightarrow> (None, False)
      | Some (base, peak, _) \<Rightarrow>
          if fle (fmul (p95 (c ! base)) (fadd (Fin 1) KNEE_MIN_P95_RISE)) (p95 (c ! peak)) then
            (case kneedle (drop base (take (peak + 1) c)) of
               Some i \<Rightarrow> (Some i, False)
             | None \<Rightarrow> if peak = base + 1 then (Some (fst (c ! base)), False) else (None, True))
          else (None, False))"

definition endpoints_measured :: "sweep_point list \<Rightarrow> bool" where
  "endpoints_measured points \<longleftrightarrow>
     (case (hd_opt points, last_opt points) of
        (Some a, Some b) \<Rightarrow> sp_p95_s a \<noteq> None \<and> sp_p95_s b \<noteq> None | _ \<Rightarrow> False)"

definition detect_knee_on_axis :: "sweep_point list \<Rightarrow> load_axis \<Rightarrow> knee_detection" where
  "detect_knee_on_axis points axis =
     (let c = measured_curve points; d0 = detection_new axis (length c) in
      if length c < KNEE_MIN_POINTS then detection_none InsufficientPoints d0
      else
        let saturated = first_saturated_stage points axis;
            d = d0\<lparr>kd_saturated_index := saturated,
                   kd_p95_rise := map_option (\<lambda>(_, _, rise). rise) (largest_p95_rise c)\<rparr>
        in case (fst (bend_knee c), map_option (\<lambda>i. i - 1) saturated) of
             (Some k, Some s) \<Rightarrow> if s < k then detection_knee s Saturation d else detection_knee k Kneedle d
           | (Some k, None) \<Rightarrow> detection_knee k Kneedle d
           | (None, Some s) \<Rightarrow> detection_knee s Saturation d
           | (None, None) \<Rightarrow>
               if \<not> endpoints_measured points then detection_none MissingLatency d
               else if snd (bend_knee c) \<or> flat_values (map thr c) \<or> flat_values (map p95 c)
               then detection_none FlatCurve d
               else detection_none NoBend d)"

definition detect_knee_with_reason :: "sweep_point list \<Rightarrow> knee_detection" where
  "detect_knee_with_reason points = detect_knee_on_axis points ConcurrencyAxis"

definition detect_knee :: "sweep_point list \<Rightarrow> nat option" where
  "detect_knee points = kd_index (detect_knee_with_reason points)"

subsection \<open>Where a knee can be\<close>

lemma saturated_from_bounds:
  "saturated_from axis low i prev rest = Some s \<Longrightarrow> i \<le> s \<and> s < i + length rest"
  by (induction rest arbitrary: low i prev) (fastforce split: if_splits option.splits)+

lemma first_saturated_bounds: "first_saturated_stage points axis = Some s \<Longrightarrow> 0 < s \<and> s < length points"
  by (fastforce simp: first_saturated_stage_def dest: saturated_from_bounds split: list.splits)

lemma curve_entries:
  "(i, x, y) \<in> set (measured_curve points) \<Longrightarrow>
     i < length points \<and> sp_throughput (points ! i) = Some x \<and> sp_p95_s (points ! i) = Some y"
  by (auto simp: measured_curve_def List.map_filter_def enumerate_eq_zip in_set_zip split: option.splits)

lemma last_max_in: "last_max xs = Some x \<Longrightarrow> x \<in> set xs"
proof -
  have "foldl (\<lambda>b y. if snd b \<le> snd y then y else b) a ys \<in> set (a # ys)" for a and ys :: "(nat \<times> f64) list"
    by (induction ys rule: rev_induct) auto
  then show "last_max xs = Some x \<Longrightarrow> x \<in> set xs" by (auto simp: last_max_def split: list.splits)
qed

lemma kneedle_in: "kneedle c = Some i \<Longrightarrow> i \<in> fst ` set c"
  by (auto simp: kneedle_def chord_distance_def Let_def split: if_splits
      dest!: last_max_in in_set_butlastD list.set_sel(2) [rotated])

lemma rise_low_cases: "rise_low c l pos = Some k \<Longrightarrow> k = pos \<or> l = Some k"
  by (auto simp: rise_low_def split: if_splits)

text \<open>Both positions of the rise are positions of the curve.\<close>

lemma rise_fold_bounds:
  assumes "foldl (rise_step c) (None, None) [0..<n] = (best, low)"
  shows "(case best of None \<Rightarrow> True | Some (b, k, _) \<Rightarrow> b \<le> k \<and> k < n) \<and>
     (case low of None \<Rightarrow> True | Some l \<Rightarrow> l < n)"
  using assms
proof (induction n arbitrary: best low)
  case (Suc n)
  obtain b l where st: "foldl (rise_step c) (None, None) [0..<n] = (b, l)" by fastforce
  from Suc.prems st have step: "rise_step c (b, l) n = (best, low)" by simp
  show ?case
  proof (cases "rise_low c l n")
    case None
    with step Suc.IH [OF st] show ?thesis by (auto simp: rise_step_def split: option.splits)
  next
    case (Some m)
    with Suc.IH [OF st] have "m \<le> n" by (auto dest: rise_low_cases)
    with Some step Suc.IH [OF st] show ?thesis by (auto simp: rise_step_def split: option.splits if_splits)
  qed
qed simp

lemma largest_p95_rise_bounds: "largest_p95_rise c = Some (b, k, r) \<Longrightarrow> b \<le> k \<and> k < length c"
  using rise_fold_bounds [of c "length c"]
  by (cases "foldl (rise_step c) (None, None) [0..<length c]") (auto simp: largest_p95_rise_def)

lemma bend_knee_in: "fst (bend_knee c) = Some i \<Longrightarrow> i \<in> fst ` set c"
proof -
  assume b: "fst (bend_knee c) = Some i"
  then obtain lo hi r where l: "largest_p95_rise c = Some (lo, hi, r)"
    by (auto simp: bend_knee_def split: option.splits)
  with largest_p95_rise_bounds [OF l] have "lo < length c" by simp
  with b l show ?thesis
    by (fastforce simp: bend_knee_def dest!: kneedle_in in_set_dropD in_set_takeD split: option.splits if_splits)
qed

lemma bend_knee_rise:
  assumes "fst (bend_knee c) = Some i"
  obtains b k where "b \<le> k" "k < length c"
    "fle (fmul (p95 (c ! b)) (fadd (Fin 1) KNEE_MIN_P95_RISE)) (p95 (c ! k))"
proof -
  from assms obtain b k r where l: "largest_p95_rise c = Some (b, k, r)"
    by (auto simp: bend_knee_def split: option.splits)
  with assms have "fle (fmul (p95 (c ! b)) (fadd (Fin 1) KNEE_MIN_P95_RISE)) (p95 (c ! k))"
    by (simp add: bend_knee_def split: if_splits)
  with largest_p95_rise_bounds [OF l] that show ?thesis by blast
qed

lemmas detection_defs = detection_new_def detection_none_def detection_knee_def

lemma detect_few:
  "length (measured_curve points) < KNEE_MIN_POINTS \<Longrightarrow>
     detect_knee_on_axis points axis =
       detection_none InsufficientPoints (detection_new axis (length (measured_curve points)))"
  by (simp add: detect_knee_on_axis_def Let_def)

text \<open>The three outcomes of a sweep with enough measured stages.\<close>

lemma detect_cases:
  assumes "\<not> length (measured_curve points) < KNEE_MIN_POINTS"
  obtains k d where "detect_knee_on_axis points axis = detection_knee k Kneedle d"
      "kd_saturated_index d = first_saturated_stage points axis"
      "fst (bend_knee (measured_curve points)) = Some k"
      "case first_saturated_stage points axis of None \<Rightarrow> True | Some s \<Rightarrow> k \<le> s - 1"
  | s d where "detect_knee_on_axis points axis = detection_knee (s - 1) Saturation d"
      "kd_saturated_index d = Some s" "first_saturated_stage points axis = Some s"
  | reason d where "detect_knee_on_axis points axis = detection_none reason d"
      "kd_saturated_index d = None"
proof -
  obtain d where d: "detect_knee_on_axis points axis =
      (case (fst (bend_knee (measured_curve points)), map_option (\<lambda>i. i - 1) (first_saturated_stage points axis)) of
         (Some k, Some s) \<Rightarrow> if s < k then detection_knee s Saturation d else detection_knee k Kneedle d
       | (Some k, None) \<Rightarrow> detection_knee k Kneedle d
       | (None, Some s) \<Rightarrow> detection_knee s Saturation d
       | (None, None) \<Rightarrow>
           if \<not> endpoints_measured points then detection_none MissingLatency d
           else if snd (bend_knee (measured_curve points)) \<or> flat_values (map thr (measured_curve points)) \<or>
               flat_values (map p95 (measured_curve points))
           then detection_none FlatCurve d else detection_none NoBend d)"
    and sat: "kd_saturated_index d = first_saturated_stage points axis"
    using assms by (simp add: detect_knee_on_axis_def Let_def)
  show ?thesis
  proof (cases "fst (bend_knee (measured_curve points))"; cases "first_saturated_stage points axis")
    fix k s assume "fst (bend_knee (measured_curve points)) = Some k" "first_saturated_stage points axis = Some s"
    with d sat that(1) [of k d] that(2) [of s d] show ?thesis
      by (cases "s - 1 < k") (simp_all add: not_less)
  qed (use d sat that in \<open>simp_all split: if_splits\<close>)
qed

text \<open>
A knee report is well formed: index and method are set together, and the reason exactly when
the index is not, as the field comments say. The index is a stage of the sweep and comes before
the first saturated stage, which is never the first stage of the sweep. A Kneedle knee is a stage
with a measured throughput and p95, on a curve where p95 rises by 20 percent between two stages,
and fewer than five measured stages never give a knee.
\<close>

lemma knee_report_well_formed:
  fixes points axis
  defines "d \<equiv> detect_knee_on_axis points axis" and "c \<equiv> measured_curve points"
  shows "(kd_reason d = None \<longleftrightarrow> kd_index d \<noteq> None) \<and> (kd_method d = None \<longleftrightarrow> kd_index d = None) \<and>
     (case kd_saturated_index d of None \<Rightarrow> kd_method d \<noteq> Some Saturation
      | Some s \<Rightarrow> 0 < s \<and> s < length points \<and> (case kd_index d of None \<Rightarrow> False | Some k \<Rightarrow> k < s)) \<and>
     (case kd_index d of None \<Rightarrow> True
      | Some k \<Rightarrow> k < length points \<and> 5 \<le> length c \<and>
          (kd_method d = Some Saturation \<or>
           sp_throughput (points ! k) \<noteq> None \<and> sp_p95_s (points ! k) \<noteq> None \<and>
           (\<exists>b j. b \<le> j \<and> j < length c \<and>
              fle (fmul (p95 (c ! b)) (fadd (Fin 1) KNEE_MIN_P95_RISE)) (p95 (c ! j)))))"
proof (cases "length c < KNEE_MIN_POINTS")
  case True
  then show ?thesis by (simp add: d_def c_def detect_few detection_defs)
next
  case False
  then have five: "5 \<le> length c" by (simp add: KNEE_MIN_POINTS_def)
  note sat = first_saturated_bounds [of points axis]
  show ?thesis
  proof (cases rule: detect_cases [OF False [unfolded c_def], of axis])
    case (1 k d')
    from 1(3) have "k \<in> fst ` set c" unfolding c_def by (rule bend_knee_in)
    then have k: "k < length points \<and> sp_throughput (points ! k) \<noteq> None \<and> sp_p95_s (points ! k) \<noteq> None"
      using curve_entries [of _ _ _ points] by (fastforce simp: c_def)
    obtain b j where "b \<le> j" "j < length c"
      "fle (fmul (p95 (c ! b)) (fadd (Fin 1) KNEE_MIN_P95_RISE)) (p95 (c ! j))"
      using 1(3) unfolding c_def by (rule bend_knee_rise)
    with 1 k five sat show ?thesis
      by (auto simp: d_def c_def detection_defs split: option.splits)
  next
    case (2 s d')
    with five sat [OF 2(3)] show ?thesis by (auto simp: d_def c_def detection_defs)
  next
    case (3 reason d')
    then show ?thesis by (simp add: d_def detection_defs)
  qed
qed

subsection \<open>The rise is the largest one\<close>

definition finite_curve :: "curve \<Rightarrow> bool" where
  "finite_curve c \<longleftrightarrow> list_all (\<lambda>p. is_finite (p95 p) \<and> nonneg (p95 p)) c"

text \<open>Every rise from a stage with a positive p95 to a stage not before it.\<close>

definition all_rises :: "curve \<Rightarrow> nat \<Rightarrow> f64 set" where
  "all_rises c n = {rise_of c i j |i j. i \<le> j \<and> j < n \<and> flt (Fin 0) (p95 (c ! i))}"

lemma all_rises_0 [simp]: "all_rises c 0 = {}"
  by (simp add: all_rises_def)

lemma all_rises_Suc:
  "all_rises c (Suc n) = all_rises c n \<union> {rise_of c i n |i. i \<le> n \<and> flt (Fin 0) (p95 (c ! i))}"
  by (auto simp: all_rises_def less_Suc_eq)

lemma finite_all_rises: "finite (all_rises c n)"
proof (induction n)
  case (Suc n)
  have "{rise_of c i n |i. i \<le> n \<and> flt (Fin 0) (p95 (c ! i))} \<subseteq> (\<lambda>i. rise_of c i n) ` {..n}" by auto
  then have "finite {rise_of c i n |i. i \<le> n \<and> flt (Fin 0) (p95 (c ! i))}" by (rule finite_subset) simp
  with Suc.IH show ?case by (simp add: all_rises_Suc)
qed simp

lemma le_PInf: "x \<noteq> NaN \<Longrightarrow> x \<le> PInf"
  by (cases x) auto

lemma rise_of_antimono:
  assumes "finite_curve c" "i < length c" "l < length c" "j < length c"
    and "flt (Fin 0) (p95 (c ! l))" "p95 (c ! l) \<le> p95 (c ! i)"
  shows "rise_of c i j \<le> rise_of c l j" "rise_of c i j \<noteq> NaN"
proof -
  from assms have "is_finite (p95 (c ! k)) \<and> nonneg (p95 (c ! k))" if "k < length c" for k
    using that by (simp add: finite_curve_def list_all_length)
  then obtain x y z where v: "p95 (c ! i) = Fin x" "p95 (c ! l) = Fin y" "p95 (c ! j) = Fin z" "0 \<le> z"
    using assms(2-4) by (metis is_finiteE nonneg_Fin)
  with assms(5,6) have p: "0 < y" "y \<le> x" by simp_all
  then have "z / x \<le> z / y" using v(4) by (simp add: frac_le)
  then have "rnd (z / x) \<le> rnd (z / y)" by (rule rnd_mono)
  moreover have "fsub a (Fin 1) \<le> fsub b (Fin 1)" if "a \<le> b" "a \<noteq> NaN" "b \<noteq> NaN" for a b
    using that by (cases a; cases b) (auto simp: fsub_def intro: rnd_mono le_PInf)
  ultimately show "rise_of c i j \<le> rise_of c l j" using v p by (simp add: rise_of_def fdiv_def)
  have "fsub a (Fin 1) \<noteq> NaN" if "a \<noteq> NaN" for a
    using that by (cases a) (auto simp: fsub_def)
  then show "rise_of c i j \<noteq> NaN" using v p by (simp add: rise_of_def fdiv_def)
qed

definition positive_at :: "curve \<Rightarrow> nat \<Rightarrow> bool" where
  "positive_at c i \<longleftrightarrow> flt (Fin 0) (p95 (c ! i))"

definition low_inv :: "curve \<Rightarrow> nat \<Rightarrow> nat option \<Rightarrow> bool" where
  "low_inv c n low \<longleftrightarrow>
     (case low of None \<Rightarrow> \<forall>i < n. \<not> positive_at c i
      | Some l \<Rightarrow> l < n \<and> positive_at c l \<and> (\<forall>i < n. positive_at c i \<longrightarrow> p95 (c ! l) \<le> p95 (c ! i)))"

definition best_inv :: "curve \<Rightarrow> nat \<Rightarrow> (nat \<times> nat \<times> f64) option \<Rightarrow> bool" where
  "best_inv c n best \<longleftrightarrow>
     (case best of None \<Rightarrow> all_rises c n = {}
      | Some (b, k, r) \<Rightarrow> b \<le> k \<and> k < n \<and> positive_at c b \<and> r = rise_of c b k \<and> (\<forall>x \<in> all_rises c n. x \<le> r))"

lemma all_rises_positive:
  "all_rises c (Suc n) = all_rises c n \<union> {rise_of c i n |i. i \<le> n \<and> positive_at c i}"
  by (simp add: all_rises_Suc positive_at_def)

lemma positive_not_NaN: "positive_at c i \<Longrightarrow> p95 (c ! i) \<noteq> NaN"
  by (auto simp: positive_at_def flt_def)

lemma low_inv_step: "low_inv c n low \<Longrightarrow> low_inv c (Suc n) (rise_low c low n)"
proof (cases low)
  case None
  then show "low_inv c n low \<Longrightarrow> ?thesis" by (auto simp: low_inv_def rise_low_def less_Suc_eq positive_at_def)
next
  case (Some l)
  then show "low_inv c n low \<Longrightarrow> ?thesis"
    by (auto simp: low_inv_def rise_low_def less_Suc_eq flt_def positive_at_def not_less dest: order_trans less_imp_le)
qed

lemma low_none: "rise_low c low n = None \<Longrightarrow> low = None \<and> \<not> positive_at c n"
  by (auto simp: rise_low_def positive_at_def split: if_splits)

lemma rise_step_inv:
  assumes "finite_curve c" "n < length c" "low_inv c n low" "best_inv c n best"
  shows "case rise_step c (best, low) n of (best', low') \<Rightarrow> low_inv c (Suc n) low' \<and> best_inv c (Suc n) best'"
proof (cases "rise_low c low n")
  case None
  note l = low_inv_step [OF assms(3)]
  from l None have "\<not> (i \<le> n \<and> positive_at c i)" for i by (auto simp: low_inv_def less_Suc_eq_le)
  moreover from low_none [OF None] assms(3) have "all_rises c n = {}"
    by (auto simp: low_inv_def all_rises_def positive_at_def)
  ultimately have "all_rises c (Suc n) = {}" by (auto simp: all_rises_positive)
  with assms(4) l None show ?thesis
    by (auto simp: rise_step_def best_inv_def all_rises_def positive_at_def split: option.splits)
next
  case (Some m)
  note l = low_inv_step [OF assms(3)]
  from l Some have m: "m \<le> n" "positive_at c m" and least: "\<And>i. i \<le> n \<Longrightarrow> positive_at c i \<Longrightarrow> p95 (c ! m) \<le> p95 (c ! i)"
    by (auto simp: low_inv_def less_Suc_eq_le)
  have new: "rise_of c i n \<le> rise_of c m n" if "i \<le> n" "positive_at c i" for i
    using assms(1,2) m that least by (intro rise_of_antimono) (auto simp: positive_at_def)
  have nan: "rise_of c i j \<noteq> NaN" if "i \<le> j" "j < length c" "positive_at c i" for i j
    using assms(1) that by (intro rise_of_antimono(2) [of c i i]) (auto simp: positive_at_def)
  show ?thesis
  proof (cases best)
    case None
    then show ?thesis using Some l m new assms(4)
      by (auto simp: rise_step_def best_inv_def all_rises_positive)
  next
    case best: (Some t)
    obtain b k r where t: "t = (b, k, r)" by (cases t)
    with best assms(4) have o': "b \<le> k" "k < n" "positive_at c b" "r = rise_of c b k" "\<forall>x \<in> all_rises c n. x \<le> r"
      by (auto simp: best_inv_def)
    have "r \<noteq> NaN" "rise_of c m n \<noteq> NaN" using nan o' m assms(2) by simp_all
    then have "flt r (rise_of c m n) \<longleftrightarrow> r < rise_of c m n" by (simp add: flt_def)
    then show ?thesis using Some l m new best t o'
      by (auto simp: rise_step_def best_inv_def all_rises_positive not_less intro: order_trans less_imp_le)
  qed
qed

lemma rise_fold_inv:
  assumes "finite_curve c" "n \<le> length c"
  shows "case foldl (rise_step c) (None, None) [0..<n] of (best, low) \<Rightarrow> low_inv c n low \<and> best_inv c n best"
  using assms(2)
proof (induction n)
  case (Suc n)
  obtain best low where st: "foldl (rise_step c) (None, None) [0..<n] = (best, low)" by fastforce
  with Suc show ?case using rise_step_inv [OF assms(1), of n low best] by simp
qed (simp add: low_inv_def best_inv_def)

text \<open>
C23: The p95 rise on which a knee is decided is the largest one: on finite, non-negative p95s the
single pass over the curve with its running minimum finds a pair of stages, the first with a
positive p95 and not after the second, whose rise is the maximum over all such pairs, as computed
in binary64; it finds none exactly when no p95 is positive.
\<close>

theorem p95_rise_is_largest:
  assumes "finite_curve c"
  shows "case largest_p95_rise c of
      None \<Rightarrow> list_all (\<lambda>p. \<not> flt (Fin 0) (p95 p)) c
    | Some (b, k, r) \<Rightarrow> b \<le> k \<and> k < length c \<and> flt (Fin 0) (p95 (c ! b)) \<and> r = rise_of c b k \<and>
        r = Max {rise_of c i j |i j. i \<le> j \<and> j < length c \<and> flt (Fin 0) (p95 (c ! i))}"
proof -
  obtain best low where st: "foldl (rise_step c) (None, None) [0..<length c] = (best, low)" by fastforce
  with rise_fold_inv [OF assms, of "length c"] have inv: "best_inv c (length c) best" by simp
  have l: "largest_p95_rise c = best" using st by (simp add: largest_p95_rise_def)
  show ?thesis
  proof (cases best)
    case None
    with inv have "\<not> flt (Fin 0) (p95 (c ! i))" if "i < length c" for i
      using that by (auto simp: best_inv_def all_rises_def)
    then show ?thesis using l None by (simp add: list_all_length)
  next
    case (Some t)
    obtain b k r where t: "t = (b, k, r)" by (cases t)
    with inv Some have i: "b \<le> k" "k < length c" "positive_at c b" "r = rise_of c b k"
      "\<forall>x \<in> all_rises c (length c). x \<le> r" by (auto simp: best_inv_def)
    then have "r \<in> all_rises c (length c)" by (auto simp: all_rises_def positive_at_def)
    with i(5) have "Max (all_rises c (length c)) = r" by (intro Max_eqI finite_all_rises) auto
    then show ?thesis using l Some t i by (simp add: all_rises_def positive_at_def)
  qed
qed

theorem p95_rise_is_largest_witness:
  "case largest_p95_rise [(0, Fin 1, Fin 2), (1, Fin 2, Fin 1), (2, Fin 3, Fin 3)] of
      None \<Rightarrow> False | Some (b, k, r) \<Rightarrow> b \<le> k \<and> k < 3"
  using p95_rise_is_largest [of "[(0, Fin 1, Fin 2), (1, Fin 2, Fin 1), (2, Fin 3, Fin 3)]"]
  by (auto simp: finite_curve_def p95_def split: option.splits)

end
