(* ===== verification/Ndjson_Writer.thy ===== *)
theory Ndjson_Writer
  imports Systems "HOL-Library.Word" "HOL-Library.Sublist"
begin

text \<open>
  The telemetry row writer (\<open>src/telemetry/writer.rs\<close>): a bounded channel that request tasks
  and scrapers fill and one task that empties it into a buffered file. The atomic actions of all
  tasks interleave in \<open>writer_step\<close>. A send is two actions, the channel's push and the bump
  of \<open>enqueued\<close>; the counters are 64-bit words that wrap. The bodies of the rows are a type
  parameter, and the JSON text of a row is given by the argument \<open>ser\<close> (\<open>serde_json\<close> is not part
  of the repository); the buffer and the file hold bytes, so a row can be torn between them.
\<close>

datatype 'p row =
    Run 'p
  | Stage 'p
  | Telemetry 'p
  | Request 'p
  | ScrapeError 'p
  | Summary 'p

definition TELEMETRY_CHANNEL_CAPACITY :: nat where
  "TELEMETRY_CHANNEL_CAPACITY = 8192"

definition FLUSH_EVERY :: nat where
  "FLUSH_EVERY = 64"

record writer_stats =
  written_rows :: "64 word"
  dropped_telemetry_rows :: "64 word"
  request_rows :: "64 word"
  telemetry_rows :: "64 word"
  scrape_error_rows :: "64 word"
  stage_rows :: "64 word"
  run_rows :: "64 word"
  summary_rows :: "64 word"

record counters =
  c_enqueued :: "64 word"
  c_written :: "64 word"
  c_dropped :: "64 word"
  c_request :: "64 word"
  c_telemetry :: "64 word"
  c_scrape_error :: "64 word"
  c_stage :: "64 word"
  c_run :: "64 word"
  c_summary :: "64 word"

definition counters_default :: counters where
  "counters_default =
     \<lparr>c_enqueued = 0, c_written = 0, c_dropped = 0, c_request = 0, c_telemetry = 0,
      c_scrape_error = 0, c_stage = 0, c_run = 0, c_summary = 0\<rparr>"

definition stats_snapshot :: "counters \<Rightarrow> writer_stats" where
  "stats_snapshot c =
     \<lparr>written_rows = c_written c, dropped_telemetry_rows = c_dropped c, request_rows = c_request c,
      telemetry_rows = c_telemetry c, scrape_error_rows = c_scrape_error c, stage_rows = c_stage c,
      run_rows = c_run c, summary_rows = c_summary c\<rparr>"

fun classify :: "'p row \<Rightarrow> counters \<Rightarrow> counters" where
  "classify (Run _) c = c\<lparr>c_run := c_run c + 1\<rparr>"
| "classify (Stage _) c = c\<lparr>c_stage := c_stage c + 1\<rparr>"
| "classify (Telemetry _) c = c\<lparr>c_telemetry := c_telemetry c + 1\<rparr>"
| "classify (Request _) c = c\<lparr>c_request := c_request c + 1\<rparr>"
| "classify (ScrapeError _) c = c\<lparr>c_scrape_error := c_scrape_error c + 1\<rparr>"
| "classify (Summary _) c = c\<lparr>c_summary := c_summary c + 1\<rparr>"

datatype writer_status = Writing | Finished writer_stats | Failed

text \<open>
  The channel's rows, the rows whose send has pushed them and not yet counted them, the bytes of
  the row being written that are not in the buffer yet, the bytes in the write buffer and in the
  file, the writer task's own counter and its end.
\<close>

record 'p writer =
  w_queue :: "'p row list"
  w_uncounted :: "'p row list"
  w_pending :: "bytes option"
  w_buffer :: bytes
  w_file :: bytes
  w_since_flush :: nat
  w_senders :: bool
  w_status :: writer_status
  w_counters :: counters

definition writer_spawn :: "'p writer" where
  "writer_spawn =
     \<lparr>w_queue = [], w_uncounted = [], w_pending = None, w_buffer = [], w_file = [], w_since_flush = 0,
      w_senders = True, w_status = Writing, w_counters = counters_default\<rparr>"

definition can_push :: "'p writer \<Rightarrow> bool" where
  "can_push w \<longleftrightarrow> w_status w = Writing \<and> w_senders w \<and> length (w_queue w) < TELEMETRY_CHANNEL_CAPACITY"

definition push :: "'p row \<Rightarrow> 'p writer \<Rightarrow> 'p writer" where
  "push r w = w\<lparr>w_queue := w_queue w @ [r], w_uncounted := w_uncounted w @ [r]\<rparr>"

definition count_enqueued :: "'p row \<Rightarrow> 'p writer \<Rightarrow> 'p writer" where
  "count_enqueued r w =
     w\<lparr>w_uncounted := remove1 r (w_uncounted w),
       w_counters := (w_counters w)\<lparr>c_enqueued := c_enqueued (w_counters w) + 1\<rparr>\<rparr>"

definition drop_row :: "'p writer \<Rightarrow> 'p writer" where
  "drop_row w = w\<lparr>w_counters := (w_counters w)\<lparr>c_dropped := c_dropped (w_counters w) + 1\<rparr>\<rparr>"

definition newline :: "8 word" where
  "newline = 10"

definition line :: "('p row \<Rightarrow> bytes) \<Rightarrow> 'p row \<Rightarrow> bytes" where
  "line ser r = ser r @ [newline]"

definition flush :: "'p writer \<Rightarrow> 'p writer" where
  "flush w = w\<lparr>w_file := w_file w @ w_buffer w, w_buffer := [], w_since_flush := 0\<rparr>"

text \<open>A received row is counted by its kind, and its bytes are due.\<close>

definition begin_row :: "('p row \<Rightarrow> bytes) \<Rightarrow> 'p row \<Rightarrow> 'p writer \<Rightarrow> 'p writer" where
  "begin_row ser r w = w\<lparr>w_pending := Some (line ser r), w_counters := classify r (w_counters w)\<rparr>"

text \<open>All its bytes are in the buffer: the row is written, and every 64th flushes.\<close>

definition end_row :: "'p writer \<Rightarrow> 'p writer" where
  "end_row w =
     (let w1 = w\<lparr>w_pending := None, w_since_flush := w_since_flush w + 1,
                 w_counters := (w_counters w)\<lparr>c_written := c_written (w_counters w) + 1\<rparr>\<rparr>
      in if FLUSH_EVERY \<le> w_since_flush w1 then flush w1 else w1)"

definition flush_tick :: "'p writer \<Rightarrow> 'p writer" where
  "flush_tick w = (if 0 < w_since_flush w then flush w else w)"

definition finish_writer :: "'p writer \<Rightarrow> 'p writer" where
  "finish_writer w = (flush w)\<lparr>w_status := Finished (stats_snapshot (w_counters w))\<rparr>"

text \<open>The test of \<open>flush_pending\<close>.\<close>

definition drained :: "'p writer \<Rightarrow> bool" where
  "drained w \<longleftrightarrow> c_enqueued (w_counters w) \<le> c_written (w_counters w)"

text \<open>
  The actions, over the writer and the rows the channel has accepted so far. \<open>put\<close> copies some bytes
  of the current row into the buffer and \<open>spill\<close> is the buffered file writing some of its bytes out,
  on its own or, after an error, while it is dropped; a failing serialization, write or flush ends
  the task anywhere, in the middle of a row too.
\<close>

inductive writer_step :: "('p row \<Rightarrow> bytes) \<Rightarrow> 'p writer \<times> 'p row list \<Rightarrow> 'p writer \<times> 'p row list \<Rightarrow> bool"
  for ser :: "'p row \<Rightarrow> bytes" where
  send: "can_push w \<Longrightarrow> writer_step ser (w, acc) (push r w, acc @ [r])"
| counted: "r \<in> set (w_uncounted w) \<Longrightarrow> writer_step ser (w, acc) (count_enqueued r w, acc)"
| try_full: "w_senders w \<Longrightarrow> \<not> can_push w \<Longrightarrow> writer_step ser (w, acc) (drop_row w, acc)"
| recv: "w_status w = Writing \<Longrightarrow> w_pending w = None \<Longrightarrow> w_queue w = r # q \<Longrightarrow>
    writer_step ser (w, acc) (begin_row ser r (w\<lparr>w_queue := q\<rparr>), acc)"
| put: "w_status w = Writing \<Longrightarrow> w_pending w = Some (a @ b) \<Longrightarrow>
    writer_step ser (w, acc) (w\<lparr>w_pending := Some b, w_buffer := w_buffer w @ a\<rparr>, acc)"
| written: "w_status w = Writing \<Longrightarrow> w_pending w = Some [] \<Longrightarrow> writer_step ser (w, acc) (end_row w, acc)"
| tick: "w_status w = Writing \<Longrightarrow> w_pending w = None \<Longrightarrow> writer_step ser (w, acc) (flush_tick w, acc)"
| spill: "w_buffer w = a @ b \<Longrightarrow>
    writer_step ser (w, acc) (w\<lparr>w_file := w_file w @ a, w_buffer := b\<rparr>, acc)"
| shutdown: "w_uncounted w = [] \<Longrightarrow> writer_step ser (w, acc) (w\<lparr>w_senders := False\<rparr>, acc)"
| finished: "w_status w = Writing \<Longrightarrow> w_pending w = None \<Longrightarrow> \<not> w_senders w \<Longrightarrow> w_queue w = [] \<Longrightarrow>
    writer_step ser (w, acc) (finish_writer w, acc)"
| io_error: "w_status w = Writing \<Longrightarrow> writer_step ser (w, acc) (w\<lparr>w_queue := [], w_status := Failed\<rparr>, acc)"

inductive_cases writer_stepE: "writer_step ser s s'"

definition writer_init :: "'p writer \<times> 'p row list \<Rightarrow> bool" where
  "writer_init s \<longleftrightarrow> s = (writer_spawn, [])"

subsection \<open>The invariant\<close>

fun is_kind :: "nat \<Rightarrow> 'p row \<Rightarrow> bool" where
  "is_kind k (Run _) = (k = 0)"
| "is_kind k (Stage _) = (k = 1)"
| "is_kind k (Telemetry _) = (k = 2)"
| "is_kind k (Request _) = (k = 3)"
| "is_kind k (ScrapeError _) = (k = 4)"
| "is_kind k (Summary _) = (k = 5)"

definition kind_count :: "nat \<Rightarrow> 'p row list \<Rightarrow> 64 word" where
  "kind_count k rows = of_nat (length (filter (is_kind k) rows))"

lemma kind_count_simps [simp]:
  "kind_count k [] = 0" "kind_count k (xs @ ys) = kind_count k xs + kind_count k ys"
  "kind_count k [r] = of_bool (is_kind k r)"
  by (simp_all add: kind_count_def)

text \<open>The statistics that describe exactly the given rows.\<close>

definition kinds_match :: "writer_stats \<Rightarrow> 'p row list \<Rightarrow> bool" where
  "kinds_match st rows \<longleftrightarrow>
     run_rows st = kind_count 0 rows \<and> stage_rows st = kind_count 1 rows \<and>
     telemetry_rows st = kind_count 2 rows \<and> request_rows st = kind_count 3 rows \<and>
     scrape_error_rows st = kind_count 4 rows \<and> summary_rows st = kind_count 5 rows"

definition stats_match :: "writer_stats \<Rightarrow> 'p row list \<Rightarrow> bool" where
  "stats_match st rows \<longleftrightarrow> written_rows st = of_nat (length rows) \<and> kinds_match st rows"

definition file_text :: "('p row \<Rightarrow> bytes) \<Rightarrow> 'p row list \<Rightarrow> bytes" where
  "file_text ser rows = concat (map (line ser) rows)"

lemma file_text_simps [simp]:
  "file_text ser [] = []" "file_text ser (xs @ ys) = file_text ser xs @ file_text ser ys"
  "file_text ser (x # xs) = line ser x @ file_text ser xs"
  by (simp_all add: file_text_def)

definition due :: "'p writer \<Rightarrow> bytes" where
  "due w = (case w_pending w of None \<Rightarrow> [] | Some b \<Rightarrow> b)"

text \<open>\<open>taken\<close> are the rows the task has received: their text is in the file, in the buffer or due.\<close>

definition takes :: "('p row \<Rightarrow> bytes) \<Rightarrow> 'p writer \<Rightarrow> 'p row list \<Rightarrow> 'p row list \<Rightarrow> bool" where
  "takes ser w acc taken \<longleftrightarrow>
     prefix (taken @ w_queue w) acc \<and> (w_status w \<noteq> Failed \<longrightarrow> taken @ w_queue w = acc) \<and>
     w_file w @ w_buffer w @ due w = file_text ser taken \<and>
     kinds_match (stats_snapshot (w_counters w)) taken \<and>
     c_written (w_counters w) + of_bool (w_pending w \<noteq> None) = of_nat (length taken) \<and>
     (\<forall>st. w_status w = Finished st \<longrightarrow> w_file w = file_text ser acc \<and> stats_match st taken)"

definition writer_inv :: "('p row \<Rightarrow> bytes) \<Rightarrow> 'p writer \<times> 'p row list \<Rightarrow> bool" where
  "writer_inv ser s \<longleftrightarrow>
     (case s of (w, acc) \<Rightarrow>
       length (w_queue w) \<le> TELEMETRY_CHANNEL_CAPACITY \<and> (\<exists>taken. takes ser w acc taken) \<and>
       (\<forall>st. w_status w = Finished st \<longrightarrow>
          w_queue w = [] \<and> w_buffer w = [] \<and> w_pending w = None \<and> \<not> w_senders w) \<and>
       (w_status w = Writing \<longrightarrow> w_since_flush w < FLUSH_EVERY) \<and>
       (\<not> w_senders w \<longrightarrow> w_uncounted w = []) \<and>
       c_enqueued (w_counters w) + of_nat (length (w_uncounted w)) = of_nat (length acc))"

lemma writer_inv_init: "writer_init s \<Longrightarrow> writer_inv ser s"
  by (auto simp: writer_init_def writer_inv_def takes_def due_def writer_spawn_def kinds_match_def
    stats_snapshot_def counters_default_def FLUSH_EVERY_def TELEMETRY_CHANNEL_CAPACITY_def)

lemma kinds_match_classify [simp]:
  "kinds_match (stats_snapshot c) rows \<Longrightarrow> kinds_match (stats_snapshot (classify r c)) (rows @ [r])"
  by (cases r) (simp_all add: kinds_match_def stats_snapshot_def)

lemma classify_frame [simp]:
  "c_enqueued (classify r c) = c_enqueued c" "c_dropped (classify r c) = c_dropped c"
  "c_written (classify r c) = c_written c"
  by (cases r; simp)+

lemma kinds_match_frame [simp]:
  "kinds_match (stats_snapshot (c\<lparr>c_enqueued := x\<rparr>)) rows = kinds_match (stats_snapshot c) rows"
  "kinds_match (stats_snapshot (c\<lparr>c_dropped := x\<rparr>)) rows = kinds_match (stats_snapshot c) rows"
  "kinds_match (stats_snapshot (c\<lparr>c_written := x\<rparr>)) rows = kinds_match (stats_snapshot c) rows"
  by (simp_all add: kinds_match_def stats_snapshot_def)

lemma writer_inv_recv:
  assumes "writer_inv ser (w, acc)" "w_status w = Writing" "w_pending w = None" "w_queue w = r # q"
  shows "writer_inv ser (begin_row ser r (w\<lparr>w_queue := q\<rparr>), acc)"
proof -
  from assms(1) obtain taken where "takes ser w acc taken" by (auto simp: writer_inv_def)
  then have "takes ser (begin_row ser r (w\<lparr>w_queue := q\<rparr>)) acc (taken @ [r])"
    using assms(2-4) by (auto simp: takes_def begin_row_def due_def)
  then show ?thesis using assms by (auto simp: writer_inv_def begin_row_def)
qed

lemma writer_inv_written:
  assumes "writer_inv ser (w, acc)" "w_status w = Writing" "w_pending w = Some []"
  shows "writer_inv ser (end_row w, acc)"
proof -
  from assms(1) obtain taken where "takes ser w acc taken" by (auto simp: writer_inv_def)
  then have "takes ser (end_row w) acc taken"
    using assms(2,3) by (auto simp: takes_def end_row_def flush_def due_def Let_def)
  then show ?thesis using assms by (auto simp: writer_inv_def end_row_def flush_def FLUSH_EVERY_def Let_def)
qed

lemma writer_inv_finished:
  assumes "writer_inv ser (w, acc)" "w_status w = Writing" "w_pending w = None" "\<not> w_senders w" "w_queue w = []"
  shows "writer_inv ser (finish_writer w, acc)"
proof -
  from assms(1) obtain taken where "takes ser w acc taken" by (auto simp: writer_inv_def)
  then have "takes ser (finish_writer w) acc taken"
    using assms(2-5) by (auto simp: takes_def finish_writer_def flush_def due_def stats_match_def stats_snapshot_def)
  then show ?thesis using assms by (auto simp: writer_inv_def finish_writer_def flush_def)
qed

lemma writer_inv_io_error:
  "writer_inv ser (w, acc) \<Longrightarrow> w_status w = Writing \<Longrightarrow> writer_inv ser (w\<lparr>w_queue := [], w_status := Failed\<rparr>, acc)"
  by (fastforce simp: writer_inv_def takes_def due_def dest: append_prefixD)

lemma writer_inv_step: "writer_inv ser s \<Longrightarrow> writer_step ser s s' \<Longrightarrow> writer_inv ser s'"
proof (erule writer_stepE)
  fix w :: "'a writer" and acc r
  assume "writer_inv ser s" "s = (w, acc)" "s' = (push r w, acc @ [r])" "can_push w"
  then show "writer_inv ser s'"
    by (fastforce simp: writer_inv_def takes_def due_def push_def can_push_def prefix_append)
next
  fix w :: "'a writer" and acc r
  assume "writer_inv ser s" "s = (w, acc)" "s' = (count_enqueued r w, acc)" "r \<in> set (w_uncounted w)"
  moreover from this have "length (w_uncounted w) = Suc (length (remove1 r (w_uncounted w)))"
    by (metis One_nat_def Suc_pred length_pos_if_in_set length_remove1)
  ultimately show "writer_inv ser s'"
    by (auto simp: writer_inv_def takes_def due_def count_enqueued_def add_ac)
next
  fix w :: "'a writer" and acc
  assume "writer_inv ser s" "s = (w, acc)" "s' = (drop_row w, acc)"
  then show "writer_inv ser s'" by (auto simp: writer_inv_def takes_def due_def drop_row_def)
next
  fix w :: "'a writer" and acc a b
  assume "writer_inv ser s" "s = (w, acc)" "w_pending w = Some (a @ b)"
    "s' = (w\<lparr>w_pending := Some b, w_buffer := w_buffer w @ a\<rparr>, acc)" "w_status w = Writing"
  then show "writer_inv ser s'" by (auto simp: writer_inv_def takes_def due_def)
next
  fix w :: "'a writer" and acc
  assume "writer_inv ser s" "s = (w, acc)" "s' = (flush_tick w, acc)" "w_status w = Writing" "w_pending w = None"
  then show "writer_inv ser s'"
    by (auto simp: writer_inv_def takes_def due_def flush_tick_def flush_def FLUSH_EVERY_def)
next
  fix w :: "'a writer" and acc a b
  assume "writer_inv ser s" "s = (w, acc)" "s' = (w\<lparr>w_file := w_file w @ a, w_buffer := b\<rparr>, acc)"
    "w_buffer w = a @ b"
  then show "writer_inv ser s'" by (auto simp: writer_inv_def takes_def due_def)
next
  fix w :: "'a writer" and acc
  assume "writer_inv ser s" "s = (w, acc)" "s' = (w\<lparr>w_senders := False\<rparr>, acc)" "w_uncounted w = []"
  then show "writer_inv ser s'" by (auto simp: writer_inv_def takes_def due_def)
qed (use writer_inv_recv writer_inv_written writer_inv_finished writer_inv_io_error in blast)+

interpretation rows: invariant_system writer_init "writer_step ser" "writer_inv ser" for ser
  by unfold_locales (fact writer_inv_init, fact writer_inv_step)

lemma step_sends: "can_push w \<Longrightarrow> (writer_step ser)\<^sup>*\<^sup>* s (w, acc) \<Longrightarrow> (writer_step ser)\<^sup>*\<^sup>* s (push r w, acc @ [r])"
  using writer_step.send rtranclp.rtrancl_into_rtrancl by metis

lemma step_counted:
  "r \<in> set (w_uncounted w) \<Longrightarrow> (writer_step ser)\<^sup>*\<^sup>* s (w, acc) \<Longrightarrow>
    (writer_step ser)\<^sup>*\<^sup>* s (count_enqueued r w, acc)"
  using writer_step.counted rtranclp.rtrancl_into_rtrancl by metis

text \<open>A row written at once: received, put into the buffer in one piece and counted.\<close>

definition write_row :: "('p row \<Rightarrow> bytes) \<Rightarrow> 'p row \<Rightarrow> 'p writer \<Rightarrow> 'p writer" where
  "write_row ser r w = end_row ((begin_row ser r w)\<lparr>w_pending := Some [], w_buffer := w_buffer w @ line ser r\<rparr>)"

lemma step_written:
  assumes "w_status w = Writing" "w_pending w = None" "w_queue w = r # q" "(writer_step ser)\<^sup>*\<^sup>* s (w, acc)"
  shows "(writer_step ser)\<^sup>*\<^sup>* s (write_row ser r (w\<lparr>w_queue := q\<rparr>), acc)"
proof -
  let ?b = "begin_row ser r (w\<lparr>w_queue := q\<rparr>)"
  have "(writer_step ser)\<^sup>*\<^sup>* s (?b, acc)"
    using writer_step.recv [OF assms(1-3)] assms(4) by (rule rtranclp.rtrancl_into_rtrancl [rotated])
  moreover have "writer_step ser (?b, acc) (?b\<lparr>w_pending := Some [], w_buffer := w_buffer ?b @ line ser r\<rparr>, acc)"
    by (rule writer_step.put) (simp_all add: begin_row_def assms(1))
  moreover have "writer_step ser (?b\<lparr>w_pending := Some [], w_buffer := w_buffer ?b @ line ser r\<rparr>, acc)
      (write_row ser r (w\<lparr>w_queue := q\<rparr>), acc)"
    unfolding write_row_def
    by (rule back_subst [of "writer_step ser _", OF writer_step.written]) (simp_all add: begin_row_def assms(1))
  ultimately show ?thesis by (meson rtranclp.rtrancl_into_rtrancl)
qed

lemmas writer_defs = writer_spawn_def can_push_def push_def count_enqueued_def write_row_def begin_row_def
  end_row_def Let_def FLUSH_EVERY_def TELEMETRY_CHANNEL_CAPACITY_def counters_default_def

text \<open>The wait of \<open>flush_pending\<close> can end while a row whose send has returned is still in the
  channel: another send has pushed its row, which the task has written, and not counted it yet.\<close>

lemma drained_too_early:
  "\<exists>w. (writer_step ser)\<^sup>*\<^sup>* (writer_spawn, []) (w, [Run (), Stage ()]) \<and>
     drained w \<and> w_uncounted w = [Run ()] \<and> w_queue w = [Stage ()]"
proof -
  let ?a = "push (Run ()) writer_spawn"
  let ?b = "write_row ser (Run ()) (?a\<lparr>w_queue := []\<rparr>)"
  let ?c = "count_enqueued (Stage ()) (push (Stage ()) ?b)"
  have "(writer_step ser)\<^sup>*\<^sup>* (writer_spawn, []) (?a, [] @ [Run ()])"
    by (rule step_sends) (simp_all add: writer_defs)
  then have "(writer_step ser)\<^sup>*\<^sup>* (writer_spawn, []) (?b, [] @ [Run ()])"
    by (rule step_written [rotated 3]) (simp_all add: writer_defs)
  then have "(writer_step ser)\<^sup>*\<^sup>* (writer_spawn, []) (push (Stage ()) ?b, ([] @ [Run ()]) @ [Stage ()])"
    by (rule step_sends [rotated]) (simp add: writer_defs)
  then have "(writer_step ser)\<^sup>*\<^sup>* (writer_spawn, []) (?c, ([] @ [Run ()]) @ [Stage ()])"
    by (rule step_counted [rotated]) (simp add: writer_defs)
  moreover have "drained ?c" "w_uncounted ?c = [Run ()]" "w_queue ?c = [Stage ()]"
    by (simp_all add: writer_defs drained_def)
  ultimately show ?thesis by auto
qed

text \<open>Bytes that begin the text of some rows are whole lines and at most one torn one.\<close>

lemma prefix_of_lines:
  "prefix xs (file_text ser rows) \<Longrightarrow>
    \<exists>k torn. xs = file_text ser (take k rows) @ torn \<and> k \<le> length rows \<and>
      (torn = [] \<or> k < length rows \<and> prefix torn (ser (rows ! k)))"
proof (induction rows arbitrary: xs)
  case (Cons r rows)
  then consider (whole) ys where "xs = line ser r @ ys" "prefix ys (file_text ser rows)"
    | (part) "prefix xs (ser r)"
    by (auto simp: line_def prefix_append prefix_Cons)
  then show ?case
  proof cases
    case whole
    from Cons.IH [OF whole(2)] obtain k torn where "ys = file_text ser (take k rows) @ torn" "k \<le> length rows"
      "torn = [] \<or> k < length rows \<and> prefix torn (ser (rows ! k))" by blast
    then show ?thesis using whole(1) by (intro exI [of _ "Suc k"] exI [of _ torn]) auto
  qed (auto intro!: exI [of _ 0])
qed simp

subsection \<open>Properties\<close>

text \<open>
C27: The row writer loses and reorders nothing it accepted. In every interleaving the file holds the
lines of a prefix of the accepted rows in their order, followed by nothing or by a torn beginning of
the next row's line (the buffer spills bytes, not rows), and the channel stays within its capacity;
when the writer task has finished, the file is exactly the lines of all accepted rows, each row's
send has been counted, and the reported statistics are exactly the accepted rows' counts by kind.
\<close>

theorem ndjson_rows_complete:
  assumes "(writer_step ser)\<^sup>*\<^sup>* (writer_spawn, []) (w, acc)"
  shows "(\<exists>rows torn. w_file w = concat (map (line ser) rows) @ torn \<and> prefix rows acc \<and>
      (torn = [] \<or> (\<exists>r. prefix (rows @ [r]) acc \<and> prefix torn (ser r)))) \<and>
    length (w_queue w) \<le> TELEMETRY_CHANNEL_CAPACITY \<and>
    (\<forall>st. w_status w = Finished st \<longrightarrow> w_file w = concat (map (line ser) acc) \<and> stats_match st acc \<and>
       c_enqueued (w_counters w) = of_nat (length acc))"
proof -
  have inv: "writer_inv ser (w, acc)" by (rule rows.I_reach [OF _ assms]) (simp add: writer_init_def)
  then obtain taken where t: "takes ser w acc taken" by (auto simp: writer_inv_def)
  then obtain rest where acc: "acc = taken @ rest" by (auto simp: takes_def prefix_def)
  have "prefix (w_file w) (file_text ser taken)" using t by (auto simp: takes_def intro: prefixI [OF sym])
  from prefix_of_lines [OF this] obtain k torn where k: "w_file w = file_text ser (take k taken) @ torn"
    "torn = [] \<or> k < length taken \<and> prefix torn (ser (taken ! k))" by blast
  have "prefix (take k taken) acc" by (simp add: acc take_is_prefix prefix_prefix)
  moreover have "prefix (take k taken @ [taken ! k]) acc" if "k < length taken"
    using that by (simp add: acc take_Suc_conv_app_nth [symmetric] take_is_prefix prefix_prefix)
  then have "torn = [] \<or> (\<exists>r. prefix (take k taken @ [r]) acc \<and> prefix torn (ser r))"
    using k(2) by blast
  ultimately have "\<exists>rows torn. w_file w = concat (map (line ser) rows) @ torn \<and> prefix rows acc \<and>
      (torn = [] \<or> (\<exists>r. prefix (rows @ [r]) acc \<and> prefix torn (ser r)))"
    using k(1) unfolding file_text_def by blast
  moreover have "w_status w = Finished st \<Longrightarrow> taken = acc" for st
    using inv t by (auto simp: writer_inv_def takes_def)
  ultimately show ?thesis using inv t by (auto simp: writer_inv_def takes_def file_text_def)
qed

theorem ndjson_rows_complete_witness:
  "\<exists>w. (writer_step (\<lambda>_. [123, 125]))\<^sup>*\<^sup>* (writer_spawn, []) (w, [Run (), Stage ()]) \<and>
     length (w_queue w) \<le> 8192"
proof -
  obtain w where w: "(writer_step (\<lambda>_. [123, 125]))\<^sup>*\<^sup>* (writer_spawn, []) (w, [Run (), Stage ()])"
    using drained_too_early by blast
  from ndjson_rows_complete [OF w] w show ?thesis unfolding TELEMETRY_CHANNEL_CAPACITY_def by blast
qed

text \<open>A spilled row can be torn: the first byte of its line alone in the file.\<close>

lemma torn_row:
  "\<exists>w. (writer_step (\<lambda>_. [123, 125]))\<^sup>*\<^sup>* (writer_spawn, []) (w, [Run ()]) \<and> w_file w = [123]"
proof -
  let ?ser = "\<lambda>_ :: unit row. [123, 125] :: bytes"
  let ?w = "write_row ?ser (Run ()) ((push (Run ()) writer_spawn)\<lparr>w_queue := []\<rparr>)"
  have "(writer_step ?ser)\<^sup>*\<^sup>* (writer_spawn, []) (push (Run ()) writer_spawn, [] @ [Run ()])"
    by (rule step_sends) (simp_all add: writer_defs)
  then have "(writer_step ?ser)\<^sup>*\<^sup>* (writer_spawn, []) (?w, [] @ [Run ()])"
    by (rule step_written [rotated 3]) (simp_all add: writer_defs)
  moreover have "writer_step ?ser (?w, [Run ()]) (?w\<lparr>w_file := w_file ?w @ [123], w_buffer := [125, 10]\<rparr>, [Run ()])"
    by (rule writer_step.spill) (simp add: writer_defs line_def newline_def)
  ultimately have "(writer_step ?ser)\<^sup>*\<^sup>* (writer_spawn, [])
      (?w\<lparr>w_file := w_file ?w @ [123], w_buffer := [125, 10]\<rparr>, [Run ()])"
    by (simp add: rtranclp.rtrancl_into_rtrancl)
  then show ?thesis by (intro exI conjI) (assumption, simp add: writer_defs)
qed

end
