(* ===== verification/Telemetry_Parser.thy ===== *)
theory Telemetry_Parser
  imports F64 Ordered_Map Utf8
begin

text \<open>
  The Prometheus exposition parser (\<open>src/telemetry/parser.rs\<close>). Its byte positions only
  ever stop at ASCII characters, which never occur inside a multi-byte character, so the scans
  are written over characters; where a byte is pushed as a character, the character's UTF-8
  bytes are. The include patterns and \<open>str::parse::<f64>\<close> are parameters.
\<close>

datatype metric_type = Counter | Gauge | HistogramBucket | Summary | Unknown

type_synonym labels = "(ustr, ustr) btree"
type_synonym type_map = "(ustr, metric_type) btree"

record parsed_sample =
  ps_metric :: ustr
  ps_labels :: labels
  ps_value :: f64
  ps_mtype :: metric_type

record parse_result =
  pr_samples :: "parsed_sample list"
  skipped_lines :: nat
  malformed_lines :: nat

datatype sample_outcome = Keep parsed_sample | Skipped | Malformed

record include_set =
  include_is_empty :: bool
  include_is_match :: "ustr \<Rightarrow> bool"

definition map_type :: "ustr \<Rightarrow> metric_type" where
  "map_type ty =
     (let t = to_ascii_lowercase ty in
      if t = lit ''counter'' then Counter
      else if t = lit ''gauge'' then Gauge
      else if t = lit ''histogram'' then HistogramBucket
      else if t = lit ''summary'' then Summary
      else Unknown)"

definition parse_meta :: "ustr \<Rightarrow> type_map \<Rightarrow> type_map" where
  "parse_meta line tm =
     (case strip_prefix (lit ''TYPE '') (trim_start (dropWhile (\<lambda>c. c = 35) line)) of
        Some after \<Rightarrow>
          (case split_whitespace after of
             name # ty # _ \<Rightarrow> bt_insert name (map_type ty) tm
           | _ \<Rightarrow> tm)
      | None \<Rightarrow> tm)"

definition strip_exemplar :: "ustr \<Rightarrow> ustr" where
  "strip_exemplar line =
     (case find_sub (lit '' # '') line of
        Some idx \<Rightarrow>
          (case drop (idx + 3) line of
             c # _ \<Rightarrow> if c = 123 \<or> c = 43 \<or> c = 45 then take idx line else line
           | [] \<Rightarrow> line)
      | None \<Rightarrow> line)"

definition is_metric_name_byte :: "nat \<Rightarrow> bool" where
  "is_metric_name_byte c \<longleftrightarrow> is_ascii_alphanumeric c \<or> c = 95 \<or> c = 58"

text \<open>What stands before the closing brace, and what follows it; 92, 34 and 125 are a
  backslash, a double quote and the brace.\<close>

fun label_close :: "bool \<Rightarrow> bool \<Rightarrow> ustr \<Rightarrow> (ustr \<times> ustr) option" where
  "label_close in_quote escape [] = None"
| "label_close in_quote escape (c # cs) =
     (let next = (\<lambda>q e. map_option (\<lambda>(a, b). (c # a, b)) (label_close q e cs)) in
      if escape then next in_quote False
      else if c = 92 \<and> in_quote then next in_quote True
      else if c = 34 then next (\<not> in_quote) False
      else if c = 125 \<and> \<not> in_quote then Some ([], cs)
      else next in_quote False)"

definition find_label_close :: "ustr \<Rightarrow> (ustr \<times> ustr) option" where
  "find_label_close s =
     (case s of
        c # cs \<Rightarrow> if c = 123 then label_close False False cs else None
      | [] \<Rightarrow> None)"

definition first_token :: "ustr \<Rightarrow> ustr option" where
  "first_token s = hd_opt (split_whitespace s)"

definition split_sample :: "ustr \<Rightarrow> (ustr \<times> ustr option \<times> ustr) option" where
  "split_sample line =
     (let name = takeWhile is_metric_name_byte line;
          rest = trim_start (dropWhile is_metric_name_byte line)
      in if name = [] then None
         else if starts_with [123] rest then
           (case find_label_close rest of
              None \<Rightarrow> None
            | Some (labels, after) \<Rightarrow>
                map_option (\<lambda>value. (name, Some labels, value)) (first_token (trim_start after)))
         else map_option (\<lambda>value. (name, None, value)) (first_token rest))"

definition parse_float :: "(ustr \<Rightarrow> f64 option) \<Rightarrow> ustr \<Rightarrow> f64 option" where
  "parse_float parse_f64 s =
     (if s \<in> {lit ''NaN'', lit ''+NaN'', lit ''-NaN''} then Some NaN
      else if s \<in> {lit ''+Inf'', lit ''Inf''} then Some PInf
      else if s = lit ''-Inf'' then Some NInf
      else parse_f64 s)"

text \<open>A quoted value up to its closing quote; a value that is never closed ends with the input.\<close>

fun scan_value :: "ustr \<Rightarrow> (ustr \<times> ustr) option" where
  "scan_value [] = Some ([], [])"
| "scan_value (c # cs) =
     (if c = 92 then
        (case cs of
           [] \<Rightarrow> None
         | d # ds \<Rightarrow>
             map_option (\<lambda>(v, r). ((if d = 110 then [10] else encode1 d) @ v, r)) (scan_value ds))
      else if c = 34 then Some ([], cs)
      else map_option (\<lambda>(v, r). (encode1 c @ v, r)) (scan_value cs))"

lemma scan_value_shorter: "scan_value s = Some (v, r) \<Longrightarrow> length r \<le> length s"
  by (induction s arbitrary: v r rule: scan_value.induct)
    (fastforce split: if_splits list.splits)+

definition is_label_sep :: "nat \<Rightarrow> bool" where
  "is_label_sep c \<longleftrightarrow> c = 44 \<or> c = 32 \<or> c = 9"

definition is_label_char :: "nat \<Rightarrow> bool" where
  "is_label_char c \<longleftrightarrow> is_ascii_alphanumeric c \<or> c = 95"

text \<open>One key, its \<open>=\<close> and its value: the pair and the rest of the input.\<close>

definition label_pair :: "ustr \<Rightarrow> ((ustr \<times> ustr) \<times> ustr) option" where
  "label_pair s =
     (let key = takeWhile is_label_char s in
      if key = [] then None
      else case dropWhile is_label_char s of
        e # q # r \<Rightarrow>
          if e = 61 \<and> q = 34
          then map_option (\<lambda>(v, r'). ((key, v), r')) (scan_value r) else None
      | _ \<Rightarrow> None)"

lemma label_pair_shorter: "label_pair s = Some (kv, r) \<Longrightarrow> length r < length s"
proof -
  assume "label_pair s = Some (kv, r)"
  then obtain e q u v where d: "dropWhile is_label_char s = e # q # u" and v: "scan_value u = Some (v, r)"
    by (auto simp: label_pair_def Let_def split: if_splits list.splits)
  have "length (dropWhile is_label_char s) \<le> length s" by (rule length_dropWhile_le)
  with d scan_value_shorter [OF v] show ?thesis by simp
qed

function parse_labels_loop :: "ustr \<Rightarrow> labels \<Rightarrow> labels option" where
  "parse_labels_loop s m =
     (if dropWhile is_label_sep s = [] then Some m
      else case label_pair (dropWhile is_label_sep s) of
        None \<Rightarrow> None
      | Some ((k, v), r) \<Rightarrow> parse_labels_loop r (bt_insert k v m))"
  by auto
termination
  by (relation "measure (\<lambda>(s, m). length s)")
    (auto dest!: label_pair_shorter intro: less_le_trans length_dropWhile_le)

declare parse_labels_loop.simps [simp del]

definition parse_labels :: "ustr \<Rightarrow> labels option" where
  "parse_labels raw = parse_labels_loop raw []"

definition family_type :: "type_map \<Rightarrow> ustr \<Rightarrow> metric_type option" where
  "family_type tm name =
     (case option_or (strip_suffix (lit ''_sum'') name) (strip_suffix (lit ''_count'') name) of
        Some base \<Rightarrow> option_filter (\<lambda>t. t \<in> {HistogramBucket, Summary}) (bt_get tm base)
      | None \<Rightarrow> None)"

definition infer_type :: "ustr \<Rightarrow> type_map \<Rightarrow> metric_type" where
  "infer_type name tm =
     (case bt_get tm name of
        Some t \<Rightarrow> t
      | None \<Rightarrow>
          if (case strip_suffix (lit ''_bucket'') name of
                Some base \<Rightarrow> bt_get tm base = Some HistogramBucket | None \<Rightarrow> False)
          then HistogramBucket
          else case family_type tm name of
            Some t \<Rightarrow> t
          | None \<Rightarrow>
              if ends_with (lit ''_total'') name then Counter
              else if ends_with (lit ''_bucket'') name then HistogramBucket
              else Unknown)"

definition parse_sample_line ::
  "(ustr \<Rightarrow> f64 option) \<Rightarrow> ustr \<Rightarrow> type_map \<Rightarrow> include_set \<Rightarrow> sample_outcome" where
  "parse_sample_line parse_f64 line tm incl =
     (case split_sample (strip_exemplar line) of
        None \<Rightarrow> Malformed
      | Some (name, labels, value_str) \<Rightarrow>
          if include_is_empty incl \<or> \<not> include_is_match incl name then Skipped
          else case parse_float parse_f64 value_str of
            None \<Rightarrow> Malformed
          | Some value \<Rightarrow>
              (case (case labels of Some raw \<Rightarrow> parse_labels raw | None \<Rightarrow> Some []) of
                 None \<Rightarrow> Malformed
               | Some m \<Rightarrow>
                   Keep \<lparr>ps_metric = name, ps_labels = m, ps_value = value, ps_mtype = infer_type name tm\<rparr>))"

definition add_outcome :: "sample_outcome \<Rightarrow> parse_result \<Rightarrow> parse_result" where
  "add_outcome oc r =
     (case oc of
        Keep s \<Rightarrow> r\<lparr>pr_samples := pr_samples r @ [s]\<rparr>
      | Skipped \<Rightarrow> r\<lparr>skipped_lines := skipped_lines r + 1\<rparr>
      | Malformed \<Rightarrow> r\<lparr>malformed_lines := malformed_lines r + 1\<rparr>)"

fun exposition_lines ::
  "(ustr \<Rightarrow> f64 option) \<Rightarrow> include_set \<Rightarrow> type_map \<Rightarrow> parse_result \<Rightarrow> ustr list \<Rightarrow> parse_result" where
  "exposition_lines pf incl tm r [] = r"
| "exposition_lines pf incl tm r (raw # ls) =
     (let line = trim raw in
      if line = [] then exposition_lines pf incl tm r ls
      else if line = lit ''# EOF'' then r
      else if starts_with [35] line then exposition_lines pf incl (parse_meta line tm) r ls
      else exposition_lines pf incl tm (add_outcome (parse_sample_line pf line tm incl) r) ls)"

definition parse_exposition :: "(ustr \<Rightarrow> f64 option) \<Rightarrow> ustr \<Rightarrow> include_set \<Rightarrow> parse_result" where
  "parse_exposition pf txt incl =
     exposition_lines pf incl [] \<lparr>pr_samples = [], skipped_lines = 0, malformed_lines = 0\<rparr> (str_lines txt)"

subsection \<open>Rendering a sample\<close>

definition escape_char :: "nat \<Rightarrow> ustr" where
  "escape_char c = (if c = 92 then [92, 92] else if c = 34 then [92, 34] else if c = 10 then [92, 110] else [c])"

definition render_pair :: "ustr \<times> ustr \<Rightarrow> ustr" where
  "render_pair p = fst p @ [61, 34] @ concat (map escape_char (snd p)) @ [34]"

definition render_labels :: "(ustr \<times> ustr) list \<Rightarrow> ustr" where
  "render_labels ps = join [44] (map render_pair ps)"

definition render_sample :: "ustr \<Rightarrow> (ustr \<times> ustr) list \<Rightarrow> ustr \<Rightarrow> ustr" where
  "render_sample name ps value = name @ [123] @ render_labels ps @ [125, 32] @ value"

definition good_pair :: "ustr \<times> ustr \<Rightarrow> bool" where
  "good_pair p \<longleftrightarrow> fst p \<noteq> [] \<and> list_all is_label_char (fst p) \<and> list_all (\<lambda>c. c < 128) (snd p)"

lemma render_labels_Cons:
  "render_labels (p # ps) = render_pair p @ (if ps = [] then [] else 44 # render_labels ps)"
  by (cases ps) (simp_all add: render_labels_def)

lemma scan_value_escape:
  "list_all (\<lambda>c. c < 128) v \<Longrightarrow> scan_value (concat (map escape_char v) @ 34 # r) = Some (v, r)"
  by (induction v) (auto simp: escape_char_def encode1_def)

definition prepend :: "ustr \<Rightarrow> (ustr \<times> ustr) option \<Rightarrow> (ustr \<times> ustr) option" where
  "prepend p = map_option (\<lambda>(a, b). (p @ a, b))"

lemma prepend_simps [simp]:
  "prepend [] x = x" "prepend p (prepend q x) = prepend (p @ q) x" "prepend p (Some (a, b)) = Some (p @ a, b)"
  by (cases x; auto simp: prepend_def)+

lemma prepend_Cons: "map_option (\<lambda>(a, b). (c # a, b)) = prepend [c]"
  by (simp add: prepend_def)

lemma label_close_key: "list_all is_label_char k \<Longrightarrow> label_close False False (k @ s) = prepend k (label_close False False s)"
  by (induction k) (auto simp: is_label_char_def is_ascii_alphanumeric_def Let_def prepend_Cons)

lemma label_close_value:
  "label_close True False (concat (map escape_char v) @ 34 # s) =
    prepend (concat (map escape_char v) @ [34]) (label_close False False s)"
  by (induction v) (auto simp: escape_char_def Let_def prepend_Cons)

lemma label_close_pair:
  "good_pair p \<Longrightarrow> label_close False False (render_pair p @ s) = prepend (render_pair p) (label_close False False s)"
  by (simp add: render_pair_def good_pair_def label_close_key label_close_value prepend_Cons)

lemma label_close_labels:
  "list_all good_pair ps \<Longrightarrow> label_close False False (render_labels ps @ 125 # r) = Some (render_labels ps, r)"
proof (induction ps)
  case (Cons p ps)
  then show ?case by (cases "ps = []") (simp_all add: render_labels_Cons label_close_pair prepend_Cons)
qed (simp add: render_labels_def)

lemma label_pair_render:
  assumes "good_pair p"
  shows "label_pair (render_pair p @ s) = Some (p, s)"
proof -
  have "takeWhile is_label_char (fst p @ 61 # r) = fst p" "dropWhile is_label_char (fst p @ 61 # r) = 61 # r" for r
    using assms by (auto simp: good_pair_def list_all_iff is_label_char_def is_ascii_alphanumeric_def)
  then show ?thesis
    using assms scan_value_escape [of "snd p" s] by (simp add: label_pair_def render_pair_def good_pair_def)
qed

lemma parse_labels_loop_render:
  assumes "list_all good_pair ps"
  shows "parse_labels_loop (render_labels ps) m = Some (fold (\<lambda>(k, v). bt_insert k v) ps m) \<and>
    parse_labels_loop (44 # render_labels ps) m = Some (fold (\<lambda>(k, v). bt_insert k v) ps m)"
  using assms
proof (induction ps arbitrary: m)
  case Nil
  then show ?case
    by (simp add: render_labels_def parse_labels_loop.simps [of "[]"] parse_labels_loop.simps [of "[44]"] is_label_sep_def)
next
  case (Cons p ps)
  obtain k v where p: "p = (k, v)" by (cases p)
  let ?rest = "if ps = [] then [] else 44 # render_labels ps"
  have nil: "parse_labels_loop [] m' = Some m'" for m' by (simp add: parse_labels_loop.simps [of "[]"])
  have rest: "parse_labels_loop ?rest m' = Some (fold (\<lambda>(k, v). bt_insert k v) ps m')" for m'
    using Cons nil by simp
  have k: "k \<noteq> []" "is_label_char (hd k)" using Cons.prems p by (auto simp: good_pair_def list_all_iff)
  then obtain c cs where c: "k = c # cs" "is_label_char c" by (cases k) auto
  then have "\<not> is_label_sep c" by (auto simp: is_label_char_def is_label_sep_def is_ascii_alphanumeric_def)
  then have drop: "dropWhile is_label_sep (render_pair p @ s) = render_pair p @ s"
    "dropWhile is_label_sep (44 # render_pair p @ s) = render_pair p @ s" for s
    using c p by (simp_all add: render_pair_def is_label_sep_def)
  have ne: "render_pair p @ s \<noteq> []" for s by (simp add: render_pair_def)
  have lp: "label_pair (render_pair p @ ?rest) = Some ((k, v), ?rest)"
    using label_pair_render [of p] Cons.prems p by simp
  show ?case unfolding render_labels_Cons
    by (subst (1 2) parse_labels_loop.simps) (simp only: drop ne lp option.case prod.case rest if_False, simp add: p)
qed

lemma first_token_word:
  assumes "value \<noteq> []" "list_all (\<lambda>c. \<not> is_whitespace c) value"
  shows "first_token (trim_start (32 # value)) = Some value"
proof -
  have h: "\<not> is_whitespace (hd value)" using assms by (auto simp: list_all_iff)
  have t2: "trim_start value = value"
    using h assms(1) by (cases "value") (simp_all add: trim_start_def)
  moreover have "is_whitespace 32" by (simp add: is_whitespace_def)
  ultimately have t: "trim_start (32 # value) = value" "trim_start value = value"
    by (simp_all add: trim_start_def)
  have "takeWhile (\<lambda>c. \<not> is_whitespace c) value = value"
    using assms(2) by (simp add: takeWhile_eq_all_conv list_all_iff)
  then show ?thesis
    unfolding t(1) using assms(1) by (subst first_token_def, subst split_whitespace.simps) (simp add: t(2) hd_opt_def)
qed

lemma split_sample_render:
  assumes "name \<noteq> []" "list_all is_metric_name_byte name" "list_all good_pair ps"
    "value \<noteq> []" "list_all (\<lambda>c. \<not> is_whitespace c) value"
  shows "split_sample (render_sample name ps value) = Some (name, Some (render_labels ps), value)"
proof -
  have "takeWhile is_metric_name_byte (name @ 123 # s) = name"
    "dropWhile is_metric_name_byte (name @ 123 # s) = 123 # s" for s
    using assms(2) by (auto simp: list_all_iff is_metric_name_byte_def is_ascii_alphanumeric_def)
  then show ?thesis
    using assms first_token_word [OF assms(4,5)] label_close_labels [OF assms(3), of "32 # value"]
    by (simp add: split_sample_def render_sample_def trim_start_def is_whitespace_def starts_with_def
      find_label_close_def)
qed

lemma exemplar_in_value:
  "parse_sample_line (\<lambda>_. Some (Fin 1)) (lit ''m{a='' @ [34] @ lit ''x # {'' @ [34] @ lit ''} 1'') []
     \<lparr>include_is_empty = False, include_is_match = (\<lambda>_. True)\<rparr> = Malformed"
  by code_simp

lemma label_bytes_mangled: "parse_labels (lit ''k='' @ [34, 233, 34]) = Some [(lit ''k'', [195, 169])]"
  by code_simp

subsection \<open>Properties\<close>

text \<open>
C26: A rendered sample parses back: for a metric name, any labels with ASCII values (quotes,
backslashes and line feeds escaped) and a value token the number parser accepts, the line is
kept with that name, exactly those labels (the last of equal keys) and that value, and its type
is the one declared for the name. The line may not contain the exemplar separator, and the include
list of the source must match the name.
\<close>

theorem sample_line_roundtrip:
  assumes "name \<noteq> []" "list_all is_metric_name_byte name" "list_all good_pair ps"
    "value \<noteq> []" "list_all (\<lambda>c. \<not> is_whitespace c) value" "parse_float pf value = Some x"
    "find_sub (lit '' # '') (render_sample name ps value) = None"
    "\<not> include_is_empty incl" "include_is_match incl name"
  shows "\<exists>s. parse_sample_line pf (render_sample name ps value) tm incl = Keep s \<and>
    ps_metric s = name \<and> ps_value s = x \<and>
    (\<forall>k. bt_get (ps_labels s) k = map_of (rev ps) k) \<and>
    (case bt_get tm name of Some t \<Rightarrow> ps_mtype s = t | None \<Rightarrow> ps_mtype s = infer_type name tm)"
proof -
  let ?m = "fold (\<lambda>(k, v). bt_insert k v) ps []"
  have "strip_exemplar (render_sample name ps value) = render_sample name ps value"
    using assms(7) by (simp add: strip_exemplar_def)
  then have "parse_sample_line pf (render_sample name ps value) tm incl =
      Keep \<lparr>ps_metric = name, ps_labels = ?m, ps_value = x, ps_mtype = infer_type name tm\<rparr>"
    using split_sample_render [OF assms(1-5)] parse_labels_loop_render [OF assms(3), of "[]"] assms(6,8,9)
    by (simp add: parse_sample_line_def parse_labels_def)
  moreover have "bt_get (fold (\<lambda>(k, v). bt_insert k v) ps m) k =
      (case map_of (rev ps) k of Some v \<Rightarrow> Some v | None \<Rightarrow> bt_get m k)" for m k
    by (induction ps arbitrary: m) (auto simp: bt_get_insert map_add_def split: option.split)
  then have "\<forall>k. bt_get ?m k = map_of (rev ps) k"
    by (simp add: btree.get_emp split: option.split)
  ultimately show ?thesis by (auto simp: infer_type_def split: option.split)
qed

theorem sample_line_roundtrip_witness:
  "\<exists>s. parse_sample_line (\<lambda>_. Some (Fin 3)) (render_sample (lit ''m_total'') [(lit ''k'', [34, 10, 92])] (lit ''3''))
       [] \<lparr>include_is_empty = False, include_is_match = (\<lambda>_. True)\<rparr> = Keep s \<and>
     ps_value s = Fin 3 \<and> bt_get (ps_labels s) (lit ''k'') = Some [34, 10, 92]"
proof -
  have h: "lit ''m_total'' \<noteq> []" "list_all is_metric_name_byte (lit ''m_total'')"
    "list_all good_pair [(lit ''k'', [34, 10, 92])]" "lit ''3'' \<noteq> []" "list_all (\<lambda>c. \<not> is_whitespace c) (lit ''3'')"
    "parse_float (\<lambda>_. Some (Fin 3)) (lit ''3'') = Some (Fin 3)"
    "find_sub (lit '' # '') (render_sample (lit ''m_total'') [(lit ''k'', [34, 10, 92])] (lit ''3'')) = None"
    by code_simp+
  from sample_line_roundtrip [OF h, of "\<lparr>include_is_empty = False, include_is_match = (\<lambda>_. True)\<rparr>" "[]"]
  show ?thesis by (auto simp: fun_upd_def)
qed

end
