(* ===== verification/Telemetry_Scraper.thy ===== *)
theory Telemetry_Scraper
  imports Telemetry_Parser
begin

text \<open>
  Telemetry sources and scraping (\<open>src/telemetry/config.rs\<close>, \<open>src/telemetry/scraper.rs\<close>):
  the source configuration and its validation, one scrape with its failure policy, units, and
  the bounded per-source history of sample times. The regular expressions, the HTTP exchange and
  the number parser are parameters; a panic is \<open>None\<close>.
\<close>

subsection \<open>Configuration\<close>

definition MIN_INTERVAL_MS :: nat where "MIN_INTERVAL_MS = 100"
definition DEFAULT_TIMEOUT_MS :: nat where "DEFAULT_TIMEOUT_MS = 800"
definition DEFAULT_MAX_BODY_BYTES :: nat where "DEFAULT_MAX_BODY_BYTES = 16 * 1024 * 1024"

record unit_scale =
  us_scale :: f64
  us_unit :: ustr

record telemetry_source =
  ts_name :: ustr
  ts_url :: ustr
  ts_interval_ms :: "nat option"
  ts_include :: "ustr list"
  ts_units :: "(ustr, unit_scale) btree"
  ts_bearer_env :: "ustr option"
  ts_basic_auth_env :: "ustr option"
  ts_insecure_tls :: bool
  ts_allow_empty :: bool

record telemetry_config =
  default_interval_ms :: nat
  timeout_ms :: nat
  max_body_bytes :: nat
  tc_sources :: "telemetry_source list"

record compiled_source =
  cs_name :: ustr
  cs_url :: ustr
  cs_interval_ms :: nat
  cs_include :: include_set
  cs_units :: "(ustr, unit_scale) btree"
  cs_bearer_env :: "ustr option"
  cs_basic_auth_env :: "ustr option"
  cs_insecure_tls :: bool
  cs_allow_empty :: bool

datatype config_error =
    NoSources
  | ZeroTimeout
  | ZeroMaxBody
  | EmptyName
  | DuplicateName ustr
  | EmptyUrl ustr
  | EmptyInclude ustr
  | IntervalTooShort ustr nat
  | BadRegex ustr
  | NoSuchSource ustr

definition from_metrics_url :: "ustr list \<Rightarrow> ustr \<Rightarrow> nat \<Rightarrow> telemetry_config" where
  "from_metrics_url engine_include_patterns url interval_ms =
     \<lparr>default_interval_ms = max interval_ms MIN_INTERVAL_MS, timeout_ms = DEFAULT_TIMEOUT_MS,
      max_body_bytes = DEFAULT_MAX_BODY_BYTES,
      tc_sources =
        [\<lparr>ts_name = lit ''engine'', ts_url = url, ts_interval_ms = Some (max interval_ms MIN_INTERVAL_MS),
          ts_include = engine_include_patterns, ts_units = [], ts_bearer_env = None,
          ts_basic_auth_env = None, ts_insecure_tls = False, ts_allow_empty = False\<rparr>]\<rparr>"

definition check_source ::
  "(ustr list \<Rightarrow> include_set option) \<Rightarrow> nat \<Rightarrow> ustr list \<Rightarrow> telemetry_source \<Rightarrow> config_error + unit" where
  "check_source regex_set default_interval names src =
     (let n = ts_name src; interval = unwrap_or (ts_interval_ms src) default_interval in
      if n = [] then Inl EmptyName
      else if n \<in> set names then Inl (DuplicateName n)
      else if ts_url src = [] then Inl (EmptyUrl n)
      else if ts_include src = [] then Inl (EmptyInclude n)
      else if interval < MIN_INTERVAL_MS then Inl (IntervalTooShort n interval)
      else case regex_set (ts_include src) of None \<Rightarrow> Inl (BadRegex n) | Some _ \<Rightarrow> Inr ())"

fun check_sources ::
  "(ustr list \<Rightarrow> include_set option) \<Rightarrow> nat \<Rightarrow> ustr list \<Rightarrow> telemetry_source list \<Rightarrow> config_error + unit" where
  "check_sources regex_set d names [] = Inr ()"
| "check_sources regex_set d names (src # rest) =
     (case check_source regex_set d names src of
        Inl e \<Rightarrow> Inl e
      | Inr _ \<Rightarrow> check_sources regex_set d (ts_name src # names) rest)"

definition validate :: "(ustr list \<Rightarrow> include_set option) \<Rightarrow> telemetry_config \<Rightarrow> config_error + unit" where
  "validate regex_set cfg =
     (if tc_sources cfg = [] then Inl NoSources
      else if timeout_ms cfg = 0 then Inl ZeroTimeout
      else if max_body_bytes cfg = 0 then Inl ZeroMaxBody
      else check_sources regex_set (default_interval_ms cfg) [] (tc_sources cfg))"

definition compile_source ::
  "(ustr list \<Rightarrow> include_set option) \<Rightarrow> telemetry_config \<Rightarrow> telemetry_source \<Rightarrow> config_error + compiled_source" where
  "compile_source regex_set cfg src =
     (case regex_set (ts_include src) of
        None \<Rightarrow> Inl (BadRegex (ts_name src))
      | Some incl \<Rightarrow>
          Inr \<lparr>cs_name = ts_name src, cs_url = ts_url src,
               cs_interval_ms = max (unwrap_or (ts_interval_ms src) (default_interval_ms cfg)) MIN_INTERVAL_MS,
               cs_include = incl, cs_units = ts_units src, cs_bearer_env = ts_bearer_env src,
               cs_basic_auth_env = ts_basic_auth_env src, cs_insecure_tls = ts_insecure_tls src,
               cs_allow_empty = ts_allow_empty src\<rparr>)"

fun compile_sources ::
  "(ustr list \<Rightarrow> include_set option) \<Rightarrow> telemetry_config \<Rightarrow> telemetry_source list \<Rightarrow>
     config_error + compiled_source list" where
  "compile_sources regex_set cfg [] = Inr []"
| "compile_sources regex_set cfg (src # rest) =
     (case compile_source regex_set cfg src of
        Inl e \<Rightarrow> Inl e
      | Inr c \<Rightarrow> (case compile_sources regex_set cfg rest of Inl e \<Rightarrow> Inl e | Inr cs \<Rightarrow> Inr (c # cs)))"

definition compile :: "(ustr list \<Rightarrow> include_set option) \<Rightarrow> telemetry_config \<Rightarrow> config_error + compiled_source list" where
  "compile regex_set cfg =
     (case validate regex_set cfg of
        Inl e \<Rightarrow> Inl e
      | Inr _ \<Rightarrow> compile_sources regex_set cfg (tc_sources cfg))"

definition preview_source_selection ::
  "(ustr \<Rightarrow> f64 option) \<Rightarrow> (ustr list \<Rightarrow> include_set option) \<Rightarrow> telemetry_config \<Rightarrow> ustr \<Rightarrow> ustr \<Rightarrow>
     config_error + ustr list" where
  "preview_source_selection pf regex_set cfg source_name exposition =
     (case compile regex_set cfg of
        Inl e \<Rightarrow> Inl e
      | Inr sources \<Rightarrow>
          (case find (\<lambda>s. cs_name s = source_name) sources of
             None \<Rightarrow> Inl (NoSuchSource source_name)
           | Some s \<Rightarrow>
               Inr (remdups_adj (sort (map ps_metric (pr_samples (parse_exposition pf exposition (cs_include s))))))))"

subsection \<open>The exchange\<close>

text \<open>What a request came to: an error of the client with its text, or a response.\<close>

datatype http_result =
    RequestFailed ustr
  | HttpResponse nat ustr bytes "int option"

datatype fetch_error =
    Transport ustr
  | HttpStatus nat ustr ustr
  | BodyTooLarge ustr nat nat

definition truncate_text :: "ustr \<Rightarrow> nat \<Rightarrow> ustr option" where
  "truncate_text s n = (if str_len s \<le> n then Some s else map_option (\<lambda>t. t @ [8230]) (slice_to n s))"

definition fetch_body ::
  "compiled_source \<Rightarrow> nat \<Rightarrow> http_result \<Rightarrow> (fetch_error + ustr \<times> int option \<times> nat) option" where
  "fetch_body src max_bytes r =
     (case r of
        RequestFailed e \<Rightarrow> Some (Inl (Transport e))
      | HttpResponse status txt body offset \<Rightarrow>
          if \<not> (200 \<le> status \<and> status < 300)
          then map_option (\<lambda>t. Inl (HttpStatus status (cs_name src) t)) (truncate_text txt 200)
          else if max_bytes < length body then Some (Inl (BodyTooLarge (cs_name src) (length body) max_bytes))
          else Some (Inr (from_utf8_lossy body, offset, status)))"

definition fetch_message :: "fetch_error \<Rightarrow> ustr" where
  "fetch_message e =
     (case e of
        Transport m \<Rightarrow> m
      | HttpStatus status name t \<Rightarrow> lit ''HTTP '' @ show_nat status @ lit '' from '' @ name @ lit '': '' @ t
      | BodyTooLarge name n m \<Rightarrow>
          lit ''telemetry source '' @ name @ lit '' response '' @ show_nat n @
          lit '' bytes exceeds max_body_bytes '' @ show_nat m)"

definition extract_http_status :: "ustr \<Rightarrow> nat option" where
  "extract_http_status msg =
     (case strip_prefix (lit ''HTTP '') msg of
        Some rest \<Rightarrow> Option.bind (hd_opt (split_whitespace rest)) (\<lambda>s. option_filter (\<lambda>n. n < 65536) (parse_u64 s))
      | None \<Rightarrow> None)"

definition guess_unit :: "ustr \<Rightarrow> string" where
  "guess_unit metric =
     (let m = to_ascii_lowercase metric in
      if contains_sub (lit ''watts'') m \<or> ends_with (lit ''_w'') m \<or> contains_sub (lit ''power_usage'') m then ''W''
      else if contains_sub (lit ''celsius'') m \<or> contains_sub (lit ''_temp'') m then ''C''
      else if contains_sub (lit ''joules'') m \<or> ends_with (lit ''_j'') m then ''J''
      else if contains_sub (lit ''bytes'') m then ''B''
      else ''1'')"

definition F64_EPSILON :: f64 where
  "F64_EPSILON = Fin (1 / 2 ^ 52)"

definition apply_units :: "compiled_source \<Rightarrow> ustr \<Rightarrow> f64 \<Rightarrow> f64 \<times> ustr \<times> f64 option" where
  "apply_units src metric v =
     (case bt_get (cs_units src) metric of
        Some sc \<Rightarrow>
          (fmul v (us_scale sc), us_unit sc,
           if flt F64_EPSILON (fabs (fsub (us_scale sc) (Fin 1))) then Some v else None)
      | None \<Rightarrow> (v, lit (guess_unit metric), None))"

subsection \<open>Sample times\<close>

record sample_history =
  sh_samples :: "(ustr, nat list) btree"
  sh_caps :: "(ustr, nat) btree"

definition SAMPLE_HISTORY_FALLBACK_CAP :: nat where "SAMPLE_HISTORY_FALLBACK_CAP = 256"
definition SAMPLE_HISTORY_MAX_CAP :: nat where "SAMPLE_HISTORY_MAX_CAP = 65536"

text \<open>\<open>as usize\<close> keeps the low 64 bits; the addition saturates.\<close>

definition sample_history_cap :: "nat \<Rightarrow> nat \<Rightarrow> nat" where
  "sample_history_cap interval_ms request_timeout_s =
     (let i = max interval_ms 1;
          span = (request_timeout_s + 60) * 1000;
          cap = min (((span + i - 1) div i) mod 2 ^ 64 + 2) (2 ^ 64 - 1)
      in min cap SAMPLE_HISTORY_MAX_CAP)"

definition new_sample_history :: "(ustr, nat) btree \<Rightarrow> sample_history" where
  "new_sample_history caps = \<lparr>sh_samples = [], sh_caps = caps\<rparr>"

function pop_to_cap :: "nat \<Rightarrow> nat list \<Rightarrow> nat list" where
  "pop_to_cap cap dq = (if cap < length dq then pop_to_cap cap (tl dq) else dq)"
  by auto
termination
  by (relation "measure (\<lambda>(cap, dq). length dq)") auto

declare pop_to_cap.simps [simp del]

definition note_sample :: "ustr \<Rightarrow> nat \<Rightarrow> sample_history \<Rightarrow> sample_history" where
  "note_sample source t_ns h =
     (let cap = unwrap_or (bt_get (sh_caps h) source) SAMPLE_HISTORY_FALLBACK_CAP;
          dq = unwrap_or (bt_get (sh_samples h) source) []
      in h\<lparr>sh_samples := bt_insert source (pop_to_cap cap (dq @ [t_ns])) (sh_samples h)\<rparr>)"

definition sample_at_or_before :: "ustr \<Rightarrow> nat \<Rightarrow> sample_history \<Rightarrow> nat option" where
  "sample_at_or_before source t_ns h =
     Option.bind (bt_get (sh_samples h) source) (\<lambda>dq. find (\<lambda>t. t \<le> t_ns) (rev dq))"

subsection \<open>Scrapes\<close>

record telemetry_row =
  tr_run_id :: ustr
  tr_t_ns :: nat
  tr_src :: ustr
  tr_metric :: ustr
  tr_labels :: labels
  tr_value :: f64
  tr_unit :: ustr
  tr_mtype :: metric_type
  tr_scrape_ms :: f64
  tr_raw :: "f64 option"
  tr_boundary :: "ustr option"

record scrape_error_row =
  se_run_id :: ustr
  se_t_ns :: nat
  se_src :: ustr
  se_http_status :: "nat option"
  se_error :: ustr
  se_boundary :: "ustr option"

record scraper =
  sc_failures :: "32 word"
  sc_history :: sample_history
  sc_rows :: "telemetry_row list"
  sc_errors :: "scrape_error_row list"
  sc_stop :: bool

definition sample_row ::
  "compiled_source \<Rightarrow> ustr \<Rightarrow> nat \<Rightarrow> f64 \<Rightarrow> ustr option \<Rightarrow> parsed_sample \<Rightarrow> telemetry_row" where
  "sample_row src run_id t_ns scrape_ms boundary s =
     (case apply_units src (ps_metric s) (ps_value s) of
        (value, unit, raw) \<Rightarrow>
          \<lparr>tr_run_id = run_id, tr_t_ns = t_ns, tr_src = cs_name src, tr_metric = ps_metric s,
           tr_labels = ps_labels s, tr_value = value, tr_unit = unit, tr_mtype = ps_mtype s,
           tr_scrape_ms = scrape_ms, tr_raw = raw, tr_boundary = boundary\<rparr>)"

definition error_row ::
  "compiled_source \<Rightarrow> ustr \<Rightarrow> nat \<Rightarrow> ustr option \<Rightarrow> fetch_error \<Rightarrow> scrape_error_row" where
  "error_row src run_id t_ns boundary e =
     \<lparr>se_run_id = run_id, se_t_ns = t_ns, se_src = cs_name src,
      se_http_status = extract_http_status (fetch_message e), se_error = fetch_message e,
      se_boundary = boundary\<rparr>"

text \<open>The rows of a successful fetch; the sample time is noted once, and only when a series matched.\<close>

definition scrape_ok ::
  "(ustr \<Rightarrow> f64 option) \<Rightarrow> compiled_source \<Rightarrow> ustr \<Rightarrow> nat \<Rightarrow> f64 \<Rightarrow> ustr option \<Rightarrow> ustr \<Rightarrow>
     scraper \<Rightarrow> nat \<times> scraper" where
  "scrape_ok pf src run_id t_ns scrape_ms boundary txt s =
     (let samples = pr_samples (parse_exposition pf txt (cs_include src));
          s1 = (if samples \<noteq> [] then s\<lparr>sc_history := note_sample (cs_name src) t_ns (sc_history s)\<rparr> else s)
      in (length samples,
          s1\<lparr>sc_rows := sc_rows s1 @ map (sample_row src run_id t_ns scrape_ms boundary) samples\<rparr>))"

text \<open>One tick of the scrape loop: the new state, and the failure count when the loop gives up.\<close>

definition scrape_tick ::
  "(ustr \<Rightarrow> f64 option) \<Rightarrow> compiled_source \<Rightarrow> nat \<Rightarrow> ustr \<Rightarrow> bool \<Rightarrow> 32 word \<Rightarrow>
     nat \<times> f64 \<times> http_result \<Rightarrow> scraper \<Rightarrow> (32 word option \<times> scraper) option" where
  "scrape_tick pf src max_body run_id require_telemetry require_failures tick s =
     (case tick of (t_ns, scrape_ms, response) \<Rightarrow>
        (case fetch_body src max_body response of
           None \<Rightarrow> None
         | Some (Inr (txt, _, _)) \<Rightarrow>
             Some (None, snd (scrape_ok pf src run_id t_ns scrape_ms None txt (s\<lparr>sc_failures := 0\<rparr>)))
         | Some (Inl e) \<Rightarrow>
             (let failures = sc_failures s + 1;
                  s1 = s\<lparr>sc_failures := failures,
                         sc_errors := sc_errors s @ [error_row src run_id t_ns None e]\<rparr>
              in if require_telemetry \<and> require_failures \<le> failures
                 then Some (Some failures, s1\<lparr>sc_stop := True\<rparr>)
                 else Some (None, s1))))"

text \<open>The loop over the ticks that come before the stop flag is seen.\<close>

fun scrape_loop ::
  "(ustr \<Rightarrow> f64 option) \<Rightarrow> compiled_source \<Rightarrow> nat \<Rightarrow> ustr \<Rightarrow> bool \<Rightarrow> 32 word \<Rightarrow>
     (nat \<times> f64 \<times> http_result) list \<Rightarrow> scraper \<Rightarrow> (32 word option \<times> scraper) option" where
  "scrape_loop pf src mb rid rt rf [] s = Some (None, s)"
| "scrape_loop pf src mb rid rt rf (t # ts) s =
     (if sc_stop s then Some (None, s)
      else case scrape_tick pf src mb rid rt rf t s of
        None \<Rightarrow> None
      | Some (Some n, s') \<Rightarrow> Some (Some n, s')
      | Some (None, s') \<Rightarrow> scrape_loop pf src mb rid rt rf ts s')"

definition spawn_require_failures :: "32 word \<Rightarrow> 32 word" where
  "spawn_require_failures n = max n 1"

definition boundary_scrape_once ::
  "(ustr \<Rightarrow> f64 option) \<Rightarrow> compiled_source \<Rightarrow> nat \<Rightarrow> ustr \<Rightarrow> ustr \<Rightarrow>
     nat \<times> f64 \<times> http_result \<Rightarrow> scraper \<Rightarrow> ((fetch_error + nat) \<times> scraper) option" where
  "boundary_scrape_once pf src max_body run_id boundary tick s =
     (case tick of (t_ns, scrape_ms, response) \<Rightarrow>
        map_option (\<lambda>r. case r of
            Inl e \<Rightarrow> (Inl e, s)
          | Inr (txt, _, _) \<Rightarrow>
              (case scrape_ok pf src run_id t_ns scrape_ms (Some boundary) txt s of
                 (matched, s') \<Rightarrow> (Inr matched, s')))
          (fetch_body src max_body response))"

definition boundary_scrape_error ::
  "compiled_source \<Rightarrow> ustr \<Rightarrow> ustr \<Rightarrow> nat \<Rightarrow> fetch_error \<Rightarrow> scraper \<Rightarrow> scraper" where
  "boundary_scrape_error src run_id boundary t_ns e s =
     s\<lparr>sc_errors := sc_errors s @ [error_row src run_id t_ns (Some boundary) e]\<rparr>"

record source_stamp =
  st_name :: ustr
  st_url :: ustr
  st_interval_ms :: nat
  st_clock_offset_ms :: "int option"
  st_matched_series :: "nat option"

datatype probe_error = ProbeFetch fetch_error | NoMatchedSeries ustr

fun probe_sources ::
  "(ustr \<Rightarrow> f64 option) \<Rightarrow> nat \<Rightarrow> (compiled_source \<Rightarrow> http_result) \<Rightarrow> compiled_source list \<Rightarrow>
     (probe_error + source_stamp list) option" where
  "probe_sources pf max_body respond [] = Some (Inr [])"
| "probe_sources pf max_body respond (src # rest) =
     (case fetch_body src max_body (respond src) of
        None \<Rightarrow> None
      | Some (Inl e) \<Rightarrow> Some (Inl (ProbeFetch e))
      | Some (Inr (txt, offset, _)) \<Rightarrow>
          (let matched = length (pr_samples (parse_exposition pf txt (cs_include src))) in
           if matched = 0 \<and> \<not> cs_allow_empty src then Some (Inl (NoMatchedSeries (cs_name src)))
           else map_option (map_sum id (Cons
               \<lparr>st_name = cs_name src, st_url = cs_url src, st_interval_ms = cs_interval_ms src,
                st_clock_offset_ms = offset, st_matched_series = Some matched\<rparr>))
             (probe_sources pf max_body respond rest)))"

subsection \<open>The history keeps what a request needs\<close>

lemma pop_to_cap_drop: "pop_to_cap cap dq = drop (length dq - cap) dq"
proof (induction cap dq rule: pop_to_cap.induct)
  case (1 cap dq)
  show ?case
  proof (cases "cap < length dq")
    case True
    then have "length dq - cap = Suc (length (tl dq) - cap)" by (cases dq) auto
    then have "drop (length dq - cap) dq = drop (length (tl dq) - cap) (tl dq)" by (simp add: drop_Suc)
    then show ?thesis using 1 [OF True] True by (subst pop_to_cap.simps) simp
  qed (subst pop_to_cap.simps, simp)
qed

definition history_dq :: "ustr \<Rightarrow> sample_history \<Rightarrow> nat list" where
  "history_dq source h = unwrap_or (bt_get (sh_samples h) source) []"

definition history_cap :: "ustr \<Rightarrow> sample_history \<Rightarrow> nat" where
  "history_cap source h = unwrap_or (bt_get (sh_caps h) source) SAMPLE_HISTORY_FALLBACK_CAP"

definition newest :: "nat \<Rightarrow> nat list \<Rightarrow> nat list" where
  "newest n xs = drop (length xs - n) xs"

lemma newest_append: "newest n (newest n xs @ ys) = newest n (xs @ ys)"
proof (cases "length xs \<le> n")
  case False
  then have "length (newest n xs @ ys) - n = length ys" by (simp add: newest_def)
  moreover have "length (xs @ ys) - n = length ys + (length xs - n)" using False by simp
  moreover have "length ys + (length xs - n) - length xs = length ys - n" using False by simp
  moreover have "length (newest n xs) = n" using False by (simp add: newest_def)
  ultimately show ?thesis
    unfolding newest_def [of n "newest n xs @ ys"] newest_def [of n "xs @ ys"]
    by (simp only: drop_append) (simp add: newest_def)
qed (simp add: newest_def)

lemma note_sample_dq:
  "history_dq s' (note_sample s t h) =
     (if s' = s then newest (history_cap s h) (history_dq s h @ [t]) else history_dq s' h)"
  "history_cap s' (note_sample s t h) = history_cap s' h"
  by (simp_all add: history_dq_def history_cap_def note_sample_def Let_def bt_get_insert pop_to_cap_drop newest_def)

text \<open>All samples of a run, noted in turn.\<close>

definition note_all :: "(ustr \<times> nat) list \<Rightarrow> sample_history \<Rightarrow> sample_history" where
  "note_all evs h = fold (\<lambda>(s, t). note_sample s t) evs h"

definition times_of :: "ustr \<Rightarrow> (ustr \<times> nat) list \<Rightarrow> nat list" where
  "times_of source evs = map snd (filter (\<lambda>p. fst p = source) evs)"

lemma note_all_dq:
  assumes "newest (history_cap s h) (history_dq s h) = history_dq s h"
  shows "history_dq s (note_all evs h) = newest (history_cap s h) (history_dq s h @ times_of s evs)"
  using assms
proof (induction evs arbitrary: h)
  case (Cons e evs)
  obtain s' t where e: "e = (s', t)" by (cases e)
  let ?h = "note_sample s' t h"
  have "newest (history_cap s ?h) (history_dq s ?h) = history_dq s ?h"
    using Cons.prems newest_append [of "history_cap s h" _ "[]"] by (auto simp: note_sample_dq)
  from Cons.IH [OF this] show ?case
    using newest_append [of "history_cap s h" "history_dq s h @ [t]" "times_of s evs"]
    by (auto simp: note_all_def e times_of_def note_sample_dq)
qed (simp add: note_all_def times_of_def)

lemma buckets_grow:
  assumes "successively (\<lambda>a b. f a < (f b :: nat)) ts" "i \<le> j" "j < length ts"
  shows "f (ts ! i) + (j - i) \<le> f (ts ! j)"
  using assms(2,3)
proof (induction j)
  case (Suc j)
  show ?case
  proof (cases "i = Suc j")
    case False
    have "f (ts ! j) < f (ts ! Suc j)" using assms(1) Suc.prems by (simp add: successively_conv_nth)
    then show ?thesis using Suc False by simp
  qed simp
qed simp

text \<open>The oldest of the newest \<open>n + 2\<close> samples is at least \<open>n\<close> ticker periods old.\<close>

lemma newest_reaches_back:
  assumes "successively (\<lambda>a b. (a - t0) div d < (b - t0) div d) ts" "0 < d" "n + 2 < length ts"
  shows "\<exists>x \<in> set (newest (n + 2) ts). x + n * d \<le> last ts"
proof -
  let ?k = "length ts - (n + 2)" and ?m = "length ts - 1"
  let ?x = "ts ! ?k" and ?y = "ts ! ?m"
  have g: "(?x - t0) div d + (n + 1) \<le> (?y - t0) div d"
    using buckets_grow [OF assms(1), of ?k ?m] assms(3) by simp
  have "?x - t0 < ((?x - t0) div d + 1) * d" using assms(2) dividend_less_div_times by simp
  also have "\<dots> + n * d = ((?x - t0) div d + (n + 1)) * d" by (simp add: algebra_simps)
  finally have "?x - t0 + n * d < ((?x - t0) div d + (n + 1)) * d" by simp
  also have "\<dots> \<le> (?y - t0) div d * d" using g by (rule mult_le_mono1)
  also have "\<dots> \<le> ?y - t0" by (rule div_times_less_eq_dividend)
  finally have "?x + n * d \<le> ?y" by linarith
  moreover have "?x \<in> set (newest (n + 2) ts)"
    using assms(3) by (auto simp: newest_def in_set_conv_nth intro!: exI [of _ 0])
  moreover have "?y = last ts" using assms(3) by (cases "ts = []") (simp_all add: last_conv_nth)
  ultimately show ?thesis by auto
qed

lemma ceil_div_times: "1 \<le> i \<Longrightarrow> a \<le> (a + i - 1) div i * (i :: nat)"
proof -
  assume "1 \<le> i"
  then have "a + i - 1 < (a + i - 1) div i * i + i"
    using dividend_less_div_times [of i "a + i - 1"] by (simp add: add.commute)
  then show ?thesis using \<open>1 \<le> i\<close> by linarith
qed

lemma find_newest:
  assumes "x \<in> set (newest n ts)" "p x"
  shows "find p (rev (newest n ts)) = find p (rev ts)"
proof -
  have "rev ts = rev (newest n ts) @ rev (take (length ts - n) ts)"
    unfolding newest_def by (metis append_take_drop_id rev_append)
  moreover have "find p (rev (newest n ts)) \<noteq> None" using assms by (auto simp: find_None_iff)
  ultimately show ?thesis by (auto simp: find_append)
qed

subsection \<open>Properties\<close>

text \<open>
C30: The bounded sample history answers like an unbounded one for every request that can still ask.
For a source whose capacity was computed from its interval and the request timeout (and not
clamped), whatever other sources record: when at most one sample is taken per ticker period and a
request was sent no longer than the timeout plus one minute before the newest sample, the newest
sample at or before the send time is found, and is the one the full history has.
\<close>

theorem sample_history_sufficient:
  assumes "1 \<le> interval" "bt_get caps source = Some (sample_history_cap interval timeout)"
    "((timeout + 60) * 1000 + interval - 1) div interval + 2 \<le> SAMPLE_HISTORY_MAX_CAP"
    "successively (\<lambda>a b. (a - t0) div (interval * 1000000) < (b - t0) div (interval * 1000000)) (times_of source evs)"
    "last (times_of source evs) \<le> t + (timeout + 60) * 1000000000"
  shows "sample_at_or_before source t (note_all evs (new_sample_history caps)) =
     find (\<lambda>x. x \<le> t) (rev (times_of source evs)) \<and>
    length (history_dq source (note_all evs (new_sample_history caps))) \<le> SAMPLE_HISTORY_MAX_CAP"
proof -
  let ?ts = "times_of source evs" and ?h = "new_sample_history caps"
  let ?n = "((timeout + 60) * 1000 + interval - 1) div interval"
  have n: "?n + 2 \<le> 65536" using assms(3) by (simp add: SAMPLE_HISTORY_MAX_CAP_def)
  have cap: "history_cap source ?h = ?n + 2"
    using assms(1,2) n by (simp add: history_cap_def new_sample_history_def sample_history_cap_def Let_def
      SAMPLE_HISTORY_MAX_CAP_def max_def)
  have "history_dq source ?h = []" by (simp add: history_dq_def new_sample_history_def btree.get_emp)
  then have dq: "history_dq source (note_all evs ?h) = newest (?n + 2) ?ts"
    using note_all_dq [of source ?h evs] cap by (simp add: newest_def)
  have "sample_at_or_before source t h = find (\<lambda>x. x \<le> t) (rev (history_dq source h))" for h
    by (cases "bt_get (sh_samples h) source") (simp_all add: sample_at_or_before_def history_dq_def)
  moreover have "find (\<lambda>x. x \<le> t) (rev (newest (?n + 2) ?ts)) = find (\<lambda>x. x \<le> t) (rev ?ts)"
  proof (cases "?n + 2 < length ?ts")
    case True
    from newest_reaches_back [OF assms(4) _ True] assms(1)
    obtain x where x: "x \<in> set (newest (?n + 2) ?ts)" "x + ?n * (interval * 1000000) \<le> last ?ts" by auto
    have "(timeout + 60) * 1000 \<le> ?n * interval"
      by (rule ceil_div_times [OF assms(1)])
    then have "(timeout + 60) * 1000000000 \<le> ?n * (interval * 1000000)" by simp
    then have "x \<le> t" using x(2) assms(5) by linarith
    from find_newest [OF x(1), of "\<lambda>x. x \<le> t", OF this] show ?thesis .
  qed (simp add: newest_def)
  ultimately show ?thesis
    using dq n by (simp add: newest_def SAMPLE_HISTORY_MAX_CAP_def)
qed

theorem sample_history_sufficient_witness:
  "sample_at_or_before [1] 7000000000 (note_all [([1], 0), ([2], 5), ([1], 1000000000), ([1], 5500000000)]
      (new_sample_history [([1], sample_history_cap 1000 10)])) = Some 5500000000"
proof -
  have h: "(1::nat) \<le> 1000" "bt_get [([1], sample_history_cap 1000 10)] [1 :: nat] = Some (sample_history_cap 1000 10)"
    "((10 + 60) * 1000 + 1000 - 1) div 1000 + 2 \<le> SAMPLE_HISTORY_MAX_CAP"
    "successively (\<lambda>a b. (a - 0) div (1000 * 1000000) < (b - 0) div (1000 * 1000000))
      (times_of [1] [([1], 0), ([2], 5), ([1], 1000000000), ([1], 5500000000)])"
    "last (times_of [1] [([1], 0), ([2], 5), ([1], 1000000000), ([1], 5500000000)]) \<le> 7000000000 + (10 + 60) * 1000000000"
    by (simp_all add: times_of_def bt_get_def SAMPLE_HISTORY_MAX_CAP_def)
  show ?thesis using conjunct1 [OF sample_history_sufficient [OF h]] by (simp add: times_of_def)
qed

text \<open>The body of a failed scrape is cut at a byte index, so the scrape task panics when byte 200
  is inside a character.\<close>

lemma truncate_splits_character: "truncate_text (replicate 199 97 @ [233, 97]) 200 = None"
  by code_simp

end
