(* ===== verification/Prompt_Inputs.thy ===== *)
theory Prompt_Inputs
  imports Asr Utf8
begin

text \<open>
  Prompt files (\<open>src/prompt_inputs.rs\<close>): the JSONL loaders of text and vision prompts, image
  references and inline \<open>data:\<close> images. Reading a file or URL, the JSON parser, base64 and the
  digest are parameters. \<open>None\<close> is a panic, which only an error excerpt can cause.
\<close>

datatype input_error =
    NotJsonl ustr
  | Unreadable ustr
  | UnreadableLine nat
  | InvalidJson nat ustr
  | NotAnObject nat
  | MissingPrompt nat
  | MissingImages nat
  | NoPrompts

definition reject_csv :: "unicode \<Rightarrow> ustr \<Rightarrow> input_error + unit" where
  "reject_csv u path =
     (if ends_with (lit ''.csv'') (to_lowercase u path) then Inl (NotJsonl path) else Inr ())"

definition is_http_url :: "ustr \<Rightarrow> bool" where
  "is_http_url path \<longleftrightarrow>
     starts_with (lit ''http://'') (trim path) \<or> starts_with (lit ''https://'') (trim path)"

definition read_utf8_from_path_or_url ::
  "(ustr \<Rightarrow> input_error + ustr) \<Rightarrow> (ustr \<Rightarrow> input_error + ustr) \<Rightarrow> ustr \<Rightarrow> input_error + ustr" where
  "read_utf8_from_path_or_url fetch read source =
     (if is_http_url (trim source) then fetch (trim source) else read (trim source))"

definition truncate_for_error :: "ustr \<Rightarrow> ustr option" where
  "truncate_for_error s =
     (if str_len s \<le> 120 then Some s else map_option (\<lambda>t. t @ lit ''...'') (slice_to 120 s))"

text \<open>The object of a line and its prompt, or the error of the line; \<open>line_num\<close> counts from 1.\<close>

definition line_object :: "serde \<Rightarrow> nat \<Rightarrow> ustr \<Rightarrow> (input_error + json \<times> ustr) option" where
  "line_object sj line_num line =
     (case from_str sj line of
        None \<Rightarrow> map_option (\<lambda>excerpt. Inl (InvalidJson line_num excerpt)) (truncate_for_error line)
      | Some v \<Rightarrow> Some
          (if as_object v = None then Inl (NotAnObject line_num)
           else case get_str v ''prompt'' of
             None \<Rightarrow> Inl (MissingPrompt line_num)
           | Some prompt \<Rightarrow> Inr (v, prompt)))"

text \<open>The loop over numbered lines; blank lines are skipped and the first error ends it.\<close>

fun load_lines ::
  "(nat \<Rightarrow> ustr \<Rightarrow> (input_error + 'r) option) \<Rightarrow> (nat \<times> ustr option) list \<Rightarrow>
     (input_error + 'r list) option" where
  "load_lines row [] = Some (Inr [])"
| "load_lines row ((n, None) # ls) = Some (Inl (UnreadableLine (n + 1)))"
| "load_lines row ((n, Some line) # ls) =
     (if trim line = [] then load_lines row ls
      else case row (n + 1) (trim line) of
        None \<Rightarrow> None
      | Some (Inl e) \<Rightarrow> Some (Inl e)
      | Some (Inr r) \<Rightarrow> map_option (map_sum id (Cons r)) (load_lines row ls))"

definition require_rows :: "input_error + 'r list \<Rightarrow> input_error + 'r list" where
  "require_rows rows = (if rows = Inr [] then Inl NoPrompts else rows)"

definition parse_llm_content :: "serde \<Rightarrow> ustr \<Rightarrow> (input_error + ustr list) option" where
  "parse_llm_content sj content =
     map_option require_rows
       (load_lines (\<lambda>n line. map_option (map_sum id snd) (line_object sj n line))
         (enumerate 0 (map Some (str_lines content))))"

definition load_llm_prompts ::
  "serde \<Rightarrow> unicode \<Rightarrow> (ustr \<Rightarrow> input_error + ustr) \<Rightarrow> (ustr \<Rightarrow> input_error + ustr) \<Rightarrow> ustr \<Rightarrow>
     (input_error + ustr list) option" where
  "load_llm_prompts sj u fetch read path =
     (case reject_csv u path of
        Inl e \<Rightarrow> Some (Inl e)
      | Inr _ \<Rightarrow>
          (case read_utf8_from_path_or_url fetch read path of
             Inl e \<Rightarrow> Some (Inl e)
           | Inr content \<Rightarrow> parse_llm_content sj content))"

subsection \<open>Image references\<close>

definition normalize_image_ref :: "ustr \<Rightarrow> ustr" where
  "normalize_image_ref s =
     (case strip_prefix (lit ''file://'') (trim s) of Some rest \<Rightarrow> trim rest | None \<Rightarrow> trim s)"

text \<open>\<open>get(..5)\<close> is the same slice with no panic.\<close>

definition is_data_url :: "ustr \<Rightarrow> bool" where
  "is_data_url s \<longleftrightarrow> map_option to_ascii_lowercase (slice_to 5 (trim_start s)) = Some (lit ''data:'')"

record data_url_image =
  declared_mime :: ustr
  di_bytes :: bytes

datatype data_url_error = NotDataUrl | NoComma | NotBase64 | EmptyPayload | BadBase64

definition decode_data_url :: "(bytes \<Rightarrow> bytes option) \<Rightarrow> ustr \<Rightarrow> data_url_error + data_url_image" where
  "decode_data_url base64 s =
     (if \<not> is_data_url (trim s) then Inl NotDataUrl
      else case split_once 44 (drop 5 (trim s)) of
        None \<Rightarrow> Inl NoComma
      | Some (meta, payload) \<Rightarrow>
          (let params = split_on 59 meta; compact = filter (\<lambda>c. \<not> is_whitespace c) payload in
           if \<not> list_ex (\<lambda>p. to_ascii_lowercase (trim p) = lit ''base64'') (tl params) then Inl NotBase64
           else if compact = [] then Inl EmptyPayload
           else case base64 (utf8_encode compact) of
             None \<Rightarrow> Inl BadBase64
           | Some bs \<Rightarrow> Inr \<lparr>declared_mime = to_ascii_lowercase (trim (hd params)), di_bytes = bs\<rparr>))"

definition image_ref_key :: "(bytes \<Rightarrow> ustr) \<Rightarrow> ustr \<Rightarrow> ustr" where
  "image_ref_key sha256_hex s =
     (if \<not> is_data_url s then s else lit ''data:sha256:'' @ sha256_hex (utf8_encode (trim s)))"

definition vlm_row :: "serde \<Rightarrow> nat \<Rightarrow> ustr \<Rightarrow> (input_error + ustr \<times> ustr list) option" where
  "vlm_row sj n line =
     map_option (\<lambda>r. case r of
         Inl e \<Rightarrow> Inl e
       | Inr (v, prompt) \<Rightarrow>
           (case get_array v ''image_urls'' of
              Some arr \<Rightarrow> Inr (prompt, map normalize_image_ref (List.map_filter as_str arr))
            | None \<Rightarrow>
                (case get_str v ''image_url'' of
                   Some s \<Rightarrow> Inr (prompt, [normalize_image_ref s])
                 | None \<Rightarrow> Inl (MissingImages n))))
       (line_object sj n line)"

text \<open>The lines of the opened file, \<open>None\<close> where one cannot be read.\<close>

definition load_vlm_records ::
  "serde \<Rightarrow> unicode \<Rightarrow> (ustr \<Rightarrow> input_error + ustr option list) \<Rightarrow> ustr \<Rightarrow>
     (input_error + (ustr \<times> ustr list) list) option" where
  "load_vlm_records sj u open_lines path =
     (case reject_csv u path of
        Inl e \<Rightarrow> Some (Inl e)
      | Inr _ \<Rightarrow>
          (case open_lines path of
             Inl e \<Rightarrow> Some (Inl e)
           | Inr ls \<Rightarrow> map_option require_rows (load_lines (vlm_row sj) (enumerate 0 ls))))"

subsection \<open>What the loaders return\<close>

text \<open>Either every line that is not blank gives a row, in order, or the first bad line is named.\<close>

definition row_of :: "(nat \<Rightarrow> ustr \<Rightarrow> (input_error + 'r) option) \<Rightarrow> nat \<times> ustr option \<Rightarrow> (input_error + 'r) option" where
  "row_of row l =
     (case snd l of None \<Rightarrow> Some (Inl (UnreadableLine (fst l + 1))) | Some line \<Rightarrow> row (fst l + 1) (trim line))"

definition blank_line :: "nat \<times> ustr option \<Rightarrow> bool" where
  "blank_line l \<longleftrightarrow> (case snd l of None \<Rightarrow> False | Some line \<Rightarrow> trim line = [])"

lemma map_sum_eq_Inr: "map_sum f g z = Inr y \<longleftrightarrow> (\<exists>x. z = Inr x \<and> y = g x)"
  by (cases z) auto

lemma map_sum_eq_Inl: "map_sum f g z = Inl y \<longleftrightarrow> (\<exists>x. z = Inl x \<and> y = f x)"
  by (cases z) auto

lemma blank_line_Some: "blank_line (n, Some line) \<longleftrightarrow> trim line = []"
  by (simp add: blank_line_def)

lemma row_of_Some: "row_of row (n, Some line) = row (n + 1) (trim line)"
  by (simp add: row_of_def)

lemma load_lines_rows:
  "load_lines row ls = Some (Inr rows) \<longleftrightarrow>
     map (row_of row) (filter (\<lambda>l. \<not> blank_line l) ls) = map (\<lambda>r. Some (Inr r)) rows"
proof (induction row ls arbitrary: rows rule: load_lines.induct)
  case (3 row n line ls)
  show ?case
  proof (cases "trim line = []")
    case True
    then show ?thesis using 3(1) by (simp add: blank_line_def)
  next
    case False
    show ?thesis
    proof (cases "row (n + 1) (trim line)")
      case (Some r)
      show ?thesis
      proof (cases r)
        case (Inr x)
        have IH: "load_lines row ls = Some (Inr rs) \<longleftrightarrow>
            map (row_of row) (filter (\<lambda>l. \<not> blank_line l) ls) = map (\<lambda>r. Some (Inr r)) rs" for rs
          by (rule 3(2) [OF False Some Inr])
        show ?thesis using False Some Inr IH [symmetric]
          by (cases rows) (auto simp: map_sum_eq_Inr blank_line_Some row_of_Some)
      qed (use False Some in \<open>cases rows; simp add: blank_line_def row_of_def\<close>)
    qed (use False in \<open>cases rows; simp add: blank_line_def row_of_def\<close>)
  qed
qed (auto simp: blank_line_def row_of_def)

lemma load_lines_error:
  "load_lines row ls = Some (Inl e) \<Longrightarrow>
     \<exists>good l rest. filter (\<lambda>l. \<not> blank_line l) ls = good @ l # rest \<and> row_of row l = Some (Inl e) \<and>
       list_all (\<lambda>l. \<exists>r. row_of row l = Some (Inr r)) good"
proof (induction row ls rule: load_lines.induct)
  case (2 row n ls)
  then show ?case by (intro exI [of _ "[]"]) (simp add: blank_line_def row_of_def)
next
  case (3 row n line ls)
  show ?case
  proof (cases "trim line = []")
    case True
    then show ?thesis using 3 by (simp add: blank_line_def)
  next
    case False
    then obtain r where r: "row (n + 1) (trim line) = Some r" using 3(3) by (auto split: option.splits)
    show ?thesis
    proof (cases r)
      case (Inl e')
      then show ?thesis using r False 3(3) by (intro exI [of _ "[]"]) (simp add: blank_line_def row_of_def)
    next
      case (Inr x)
      with 3(3) r False have "load_lines row ls = Some (Inl e)" by (auto simp: map_sum_eq_Inl)
      from 3(2) [OF False r Inr this] obtain good l rest where
        "filter (\<lambda>l. \<not> blank_line l) ls = good @ l # rest" "row_of row l = Some (Inl e)"
        "list_all (\<lambda>l. \<exists>r. row_of row l = Some (Inr r)) good" by blast
      then show ?thesis using r Inr False
        by (intro exI [of _ "(n, Some line) # good"]) (auto simp: blank_line_def row_of_def)
    qed
  qed
qed simp

text \<open>An invalid line with byte 120 inside a character panics the loader instead of being reported.\<close>

lemma excerpt_splits_character:
  "parse_llm_content \<lparr>from_str = (\<lambda>_. None), to_string = (\<lambda>_. [])\<rparr> (replicate 119 97 @ [233, 97]) = None"
  by code_simp

end
