(* ===== verification/Sessions.thy ===== *)
theory Sessions
  imports Json F64
begin

text \<open>
  Sessions of a strategic run (\<open>src/strategic.rs\<close>): the server metrics read between stages,
  the session dataset, the prefix of its messages and the validity checks on responses. The JSON
  parser, the number parser and the JSON schema validator are parameters.
\<close>

record server_metrics =
  kv_cache_usage :: "f64 option"
  preemptions :: "f64 option"
  requests_running :: "f64 option"
  requests_waiting :: "f64 option"

definition metric_name :: "ustr \<Rightarrow> ustr" where
  "metric_name line = takeWhile (\<lambda>c. c \<notin> {123, 32, 9}) line"

definition line_value :: "(ustr \<Rightarrow> f64 option) \<Rightarrow> string list \<Rightarrow> ustr \<Rightarrow> f64 option" where
  "line_value parse_f64 names raw =
     (let line = trim raw in
      if \<not> starts_with (lit ''#'') line \<and> metric_name line \<in> set (map lit names)
      then Option.bind (last_opt (split_whitespace line)) parse_f64
      else None)"

definition prometheus_values :: "(ustr \<Rightarrow> f64 option) \<Rightarrow> ustr \<Rightarrow> string list \<Rightarrow> f64 list" where
  "prometheus_values parse_f64 txt names = List.map_filter (line_value parse_f64 names) (str_lines txt)"

definition reduce_with :: "(f64 \<Rightarrow> f64 \<Rightarrow> f64) \<Rightarrow> f64 list \<Rightarrow> f64 option" where
  "reduce_with f xs = (case xs of [] \<Rightarrow> None | x # ys \<Rightarrow> Some (foldl f x ys))"

definition parse_server_metrics :: "(ustr \<Rightarrow> f64 option) \<Rightarrow> ustr \<Rightarrow> server_metrics" where
  "parse_server_metrics parse_f64 txt =
     \<lparr>kv_cache_usage = reduce_with max (prometheus_values parse_f64 txt
        [''vllm:gpu_cache_usage_perc'', ''vllm:kv_cache_usage_perc'', ''trtllm_kv_cache_utilization'']),
      preemptions = reduce_with fadd (prometheus_values parse_f64 txt
        [''vllm:num_preemptions_total'', ''sglang:num_preemptions_total'', ''trtllm_request_preemptions'']),
      requests_running = reduce_with fadd (prometheus_values parse_f64 txt
        [''vllm:num_requests_running'', ''sglang:num_running_reqs'', ''trtllm_request_metrics_active'']),
      requests_waiting = reduce_with fadd (prometheus_values parse_f64 txt
        [''vllm:num_requests_waiting'', ''sglang:num_queue_reqs'', ''trtllm_request_metrics_queued''])\<rparr>"

text \<open>The last word of a line is its time stamp where the exposition carries one.\<close>

lemma timestamp_is_read:
  "requests_running (parse_server_metrics (\<lambda>s. if s = lit ''3'' then Some (Fin 3) else if s = lit ''99'' then Some (Fin 99) else None)
     (lit ''vllm:num_requests_running 3 99'')) = Some (Fin 99)"
  by code_simp

subsection \<open>The session dataset\<close>

record session =
  session_id :: ustr
  session_messages :: "json list"

datatype session_error = BadLine nat | NoMessages ustr | EmptyDataset | UnreadableSession

text \<open>\<open>parse\<close> reads a session object from a line.\<close>

fun session_lines :: "(ustr \<Rightarrow> session option) \<Rightarrow> (nat \<times> ustr option) list \<Rightarrow> session_error + session list" where
  "session_lines parse [] = Inr []"
| "session_lines parse ((n, None) # ls) = Inl UnreadableSession"
| "session_lines parse ((n, Some line) # ls) =
     (if trim line = [] then session_lines parse ls
      else case parse line of
        None \<Rightarrow> Inl (BadLine (n + 1))
      | Some s \<Rightarrow>
          if session_messages s = [] then Inl (NoMessages (session_id s))
          else map_sum id (Cons s) (session_lines parse ls))"

definition load_sessions :: "(ustr \<Rightarrow> session option) \<Rightarrow> ustr option list \<Rightarrow> session_error + session list" where
  "load_sessions parse ls =
     (case session_lines parse (enumerate 0 ls) of
        Inl e \<Rightarrow> Inl e
      | Inr sessions \<Rightarrow> if sessions = [] then Inl EmptyDataset else Inr sessions)"

datatype prefix_control = SharedPrefix | UniquePrefix | NoPrefix

definition system_message :: "ustr \<Rightarrow> json" where
  "system_message content =
     JObject (bt_insert (lit ''role'') (JString (lit ''system''))
       (bt_insert (lit ''content'') (JString content) []))"

definition controlled_messages :: "json list \<Rightarrow> ustr option \<Rightarrow> prefix_control \<Rightarrow> ustr \<Rightarrow> json list" where
  "controlled_messages messages shared_prefix control session =
     (case (shared_prefix, control) of
        (Some prefix, SharedPrefix) \<Rightarrow> system_message prefix # messages
      | (Some prefix, UniquePrefix) \<Rightarrow>
          system_message (lit ''[session:'' @ session @ lit ''] '' @ prefix) # messages
      | _ \<Rightarrow> messages)"

subsection \<open>Validity of a response\<close>

text \<open>\<open>validator_for\<close> compiles a schema, \<open>is_valid\<close> checks a value.\<close>

record 'v schemas =
  validator_for :: "json \<Rightarrow> 'v option"
  is_valid :: "'v \<Rightarrow> json \<Rightarrow> bool"

datatype 'v validity = JsonValidity 'v | ToolCallValidity "(ustr, 'v) btree"

datatype validity_error = BadSchema | ToolsNotArray | NoTools | NoToolName | BadToolSchema ustr | DuplicateTool ustr

definition json_schema :: "'v schemas \<Rightarrow> json \<Rightarrow> validity_error + 'v validity" where
  "json_schema sc schema =
     (case validator_for sc schema of None \<Rightarrow> Inl BadSchema | Some v \<Rightarrow> Inr (JsonValidity v))"

definition any_object :: json where
  "any_object = JObject [(lit ''type'', JString (lit ''object''))]"

fun tool_loop :: "'v schemas \<Rightarrow> json list \<Rightarrow> (ustr, 'v) btree \<Rightarrow> validity_error + 'v validity" where
  "tool_loop sc [] m = Inr (ToolCallValidity m)"
| "tool_loop sc (tool # tools) m =
     (case Option.bind (pointer tool [''function'', ''name'']) as_str of
        None \<Rightarrow> Inl NoToolName
      | Some name \<Rightarrow>
          (case validator_for sc (unwrap_or (pointer tool [''function'', ''parameters'']) any_object) of
             None \<Rightarrow> Inl (BadToolSchema name)
           | Some v \<Rightarrow>
               if bt_get m name \<noteq> None then Inl (DuplicateTool name)
               else tool_loop sc tools (bt_insert name v m)))"

definition tool_names :: "'v schemas \<Rightarrow> json \<Rightarrow> validity_error + 'v validity" where
  "tool_names sc tools =
     (case as_array tools of
        None \<Rightarrow> Inl ToolsNotArray
      | Some array \<Rightarrow> if array = [] then Inl NoTools else tool_loop sc array [])"

text \<open>The pointer \<open>/choices/0/message/\<close>, whose \<open>0\<close> is an index or a key.\<close>

definition first_message :: "json \<Rightarrow> string \<Rightarrow> json option" where
  "first_message response field =
     (case Option.bind (jget response ''choices'')
         (\<lambda>c. case c of JArray xs \<Rightarrow> hd_opt xs | _ \<Rightarrow> jget c ''0'') of
        Some choice \<Rightarrow> pointer choice [''message'', field]
      | None \<Rightarrow> None)"

definition call_valid :: "serde \<Rightarrow> 'v schemas \<Rightarrow> (ustr, 'v) btree \<Rightarrow> json \<Rightarrow> bool" where
  "call_valid sj sc validators call =
     (case (Option.bind (Option.bind (pointer call [''function'', ''name'']) as_str) (bt_get validators),
            Option.bind (Option.bind (pointer call [''function'', ''arguments'']) as_str) (from_str sj)) of
        (Some v, Some arguments) \<Rightarrow> is_valid sc v arguments
      | _ \<Rightarrow> False)"

fun validity_check :: "serde \<Rightarrow> 'v schemas \<Rightarrow> 'v validity \<Rightarrow> json \<Rightarrow> bool" where
  "validity_check sj sc (JsonValidity v) response =
     (case from_str sj (unwrap_or (Option.bind (first_message response ''content'') as_str) []) of
        Some x \<Rightarrow> is_valid sc v x
      | None \<Rightarrow> False)"
| "validity_check sj sc (ToolCallValidity validators) response =
     (case Option.bind (first_message response ''tool_calls'') as_array of
        Some calls \<Rightarrow> calls \<noteq> [] \<and> list_all (call_valid sj sc validators) calls
      | None \<Rightarrow> False)"

text \<open>A tool-call validity knows every declared tool, each once.\<close>

lemma tool_loop_names:
  "bt_inv m \<Longrightarrow> tool_loop sc tools m = Inr (ToolCallValidity vs) \<Longrightarrow>
     bt_inv vs \<and> (\<exists>names. map (\<lambda>t. Option.bind (pointer t [''function'', ''name'']) as_str) tools = map Some names \<and>
       distinct names \<and> (\<forall>n \<in> set names. bt_get m n = None) \<and>
       (\<forall>n. bt_get vs n \<noteq> None \<longleftrightarrow> n \<in> set names \<or> bt_get m n \<noteq> None))"
proof (induction sc tools m rule: tool_loop.induct)
  case (2 sc tool tools m)
  then obtain name v where n: "Option.bind (pointer tool [''function'', ''name'']) as_str = Some name"
    "validator_for sc (unwrap_or (pointer tool [''function'', ''parameters'']) any_object) = Some v"
    "bt_get m name = None" "tool_loop sc tools (bt_insert name v m) = Inr (ToolCallValidity vs)"
    by (auto split: option.splits if_splits simp del: pointer.simps)
  from 2(1) [OF n(1,2)] n(3,4) 2(2) obtain names where
    "bt_inv vs" "map (\<lambda>t. Option.bind (pointer t [''function'', ''name'']) as_str) tools = map Some names"
    "distinct names" "\<forall>k \<in> set names. bt_get (bt_insert name v m) k = None"
    "\<forall>k. bt_get vs k \<noteq> None \<longleftrightarrow> k \<in> set names \<or> bt_get (bt_insert name v m) k \<noteq> None"
    by (auto simp: bt_inv_insert)
  with n(1,3) 2(2) show ?case
    by (intro conjI exI [of _ "name # names"]) (auto simp: bt_get_insert simp del: pointer.simps split: if_splits)
qed auto

end
