(* ===== verification/Prompt_Library.thy ===== *)
theory Prompt_Library
  imports Json "HOL-Library.Product_Lexorder" "HOL-Library.Multiset"
begin

text \<open>
  The prompt library (\<open>src/prompt_library.rs\<close>): rows, selection requests, the statistics
  and score of a mix, and the draw from one cell of equal lengths. A mix is a list of indices of
  candidates. The seeded generator is a parameter: a draw below a bound, a draw from the unit
  interval and a seed.
\<close>

subsection \<open>Rows and requests\<close>

datatype length_unit = Words | Tokens

datatype length_stat = MeanLength | MedianLength

datatype reasoning_filter = AnyReasoning | OnlyReasoning | NoReasoning

datatype isl_token_basis = SuppliedTarget

definition WORKLOAD_PROFILE_VERSION :: nat where
  "WORKLOAD_PROFILE_VERSION = 1"

datatype workload_profile = ChatShort | ChatMedium | RagMedium | SummarizeLong | CodeMedium

record workload_profile_spec =
  wp_name :: ustr
  wp_version :: nat
  wp_isl_target :: f64
  wp_osl_target :: f64
  wp_isl_tolerance :: f64
  wp_osl_tolerance :: f64

fun profile_spec :: "workload_profile \<Rightarrow> workload_profile_spec" where
  "profile_spec ChatShort =
     \<lparr>wp_name = lit ''chat-short'', wp_version = WORKLOAD_PROFILE_VERSION, wp_isl_target = Fin 256,
      wp_osl_target = Fin 64, wp_isl_tolerance = Fin 32, wp_osl_tolerance = Fin 16\<rparr>"
| "profile_spec ChatMedium =
     \<lparr>wp_name = lit ''chat-medium'', wp_version = WORKLOAD_PROFILE_VERSION, wp_isl_target = Fin 512,
      wp_osl_target = Fin 128, wp_isl_tolerance = Fin 64, wp_osl_tolerance = Fin 32\<rparr>"
| "profile_spec RagMedium =
     \<lparr>wp_name = lit ''rag-medium'', wp_version = WORKLOAD_PROFILE_VERSION, wp_isl_target = Fin 2048,
      wp_osl_target = Fin 256, wp_isl_tolerance = Fin 128, wp_osl_tolerance = Fin 64\<rparr>"
| "profile_spec SummarizeLong =
     \<lparr>wp_name = lit ''summarize-long'', wp_version = WORKLOAD_PROFILE_VERSION, wp_isl_target = Fin 4096,
      wp_osl_target = Fin 512, wp_isl_tolerance = Fin 256, wp_osl_tolerance = Fin 64\<rparr>"
| "profile_spec CodeMedium =
     \<lparr>wp_name = lit ''code-medium'', wp_version = WORKLOAD_PROFILE_VERSION, wp_isl_target = Fin 1024,
      wp_osl_target = Fin 512, wp_isl_tolerance = Fin 128, wp_osl_tolerance = Fin 64\<rparr>"

record library_row =
  lr_ordinal :: nat
  lr_prompt :: ustr
  target_output_length :: int
  lr_reasoning :: bool
  target_input_tokens :: int
  target_output_tokens :: int

definition HINT_TEMPLATE :: ustr where
  "HINT_TEMPLATE =
     [10, 10] @ lit ''Please aim for approximately {target_output_length} words in your response.''"

definition rendered_prompt :: "library_row \<Rightarrow> ustr" where
  "rendered_prompt row =
     lr_prompt row @ replace_all (lit ''{target_output_length}'') (show_int (target_output_length row)) HINT_TEMPLATE"

definition word_count :: "ustr \<Rightarrow> nat" where
  "word_count txt = length (split_whitespace txt)"

text \<open>\<open>i64 as f64\<close>.\<close>

definition f_of_int :: "int \<Rightarrow> f64" where
  "f_of_int i = rnd (of_int i)"

definition row_isl :: "length_unit \<Rightarrow> isl_token_basis \<Rightarrow> library_row \<Rightarrow> f64" where
  "row_isl unit basis row =
     (case unit of
        Words \<Rightarrow> f_of_nat (word_count (rendered_prompt row))
      | Tokens \<Rightarrow> (case basis of SuppliedTarget \<Rightarrow> f_of_int (target_input_tokens row)))"

definition row_osl :: "length_unit \<Rightarrow> library_row \<Rightarrow> f64" where
  "row_osl unit row =
     (case unit of
        Words \<Rightarrow> f_of_int (target_output_length row)
      | Tokens \<Rightarrow> f_of_int (target_output_tokens row))"

record select_request =
  sr_count :: nat
  count_slack :: nat
  sr_seed :: nat
  isl_target :: f64
  isl_unit :: length_unit
  isl_stat :: length_stat
  isl_tolerance :: f64
  osl_target :: f64
  osl_unit :: length_unit
  osl_stat :: length_stat
  osl_tolerance :: f64
  isl_token_basis :: isl_token_basis
  sr_reasoning :: reasoning_filter
  max_repeats :: nat
  work_limit :: nat
  osl_tokens_per_word :: "f64 option"

record selected_mix =
  sm_rows :: "library_row list"
  sm_isl_achieved :: f64
  sm_osl_achieved :: f64
  sm_isl_gap :: f64
  sm_osl_gap :: f64
  sm_extra_copies :: nat
  sm_work_used :: nat

text \<open>The messages are constructors.\<close>

datatype failure_message =
    CountZero
  | RepeatsZero
  | NoRowsRemain
  | NoMixInLimits
  | NoMixInTolerances f64 f64 nat nat
  | EmptyMix

record select_failure =
  sf_message :: failure_message
  sf_isl_achieved :: "f64 option"
  sf_osl_achieved :: "f64 option"
  sf_isl_gap :: "f64 option"
  sf_osl_gap :: "f64 option"
  sf_selected_count :: nat
  sf_candidate_count :: nat
  sf_work_used :: nat
  sf_proven_empty :: bool
  sf_best_rows :: "library_row list"

subsection \<open>Statistics and scores\<close>

record score =
  excess :: f64
  count_dev :: nat
  extra_copies :: nat

definition score_epsilon :: f64 where
  "score_epsilon = rnd (1 / 10 ^ 12)"

definition better_than :: "score \<Rightarrow> score \<Rightarrow> bool" where
  "better_than s t =
     (if flt score_epsilon (fabs (fsub (excess s) (excess t))) then flt (excess s) (excess t)
      else if count_dev s \<noteq> count_dev t then count_dev s < count_dev t
      else extra_copies s < extra_copies t)"

definition mix_mean :: "f64 list \<Rightarrow> f64 option" where
  "mix_mean values =
     (if values = [] then None else Some (fdiv (f_sum values) (f_of_nat (length values))))"

text \<open>The comparison sort orders numbers; lengths are never NaN.\<close>

definition mix_median :: "f64 list \<Rightarrow> f64 option" where
  "mix_median values =
     (if values = [] then None
      else let sorted = sort values; n = length sorted in
        if n mod 2 = 1 then Some (sorted ! (n div 2))
        else Some (fdiv (fadd (sorted ! (n div 2 - 1)) (sorted ! (n div 2))) (Fin 2)))"

definition apply_stat :: "f64 list \<Rightarrow> length_stat \<Rightarrow> f64 option" where
  "apply_stat values stat =
     (case stat of MeanLength \<Rightarrow> mix_mean values | MedianLength \<Rightarrow> mix_median values)"

text \<open>The histograms count occurrences.\<close>

definition count_extra_copies :: "nat list \<Rightarrow> nat" where
  "count_extra_copies mix = (\<Sum>i \<leftarrow> remdups mix. count_list mix i - 1)"

fun multiplicity_loop :: "nat \<Rightarrow> (nat \<Rightarrow> nat) \<Rightarrow> nat list \<Rightarrow> bool" where
  "multiplicity_loop limit hist [] = True"
| "multiplicity_loop limit hist (i # is) =
     (let next = hist i + 1 in
      if limit < next then False else multiplicity_loop limit (hist(i := next)) is)"

definition multiplicity_ok :: "nat list \<Rightarrow> nat \<Rightarrow> bool" where
  "multiplicity_ok mix limit = multiplicity_loop limit (\<lambda>_. 0) mix"

record cand =
  c_row :: library_row
  c_isl :: f64
  c_osl :: f64

record evaluation =
  ev_score :: score
  ev_isl_achieved :: f64
  ev_osl_achieved :: f64
  ev_isl_gap :: f64
  ev_osl_gap :: f64

definition length_excess :: "select_request \<Rightarrow> f64 \<Rightarrow> f64 \<Rightarrow> f64" where
  "length_excess req isl_gap osl_gap =
     fadd (fmax (fsub (fabs isl_gap) (isl_tolerance req)) (Fin 0))
       (fmax (fsub (fabs osl_gap) (osl_tolerance req)) (Fin 0))"

definition abs_diff :: "nat \<Rightarrow> nat \<Rightarrow> nat" where
  "abs_diff a b = (if a < b then b - a else a - b)"

definition evaluate :: "nat list \<Rightarrow> cand list \<Rightarrow> select_request \<Rightarrow> evaluation option" where
  "evaluate mix cands req =
     (if mix = [] then None
      else case apply_stat (map (\<lambda>i. c_isl (cands ! i)) mix) (isl_stat req) of
        None \<Rightarrow> None
      | Some isl_achieved \<Rightarrow>
          (case apply_stat (map (\<lambda>i. c_osl (cands ! i)) mix) (osl_stat req) of
             None \<Rightarrow> None
           | Some osl_achieved \<Rightarrow>
               let isl_gap = fsub isl_achieved (isl_target req);
                   osl_gap = fsub osl_achieved (osl_target req)
               in Some \<lparr>ev_score = \<lparr>excess = length_excess req isl_gap osl_gap,
                    count_dev = abs_diff (length mix) (sr_count req), extra_copies = count_extra_copies mix\<rparr>,
                  ev_isl_achieved = isl_achieved, ev_osl_achieved = osl_achieved,
                  ev_isl_gap = isl_gap, ev_osl_gap = osl_gap\<rparr>))"

definition keeps_row :: "reasoning_filter \<Rightarrow> library_row \<Rightarrow> bool" where
  "keeps_row f row =
     (case f of AnyReasoning \<Rightarrow> True | OnlyReasoning \<Rightarrow> lr_reasoning row | NoReasoning \<Rightarrow> \<not> lr_reasoning row)"

definition filter_candidates :: "library_row list \<Rightarrow> select_request \<Rightarrow> cand list" where
  "filter_candidates rows req =
     map (\<lambda>row. \<lparr>c_row = row, c_isl = row_isl (isl_unit req) (isl_token_basis req) row,
         c_osl = row_osl (osl_unit req) row\<rparr>)
       (filter (keeps_row (sr_reasoning req)) rows)"

text \<open>The admitted numbers of prompts.\<close>

definition min_len :: "select_request \<Rightarrow> nat" where
  "min_len req = max (sr_count req - count_slack req) 1"

definition max_len :: "select_request \<Rightarrow> nat" where
  "max_len req = max (sat64 (sr_count req) (count_slack req)) (min_len req)"

subsection \<open>Random draws\<close>

text \<open>\<open>rng_range n\<close> stands for \<open>random_range(0..n)\<close>, \<open>rng_unit\<close> for a draw of an \<open>f64\<close>.\<close>

record 'g rng =
  rng_seed :: "nat \<Rightarrow> 'g"
  rng_range :: "nat \<Rightarrow> 'g \<Rightarrow> nat \<times> 'g"
  rng_unit :: "'g \<Rightarrow> f64 \<times> 'g"

definition rng_ok :: "'g rng \<Rightarrow> bool" where
  "rng_ok R \<longleftrightarrow> (\<forall>n g. 0 < n \<longrightarrow> fst (rng_range R n g) < n)"

definition list_swap :: "'a list \<Rightarrow> nat \<Rightarrow> nat \<Rightarrow> 'a list" where
  "list_swap xs i j = xs[i := xs ! j, j := xs ! i]"

text \<open>The loop for \<open>i\<close> from the given index down to 1.\<close>

fun shuffle_loop :: "'g rng \<Rightarrow> nat \<Rightarrow> 'a list \<Rightarrow> 'g \<Rightarrow> 'a list \<times> 'g" where
  "shuffle_loop R 0 xs g = (xs, g)"
| "shuffle_loop R (Suc i) xs g =
     (case rng_range R (Suc i + 1) g of (j, g') \<Rightarrow> shuffle_loop R i (list_swap xs (Suc i) j) g')"

definition shuffle :: "'g rng \<Rightarrow> 'a list \<Rightarrow> 'g \<Rightarrow> 'a list \<times> 'g" where
  "shuffle R xs g = shuffle_loop R (length xs - 1) xs g"

subsection \<open>Cells of equal lengths\<close>

text \<open>
  The maps are ordered by the bits of their keys: the sign first, then the magnitude.
\<close>

type_synonym bits = "bool \<times> f64"

definition to_bits :: "f64 \<Rightarrow> bits" where
  "to_bits x = (flt x (Fin 0), fabs x)"

definition from_bits :: "bits \<Rightarrow> f64" where
  "from_bits b = (if fst b then fneg (snd b) else snd b)"

definition cand_key :: "cand \<Rightarrow> bits \<times> bits" where
  "cand_key c = (to_bits (c_isl c), to_bits (c_osl c))"

definition group_cells :: "cand list \<Rightarrow> (bits \<times> bits, nat list) btree" where
  "group_cells cands =
     fold (\<lambda>(i, c) m. bt_push (cand_key c) i m) (enumerate 0 cands) []"

record pick =
  pk_score :: score
  pk_n :: nat
  pk_isl :: f64
  pk_osl :: f64
  pk_isl_gap :: f64
  pk_osl_gap :: f64
  pk_idxs :: "nat list"

text \<open>\<open>clamp\<close> with ordered bounds.\<close>

definition nat_clamp :: "nat \<Rightarrow> nat \<Rightarrow> nat \<Rightarrow> nat" where
  "nat_clamp x lo hi = (if x < lo then lo else if hi < x then hi else x)"

definition sat_mul :: "nat \<Rightarrow> nat \<Rightarrow> nat" where
  "sat_mul a b = min (a * b) u64_max"

definition cell_pick :: "select_request \<Rightarrow> (bits \<times> bits) \<times> nat list \<Rightarrow> pick option" where
  "cell_pick req cell =
     (let isl = from_bits (fst (fst cell)); osl = from_bits (snd (fst cell)); idxs = snd cell;
          isl_gap = fsub isl (isl_target req); osl_gap = fsub osl (osl_target req);
          unique = length idxs; capacity = sat_mul unique (max_repeats req) in
      if flt (Fin 0) (length_excess req isl_gap osl_gap) then None
      else if capacity < min_len req then None
      else let n = nat_clamp (sr_count req) (min_len req) (min (max_len req) capacity);
               unique_used = min n unique
           in Some \<lparr>pk_score = \<lparr>excess = Fin 0, count_dev = abs_diff n (sr_count req), extra_copies = n - unique_used\<rparr>,
                pk_n = n, pk_isl = isl, pk_osl = osl, pk_isl_gap = isl_gap, pk_osl_gap = osl_gap, pk_idxs = idxs\<rparr>)"

definition keep_better :: "select_request \<Rightarrow> (bits \<times> bits) \<times> nat list \<Rightarrow> pick option \<Rightarrow> pick option" where
  "keep_better req cell best =
     (case cell_pick req cell of
        None \<Rightarrow> best
      | Some p \<Rightarrow>
          (case best of
             None \<Rightarrow> Some p
           | Some q \<Rightarrow> if better_than (pk_score p) (pk_score q) then Some p else best))"

definition best_cell :: "cand list \<Rightarrow> select_request \<Rightarrow> pick option" where
  "best_cell cands req = fold (keep_better req) (group_cells cands) None"

text \<open>Every row of the cell once, then passes over the cell while a row may repeat.\<close>

fun fill_unique :: "nat \<Rightarrow> (nat \<times> nat) list \<Rightarrow> nat list \<times> nat list \<Rightarrow> nat list \<times> nat list" where
  "fill_unique n [] (mix, used) = (mix, used)"
| "fill_unique n ((slot, idx) # xs) (mix, used) =
     (if n \<le> length mix then (mix, used)
      else fill_unique n xs (mix @ [idx], used[slot := 1]))"

fun fill_pass :: "nat \<Rightarrow> nat \<Rightarrow> (nat \<times> nat) list \<Rightarrow> nat list \<times> nat list \<times> bool \<Rightarrow> nat list \<times> nat list \<times> bool" where
  "fill_pass n limit [] (mix, used, progressed) = (mix, used, progressed)"
| "fill_pass n limit ((slot, idx) # xs) (mix, used, progressed) =
     (if n \<le> length mix then (mix, used, progressed)
      else if used ! slot < limit
      then fill_pass n limit xs (mix @ [idx], used[slot := used ! slot + 1], True)
      else fill_pass n limit xs (mix, used, progressed))"

lemma fill_pass_length:
  "fill_pass n limit xs (mix, used, p) = (mix', used', p') \<Longrightarrow>
     length mix \<le> length mix' \<and> length used' = length used \<and>
     (p' \<longrightarrow> p \<or> length mix < length mix') \<and> (length mix \<le> n \<longrightarrow> length mix' \<le> n)"
  by (induction n limit xs "(mix, used, p)" arbitrary: mix used p rule: fill_pass.induct)
     (fastforce split: if_splits)+

function fill_loop :: "nat \<Rightarrow> nat \<Rightarrow> (nat \<times> nat) list \<Rightarrow> nat list \<Rightarrow> nat list \<Rightarrow> nat list" where
  "fill_loop n limit slots mix used =
     (if n \<le> length mix then mix
      else case fill_pass n limit slots (mix, used, False) of
        (mix', used', progressed) \<Rightarrow>
          if progressed then fill_loop n limit slots mix' used' else mix')"
  by pat_completeness auto
termination
  by (relation "measure (\<lambda>(n, limit, slots, mix, used). n - length mix)")
     (auto dest: fill_pass_length [OF sym])

definition try_homogeneous_bucket ::
  "'g rng \<Rightarrow> cand list \<Rightarrow> select_request \<Rightarrow> 'g \<Rightarrow> selected_mix option \<times> 'g" where
  "try_homogeneous_bucket R cands req g =
     (case best_cell cands req of
        None \<Rightarrow> (None, g)
      | Some p \<Rightarrow>
          (case shuffle R (pk_idxs p) g of
             (idxs, g') \<Rightarrow>
               (case fill_unique (pk_n p) (enumerate 0 idxs) ([], replicate (length idxs) 0) of
                  (mix0, used) \<Rightarrow>
                    let mix = fill_loop (pk_n p) (max_repeats req) (enumerate 0 idxs) mix0 used in
                    if length mix \<noteq> pk_n p \<or> \<not> multiplicity_ok mix (max_repeats req) then (None, g')
                    else (Some \<lparr>sm_rows = map (\<lambda>i. c_row (cands ! i)) mix, sm_isl_achieved = pk_isl p,
                        sm_osl_achieved = pk_osl p, sm_isl_gap = pk_isl_gap p, sm_osl_gap = pk_osl_gap p,
                        sm_extra_copies = extra_copies (pk_score p), sm_work_used = 0\<rparr>, g'))))"

subsection \<open>What the draw from a cell returns\<close>

lemma multiplicity_loop_iff:
  "multiplicity_loop limit hist is \<longleftrightarrow> (\<forall>i \<in> set is. hist i + count_list is i \<le> limit)"
proof (induction limit hist "is" rule: multiplicity_loop.induct)
  case (2 limit hist i "is")
  show ?case
  proof (cases "limit < hist i + 1")
    case False
    have "multiplicity_loop limit (hist(i := hist i + 1)) is \<longleftrightarrow>
        (\<forall>j \<in> set is. (hist(i := hist i + 1)) j + count_list is j \<le> limit)"
      using 2 [OF refl False] .
    then show ?thesis using False by (auto simp: Let_def count_list_0_iff not_less)
  qed auto
qed simp

lemma multiplicity_ok_iff: "multiplicity_ok mix limit \<longleftrightarrow> (\<forall>i \<in> set mix. count_list mix i \<le> limit)"
  by (simp add: multiplicity_ok_def multiplicity_loop_iff)

lemma from_to_bits [simp]: "from_bits (to_bits x) = x"
  by (cases x) (auto simp: to_bits_def from_bits_def flt_def less_f64_def)

lemma to_bits_inject [simp]: "to_bits x = to_bits y \<longleftrightarrow> x = y"
  by (metis from_to_bits)

lemma list_swap_mset: "i < length xs \<Longrightarrow> j < length xs \<Longrightarrow> mset (list_swap xs i j) = mset xs"
  by (simp add: list_swap_def mset_swap)

lemma shuffle_loop_mset:
  "rng_ok R \<Longrightarrow> i < length xs \<or> i = 0 \<Longrightarrow> mset (fst (shuffle_loop R i xs g)) = mset xs"
proof (induction R i xs g rule: shuffle_loop.induct)
  case (2 R i xs g)
  obtain j g' where d: "rng_range R (Suc i + 1) g = (j, g')" by fastforce
  then have "j < length xs" using 2(2,3) unfolding rng_ok_def by (metis Suc_leI fst_conv le_trans less_Suc_eq_le
    add_gr_0 less_add_one linorder_not_less nat_add_left_cancel_le old.nat.distinct(1) Suc_eq_plus1 not_less_eq)
  moreover have "length (list_swap xs (Suc i) j) = length xs" by (simp add: list_swap_def)
  ultimately show ?case using 2 d by (simp add: list_swap_mset)
qed simp

lemma shuffle_mset: "rng_ok R \<Longrightarrow> mset (fst (shuffle R xs g)) = mset xs"
  by (cases xs) (simp_all add: shuffle_def shuffle_loop_mset)

lemma shuffle_set: "rng_ok R \<Longrightarrow> set (fst (shuffle R xs g)) = set xs"
  by (metis set_mset_mset shuffle_mset)

text \<open>A cell holds the candidates of its key, in order.\<close>

definition cell_rows :: "cand list \<Rightarrow> bits \<times> bits \<Rightarrow> nat list" where
  "cell_rows cands k = filter (\<lambda>i. cand_key (cands ! i) = k) [0..<length cands]"

lemma group_cells_get:
  "bt_get (group_cells cands) k = Some idxs \<longleftrightarrow> idxs \<noteq> [] \<and> idxs = cell_rows cands k"
proof -
  have "group_cells cands = fold (\<lambda>x m. bt_push (cand_key (snd x)) (fst x) m) (enumerate 0 cands) []"
    by (simp add: group_cells_def case_prod_unfold)
  moreover have "map fst (filter (\<lambda>x. cand_key (snd x) = k) (enumerate 0 cands)) = cell_rows cands k"
  proof -
    have "enumerate 0 cands = map (\<lambda>i. (i, cands ! i)) [0..<length cands]"
      by (rule nth_equalityI) (simp_all add: nth_enumerate_eq)
    then show ?thesis by (simp add: cell_rows_def filter_map o_def)
  qed
  ultimately show ?thesis by (simp add: bt_get_group)
qed

lemma group_cells_inv: "bt_inv (group_cells cands)"
  unfolding group_cells_def case_prod_unfold by (rule bt_inv_group) simp

lemma group_cells_in: "(k, idxs) \<in> set (group_cells cands) \<longleftrightarrow> idxs \<noteq> [] \<and> idxs = cell_rows cands k"
  using group_cells_get bt_get_iff [OF group_cells_inv] by metis

lemma cell_rows_value:
  "i \<in> set (cell_rows cands k) \<Longrightarrow>
     i < length cands \<and> c_isl (cands ! i) = from_bits (fst k) \<and> c_osl (cands ! i) = from_bits (snd k)"
  by (auto simp: cell_rows_def cand_key_def)

lemma nat_clamp_range: "lo \<le> hi \<Longrightarrow> lo \<le> nat_clamp x lo hi \<and> nat_clamp x lo hi \<le> hi"
  by (simp add: nat_clamp_def)

lemma min_len_le_max_len: "min_len req \<le> max_len req"
  by (simp add: max_len_def)

text \<open>The pick comes from a cell, lies within the tolerances and has an admitted size.\<close>

definition pick_ok :: "cand list \<Rightarrow> select_request \<Rightarrow> pick \<Rightarrow> bool" where
  "pick_ok cands req p \<longleftrightarrow>
     (\<forall>i \<in> set (pk_idxs p). i < length cands \<and> c_isl (cands ! i) = pk_isl p \<and> c_osl (cands ! i) = pk_osl p) \<and>
     pk_isl_gap p = fsub (pk_isl p) (isl_target req) \<and> pk_osl_gap p = fsub (pk_osl p) (osl_target req) \<and>
     \<not> flt (Fin 0) (length_excess req (pk_isl_gap p) (pk_osl_gap p)) \<and>
     min_len req \<le> pk_n p \<and> pk_n p \<le> max_len req"

lemma cell_pick_ok: "(k, idxs) \<in> set (group_cells cands) \<Longrightarrow> cell_pick req (k, idxs) = Some p \<Longrightarrow> pick_ok cands req p"
  unfolding pick_ok_def cell_pick_def group_cells_in Let_def
  using nat_clamp_range [of "min_len req" "min (max_len req) (sat_mul (length idxs) (max_repeats req))" "sr_count req"]
    min_len_le_max_len [of req] by (auto split: if_splits dest: cell_rows_value)

lemma keep_better_ok:
  "list_all (\<lambda>cell. \<forall>p. cell_pick req cell = Some p \<longrightarrow> pick_ok cands req p) cells \<Longrightarrow>
     pred_option (pick_ok cands req) best \<Longrightarrow> pred_option (pick_ok cands req) (fold (keep_better req) cells best)"
  by (induction cells arbitrary: best) (auto simp: keep_better_def split: option.splits)

lemma best_cell_ok: "best_cell cands req = Some p \<Longrightarrow> pick_ok cands req p"
  using keep_better_ok [of req cands "group_cells cands" None] cell_pick_ok
  by (fastforce simp: best_cell_def list_all_iff)

text \<open>Filling only adds rows of the cell.\<close>

lemma fill_unique_set:
  "set (fst (fill_unique n slots (mix, used))) \<subseteq> set mix \<union> snd ` set slots"
  by (induction n slots "(mix, used)" arbitrary: mix used rule: fill_unique.induct) auto

lemma fill_pass_set:
  "set (fst (fill_pass n limit slots (mix, used, b))) \<subseteq> set mix \<union> snd ` set slots"
  by (induction n limit slots "(mix, used, b)" arbitrary: mix used b rule: fill_pass.induct) auto

declare fill_loop.simps [simp del]

lemma fill_loop_set: "set (fill_loop n limit slots mix used) \<subseteq> set mix \<union> snd ` set slots"
proof (induction n limit slots mix used rule: fill_loop.induct)
  case (1 n limit slots mix used)
  obtain mix' used' b where p: "fill_pass n limit slots (mix, used, False) = (mix', used', b)"
    by (metis prod_cases3)
  have "set mix' \<subseteq> set mix \<union> snd ` set slots"
    using fill_pass_set [of n limit slots mix used False] p by simp
  then show ?case using 1 p by (subst fill_loop.simps) auto
qed

lemma snd_enumerate: "snd ` set (enumerate n xs) = set xs"
  by (metis list.set_map map_snd_enumerate)

end
