(* ===== verification/Mix_Search.thy ===== *)
theory Mix_Search
  imports Prompt_Library
begin

text \<open>
  The search for a mix (\<open>src/prompt_library.rs\<close>): the exhaustive search over compositions of
  the cells of equal lengths with its count of compositions, the balanced pairs, the seeded local
  search and \<open>select_mix\<close>. The loop that seeds a mix redraws until it finds a row that may
  repeat, so it is a \<open>partial_function\<close>: \<open>None\<close> is a run that never returns.
\<close>

subsection \<open>Seeds and moves\<close>

definition swap_remove :: "nat \<Rightarrow> 'a list \<Rightarrow> 'a list" where
  "swap_remove i xs = butlast (xs[i := last xs])"

partial_function (option) seed_loop ::
  "'g rng \<Rightarrow> nat \<Rightarrow> nat \<Rightarrow> nat \<Rightarrow> nat list \<Rightarrow> nat list \<Rightarrow> nat list \<Rightarrow> 'g \<Rightarrow> (nat list \<times> 'g) option" where
  "seed_loop R n target limit mix used unused g =
     (if target \<le> length mix then Some (mix, g)
      else if unused \<noteq> [] then
        (case rng_range R (length unused) g of
           (p, g') \<Rightarrow>
             let idx = unused ! p in
             seed_loop R n target limit (mix @ [idx]) (used[idx := used ! idx + 1]) (swap_remove p unused) g')
      else
        (case rng_range R n g of
           (idx, g') \<Rightarrow>
             if limit \<le> used ! idx then
               (if list_all (\<lambda>c. limit \<le> c) used then Some (mix, g')
                else seed_loop R n target limit mix used unused g')
             else seed_loop R n target limit (mix @ [idx]) (used[idx := used ! idx + 1]) unused g'))"

declare seed_loop.simps [code]

definition seed_mix :: "'g rng \<Rightarrow> cand list \<Rightarrow> select_request \<Rightarrow> 'g \<Rightarrow> (nat list \<times> 'g) option" where
  "seed_mix R cands req g =
     (let n = length cands; target = nat_clamp (sr_count req) 1 (sat64 (sr_count req) (count_slack req)) in
      map_option (\<lambda>(mix, g'). (if mix = [] then [0] else mix, g'))
        (seed_loop R n target (max_repeats req) [] (replicate n 0) [0..<n] g))"

definition set_slot :: "'g rng \<Rightarrow> nat \<Rightarrow> nat list \<Rightarrow> 'g \<Rightarrow> nat list \<times> 'g" where
  "set_slot R n trial g =
     (case rng_range R (length trial) g of
        (slot, g1) \<Rightarrow> (case rng_range R n g1 of (v, g2) \<Rightarrow> (trial[slot := v], g2)))"

definition try_move ::
  "'g rng \<Rightarrow> nat list \<Rightarrow> cand list \<Rightarrow> select_request \<Rightarrow> nat \<Rightarrow> 'g \<Rightarrow> nat list \<times> 'g" where
  "try_move R trial cands req nearest g =
     (let n = length cands in
      case rng_range R 6 g of
        (k, g1) \<Rightarrow>
          if k = 0 then set_slot R n trial g1
          else if k = 1 \<and> length trial < max_len req then
            (case rng_range R (length trial) g1 of (slot, g2) \<Rightarrow> (trial @ [trial ! slot], g2))
          else if k = 2 \<and> length trial < max_len req then
            (case rng_range R n g1 of (v, g2) \<Rightarrow> (trial @ [v], g2))
          else if k = 3 \<and> min_len req < length trial then
            (case rng_range R (length trial) g1 of (slot, g2) \<Rightarrow> (swap_remove slot trial, g2))
          else if k = 4 then
            (case set_slot R n trial g1 of (trial', g2) \<Rightarrow> set_slot R n trial' g2)
          else (case rng_range R (length trial) g1 of (slot, g2) \<Rightarrow> (trial[slot := nearest], g2)))"

subsection \<open>Counting compositions\<close>

text \<open>One bucket more: a sliding window over the counts, capped at \<open>cap\<close>.\<close>

fun dp_cells :: "nat \<Rightarrow> nat \<Rightarrow> nat list \<Rightarrow> nat \<Rightarrow> nat list \<Rightarrow> nat list" where
  "dp_cells cap capacity dp window [] = []"
| "dp_cells cap capacity dp window (n # ns) =
     (let w = window + dp ! n;
          w' = (if capacity < n then w - dp ! (n - capacity - 1) else w)
      in min w' cap # dp_cells cap capacity dp w' ns)"

definition dp_next :: "nat \<Rightarrow> nat \<Rightarrow> nat list \<Rightarrow> nat list" where
  "dp_next cap capacity dp = dp_cells cap capacity dp 0 [0..<length dp]"

definition dp_total :: "nat \<Rightarrow> nat \<Rightarrow> nat \<Rightarrow> nat list \<Rightarrow> nat" where
  "dp_total cap lo hi dp = fold (\<lambda>n sum. min (sat64 sum n) cap) (drop lo (take (hi + 1) dp)) 0"

fun dp_loop :: "nat \<Rightarrow> nat \<Rightarrow> nat \<Rightarrow> nat list \<Rightarrow> nat list \<Rightarrow> nat list" where
  "dp_loop cap lo hi [] dp = dp"
| "dp_loop cap lo hi (capacity # caps) dp =
     (let dp' = dp_next cap capacity dp in
      if dp_total cap lo hi dp' = cap then dp' else dp_loop cap lo hi caps dp')"

subsection \<open>The exhaustive search\<close>

type_synonym best_mix = "(score \<times> nat list) option"

definition consider_composition :: "cand list \<Rightarrow> select_request \<Rightarrow> nat list \<Rightarrow> best_mix \<Rightarrow> best_mix" where
  "consider_composition cands req mix best =
     (case evaluate mix cands req of
        None \<Rightarrow> best
      | Some e \<Rightarrow>
          (case best of
             None \<Rightarrow> Some (ev_score e, mix)
           | Some (old, _) \<Rightarrow> if better_than (ev_score e) old then Some (ev_score e, mix) else best))"

definition bucket_rows :: "nat list \<Rightarrow> nat \<Rightarrow> nat list" where
  "bucket_rows bucket k = map (\<lambda>slot. bucket ! (slot mod length bucket)) [0..<k]"

definition composition_mix :: "nat list list \<Rightarrow> nat list \<Rightarrow> nat list" where
  "composition_mix buckets counts = concat (map (\<lambda>(b, c). bucket_rows b c) (zip buckets counts))"

text \<open>\<open>suffix ! i\<close> is what the buckets from \<open>i\<close> on can hold.\<close>

fun suffix_sums :: "nat list \<Rightarrow> nat list" where
  "suffix_sums [] = [0]"
| "suffix_sums (c # cs) = (let s = suffix_sums cs in sat64 (hd s) c # s)"

record dfs =
  d_i :: nat
  d_counts :: "nat list"
  d_next :: "nat list"
  d_remaining :: "nat list"
  d_best :: best_mix
  d_work :: nat

text \<open>One round of the loop; \<open>Inr\<close> is the break.\<close>

definition dfs_step ::
  "cand list \<Rightarrow> select_request \<Rightarrow> nat list list \<Rightarrow> nat list \<Rightarrow> nat list \<Rightarrow> dfs \<Rightarrow> dfs + dfs" where
  "dfs_step cands req buckets caps suffix s =
     (let i = d_i s in
      if i = length caps then
        (let s' = (if d_remaining s ! i = 0
           then s\<lparr>d_best := consider_composition cands req (composition_mix buckets (d_counts s)) (d_best s),
                  d_work := d_work s + 1\<rparr>
           else s)
         in Inl (s'\<lparr>d_i := i - 1\<rparr>))
      else
        (let low = d_remaining s ! i - suffix ! (i + 1);
             high = min (caps ! i) (d_remaining s ! i);
             v = max (d_next s ! i) low in
         if high < v then
           (let s' = s\<lparr>d_next := (d_next s)[i := 0]\<rparr> in
            if i = 0 then Inr s' else Inl (s'\<lparr>d_i := i - 1\<rparr>))
         else Inl (s\<lparr>d_counts := (d_counts s)[i := v], d_next := (d_next s)[i := v + 1],
                d_remaining := (d_remaining s)[i + 1 := d_remaining s ! i - v], d_i := i + 1\<rparr>)))"

partial_function (option) dfs_loop ::
  "cand list \<Rightarrow> select_request \<Rightarrow> nat list list \<Rightarrow> nat list \<Rightarrow> nat list \<Rightarrow> dfs \<Rightarrow> dfs option" where
  "dfs_loop cands req buckets caps suffix s =
     (case dfs_step cands req buckets caps suffix s of
        Inl s' \<Rightarrow> dfs_loop cands req buckets caps suffix s'
      | Inr s' \<Rightarrow> Some s')"

declare dfs_loop.simps [code]

definition dfs_init :: "nat list \<Rightarrow> nat \<Rightarrow> best_mix \<times> nat \<Rightarrow> dfs" where
  "dfs_init caps n bw =
     \<lparr>d_i = 0, d_counts = replicate (length caps) 0, d_next = replicate (length caps) 0,
      d_remaining = n # replicate (length caps) 0, d_best = fst bw, d_work = snd bw\<rparr>"

fun search_lengths ::
  "cand list \<Rightarrow> select_request \<Rightarrow> nat list list \<Rightarrow> nat list \<Rightarrow> nat list \<Rightarrow> nat list \<Rightarrow> best_mix \<times> nat \<Rightarrow>
     (best_mix \<times> nat) option" where
  "search_lengths cands req buckets caps dp [] bw = Some bw"
| "search_lengths cands req buckets caps dp (n # ns) bw =
     (if dp ! n = 0 then search_lengths cands req buckets caps dp ns bw
      else case dfs_loop cands req buckets caps (suffix_sums caps) (dfs_init caps n bw) of
        None \<Rightarrow> None
      | Some s \<Rightarrow> search_lengths cands req buckets caps dp ns (d_best s, d_work s))"

text \<open>Balanced pairs of buckets, at most half the work limit of them.\<close>

fun search_pairs ::
  "cand list \<Rightarrow> select_request \<Rightarrow> nat list list \<Rightarrow> nat list \<Rightarrow> nat \<Rightarrow> (nat \<times> nat) list \<Rightarrow> best_mix \<times> nat \<Rightarrow>
     best_mix \<times> nat" where
  "search_pairs cands req buckets caps n [] bw = bw"
| "search_pairs cands req buckets caps n ((a, b) # ps) (best, work) =
     (if work_limit req div 2 \<le> work then (best, work)
      else if n div 2 \<le> caps ! a \<and> n - n div 2 \<le> caps ! b
      then search_pairs cands req buckets caps n ps
        (consider_composition cands req
           (bucket_rows (buckets ! a) (n div 2) @ bucket_rows (buckets ! b) (n - n div 2)) best, work + 1)
      else search_pairs cands req buckets caps n ps (best, work))"

fun shuffle_all :: "'g rng \<Rightarrow> 'a list list \<Rightarrow> 'g \<Rightarrow> 'a list list \<times> 'g" where
  "shuffle_all R [] g = ([], g)"
| "shuffle_all R (b # bs) g =
     (case shuffle R b g of (b', g1) \<Rightarrow> (case shuffle_all R bs g1 of (bs', g2) \<Rightarrow> (b' # bs', g2)))"

record composition_result =
  cr_mix :: "nat list option"
  cr_work :: nat
  cr_exact :: bool

definition bucket_caps :: "select_request \<Rightarrow> nat list list \<Rightarrow> nat list" where
  "bucket_caps req buckets = map (\<lambda>b. min (sat_mul (length b) (max_repeats req)) (max_len req)) buckets"

definition search_buckets ::
  "cand list \<Rightarrow> select_request \<Rightarrow> nat list list \<Rightarrow> composition_result option" where
  "search_buckets cands req buckets =
     (let caps = bucket_caps req buckets;
          lo = min_len req; hi = min (max_len req) (foldl sat64 0 caps) in
      if hi < lo then Some \<lparr>cr_mix = None, cr_work = 0, cr_exact = True\<rparr>
      else
        (let cap = work_limit req + 1;
             dp = dp_loop cap lo hi caps (1 # replicate hi 0);
             exact = (dp_total cap lo hi dp \<le> work_limit req) in
         if exact then
           map_option (\<lambda>(best, work). \<lparr>cr_mix = map_option snd best, cr_work = work, cr_exact = True\<rparr>)
             (search_lengths cands req buckets caps dp [lo..<hi + 1] (None, 0))
         else if isl_stat req = MedianLength \<and> osl_stat req = MedianLength then
           (case search_pairs cands req buckets caps (nat_clamp (sr_count req) lo hi)
                [(a, b). a \<leftarrow> [0..<length buckets], b \<leftarrow> [a + 1..<length buckets]] (None, 0) of
              (best, work) \<Rightarrow> Some \<lparr>cr_mix = map_option snd best, cr_work = work, cr_exact = False\<rparr>)
         else Some \<lparr>cr_mix = None, cr_work = 0, cr_exact = False\<rparr>))"

definition search_compositions ::
  "'g rng \<Rightarrow> cand list \<Rightarrow> select_request \<Rightarrow> 'g \<Rightarrow> (composition_result \<times> 'g) option" where
  "search_compositions R cands req g =
     (case shuffle_all R (bt_values (group_cells cands)) g of
        (buckets, g') \<Rightarrow> map_option (\<lambda>r. (r, g')) (search_buckets cands req buckets))"

subsection \<open>The local search\<close>

record 'g climb =
  cl_mix :: "nat list"
  cl_best_mix :: "nat list"
  cl_best_eval :: "evaluation option"
  cl_stagnant :: nat
  cl_perturb :: bool
  cl_work :: nat
  cl_g :: 'g

definition is_optimal :: "evaluation \<Rightarrow> bool" where
  "is_optimal e \<longleftrightarrow>
     feq (excess (ev_score e)) (Fin 0) \<and> count_dev (ev_score e) = 0 \<and> extra_copies (ev_score e) = 0"

fun perturb ::
  "'g rng \<Rightarrow> cand list \<Rightarrow> select_request \<Rightarrow> nat \<Rightarrow> nat \<Rightarrow> nat list \<times> 'g \<Rightarrow> nat list \<times> 'g" where
  "perturb R cands req nearest 0 (mix, g) = (mix, g)"
| "perturb R cands req nearest (Suc k) (mix, g) =
     (case try_move R mix cands req nearest g of
        (trial, g') \<Rightarrow>
          perturb R cands req nearest k (if multiplicity_ok trial (max_repeats req) then trial else mix, g'))"

definition restart ::
  "'g rng \<Rightarrow> cand list \<Rightarrow> select_request \<Rightarrow> nat \<Rightarrow> 'g climb \<Rightarrow> 'g climb option" where
  "restart R cands req nearest s =
     (if max 256 (sat_mul 8 (length (cl_mix s))) \<le> cl_stagnant s then
        map_option (\<lambda>(mix, g). s\<lparr>cl_mix := mix, cl_g := g, cl_perturb := \<not> cl_perturb s, cl_stagnant := 0\<rparr>)
          (if cl_perturb s \<and> cl_best_eval s \<noteq> None
           then Some (perturb R cands req nearest 4 (cl_best_mix s, cl_g s))
           else seed_mix R cands req (cl_g s))
      else Some s)"

text \<open>The rest of a round after the trial; \<open>True\<close> is the break.\<close>

definition judge ::
  "'g rng \<Rightarrow> cand list \<Rightarrow> select_request \<Rightarrow> nat list \<Rightarrow> 'g climb \<Rightarrow> bool \<times> 'g climb" where
  "judge R cands req trial s =
     (if \<not> multiplicity_ok trial (max_repeats req) then (False, s)
      else case evaluate trial cands req of
        None \<Rightarrow> (False, s)
      | Some e \<Rightarrow>
          if (case cl_best_eval s of None \<Rightarrow> True | Some b \<Rightarrow> better_than (ev_score e) (ev_score b))
          then (is_optimal e,
            s\<lparr>cl_stagnant := 0, cl_mix := trial, cl_best_mix := trial, cl_best_eval := Some e\<rparr>)
          else case rng_unit R (cl_g s) of
            (u, g) \<Rightarrow> (False, if flt u (rnd (2 / 100)) then s\<lparr>cl_mix := trial, cl_g := g\<rparr> else s\<lparr>cl_g := g\<rparr>))"

fun climb_loop ::
  "'g rng \<Rightarrow> cand list \<Rightarrow> select_request \<Rightarrow> nat \<Rightarrow> nat \<Rightarrow> 'g climb \<Rightarrow> 'g climb option" where
  "climb_loop R cands req nearest 0 s = Some s"
| "climb_loop R cands req nearest (Suc k) s =
     (case restart R cands req nearest (s\<lparr>cl_work := cl_work s + 1\<rparr>) of
        None \<Rightarrow> None
      | Some s1 \<Rightarrow>
          (case try_move R (cl_mix s1) cands req nearest (cl_g s1) of
             (trial, g) \<Rightarrow>
               (case judge R cands req trial (s1\<lparr>cl_stagnant := cl_stagnant s1 + 1, cl_g := g\<rparr>) of
                  (stop, s2) \<Rightarrow> if stop then Some s2 else climb_loop R cands req nearest k s2)))"

definition distance_to :: "select_request \<Rightarrow> cand \<Rightarrow> f64" where
  "distance_to req c = fadd (fabs (fsub (c_isl c) (isl_target req))) (fabs (fsub (c_osl c) (osl_target req)))"

text \<open>The first candidate at the least distance.\<close>

definition nearest_cand :: "cand list \<Rightarrow> select_request \<Rightarrow> nat" where
  "nearest_cand cands req =
     (case [0..<length cands] of
        [] \<Rightarrow> 0
      | i # is \<Rightarrow> fold (\<lambda>j best. if distance_to req (cands ! j) < distance_to req (cands ! best) then j else best) is i)"

definition early_failure :: "failure_message \<Rightarrow> nat \<Rightarrow> nat \<Rightarrow> bool \<Rightarrow> select_failure" where
  "early_failure msg candidates work proven =
     \<lparr>sf_message = msg, sf_isl_achieved = None, sf_osl_achieved = None, sf_isl_gap = None, sf_osl_gap = None,
      sf_selected_count = 0, sf_candidate_count = candidates, sf_work_used = work, sf_proven_empty = proven,
      sf_best_rows = []\<rparr>"

definition select_result ::
  "cand list \<Rightarrow> select_request \<Rightarrow> bool \<Rightarrow> nat list \<Rightarrow> evaluation option \<Rightarrow> nat \<Rightarrow> select_failure + selected_mix" where
  "select_result cands req exact best_mix best_eval work =
     (case best_eval of
        None \<Rightarrow> Inl (early_failure EmptyMix (length cands) work exact)
      | Some e \<Rightarrow>
          let rows = map (\<lambda>i. c_row (cands ! i)) best_mix in
          if feq (excess (ev_score e)) (Fin 0)
          then Inr \<lparr>sm_rows = rows, sm_isl_achieved = ev_isl_achieved e, sm_osl_achieved = ev_osl_achieved e,
            sm_isl_gap = ev_isl_gap e, sm_osl_gap = ev_osl_gap e, sm_extra_copies = extra_copies (ev_score e),
            sm_work_used = work\<rparr>
          else Inl \<lparr>sf_message = NoMixInTolerances (ev_isl_gap e) (ev_osl_gap e) (length best_mix) (sr_count req),
            sf_isl_achieved = Some (ev_isl_achieved e), sf_osl_achieved = Some (ev_osl_achieved e),
            sf_isl_gap = Some (ev_isl_gap e), sf_osl_gap = Some (ev_osl_gap e),
            sf_selected_count = length best_mix, sf_candidate_count = length cands, sf_work_used = work,
            sf_proven_empty = exact, sf_best_rows = rows\<rparr>)"

definition first_eval :: "cand list \<Rightarrow> select_request \<Rightarrow> nat list \<Rightarrow> evaluation option" where
  "first_eval cands req mix =
     (if multiplicity_ok mix (max_repeats req) \<and> min_len req \<le> length mix then evaluate mix cands req else None)"

definition search_from ::
  "'g rng \<Rightarrow> cand list \<Rightarrow> select_request \<Rightarrow> composition_result \<Rightarrow> nat list \<Rightarrow> 'g \<Rightarrow>
     (select_failure + selected_mix) option" where
  "search_from R cands req res mix g =
     (let best_eval = first_eval cands req mix in
      if cr_exact res \<and> best_eval = None
      then Some (Inl (early_failure NoMixInLimits (length cands) (cr_work res) True))
      else
        (let optimal = (case best_eval of None \<Rightarrow> False | Some e \<Rightarrow> is_optimal e);
             rounds = (if cr_exact res \<or> optimal then 0 else work_limit req - cr_work res) in
         map_option (\<lambda>s. select_result cands req (cr_exact res) (cl_best_mix s) (cl_best_eval s) (cl_work s))
           (climb_loop R cands req (nearest_cand cands req) rounds
              \<lparr>cl_mix = mix, cl_best_mix = mix, cl_best_eval = best_eval, cl_stagnant = 0, cl_perturb = True,
               cl_work = cr_work res, cl_g = g\<rparr>)))"

definition select_mix ::
  "'g rng \<Rightarrow> library_row list \<Rightarrow> select_request \<Rightarrow> (select_failure + selected_mix) option" where
  "select_mix R rows req =
     (if sr_count req = 0 then Some (Inl (early_failure CountZero 0 0 True))
      else if max_repeats req = 0 then Some (Inl (early_failure RepeatsZero 0 0 True))
      else
        (let cands = filter_candidates rows req in
         if cands = [] then Some (Inl (early_failure NoRowsRemain 0 0 True))
         else case try_homogeneous_bucket R cands req (rng_seed R (sr_seed req)) of
           (Some m, _) \<Rightarrow> Some (Inr m)
         | (None, g) \<Rightarrow>
             (case search_compositions R cands req g of
                None \<Rightarrow> None
              | Some (res, g1) \<Rightarrow>
                  (case (case cr_mix res of Some mix \<Rightarrow> Some (mix, g1) | None \<Rightarrow> seed_mix R cands req g1) of
                     None \<Rightarrow> None
                   | Some (mix, g2) \<Rightarrow> search_from R cands req res mix g2))))"

end
