(* ===== verification/F64_Exact.thy ===== *)
theory F64_Exact
  imports F64 "HOL-Library.Multiset"
begin

text \<open>
  Where binary64 arithmetic is exact: a difference of two values has the sign of the exact
  difference, and sums of integers that stay below \<open>2 ^ 53\<close> are the integer sums, in any order.
\<close>

subsection \<open>Differences\<close>

lemma rnd_rat_multiple: "\<exists>k. rnd_rat x = of_int k * pow2 (- 1074)"
proof (cases "x = 0")
  case True
  then show ?thesis by (intro exI [of _ 0]) simp
next
  case False
  have e: "- 1074 \<le> ulp_exp x" by (simp add: ulp_exp_def)
  have "pow2 (ulp_exp x) = pow2 (ulp_exp x + 1074) * pow2 (- 1074)" by (simp add: pow2_add [symmetric])
  also have "pow2 (ulp_exp x + 1074) = of_int (2 ^ nat (ulp_exp x + 1074))" using e by (intro pow2_nonneg_int) simp
  finally have "rnd_rat x = of_int (rne (x / pow2 (ulp_exp x)) * 2 ^ nat (ulp_exp x + 1074)) * pow2 (- 1074)"
    using False by (simp add: rnd_rat_def Let_def)
  then show ?thesis by blast
qed

lemma rnd_rat_pos:
  assumes "0 < x" "x = of_int k * pow2 (- 1074)"
  shows "0 < rnd_rat x"
proof -
  have k: "1 \<le> k"
    using assms pow2_pos [of "- 1074"] by (auto simp: zero_less_mult_iff simp del: pow2_pos)
  have "\<exists>j \<ge> 1. of_int j * pow2 (ulp_exp x) \<le> x"
  proof (cases "ulp_exp x = - 1074")
    case True
    then show ?thesis using k assms(2) by auto
  next
    case False
    then have "ulp_exp x = log2_floor x - 52" using assms(1) by (auto simp: ulp_exp_def max_def split: if_splits)
    moreover have "pow2 (log2_floor x - 52) \<le> pow2 (log2_floor x)" by (rule pow2_mono) simp
    ultimately show ?thesis using log2_floor_bounds(1) [OF assms(1)] by (intro exI [of _ 1]) simp
  qed
  then obtain j where j: "1 \<le> j" "of_int j * pow2 (ulp_exp x) \<le> x" by blast
  have "0 < of_int j * pow2 (ulp_exp x)" using j(1) by simp
  also have "\<dots> \<le> rnd_rat x" using assms(1) j(2) by (rule rnd_rat_ge_multiple)
  finally show ?thesis .
qed

lemma rnd_Fin_rat: "rnd a = Fin a \<Longrightarrow> rnd_rat a = a"
  by (auto simp: rnd_def Let_def split: if_splits)

lemma flt_fsub:
  assumes "is_f64 x" "is_f64 y" "is_finite y" "x \<noteq> NaN"
  shows "flt (Fin 0) (fsub x y) \<longleftrightarrow> flt y x"
proof -
  obtain b where y: "y = Fin b" using assms(3) by (rule is_finiteE)
  show ?thesis
  proof (cases x)
    case (Fin a)
    obtain k l where kl: "a = of_int k * pow2 (- 1074)" "b = of_int l * pow2 (- 1074)"
      using rnd_rat_multiple [of a] rnd_rat_multiple [of b] rnd_Fin_rat [of a] rnd_Fin_rat [of b] assms(1,2) Fin y
      by auto
    have m: "a - b = of_int (k - l) * pow2 (- 1074)" unfolding kl by (simp add: algebra_simps)
    have "0 < a - b \<longleftrightarrow> flt (Fin 0) (rnd (a - b))"
    proof
      assume p: "0 < a - b"
      then show "flt (Fin 0) (rnd (a - b))"
        using rnd_rat_pos [OF p m] by (auto simp: rnd_def Let_def flt_def less_f64_def)
    next
      assume p: "flt (Fin 0) (rnd (a - b))"
      show "0 < a - b"
      proof (rule ccontr)
        assume "\<not> 0 < a - b"
        then have "rnd (a - b) \<le> Fin 0" by (intro f64_round.nonpos) simp
        then show False using p by (auto simp: flt_def)
      qed
    qed
    then show ?thesis using Fin y by (simp add: fsub_def flt_def)
  qed (use y assms(4) in \<open>auto simp: fsub_def flt_def less_f64_def\<close>)
qed

lemma is_f64_fneg [simp]: "is_f64 (fneg x) \<longleftrightarrow> is_f64 x"
  by (cases x) (auto simp: rnd_def Let_def rnd_rat_uminus split: if_splits)

lemma is_f64_fsub: "is_f64 x \<Longrightarrow> is_f64 y \<Longrightarrow> is_f64 (fsub x y)"
  by (simp add: fsub_def is_f64_fadd)

lemma is_f64_fabs: "is_f64 x \<Longrightarrow> is_f64 (fabs x)"
  by (cases x) (auto simp: abs_if rnd_def Let_def rnd_rat_uminus split: if_splits)

subsection \<open>Sums of integers\<close>

fun f_int :: "f64 \<Rightarrow> int" where
  "f_int (Fin a) = \<lfloor>a\<rfloor>"
| "f_int _ = 0"

definition int_upto :: "int \<Rightarrow> f64 \<Rightarrow> bool" where
  "int_upto B x \<longleftrightarrow> x = Fin (of_int (f_int x)) \<and> \<bar>f_int x\<bar> \<le> B"

lemma int_upto_sum: "list_all (int_upto B) xs \<Longrightarrow> \<bar>\<Sum>x \<leftarrow> xs. f_int x\<bar> \<le> int (length xs) * B"
  by (induction xs) (auto simp: int_upto_def algebra_simps)

lemma f_sum_exact:
  "list_all (int_upto B) xs \<Longrightarrow> int (length xs) * B \<le> 2 ^ 53 \<Longrightarrow> 0 \<le> B \<Longrightarrow>
     f_sum xs = Fin (of_int (\<Sum>x \<leftarrow> xs. f_int x))"
proof (induction xs rule: rev_induct)
  case (snoc x xs)
  have l: "int (length xs) * B \<le> 2 ^ 53" using snoc.prems(2,3) by (simp add: algebra_simps)
  have s: "f_sum xs = Fin (of_int (\<Sum>x \<leftarrow> xs. f_int x))" using snoc.IH [OF _ l snoc.prems(3)] snoc.prems(1) by simp
  have x: "x = Fin (of_int (f_int x))" using snoc.prems(1) by (simp add: int_upto_def)
  have b: "\<bar>\<Sum>x \<leftarrow> xs @ [x]. f_int x\<bar> \<le> 2 ^ 53"
    using int_upto_sum [OF snoc.prems(1)] snoc.prems(2) by linarith
  have "f_sum (xs @ [x]) = fadd (f_sum xs) x" by (simp add: f_sum_def)
  also have "\<dots> = rnd (of_int (\<Sum>x \<leftarrow> xs @ [x]. f_int x))" unfolding s by (subst x) simp
  also have "\<dots> = Fin (of_int (\<Sum>x \<leftarrow> xs @ [x]. f_int x))" using b by (rule rnd_of_int)
  finally show ?case .
qed (simp add: f_sum_def)

lemma f_sum_mset:
  assumes "mset xs = mset ys" "list_all (int_upto B) xs" "int (length xs) * B \<le> 2 ^ 53" "0 \<le> B"
  shows "f_sum xs = f_sum ys"
proof -
  have "list_all (int_upto B) ys" using assms(1,2) by (metis list_all_iff set_mset_mset)
  moreover have "length ys = length xs" using assms(1) by (metis size_mset)
  moreover have "(\<Sum>x \<leftarrow> xs. f_int x) = (\<Sum>x \<leftarrow> ys. f_int x)"
    using assms(1) by (metis mset_map sum_mset_sum_list)
  ultimately show ?thesis using assms f_sum_exact [of B xs] f_sum_exact [of B ys] by simp
qed

end
