(* ===== verification/Mix_Correct.thy ===== *)
theory Mix_Correct
  imports Mix_Search F64_Exact
begin

text \<open>
  What \<open>select_mix\<close> returns. A mix is admissible when its size, its repeats and its rows are
  allowed; it meets the request when both statistics are within their tolerances. A returned mix is
  admissible and meets the request; the exhaustive search visits every composition, so a failure it
  calls proven means that no admissible mix meets the request.
\<close>

definition admissible :: "nat \<Rightarrow> select_request \<Rightarrow> nat list \<Rightarrow> bool" where
  "admissible n req mix \<longleftrightarrow>
     min_len req \<le> length mix \<and> length mix \<le> max_len req \<and>
     list_all (\<lambda>i. i < n \<and> count_list mix i \<le> max_repeats req) mix"

text \<open>The lengths of the candidates are integers whose sums over a mix are exact.\<close>

definition length_bound :: "select_request \<Rightarrow> int" where
  "length_bound req = 2 ^ 53 div int (max_len req)"

definition exact_lengths :: "cand list \<Rightarrow> select_request \<Rightarrow> bool" where
  "exact_lengths cands req \<longleftrightarrow> max_len req \<le> 2 ^ 53 \<and>
     list_all (\<lambda>c. int_upto (length_bound req) (c_isl c) \<and> int_upto (length_bound req) (c_osl c)) cands"

definition finite_bounds :: "select_request \<Rightarrow> bool" where
  "finite_bounds req \<longleftrightarrow>
     list_all (\<lambda>x. is_finite x \<and> is_f64 x) [isl_target req, isl_tolerance req, osl_target req, osl_tolerance req]"

subsection \<open>Exact statistics\<close>

lemma max_len_pos: "0 < max_len req"
  by (simp add: max_len_def min_len_def)

lemma length_bound_sum: assumes "k \<le> max_len req" shows "int k * length_bound req \<le> 2 ^ 53"
proof -
  have "int k * length_bound req \<le> int (max_len req) * length_bound req"
    using assms by (intro mult_right_mono) (auto simp: length_bound_def pos_imp_zdiv_nonneg_iff max_len_pos)
  also have "\<dots> \<le> 2 ^ 53"
  proof -
    have "2 ^ 53 = (2 ^ 53 div int (max_len req)) * int (max_len req) + 2 ^ 53 mod int (max_len req)"
      by (rule div_mult_mod_eq [symmetric])
    moreover have "0 \<le> 2 ^ 53 mod int (max_len req)" using max_len_pos [of req] by (intro pos_mod_sign) simp
    ultimately show ?thesis unfolding length_bound_def by (simp only: mult.commute)
  qed
  finally show ?thesis .
qed

lemma length_bound_nonneg: "0 \<le> length_bound req"
  by (simp add: length_bound_def pos_imp_zdiv_nonneg_iff max_len_pos)

lemma length_bound_le: "length_bound req \<le> 2 ^ 53"
  using length_bound_sum [of 1 req] max_len_pos [of req] by simp

lemma int_upto_is_f64: "B \<le> 2 ^ 53 \<Longrightarrow> int_upto B x \<Longrightarrow> is_finite x \<and> is_f64 x"
  using rnd_of_int [of "f_int x"] by (cases x) (auto simp: int_upto_def)

lemma abs_add_le: "\<bar>a\<bar> \<le> B \<Longrightarrow> \<bar>b\<bar> \<le> B \<Longrightarrow> 2 * B \<le> C \<Longrightarrow> \<bar>a + b\<bar> \<le> C" for a b B C :: int
  by linarith

lemma fadd_ints: "int_upto B x \<Longrightarrow> int_upto C y \<Longrightarrow> fadd x y = rnd (of_int (f_int x + f_int y))"
  unfolding int_upto_def by (elim conjE) (erule ssubst, erule ssubst, simp)

lemma apply_stat_mset:
  assumes "mset xs = mset ys" "list_all (int_upto (length_bound req)) xs" "length xs \<le> max_len req"
  shows "apply_stat xs st = apply_stat ys st"
proof (cases st)
  case MeanLength
  have "length ys = length xs" using assms(1) by (metis size_mset)
  moreover have "f_sum xs = f_sum ys"
    using assms length_bound_sum length_bound_nonneg by (intro f_sum_mset)
  ultimately show ?thesis using MeanLength assms(1) by (auto simp: apply_stat_def mix_mean_def)
next
  case MedianLength
  have "sort xs = sort ys" using assms(1) by (metis properties_for_sort sorted_sort mset_sort)
  moreover have "length ys = length xs" using assms(1) by (metis size_mset)
  ultimately show ?thesis using MedianLength assms(1) by (auto simp: apply_stat_def mix_median_def Let_def)
qed

lemma rnd_bounded_finite: "\<bar>x\<bar> \<le> 2 ^ 53 \<Longrightarrow> is_finite (rnd x) \<and> is_f64 (rnd x)"
  by (auto intro: rnd_finite)

lemma apply_stat_finite:
  assumes "list_all (int_upto (length_bound req)) xs" "length xs \<le> max_len req" "max_len req \<le> 2 ^ 53" "xs \<noteq> []"
  obtains v where "apply_stat xs st = Some v" "is_finite v" "is_f64 v"
proof (cases st)
  case MeanLength
  let ?s = "\<Sum>x \<leftarrow> xs. f_int x"
  have l: "0 < length xs" "length xs \<le> 2 ^ 53" using assms(2,3,4) by auto
  have s: "f_sum xs = Fin (of_int ?s)"
    using assms(1,2) length_bound_sum length_bound_nonneg by (intro f_sum_exact)
  have "\<bar>?s\<bar> \<le> 2 ^ 53" using int_upto_sum [OF assms(1)] length_bound_sum [OF assms(2)] by linarith
  then have "\<bar>of_int ?s :: rat\<bar> \<le> of_int (2 ^ 53)" by (simp only: of_int_abs [symmetric] of_int_le_iff)
  moreover have "(2 ^ 53 :: rat) * 1 \<le> 2 ^ 53 * of_nat (length xs)"
    using l(1) by (intro mult_left_mono) (simp_all add: Suc_le_eq)
  ultimately have "\<bar>of_int ?s :: rat\<bar> \<le> 2 ^ 53 * of_nat (length xs)" by simp
  then have "\<bar>of_int ?s / of_nat (length xs) :: rat\<bar> \<le> 2 ^ 53"
    using l(1) by (simp add: abs_divide divide_le_eq)
  moreover have "fdiv (f_sum xs) (f_of_nat (length xs)) = rnd (of_int ?s / of_nat (length xs))"
    using l by (simp add: s fdiv_def f_of_nat_exact)
  ultimately show ?thesis
    using that [of "fdiv (f_sum xs) (f_of_nat (length xs))"] MeanLength assms(4) rnd_bounded_finite
    by (simp add: apply_stat_def mix_mean_def)
next
  case MedianLength
  have all: "int_upto (length_bound req) x" if "x \<in> set xs" for x using assms(1) that by (simp add: list_all_iff)
  have nth: "sort xs ! i \<in> set xs" if "i < length xs" for i using that by (metis length_sort nth_mem set_sort)
  show ?thesis
  proof (cases "length xs mod 2 = 1")
    case True
    then have "sort xs ! (length xs div 2) \<in> set xs" by (intro nth) (cases xs; auto)
    from int_upto_is_f64 [OF length_bound_le all [OF this]] show ?thesis
      using that MedianLength True assms(4) by (simp add: apply_stat_def mix_median_def Let_def)
  next
    case False
    moreover have "0 < length xs" using assms(4) by simp
    ultimately have n: "2 \<le> length xs" by presburger
    let ?a = "sort xs ! (length xs div 2 - 1)" and ?b = "sort xs ! (length xs div 2)"
    have ab: "int_upto (length_bound req) ?a" "int_upto (length_bound req) ?b"
      using n by (auto intro!: all nth)
    then have "\<bar>f_int ?a\<bar> \<le> length_bound req" "\<bar>f_int ?b\<bar> \<le> length_bound req" unfolding int_upto_def by blast+
    moreover have "2 * length_bound req \<le> 2 ^ 53" using length_bound_sum [of 2 req] n assms(2) by simp
    ultimately have c: "\<bar>f_int ?a + f_int ?b\<bar> \<le> 2 ^ 53" by (rule abs_add_le)
    have "fadd ?a ?b = rnd (of_int (f_int ?a + f_int ?b))" using ab by (rule fadd_ints)
    then have s: "fadd ?a ?b = Fin (of_int (f_int ?a + f_int ?b))" using rnd_of_int [OF c] by simp
    have "\<bar>of_int (f_int ?a + f_int ?b) :: rat\<bar> \<le> of_int (2 ^ 53)"
      using c by (simp only: of_int_abs [symmetric] of_int_le_iff)
    then have "\<bar>of_int (f_int ?a + f_int ?b) / 2 :: rat\<bar> \<le> 2 ^ 53" by (simp only: abs_divide) simp
    then have "is_finite (fdiv (fadd ?a ?b) (Fin 2)) \<and> is_f64 (fdiv (fadd ?a ?b) (Fin 2))"
      unfolding s using rnd_bounded_finite by (simp add: fdiv_def)
    then show ?thesis using that MedianLength False assms(4) by (simp add: apply_stat_def mix_median_def Let_def)
  qed
qed

lemma apply_stat_const:
  assumes "int_upto (length_bound req) v" "0 < k" "k \<le> max_len req" "max_len req \<le> 2 ^ 53"
  shows "apply_stat (replicate k v) st = Some v"
proof (cases st)
  case MeanLength
  have v: "v = Fin (of_int (f_int v))" and b: "\<bar>f_int v\<bar> \<le> length_bound req" using assms(1) by (auto simp: int_upto_def)
  have s: "f_sum (replicate k v) = Fin (of_int (int k * f_int v))"
    using f_sum_exact [of "length_bound req" "replicate k v"] assms length_bound_sum length_bound_nonneg
    by (simp add: list_all_iff sum_list_replicate)
  have "fdiv (f_sum (replicate k v)) (f_of_nat k) = rnd (of_int (f_int v))"
    using assms(2-4) by (simp add: s fdiv_def f_of_nat_exact)
  also have "\<dots> = v" using b length_bound_le [of req] by (subst (2) v) (intro rnd_of_int, linarith)
  finally show ?thesis using MeanLength assms(2) by (simp add: apply_stat_def mix_mean_def)
next
  case MedianLength
  have v: "v = Fin (of_int (f_int v))" and b: "\<bar>f_int v\<bar> \<le> length_bound req" using assms(1) by (auto simp: int_upto_def)
  have srt: "sort (replicate k v) = replicate k v" by (rule sorted_sort_id) (simp add: sorted_iff_nth_mono)
  show ?thesis
  proof (cases "k mod 2 = 1")
    case True
    then show ?thesis using assms(2) MedianLength by (simp add: apply_stat_def mix_median_def srt Let_def)
  next
    case False
    then have k: "2 \<le> k" using assms(2) by presburger
    have "2 * length_bound req \<le> 2 ^ 53" using length_bound_sum [of 2 req] k assms(3) by simp
    then have "\<bar>2 * f_int v\<bar> \<le> 2 ^ 53" "\<bar>f_int v\<bar> \<le> 2 ^ 53" using b by linarith+
    then have "fdiv (fadd v v) (Fin 2) = v"
      using rnd_of_int [of "2 * f_int v"] rnd_of_int [of "f_int v"] fadd_ints [OF assms(1,1)] v by (simp add: fdiv_def)
    then show ?thesis using False k assms(2) MedianLength by (simp add: apply_stat_def mix_median_def srt Let_def)
  qed
qed

subsection \<open>Tolerances\<close>

lemma fadd_commute: "fadd x y = fadd y x"
  by (cases x; cases y) (auto simp: add.commute)

lemma flt_nonneg: "nonneg x \<Longrightarrow> flt (Fin 0) x \<longleftrightarrow> x \<noteq> Fin 0"
  by (auto simp: flt_def nonneg_def)

lemma pos_sum:
  assumes "nonneg x" "nonneg y" "is_f64 x" "is_f64 y"
  shows "flt (Fin 0) (fadd x y) \<longleftrightarrow> flt (Fin 0) x \<or> flt (Fin 0) y"
proof -
  have "x \<le> fadd x y" "y \<le> fadd x y"
    using assms fadd_ge [of x y] fadd_ge [of y x] fadd_commute [of x y] by auto
  moreover have "fadd (Fin 0) (Fin 0) = Fin 0" by simp
  moreover have "Fin 0 \<le> x" "Fin 0 \<le> y" using assms by (auto simp: nonneg_def)
  ultimately show ?thesis
    using assms nonneg_fadd [OF assms(1,2)] flt_nonneg by (metis order_antisym)
qed

lemma flt_fmax_0: "flt (Fin 0) (fmax x (Fin 0)) \<longleftrightarrow> flt (Fin 0) x"
  by (cases x) (auto simp: fmax_def flt_def max_def less_f64_def)

text \<open>The excess is a number, and it is not positive just when both gaps are within tolerance.\<close>

lemma excess_nonneg: "nonneg (length_excess req a b)"
  unfolding length_excess_def by (intro nonneg_fadd nonneg_fmax_0)

lemma is_f64_length_excess:
  assumes "is_f64 a" "is_f64 b" "is_f64 (isl_tolerance req)" "is_f64 (osl_tolerance req)"
  shows "is_f64 (length_excess req a b)"
  unfolding length_excess_def
  using assms by (intro is_f64_fadd) (auto simp: fmax_def max_def is_f64_fsub is_f64_fabs)

lemma excess_zero_iff:
  assumes "finite_bounds req" "is_f64 a" "is_f64 b" "a \<noteq> NaN" "b \<noteq> NaN"
  shows "\<not> flt (Fin 0) (length_excess req a b) \<longleftrightarrow> fle (fabs a) (isl_tolerance req) \<and> fle (fabs b) (osl_tolerance req)"
proof -
  have t: "is_finite (isl_tolerance req)" "is_f64 (isl_tolerance req)" "is_finite (osl_tolerance req)" "is_f64 (osl_tolerance req)"
    using assms(1) by (simp_all add: finite_bounds_def)
  have m: "is_f64 (fmax (fsub (fabs x) y) (Fin 0))" if "is_f64 x" "is_f64 y" for x y
    using that by (auto simp: fmax_def max_def is_f64_fsub is_f64_fabs)
  have le: "\<not> flt (Fin 0) (fsub (fabs x) y) \<longleftrightarrow> fle (fabs x) y" if "is_f64 x" "x \<noteq> NaN" "is_f64 y" "is_finite y" for x y
  proof -
    have "fabs x \<noteq> NaN" "y \<noteq> NaN" using that by (cases x; cases y; simp)+
    then show ?thesis using that by (subst flt_fsub) (auto simp: is_f64_fabs flt_def fle_def)
  qed
  show ?thesis
    unfolding length_excess_def using assms t m le
    by (simp add: pos_sum nonneg_fmax_0 flt_fmax_0)
qed

subsection \<open>Mixes that meet a request\<close>

definition isl_values :: "cand list \<Rightarrow> nat list \<Rightarrow> f64 list" where
  "isl_values cands mix = map (\<lambda>i. c_isl (cands ! i)) mix"

definition osl_values :: "cand list \<Rightarrow> nat list \<Rightarrow> f64 list" where
  "osl_values cands mix = map (\<lambda>i. c_osl (cands ! i)) mix"

definition within_tolerance :: "f64 option \<Rightarrow> f64 \<Rightarrow> f64 \<Rightarrow> bool" where
  "within_tolerance achieved target tolerance \<longleftrightarrow>
     (case achieved of None \<Rightarrow> False | Some v \<Rightarrow> fle (fabs (fsub v target)) tolerance)"

definition meets :: "cand list \<Rightarrow> select_request \<Rightarrow> nat list \<Rightarrow> bool" where
  "meets cands req mix \<longleftrightarrow>
     within_tolerance (apply_stat (isl_values cands mix) (isl_stat req)) (isl_target req) (isl_tolerance req) \<and>
     within_tolerance (apply_stat (osl_values cands mix) (osl_stat req)) (osl_target req) (osl_tolerance req)"

lemma evaluate_Some_iff:
  "evaluate mix cands req = Some e \<longleftrightarrow> mix \<noteq> [] \<and>
     apply_stat (isl_values cands mix) (isl_stat req) = Some (ev_isl_achieved e) \<and>
     apply_stat (osl_values cands mix) (osl_stat req) = Some (ev_osl_achieved e) \<and>
     ev_isl_gap e = fsub (ev_isl_achieved e) (isl_target req) \<and>
     ev_osl_gap e = fsub (ev_osl_achieved e) (osl_target req) \<and>
     ev_score e = \<lparr>excess = length_excess req (ev_isl_gap e) (ev_osl_gap e),
       count_dev = abs_diff (length mix) (sr_count req), extra_copies = count_extra_copies mix\<rparr>"
  by (cases e) (auto simp: evaluate_def isl_values_def osl_values_def Let_def split: option.splits)

lemma admissible_not_Nil: "admissible n req mix \<Longrightarrow> mix \<noteq> []"
  by (auto simp: admissible_def min_len_def)

lemma admissible_iff:
  "admissible n req mix \<longleftrightarrow> min_len req \<le> length mix \<and> length mix \<le> max_len req \<and> set mix \<subseteq> {..<n} \<and>
     multiplicity_ok mix (max_repeats req)"
  by (auto simp: admissible_def list_all_iff multiplicity_ok_iff)

lemma values_upto:
  assumes "exact_lengths cands req" "set mix \<subseteq> {..<length cands}"
  shows "list_all (int_upto (length_bound req)) (isl_values cands mix)"
    "list_all (int_upto (length_bound req)) (osl_values cands mix)"
  using assms nth_mem by (fastforce simp: exact_lengths_def isl_values_def osl_values_def list_all_iff)+

lemma evaluate_meets:
  assumes x: "exact_lengths cands req" and f: "finite_bounds req"
    and m: "set mix \<subseteq> {..<length cands}" "mix \<noteq> []" "length mix \<le> max_len req"
  obtains e where "evaluate mix cands req = Some e" "nonneg (excess (ev_score e))"
    "feq (excess (ev_score e)) (Fin 0) \<longleftrightarrow> meets cands req mix" "is_f64 (excess (ev_score e))"
proof -
  have len: "max_len req \<le> 2 ^ 53" using x by (simp add: exact_lengths_def)
  obtain a where a: "apply_stat (isl_values cands mix) (isl_stat req) = Some a" "is_finite a" "is_f64 a"
    by (rule apply_stat_finite [OF values_upto(1) [OF x m(1)] _ len]) (use m in \<open>auto simp: isl_values_def\<close>)
  obtain b where b: "apply_stat (osl_values cands mix) (osl_stat req) = Some b" "is_finite b" "is_f64 b"
    by (rule apply_stat_finite [OF values_upto(2) [OF x m(1)] _ len]) (use m in \<open>auto simp: osl_values_def\<close>)
  let ?g = "fsub a (isl_target req)" and ?h = "fsub b (osl_target req)"
  define e where "e = \<lparr>ev_score = \<lparr>excess = length_excess req ?g ?h, count_dev = abs_diff (length mix) (sr_count req),
    extra_copies = count_extra_copies mix\<rparr>, ev_isl_achieved = a, ev_osl_achieved = b, ev_isl_gap = ?g, ev_osl_gap = ?h\<rparr>"
  have "evaluate mix cands req = Some e" using a(1) b(1) m(2) by (simp add: evaluate_Some_iff e_def)
  moreover have "is_f64 ?g" "is_f64 ?h" using a b f by (auto simp: finite_bounds_def intro: is_f64_fsub)
  moreover have "?g \<noteq> NaN" "?h \<noteq> NaN" using a b f by (auto simp: finite_bounds_def is_finite_iff fsub_def)
  moreover have "is_f64 (length_excess req ?g ?h)"
    using calculation f by (intro is_f64_length_excess) (auto simp: finite_bounds_def)
  ultimately show ?thesis
    using that [of e] a(1) b(1) excess_zero_iff [OF f, of ?g ?h] excess_nonneg [of req ?g ?h]
    by (auto simp: e_def meets_def within_tolerance_def flt_nonneg feq_def nonneg_def)
qed

text \<open>What is promised of a returned mix.\<close>

definition mix_ok :: "cand list \<Rightarrow> select_request \<Rightarrow> selected_mix \<Rightarrow> bool" where
  "mix_ok cands req m \<longleftrightarrow>
     (\<exists>mix. admissible (length cands) req mix \<and> meets cands req mix \<and>
        sm_rows m = map (\<lambda>i. c_row (cands ! i)) mix \<and>
        apply_stat (isl_values cands mix) (isl_stat req) = Some (sm_isl_achieved m) \<and>
        apply_stat (osl_values cands mix) (osl_stat req) = Some (sm_osl_achieved m) \<and>
        sm_isl_gap m = fsub (sm_isl_achieved m) (isl_target req) \<and>
        sm_osl_gap m = fsub (sm_osl_achieved m) (osl_target req))"

lemma homogeneous_sound:
  assumes R: "rng_ok R" and x: "exact_lengths cands req" and f: "finite_bounds req"
    and t: "try_homogeneous_bucket R cands req g = (Some m, g')"
  shows "mix_ok cands req m"
proof -
  obtain p where p: "best_cell cands req = Some p"
    using t by (auto simp: try_homogeneous_bucket_def split: option.splits)
  obtain idxs g1 where s: "shuffle R (pk_idxs p) g = (idxs, g1)" by fastforce
  let ?slots = "enumerate 0 idxs"
  obtain mix0 used where u: "fill_unique (pk_n p) ?slots ([], replicate (length idxs) 0) = (mix0, used)" by fastforce
  define mix where "mix = fill_loop (pk_n p) (max_repeats req) ?slots mix0 used"
  have m: "length mix = pk_n p" "multiplicity_ok mix (max_repeats req)"
    "m = \<lparr>sm_rows = map (\<lambda>i. c_row (cands ! i)) mix, sm_isl_achieved = pk_isl p, sm_osl_achieved = pk_osl p,
      sm_isl_gap = pk_isl_gap p, sm_osl_gap = pk_osl_gap p, sm_extra_copies = extra_copies (pk_score p), sm_work_used = 0\<rparr>"
    using t by (auto simp: try_homogeneous_bucket_def p s u mix_def Let_def split: if_splits)
  note ok = best_cell_ok [OF p, unfolded pick_ok_def]
  have "set mix0 \<subseteq> set idxs"
    using fill_unique_set [of "pk_n p" ?slots "[]" "replicate (length idxs) 0"] u by (simp add: snd_enumerate)
  then have "set mix \<subseteq> set (pk_idxs p)"
    using fill_loop_set [of "pk_n p" "max_repeats req" ?slots mix0 used] shuffle_set [OF R, of "pk_idxs p" g] s
    by (auto simp: mix_def snd_enumerate)
  then have v: "i < length cands \<and> c_isl (cands ! i) = pk_isl p \<and> c_osl (cands ! i) = pk_osl p" if "i \<in> set mix" for i
    using that ok by blast
  have ad: "admissible (length cands) req mix" using m ok v by (auto simp: admissible_iff)
  have vals: "isl_values cands mix = replicate (length mix) (pk_isl p)"
      "osl_values cands mix = replicate (length mix) (pk_osl p)"
    using v by (auto simp: isl_values_def osl_values_def intro!: map_idI replicate_eqI)
  obtain i where i: "i \<in> set mix" using admissible_not_Nil [OF ad] by (cases mix) auto
  have up: "int_upto (length_bound req) (pk_isl p)" "int_upto (length_bound req) (pk_osl p)"
    using v [OF i] x nth_mem [of i cands] by (metis exact_lengths_def list_all_iff)+
  have len: "0 < length mix" "length mix \<le> max_len req" "max_len req \<le> 2 ^ 53"
    using admissible_not_Nil [OF ad] ad x by (auto simp: admissible_def exact_lengths_def)
  have st: "apply_stat (isl_values cands mix) (isl_stat req) = Some (pk_isl p)"
      "apply_stat (osl_values cands mix) (osl_stat req) = Some (pk_osl p)"
    unfolding vals by (rule apply_stat_const [OF up(1) len], rule apply_stat_const [OF up(2) len])
  obtain e where e: "evaluate mix cands req = Some e" "nonneg (excess (ev_score e))"
    "feq (excess (ev_score e)) (Fin 0) \<longleftrightarrow> meets cands req mix"
    using evaluate_meets [OF x f, of mix] ad admissible_not_Nil [OF ad] by (auto simp: admissible_iff)
  have "meets cands req mix" using e ok st flt_nonneg [OF e(2)] by (auto simp: evaluate_Some_iff feq_def nonneg_def)
  then show ?thesis using ad ok m(3) st by (auto simp: mix_ok_def)
qed

subsection \<open>The local search keeps its mixes in range\<close>

definition in_range :: "nat \<Rightarrow> select_request \<Rightarrow> nat list \<Rightarrow> bool" where
  "in_range n req mix \<longleftrightarrow> min_len req \<le> length mix \<and> length mix \<le> max_len req \<and> set mix \<subseteq> {..<n}"

lemma admissible_in_range: "admissible n req mix \<longleftrightarrow> in_range n req mix \<and> multiplicity_ok mix (max_repeats req)"
  by (auto simp: admissible_iff in_range_def)

lemma in_range_not_Nil: "in_range n req mix \<Longrightarrow> mix \<noteq> []"
  by (auto simp: in_range_def min_len_def)

lemma rng_draw: "rng_ok R \<Longrightarrow> rng_range R k g = (v, g') \<Longrightarrow> 0 < k \<Longrightarrow> v < k"
  unfolding rng_ok_def by (metis fst_conv)

lemma in_range_update: "in_range n req mix \<Longrightarrow> v < n \<Longrightarrow> in_range n req (mix[i := v])"
  using set_update_subset_insert [of mix i v] by (auto simp: in_range_def)

lemma swap_remove_set: "set (swap_remove i xs) \<subseteq> set xs"
proof -
  have "set (swap_remove i xs) \<subseteq> set (xs[i := last xs])" unfolding swap_remove_def by (auto dest: in_set_butlastD)
  also have "\<dots> \<subseteq> set xs"
    using set_update_subset_insert [of xs i "last xs"] last_in_set [of xs] by (cases "xs = []") (auto simp del: last_in_set)
  finally show ?thesis .
qed

lemma length_swap_remove: "length (swap_remove i xs) = length xs - 1"
  by (simp add: swap_remove_def)

lemma set_slot_in_range:
  "rng_ok R \<Longrightarrow> 0 < n \<Longrightarrow> in_range n req mix \<Longrightarrow> in_range n req (fst (set_slot R n mix g))"
  by (auto simp: set_slot_def split: prod.split intro!: in_range_update dest: rng_draw)

lemma try_move_in_range:
  assumes R: "rng_ok R" and c: "nearest < length cands" and m: "in_range (length cands) req mix"
  shows "in_range (length cands) req (fst (try_move R mix cands req nearest g))"
proof -
  have n: "0 < length cands" "0 < length mix" using c in_range_not_Nil [OF m] by auto
  have app: "in_range (length cands) req (mix @ [v])" if "length mix < max_len req" "v < length cands" for v
    using that m by (auto simp: in_range_def)
  have rem: "in_range (length cands) req (swap_remove i mix)" if "min_len req < length mix" for i
    using that m swap_remove_set [of i mix] by (auto simp: in_range_def length_swap_remove)
  have src: "mix ! i < length cands" if "i < length mix" for i
    using that m nth_mem by (fastforce simp: in_range_def)
  have one: "in_range (length cands) req trial" if "set_slot R (length cands) mix g1 = (trial, g2)" for g1 trial g2
    using set_slot_in_range [OF R n(1) m, of g1] that by simp
  have two: "in_range (length cands) req trial'"
    if "set_slot R (length cands) mix g1 = (trial, g2)" "set_slot R (length cands) trial g2 = (trial', g3)" for g1 trial g2 trial' g3
    using set_slot_in_range [OF R n(1) one [OF that(1)], of g2] that(2) by simp
  obtain k g1 where k: "rng_range R 6 g = (k, g1)" by fastforce
  obtain i g2 where i: "rng_range R (length mix) g1 = (i, g2)" by fastforce
  obtain v g3 where v: "rng_range R (length cands) g1 = (v, g3)" by fastforce
  note d = rng_draw [OF R i n(2)] rng_draw [OF R v n(1)]
  obtain t1 g4 where t1: "set_slot R (length cands) mix g1 = (t1, g4)" by fastforce
  obtain t2 g5 where t2: "set_slot R (length cands) t1 g4 = (t2, g5)" by fastforce
  have "fst (try_move R mix cands req nearest g) \<in>
      {t1, t2, mix[i := nearest]} \<union> {mix @ [w] | w. length mix < max_len req \<and> w \<in> {mix ! i, v}} \<union>
      {swap_remove i mix | x :: unit. min_len req < length mix}"
    by (simp add: try_move_def k i v t1 t2 Let_def)
  then show ?thesis
    using d app rem src one [OF t1] two [OF t1 t2] in_range_update [OF m c] by auto
qed

lemma perturb_in_range:
  "rng_ok R \<Longrightarrow> nearest < length cands \<Longrightarrow> in_range (length cands) req mix \<Longrightarrow>
     in_range (length cands) req (fst (perturb R cands req nearest k (mix, g)))"
proof (induction k arbitrary: mix g)
  case (Suc k)
  obtain trial g' where t: "try_move R mix cands req nearest g = (trial, g')" by fastforce
  show ?case using Suc try_move_in_range [OF Suc.prems, of g] t by simp
qed simp

lemma nearest_cand_less: assumes "cands \<noteq> []" shows "nearest_cand cands req < length cands"
proof -
  have "fold (\<lambda>j best. if distance_to req (cands ! j) < distance_to req (cands ! best) then j else best) is i < n"
    if "i < n" "list_all (\<lambda>j. j < n) is" for i n "is"
    using that by (induction "is" arbitrary: i) auto
  moreover have "[0..<length cands] = 0 # [1..<length cands]" using assms by (simp add: upt_conv_Cons)
  ultimately show ?thesis using assms by (simp add: nearest_cand_def list_all_iff)
qed

text \<open>The seeding loop: as many rows as wanted, or every row as often as allowed.\<close>

definition seed_inv :: "nat \<Rightarrow> nat \<Rightarrow> nat list \<Rightarrow> nat list \<Rightarrow> nat list \<Rightarrow> bool" where
  "seed_inv n target mix used unused \<longleftrightarrow>
     set mix \<subseteq> {..<n} \<and> set unused \<subseteq> {..<n} \<and> length used = n \<and> length mix = sum_list used \<and> length mix \<le> target"

definition seed_out :: "nat \<Rightarrow> nat \<Rightarrow> nat \<Rightarrow> nat list \<Rightarrow> bool" where
  "seed_out n target limit mix \<longleftrightarrow>
     set mix \<subseteq> {..<n} \<and> length mix \<le> target \<and> (target \<le> length mix \<or> n * limit \<le> length mix)"

lemma seed_push:
  "seed_inv n target mix used unused \<Longrightarrow> length mix < target \<Longrightarrow> idx < n \<Longrightarrow> set unused' \<subseteq> set unused \<Longrightarrow>
     seed_inv n target (mix @ [idx]) (used[idx := used ! idx + 1]) unused'"
  by (auto simp: seed_inv_def sum_list_update)

lemma seed_full: "seed_inv n target mix used unused \<Longrightarrow> list_all (\<lambda>c. limit \<le> c) used \<Longrightarrow> seed_out n target limit mix"
proof -
  assume s: "seed_inv n target mix used unused" and l: "list_all (\<lambda>c. limit \<le> c) used"
  have "length used * limit \<le> sum_list used" using l by (induction used) auto
  then show ?thesis using s by (auto simp: seed_inv_def seed_out_def)
qed

lemma seed_loop_out:
  assumes R: "rng_ok R" and n: "0 < n"
    and ret: "seed_loop R n target limit mix used unused g = Some y"
  shows "seed_inv n target mix used unused \<longrightarrow> seed_out n target limit (fst y)"
proof -
  have "rng_ok R \<longrightarrow> 0 < n \<longrightarrow> seed_inv n target mix used unused \<longrightarrow> seed_out n target limit (fst y)"
  proof (rule seed_loop.raw_induct [OF _ ret, where P = "\<lambda>R n target limit mix used unused g y.
      rng_ok R \<longrightarrow> 0 < n \<longrightarrow> seed_inv n target mix used unused \<longrightarrow> seed_out n target limit (fst y)"])
    fix loop :: "'a rng \<Rightarrow> nat \<Rightarrow> nat \<Rightarrow> nat \<Rightarrow> nat list \<Rightarrow> nat list \<Rightarrow> nat list \<Rightarrow> 'a \<Rightarrow> (nat list \<times> 'a) option"
      and R n target limit mix used unused g y
    assume IH: "\<And>R n target limit mix used unused g y. loop R n target limit mix used unused g = Some y \<Longrightarrow>
        rng_ok R \<longrightarrow> 0 < n \<longrightarrow> seed_inv n target mix used unused \<longrightarrow> seed_out n target limit (fst y)"
      and eq: "(if target \<le> length mix then Some (mix, g)
        else if unused \<noteq> [] then
          (case rng_range R (length unused) g of
             (p, g') \<Rightarrow>
               let idx = unused ! p in
               loop R n target limit (mix @ [idx]) (used[idx := used ! idx + 1]) (swap_remove p unused) g')
        else
          (case rng_range R n g of
             (idx, g') \<Rightarrow>
               if limit \<le> used ! idx then
                 (if list_all (\<lambda>c. limit \<le> c) used then Some (mix, g')
                  else loop R n target limit mix used unused g')
               else loop R n target limit (mix @ [idx]) (used[idx := used ! idx + 1]) unused g')) = Some y"
    show "rng_ok R \<longrightarrow> 0 < n \<longrightarrow> seed_inv n target mix used unused \<longrightarrow> seed_out n target limit (fst y)"
    proof (intro impI)
      assume R: "rng_ok R" and n: "0 < n" and s: "seed_inv n target mix used unused"
      obtain p g1 where p: "rng_range R (length unused) g = (p, g1)" by fastforce
      obtain idx g2 where idx: "rng_range R n g = (idx, g2)" by fastforce
      consider "target \<le> length mix" | "length mix < target" "unused \<noteq> []" | "length mix < target" "unused = []"
        by linarith
      then show "seed_out n target limit (fst y)"
      proof cases
        case 1
        then show ?thesis using eq s by (auto simp: seed_inv_def seed_out_def)
      next
        case 2
        then have "unused ! p \<in> set unused" using rng_draw [OF R p] by simp
        then have "unused ! p < n" using s by (auto simp: seed_inv_def)
        from seed_push [OF s 2(1) this swap_remove_set [of p]] show ?thesis
          using IH eq 2 R n by (simp add: p Let_def)
      next
        case 3
        have "seed_inv n target (mix @ [idx]) (used[idx := used ! idx + 1]) unused"
          using seed_push [OF s 3(1) rng_draw [OF R idx n] subset_refl] .
        then show ?thesis using IH eq 3 R n s seed_full [OF s] by (auto simp: idx split: if_splits)
      qed
    qed
  qed
  then show ?thesis using R n by blast
qed

lemma target_len:
  assumes "0 < sr_count req" "max_len req \<le> 2 ^ 53"
  shows "nat_clamp (sr_count req) 1 (sat64 (sr_count req) (count_slack req)) = sr_count req"
    "sr_count req \<le> max_len req" "min_len req \<le> sr_count req"
  using assms by (auto simp: nat_clamp_def max_len_def sat64_def min_len_def min_def max_def split: if_splits)

lemma seed_mix_bounds:
  assumes R: "rng_ok R" and c: "cands \<noteq> []" and q: "0 < sr_count req" "max_len req \<le> 2 ^ 53"
    and r: "seed_mix R cands req g = Some (mix, g')"
  shows "set mix \<subseteq> {..<length cands} \<and> length mix \<le> max_len req \<and>
    (min_len req \<le> length cands * max_repeats req \<longrightarrow> in_range (length cands) req mix)"
proof -
  obtain mix0 where m0: "seed_loop R (length cands) (sr_count req) (max_repeats req) [] (replicate (length cands) 0) [0..<length cands] g = Some (mix0, g')"
      "mix = (if mix0 = [] then [0] else mix0)"
    using r unfolding seed_mix_def Let_def target_len(1) [OF q] by auto
  have "seed_inv (length cands) (sr_count req) [] (replicate (length cands) 0) [0..<length cands]"
    by (auto simp: seed_inv_def)
  then have "seed_out (length cands) (sr_count req) (max_repeats req) mix0"
    using seed_loop_out [OF R _ m0(1)] c by auto
  moreover have "1 \<le> min_len req" by (simp add: min_len_def)
  ultimately show ?thesis using m0(2) target_len [OF q] c by (auto simp: seed_out_def in_range_def)
qed

text \<open>The climb: its mix is in range, and its best mix is admissible with the kept evaluation.\<close>

definition climb_inv :: "cand list \<Rightarrow> select_request \<Rightarrow> 'g climb \<Rightarrow> bool" where
  "climb_inv cands req s \<longleftrightarrow> in_range (length cands) req (cl_mix s) \<and>
     (\<forall>e. cl_best_eval s = Some e \<longrightarrow>
        evaluate (cl_best_mix s) cands req = Some e \<and> admissible (length cands) req (cl_best_mix s))"

text \<open>What the search relies on: draws below their bound, candidates and enough of them.\<close>

definition search_ready :: "'g rng \<Rightarrow> cand list \<Rightarrow> select_request \<Rightarrow> bool" where
  "search_ready R cands req \<longleftrightarrow>
     rng_ok R \<and> cands \<noteq> [] \<and> 0 < sr_count req \<and> max_len req \<le> 2 ^ 53 \<and>
     min_len req \<le> length cands * max_repeats req"

lemma ready_seed: "search_ready R cands req \<Longrightarrow> seed_mix R cands req g = Some (mix, g') \<Longrightarrow> in_range (length cands) req mix"
  unfolding search_ready_def using seed_mix_bounds [of R cands req g mix g'] by blast

lemma ready_move:
  "search_ready R cands req \<Longrightarrow> in_range (length cands) req mix \<Longrightarrow>
     try_move R mix cands req (nearest_cand cands req) g = (trial, g') \<Longrightarrow> in_range (length cands) req trial"
  using try_move_in_range [OF _ nearest_cand_less] unfolding search_ready_def by (metis fst_conv)

lemma ready_perturb:
  "search_ready R cands req \<Longrightarrow> in_range (length cands) req mix \<Longrightarrow>
     perturb R cands req (nearest_cand cands req) k (mix, g) = (mix', g') \<Longrightarrow> in_range (length cands) req mix'"
  using perturb_in_range [OF _ nearest_cand_less] unfolding search_ready_def by (metis fst_conv)

lemma restart_inv:
  assumes R: "search_ready R cands req" and s: "climb_inv cands req s" and r: "restart R cands req (nearest_cand cands req) s = Some s'"
  shows "climb_inv cands req s'"
proof -
  have "in_range (length cands) req mix"
    if "perturb R cands req (nearest_cand cands req) 4 (cl_best_mix s, g) = (mix, g')" "cl_best_eval s \<noteq> None" for mix g g'
    using ready_perturb [OF R _ that(1)] that(2) s by (auto simp: climb_inv_def admissible_in_range)
  then show ?thesis
    using s r ready_seed [OF R] by (auto simp: restart_def climb_inv_def split: if_splits)
qed

lemma judge_inv:
  assumes "climb_inv cands req s" "in_range (length cands) req trial" "judge R cands req trial s = (stop, s')"
  shows "climb_inv cands req s'"
  using assms by (auto simp: judge_def climb_inv_def admissible_in_range split: if_splits option.splits prod.splits)

lemma climb_loop_inv:
  "search_ready R cands req \<Longrightarrow> climb_inv cands req s \<Longrightarrow> climb_loop R cands req (nearest_cand cands req) k s = Some s' \<Longrightarrow> climb_inv cands req s'"
proof (induction k arbitrary: s)
  case (Suc k)
  let ?near = "nearest_cand cands req"
  obtain s1 where s1: "restart R cands req ?near (s\<lparr>cl_work := cl_work s + 1\<rparr>) = Some s1"
    using Suc.prems(3) by (auto split: option.splits)
  have i0: "climb_inv cands req (s\<lparr>cl_work := cl_work s + 1\<rparr>)" using Suc.prems(2) by (simp add: climb_inv_def)
  note i1 = restart_inv [OF Suc.prems(1) i0 s1]
  obtain trial g where t: "try_move R (cl_mix s1) cands req ?near (cl_g s1) = (trial, g)" by fastforce
  have r: "in_range (length cands) req trial"
    using ready_move [OF Suc.prems(1) _ t] i1 by (simp add: climb_inv_def)
  obtain stop s2 where j: "judge R cands req trial (s1\<lparr>cl_stagnant := cl_stagnant s1 + 1, cl_g := g\<rparr>) = (stop, s2)" by fastforce
  have "climb_inv cands req (s1\<lparr>cl_stagnant := cl_stagnant s1 + 1, cl_g := g\<rparr>)" using i1 by (simp add: climb_inv_def)
  from judge_inv [OF this r j] have i2: "climb_inv cands req s2" .
  show ?case using Suc.prems(3) Suc.IH [OF Suc.prems(1) i2] i2 s1 t j by (auto split: if_splits)
qed simp

lemma search_from_sound:
  assumes R: "search_ready R cands req" and m: "in_range (length cands) req mix" and f: "search_from R cands req res mix g = Some (Inr r)"
    and x: "exact_lengths cands req" and b: "finite_bounds req"
  shows "mix_ok cands req r"
proof -
  define s0 where "s0 = \<lparr>cl_mix = mix, cl_best_mix = mix, cl_best_eval = first_eval cands req mix, cl_stagnant = 0,
    cl_perturb = True, cl_work = cr_work res, cl_g = g\<rparr>"
  obtain k s where s: "climb_loop R cands req (nearest_cand cands req) k s0 = Some s"
      "select_result cands req (cr_exact res) (cl_best_mix s) (cl_best_eval s) (cl_work s) = Inr r"
    using f that unfolding search_from_def Let_def s0_def [symmetric]
    by (auto simp del: climb_loop.simps split: if_splits)
  have "climb_inv cands req s0"
    using m by (auto simp: climb_inv_def s0_def first_eval_def admissible_in_range split: if_splits)
  from climb_loop_inv [OF R this s(1)] have i: "climb_inv cands req s" .
  obtain e where e: "cl_best_eval s = Some e" "feq (excess (ev_score e)) (Fin 0)"
    using s(2) by (auto simp: select_result_def Let_def split: option.splits if_splits)
  have ad: "admissible (length cands) req (cl_best_mix s)" and ev: "evaluate (cl_best_mix s) cands req = Some e"
    using i e(1) by (auto simp: climb_inv_def)
  obtain e' where "evaluate (cl_best_mix s) cands req = Some e'"
      "feq (excess (ev_score e')) (Fin 0) \<longleftrightarrow> meets cands req (cl_best_mix s)"
    using evaluate_meets [OF x b, of "cl_best_mix s"] ad admissible_not_Nil [OF ad] by (auto simp: admissible_iff)
  then have "meets cands req (cl_best_mix s)" using ev e(2) by simp
  then show ?thesis
    using ad s(2) e ev unfolding mix_ok_def
    by (intro exI [of _ "cl_best_mix s"]) (auto simp: select_result_def Let_def evaluate_Some_iff)
qed

end
