(* ===== verification/Mix_Exhaustive.thy ===== *)
theory Mix_Exhaustive
  imports Mix_Correct
begin

text \<open>
  The exhaustive search. The reference is the recursive enumeration of the compositions of a
  number into parts bounded by the capacities of the buckets; the iterative depth-first search
  visits exactly these, in their order, and the capped counts of the table are their numbers.
\<close>

subsection \<open>Compositions\<close>

fun compositions :: "nat list \<Rightarrow> nat \<Rightarrow> nat list list" where
  "compositions [] n = (if n = 0 then [[]] else [])"
| "compositions (c # cs) n = concat (map (\<lambda>v. map (Cons v) (compositions cs (n - v))) [0..<Suc (min c n)])"

lemma compositions_iff:
  "v \<in> set (compositions cs n) \<longleftrightarrow> list_all2 (\<le>) v cs \<and> sum_list v = n"
proof (induction cs arbitrary: v n)
  case (Cons c cs)
  show ?case
    by (cases v) (auto simp: Cons.IH image_iff less_Suc_eq_le simp del: upt_Suc)
qed auto

lemma compositions_empty: "sum_list cs < n \<Longrightarrow> compositions cs n = []"
proof (rule ccontr)
  assume l: "sum_list cs < n" and "compositions cs n \<noteq> []"
  then obtain v where "v \<in> set (compositions cs n)" by (meson last_in_set)
  then have "list_all2 (\<le>) v cs" "sum_list v = n" by (simp_all add: compositions_iff)
  moreover have "list_all2 (\<le>) v cs \<Longrightarrow> sum_list v \<le> sum_list cs" by (induction rule: list_all2_induct) auto
  ultimately show False using l by simp
qed

text \<open>The values of the first part below \<open>n\<close> minus what the others can hold have no completion.\<close>

lemma compositions_prune:
  assumes "s = sum_list cs \<or> sum_list cs \<ge> s \<and> n \<le> s"
  shows "compositions (c # cs) n =
     concat (map (\<lambda>v. map (Cons v) (compositions cs (n - v))) [n - s..<Suc (min c n)])"
proof -
  let ?f = "\<lambda>v. map (Cons v) (compositions cs (n - v))"
  have e: "concat (map ?f [0..<m]) = []" if "m \<le> n - s" for m
    using that assms by (auto intro!: compositions_empty)
  show ?thesis
  proof (cases "n - s \<le> Suc (min c n)")
    case True
    then have "[0..<Suc (min c n)] = [0..<n - s] @ [n - s..<Suc (min c n)]"
      using upt_add_eq_append [of 0 "n - s" "Suc (min c n) - (n - s)"] by simp
    then show ?thesis using e [of "n - s"] by (simp del: upt_Suc)
  next
    case False
    then show ?thesis using e [of "Suc (min c n)"] by (simp del: upt_Suc)
  qed
qed

subsection \<open>The depth-first search\<close>

definition visit ::
  "cand list \<Rightarrow> select_request \<Rightarrow> nat list list \<Rightarrow> nat list \<Rightarrow> best_mix \<times> nat \<Rightarrow> best_mix \<times> nat" where
  "visit cands req buckets counts bw =
     (consider_composition cands req (composition_mix buckets counts) (fst bw), snd bw + 1)"

definition dfs_wf :: "nat list \<Rightarrow> dfs \<Rightarrow> bool" where
  "dfs_wf caps s \<longleftrightarrow> length (d_counts s) = length caps \<and> length (d_next s) = length caps \<and>
     length (d_remaining s) = Suc (length caps)"

text \<open>Both states agree on what lies above level \<open>i\<close>.\<close>

definition same_path :: "nat \<Rightarrow> dfs \<Rightarrow> dfs \<Rightarrow> bool" where
  "same_path i s t \<longleftrightarrow> take i (d_counts t) = take i (d_counts s) \<and>
     take (Suc i) (d_remaining t) = take (Suc i) (d_remaining s)"

definition outcome :: "dfs \<Rightarrow> best_mix \<times> nat" where
  "outcome s = (d_best s, d_work s)"

lemma suffix_sums_length [simp]: "length (suffix_sums cs) = Suc (length cs)"
  by (induction cs) (simp_all add: Let_def)

lemma suffix_sums_hd: "hd (suffix_sums cs) = min (sum_list cs) (2 ^ 64 - 1)"
  by (induction cs) (auto simp: Let_def sat64_def)

lemma suffix_sums_nth: "i \<le> length cs \<Longrightarrow> suffix_sums cs ! i = min (sum_list (drop i cs)) (2 ^ 64 - 1)"
proof (induction cs arbitrary: i)
  case (Cons c cs)
  then show ?case using suffix_sums_hd [of "c # cs"] by (cases i) (auto simp: Let_def)
qed simp

definition finished :: "cand list \<Rightarrow> select_request \<Rightarrow> nat list list \<Rightarrow> nat list \<Rightarrow> dfs \<Rightarrow> bool" where
  "finished cands req buckets caps s \<longleftrightarrow>
     (\<exists>t. dfs_loop cands req buckets caps (suffix_sums caps) s = dfs_loop cands req buckets caps (suffix_sums caps) t \<and>
        dfs_wf caps t \<and> d_i t = d_i s - 1 \<and> same_path (d_i s) s t \<and> d_next t = d_next s \<and>
        outcome t = fold (visit cands req buckets)
          (map ((@) (take (d_i s) (d_counts s))) (compositions (drop (d_i s) caps) (d_remaining s ! d_i s))) (outcome s))"

lemma finished_leaf:
  assumes "dfs_wf caps s" "d_i s = length caps"
  shows "finished cands req buckets caps s"
proof -
  define s' where "s' = (if d_remaining s ! length caps = 0
    then s\<lparr>d_best := consider_composition cands req (composition_mix buckets (d_counts s)) (d_best s), d_work := d_work s + 1\<rparr>
    else s)"
  have "dfs_step cands req buckets caps (suffix_sums caps) s = Inl (s'\<lparr>d_i := length caps - 1\<rparr>)"
    using assms(2) by (simp add: dfs_step_def s'_def)
  then have "dfs_loop cands req buckets caps (suffix_sums caps) s = dfs_loop cands req buckets caps (suffix_sums caps) (s'\<lparr>d_i := length caps - 1\<rparr>)"
    by (subst dfs_loop.simps) simp
  then show ?thesis unfolding finished_def
    using assms by (intro exI [of _ "s'\<lparr>d_i := length caps - 1\<rparr>"])
      (auto simp: s'_def dfs_wf_def same_path_def outcome_def visit_def)
qed

text \<open>The values still to be tried at a level, and the round that tries the next one.\<close>

definition fresh :: "nat list \<Rightarrow> nat \<Rightarrow> dfs \<Rightarrow> bool" where
  "fresh caps i s \<longleftrightarrow> (\<forall>j. i \<le> j \<longrightarrow> j < length caps \<longrightarrow> d_next s ! j = 0)"

definition lowest :: "nat list \<Rightarrow> dfs \<Rightarrow> nat" where
  "lowest caps s = max (d_next s ! d_i s) (d_remaining s ! d_i s - suffix_sums caps ! (d_i s + 1))"

definition highest :: "nat list \<Rightarrow> dfs \<Rightarrow> nat" where
  "highest caps s = min (caps ! d_i s) (d_remaining s ! d_i s)"

definition tried :: "nat list \<Rightarrow> dfs \<Rightarrow> nat list \<Rightarrow> nat list list" where
  "tried caps s vs = concat (map (\<lambda>v. map ((@) (take (d_i s) (d_counts s) @ [v]))
     (compositions (drop (Suc (d_i s)) caps) (d_remaining s ! d_i s - v))) vs)"

definition descend :: "nat list \<Rightarrow> dfs \<Rightarrow> dfs" where
  "descend caps s = (let i = d_i s; v = lowest caps s in
     s\<lparr>d_counts := (d_counts s)[i := v], d_next := (d_next s)[i := v + 1],
       d_remaining := (d_remaining s)[i + 1 := d_remaining s ! i - v], d_i := i + 1\<rparr>)"

lemma dfs_step_descend:
  "d_i s < length caps \<Longrightarrow> lowest caps s \<le> highest caps s \<Longrightarrow>
     dfs_step cands req buckets caps (suffix_sums caps) s = Inl (descend caps s)"
  by (auto simp: dfs_step_def descend_def lowest_def highest_def Let_def not_less)

lemma dfs_step_exhausted:
  "d_i s < length caps \<Longrightarrow> highest caps s < lowest caps s \<Longrightarrow>
     dfs_step cands req buckets caps (suffix_sums caps) s =
       (let s' = s\<lparr>d_next := (d_next s)[d_i s := 0]\<rparr> in if d_i s = 0 then Inr s' else Inl (s'\<lparr>d_i := d_i s - 1\<rparr>))"
  by (simp add: dfs_step_def lowest_def highest_def Let_def)

text \<open>From a level whose subtrees finish, the loop reaches the state where its values are exhausted.\<close>

lemma level_exhausted:
  assumes sub: "\<And>s. dfs_wf caps s \<Longrightarrow> d_i s = Suc i \<Longrightarrow> fresh caps (Suc i) s \<Longrightarrow>
      d_remaining s ! Suc i < 2 ^ 64 \<Longrightarrow> finished cands req buckets caps s"
    and i: "i < length caps"
  shows "dfs_wf caps s \<Longrightarrow> d_i s = i \<Longrightarrow> fresh caps (Suc i) s \<Longrightarrow> d_remaining s ! i < 2 ^ 64 \<Longrightarrow>
    \<exists>t. dfs_loop cands req buckets caps (suffix_sums caps) s = dfs_loop cands req buckets caps (suffix_sums caps) t \<and>
      dfs_wf caps t \<and> d_i t = i \<and> same_path i s t \<and> highest caps t < lowest caps t \<and>
      (d_next t)[i := 0] = (d_next s)[i := 0] \<and>
      outcome t = fold (visit cands req buckets) (tried caps s [lowest caps s..<Suc (highest caps s)]) (outcome s)"
proof (induction "Suc (highest caps s) - lowest caps s" arbitrary: s rule: less_induct)
  case less
  show ?case
  proof (cases "highest caps s < lowest caps s")
    case True
    then show ?thesis using less.prems
      by (intro exI [of _ s]) (simp add: same_path_def tried_def del: upt_Suc)
  next
    case False
    define v where "v = lowest caps s"
    define s1 where "s1 = descend caps s"
    have len: "i < length (d_counts s)" "i < length (d_next s)" "Suc i < length (d_remaining s)"
      using less.prems(1) i by (auto simp: dfs_wf_def)
    have s1: "dfs_wf caps s1" "d_i s1 = Suc i" "fresh caps (Suc i) s1" "d_counts s1 = (d_counts s)[i := v]"
        "d_next s1 = (d_next s)[i := v + 1]" "d_remaining s1 = (d_remaining s)[Suc i := d_remaining s ! i - v]"
        "outcome s1 = outcome s"
      using less.prems by (auto simp: s1_def descend_def Let_def dfs_wf_def fresh_def v_def outcome_def)
    have rest: "d_remaining s1 ! Suc i < 2 ^ 64" using s1(6) len less.prems(4) by simp
    obtain t where t: "dfs_loop cands req buckets caps (suffix_sums caps) s1 = dfs_loop cands req buckets caps (suffix_sums caps) t"
        "dfs_wf caps t" "d_i t = i" "same_path (Suc i) s1 t" "d_next t = d_next s1"
        "outcome t = fold (visit cands req buckets) (map ((@) (take (Suc i) (d_counts s1)))
          (compositions (drop (Suc i) caps) (d_remaining s1 ! Suc i))) (outcome s1)"
      using sub [OF s1(1-3) rest] s1(2) by (auto simp: finished_def)
    have ls: "dfs_loop cands req buckets caps (suffix_sums caps) s = dfs_loop cands req buckets caps (suffix_sums caps) t"
      using dfs_step_descend [of s caps cands req buckets] less.prems(2) i False t(1)
      by (subst dfs_loop.simps) (simp add: s1_def not_less)
    have path: "take i (d_counts t) = take i (d_counts s)" "take (Suc i) (d_remaining t) = take (Suc i) (d_remaining s)"
      using t(4) s1(4,6) by (auto simp: same_path_def) (metis append_eq_conv_conj list_update_same_conv
        min.absorb1 nat_le_linear take_Suc_conv_app_nth take_take take_update_cancel le_SucI le_refl)+
    have rem: "d_remaining t ! i = d_remaining s ! i"
      using path(2) by (metis lessI nth_take)
    have nxt: "d_next t ! i = v + 1" using t(5) s1(5) len by simp
    have eqs: "highest caps t = highest caps s" "lowest caps t = v + 1"
      using rem nxt t(3) less.prems(2) by (auto simp: highest_def lowest_def v_def)
    have fr: "fresh caps (Suc i) t" using t(5) s1(3) by (simp add: fresh_def)
    have "Suc (highest caps t) - lowest caps t < Suc (highest caps s) - lowest caps s"
      using eqs False by (simp add: v_def)
    from less.hyps [OF this t(2,3) fr] rem less.prems(4) obtain u where u:
      "dfs_loop cands req buckets caps (suffix_sums caps) t = dfs_loop cands req buckets caps (suffix_sums caps) u"
      "dfs_wf caps u" "d_i u = i" "same_path i t u" "highest caps u < lowest caps u" "(d_next u)[i := 0] = (d_next t)[i := 0]"
      "outcome u = fold (visit cands req buckets) (tried caps t [v + 1..<Suc (highest caps s)]) (outcome t)"
      unfolding eqs by auto
    have "tried caps t vs = tried caps s vs" for vs
      using path(1) rem t(3) less.prems(2) by (simp add: tried_def)
    moreover have "[v..<Suc (highest caps s)] = v # [v + 1..<Suc (highest caps s)]"
      using False by (simp add: v_def upt_conv_Cons)
    moreover have "outcome t = fold (visit cands req buckets) (tried caps s [v]) (outcome s)"
      using t(6) s1 len less.prems(2) by (simp add: tried_def take_Suc_conv_app_nth)
    ultimately have "outcome u = fold (visit cands req buckets) (tried caps s [v..<Suc (highest caps s)]) (outcome s)"
      using u(7) by (simp add: tried_def)
    moreover have "same_path i s u" using u(4) path by (auto simp: same_path_def)
    moreover have "(d_next u)[i := 0] = (d_next s)[i := 0]" using u(6) t(5) s1(5) by simp
    ultimately show ?thesis using u ls by (intro exI [of _ u]) (simp add: v_def)
  qed
qed

lemma fresh_Suc: "fresh caps i s \<Longrightarrow> fresh caps (Suc i) s"
  by (simp add: fresh_def)

text \<open>At a fresh level the tried values give the compositions of what remains.\<close>

lemma tried_compositions:
  assumes "dfs_wf caps s" "d_i s < length caps" "fresh caps (d_i s) s" "d_remaining s ! d_i s < 2 ^ 64"
  shows "tried caps s [lowest caps s..<Suc (highest caps s)] =
    map ((@) (take (d_i s) (d_counts s))) (compositions (drop (d_i s) caps) (d_remaining s ! d_i s))"
proof -
  let ?i = "d_i s" and ?n = "d_remaining s ! d_i s"
  let ?s = "suffix_sums caps ! Suc ?i" and ?cs = "drop (Suc ?i) caps"
  have sfx: "?s = min (sum_list ?cs) (2 ^ 64 - 1)"
    using assms(2) by (intro suffix_sums_nth) simp
  have "?s = sum_list ?cs \<or> sum_list ?cs \<ge> ?s \<and> ?n \<le> ?s"
    using sfx assms(4) by (auto simp: min_def)
  note prune = compositions_prune [OF this, of "caps ! ?i"]
  have low: "lowest caps s = ?n - ?s" using assms(2,3) by (simp add: lowest_def fresh_def)
  have "drop ?i caps = caps ! ?i # ?cs" using assms(2) by (simp add: Cons_nth_drop_Suc)
  moreover have "(@) (xs @ [v]) = (\<lambda>ys. xs @ v # ys)" for xs and v :: nat by (rule ext) simp
  ultimately show ?thesis
    using prune by (simp add: tried_def low highest_def map_concat o_def del: upt_Suc compositions.simps)
qed

text \<open>Every subtree finishes.\<close>

lemma subtree_finishes:
  "i \<le> length caps \<Longrightarrow> dfs_wf caps s \<Longrightarrow> d_i s = i \<Longrightarrow> 0 < i \<Longrightarrow> fresh caps i s \<Longrightarrow>
     d_remaining s ! i < 2 ^ 64 \<Longrightarrow> finished cands req buckets caps s"
proof (induction i arbitrary: s rule: inc_induct)
  case base
  then show ?case by (intro finished_leaf)
next
  case (step i)
  have sub: "finished cands req buckets caps s'"
    if "dfs_wf caps s'" "d_i s' = Suc i" "fresh caps (Suc i) s'" "d_remaining s' ! Suc i < 2 ^ 64" for s'
    using that by (intro step.IH) simp_all
  obtain t where t: "dfs_loop cands req buckets caps (suffix_sums caps) s = dfs_loop cands req buckets caps (suffix_sums caps) t"
      "dfs_wf caps t" "d_i t = i" "same_path i s t" "highest caps t < lowest caps t" "(d_next t)[i := 0] = (d_next s)[i := 0]"
      "outcome t = fold (visit cands req buckets) (tried caps s [lowest caps s..<Suc (highest caps s)]) (outcome s)"
    using level_exhausted [OF sub step.hyps(2) step.prems(1,2) fresh_Suc [OF step.prems(4)] step.prems(5)]
    by auto
  define u where "u = t\<lparr>d_next := (d_next t)[i := 0], d_i := i - 1\<rparr>"
  have "dfs_loop cands req buckets caps (suffix_sums caps) t = dfs_loop cands req buckets caps (suffix_sums caps) u"
    using dfs_step_exhausted [of t caps cands req buckets] t(3,5) step.hyps(2) step.prems(3)
    by (subst dfs_loop.simps) (simp add: u_def Let_def)
  moreover have "d_next u = d_next s"
    using t(6) step.prems(1,4) step.hyps(2)
    by (simp add: u_def dfs_wf_def fresh_def) (metis list_update_id order_refl)
  ultimately show ?case
    using t step.prems step.hyps(2) tried_compositions [of caps s]
    unfolding finished_def by (intro exI [of _ u]) (simp add: u_def dfs_wf_def same_path_def outcome_def)
qed

text \<open>The loop returns, and it has visited the compositions of \<open>n\<close> in order.\<close>

theorem dfs_visits_compositions:
  assumes "n < 2 ^ 64" "caps \<noteq> []"
  shows "\<exists>s. dfs_loop cands req buckets caps (suffix_sums caps) (dfs_init caps n bw) = Some s \<and>
    (d_best s, d_work s) = fold (visit cands req buckets) (compositions caps n) bw"
proof -
  let ?s = "dfs_init caps n bw"
  have s: "dfs_wf caps ?s" "d_i ?s = 0" "fresh caps 0 ?s" "d_remaining ?s ! 0 < 2 ^ 64"
    using assms(1) by (simp_all add: dfs_init_def dfs_wf_def fresh_def)
  have sub: "finished cands req buckets caps s'"
    if "dfs_wf caps s'" "d_i s' = Suc 0" "fresh caps (Suc 0) s'" "d_remaining s' ! Suc 0 < 2 ^ 64" for s'
    using that assms(2) by (intro subtree_finishes) (simp_all add: Suc_le_eq)
  obtain t where t: "dfs_loop cands req buckets caps (suffix_sums caps) ?s = dfs_loop cands req buckets caps (suffix_sums caps) t"
      "d_i t = 0" "highest caps t < lowest caps t"
      "outcome t = fold (visit cands req buckets) (tried caps ?s [lowest caps ?s..<Suc (highest caps ?s)]) (outcome ?s)"
    using level_exhausted [OF sub _ s(1,2) fresh_Suc [OF s(3)] s(4)] assms(2) by auto
  have "dfs_loop cands req buckets caps (suffix_sums caps) t = Some (t\<lparr>d_next := (d_next t)[0 := 0]\<rparr>)"
    using dfs_step_exhausted [of t caps cands req buckets] t(2,3) assms(2)
    by (subst dfs_loop.simps) (simp add: Let_def)
  moreover have "outcome t = fold (visit cands req buckets) (compositions caps n) bw"
  proof -
    have "d_remaining ?s ! 0 = n" "outcome ?s = bw" by (simp_all add: dfs_init_def outcome_def)
    moreover have "map ((@) []) xs = xs" for xs :: "nat list list" by (simp add: map_idI)
    ultimately show ?thesis
      using t(4) tried_compositions [OF s(1)] s(2-4) assms(2) by (simp del: upt_Suc)
  qed
  ultimately show ?thesis using t(1) by (simp add: outcome_def)
qed

subsection \<open>The number of compositions\<close>

definition ways :: "nat list \<Rightarrow> nat \<Rightarrow> nat" where
  "ways cs n = length (compositions cs n)"

lemma sum_window_reflect: "(\<Sum>v \<leftarrow> [0..<Suc (min c n)]. f (n - v)) = (\<Sum>j \<in> {n - c..<Suc n}. f j)" for f :: "nat \<Rightarrow> nat"
proof -
  have "(\<Sum>v \<leftarrow> [0..<Suc (min c n)]. f (n - v)) = (\<Sum>v \<in> {0..<Suc (min c n)}. f (n - v))"
    by (simp only: sum_list_distinct_conv_sum_set distinct_upt set_upt)
  also have "\<dots> = (\<Sum>j \<in> {n - c..<Suc n}. f j)"
    by (rule sum.reindex_bij_witness [of _ "\<lambda>j. n - j" "\<lambda>v. n - v"]) auto
  finally show ?thesis .
qed

lemma ways_Cons: "ways (c # cs) n = (\<Sum>j \<in> {n - c..<Suc n}. ways cs j)"
  using sum_window_reflect [where c = c and n = n and f = "\<lambda>j. length (compositions cs j)"]
  by (simp add: ways_def length_concat o_def del: upt_Suc sum.op_ivl_Suc)

lemma compositions_distinct: "distinct (compositions cs n)"
proof (induction cs arbitrary: n)
  case (Cons c cs)
  have "distinct (concat (map (\<lambda>v. map (Cons v) (compositions cs (n - v))) vs))" if "distinct vs" for vs
    using that Cons.IH by (induction vs) (auto simp: distinct_map inj_on_def)
  then show ?case by (simp del: upt_Suc)
qed simp

lemma ways_card: "ways cs n = card {v. list_all2 (\<le>) v cs \<and> sum_list v = n}"
proof -
  have "set (compositions cs n) = {v. list_all2 (\<le>) v cs \<and> sum_list v = n}" by (auto simp: compositions_iff)
  then show ?thesis unfolding ways_def using distinct_card [OF compositions_distinct [of cs n]] by simp
qed

lemma ways_rev: "ways (rev cs) n = ways cs n"
  unfolding ways_card
  by (rule bij_betw_same_card [of rev], rule bij_betw_byWitness [of _ rev]) (auto simp: list_all2_rev1 sum_list_rev)

text \<open>The table: after some buckets it holds the capped number of compositions over them.\<close>

definition window_sum :: "nat list \<Rightarrow> nat \<Rightarrow> nat \<Rightarrow> nat" where
  "window_sum dp a b = (\<Sum>j \<in> {a..<b}. dp ! j)"

lemma dp_cells_nth:
  "m \<le> l \<Longrightarrow> w = window_sum dp (m - 1 - c) m \<Longrightarrow> k < l - m \<Longrightarrow>
     dp_cells cap c dp w [m..<l] ! k = min (window_sum dp (m + k - c) (Suc (m + k))) cap"
proof (induction "l - m" arbitrary: m w k)
  case (Suc d)
  then have m: "m < l" by simp
  have add: "w + dp ! m = window_sum dp (m - 1 - c) (Suc m)"
    using Suc.prems(2) by (auto simp: window_sum_def)
  have sub: "(if c < m then w + dp ! m - dp ! (m - c - 1) else w + dp ! m) = window_sum dp (m - c) (Suc m)"
  proof (cases "c < m")
    case True
    then have "m - c = Suc (m - c - 1)" by simp
    then have "window_sum dp (m - c - 1) (Suc m) = dp ! (m - c - 1) + window_sum dp (m - c) (Suc m)"
      unfolding window_sum_def by (subst sum.atLeast_Suc_lessThan) auto
    then show ?thesis using True add by (simp add: diff_commute)
  next
    case False
    then show ?thesis using add by simp
  qed
  have e: "dp_cells cap c dp w [m..<l] =
      min (window_sum dp (m - c) (Suc m)) cap # dp_cells cap c dp (window_sum dp (m - c) (Suc m)) [Suc m..<l]"
    using sub m by (simp add: upt_conv_Cons Let_def)
  show ?case
  proof (cases k)
    case 0
    then show ?thesis by (simp add: e)
  next
    case (Suc k')
    have "dp_cells cap c dp (window_sum dp (m - c) (Suc m)) [Suc m..<l] ! k' =
        min (window_sum dp (Suc m + k' - c) (Suc (Suc m + k'))) cap"
      using Suc.hyps Suc.prems \<open>k = Suc k'\<close> by (intro Suc.hyps(1)) auto
    then show ?thesis by (simp add: e Suc)
  qed
qed simp

lemma dp_cells_length [simp]: "length (dp_cells cap c dp w ns) = length ns"
  by (induction cap c dp w ns rule: dp_cells.induct) (simp_all add: Let_def)

lemma dp_next_nth: "n < length dp \<Longrightarrow> dp_next cap c dp ! n = min (window_sum dp (n - c) (Suc n)) cap"
  using dp_cells_nth [of 0 "length dp" 0 dp c n cap] by (simp add: dp_next_def window_sum_def)

lemma dp_next_length [simp]: "length (dp_next cap c dp) = length dp"
  by (simp add: dp_next_def)

lemma min_sum_min: "min (\<Sum>j \<in> A. min (f j) c) c = min (\<Sum>j \<in> A. f j) c" if "finite A" for f :: "'a \<Rightarrow> nat"
  using that by (induction A rule: finite_induct) (auto simp: min_def split: if_splits)

definition capped_ways :: "nat \<Rightarrow> nat list \<Rightarrow> nat list \<Rightarrow> bool" where
  "capped_ways cap cs dp \<longleftrightarrow> (\<forall>n < length dp. dp ! n = min (ways cs n) cap)"

lemma dp_next_ways: "capped_ways cap cs dp \<Longrightarrow> capped_ways cap (c # cs) (dp_next cap c dp)"
proof -
  assume dp: "capped_ways cap cs dp"
  have "window_sum dp (n - c) (Suc n) = (\<Sum>j \<in> {n - c..<Suc n}. min (ways cs j) cap)" if "n < length dp" for n
    unfolding window_sum_def using dp that by (intro sum.cong) (auto simp: capped_ways_def)
  then show ?thesis by (simp add: capped_ways_def dp_next_nth min_sum_min ways_Cons del: sum.op_ivl_Suc)
qed

lemma dp_loop_length [simp]: "length (dp_loop cap lo hi caps dp) = length dp"
  by (induction cap lo hi caps dp rule: dp_loop.induct) (simp_all add: Let_def)

lemma dp_loop_ways:
  "capped_ways cap cs dp \<Longrightarrow>
     dp_total cap lo hi (dp_loop cap lo hi caps dp) = cap \<or> capped_ways cap (rev caps @ cs) (dp_loop cap lo hi caps dp)"
proof (induction cap lo hi caps dp arbitrary: cs rule: dp_loop.induct)
  case (2 cap lo hi c caps dp)
  then show ?case using dp_next_ways [OF 2(2), of c] by (auto simp: Let_def)
qed simp

lemma dp_total_min:
  assumes "cap < 2 ^ 64"
  shows "dp_total cap lo hi dp = min (sum_list (drop lo (take (hi + 1) dp))) cap"
proof -
  have "fold (\<lambda>n sum. min (sat64 sum n) cap) xs s = min (s + sum_list xs) cap" if "s \<le> cap" for xs s
    using that assms by (induction xs arbitrary: s) (auto simp: sat64_def min_def)
  then show ?thesis by (simp add: dp_total_def)
qed

text \<open>When the search is exhaustive, the table holds the exact numbers and they are within the limit.\<close>

lemma exact_table:
  assumes "cap < 2 ^ 64" "0 < cap" and e: "dp_total cap lo hi dp < cap"
    and dp: "dp = dp_loop cap lo hi caps (1 # replicate hi 0)"
  shows "(\<forall>n. lo \<le> n \<longrightarrow> n \<le> hi \<longrightarrow> dp ! n = ways caps n) \<and> (\<Sum>n \<leftarrow> [lo..<Suc hi]. ways caps n) = dp_total cap lo hi dp"
proof -
  have "capped_ways cap [] (1 # replicate hi 0)"
    using assms(2) by (auto simp: capped_ways_def ways_def nth_Cons split: nat.splits)
  then have w: "dp ! n = min (ways caps n) cap" if "n \<le> hi" for n
    using dp_loop_ways [of cap "[]" "1 # replicate hi 0" lo hi caps] e that
    by (auto simp: dp capped_ways_def ways_rev less_Suc_eq_le)
  have len: "length dp = Suc hi" by (simp add: dp)
  have slice: "drop lo (take (Suc hi) dp) = map ((!) dp) [lo..<Suc hi]"
    using len by (intro nth_equalityI) (auto simp del: upt_Suc)
  have tot: "sum_list (map ((!) dp) [lo..<Suc hi]) = dp_total cap lo hi dp"
    using e dp_total_min [OF assms(1), of lo hi dp] by (simp add: slice del: upt_Suc)
  have lt: "dp ! n < cap" if "lo \<le> n" "n \<le> hi" for n
  proof -
    have "dp ! n \<le> sum_list (map ((!) dp) [lo..<Suc hi])"
      using that by (intro member_le_sum_list) (auto simp del: upt_Suc)
    then show ?thesis using tot e by simp
  qed
  have eq: "dp ! n = ways caps n" if "lo \<le> n" "n \<le> hi" for n
    using w [OF that(2)] lt [OF that] by (simp add: min_def split: if_splits)
  have "(\<Sum>n \<leftarrow> [lo..<Suc hi]. ways caps n) = sum_list (map ((!) dp) [lo..<Suc hi])"
    using eq by (intro arg_cong [of _ _ sum_list] map_cong) (auto simp del: upt_Suc)
  then show ?thesis using eq tot by simp
qed

text \<open>All lengths in turn.\<close>

lemma search_lengths_visits:
  assumes "caps \<noteq> []"
  shows "list_all (\<lambda>n. n < 2 ^ 64 \<and> dp ! n = ways caps n) ns \<Longrightarrow>
    search_lengths cands req buckets caps dp ns bw =
      Some (fold (visit cands req buckets) (concat (map (compositions caps) ns)) bw)"
proof (induction ns arbitrary: bw)
  case (Cons n ns)
  show ?case
  proof (cases "ways caps n = 0")
    case True
    then show ?thesis using Cons by (simp add: ways_def)
  next
    case False
    obtain s where "dfs_loop cands req buckets caps (suffix_sums caps) (dfs_init caps n bw) = Some s"
        "(d_best s, d_work s) = fold (visit cands req buckets) (compositions caps n) bw"
      using dfs_visits_compositions [of n caps cands req buckets bw] assms Cons.prems by auto
    then show ?thesis using Cons False by simp
  qed
qed simp

lemma fold_visit:
  "fold (visit cands req buckets) cs bw =
     (fold (consider_composition cands req) (map (composition_mix buckets) cs) (fst bw), snd bw + length cs)"
  by (induction cs arbitrary: bw) (simp_all add: visit_def)

subsection \<open>Buckets\<close>

definition buckets_ok :: "cand list \<Rightarrow> nat list list \<Rightarrow> bool" where
  "buckets_ok cands buckets \<longleftrightarrow> distinct (concat buckets) \<and> set (concat buckets) = {..<length cands} \<and>
     [] \<notin> set buckets \<and> list_all (\<lambda>b. \<exists>k. list_all (\<lambda>i. cand_key (cands ! i) = k) b) buckets"

lemma group_cells_buckets: "buckets_ok cands (bt_values (group_cells cands))"
proof -
  have d: "distinct (concat (map snd m))"
    if "distinct (map fst m)" "list_all (\<lambda>(k, is). is = cell_rows cands k) m" for m
    using that
  proof (induction m)
    case (Cons p m)
    obtain k "is" where p: "p = (k, is)" by fastforce
    have "set is \<inter> set (snd q) = {}" if "q \<in> set m" for q
    proof -
      have "fst q \<noteq> k" using that Cons.prems(1) p by (metis distinct.simps(2) fst_conv image_eqI list.set_map list.simps(9))
      moreover have "is = cell_rows cands k" "snd q = cell_rows cands (fst q)"
        using Cons.prems(2) p that by (auto simp: list_all_iff)
      ultimately show ?thesis by (auto simp: cell_rows_def)
    qed
    then have "set is \<inter> set (concat (map snd m)) = {}" unfolding set_concat list.set_map by blast
    moreover have "distinct is" using Cons.prems(2) p by (simp add: cell_rows_def)
    moreover have "distinct (concat (map snd m))" using Cons.prems by (intro Cons.IH) simp_all
    ultimately show ?case by (simp add: p)
  qed simp
  have all: "(k, is) \<in> set (group_cells cands) \<longleftrightarrow> is \<noteq> [] \<and> is = cell_rows cands k" for k "is"
    by (rule group_cells_in)
  have s: "set (concat (map snd (group_cells cands))) = {..<length cands}"
  proof (intro set_eqI iffI)
    fix i assume "i \<in> set (concat (map snd (group_cells cands)))"
    then show "i \<in> {..<length cands}" using all by (auto dest: cell_rows_value)
  next
    fix i assume "i \<in> {..<length cands}"
    then have i: "i \<in> set (cell_rows cands (cand_key (cands ! i)))" by (simp add: cell_rows_def)
    then have "(cand_key (cands ! i), cell_rows cands (cand_key (cands ! i))) \<in> set (group_cells cands)"
      using all by auto
    then show "i \<in> set (concat (map snd (group_cells cands)))" using i by force
  qed
  have dk: "distinct (map fst (group_cells cands))"
    using group_cells_inv [of cands] by (simp add: bt_inv_def strict_sorted_iff)
  have la: "list_all (\<lambda>(k, is). is = cell_rows cands k) (group_cells cands)"
    using all by (auto simp: list_all_iff)
  have keys: "list_all (\<lambda>b. \<exists>k. list_all (\<lambda>i. cand_key (cands ! i) = k) b) (map snd (group_cells cands))"
    using la by (fastforce simp: list_all_iff cell_rows_def)
  have ne: "[] \<notin> set (map snd (group_cells cands))" using all by auto
  show ?thesis using d [OF dk la] s keys ne by (simp add: buckets_ok_def bt_values_def)
qed

lemma shuffle_all_buckets:
  "rng_ok R \<Longrightarrow> list_all2 (\<lambda>b b'. mset b' = mset b) bs (fst (shuffle_all R bs g))"
proof (induction R bs g rule: shuffle_all.induct)
  case (2 R b bs g)
  obtain b' g1 where b: "shuffle R b g = (b', g1)" by fastforce
  obtain bs' g2 where bs: "shuffle_all R bs g1 = (bs', g2)" by fastforce
  show ?case using 2(1) [OF b [symmetric] 2(2)] shuffle_mset [OF 2(2), of b g] by (simp add: b bs)
qed simp

lemma buckets_ok_mset:
  assumes "list_all2 (\<lambda>b b'. mset b' = mset b) bs bs'" "buckets_ok cands bs"
  shows "buckets_ok cands bs'"
proof -
  have "mset (concat bs') = mset (concat bs)"
    using assms(1) by (induction rule: list_all2_induct) auto
  then have "distinct (concat bs')" "set (concat bs') = {..<length cands}"
    using assms(2) mset_eq_imp_distinct_iff mset_eq_setD unfolding buckets_ok_def by metis+
  moreover have "[] \<notin> set bs' \<and> list_all (\<lambda>b. \<exists>k. list_all (\<lambda>i. cand_key (cands ! i) = k) b) bs'"
    if "[] \<notin> set bs" "list_all (\<lambda>b. \<exists>k. list_all (\<lambda>i. cand_key (cands ! i) = k) b) bs"
    using assms(1) that
  proof (induction rule: list_all2_induct)
    case (Cons b bs b' bs')
    then have "set b' = set b" by (metis mset_eq_setD)
    then show ?case using Cons by (auto simp: list_all_iff)
  qed simp
  ultimately show ?thesis using assms(2) by (simp add: buckets_ok_def)
qed

subsection \<open>The mix of a composition\<close>

lemma count_concat_replicate: "count_list (concat (replicate m b)) i = m * count_list b i"
  by (induction m) (auto simp: count_list_append)

lemma bucket_rows_repeat: "b \<noteq> [] \<Longrightarrow> bucket_rows b (length b * m) = concat (replicate m b)"
proof (induction m)
  case (Suc m)
  let ?k = "length b"
  have "bucket_rows b (?k * Suc m) = bucket_rows b (?k * m) @ map (\<lambda>s. b ! (s mod ?k)) [?k * m..<?k * m + ?k]"
  proof -
    have "[0..<?k * Suc m] = [0..<?k * m] @ [?k * m..<?k * m + ?k]"
      using upt_add_eq_append [of 0 "?k * m" ?k] by (simp add: add.commute)
    then show ?thesis by (simp add: bucket_rows_def)
  qed
  also have "map (\<lambda>s. b ! (s mod ?k)) [?k * m..<?k * m + ?k] = b"
    by (intro nth_equalityI) auto
  also have "bucket_rows b (?k * m) @ b = concat (replicate m b) @ b" using Suc by simp
  also have "\<dots> = concat (replicate (Suc m) b)"
    by (metis concat.simps(2) concat_append append.right_neutral concat.simps(1) replicate_Suc replicate_append_same)
  finally show ?case .
qed (simp add: bucket_rows_def)

lemma bucket_rows_take: "c \<le> d \<Longrightarrow> bucket_rows b c = take c (bucket_rows b d)"
  by (simp add: bucket_rows_def take_map take_upt)

lemma count_take_le: "count_list (take c xs) i \<le> count_list xs i"
  by (metis append_take_drop_id count_list_append le_add1)

lemma distinct_count_list: "distinct xs \<Longrightarrow> count_list xs i \<le> 1"
  by (induction xs) (auto simp: count_list_0_iff)

lemma bucket_rows_count:
  assumes "distinct b" "b \<noteq> []" "c \<le> length b * m"
  shows "count_list (bucket_rows b c) i \<le> m"
proof -
  have "count_list (bucket_rows b c) i \<le> m * count_list b i"
    using count_take_le [of c "bucket_rows b (length b * m)" i] assms
    by (simp add: bucket_rows_take [OF assms(3)] bucket_rows_repeat count_concat_replicate)
  also have "\<dots> \<le> m" using distinct_count_list [OF assms(1), of i] by simp
  finally show ?thesis .
qed

lemma bucket_rows_set: "b \<noteq> [] \<Longrightarrow> set (bucket_rows b c) \<subseteq> set b"
  by (auto simp: bucket_rows_def)

lemma bucket_rows_length [simp]: "length (bucket_rows b c) = c"
  by (simp add: bucket_rows_def)

end
