(* ===== verification/Mix_Proven.thy ===== *)
theory Mix_Proven
  imports Mix_Exhaustive
begin

text \<open>
  The theorems on \<open>select_mix\<close>: a returned mix meets the request, a failure called proven is
  one, the search returns and keeps to its work limit.
\<close>

subsection \<open>A composition stands for all mixes with its counts\<close>

definition bucket_counts :: "nat list list \<Rightarrow> nat list \<Rightarrow> nat list" where
  "bucket_counts buckets mix = map (\<lambda>b. length (filter (\<lambda>i. i \<in> set b) mix)) buckets"

lemma composition_mix_simps [simp]:
  "composition_mix [] cs = []"
  "composition_mix (b # bs) (c # cs) = bucket_rows b c @ composition_mix bs cs"
  by (simp_all add: composition_mix_def)

lemma composition_mix_length:
  "length cs = length bs \<Longrightarrow> length (composition_mix bs cs) = sum_list cs"
  by (induction cs bs rule: list_induct2) simp_all

lemma composition_mix_set:
  "length cs = length bs \<Longrightarrow> [] \<notin> set bs \<Longrightarrow> set (composition_mix bs cs) \<subseteq> set (concat bs)"
proof (induction cs bs rule: list_induct2)
  case (Cons c cs b bs)
  then show ?case using bucket_rows_set [of b c] by auto
qed simp

lemma composition_mix_count:
  "length cs = length bs \<Longrightarrow> distinct (concat bs) \<Longrightarrow> [] \<notin> set bs \<Longrightarrow>
     list_all2 (\<lambda>c b. c \<le> length b * m) cs bs \<Longrightarrow> count_list (composition_mix bs cs) i \<le> m"
proof (induction cs bs rule: list_induct2)
  case (Cons c cs b bs)
  show ?case
  proof (cases "i \<in> set b")
    case True
    then have "i \<notin> set (composition_mix bs cs)"
      using Cons.prems(1,2) composition_mix_set [of cs bs] Cons.hyps by auto
    then show ?thesis using Cons.prems bucket_rows_count [of b c m i]
      by (auto simp add: count_list_append count_list_0_iff)
  next
    case False
    then have "i \<notin> set (bucket_rows b c)" using Cons.prems(2) bucket_rows_set [of b c] by auto
    then show ?thesis using Cons by (simp add: count_list_append count_list_0_iff)
  qed
qed simp

lemma filter_bucket_counts:
  "list_all (\<lambda>b. set b \<inter> set b' = {}) bs \<Longrightarrow>
     bucket_counts bs (filter (\<lambda>i. i \<notin> set b') mix) = bucket_counts bs mix"
  by (induction bs) (auto simp: bucket_counts_def intro!: arg_cong [of _ _ length] filter_cong)

text \<open>A function that is constant on every bucket has the same values on both mixes.\<close>

lemma composition_mix_values:
  "distinct (concat bs) \<Longrightarrow> [] \<notin> set bs \<Longrightarrow> set mix \<subseteq> set (concat bs) \<Longrightarrow>
     list_all (\<lambda>b. \<exists>v. list_all (\<lambda>i. f i = v) b) bs \<Longrightarrow>
     mset (map f (composition_mix bs (bucket_counts bs mix))) = mset (map f mix)"
proof (induction bs arbitrary: mix)
  case (Cons b bs)
  let ?in = "filter (\<lambda>i. i \<in> set b) mix" and ?out = "filter (\<lambda>i. i \<notin> set b) mix"
  obtain v where v: "i \<in> set b \<Longrightarrow> f i = v" for i using Cons.prems(4) by (auto simp: list_all_iff)
  have rows: "map f (bucket_rows b c) = replicate c v" for c
    using v bucket_rows_set [of b c] Cons.prems(2) by (intro replicate_eqI) auto
  have "map f ?in = replicate (length ?in) v" using v by (intro replicate_eqI) auto
  moreover have "mset (map f (composition_mix bs (bucket_counts bs ?out))) = mset (map f ?out)"
    using Cons.prems by (intro Cons.IH) auto
  moreover have "list_all (\<lambda>b'. set b' \<inter> set b = {}) bs" using Cons.prems(1) by (auto simp: list_all_iff)
  moreover have "mset (map f mix) = mset (map f ?in) + mset (map f ?out)"
    by (induction mix) auto
  moreover have "bucket_counts (b # bs) mix = length ?in # bucket_counts bs mix" by (simp add: bucket_counts_def)
  ultimately show ?case
    using filter_bucket_counts [of b bs mix] rows by simp
qed (simp add: composition_mix_def)

lemma bucket_counts_sum:
  "distinct (concat bs) \<Longrightarrow> [] \<notin> set bs \<Longrightarrow> set mix \<subseteq> set (concat bs) \<Longrightarrow> sum_list (bucket_counts bs mix) = length mix"
proof -
  assume a: "distinct (concat bs)" "[] \<notin> set bs" "set mix \<subseteq> set (concat bs)"
  have "mset (map (\<lambda>_. 0 :: nat) (composition_mix bs (bucket_counts bs mix))) = mset (map (\<lambda>_. 0) mix)"
    using a by (intro composition_mix_values) (auto simp: list_all_iff)
  then have "length (composition_mix bs (bucket_counts bs mix)) = length mix"
    by (metis length_map mset_eq_length)
  then show ?thesis using composition_mix_length [of "bucket_counts bs mix" bs] by (simp add: bucket_counts_def)
qed

lemma length_filter_in_le:
  assumes "list_all (\<lambda>i. count_list mix i \<le> m) mix"
  shows "length (filter (\<lambda>i. i \<in> set b) mix) \<le> length b * m"
proof -
  have all: "count_list mix i \<le> m" for i
    using assms by (cases "i \<in> set mix") (auto simp: list_all_iff count_list_0_iff)
  have "length (filter (\<lambda>i. i \<in> set b) mix) \<le> (\<Sum>i \<leftarrow> b. count_list mix i)"
  proof (induction b)
    case (Cons x b)
    have "length (filter (\<lambda>i. i \<in> set (x # b)) mix) \<le> length (filter ((=) x) mix) + length (filter (\<lambda>i. i \<in> set b) mix)"
      by (induction mix) auto
    then show ?case using Cons by (simp add: count_list_eq_length_filter)
  qed simp
  also have "\<dots> \<le> length b * m" using all by (induction b) (auto intro: add_mono)
  finally show ?thesis .
qed

subsection \<open>Admissible mixes and compositions\<close>

definition top_len :: "select_request \<Rightarrow> nat list list \<Rightarrow> nat" where
  "top_len req buckets = min (max_len req) (foldl sat64 0 (bucket_caps req buckets))"

lemma sat_mul_le: "sat_mul a b \<le> a * b"
  by (simp add: sat_mul_def)

lemma bucket_caps_le: "list_all2 (\<lambda>c b. c \<le> length b * max_repeats req) (bucket_caps req buckets) buckets"
  by (auto simp: bucket_caps_def list_all2_map1 list.rel_refl intro!: list.rel_refl min.coboundedI1 sat_mul_le)

lemma composition_admissible:
  assumes b: "buckets_ok cands buckets" and cs: "cs \<in> set (compositions (bucket_caps req buckets) n)"
    and n: "min_len req \<le> n" "n \<le> top_len req buckets"
  shows "admissible (length cands) req (composition_mix buckets cs)"
proof -
  have c: "list_all2 (\<le>) cs (bucket_caps req buckets)" "sum_list cs = n" using cs by (simp_all add: compositions_iff)
  have le: "list_all2 (\<lambda>c b. c \<le> length b * max_repeats req) cs buckets"
    using list_all2_trans [OF _ c(1) bucket_caps_le, of "\<lambda>c b. c \<le> length b * max_repeats req"] by (meson le_trans)
  have len: "length cs = length buckets" using le by (rule list_all2_lengthD)
  have "set (composition_mix buckets cs) \<subseteq> {..<length cands}"
    using composition_mix_set [OF len] b by (auto simp: buckets_ok_def)
  moreover have "count_list (composition_mix buckets cs) i \<le> max_repeats req" for i
    using b le by (intro composition_mix_count [OF len]) (auto simp: buckets_ok_def)
  ultimately show ?thesis
    using n c(2) composition_mix_length [OF len] by (auto simp: admissible_def list_all_iff top_len_def)
qed

lemma admissible_composition:
  assumes b: "buckets_ok cands buckets" and m: "max_len req \<le> 2 ^ 53" and a: "admissible (length cands) req mix"
  shows "bucket_counts buckets mix \<in> set (compositions (bucket_caps req buckets) (length mix))"
    "length mix \<le> top_len req buckets"
proof -
  have s: "set mix \<subseteq> set (concat buckets)" "distinct (concat buckets)" "[] \<notin> set buckets"
    using a b by (auto simp: admissible_iff buckets_ok_def)
  have l: "length mix \<le> max_len req" using a by (simp add: admissible_def)
  have sum: "sum_list (bucket_counts buckets mix) = length mix" using s by (intro bucket_counts_sum)
  have one: "length (filter (\<lambda>i. i \<in> set b) mix) \<le> min (sat_mul (length b) (max_repeats req)) (max_len req)" for b
  proof -
    have "length (filter (\<lambda>i. i \<in> set b) mix) \<le> length b * max_repeats req"
      using a by (intro length_filter_in_le) (auto simp: admissible_def list_all_iff)
    moreover have "length (filter (\<lambda>i. i \<in> set b) mix) \<le> max_len req"
      using le_trans [OF length_filter_le l] .
    ultimately show ?thesis using m by (simp add: sat_mul_def u64_max_def)
  qed
  have "list_all2 (\<le>) (bucket_counts buckets mix) (bucket_caps req buckets)"
    using one by (simp add: bucket_counts_def bucket_caps_def list_all2_conv_all_nth)
  then show "bucket_counts buckets mix \<in> set (compositions (bucket_caps req buckets) (length mix))"
    using sum by (simp add: compositions_iff)
  then have "length mix \<le> sum_list (bucket_caps req buckets)"
    using compositions_empty [of "bucket_caps req buckets" "length mix"] by fastforce
  then show "length mix \<le> top_len req buckets"
    using l m by (simp add: top_len_def foldl_sat64)
qed

lemma composition_meets:
  assumes b: "buckets_ok cands buckets" and x: "exact_lengths cands req" and a: "admissible (length cands) req mix"
  shows "meets cands req (composition_mix buckets (bucket_counts buckets mix)) \<longleftrightarrow> meets cands req mix"
proof -
  let ?m = "composition_mix buckets (bucket_counts buckets mix)"
  have s: "distinct (concat buckets)" "[] \<notin> set buckets" "set mix \<subseteq> set (concat buckets)" "set mix \<subseteq> {..<length cands}"
      "length mix \<le> max_len req"
    using a b by (auto simp: admissible_iff buckets_ok_def)
  have const: "list_all (\<lambda>b. \<exists>v. list_all (\<lambda>i. f (cand_key (cands ! i)) = v) b) buckets" for f :: "bits \<times> bits \<Rightarrow> f64"
    using b by (fastforce simp: buckets_ok_def list_all_iff)
  have "mset (map (\<lambda>i. from_bits (fst (cand_key (cands ! i)))) ?m) = mset (map (\<lambda>i. from_bits (fst (cand_key (cands ! i)))) mix)"
    "mset (map (\<lambda>i. from_bits (snd (cand_key (cands ! i)))) ?m) = mset (map (\<lambda>i. from_bits (snd (cand_key (cands ! i)))) mix)"
    by (rule composition_mix_values [OF s(1-3) const])+
  then have v: "mset (isl_values cands ?m) = mset (isl_values cands mix)" "mset (osl_values cands ?m) = mset (osl_values cands mix)"
    by (simp_all add: cand_key_def isl_values_def osl_values_def)
  have "apply_stat (isl_values cands mix) st = apply_stat (isl_values cands ?m) st"
    "apply_stat (osl_values cands mix) st = apply_stat (osl_values cands ?m) st" for st
    using apply_stat_mset [OF v(1) [symmetric] values_upto(1) [OF x s(4)]]
      apply_stat_mset [OF v(2) [symmetric] values_upto(2) [OF x s(4)]] s(5)
    by (simp_all add: isl_values_def osl_values_def)
  then show ?thesis by (simp add: meets_def)
qed

subsection \<open>The best of the visited mixes\<close>

text \<open>
  Scores whose excesses differ by at most the epsilon are compared by size, so a mix that misses a
  tolerance by less than the epsilon can displace one that meets both. The theorem on proven
  failures needs that there is no such mix.
\<close>

definition near_tie :: "cand list \<Rightarrow> select_request \<Rightarrow> nat list \<Rightarrow> bool" where
  "near_tie cands req mix \<longleftrightarrow>
     (case evaluate mix cands req of
        None \<Rightarrow> False
      | Some e \<Rightarrow> flt (Fin 0) (excess (ev_score e)) \<and> \<not> flt score_epsilon (excess (ev_score e)))"

definition zero_excess :: "score \<Rightarrow> bool" where
  "zero_excess s \<longleftrightarrow> feq (excess s) (Fin 0)"

definition clear_score :: "score \<Rightarrow> bool" where
  "clear_score s \<longleftrightarrow> is_f64 (excess s) \<and> (zero_excess s \<or> flt score_epsilon (excess s))"

lemma score_epsilon_pos: "\<exists>a. score_epsilon = Fin a \<and> 0 < a"
proof -
  have "is_finite score_epsilon \<and> flt (Fin 0) score_epsilon" by code_simp
  then show ?thesis by (metis flt_Fin is_finite_iff)
qed

lemma better_zero:
  assumes "clear_score s" "clear_score t"
  shows "zero_excess t \<Longrightarrow> better_than s t \<Longrightarrow> zero_excess s" "zero_excess s \<Longrightarrow> \<not> zero_excess t \<Longrightarrow> better_than s t"
proof -
  obtain a where a: "score_epsilon = Fin a" "0 < a" using score_epsilon_pos by blast
  have f: "fabs (fsub x (Fin 0)) = x" "fabs (fsub (Fin 0) x) = x" if "is_f64 x" "flt score_epsilon x" for x
  proof -
    have "Fin 0 < x" using that(2) a by (auto simp: flt_def) (metis less_f64_Fin less_trans)
    then show "fabs (fsub x (Fin 0)) = x" "fabs (fsub (Fin 0) x) = x"
      using that(1) is_f64_fneg [of x] by (cases x; auto simp: fsub_def less_f64_def)+
  qed
  show "zero_excess s" if "zero_excess t" "better_than s t"
  proof (rule ccontr)
    assume "\<not> zero_excess s"
    then have "flt score_epsilon (excess s)" "is_f64 (excess s)" using assms(1) by (auto simp: clear_score_def)
    then show False using that f [of "excess s"] a
      by (auto simp: better_than_def zero_excess_def feq_def flt_def) (metis less_f64_Fin less_trans order_less_asym)
  qed
  show "better_than s t" if "zero_excess s" "\<not> zero_excess t"
  proof -
    have "flt score_epsilon (excess t)" "is_f64 (excess t)" using assms(2) that(2) by (auto simp: clear_score_def)
    then show ?thesis using that f [of "excess t"] a
      by (auto simp: better_than_def zero_excess_def feq_def flt_def) (metis less_f64_Fin less_trans)
  qed
qed

lemma evaluate_clear:
  assumes x: "exact_lengths cands req" and f: "finite_bounds req" and a: "admissible (length cands) req mix"
    and n: "\<not> near_tie cands req mix"
  obtains e where "evaluate mix cands req = Some e" "clear_score (ev_score e)"
    "zero_excess (ev_score e) \<longleftrightarrow> meets cands req mix"
proof -
  obtain e where e: "evaluate mix cands req = Some e" "nonneg (excess (ev_score e))"
      "feq (excess (ev_score e)) (Fin 0) \<longleftrightarrow> meets cands req mix" "is_f64 (excess (ev_score e))"
    using evaluate_meets [OF x f, of mix] a admissible_not_Nil [OF a] by (auto simp: admissible_iff)
  have "clear_score (ev_score e)"
    using n e flt_nonneg [OF e(2)] by (auto simp: near_tie_def clear_score_def zero_excess_def feq_def nonneg_def)
  then show ?thesis using that [of e] e by (simp add: zero_excess_def)
qed

definition best_of :: "cand list \<Rightarrow> select_request \<Rightarrow> nat list list \<Rightarrow> best_mix \<Rightarrow> bool" where
  "best_of cands req ms best \<longleftrightarrow>
     (case best of
        None \<Rightarrow> ms = []
      | Some (sc, m) \<Rightarrow> m \<in> set ms \<and> map_option ev_score (evaluate m cands req) = Some sc \<and>
          clear_score sc \<and> (zero_excess sc \<longleftrightarrow> list_ex (meets cands req) ms))"

lemma consider_best_of:
  assumes x: "exact_lengths cands req" and f: "finite_bounds req" and a: "admissible (length cands) req mix"
    and n: "\<not> near_tie cands req mix" and b: "best_of cands req ms best"
  shows "best_of cands req (ms @ [mix]) (consider_composition cands req mix best)"
proof -
  obtain e where e: "evaluate mix cands req = Some e" "clear_score (ev_score e)"
      "zero_excess (ev_score e) \<longleftrightarrow> meets cands req mix"
    using evaluate_clear [OF x f a n] .
  show ?thesis
  proof (cases best)
    case None
    then show ?thesis using b e by (auto simp: best_of_def consider_composition_def)
  next
    case (Some q)
    then obtain sc m where q: "best = Some (sc, m)" by fastforce
    show ?thesis using b e better_zero [OF e(2), of sc]
      by (auto simp: best_of_def consider_composition_def q)
  qed
qed

lemma visited_best_of:
  assumes "exact_lengths cands req" "finite_bounds req"
  shows "list_all (\<lambda>m. admissible (length cands) req m \<and> \<not> near_tie cands req m) ms \<Longrightarrow>
    best_of cands req ms (fold (consider_composition cands req) ms None)"
proof (induction ms rule: rev_induct)
  case (snoc m ms)
  then show ?case using consider_best_of [OF assms, of m ms] by simp
qed (simp add: best_of_def)

subsection \<open>What the search over buckets returns\<close>

definition all_compositions :: "select_request \<Rightarrow> nat list list \<Rightarrow> nat list list" where
  "all_compositions req buckets =
     concat (map (compositions (bucket_caps req buckets)) [min_len req..<Suc (top_len req buckets)])"

definition composition_mixes :: "select_request \<Rightarrow> nat list list \<Rightarrow> nat list list" where
  "composition_mixes req buckets = map (composition_mix buckets) (all_compositions req buckets)"

lemma composition_mixes_admissible:
  assumes "buckets_ok cands buckets"
  shows "list_all (admissible (length cands) req) (composition_mixes req buckets)"
  using composition_admissible [OF assms]
  by (auto simp: composition_mixes_def all_compositions_def list_all_iff less_Suc_eq_le simp del: upt_Suc)

lemma composition_mixes_meet:
  assumes "buckets_ok cands buckets" "exact_lengths cands req" "admissible (length cands) req mix"
  shows "composition_mix buckets (bucket_counts buckets mix) \<in> set (composition_mixes req buckets)"
proof -
  have "min_len req \<le> length mix" using assms(3) by (simp add: admissible_def)
  moreover have "max_len req \<le> 2 ^ 53" using assms(2) by (simp add: exact_lengths_def)
  ultimately have "bucket_counts buckets mix \<in> set (all_compositions req buckets)"
    using admissible_composition [OF assms(1) _ assms(3)]
    by (auto simp: all_compositions_def less_Suc_eq_le simp del: upt_Suc intro!: bexI [of _ "length mix"])
  then show ?thesis by (simp add: composition_mixes_def)
qed

text \<open>The balanced pairs: a mix in range, within half the work limit.\<close>

lemma search_pairs_result:
  "[] \<notin> set buckets \<Longrightarrow> set (concat buckets) = {..<length cands} \<Longrightarrow> min_len req \<le> n \<Longrightarrow> n \<le> max_len req \<Longrightarrow>
    list_all (\<lambda>(i, j). i < length buckets \<and> j < length buckets) ps \<Longrightarrow>
    pred_option (\<lambda>p. in_range (length cands) req (snd p)) best \<Longrightarrow> work \<le> work_limit req \<Longrightarrow>
    search_pairs cands req buckets caps n ps (best, work) = (best', work') \<Longrightarrow>
    pred_option (\<lambda>p. in_range (length cands) req (snd p)) best' \<and> work' \<le> work_limit req"
proof (induction ps arbitrary: best work)
  case (Cons p ps)
  obtain i j where p: "p = (i, j)" by fastforce
  let ?m = "bucket_rows (buckets ! i) (n div 2) @ bucket_rows (buckets ! j) (n - n div 2)"
  have "set (bucket_rows (buckets ! k) c) \<subseteq> {..<length cands}" if k: "k < length buckets" for k c
  proof -
    have "buckets ! k \<in> set buckets" using k by simp
    moreover have "buckets ! k \<noteq> []" using calculation Cons.prems(1) by metis
    ultimately show ?thesis
      using bucket_rows_set [of "buckets ! k" c] Cons.prems(2) [symmetric] unfolding set_concat by blast
  qed
  then have "in_range (length cands) req ?m" using Cons.prems(3-5) by (simp add: in_range_def p)
  then have "pred_option (\<lambda>p. in_range (length cands) req (snd p)) (consider_composition cands req ?m best)"
    using Cons.prems(6) by (auto simp: consider_composition_def split: option.splits)
  note c = this
  show ?case
  proof (cases "work_limit req div 2 \<le> work")
    case False
    have ps: "list_all (\<lambda>(i, j). i < length buckets \<and> j < length buckets) ps" using Cons.prems(5) by simp
    show ?thesis
    proof (cases "n div 2 \<le> caps ! i \<and> n - n div 2 \<le> caps ! j")
      case True
      then have "search_pairs cands req buckets caps n ps (consider_composition cands req ?m best, work + 1) = (best', work')"
        using False Cons.prems(8) by (simp add: p)
      then show ?thesis using False by (intro Cons.IH [OF Cons.prems(1-4) ps c]) simp_all
    next
      case no: False
      then have "search_pairs cands req buckets caps n ps (best, work) = (best', work')"
        using False Cons.prems(8) by (auto simp: p)
      then show ?thesis by (rule Cons.IH [OF Cons.prems(1-4) ps Cons.prems(6,7)])
    qed
  qed (use Cons.prems in \<open>simp add: p\<close>)
qed simp

lemma caps_room:
  assumes "buckets_ok cands buckets" "min_len req \<le> top_len req buckets" "max_len req \<le> 2 ^ 53"
  shows "min_len req \<le> length cands * max_repeats req"
proof -
  have "sum_list (bucket_caps req bs) \<le> length (concat bs) * max_repeats req" for bs
  proof (induction bs)
    case (Cons b bs)
    have "min (sat_mul (length b) (max_repeats req)) (max_len req) \<le> length b * max_repeats req"
      using sat_mul_le [of "length b" "max_repeats req"] by simp
    then show ?case using Cons by (simp add: bucket_caps_def add_mult_distrib)
  qed (simp add: bucket_caps_def)
  moreover have "length (concat buckets) = length cands"
    using assms(1) by (metis buckets_ok_def card_lessThan distinct_card)
  moreover have "top_len req buckets \<le> sum_list (bucket_caps req buckets)"
    by (simp add: top_len_def foldl_sat64)
  ultimately show ?thesis using assms(2) by (metis le_trans)
qed

definition search_result_ok :: "cand list \<Rightarrow> select_request \<Rightarrow> nat list list \<Rightarrow> composition_result \<Rightarrow> bool" where
  "search_result_ok cands req buckets res \<longleftrightarrow>
     cr_work res \<le> work_limit req \<and>
     pred_option (in_range (length cands) req) (cr_mix res) \<and>
     (if cr_exact res
      then cr_mix res = map_option snd (fold (consider_composition cands req) (composition_mixes req buckets) None)
      else min_len req \<le> top_len req buckets)"

lemma search_buckets_ok:
  assumes b: "buckets_ok cands buckets" and c: "cands \<noteq> []" and m: "max_len req \<le> 2 ^ 53" and w: "work_limit req < 2 ^ 32"
  obtains res where "search_buckets cands req buckets = Some res" "search_result_ok cands req buckets res"
proof (cases "top_len req buckets < min_len req")
  case True
  then have "composition_mixes req buckets = []" by (simp add: composition_mixes_def all_compositions_def)
  then show ?thesis
    using that [of "\<lparr>cr_mix = None, cr_work = 0, cr_exact = True\<rparr>"] True
    by (simp add: search_buckets_def search_result_ok_def top_len_def Let_def)
next
  case False
  define caps where "caps = bucket_caps req buckets"
  define hi where "hi = top_len req buckets"
  define dp where "dp = dp_loop (work_limit req + 1) (min_len req) hi caps (1 # replicate hi 0)"
  have lohi: "min_len req \<le> hi" "hi \<le> max_len req" using False by (simp_all add: hi_def top_len_def not_less)
  have "buckets \<noteq> []" using b c by (auto simp: buckets_ok_def)
  then have caps: "caps \<noteq> []" by (simp add: caps_def bucket_caps_def)
  define ps where "ps = [(a, b). a \<leftarrow> [0..<length buckets], b \<leftarrow> [a + 1..<length buckets]]"
  have unfold: "search_buckets cands req buckets =
    (if dp_total (work_limit req + 1) (min_len req) hi dp \<le> work_limit req then
       map_option (\<lambda>(best, work). \<lparr>cr_mix = map_option snd best, cr_work = work, cr_exact = True\<rparr>)
         (search_lengths cands req buckets caps dp [min_len req..<hi + 1] (None, 0))
     else if isl_stat req = MedianLength \<and> osl_stat req = MedianLength then
       (case search_pairs cands req buckets caps (nat_clamp (sr_count req) (min_len req) hi) ps (None, 0) of
          (best, work) \<Rightarrow> Some \<lparr>cr_mix = map_option snd best, cr_work = work, cr_exact = False\<rparr>)
     else Some \<lparr>cr_mix = None, cr_work = 0, cr_exact = False\<rparr>)"
    using False by (simp add: search_buckets_def ps_def Let_def caps_def hi_def dp_def top_len_def)
  show ?thesis
  proof (cases "dp_total (work_limit req + 1) (min_len req) hi dp \<le> work_limit req")
    case True
    have t: "(\<forall>n. min_len req \<le> n \<longrightarrow> n \<le> hi \<longrightarrow> dp ! n = ways caps n) \<and>
        (\<Sum>n \<leftarrow> [min_len req..<Suc hi]. ways caps n) = dp_total (work_limit req + 1) (min_len req) hi dp"
      by (rule exact_table) (use w True dp_def in auto)
    have "search_lengths cands req buckets caps dp [min_len req..<hi + 1] (None, 0) =
        Some (fold (visit cands req buckets) (all_compositions req buckets) (None, 0))"
      unfolding all_compositions_def hi_def [symmetric] caps_def [symmetric] Suc_eq_plus1
      using t lohi m by (intro search_lengths_visits [OF caps]) (auto simp: list_all_iff simp del: upt_Suc)
    moreover have "length (all_compositions req buckets) \<le> work_limit req"
      using t True by (simp add: all_compositions_def length_concat ways_def o_def hi_def caps_def del: upt_Suc)
    moreover define res where "res = \<lparr>cr_mix = map_option snd (fold (consider_composition cands req) (composition_mixes req buckets) None),
      cr_work = length (all_compositions req buckets), cr_exact = True\<rparr>"
    ultimately have r: "search_buckets cands req buckets = Some res" "cr_work res \<le> work_limit req"
      using True by (simp_all add: unfold fold_visit composition_mixes_def del: upt_Suc)
    have "pred_option (\<lambda>p. in_range (length cands) req (snd p)) (fold (consider_composition cands req) ms best)"
      if "list_all (admissible (length cands) req) ms" "pred_option (\<lambda>p. in_range (length cands) req (snd p)) best" for ms best
      using that by (induction ms arbitrary: best)
        (auto simp: consider_composition_def admissible_in_range split: option.splits)
    from this [OF composition_mixes_admissible [OF b, of req], of None]
    have "pred_option (in_range (length cands) req) (cr_mix res)"
      by (auto simp: res_def option.pred_map o_def case_prod_beta)
    then show ?thesis using that [OF r(1)] r(2) by (simp add: search_result_ok_def res_def)
  next
    case False
    let ?n = "nat_clamp (sr_count req) (min_len req) hi"
    obtain best work where p: "search_pairs cands req buckets caps ?n ps (None, 0) = (best, work)" by fastforce
    have n: "min_len req \<le> ?n" "?n \<le> max_len req" using nat_clamp_range [OF lohi(1), of "sr_count req"] lohi(2) by auto
    have "list_all (\<lambda>(i, j). i < length buckets \<and> j < length buckets) ps" by (auto simp: list_all_iff ps_def)
    from search_pairs_result [OF _ _ n this _ _ p] b
    have "pred_option (\<lambda>p. in_range (length cands) req (snd p)) best" "work \<le> work_limit req"
      by (auto simp: buckets_ok_def)
    then have "search_result_ok cands req buckets \<lparr>cr_mix = map_option snd best, cr_work = work, cr_exact = False\<rparr>"
      "search_result_ok cands req buckets \<lparr>cr_mix = None, cr_work = 0, cr_exact = False\<rparr>"
      using lohi by (simp_all add: search_result_ok_def option.pred_map o_def hi_def)
    then show ?thesis
      using that [of "\<lparr>cr_mix = map_option snd best, cr_work = work, cr_exact = False\<rparr>"]
        that [of "\<lparr>cr_mix = None, cr_work = 0, cr_exact = False\<rparr>"] False p
      by (cases "isl_stat req = MedianLength \<and> osl_stat req = MedianLength") (auto simp: unfold)
  qed
qed

subsection \<open>The steps of \<open>select_mix\<close>\<close>

lemma search_compositions_ok:
  assumes "rng_ok R" "cands \<noteq> []" "max_len req \<le> 2 ^ 53" "work_limit req < 2 ^ 32"
  obtains buckets res g' where "buckets_ok cands buckets" "search_result_ok cands req buckets res"
    "search_compositions R cands req g = Some (res, g')"
proof -
  obtain buckets g' where s: "shuffle_all R (bt_values (group_cells cands)) g = (buckets, g')" by fastforce
  have b: "buckets_ok cands buckets"
    using buckets_ok_mset [OF shuffle_all_buckets [OF assms(1), where g = g] group_cells_buckets] s by (metis fst_conv)
  obtain res where "search_buckets cands req buckets = Some res" "search_result_ok cands req buckets res"
    using search_buckets_ok [OF b assms(2-4)] .
  then show ?thesis using that b s by (simp add: search_compositions_def)
qed

lemma first_eval_Some:
  "first_eval cands req mix = Some e \<Longrightarrow> set mix \<subseteq> {..<length cands} \<Longrightarrow> length mix \<le> max_len req \<Longrightarrow>
     admissible (length cands) req mix \<and> evaluate mix cands req = Some e"
  by (auto simp: first_eval_def admissible_iff split: if_splits)

lemma admissible_room: "admissible n req mix \<Longrightarrow> min_len req \<le> n * max_repeats req"
proof -
  assume a: "admissible n req mix"
  have "filter (\<lambda>i. i \<in> set [0..<n]) mix = mix" using a by (auto simp: admissible_def list_all_iff)
  then have "length mix \<le> n * max_repeats req"
    using length_filter_in_le [of mix "max_repeats req" "[0..<n]"] a by (simp add: admissible_def list_all_iff)
  then show ?thesis using a by (simp add: admissible_def)
qed

lemma search_from_exact:
  "cr_exact res \<Longrightarrow> search_from R cands req res mix g =
     Some (case first_eval cands req mix of
       None \<Rightarrow> Inl (early_failure NoMixInLimits (length cands) (cr_work res) True)
     | Some e \<Rightarrow> select_result cands req True mix (Some e) (cr_work res))"
  by (auto simp: search_from_def Let_def split: option.splits)

definition small_request :: "cand list \<Rightarrow> select_request \<Rightarrow> bool" where
  "small_request cands req \<longleftrightarrow> exact_lengths cands req \<and> finite_bounds req \<and> work_limit req < 2 ^ 32"

lemma search_part_sound:
  assumes R: "rng_ok R" and c: "cands \<noteq> []" "0 < sr_count req" and s: "small_request cands req"
    and b: "buckets_ok cands buckets" and r: "search_result_ok cands req buckets res"
    and m: "set mix \<subseteq> {..<length cands}" "length mix \<le> max_len req"
      "min_len req \<le> length cands * max_repeats req \<Longrightarrow> in_range (length cands) req mix"
    and f: "search_from R cands req res mix g = Some (Inr m')"
  shows "mix_ok cands req m'"
proof -
  have x: "exact_lengths cands req" "finite_bounds req" "max_len req \<le> 2 ^ 53"
    using s by (auto simp: small_request_def exact_lengths_def)
  have room: "min_len req \<le> length cands * max_repeats req"
  proof (cases "cr_exact res")
    case True
    then obtain e where "first_eval cands req mix = Some e"
      using f by (auto simp: search_from_exact early_failure_def split: option.splits)
    then show ?thesis using first_eval_Some [OF _ m(1,2)] admissible_room by blast
  next
    case False
    then show ?thesis using r caps_room [OF b _ x(3)] by (simp add: search_result_ok_def)
  qed
  have "search_ready R cands req" using R c x(3) room by (simp add: search_ready_def)
  then show ?thesis by (rule search_from_sound [OF _ m(3) [OF room] f x(1,2)])
qed

definition first_mix ::
  "'g rng \<Rightarrow> cand list \<Rightarrow> select_request \<Rightarrow> composition_result \<Rightarrow> 'g \<Rightarrow> (nat list \<times> 'g) option" where
  "first_mix R cands req res g =
     (case cr_mix res of Some mix \<Rightarrow> Some (mix, g) | None \<Rightarrow> seed_mix R cands req g)"

lemma select_mix_steps:
  assumes R: "rng_ok R" and s: "small_request (filter_candidates rows req) req"
    and c: "\<not> (sr_count req = 0 \<or> max_repeats req = 0 \<or> filter_candidates rows req = [])"
  obtains h g buckets res g1 where
    "try_homogeneous_bucket R (filter_candidates rows req) req (rng_seed R (sr_seed req)) = (h, g)"
    "buckets_ok (filter_candidates rows req) buckets" "search_result_ok (filter_candidates rows req) req buckets res"
    "select_mix R rows req = (case h of Some m \<Rightarrow> Some (Inr m) | None \<Rightarrow>
       (case first_mix R (filter_candidates rows req) req res g1 of
          None \<Rightarrow> None | Some (mix, g2) \<Rightarrow> search_from R (filter_candidates rows req) req res mix g2))"
proof -
  define cands where "cands = filter_candidates rows req"
  have c': "cands \<noteq> []" "0 < sr_count req" "0 < max_repeats req" using c by (simp_all add: cands_def)
  have x: "max_len req \<le> 2 ^ 53" "work_limit req < 2 ^ 32"
    using s by (auto simp: small_request_def exact_lengths_def)
  obtain h g where h: "try_homogeneous_bucket R cands req (rng_seed R (sr_seed req)) = (h, g)" by fastforce
  obtain buckets res g1 where b: "buckets_ok cands buckets" and r: "search_result_ok cands req buckets res"
    and sc: "search_compositions R cands req g = Some (res, g1)"
    by (rule search_compositions_ok [OF R c'(1) x, where g = g])
  have "select_mix R rows req = (case h of Some m \<Rightarrow> Some (Inr m) | None \<Rightarrow>
      (case first_mix R cands req res g1 of
         None \<Rightarrow> None | Some (mix, g2) \<Rightarrow> search_from R cands req res mix g2))"
    using c' h sc by (auto simp: select_mix_def first_mix_def cands_def [symmetric] Let_def split: option.splits)
  from that [OF h [unfolded cands_def] b [unfolded cands_def] r [unfolded cands_def] this [unfolded cands_def]]
  show ?thesis .
qed

lemma first_mix_bounds:
  assumes "rng_ok R" "cands \<noteq> []" "0 < sr_count req" "max_len req \<le> 2 ^ 53" "search_result_ok cands req buckets res"
    and f: "first_mix R cands req res g = Some (mix, g')"
  shows "set mix \<subseteq> {..<length cands} \<and> length mix \<le> max_len req \<and>
    (min_len req \<le> length cands * max_repeats req \<longrightarrow> in_range (length cands) req mix)"
  using f assms(5) seed_mix_bounds [OF assms(1-4)]
  by (auto simp: first_mix_def search_result_ok_def in_range_def split: option.splits)

text \<open>C14: Every mix that the selection returns consists of rows that pass the filter, has an
  allowed number of prompts, repeats no row more often than allowed, and its ISL and OSL statistics,
  which are the reported ones, are within the requested tolerances. This holds for every random
  generator, if the lengths are small enough for exact sums and the request is finite.\<close>

theorem select_mix_sound:
  assumes R: "rng_ok R" and s: "small_request (filter_candidates rows req) req"
  shows "case select_mix R rows req of Some (Inr m) \<Rightarrow> mix_ok (filter_candidates rows req) req m | _ \<Rightarrow> True"
proof (cases "sr_count req = 0 \<or> max_repeats req = 0 \<or> filter_candidates rows req = []")
  case True
  then show ?thesis by (auto simp: select_mix_def)
next
  case False
  then have c: "filter_candidates rows req \<noteq> []" "0 < sr_count req" by simp_all
  have x: "exact_lengths (filter_candidates rows req) req" "finite_bounds req" "max_len req \<le> 2 ^ 53"
    using s by (auto simp: small_request_def exact_lengths_def)
  from select_mix_steps [OF R s False] show ?thesis
  proof cases
    case (1 h g buckets res g1)
    have "mix_ok (filter_candidates rows req) req m"
      if "first_mix R (filter_candidates rows req) req res g1 = Some (mix, g2)"
        "search_from R (filter_candidates rows req) req res mix g2 = Some (Inr m)" for m mix g2
      using search_part_sound [OF R c s 1(2,3) _ _ _ that(2)] first_mix_bounds [OF R c x(3) 1(3) that(1)] by blast
    then show ?thesis
      using homogeneous_sound [OF R x(1,2)] 1(1,4) by (auto split: option.splits sum.splits prod.splits)
  qed
qed

text \<open>If some admissible mix meets the request, the failure of the search is no proof of emptiness.\<close>

lemma feasible_not_proven_empty:
  assumes b: "buckets_ok cands buckets" and r: "search_result_ok cands req buckets res"
    and x: "exact_lengths cands req" "finite_bounds req"
    and t: "\<And>mix. admissible (length cands) req mix \<Longrightarrow> \<not> near_tie cands req mix"
    and f: "first_mix R cands req res g = Some (mix, g')" "search_from R cands req res mix g' = Some (Inl f)"
    and m: "admissible (length cands) req mix'" "meets cands req mix'"
  shows "\<not> sf_proven_empty f"
proof (cases "cr_exact res")
  case True
  let ?ms = "composition_mixes req buckets"
  have ms: "list_all (\<lambda>m. admissible (length cands) req m \<and> \<not> near_tie cands req m) ?ms"
    using composition_mixes_admissible [OF b] t by (simp add: list_all_iff)
  have best: "best_of cands req ?ms (fold (consider_composition cands req) ?ms None)"
    by (rule visited_best_of [OF x(1,2) ms])
  have mem: "composition_mix buckets (bucket_counts buckets mix') \<in> set ?ms"
    using composition_mixes_meet [OF b] x(1) m(1) by simp
  moreover have "meets cands req (composition_mix buckets (bucket_counts buckets mix'))"
    using composition_meets [OF b] x(1) m by simp
  ultimately have "list_ex (meets cands req) ?ms" "?ms \<noteq> []" by (auto simp: list_ex_iff)
  then obtain sc mm where mm: "fold (consider_composition cands req) ?ms None = Some (sc, mm)" "mm \<in> set ?ms"
      "map_option ev_score (evaluate mm cands req) = Some sc" "zero_excess sc"
    using best by (auto simp: best_of_def split: option.splits)
  have ad: "admissible (length cands) req mm" using ms mm(2) by (simp add: list_all_iff)
  obtain e where e: "evaluate mm cands req = Some e" "ev_score e = sc" using mm(3) by auto
  have "cr_mix res = Some mm" using r True mm(1) by (simp add: search_result_ok_def)
  then have "mix = mm" using f(1) by (simp add: first_mix_def)
  moreover have "first_eval cands req mm = Some e" using ad e by (simp add: first_eval_def admissible_iff)
  ultimately show ?thesis
    using f(2) mm(4) e by (auto simp: search_from_exact [OF True] select_result_def zero_excess_def Let_def)
next
  case False
  then show ?thesis
    using f(2) unfolding search_from_def Let_def
    by (auto simp del: climb_loop.simps simp: select_result_def early_failure_def Let_def split: option.splits if_splits)
qed

text \<open>
  C15: When the selection fails with a proof of emptiness, no list of candidate rows with an allowed
  number of prompts and allowed repeats has both statistics within the tolerances. The hypothesis
  on near ties excludes mixes that miss a tolerance by at most the epsilon of the score comparison. At
  least one prompt must be wanted, and the request must be small: whole lengths whose sums are exact,
  finite targets and tolerances, and a work limit below 2^32.
\<close>

theorem select_mix_infeasible:
  assumes R: "rng_ok R" and s: "small_request (filter_candidates rows req) req" and n: "0 < sr_count req"
    and t: "\<And>mix. admissible (length (filter_candidates rows req)) req mix \<Longrightarrow>
      \<not> near_tie (filter_candidates rows req) req mix"
  shows "case select_mix R rows req of
      Some (Inl f) \<Rightarrow> sf_proven_empty f \<longrightarrow>
        (\<forall>mix. admissible (length (filter_candidates rows req)) req mix \<longrightarrow> \<not> meets (filter_candidates rows req) req mix)
    | _ \<Rightarrow> True"
proof (cases "sr_count req = 0 \<or> max_repeats req = 0 \<or> filter_candidates rows req = []")
  case True
  have "\<not> admissible (length (filter_candidates rows req)) req mix" for mix
  proof
    assume a: "admissible (length (filter_candidates rows req)) req mix"
    have "1 \<le> min_len req" by (simp add: min_len_def)
    then show False using admissible_room [OF a] True n by auto
  qed
  then show ?thesis by (auto split: option.splits sum.splits)
next
  case False
  define cands where "cands = filter_candidates rows req"
  have x: "exact_lengths cands req" "finite_bounds req" using s by (auto simp: small_request_def cands_def)
  note t = t [folded cands_def]
  from select_mix_steps [OF R s False] show ?thesis
  proof cases
    case (1 h g buckets res g1)
    have "\<not> sf_proven_empty f"
      if "first_mix R cands req res g1 = Some (mix, g2)" "search_from R cands req res mix g2 = Some (Inl f)"
        "admissible (length cands) req mix'" "meets cands req mix'" for f mix g2 mix'
      using feasible_not_proven_empty [OF _ _ x t that] 1(2,3) by (simp add: cands_def)
    then show ?thesis using 1(4) by (auto simp: cands_def split: option.splits sum.splits prod.splits)
  qed
qed

subsection \<open>The selection returns\<close>

lemma seed_loop_returns:
  "target \<le> length mix + length unused \<Longrightarrow> seed_loop R n target limit mix used unused g \<noteq> None"
proof (induction "length unused" arbitrary: mix used unused g)
  case 0
  then show ?case by (subst seed_loop.simps) simp
next
  case (Suc k)
  obtain p g' where p: "rng_range R (length unused) g = (p, g')" by fastforce
  have "seed_loop R n target limit (mix @ [unused ! p]) u (swap_remove p unused) g' \<noteq> None" for u
    using Suc by (intro Suc.hyps(1)) (simp_all add: length_swap_remove)
  then show ?case using Suc.hyps(2) by (subst seed_loop.simps) (auto simp: p Let_def)
qed

lemma seed_mix_returns:
  assumes "0 < sr_count req" "max_len req \<le> 2 ^ 53" "sr_count req \<le> length cands"
  shows "seed_mix R cands req g \<noteq> None"
  using seed_loop_returns [of "sr_count req" "[]" "[0..<length cands]"] assms(3)
  unfolding seed_mix_def Let_def target_len(1) [OF assms(1,2)] by auto

lemma restart_returns:
  assumes "0 < sr_count req" "max_len req \<le> 2 ^ 53" "sr_count req \<le> length cands"
  obtains s' where "restart R cands req near s = Some s'" "cl_work s' = cl_work s"
  using seed_mix_returns [OF assms, of R "cl_g s"] that
  by (cases "restart R cands req near s") (auto simp: restart_def split: if_splits)

lemma judge_work: "judge R cands req trial s = (stop, s') \<Longrightarrow> cl_work s' = cl_work s"
  by (auto simp: judge_def split: if_splits option.splits prod.splits)

lemma climb_loop_returns:
  assumes q: "0 < sr_count req" "max_len req \<le> 2 ^ 53" "sr_count req \<le> length cands"
  shows "\<exists>s'. climb_loop R cands req near k s = Some s' \<and> cl_work s' \<le> cl_work s + k"
proof (induction k arbitrary: s)
  case (Suc k)
  obtain s1 where s1: "restart R cands req near (s\<lparr>cl_work := cl_work s + 1\<rparr>) = Some s1" "cl_work s1 = cl_work s + 1"
    using restart_returns [OF q, of R near "s\<lparr>cl_work := cl_work s + 1\<rparr>"] by auto
  obtain trial g where t: "try_move R (cl_mix s1) cands req near (cl_g s1) = (trial, g)" by fastforce
  obtain stop s2 where j: "judge R cands req trial (s1\<lparr>cl_stagnant := cl_stagnant s1 + 1, cl_g := g\<rparr>) = (stop, s2)" by fastforce
  have "cl_work s2 = cl_work s + 1" using judge_work [OF j] s1(2) by simp
  then show ?case using Suc [of s2] s1(1) t j by auto
qed simp

definition work_of :: "select_failure + selected_mix \<Rightarrow> nat" where
  "work_of r = (case r of Inl f \<Rightarrow> sf_work_used f | Inr m \<Rightarrow> sm_work_used m)"

lemma work_of_select_result [simp]: "work_of (select_result cands req exact mix e work) = work"
  by (auto simp: work_of_def select_result_def early_failure_def Let_def split: option.splits)

lemma work_of_early [simp]: "work_of (Inl (early_failure msg n work p)) = work"
  by (simp add: work_of_def early_failure_def)

lemma search_from_returns:
  assumes q: "0 < sr_count req" "max_len req \<le> 2 ^ 53" "sr_count req \<le> length cands" "cr_work res \<le> work_limit req"
  shows "\<exists>r. search_from R cands req res mix g = Some r \<and> work_of r \<le> work_limit req"
proof (cases "cr_exact res \<and> first_eval cands req mix = None")
  case False
  define s0 where "s0 = \<lparr>cl_mix = mix, cl_best_mix = mix, cl_best_eval = first_eval cands req mix, cl_stagnant = 0,
    cl_perturb = True, cl_work = cr_work res, cl_g = g\<rparr>"
  define k where "k = (if cr_exact res \<or> (case first_eval cands req mix of None \<Rightarrow> False | Some e \<Rightarrow> is_optimal e)
    then 0 else work_limit req - cr_work res)"
  obtain s where s: "climb_loop R cands req (nearest_cand cands req) k s0 = Some s" "cl_work s \<le> cl_work s0 + k"
    using climb_loop_returns [OF q(1-3)] by blast
  have "search_from R cands req res mix g =
      Some (select_result cands req (cr_exact res) (cl_best_mix s) (cl_best_eval s) (cl_work s))"
    using False s(1) unfolding search_from_def Let_def k_def s0_def by (auto simp del: climb_loop.simps)
  moreover have "cl_work s \<le> work_limit req" using s(2) q(4) by (simp add: s0_def k_def split: if_splits)
  ultimately show ?thesis by simp
qed (use q(4) in \<open>auto simp: search_from_def\<close>)

lemma homogeneous_work: "try_homogeneous_bucket R cands req g = (Some m, g') \<Longrightarrow> sm_work_used m = 0"
  by (auto simp: try_homogeneous_bucket_def Let_def split: option.splits prod.splits if_splits)

text \<open>
  C16: With at least as many candidates as prompts wanted, the selection returns for every random
  generator, and the work it reports is within the work limit; for whole lengths whose sums are
  exact, finite targets and tolerances, and a work limit below 2^32.
\<close>

theorem select_mix_returns:
  assumes R: "rng_ok R" and s: "small_request (filter_candidates rows req) req"
    and n: "sr_count req \<le> length (filter_candidates rows req)"
  shows "case select_mix R rows req of None \<Rightarrow> False | Some r \<Rightarrow> work_of r \<le> work_limit req"
proof (cases "sr_count req = 0 \<or> max_repeats req = 0 \<or> filter_candidates rows req = []")
  case True
  then show ?thesis by (auto simp: select_mix_def)
next
  case False
  then have c: "0 < sr_count req" by simp
  have x: "max_len req \<le> 2 ^ 53" using s by (auto simp: small_request_def exact_lengths_def)
  from select_mix_steps [OF R s False] show ?thesis
  proof cases
    case (1 h g buckets res g1)
    show ?thesis
    proof (cases h)
      case None
      obtain mix g2 where m: "first_mix R (filter_candidates rows req) req res g1 = Some (mix, g2)"
        using seed_mix_returns [OF c x n, of R g1] by (cases "cr_mix res") (auto simp: first_mix_def)
      have "cr_work res \<le> work_limit req" using 1(3) by (simp add: search_result_ok_def)
      from search_from_returns [OF c x n this, of R mix g2] show ?thesis using 1(4) None m by auto
    next
      case (Some m)
      then show ?thesis using 1 homogeneous_work by (fastforce simp: work_of_def)
    qed
  qed
qed

subsection \<open>Witnesses\<close>

definition demo_rng :: "nat rng" where
  "demo_rng = \<lparr>rng_seed = (\<lambda>s. s), rng_range = (\<lambda>n g. (g mod n, g + 1)), rng_unit = (\<lambda>g. (Fin 0, g))\<rparr>"

definition demo_row :: "int \<Rightarrow> library_row" where
  "demo_row i = \<lparr>lr_ordinal = 0, lr_prompt = [], target_output_length = 10, lr_reasoning = False,
     target_input_tokens = i, target_output_tokens = 10\<rparr>"

definition demo_request :: "nat \<Rightarrow> f64 \<Rightarrow> select_request" where
  "demo_request n tolerance = \<lparr>sr_count = n, count_slack = 0, sr_seed = 1, isl_target = Fin 10, isl_unit = Tokens,
     isl_stat = MeanLength, isl_tolerance = tolerance, osl_target = Fin 10, osl_unit = Tokens, osl_stat = MeanLength,
     osl_tolerance = Fin 0, isl_token_basis = SuppliedTarget, sr_reasoning = AnyReasoning, max_repeats = 1,
     work_limit = 8, osl_tokens_per_word = None\<rparr>"

lemma demo_rng_ok: "rng_ok demo_rng"
  by (simp add: rng_ok_def demo_rng_def)

lemma demo_small: "small_request (filter_candidates [demo_row 9, demo_row 12] (demo_request 1 (Fin 1))) (demo_request 1 (Fin 1))"
  by code_simp

theorem select_mix_sound_witness:
  "case select_mix demo_rng [demo_row 9, demo_row 12] (demo_request 1 (Fin 1)) of
     Some (Inr m) \<Rightarrow> mix_ok (filter_candidates [demo_row 9, demo_row 12] (demo_request 1 (Fin 1))) (demo_request 1 (Fin 1)) m
   | _ \<Rightarrow> True"
  using select_mix_sound [OF demo_rng_ok demo_small] .

theorem select_mix_returns_witness:
  "case select_mix demo_rng [demo_row 9, demo_row 12] (demo_request 1 (Fin 1)) of
     None \<Rightarrow> False | Some r \<Rightarrow> work_of r \<le> work_limit (demo_request 1 (Fin 1))"
  by (rule select_mix_returns [OF demo_rng_ok demo_small]) code_simp

text \<open>One row that misses by more than the epsilon: every admissible mix is that row.\<close>

lemma single_row_mixes:
  assumes "admissible 1 (demo_request 1 t) mix"
  shows "mix = [0]"
  using assms by (cases mix; cases "tl mix") (auto simp: admissible_def demo_request_def min_len_def max_len_def sat64_def)

theorem select_mix_infeasible_witness:
  "case select_mix demo_rng [demo_row 12] (demo_request 1 (Fin 1)) of
     Some (Inl f) \<Rightarrow> sf_proven_empty f \<longrightarrow>
       (\<forall>mix. admissible (length (filter_candidates [demo_row 12] (demo_request 1 (Fin 1)))) (demo_request 1 (Fin 1)) mix \<longrightarrow>
          \<not> meets (filter_candidates [demo_row 12] (demo_request 1 (Fin 1))) (demo_request 1 (Fin 1)) mix)
   | _ \<Rightarrow> True"
proof (rule select_mix_infeasible [OF demo_rng_ok])
  show "small_request (filter_candidates [demo_row 12] (demo_request 1 (Fin 1))) (demo_request 1 (Fin 1))" by code_simp
  show "0 < sr_count (demo_request 1 (Fin 1))" by (simp add: demo_request_def)
next
  fix mix
  assume "admissible (length (filter_candidates [demo_row 12] (demo_request 1 (Fin 1)))) (demo_request 1 (Fin 1)) mix"
  moreover have "length (filter_candidates [demo_row 12] (demo_request 1 (Fin 1))) = 1"
    by (simp add: filter_candidates_def demo_request_def keeps_row_def)
  ultimately have "mix = [0]" using single_row_mixes by simp
  moreover have "\<not> near_tie (filter_candidates [demo_row 12] (demo_request 1 (Fin 1))) (demo_request 1 (Fin 1)) [0]"
    by code_simp
  ultimately show "\<not> near_tie (filter_candidates [demo_row 12] (demo_request 1 (Fin 1))) (demo_request 1 (Fin 1)) mix"
    by simp
qed

text \<open>
  Without that hypothesis the conclusion fails. Two rows of 9 and 11 tokens meet a mean of 10;
  the three rows 9, 11, 11 miss a tolerance of 0.333333333333 by less than the epsilon but have the
  preferred number, so they displace the two, and the search that wants three ends without a mix.
\<close>

definition tie_cands :: "cand list" where
  "tie_cands = filter_candidates [demo_row 9, demo_row 11] (demo_request 3 (Fin 0))"

definition tie_request :: select_request where
  "tie_request = (demo_request 3 (rnd (333333333333 / 10 ^ 12)))\<lparr>count_slack := 1, max_repeats := 2\<rparr>"

lemma near_tie_displaces:
  "admissible 2 tie_request [0, 1] \<and> meets tie_cands tie_request [0, 1] \<and>
   (case consider_composition tie_cands tie_request [0, 1, 1] (consider_composition tie_cands tie_request [0, 1] None) of
      None \<Rightarrow> False
    | Some (sc, mix) \<Rightarrow> mix = [0, 1, 1] \<and> \<not> zero_excess sc)"
  by code_simp

end
