(* ===== verification/Library_Files.thy ===== *)
theory Library_Files
  imports Prompt_Library Sut Utf8
begin

text \<open>
  Files of the prompt library (\<open>src/prompt_library.rs\<close>): the JSONL and Parquet loaders, the
  sample index, the pinned revision, the checksums of the cache, and what a selection writes: rows,
  checksum, report. The JSON and Parquet readers, the digest and the file system are parameters.
\<close>

datatype library_error =
    MissingField string
  | InvalidLine nat
  | UnreadableLibrary
  | MissingColumn string
  | BadInteger nat
  | BadReasoning
  | IndexLength nat nat
  | ZeroSourceLine
  | BadIndexEntry
  | IndexShape
  | MovingRevision ustr
  | NoSha ustr
  | LookupFailed
  | BadChecksumLine
  | ForbiddenPath ustr
  | BasenameCollision ustr
  | ChecksumMismatch ustr
  | NeedTokensPerWord
  | BadTokensPerWord

subsection \<open>Token budget\<close>

text \<open>\<open>x as i64\<close> truncates and saturates; \<open>u32::try_from(..).unwrap_or(u32::MAX)\<close>.\<close>

fun f_to_i64 :: "f64 \<Rightarrow> int" where
  "f_to_i64 NaN = 0"
| "f_to_i64 NInf = - (2 ^ 63)"
| "f_to_i64 PInf = 2 ^ 63 - 1"
| "f_to_i64 (Fin a) = max (- (2 ^ 63)) (min (2 ^ 63 - 1) (if 0 \<le> a then \<lfloor>a\<rfloor> else \<lceil>a\<rceil>))"

definition max_or_1 :: "int list \<Rightarrow> int" where
  "max_or_1 xs = (case xs of [] \<Rightarrow> 1 | x # ys \<Rightarrow> foldl max x ys)"

definition to_u32 :: "int \<Rightarrow> nat" where
  "to_u32 i = (if i < 2 ^ 32 then nat i else 2 ^ 32 - 1)"

definition recommended_max_tokens :: "selected_mix \<Rightarrow> select_request \<Rightarrow> library_error + nat" where
  "recommended_max_tokens mix req =
     (case osl_unit req of
        Tokens \<Rightarrow> Inr (to_u32 (max (max_or_1 (map target_output_tokens (sm_rows mix))) 1))
      | Words \<Rightarrow>
          (case osl_tokens_per_word req of
             None \<Rightarrow> Inl NeedTokensPerWord
           | Some r \<Rightarrow>
               if \<not> (is_finite r \<and> flt (Fin 0) r) then Inl BadTokensPerWord
               else Inr (to_u32 (max (max_or_1 (map (\<lambda>row. f_to_i64 (f_ceil (fmul (f_of_int (target_output_length row)) r)))
                 (sm_rows mix))) 1))))"

subsection \<open>Output of a selection\<close>

definition jsonl_row :: "nat \<Rightarrow> library_row \<Rightarrow> json" where
  "jsonl_row i row =
     jobject [(''prompt'', JString (rendered_prompt row)), (''source_ordinal'', jnat (lr_ordinal row)),
       (''target_output_tokens'', jint (target_output_tokens row)),
       (''target_output_length'', jint (target_output_length row)), (''slot'', jnat i)]"

definition write_jsonl :: "serde \<Rightarrow> selected_mix \<Rightarrow> ustr" where
  "write_jsonl sj mix = concat (map (\<lambda>(i, row). to_string sj (jsonl_row i row) @ [10]) (enumerate 0 (sm_rows mix)))"

definition hex_char :: "nat \<Rightarrow> nat" where
  "hex_char d = (if d < 10 then 48 + d else 87 + d)"

definition hex_digest :: "bytes \<Rightarrow> ustr" where
  "hex_digest bs = concat (map (\<lambda>b. [hex_char (unat b div 16), hex_char (unat b mod 16)]) bs)"

definition to_le_bytes :: "nat \<Rightarrow> bytes" where
  "to_le_bytes n = map (\<lambda>i. word_of_nat (n div 256 ^ i)) [0..<8]"

text \<open>What the hasher is fed, row by row.\<close>

definition checksum_input :: "selected_mix \<Rightarrow> bytes" where
  "checksum_input mix =
     concat (map (\<lambda>row. to_le_bytes (lr_ordinal row) @ utf8_encode (rendered_prompt row) @ [10]) (sm_rows mix))"

definition mix_checksum :: "(bytes \<Rightarrow> bytes) \<Rightarrow> selected_mix \<Rightarrow> ustr" where
  "mix_checksum sha256 mix = hex_digest (sha256 (checksum_input mix))"

definition unit_name :: "length_unit \<Rightarrow> json" where
  "unit_name u = (case u of Words \<Rightarrow> jstr ''words'' | Tokens \<Rightarrow> jstr ''tokens'')"

definition stat_name :: "length_stat \<Rightarrow> json" where
  "stat_name s = (case s of MeanLength \<Rightarrow> jstr ''mean'' | MedianLength \<Rightarrow> jstr ''median'')"

definition basis_name :: "isl_token_basis \<Rightarrow> json" where
  "basis_name b = (case b of SuppliedTarget \<Rightarrow> jstr ''supplied-target'')"

definition ordinal_histogram :: "selected_mix \<Rightarrow> (ustr, nat) btree" where
  "ordinal_histogram mix =
     fold (\<lambda>row m. let k = show_nat (lr_ordinal row) in bt_insert k (unwrap_or (bt_get m k) 0 + 1) m) (sm_rows mix) []"

record dataset_ref =
  ds_repo :: ustr
  ds_revision :: ustr
  ds_config :: ustr
  ds_split :: ustr

definition REPORT_SCHEMA_VERSION :: string where
  "REPORT_SCHEMA_VERSION = ''metrum-ai-bench-cli.prompt-mix.v1''"

definition isl_report :: "select_request \<Rightarrow> selected_mix \<Rightarrow> json" where
  "isl_report req mix =
     jobject [(''target'', jf64 (isl_target req)), (''unit'', unit_name (isl_unit req)), (''stat'', stat_name (isl_stat req)),
       (''tolerance'', jf64 (isl_tolerance req)), (''achieved'', jf64 (sm_isl_achieved mix)), (''gap'', jf64 (sm_isl_gap mix)),
       (''basis'', basis_name (isl_token_basis req)),
       (''counting_scope'', (case isl_unit req of
          Words \<Rightarrow> jstr ''rendered prompt including output-word hint; excludes system/chat framing and nonces''
        | Tokens \<Rightarrow> jstr ''source target_input_tokens (supplied-target); hint is not included''))]"

definition osl_report :: "select_request \<Rightarrow> selected_mix \<Rightarrow> json" where
  "osl_report req mix =
     jobject [(''target'', jf64 (osl_target req)), (''unit'', unit_name (osl_unit req)), (''stat'', stat_name (osl_stat req)),
       (''tolerance'', jf64 (osl_tolerance req)), (''achieved'', jf64 (sm_osl_achieved mix)), (''gap'', jf64 (sm_osl_gap mix))]"

definition repeats_report :: "select_request \<Rightarrow> selected_mix \<Rightarrow> json" where
  "repeats_report req mix =
     jobject [(''max_repeats'', jnat (max_repeats req)), (''extra_copies'', jnat (sm_extra_copies mix)),
       (''histogram'', JObject (map (\<lambda>(k, n). (k, jnat n)) (ordinal_histogram mix)))]"

definition selection_report_with_profile ::
  "(bytes \<Rightarrow> bytes) \<Rightarrow> dataset_ref \<Rightarrow> select_request \<Rightarrow> selected_mix \<Rightarrow> nat \<Rightarrow> workload_profile_spec option \<Rightarrow> json" where
  "selection_report_with_profile sha256 ds req mix max_tokens profile =
     jobject ([(''schema_version'', jstr REPORT_SCHEMA_VERSION), (''dataset'', JString (ds_repo ds)),
       (''revision'', JString (ds_revision ds)), (''config'', JString (ds_config ds)), (''split'', JString (ds_split ds)),
       (''seed'', jnat (sr_seed req)), (''preferred_count'', jnat (sr_count req)),
       (''selected_count'', jnat (length (sm_rows mix))), (''count_slack'', jnat (count_slack req)),
       (''isl'', isl_report req mix), (''osl'', osl_report req mix), (''repeats'', repeats_report req mix),
       (''recommended_max_tokens'', jnat max_tokens), (''recommended_num_requests'', jnat (length (sm_rows mix))),
       (''source_ordinals'', JArray (map (\<lambda>row. jnat (lr_ordinal row)) (sm_rows mix))),
       (''schedule_sha256'', JString (mix_checksum sha256 mix)), (''hint_template'', JString HINT_TEMPLATE),
       (''work_used'', jnat (sm_work_used mix)), (''osl_tokens_per_word'', jopt jf64 (osl_tokens_per_word req))] @
      (case profile of
         None \<Rightarrow> []
       | Some p \<Rightarrow> [(''profile'', jobject [(''name'', JString (wp_name p)), (''version'', jnat (wp_version p))])]))"

definition selection_report ::
  "(bytes \<Rightarrow> bytes) \<Rightarrow> dataset_ref \<Rightarrow> select_request \<Rightarrow> selected_mix \<Rightarrow> nat \<Rightarrow> json" where
  "selection_report sha256 ds req mix max_tokens = selection_report_with_profile sha256 ds req mix max_tokens None"

text \<open>The cells of the best rows of a failed selection.\<close>

definition failure_cells :: "select_request \<Rightarrow> library_row list \<Rightarrow> (bits \<times> bits, nat list) btree" where
  "failure_cells req rows =
     fold (\<lambda>row m. bt_push (to_bits (row_isl (isl_unit req) (isl_token_basis req) row), to_bits (row_osl (osl_unit req) row))
       (lr_ordinal row) m) rows []"

definition selection_failure_report :: "(failure_message \<Rightarrow> ustr) \<Rightarrow> select_failure \<Rightarrow> select_request \<Rightarrow> json" where
  "selection_failure_report message err req =
     jobject [(''schema_version'', jstr ''metrum-ai-bench-cli.prompt-selection-failure.v1''),
       (''status'', if sf_proven_empty err then jstr ''proven_infeasible'' else jstr ''budget_exhausted''),
       (''message'', JString (message (sf_message err))), (''candidate_count'', jnat (sf_candidate_count err)),
       (''selected_count'', jnat (sf_selected_count err)), (''preferred_count'', jnat (sr_count req)),
       (''work_used'', jnat (sf_work_used err)), (''work_limit'', jnat (work_limit req)),
       (''isl_achieved'', jopt jf64 (sf_isl_achieved err)), (''osl_achieved'', jopt jf64 (sf_osl_achieved err)),
       (''isl_gap'', jopt jf64 (sf_isl_gap err)), (''osl_gap'', jopt jf64 (sf_osl_gap err)),
       (''best_composition'', JArray (map (\<lambda>((isl, osl), ids).
          jobject [(''isl'', jf64 (from_bits isl)), (''osl'', jf64 (from_bits osl)), (''count'', jnat (length ids)),
            (''row_ids'', JArray (map jnat ids))])
          (failure_cells req (sf_best_rows err))))]"

subsection \<open>Loading rows\<close>

text \<open>\<open>u as i64\<close> keeps the low 64 bits.\<close>

definition wrap_i64 :: "nat \<Rightarrow> int" where
  "wrap_i64 n = (if n < 2 ^ 63 then int n else int n - 2 ^ 64)"

definition json_i64 :: "json \<Rightarrow> string \<Rightarrow> library_error + int" where
  "json_i64 v field =
     (case Option.bind (jget v field) (\<lambda>x. option_or (as_i64 x) (map_option wrap_i64 (as_u64 x))) of
        Some i \<Rightarrow> Inr i
      | None \<Rightarrow> Inl (MissingField field))"

definition truthy :: "ustr \<Rightarrow> bool" where
  "truthy s \<longleftrightarrow> to_ascii_lowercase s \<in> {lit ''true'', lit ''1'', lit ''yes''}"

definition json_reasoning :: "json \<Rightarrow> bool" where
  "json_reasoning v =
     (case jget v ''reasoning'' of Some (JBool b) \<Rightarrow> b | Some (JString s) \<Rightarrow> truthy s | _ \<Rightarrow> False)"

definition row_from_json :: "json \<Rightarrow> nat \<Rightarrow> library_error + library_row" where
  "row_from_json v fallback_ordinal =
     (case get_str v ''prompt'' of
        None \<Rightarrow> Inl (MissingField ''prompt'')
      | Some prompt \<Rightarrow>
          (case json_i64 v ''target_output_length'' of
             Inl e \<Rightarrow> Inl e
           | Inr out_words \<Rightarrow>
               (case json_i64 v ''target_input_tokens'' of
                  Inl e \<Rightarrow> Inl e
                | Inr in_tokens \<Rightarrow>
                    (case json_i64 v ''target_output_tokens'' of
                       Inl e \<Rightarrow> Inl e
                     | Inr out_tokens \<Rightarrow>
                         Inr \<lparr>lr_ordinal = unwrap_or (get_u64 v ''source_ordinal'') fallback_ordinal, lr_prompt = prompt,
                           target_output_length = out_words, lr_reasoning = json_reasoning v,
                           target_input_tokens = in_tokens, target_output_tokens = out_tokens\<rparr>))))"

fun library_lines :: "serde \<Rightarrow> (nat \<times> ustr option) list \<Rightarrow> library_error + library_row list" where
  "library_lines sj [] = Inr []"
| "library_lines sj ((i, None) # ls) = Inl UnreadableLibrary"
| "library_lines sj ((i, Some line) # ls) =
     (if trim line = [] then library_lines sj ls
      else case from_str sj line of
        None \<Rightarrow> Inl (InvalidLine (i + 1))
      | Some v \<Rightarrow>
          (case row_from_json v i of
             Inl e \<Rightarrow> Inl e
           | Inr row \<Rightarrow> map_sum id (Cons row) (library_lines sj ls)))"

definition load_jsonl :: "serde \<Rightarrow> ustr option list \<Rightarrow> library_error + library_row list" where
  "load_jsonl sj ls = library_lines sj (enumerate 0 ls)"

text \<open>
  Parquet shards: \<open>columns\<close> are the names of the columns, a record answers for a column whether
  it reads as a long, an int, a boolean or a string; \<open>None\<close> among the records is a read error.
\<close>

record parquet_cell =
  get_long :: "int option"
  get_int :: "int option"
  get_boolean :: "bool option"
  get_string :: "ustr option"

record parquet_shard =
  columns :: "ustr list"
  records :: "(nat \<Rightarrow> parquet_cell) option list"

record column_index =
  ci_prompt :: "nat option"
  ci_output_length :: "nat option"
  ci_reasoning :: "nat option"
  ci_input_tokens :: "nat option"
  ci_output_tokens :: "nat option"

definition no_columns :: column_index where
  "no_columns = \<lparr>ci_prompt = None, ci_output_length = None, ci_reasoning = None, ci_input_tokens = None, ci_output_tokens = None\<rparr>"

definition note_column :: "nat \<times> ustr \<Rightarrow> column_index \<Rightarrow> column_index" where
  "note_column c idx =
     (case c of (i, name) \<Rightarrow>
        if name = lit ''prompt'' then idx\<lparr>ci_prompt := Some i\<rparr>
        else if name = lit ''target_output_length'' then idx\<lparr>ci_output_length := Some i\<rparr>
        else if name = lit ''reasoning'' then idx\<lparr>ci_reasoning := Some i\<rparr>
        else if name = lit ''target_input_tokens'' then idx\<lparr>ci_input_tokens := Some i\<rparr>
        else if name = lit ''target_output_tokens'' then idx\<lparr>ci_output_tokens := Some i\<rparr>
        else idx)"

definition require_columns :: "column_index \<Rightarrow> library_error + unit" where
  "require_columns idx =
     (case find (\<lambda>(name, i). i = None)
        [(''prompt'', ci_prompt idx), (''target_output_length'', ci_output_length idx), (''reasoning'', ci_reasoning idx),
         (''target_input_tokens'', ci_input_tokens idx), (''target_output_tokens'', ci_output_tokens idx)] of
        Some (name, _) \<Rightarrow> Inl (MissingColumn name)
      | None \<Rightarrow> Inr ())"

definition parquet_i64 :: "(nat \<Rightarrow> parquet_cell) \<Rightarrow> nat \<Rightarrow> library_error + int" where
  "parquet_i64 rec idx =
     (case get_long (rec idx) of
        Some v \<Rightarrow> Inr v
      | None \<Rightarrow> (case get_int (rec idx) of Some v \<Rightarrow> Inr v | None \<Rightarrow> Inl (BadInteger idx)))"

definition parquet_bool :: "(nat \<Rightarrow> parquet_cell) \<Rightarrow> nat \<Rightarrow> library_error + bool" where
  "parquet_bool rec idx =
     (case get_boolean (rec idx) of
        Some b \<Rightarrow> Inr b
      | None \<Rightarrow> (case get_string (rec idx) of Some s \<Rightarrow> Inr (truthy s) | None \<Rightarrow> Inl BadReasoning))"

definition parquet_row :: "column_index \<Rightarrow> nat \<Rightarrow> (nat \<Rightarrow> parquet_cell) \<Rightarrow> library_error + library_row" where
  "parquet_row idx ord rec =
     (case get_string (rec (the (ci_prompt idx))) of
        None \<Rightarrow> Inl UnreadableLibrary
      | Some prompt \<Rightarrow>
          (case parquet_i64 rec (the (ci_output_length idx)) of
             Inl e \<Rightarrow> Inl e
           | Inr out_words \<Rightarrow>
               (case parquet_bool rec (the (ci_reasoning idx)) of
                  Inl e \<Rightarrow> Inl e
                | Inr reasoning \<Rightarrow>
                    (case parquet_i64 rec (the (ci_input_tokens idx)) of
                       Inl e \<Rightarrow> Inl e
                     | Inr in_tokens \<Rightarrow>
                         (case parquet_i64 rec (the (ci_output_tokens idx)) of
                            Inl e \<Rightarrow> Inl e
                          | Inr out_tokens \<Rightarrow>
                              Inr \<lparr>lr_ordinal = ord, lr_prompt = prompt, target_output_length = out_words,
                                lr_reasoning = reasoning, target_input_tokens = in_tokens,
                                target_output_tokens = out_tokens\<rparr>)))))"

fun shard_rows :: "column_index \<Rightarrow> nat \<Rightarrow> (nat \<Rightarrow> parquet_cell) option list \<Rightarrow> library_error + library_row list" where
  "shard_rows idx ord [] = Inr []"
| "shard_rows idx ord (None # rs) = Inl UnreadableLibrary"
| "shard_rows idx ord (Some rec # rs) =
     (case parquet_row idx ord rec of
        Inl e \<Rightarrow> Inl e
      | Inr row \<Rightarrow> map_sum id (Cons row) (shard_rows idx (ord + 1) rs))"

text \<open>The ordinals run on over the shards; \<open>None\<close> is a file that cannot be opened or read.\<close>

fun load_parquet_files :: "parquet_shard option list \<Rightarrow> nat \<Rightarrow> library_error + library_row list" where
  "load_parquet_files [] ord = Inr []"
| "load_parquet_files (None # fs) ord = Inl UnreadableLibrary"
| "load_parquet_files (Some shard # fs) ord =
     (let idx = fold note_column (enumerate 0 (columns shard)) no_columns in
      case require_columns idx of
        Inl e \<Rightarrow> Inl e
      | Inr _ \<Rightarrow>
          (case shard_rows idx ord (records shard) of
             Inl e \<Rightarrow> Inl e
           | Inr rows \<Rightarrow> map_sum id ((@) rows) (load_parquet_files fs (ord + length rows))))"

subsection \<open>The sample index\<close>

fun set_ordinals :: "library_row list \<Rightarrow> nat list \<Rightarrow> library_error + library_row list" where
  "set_ordinals (row # rows) (line # ls) =
     (if line = 0 then Inl ZeroSourceLine
      else map_sum id (Cons (row\<lparr>lr_ordinal := line - 1\<rparr>)) (set_ordinals rows ls))"
| "set_ordinals rows _ = Inr rows"

definition apply_sample_index :: "library_row list \<Rightarrow> nat list \<Rightarrow> library_error + library_row list" where
  "apply_sample_index rows index =
     (if length index \<noteq> length rows then Inl (IndexLength (length index) (length rows)) else set_ordinals rows index)"

definition index_entry :: "json \<Rightarrow> nat option" where
  "index_entry item = option_or (as_u64 item) (get_u64 item ''source_line'')"

fun sample_index_entries :: "json list \<Rightarrow> library_error + nat list" where
  "sample_index_entries [] = Inr []"
| "sample_index_entries (item # items) =
     (case index_entry item of
        None \<Rightarrow> Inl BadIndexEntry
      | Some n \<Rightarrow> map_sum id (Cons n) (sample_index_entries items))"

definition parse_sample_index :: "serde \<Rightarrow> ustr \<Rightarrow> library_error + nat list" where
  "parse_sample_index sj txt =
     (case from_str sj txt of
        None \<Rightarrow> Inl UnreadableLibrary
      | Some (JArray items) \<Rightarrow> sample_index_entries items
      | Some (JObject m) \<Rightarrow>
          (case bt_get m (lit ''source_lines'') of
             None \<Rightarrow> Inl IndexShape
           | Some ls \<Rightarrow> (case as_array ls of None \<Rightarrow> Inl IndexShape | Some items \<Rightarrow> sample_index_entries items))
      | Some _ \<Rightarrow> Inl IndexShape)"

subsection \<open>Revisions and checksums\<close>

definition resolve_revision ::
  "(ustr \<Rightarrow> library_error + json) \<Rightarrow> ustr \<Rightarrow> ustr \<Rightarrow> bool \<Rightarrow> library_error + ustr" where
  "resolve_revision hf_get_json repo revision allow_moving =
     (let trimmed = trim revision in
      if str_len trimmed = 40 \<and> list_all is_ascii_hexdigit trimmed then Inr (to_ascii_lowercase trimmed)
      else if \<not> allow_moving then Inl (MovingRevision trimmed)
      else case hf_get_json (lit ''https://huggingface.co/api/datasets/'' @ repo @ lit ''/revision/'' @ trimmed) of
        Inl e \<Rightarrow> Inl e
      | Inr v \<Rightarrow>
          (case Option.bind (option_or (jget v ''sha'') (jget v ''commitId'')) as_str of
             Some s \<Rightarrow> Inr s
           | None \<Rightarrow> Inl (NoSha trimmed)))"

text \<open>Components of a relative path: empty and \<open>.\<close> parts vanish.\<close>

definition path_components :: "ustr \<Rightarrow> ustr list" where
  "path_components p = filter (\<lambda>c. c \<noteq> [] \<and> c \<noteq> lit ''.'') (split_on 47 p)"

definition file_name :: "ustr \<Rightarrow> ustr option" where
  "file_name p = option_filter (\<lambda>c. c \<noteq> lit ''..'') (last_opt (path_components p))"

fun trim_start_matches :: "ustr \<Rightarrow> ustr \<Rightarrow> ustr" where
  "trim_start_matches pat s =
     (if pat = [] then s
      else case s of
        [] \<Rightarrow> []
      | c # cs \<Rightarrow> (if take (length pat) s = pat then trim_start_matches pat (drop (length pat) s) else s))"

declare trim_start_matches.simps [simp del]

text \<open>\<open>split_once(char::is_whitespace)\<close>.\<close>

definition split_space :: "ustr \<Rightarrow> (ustr \<times> ustr) option" where
  "split_space s =
     (case dropWhile (\<lambda>c. \<not> is_whitespace c) s of
        [] \<Rightarrow> None
      | _ # rest \<Rightarrow> Some (takeWhile (\<lambda>c. \<not> is_whitespace c) s, rest))"

text \<open>One line of the sums; \<open>read_file\<close> gives the bytes of a file of the cache directory.\<close>

definition checksum_line ::
  "(bytes \<Rightarrow> bytes) \<Rightarrow> (ustr \<Rightarrow> bytes option) \<Rightarrow> ustr \<Rightarrow> ustr \<Rightarrow> (ustr, ustr) btree \<Rightarrow> library_error + (ustr, ustr) btree" where
  "checksum_line sha256 read_file config raw seen =
     (let line = trim raw in
      if line = [] \<or> starts_with (lit ''#'') line then Inr seen
      else case split_space line of
        None \<Rightarrow> Inl BadChecksumLine
      | Some (digest0, name0) \<Rightarrow>
          (let name = trim_start_matches (lit ''./'') (trim_start_matches (lit ''*'') (trim name0)) in
           if lit ''..'' \<in> set (path_components name) then Inl (ForbiddenPath name)
           else (let base = unwrap_or (file_name name) name in
             if base = lit ''checksums.sha256'' \<or> \<not> starts_with (lit ''data/'' @ config @ lit ''/'') name then Inr seen
             else (let digest = to_ascii_lowercase (trim digest0) in
               if bt_get seen base \<noteq> None \<and> bt_get seen base \<noteq> Some digest then Inl (BasenameCollision base)
               else (let seen' = (if bt_get seen base = None then bt_insert base digest seen else seen) in
                 case read_file base of
                   None \<Rightarrow> Inr seen'
                 | Some bs \<Rightarrow>
                     if hex_digest (sha256 bs) \<noteq> digest then Inl (ChecksumMismatch base) else Inr seen')))))"

fun checksum_lines ::
  "(bytes \<Rightarrow> bytes) \<Rightarrow> (ustr \<Rightarrow> bytes option) \<Rightarrow> ustr \<Rightarrow> ustr list \<Rightarrow> (ustr, ustr) btree \<Rightarrow> library_error + (ustr, ustr) btree" where
  "checksum_lines sha256 read_file config [] seen = Inr seen"
| "checksum_lines sha256 read_file config (l # ls) seen =
     (case checksum_line sha256 read_file config l seen of
        Inl e \<Rightarrow> Inl e
      | Inr seen' \<Rightarrow> checksum_lines sha256 read_file config ls seen')"

definition verify_cached_checksums ::
  "(bytes \<Rightarrow> bytes) \<Rightarrow> (ustr \<Rightarrow> bytes option) \<Rightarrow> ustr option \<Rightarrow> ustr \<Rightarrow> library_error + unit" where
  "verify_cached_checksums sha256 read_file recorded config =
     (case recorded of
        None \<Rightarrow> Inr ()
      | Some txt \<Rightarrow> map_sum id (\<lambda>_. ()) (checksum_lines sha256 read_file config (str_lines txt) []))"

end
