(* ===== verification/Vlm.thy ===== *)
theory Vlm
  imports Prompt_Inputs Endpoints Usage
begin

text \<open>
  Vision requests (\<open>src/vlm.rs\<close>): the bounded cache of images, loading and encoding an image,
  the chat body with its image parts, and the serialization that splices the base64 payloads into
  a skeleton body. The image codecs, base64, the digest, the HTTP client, the file system and the
  JSON printer are parameters. What the code only logs is left out.
\<close>

datatype vlm_error =
    ZeroCacheSize
  | BadDataUrl data_url_error
  | FetchFailed ustr
  | FetchStatus ustr nat
  | FetchBodyFailed ustr
  | LocalReadFailed ustr
  | HeaderUnreadable ustr
  | SizeUnreadable ustr
  | DecodeFailed ustr
  | EncodeFailed
  | ExtraInvalid
  | ExtraRejected merge_error

record image_data =
  base64_data :: ustr
  mime_type :: ustr
  id_width :: nat
  id_height :: nat
  size_bytes :: nat
  id_url :: ustr

subsection \<open>The cache\<close>

record image_cache =
  ic_map :: "(ustr, image_data) btree"
  ic_order :: "ustr list"
  ic_capacity :: nat

definition cache_new :: "nat \<Rightarrow> vlm_error + image_cache" where
  "cache_new capacity =
     (if capacity = 0 then Inl ZeroCacheSize
      else Inr \<lparr>ic_map = [], ic_order = [], ic_capacity = capacity\<rparr>)"

definition cache_get :: "ustr \<Rightarrow> image_cache \<Rightarrow> image_data option \<times> image_cache" where
  "cache_get key c =
     (if bt_get (ic_map c) key = None then (None, c)
      else (bt_get (ic_map c) key,
        if key \<in> set (ic_order c) then c\<lparr>ic_order := remove1 key (ic_order c) @ [key]\<rparr> else c))"

definition cache_put :: "ustr \<Rightarrow> image_data \<Rightarrow> image_cache \<Rightarrow> image_cache" where
  "cache_put key v c =
     (let c1 =
        (if bt_get (ic_map c) key \<noteq> None then c\<lparr>ic_order := filter (\<lambda>k. k \<noteq> key) (ic_order c)\<rparr>
         else if ic_capacity c \<le> length (ic_map c) then
           (case ic_order c of
              [] \<Rightarrow> c
            | evicted # rest \<Rightarrow> c\<lparr>ic_order := rest, ic_map := bt_remove evicted (ic_map c)\<rparr>)
         else c)
      in c1\<lparr>ic_order := ic_order c1 @ [key], ic_map := bt_insert key v (ic_map c1)\<rparr>)"

subsection \<open>Encoding an image\<close>

datatype image_format = Png | Gif | WebP | Jpeg | OtherFormat

record 'i image_lib =
  guess_format :: "bytes \<Rightarrow> image_format option"
  reader_guesses :: "bytes \<Rightarrow> bool"
  into_dimensions :: "bytes \<Rightarrow> (nat \<times> nat) option"
  load_from_memory :: "bytes \<Rightarrow> 'i option"
  resize :: "nat \<Rightarrow> nat \<Rightarrow> 'i \<Rightarrow> 'i"
  to_rgb8 :: "'i \<Rightarrow> 'i"
  img_width :: "'i \<Rightarrow> nat"
  img_height :: "'i \<Rightarrow> nat"
  write_to :: "image_format \<Rightarrow> 'i \<Rightarrow> bytes option"
  base64_encode :: "bytes \<Rightarrow> ustr"
  base64_decode :: "bytes \<Rightarrow> bytes option"

text \<open>Positive \<open>f32\<close> values in the normal range: 24 significant bits, half to even.\<close>

definition rnd32 :: "rat \<Rightarrow> rat" where
  "rnd32 x = (if x = 0 then 0 else let u = pow2 (log2_floor x - 23) in of_int (rne (x / u)) * u)"

text \<open>\<open>(side as f32 * (max_dim as f32 / longest as f32)) as u32\<close>.\<close>

definition scaled_side :: "nat \<Rightarrow> nat \<Rightarrow> nat \<Rightarrow> nat" where
  "scaled_side max_dim longest side =
     (let scale = rnd32 (rnd32 (of_nat max_dim) / rnd32 (of_nat longest))
      in min (nat \<lfloor>rnd32 (rnd32 (of_nat side) * scale)\<rfloor>) (2 ^ 32 - 1))"

definition detected_mime :: "image_format option \<Rightarrow> ustr" where
  "detected_mime f =
     (case f of
        Some Png \<Rightarrow> lit ''image/png''
      | Some Gif \<Rightarrow> lit ''image/gif''
      | Some WebP \<Rightarrow> lit ''image/webp''
      | _ \<Rightarrow> lit ''image/jpeg'')"

record encoded =
  en_bytes :: bytes
  en_mime :: ustr
  en_width :: nat
  en_height :: nat

definition reencode ::
  "'i image_lib \<Rightarrow> ustr \<Rightarrow> nat option \<Rightarrow> bool \<Rightarrow> nat \<Rightarrow> nat \<Rightarrow> bytes \<Rightarrow> vlm_error + encoded" where
  "reencode lib label resize_to reencode_jpeg w h data =
     (case load_from_memory lib data of
        None \<Rightarrow> Inl (DecodeFailed label)
      | Some img0 \<Rightarrow>
          (let img = (case resize_to of
                 None \<Rightarrow> img0
               | Some m \<Rightarrow> resize lib (scaled_side m (max w h) w) (scaled_side m (max w h) h) img0);
               format = (if reencode_jpeg then Jpeg else Png) in
           case write_to lib format (if format = Jpeg then to_rgb8 lib img else img) of
             None \<Rightarrow> Inl EncodeFailed
           | Some bs \<Rightarrow>
               Inr \<lparr>en_bytes = bs, en_mime = (if format = Jpeg then lit ''image/jpeg'' else lit ''image/png''),
                 en_width = img_width lib img, en_height = img_height lib img\<rparr>))"

definition encode_image ::
  "'i image_lib \<Rightarrow> ustr \<Rightarrow> nat option \<Rightarrow> bool \<Rightarrow> ustr \<Rightarrow> bytes \<Rightarrow> vlm_error + image_data" where
  "encode_image lib label max_dimension reencode_jpeg key data =
     (if \<not> reader_guesses lib data then Inl (HeaderUnreadable label)
      else case into_dimensions lib data of
        None \<Rightarrow> Inl (SizeUnreadable label)
      | Some (w, h) \<Rightarrow>
          (let resize_to = option_filter (\<lambda>m. m < w \<or> m < h) max_dimension in
           map_sum id
             (\<lambda>e. \<lparr>base64_data = base64_encode lib (en_bytes e), mime_type = en_mime e, id_width = en_width e,
                id_height = en_height e, size_bytes = length (en_bytes e), id_url = key\<rparr>)
             (if resize_to \<noteq> None \<or> reencode_jpeg then reencode lib label resize_to reencode_jpeg w h data
              else Inr \<lparr>en_bytes = data, en_mime = detected_mime (guess_format lib data),
                en_width = w, en_height = h\<rparr>)))"

subsection \<open>Loading through the cache\<close>

text \<open>
  What one call meets outside: \<open>http_get\<close> is \<open>None\<close> when no response arrives, else the status
  and the body, \<open>None\<close> when it cannot be read.
\<close>

record outside =
  http_get :: "ustr \<Rightarrow> (nat \<times> bytes option) option"
  fs_read :: "ustr \<Rightarrow> bytes option"

record ('i, 'u) loader =
  lib :: "'i image_lib"
  url_lib :: "'u url_ops"
  sha256_hex :: "bytes \<Rightarrow> ustr"
  max_dimension :: "nat option"
  reencode_jpeg :: bool

definition is_http_ref :: "ustr \<Rightarrow> bool" where
  "is_http_ref path \<longleftrightarrow> starts_with (lit ''http://'') path \<or> starts_with (lit ''https://'') path"

definition image_label :: "('i, 'u) loader \<Rightarrow> ustr \<Rightarrow> ustr" where
  "image_label ld path =
     (if is_http_ref path then redact_url (url_lib ld) path else image_ref_key (sha256_hex ld) path)"

definition source_bytes :: "('i, 'u) loader \<Rightarrow> outside \<Rightarrow> ustr \<Rightarrow> vlm_error + bytes" where
  "source_bytes ld out path =
     (if is_data_url path then
        (case decode_data_url (base64_decode (lib ld)) path of
           Inl e \<Rightarrow> Inl (BadDataUrl e)
         | Inr d \<Rightarrow> Inr (di_bytes d))
      else if is_http_ref path then
        (case http_get out path of
           None \<Rightarrow> Inl (FetchFailed (redact_url (url_lib ld) path))
         | Some (status, body) \<Rightarrow>
             if \<not> (200 \<le> status \<and> status < 300) then Inl (FetchStatus (redact_url (url_lib ld) path) status)
             else (case body of
               None \<Rightarrow> Inl (FetchBodyFailed (redact_url (url_lib ld) path))
             | Some bs \<Rightarrow> Inr bs))
      else case fs_read out path of None \<Rightarrow> Inl (LocalReadFailed path) | Some bs \<Rightarrow> Inr bs)"

definition load_image :: "('i, 'u) loader \<Rightarrow> outside \<Rightarrow> ustr \<Rightarrow> vlm_error + image_data" where
  "load_image ld out path =
     (case source_bytes ld out path of
        Inl e \<Rightarrow> Inl e
      | Inr data \<Rightarrow>
          encode_image (lib ld) (image_label ld path) (max_dimension ld) (reencode_jpeg ld)
            (image_ref_key (sha256_hex ld) path) data)"

definition get_or_load ::
  "('i, 'u) loader \<Rightarrow> outside \<Rightarrow> ustr \<Rightarrow> image_cache \<Rightarrow> (vlm_error + image_data) \<times> image_cache" where
  "get_or_load ld out path c =
     (let key = image_ref_key (sha256_hex ld) path in
      case cache_get key c of
        (Some data, c') \<Rightarrow> (Inr data, c')
      | (None, c') \<Rightarrow>
          (case load_image ld out path of
             Inl e \<Rightarrow> (Inl e, c')
           | Inr data \<Rightarrow> (Inr data, cache_put key data c')))"

subsection \<open>The request body\<close>

record image_content_options =
  ico_detail :: ustr
  ico_server_side :: bool

definition default_content_options :: image_content_options where
  "default_content_options = \<lparr>ico_detail = lit ''low'', ico_server_side = False\<rparr>"

definition format_image_content :: "image_content_options \<Rightarrow> image_data \<Rightarrow> json" where
  "format_image_content opts d =
     (let url = (if ico_server_side opts then id_url d
        else lit ''data:'' @ mime_type d @ lit '';base64,'' @ base64_data d)
      in jobject [(''type'', jstr ''image_url''),
           (''image_url'', jobject [(''url'', JString url), (''detail'', JString (ico_detail opts))])])"

record body_args =
  ba_model :: ustr
  ba_max_tokens :: nat
  ba_temperature :: f64
  ba_prompt :: ustr
  ba_detail :: ustr
  ba_server_side :: bool
  ba_streaming :: bool
  ba_ignore_eos :: bool
  ba_min_tokens :: "nat option"
  ba_extra :: "ustr option"
  ba_system :: "ustr option"

definition DEFAULT_SYSTEM :: ustr where
  "DEFAULT_SYSTEM = lit ''You are a helpful assistant capable of understanding images.''"

definition user_content :: "body_args \<Rightarrow> image_data list \<Rightarrow> json list" where
  "user_content a images =
     (if ba_prompt a = [] then [] else [jobject [(''type'', jstr ''text''), (''text'', JString (ba_prompt a))]]) @
     map (format_image_content \<lparr>ico_detail = ba_detail a, ico_server_side = ba_server_side a\<rparr>) images"

definition body_messages :: "body_args \<Rightarrow> image_data list \<Rightarrow> json" where
  "body_messages a images =
     (let system = unwrap_or (ba_system a) DEFAULT_SYSTEM in
      JArray ((if system = [] then [] else [jobject [(''role'', jstr ''system''), (''content'', JString system)]]) @
        [jobject [(''role'', jstr ''user''), (''content'', JArray (user_content a images))]]))"

definition plain_body :: "body_args \<Rightarrow> json \<Rightarrow> json_map" where
  "plain_body a messages =
     (let b0 = fold (\<lambda>(k, v). bt_insert (lit k) v)
            [(''model'', JString (ba_model a)), (''messages'', messages), (''max_tokens'', jnat (ba_max_tokens a)),
             (''temperature'', jf64 (ba_temperature a)), (''stream'', JBool (ba_streaming a))] [];
          b1 = (if ba_ignore_eos a then bt_insert (lit ''ignore_eos'') (JBool True) b0 else b0);
          b2 = (case ba_min_tokens a of None \<Rightarrow> b1 | Some n \<Rightarrow> bt_insert (lit ''min_tokens'') (jnat n) b1)
      in if ba_streaming a
         then bt_insert (lit ''stream_options'') (jobject [(''include_usage'', JBool True)]) b2
         else b2)"

definition build_request_body :: "serde \<Rightarrow> body_args \<Rightarrow> image_data list \<Rightarrow> vlm_error + json" where
  "build_request_body sj a images =
     (let body = plain_body a (body_messages a images) in
      case ba_extra a of
        None \<Rightarrow> Inr (JObject body)
      | Some extra \<Rightarrow>
          (case from_str sj extra of
             None \<Rightarrow> Inl ExtraInvalid
           | Some v \<Rightarrow> map_sum ExtraRejected JObject (merge_extra_body body v)))"

subsection \<open>Splicing the payloads\<close>

definition inline_image_bytes :: "image_data list \<Rightarrow> nat" where
  "inline_image_bytes images = sum_list (map (\<lambda>i. str_len (base64_data i)) images)"

definition image_placeholder :: "nat \<Rightarrow> ustr" where
  "image_placeholder index = [1] @ lit ''metrum-ai-image-'' @ show_nat index @ [1]"

definition to_vec :: "serde \<Rightarrow> json \<Rightarrow> bytes" where
  "to_vec sj v = utf8_encode (to_string sj v)"

definition placeholder_token :: "serde \<Rightarrow> nat \<Rightarrow> bytes" where
  "placeholder_token sj index = utf8_encode (butlast (tl (to_string sj (JString (image_placeholder index)))))"

text \<open>The positions at which a token stands.\<close>

definition hits :: "'a list \<Rightarrow> 'a list \<Rightarrow> nat list" where
  "hits token s = filter (\<lambda>pos. take (length token) (drop pos s) = token) [0..<length s + 1 - length token]"

definition single_hit :: "'a list \<Rightarrow> 'a list \<Rightarrow> nat option" where
  "single_hit s token = (case hits token s of [pos] \<Rightarrow> Some pos | _ \<Rightarrow> None)"

fun all_some :: "'a option list \<Rightarrow> 'a list option" where
  "all_some [] = Some []"
| "all_some (None # xs) = None"
| "all_some (Some x # xs) = map_option (Cons x) (all_some xs)"

fun ascending :: "nat list \<Rightarrow> bool" where
  "ascending (a # b # xs) = (a < b \<and> ascending (b # xs))"
| "ascending _ = True"

text \<open>\<open>None\<close> is the panic of a slice whose start lies behind its end.\<close>

fun splice :: "'a list \<Rightarrow> ('a list \<times> 'a list \<times> nat) list \<Rightarrow> nat \<Rightarrow> 'a list option" where
  "splice skeleton [] copied = Some (drop copied skeleton)"
| "splice skeleton ((payload, token, pos) # xs) copied =
     (if pos < copied then None
      else map_option (\<lambda>rest. drop copied (take pos skeleton) @ payload @ rest)
        (splice skeleton xs (pos + length token)))"

definition skeleton_images :: "image_data list \<Rightarrow> image_data list" where
  "skeleton_images images = map (\<lambda>(i, d). d\<lparr>base64_data := image_placeholder i\<rparr>) (enumerate 0 images)"

definition build_request_bytes :: "serde \<Rightarrow> body_args \<Rightarrow> image_data list \<Rightarrow> (vlm_error + bytes) option" where
  "build_request_bytes sj a images =
     (let is_inline = (\<not> ba_server_side a \<and> 0 < inline_image_bytes images) in
      case build_request_body sj a (if is_inline then skeleton_images images else images) of
        Inl e \<Rightarrow> Some (Inl e)
      | Inr body \<Rightarrow>
          (let skeleton = to_vec sj body in
           if \<not> is_inline then Some (Inr skeleton)
           else (let tokens = map (placeholder_token sj) [0..<length images] in
             case option_filter ascending (all_some (map (single_hit skeleton) tokens)) of
               None \<Rightarrow> Some (map_sum id (to_vec sj) (build_request_body sj a images))
             | Some spans \<Rightarrow>
                 map_option Inr
                   (splice skeleton (zip (map (\<lambda>i. utf8_encode (base64_data i)) images) (zip tokens spans)) 0))))"

subsection \<open>The cache holds the most recently used images\<close>

text \<open>The last \<open>n\<close> keys of a history in the order of their last use.\<close>

definition take_last :: "nat \<Rightarrow> 'a list \<Rightarrow> 'a list" where
  "take_last n xs = drop (length xs - n) xs"

definition recent :: "nat \<Rightarrow> 'a list \<Rightarrow> 'a list" where
  "recent n ks = take_last n (remdups ks)"

text \<open>
  The reference: the history of all images served so far, never forgotten. A call is answered
  from the history when its key is among the last \<open>cap\<close> distinct keys, and loads otherwise.
\<close>

fun lru_answers ::
  "('i, 'u) loader \<Rightarrow> nat \<Rightarrow> (ustr \<times> image_data) list \<Rightarrow> (outside \<times> ustr) list \<Rightarrow> (vlm_error + image_data) list" where
  "lru_answers ld cap hist [] = []"
| "lru_answers ld cap hist ((out, path) # calls) =
     (let key = image_ref_key (sha256_hex ld) path;
          r = (if key \<in> set (recent cap (map fst hist)) then Inr (the (map_of (rev hist) key))
               else load_image ld out path)
      in r # lru_answers ld cap (case r of Inl _ \<Rightarrow> hist | Inr d \<Rightarrow> hist @ [(key, d)]) calls)"

fun cache_run ::
  "('i, 'u) loader \<Rightarrow> (outside \<times> ustr) list \<Rightarrow> image_cache \<Rightarrow> (vlm_error + image_data) list \<times> image_cache" where
  "cache_run ld [] c = ([], c)"
| "cache_run ld ((out, path) # calls) c =
     (case get_or_load ld out path c of
        (r, c1) \<Rightarrow> (case cache_run ld calls c1 of (rs, c2) \<Rightarrow> (r # rs, c2)))"

definition cache_inv :: "image_cache \<Rightarrow> bool" where
  "cache_inv c \<longleftrightarrow> bt_inv (ic_map c) \<and> distinct (ic_order c) \<and> set (ic_order c) = fst ` set (ic_map c) \<and>
     length (ic_map c) \<le> ic_capacity c \<and> 0 < ic_capacity c"

definition cache_shows :: "image_cache \<Rightarrow> (ustr \<times> image_data) list \<Rightarrow> bool" where
  "cache_shows c hist \<longleftrightarrow> cache_inv c \<and> ic_order c = recent (ic_capacity c) (map fst hist) \<and>
     (\<forall>k \<in> set (ic_order c). bt_get (ic_map c) k = map_of (rev hist) k)"

lemma remdups_snoc: "remdups (ks @ [k]) = filter (\<lambda>j. j \<noteq> k) (remdups ks) @ [k]"
  by (induction ks) auto

lemma take_last_append: "take_last n (xs @ ys) = take_last (n - length ys) xs @ take_last n ys"
  by (cases "n < length ys") (auto simp: take_last_def)

lemma recent_snoc:
  assumes "0 < n"
  shows "recent n (ks @ [k]) =
    (if k \<in> set (recent n ks) then filter (\<lambda>j. j \<noteq> k) (recent n ks) @ [k]
     else take_last (n - 1) (recent n ks) @ [k])"
proof -
  let ?u = "remdups ks" and ?f = "filter (\<lambda>j. j \<noteq> k)"
  obtain p o' where u: "?u = p @ o'" and r: "recent n ks = o'" and l: "length o' \<le> n" "p \<noteq> [] \<Longrightarrow> length o' = n"
    using that [of "take (length ?u - n) ?u" "recent n ks"] by (auto simp: recent_def take_last_def)
  have d: "distinct o'" "set p \<inter> set o' = {}" using distinct_remdups [of ks] unfolding u by auto
  have e: "recent n (ks @ [k]) = take_last (n - 1) (?f p @ ?f o') @ [k]"
    using assms by (simp add: recent_def remdups_snoc take_last_append u take_last_def [of n "[k]"])
  show ?thesis
  proof (cases "k \<in> set o'")
    case True
    then have "?f o' = remove1 k o'" using d(1) by (simp add: distinct_remove1_removeAll removeAll_filter_not_eq)
      (metis)
    then have len: "length (?f o') = length o' - 1" using True by (simp add: length_remove1)
    have "take_last (n - 1) (?f p @ ?f o') = ?f o'"
      using l len by (cases "p = []") (auto simp: take_last_append take_last_def)
    then show ?thesis using True e r by simp
  next
    case False
    then have f: "?f o' = o'" by (simp add: filter_id_conv) (metis)
    have "take_last (n - 1) (?f p @ o') = take_last (n - 1) o'"
      using l by (cases "p = []") (auto simp: take_last_append take_last_def)
    then show ?thesis using False e r f by simp
  qed
qed

lemma take_last_length: "length (take_last n xs) = min n (length xs)"
  by (simp add: take_last_def)

lemma set_take_last: "set (take_last n xs) \<subseteq> set xs"
  by (simp add: take_last_def set_drop_subset)

lemma recent_length: "length (recent n ks) \<le> n"
  by (simp add: recent_def take_last_length)

lemma cache_inv_length:
  assumes "cache_inv c" shows "length (ic_order c) = length (ic_map c)"
proof -
  have "distinct (map fst (ic_map c))" using assms by (simp add: cache_inv_def bt_inv_def strict_sorted_iff)
  then show ?thesis using assms distinct_card [of "ic_order c"] distinct_card [of "map fst (ic_map c)"]
    by (simp add: cache_inv_def)
qed

lemma bt_get_None: "bt_get m k = None \<longleftrightarrow> k \<notin> fst ` set m"
  by (simp add: bt_get_def map_of_eq_None_iff)

lemma bt_remove_keys_eq: "bt_inv m \<Longrightarrow> fst ` set (bt_remove k m) = fst ` set m - {k}"
proof -
  assume i: "bt_inv m"
  have "j \<notin> fst ` set (bt_remove k m) \<longleftrightarrow> j \<notin> fst ` set m - {k}" for j
    unfolding bt_get_None [symmetric] using bt_get_remove [OF i, of k j] bt_get_None [of m j] by auto
  then show ?thesis by blast
qed

lemma bt_insert_length: "length (bt_insert k v m) = (if k \<in> fst ` set m then length m else length m + 1)"
  if "bt_inv m"
  using that
proof (induction k v m rule: bt_insert.induct)
  case (2 k v k' v' m)
  then show ?case by (force simp: bt_inv_Cons)
qed simp

lemma bt_remove_length: "k \<in> fst ` set m \<Longrightarrow> length (bt_remove k m) = length m - 1"
proof (induction k m rule: bt_remove.induct)
  case (2 k k' v' m)
  then have "k \<noteq> k' \<Longrightarrow> m \<noteq> []" by auto
  then show ?case using 2 by (cases m) auto
qed simp

text \<open>A hit moves its key to the end; an insertion may first drop the oldest key.\<close>

lemma get_shows:
  assumes s: "cache_shows c hist" and g: "cache_get key c = (Some d, c')"
  shows "cache_shows c' (hist @ [(key, d)]) \<and> key \<in> set (recent (ic_capacity c) (map fst hist)) \<and>
    d = the (map_of (rev hist) key) \<and> ic_capacity c' = ic_capacity c"
proof -
  have k: "key \<in> set (ic_order c)" "bt_get (ic_map c) key = Some d" and
    c': "c' = c\<lparr>ic_order := remove1 key (ic_order c) @ [key]\<rparr>"
    using s g by (auto simp: cache_get_def cache_shows_def cache_inv_def bt_get_None split: if_splits
      dest!: bt_get_Some_in intro: rev_image_eqI)
  have dist: "distinct (ic_order c)" "0 < ic_capacity c" using s by (auto simp: cache_shows_def cache_inv_def)
  have r: "remove1 key (ic_order c) = filter (\<lambda>j. j \<noteq> key) (ic_order c)"
    using dist by (simp add: distinct_remove1_removeAll removeAll_filter_not_eq) (metis)
  have "ic_order c' = recent (ic_capacity c) (map fst hist @ [key])"
    using s k dist r by (simp add: recent_snoc c' cache_shows_def)
  moreover have "cache_inv c'"
  proof -
    have "cache_inv c" using s by (simp add: cache_shows_def)
    then show ?thesis using k(1) unfolding c' r by (auto simp: cache_inv_def)
  qed
  moreover have old: "ic_order c = recent (ic_capacity c) (map fst hist)"
      "\<forall>j \<in> set (ic_order c). bt_get (ic_map c) j = map_of (rev hist) j"
    using s by (simp_all add: cache_shows_def)
  moreover have "bt_get (ic_map c') j = map_of (rev (hist @ [(key, d)])) j" if "j \<in> set (ic_order c')" for j
    using that old(2) k unfolding c' r by auto
  moreover have "ic_capacity c' = ic_capacity c" by (simp add: c')
  moreover have "d = the (map_of (rev hist) key)" using old(2) k by force
  ultimately show ?thesis using k(1) by (simp add: cache_shows_def)
qed

lemma get_misses:
  assumes "cache_shows c hist" "cache_get key c = (None, c')"
  shows "c' = c \<and> bt_get (ic_map c) key = None \<and> key \<notin> set (recent (ic_capacity c) (map fst hist))"
  using assms by (auto simp: cache_get_def cache_shows_def cache_inv_def bt_get_None split: if_splits)

lemma put_shows:
  assumes s: "cache_shows c hist" and n: "bt_get (ic_map c) key = None"
  shows "cache_shows (cache_put key d c) (hist @ [(key, d)]) \<and> ic_capacity (cache_put key d c) = ic_capacity c"
proof -
  have i: "cache_inv c" and o: "ic_order c = recent (ic_capacity c) (map fst hist)"
    and v: "\<And>k. k \<in> set (ic_order c) \<Longrightarrow> bt_get (ic_map c) k = map_of (rev hist) k"
    using s by (auto simp: cache_shows_def)
  have k: "key \<notin> set (ic_order c)" using i n by (auto simp: cache_inv_def bt_get_None)
  have r: "recent (ic_capacity c) (map fst hist @ [key]) = take_last (ic_capacity c - 1) (ic_order c) @ [key]"
    using i k by (simp add: recent_snoc o [symmetric] cache_inv_def)
  note len = cache_inv_length [OF i]
  show ?thesis
  proof (cases "ic_capacity c \<le> length (ic_map c)")
    case False
    then have p: "cache_put key d c = c\<lparr>ic_order := ic_order c @ [key], ic_map := bt_insert key d (ic_map c)\<rparr>"
      using n by (simp add: cache_put_def)
    have "take_last (ic_capacity c - 1) (ic_order c) = ic_order c" using False len by (simp add: take_last_def)
    then show ?thesis using i k v r n False
      by (auto simp: p cache_shows_def cache_inv_def bt_inv_insert bt_get_insert bt_insert_length bt_get_None
        bt_insert_keys [simplified])
  next
    case True
    then have full: "length (ic_order c) = ic_capacity c" using i len by (simp add: cache_inv_def)
    then obtain e rest where e: "ic_order c = e # rest" using i by (cases "ic_order c") (auto simp: cache_inv_def)
    have p: "cache_put key d c =
        c\<lparr>ic_order := rest @ [key], ic_map := bt_insert key d (bt_remove e (ic_map c))\<rparr>"
      using n True e by (simp add: cache_put_def)
    have inv: "bt_inv (ic_map c)" and em: "e \<in> fst ` set (ic_map c)" using i e by (auto simp: cache_inv_def)
    have t: "take_last (ic_capacity c - 1) (ic_order c) = rest" using full e by (simp add: take_last_def)
    have keys: "fst ` set (bt_remove e (ic_map c)) = set rest" "e \<notin> set rest" "distinct rest"
      using i e inv by (auto simp: bt_remove_keys_eq cache_inv_def)
    have "cache_inv (cache_put key d c)"
      using i k e keys inv em True len full
      by (auto simp: p cache_inv_def bt_inv_insert bt_inv_remove bt_insert_length bt_remove_length
        bt_insert_keys [simplified])
    moreover have "bt_get (bt_remove e (ic_map c)) j = map_of (rev hist) j" if "j \<in> set rest" for j
      using that keys(2) v [of j] e inv by (auto simp: bt_get_remove)
    ultimately show ?thesis using k e r t by (auto simp: p cache_shows_def bt_get_insert)
  qed
qed

lemma cache_run_shows:
  "cache_shows c hist \<Longrightarrow> cache_run ld calls c = (answers, c') \<Longrightarrow>
     answers = lru_answers ld (ic_capacity c) hist calls \<and> cache_inv c' \<and> ic_capacity c' = ic_capacity c"
proof (induction ld calls c arbitrary: hist answers rule: cache_run.induct)
  case (1 ld c)
  then show ?case by (simp add: cache_shows_def)
next
  case (2 ld out path calls c)
  let ?key = "image_ref_key (sha256_hex ld) path"
  obtain r c1 where g: "get_or_load ld out path c = (r, c1)" by fastforce
  obtain rs where rs: "cache_run ld calls c1 = (rs, c')" "answers = r # rs"
    using 2(3) g by (auto split: prod.splits)
  obtain hit c2 where h: "cache_get ?key c = (hit, c2)" by fastforce
  define hist' where "hist' = (case r of Inl _ \<Rightarrow> hist | Inr d \<Rightarrow> hist @ [(?key, d)])"
  have step: "cache_shows c1 hist' \<and> ic_capacity c1 = ic_capacity c \<and>
      r = (if ?key \<in> set (recent (ic_capacity c) (map fst hist)) then Inr (the (map_of (rev hist) ?key))
           else load_image ld out path)"
  proof (cases hit)
    case (Some d)
    then have "r = Inr d" "c1 = c2" using g h by (auto simp: get_or_load_def Let_def)
    then show ?thesis using get_shows [OF 2(2)] h Some by (auto simp: hist'_def)
  next
    case None
    note m = get_misses [OF 2(2) h [unfolded None]]
    then show ?thesis using g h None 2(2) put_shows [OF 2(2)]
      by (auto simp: get_or_load_def Let_def hist'_def split: sum.splits)
  qed
  have "lru_answers ld (ic_capacity c) hist ((out, path) # calls) = r # lru_answers ld (ic_capacity c) hist' calls"
    using step by (auto simp: hist'_def Let_def)
  then show ?case using 2(1) [OF g [symmetric], of hist' rs] step rs by simp
qed

text \<open>
  C18: The image cache is an exact least-recently-used cache: over every sequence of requests,
  each answer is the image served last for that reference if its key is among the last
  \<open>capacity\<close> distinct keys served, and a fresh load otherwise; it never holds more images than its
  capacity, and a failed load changes nothing.
\<close>

theorem image_cache_is_lru:
  assumes "cache_new capacity = Inr c" "cache_run ld calls c = (answers, c')"
  shows "answers = lru_answers ld capacity [] calls \<and> length (ic_map c') \<le> capacity \<and> cache_inv c'"
proof -
  have "cache_shows c []" "ic_capacity c = capacity"
    using assms(1) by (auto simp: cache_new_def cache_shows_def cache_inv_def recent_def take_last_def split: if_splits)
  then show ?thesis using cache_run_shows [of c "[]" ld calls answers c'] assms(2) by (auto simp: cache_inv_def)
qed

subsection \<open>The spliced bytes are the serialized body\<close>

text \<open>
  What the compact printer promises: strings are escaped character by character, printable ASCII
  other than quotes and backslashes stands for itself, arrays and objects list their members.
\<close>

definition plain_char :: "nat \<Rightarrow> bool" where
  "plain_char c \<longleftrightarrow> 32 \<le> c \<and> c < 127 \<and> c \<noteq> 34 \<and> c \<noteq> 92"

definition print_member :: "serde \<Rightarrow> ustr \<times> json \<Rightarrow> ustr" where
  "print_member sj kv = to_string sj (JString (fst kv)) @ [58] @ to_string sj (snd kv)"

definition compact_printer :: "serde \<Rightarrow> (nat \<Rightarrow> ustr) \<Rightarrow> bool" where
  "compact_printer sj esc \<longleftrightarrow>
     (\<forall>s. to_string sj (JString s) = [34] @ concat (map esc s) @ [34]) \<and>
     (\<forall>xs. to_string sj (JArray xs) = [91] @ join [44] (map (to_string sj) xs) @ [93]) \<and>
     (\<forall>m. to_string sj (JObject m) = [123] @ join [44] (map (print_member sj) m) @ [125]) \<and>
     (\<forall>c. plain_char c \<longrightarrow> esc c = [c])"

lemma print_String: "compact_printer sj esc \<Longrightarrow> to_string sj (JString s) = [34] @ concat (map esc s) @ [34]"
  and print_Array: "compact_printer sj esc \<Longrightarrow> to_string sj (JArray xs) = [91] @ join [44] (map (to_string sj) xs) @ [93]"
  and print_Object: "compact_printer sj esc \<Longrightarrow> to_string sj (JObject m) = [123] @ join [44] (map (print_member sj) m) @ [125]"
  by (simp_all add: compact_printer_def)

lemma escape_plain: "compact_printer sj esc \<Longrightarrow> list_all plain_char s \<Longrightarrow> concat (map esc s) = s"
  by (induction s) (auto simp: compact_printer_def)

text \<open>Text with holes: the hole_gaps before the holes, and the rest.\<close>

fun weave :: "('a list \<times> 'a list) list \<Rightarrow> 'a list \<Rightarrow> 'a list" where
  "weave [] rest = rest"
| "weave ((g, h) # xs) rest = g @ h @ weave xs rest"

fun hole_gaps :: "'a list \<Rightarrow> 'a list \<Rightarrow> 'a list \<Rightarrow> 'a list list \<Rightarrow> 'a list list" where
  "hole_gaps p b sep [] = []"
| "hole_gaps p b sep (a # as) = (p @ a) # hole_gaps (b @ sep) b sep as"

lemma hole_gaps_length: "length (hole_gaps p b sep as) = length as"
  by (induction as arbitrary: p) auto

lemma join_hole_gaps:
  "length hs = length as \<Longrightarrow> as \<noteq> [] \<Longrightarrow>
     p @ join sep (map2 (\<lambda>a h. a @ h @ b) as hs) @ q = weave (zip (hole_gaps p b sep as) hs) (b @ q)"
proof (induction as arbitrary: p hs)
  case (Cons a as)
  then obtain h hs' where h: "hs = h # hs'" "length hs' = length as" by (cases hs) auto
  show ?case
  proof (cases as)
    case (Cons a' as')
    then obtain h' hs'' where h': "hs' = h' # hs''" using h by (cases hs') auto
    have "(b @ sep) @ join sep (map2 (\<lambda>a h. a @ h @ b) as hs') @ q = weave (zip (hole_gaps (b @ sep) b sep as) hs') (b @ q)"
      using Cons.IH [of hs' "b @ sep"] h Cons by simp
    then show ?thesis using h h' Cons by simp
  qed (use h in simp)
qed simp

lemma weave_encode:
  "utf8_encode (weave (zip gs hs) rest) = weave (zip (map utf8_encode gs) (map utf8_encode hs)) (utf8_encode rest)"
proof (induction gs arbitrary: hs)
  case (Cons g gs)
  then show ?case by (cases hs) (auto simp: utf8_encode_append)
qed simp

lemma single_hit_place: "single_hit (p @ token @ q) token = Some n \<Longrightarrow> n = length p"
proof -
  assume s: "single_hit (p @ token @ q) token = Some n"
  have "length p \<in> set (hits token (p @ token @ q))" by (simp add: hits_def)
  then show ?thesis using s by (auto simp: single_hit_def split: list.splits)
qed

lemma splice_weave:
  "length gs = length tokens \<Longrightarrow> length tokens = length pays \<Longrightarrow>
   skeleton = pre @ weave (zip gs tokens) rest \<Longrightarrow>
   all_some (map (single_hit skeleton) tokens) = Some spans \<Longrightarrow>
   splice skeleton (zip pays (zip tokens spans)) (length pre) = Some (weave (zip gs pays) rest)"
proof (induction gs tokens pays arbitrary: pre spans rule: list_induct3)
  case (Cons g gs t ts y ys)
  obtain n ns where n: "single_hit skeleton t = Some n" "all_some (map (single_hit skeleton) ts) = Some ns"
    "spans = n # ns"
    using Cons.prems(2) by (cases "single_hit skeleton t") auto
  have sk: "skeleton = (pre @ g) @ t @ weave (zip gs ts) rest" using Cons.prems(1) by simp
  then have "n = length (pre @ g)" using n(1) single_hit_place by blast
  moreover have "splice skeleton (zip ys (zip ts ns)) (length (pre @ g @ t)) = Some (weave (zip gs ys) rest)"
    using Cons.IH [of "pre @ g @ t" ns] sk n(2) by simp
  ultimately show ?case using n(3) sk by (simp add: add.assoc)
qed simp

text \<open>An object in which one key holds a value that varies.\<close>

definition one_hole :: "'k \<Rightarrow> ('v \<Rightarrow> ('k \<times> 'v) list) \<Rightarrow> bool" where
  "one_hole k f \<longleftrightarrow> (\<exists>l r. \<forall>x. f x = l @ (k, x) # r)"

lemma one_hole_here: "one_hole k (\<lambda>x. bt_insert k x m)"
proof -
  have "\<exists>l r. \<forall>x. bt_insert k x m = l @ (k, x) # r"
  proof (induction m)
    case (Cons kv m)
    then obtain l r where lr: "\<And>x. bt_insert k x m = l @ (k, x) # r" by auto
    show ?case
      by (cases kv; cases "k < fst kv"; cases "k = fst kv")
        (auto simp: lr intro: exI [of _ "[]"] exI [of _ "kv # l"])
  qed (auto intro: exI [of _ "[]"])
  then show ?thesis by (simp add: one_hole_def)
qed

lemma bt_insert_hole: "k' \<noteq> k \<Longrightarrow> \<exists>l' r'. \<forall>x. bt_insert k' v (l @ (k, x) # r) = l' @ (k, x) # r'"
proof (induction l)
  case Nil
  then show ?case
    by (cases "k' < k") (auto intro: exI [of _ "[(k', v)]"] exI [of _ "[]"])
next
  case (Cons kv l)
  then obtain l' r' where lr: "\<And>x. bt_insert k' v (l @ (k, x) # r) = l' @ (k, x) # r'" by auto
  show ?case
    by (cases kv; cases "k' < fst kv"; cases "k' = fst kv")
      (auto simp: lr intro: exI [of _ "(k', v) # kv # l"] exI [of _ "(k', v) # l"] exI [of _ "kv # l'"])
qed

lemma bt_remove_hole: "k' \<noteq> k \<Longrightarrow> \<exists>l' r'. \<forall>x. bt_remove k' (l @ (k, x) # r) = l' @ (k, x) # r'"
proof (induction l)
  case Nil
  then show ?case by (auto intro: exI [of _ "[]"])
next
  case (Cons kv l)
  then obtain l' r' where lr: "\<And>x. bt_remove k' (l @ (k, x) # r) = l' @ (k, x) # r'" by auto
  show ?case
    by (cases kv; cases "k' = fst kv") (auto simp: lr intro: exI [of _ "l"] exI [of _ "kv # l'"])
qed

lemma one_hole_insert: "one_hole k f \<Longrightarrow> k' \<noteq> k \<Longrightarrow> one_hole k (\<lambda>x. bt_insert k' v (f x))"
  unfolding one_hole_def using bt_insert_hole by metis

lemma one_hole_remove: "one_hole k f \<Longrightarrow> k' \<noteq> k \<Longrightarrow> one_hole k (\<lambda>x. bt_remove k' (f x))"
  unfolding one_hole_def using bt_remove_hole by metis

lemma one_hole_merge:
  "one_hole k f \<Longrightarrow> k \<notin> fst ` set kvs \<Longrightarrow>
   one_hole k (\<lambda>x. fold (\<lambda>kv m. if is_null (snd kv) then bt_remove (fst kv) m else bt_insert (fst kv) (snd kv) m) kvs (f x))"
proof (induction kvs arbitrary: f)
  case (Cons kv kvs)
  have "fst kv \<noteq> k" using Cons.prems(2) by auto
  then have "one_hole k (\<lambda>x. if is_null (snd kv) then bt_remove (fst kv) (f x) else bt_insert (fst kv) (snd kv) (f x))"
    using Cons.prems(1) by (cases "is_null (snd kv)") (simp_all add: one_hole_insert one_hole_remove)
  from Cons.IH [OF this] show ?case using Cons.prems(2) by simp
qed simp

lemma lit_neq: "a \<noteq> b \<Longrightarrow> lit a \<noteq> lit b"
  by simp

lemma plain_body_hole: "one_hole (lit ''messages'') (plain_body a)"
proof -
  have "one_hole (lit ''messages'') (\<lambda>x. fold (\<lambda>(k, v). bt_insert (lit k) v)
      [(''model'', JString (ba_model a)), (''messages'', x), (''max_tokens'', jnat (ba_max_tokens a)),
       (''temperature'', jf64 (ba_temperature a)), (''stream'', JBool (ba_streaming a))] [])"
    unfolding fold.simps comp_apply id_apply prod.case
    by (intro one_hole_insert one_hole_here lit_neq) simp_all
  then show ?thesis
    unfolding plain_body_def Let_def
    by (cases "ba_ignore_eos a"; cases "ba_min_tokens a"; cases "ba_streaming a")
      (simp_all only: if_True if_False option.case, auto intro!: one_hole_insert lit_neq)
qed

text \<open>The overrides leave the messages alone.\<close>

definition keeps_messages :: "serde \<Rightarrow> body_args \<Rightarrow> bool" where
  "keeps_messages sj a \<longleftrightarrow>
     (\<forall>m. Option.bind (ba_extra a) (from_str sj) = Some (JObject m) \<longrightarrow> bt_get m (lit ''messages'') = None)"

lemma body_shape:
  assumes "keeps_messages sj a"
  obtains (failed) e where "\<And>images. build_request_body sj a images = Inl e"
  | (built) f where "one_hole (lit ''messages'') f"
      "\<And>images. build_request_body sj a images = Inr (JObject (f (body_messages a images)))"
proof (cases "ba_extra a")
  case None
  then show ?thesis using built [OF plain_body_hole] by (simp add: build_request_body_def)
next
  case (Some extra)
  show ?thesis
  proof (cases "from_str sj extra")
    case None
    then show ?thesis using failed Some by (simp add: build_request_body_def)
  next
    case v: (Some v)
    show ?thesis
    proof (cases "as_object v")
      case None
      then show ?thesis using failed Some v by (simp add: build_request_body_def merge_extra_body_def)
    next
      case (Some kvs)
      then have "v = JObject kvs" by (cases v) auto
      then have "lit ''messages'' \<notin> fst ` set kvs"
        using assms v \<open>ba_extra a = Some extra\<close> by (auto simp: keeps_messages_def bt_get_None)
      from built [OF one_hole_merge [OF plain_body_hole this]] show ?thesis
        using Some v \<open>ba_extra a = Some extra\<close> by (simp add: build_request_body_def merge_extra_body_def)
    qed
  qed
qed

text \<open>A printed value sits between texts that do not depend on it.\<close>

lemma join_between: "\<exists>l r. \<forall>y. join sep (xs @ y # zs) = l @ y @ r"
proof (induction xs)
  case Nil
  show ?case by (cases zs) (auto intro: exI [of _ "[]"])
next
  case (Cons x xs)
  then obtain l r where lr: "\<And>y. join sep (xs @ y # zs) = l @ y @ r" by blast
  have "join sep ((x # xs) @ y # zs) = (x @ sep @ l) @ y @ r" for y
    using lr [of y] by (cases "xs @ y # zs") auto
  then show ?case by blast
qed

lemma print_hole:
  assumes p: "compact_printer sj esc" and h: "one_hole k f"
  shows "\<exists>l r. \<forall>x. to_string sj (JObject (f x)) = l @ to_string sj x @ r"
proof -
  obtain l r where lr: "\<And>x. f x = l @ (k, x) # r" using h by (auto simp: one_hole_def)
  obtain a b where ab: "\<And>y. join [44] (map (print_member sj) l @ y # map (print_member sj) r) = a @ y @ b"
    using join_between [of "[44]" "map (print_member sj) l" "map (print_member sj) r"] by blast
  have "to_string sj (JObject (f x)) = ([123] @ a @ to_string sj (JString k) @ [58]) @ to_string sj x @ (b @ [125])" for x
    unfolding print_Object [OF p] lr by (simp add: ab print_member_def)
  then show ?thesis by blast
qed

lemma print_element:
  assumes p: "compact_printer sj esc"
  shows "\<exists>l r. \<forall>x. to_string sj (JArray (xs @ x # zs)) = l @ to_string sj x @ r"
proof -
  obtain a b where ab: "\<And>y. join [44] (map (to_string sj) xs @ y # map (to_string sj) zs) = a @ y @ b"
    using join_between [of "[44]" "map (to_string sj) xs" "map (to_string sj) zs"] by blast
  have "to_string sj (JArray (xs @ x # zs)) = ([91] @ a) @ to_string sj x @ (b @ [93])" for x
    unfolding print_Array [OF p] by (simp add: ab)
  then show ?thesis by blast
qed

lemma print_messages:
  assumes p: "compact_printer sj esc"
  shows "\<exists>l r. \<forall>images. to_string sj (body_messages a images) = l @ to_string sj (JArray (user_content a images)) @ r"
proof -
  have "one_hole (lit ''content'') (\<lambda>x. fold (\<lambda>(k, v). bt_insert (lit k) v)
      [(''role'', jstr ''user''), (''content'', x)] [])"
    unfolding fold.simps comp_apply id_apply prod.case by (rule one_hole_here)
  then obtain l r where lr: "\<And>x. to_string sj (jobject [(''role'', jstr ''user''), (''content'', x)]) = l @ to_string sj x @ r"
    using print_hole [OF p] unfolding jobject_def by blast
  define sys where "sys = (let system = unwrap_or (ba_system a) DEFAULT_SYSTEM in
      if system = [] then [] else [jobject [(''role'', jstr ''system''), (''content'', JString system)]])"
  have m: "body_messages a images = JArray (sys @ [jobject [(''role'', jstr ''user''), (''content'', JArray (user_content a images))]])" for images
    by (simp add: body_messages_def sys_def Let_def)
  obtain l' r' where lr': "\<And>x. to_string sj (JArray (sys @ [x])) = l' @ to_string sj x @ r'"
    using print_element [OF p, of sys "[]"] by blast
  have "to_string sj (body_messages a images) = (l' @ l) @ to_string sj (JArray (user_content a images)) @ (r @ r')" for images
    by (simp add: m lr lr')
  then show ?thesis by blast
qed

definition escaped :: "(nat \<Rightarrow> ustr) \<Rightarrow> ustr \<Rightarrow> ustr" where
  "escaped esc s = concat (map esc s)"

definition url_head :: "ustr \<Rightarrow> ustr" where
  "url_head mime = lit ''data:'' @ mime @ lit '';base64,''"

lemma print_image:
  assumes p: "compact_printer sj esc" and inline_data: "\<not> ico_server_side opts"
  shows "\<exists>l r. \<forall>d. to_string sj (format_image_content opts d) =
    l @ escaped esc (url_head (mime_type d)) @ escaped esc (base64_data d) @ r"
proof -
  have "one_hole (lit ''url'') (\<lambda>x. fold (\<lambda>(k, v). bt_insert (lit k) v)
      [(''url'', x), (''detail'', JString (ico_detail opts))] [])"
    unfolding fold.simps comp_apply id_apply prod.case by (intro one_hole_insert one_hole_here lit_neq) simp
  then obtain l r where lr: "\<And>x. to_string sj (jobject [(''url'', x), (''detail'', JString (ico_detail opts))]) =
      l @ to_string sj x @ r"
    using print_hole [OF p] unfolding jobject_def by blast
  have "one_hole (lit ''image_url'') (\<lambda>x. fold (\<lambda>(k, v). bt_insert (lit k) v)
      [(''type'', jstr ''image_url''), (''image_url'', x)] [])"
    unfolding fold.simps comp_apply id_apply prod.case by (rule one_hole_here)
  then obtain l' r' where lr': "\<And>x. to_string sj (jobject [(''type'', jstr ''image_url''), (''image_url'', x)]) =
      l' @ to_string sj x @ r'"
    using print_hole [OF p] unfolding jobject_def by blast
  have "to_string sj (format_image_content opts d) =
      (l' @ l @ [34]) @ escaped esc (url_head (mime_type d)) @ escaped esc (base64_data d) @ ([34] @ r @ r')" for d
    using inline_data by (simp add: format_image_content_def Let_def lr lr' print_String [OF p] escaped_def url_head_def)
  then show ?thesis by blast
qed

text \<open>The serialized body as text with one hole per image.\<close>

lemma print_body:
  assumes p: "compact_printer sj esc" and h: "one_hole (lit ''messages'') f" and s: "\<not> ba_server_side a"
  shows "\<exists>l head b r. \<forall>images. images \<noteq> [] \<longrightarrow>
    to_string sj (JObject (f (body_messages a images))) =
      l @ join [44] (map2 (\<lambda>g h. g @ h @ b) (map (head \<circ> mime_type) images)
        (map (escaped esc \<circ> base64_data) images)) @ r"
proof -
  obtain l r where lr: "\<And>x. to_string sj (JObject (f x)) = l @ to_string sj x @ r"
    using print_hole [OF p h] by blast
  obtain l' r' where lr': "\<And>images. to_string sj (body_messages a images) =
      l' @ to_string sj (JArray (user_content a images)) @ r'"
    using print_messages [OF p] by blast
  obtain l2 b where im: "\<And>d. to_string sj (format_image_content \<lparr>ico_detail = ba_detail a, ico_server_side = ba_server_side a\<rparr> d) =
      l2 @ escaped esc (url_head (mime_type d)) @ escaped esc (base64_data d) @ b"
    using print_image [OF p, of "\<lparr>ico_detail = ba_detail a, ico_server_side = ba_server_side a\<rparr>"] s by auto
  define x where "x = (if ba_prompt a = [] then []
    else to_string sj (jobject [(''type'', jstr ''text''), (''text'', JString (ba_prompt a))]) @ [44])"
  have m: "map (\<lambda>d. l2 @ escaped esc (url_head (mime_type d)) @ escaped esc (base64_data d) @ b) images =
      map2 (\<lambda>g h. g @ h @ b) (map ((\<lambda>m. l2 @ escaped esc (url_head m)) \<circ> mime_type) images)
        (map (escaped esc \<circ> base64_data) images)" for images :: "image_data list"
    by (induction images) auto
  have "to_string sj (JObject (f (body_messages a images))) =
      (l @ l' @ [91] @ x) @ join [44] (map2 (\<lambda>g h. g @ h @ b)
        (map ((\<lambda>m. l2 @ escaped esc (url_head m)) \<circ> mime_type) images)
        (map (escaped esc \<circ> base64_data) images)) @ ([93] @ r' @ r)" if "images \<noteq> []" for images
    unfolding m [symmetric] using that
    by (cases images) (simp_all add: lr lr' print_Array [OF p] user_content_def x_def im comp_def)
  then show ?thesis by blast
qed

lemma skeleton_mimes: "map (head \<circ> mime_type) (skeleton_images images) = map (head \<circ> mime_type) images"
  by (rule nth_equalityI) (simp_all add: skeleton_images_def nth_enumerate_eq)

lemma skeleton_data: "map (g \<circ> base64_data) (skeleton_images images) = map (g \<circ> image_placeholder) [0..<length images]"
  by (rule nth_equalityI) (simp_all add: skeleton_images_def nth_enumerate_eq)

lemma all_some_length: "all_some xs = Some ys \<Longrightarrow> length ys = length xs"
  by (induction xs arbitrary: ys rule: all_some.induct) auto

text \<open>
  C17: The request bytes with the base64 payloads spliced into a skeleton are byte for byte the
  serialization of the request body, whatever the prompt, the detail and the overrides contain:
  placeholders that also occur elsewhere are noticed. Errors are the same errors, and the slices never
  panic. The overrides must not replace the messages.
\<close>

theorem spliced_bytes_exact:
  assumes p: "compact_printer sj esc" and k: "keeps_messages sj a"
    and d: "list_all (\<lambda>i. list_all plain_char (base64_data i)) images"
  shows "build_request_bytes sj a images = Some (map_sum id (to_vec sj) (build_request_body sj a images))"
proof (cases "\<not> ba_server_side a \<and> 0 < inline_image_bytes images")
  case False
  then show ?thesis by (auto simp: build_request_bytes_def Let_def split: sum.splits)
next
  case True
  then have n: "images \<noteq> []" by (auto simp: inline_image_bytes_def)
  then have n': "skeleton_images images \<noteq> []"
    using arg_cong [OF skeleton_data [of id images], of length] by auto
  let ?tokens = "map (placeholder_token sj) [0..<length images]"
  let ?payloads = "map (\<lambda>i. utf8_encode (base64_data i)) images"
  from body_shape [OF k] show ?thesis
  proof cases
    case failed: (1 e)
    then show ?thesis by (simp add: build_request_bytes_def Let_def)
  next
    case built: (2 f)
    obtain l head b r where pb: "\<And>images. images \<noteq> [] \<Longrightarrow> to_string sj (JObject (f (body_messages a images))) =
        l @ join [44] (map2 (\<lambda>g h. g @ h @ b) (map (head \<circ> mime_type) images)
          (map (escaped esc \<circ> base64_data) images)) @ r"
      using print_body [OF p built(1)] True by blast
    let ?heads = "map (head \<circ> mime_type) images"
    let ?gs = "map utf8_encode (hole_gaps l b [44] ?heads)" and ?rest = "utf8_encode (b @ r)"
    have t: "map (utf8_encode \<circ> (escaped esc \<circ> image_placeholder)) [0..<length images] = ?tokens"
      by (simp add: placeholder_token_def print_String [OF p] escaped_def)
    have y: "map (utf8_encode \<circ> (escaped esc \<circ> base64_data)) images = ?payloads"
      using d escape_plain [OF p] by (simp add: escaped_def list_all_iff)
    have real: "to_vec sj (JObject (f (body_messages a images))) = weave (zip ?gs ?payloads) ?rest"
      using n by (simp add: to_vec_def pb join_hole_gaps weave_encode y [symmetric])
    have skel: "to_vec sj (JObject (f (body_messages a (skeleton_images images)))) = weave (zip ?gs ?tokens) ?rest"
      (is "?sk = _")
      using n n' by (simp add: to_vec_def pb skeleton_mimes skeleton_data join_hole_gaps weave_encode t [symmetric])
    have "splice ?sk (zip ?payloads (zip ?tokens spans)) 0 = Some (to_vec sj (JObject (f (body_messages a images))))"
      if "all_some (map (single_hit ?sk) ?tokens) = Some spans" for spans
      unfolding real using splice_weave [of ?gs ?tokens ?payloads ?sk "[]" ?rest spans] that skel
      by (simp add: hole_gaps_length)
    then show ?thesis
      using True built(2) unfolding build_request_bytes_def Let_def option_filter_def
      by (simp split: option.splits)
  qed
qed

subsection \<open>Examples\<close>

definition demo_esc :: "nat \<Rightarrow> ustr" where
  "demo_esc c = (if c = 34 \<or> c = 92 then [92, c] else if c < 32 then lit [CHR 92, CHR ''u''] @ show_nat (10000 + c) else [c])"

fun demo_print :: "json \<Rightarrow> ustr" where
  "demo_print (JString s) = [34] @ concat (map demo_esc s) @ [34]"
| "demo_print (JArray xs) = [91] @ join [44] (map demo_print xs) @ [93]"
| "demo_print (JObject m) = [123] @ join [44] (map (\<lambda>kv. demo_print (JString (fst kv)) @ [58] @ demo_print (snd kv)) m) @ [125]"
| "demo_print (JBool b) = (if b then lit ''true'' else lit ''false'')"
| "demo_print (JNumber n) = (case n of PosInt k \<Rightarrow> show_nat k | _ \<Rightarrow> lit ''0.5'')"
| "demo_print JNull = lit ''null''"

definition demo_vlm_serde :: serde where
  "demo_vlm_serde = \<lparr>from_str = (\<lambda>_. None), to_string = demo_print\<rparr>"

lemma demo_compact: "compact_printer demo_vlm_serde demo_esc"
  by (simp add: compact_printer_def demo_vlm_serde_def print_member_def [abs_def] demo_esc_def plain_char_def)

definition demo_body :: body_args where
  "demo_body = \<lparr>ba_model = lit ''m'', ba_max_tokens = 8, ba_temperature = Fin 0, ba_prompt = lit ''what is this'',
     ba_detail = lit ''low'', ba_server_side = False, ba_streaming = True, ba_ignore_eos = False,
     ba_min_tokens = None, ba_extra = None, ba_system = None\<rparr>"

definition demo_image :: "string \<Rightarrow> image_data" where
  "demo_image payload = \<lparr>base64_data = lit payload, mime_type = lit ''image/png'', id_width = 1, id_height = 1,
     size_bytes = 3, id_url = lit ''a.png''\<rparr>"

theorem spliced_bytes_exact_witness:
  "build_request_bytes demo_vlm_serde demo_body [demo_image ''AAAA'', demo_image ''BBBB''] =
     Some (map_sum id (to_vec demo_vlm_serde) (build_request_body demo_vlm_serde demo_body [demo_image ''AAAA'', demo_image ''BBBB'']))"
  by (rule spliced_bytes_exact [OF demo_compact])
    (simp add: keeps_messages_def demo_body_def, simp add: demo_image_def plain_char_def lit_def)

definition demo_lib :: "unit image_lib" where
  "demo_lib = \<lparr>guess_format = (\<lambda>_. Some Png), reader_guesses = (\<lambda>_. True), into_dimensions = (\<lambda>_. Some (1, 1)),
     load_from_memory = (\<lambda>_. Some ()), resize = (\<lambda>_ _ _. ()), to_rgb8 = id, img_width = (\<lambda>_. 1),
     img_height = (\<lambda>_. 1), write_to = (\<lambda>_ _. Some []), base64_encode = map unat, base64_decode = Some\<rparr>"

definition demo_loader :: "(unit, unit) loader" where
  "demo_loader = \<lparr>lib = demo_lib, url_lib = demo_urls, sha256_hex = map unat, max_dimension = None, reencode_jpeg = False\<rparr>"

text \<open>Three calls on a cache of one image, the second of which cannot read its file.\<close>

definition demo_calls :: "(outside \<times> ustr) list" where
  "demo_calls =
     [(\<lparr>http_get = (\<lambda>_. None), fs_read = Some \<circ> utf8_encode\<rparr>, lit ''a''),
      (\<lparr>http_get = (\<lambda>_. None), fs_read = (\<lambda>_. None)\<rparr>, lit ''b''),
      (\<lparr>http_get = (\<lambda>_. None), fs_read = (\<lambda>_. None)\<rparr>, lit ''a'')]"

theorem image_cache_is_lru_witness:
  "fst (cache_run demo_loader demo_calls \<lparr>ic_map = [], ic_order = [], ic_capacity = 1\<rparr>) = lru_answers demo_loader 1 [] demo_calls"
proof -
  have n: "cache_new 1 = Inr \<lparr>ic_map = [], ic_order = [], ic_capacity = 1\<rparr>" by (simp add: cache_new_def)
  obtain answers c' where r: "cache_run demo_loader demo_calls \<lparr>ic_map = [], ic_order = [], ic_capacity = 1\<rparr> = (answers, c')"
    by (metis surj_pair)
  show ?thesis using image_cache_is_lru [OF n r] r by simp
qed

text \<open>
  Without the hypothesis on the overrides: messages that hold the placeholder once are spliced as if
  they were the image.
\<close>

fun text_print :: "json \<Rightarrow> ustr" where
  "text_print (JString s) = [34] @ s @ [34]"
| "text_print (JObject m) = concat (map (\<lambda>kv. case snd kv of JString s \<Rightarrow> [34] @ s @ [34] | _ \<Rightarrow> []) m)"
| "text_print _ = []"

definition spoofed_serde :: serde where
  "spoofed_serde = \<lparr>from_str = (\<lambda>_. Some (JObject [(lit ''messages'', JString (image_placeholder 0))])),
     to_string = text_print\<rparr>"

definition spoofed_body :: body_args where
  "spoofed_body = \<lparr>ba_model = [], ba_max_tokens = 8, ba_temperature = Fin 0, ba_prompt = [], ba_detail = [],
     ba_server_side = False, ba_streaming = False, ba_ignore_eos = False, ba_min_tokens = None,
     ba_extra = Some [], ba_system = Some []\<rparr>"

lemma overridden_messages_spliced:
  "build_request_bytes spoofed_serde spoofed_body [demo_image ''A''] \<noteq>
     Some (map_sum id (to_vec spoofed_serde) (build_request_body spoofed_serde spoofed_body [demo_image ''A'']))"
  by code_simp

end
