(* ===== verification/Float_Format.thy ===== *)
theory Float_Format
  imports F64
begin

text \<open>
  Rounding a float to an integer, and the decimal text of a float with a fixed number of digits
  after the point (\<open>{:.d}\<close>), which the standard library rounds exactly, ties to even. Signed
  zeros are one value here, so a zero has no sign.
\<close>

text \<open>\<open>f64::round\<close>: half away from zero.\<close>

fun f_round :: "f64 \<Rightarrow> f64" where
  "f_round (Fin a) = Fin (of_int (if 0 \<le> a then \<lfloor>a + 1 / 2\<rfloor> else \<lceil>a - 1 / 2\<rceil>))"
| "f_round x = x"

definition pad_zeros :: "nat \<Rightarrow> ustr \<Rightarrow> ustr" where
  "pad_zeros w s = replicate (w - length s) 48 @ s"

definition digits_text :: "nat \<Rightarrow> nat \<Rightarrow> ustr" where
  "digits_text d n =
     show_nat (n div 10 ^ d) @ (if d = 0 then [] else [46] @ pad_zeros d (show_nat (n mod 10 ^ d)))"

fun fmt_fixed :: "nat \<Rightarrow> f64 \<Rightarrow> ustr" where
  "fmt_fixed d (Fin a) = (if a < 0 then [45] else []) @ digits_text d (nat (rne (\<bar>a\<bar> * 10 ^ d)))"
| "fmt_fixed d NaN = lit ''NaN''"
| "fmt_fixed d PInf = lit ''inf''"
| "fmt_fixed d NInf = lit ''-inf''"

end
