(* ===== verification/Telemetry_Session.thy ===== *)
theory Telemetry_Session
  imports Telemetry_Scraper Ndjson_Writer Runner Float_Format
begin

text \<open>
  The telemetry session of a run (\<open>src/telemetry/session.rs\<close>, \<open>epoch.rs\<close>, \<open>row.rs\<close>): the
  rows it sends to the writer, the windows of the phases, the boundary sample before the first
  measured request and the verdict at the end. Clock readings, responses of the sources, the
  outcomes of the scrape tasks, the rows these tasks get accepted while they run and whether the
  writer accepts a row of the session are inputs.
\<close>

subsection \<open>Rows\<close>

datatype row_phase = WarmupStage | MeasureStage

record run_row =
  run_run_id :: ustr
  run_t0_wall :: ustr
  run_tool_version :: ustr
  run_schema_version :: string
  run_sut :: "json option"
  run_config :: json
  run_telemetry_sources :: "source_stamp list"

record stage_row =
  sg_run_id :: ustr
  sg_stage :: f64
  sg_load :: f64
  sg_phase :: row_phase
  sg_t_start_ns :: nat
  sg_t_end_ns :: nat

record request_row =
  rq_run_id :: ustr
  rq_seq :: nat
  rq_stage :: f64
  rq_warmup :: bool
  rq_t_sched_ns :: nat
  rq_t_sent_ns :: nat
  rq_t_first_ns :: "nat option"
  rq_t_done_ns :: nat
  rq_success :: bool
  rq_input_tokens :: nat
  rq_output_tokens :: nat
  rq_reasoning_tokens :: "nat option"
  rq_latency_s :: f64
  rq_queue_delay_s :: f64
  rq_service_latency_s :: f64
  rq_ttft_s :: "f64 option"
  rq_ttft_source :: "string option"
  rq_first_reasoning_s :: "f64 option"
  rq_ttft_first_any_s :: "f64 option"
  rq_ttft_visible_answer_s :: "f64 option"
  rq_outcome :: "string option"
  rq_answer_completed :: "bool option"
  rq_usage_missing :: "bool option"
  rq_usage_prompt_tokens_present :: "bool option"
  rq_usage_completion_tokens_present :: "bool option"
  rq_error :: "ustr option"
  rq_telemetry_at_done :: "(ustr, f64) btree option"
  rq_queue_sample_age_ms :: "(ustr, f64) btree option"
  rq_queue_sample_stale :: "ustr list option"

record summary_row =
  su_run_id :: ustr
  su_partial :: bool
  su_dropped_telemetry_rows :: "64 word"
  su_request_rows :: "64 word"
  su_telemetry_rows :: "64 word"
  su_scrape_error_rows :: "64 word"
  su_stage_rows :: "64 word"

datatype row_body =
    RunBody run_row
  | StageBody stage_row
  | TelemetryBody telemetry_row
  | RequestBody request_row
  | ErrorBody scrape_error_row
  | SummaryBody summary_row

text \<open>The two kinds of rows a scraper sends.\<close>

datatype scraper_row = Sampled telemetry_row | Missed scrape_error_row

fun scraper_body :: "scraper_row \<Rightarrow> row_body row" where
  "scraper_body (Sampled t) = Telemetry (TelemetryBody t)"
| "scraper_body (Missed e) = ScrapeError (ErrorBody e)"

definition TELEMETRY_SCHEMA_VERSION :: string where
  "TELEMETRY_SCHEMA_VERSION = ''metrum-ai-bench-cli.telemetry.v3''"

text \<open>\<open>+\<close> on \<open>u64\<close> wraps in a release build.\<close>

definition u64_add :: "nat \<Rightarrow> nat \<Rightarrow> nat" where
  "u64_add a b = (a + b) mod 2 ^ 64"

definition secs_to_ns :: "f64 \<Rightarrow> nat" where
  "secs_to_ns seconds =
     (if is_finite seconds \<and> flt (Fin 0) seconds then f_to_usize (f_round (fmul seconds (Fin 1000000000))) else 0)"

definition request_row_of :: "ustr \<Rightarrow> request_record \<Rightarrow> nat \<Rightarrow> f64 \<Rightarrow> request_row" where
  "request_row_of run_id r base_ns load =
     (let t_sent = u64_add base_ns (secs_to_ns (unwrap_or (rr_send_offset_s r) (Fin 0)));
          t_sched = (case rr_scheduled_offset_s r of
            None \<Rightarrow> t_sent | Some offset \<Rightarrow> u64_add base_ns (secs_to_ns offset)) in
      \<lparr>rq_run_id = run_id, rq_seq = rr_seq r, rq_stage = load, rq_warmup = (rr_phase r = Warmup),
       rq_t_sched_ns = t_sched, rq_t_sent_ns = t_sent,
       rq_t_first_ns = map_option (\<lambda>s. u64_add t_sent (secs_to_ns s)) (rr_first_byte_s r),
       rq_t_done_ns = u64_add t_sent (secs_to_ns (rr_latency_s r)), rq_success = is_success r,
       rq_input_tokens = rr_prompt_tokens r, rq_output_tokens = rr_completion_tokens r,
       rq_reasoning_tokens = rr_reasoning_tokens r,
       rq_latency_s = fadd (rr_queue_delay_s r) (rr_latency_s r), rq_queue_delay_s = rr_queue_delay_s r,
       rq_service_latency_s = rr_latency_s r, rq_ttft_s = rr_ttft_s r,
       rq_ttft_source = map_option ttft_source_as_str (rr_ttft_source r),
       rq_first_reasoning_s = rr_first_reasoning_s r, rq_ttft_first_any_s = rr_ttft_first_any_s r,
       rq_ttft_visible_answer_s = rr_ttft_visible_answer_s r, rq_outcome = rr_outcome r,
       rq_answer_completed = rr_answer_completed r, rq_usage_missing = Some (rr_usage_missing r),
       rq_usage_prompt_tokens_present = rr_usage_prompt_tokens_present r,
       rq_usage_completion_tokens_present = rr_usage_completion_tokens_present r,
       rq_error = map_option display_error (rr_error r), rq_telemetry_at_done = None,
       rq_queue_sample_age_ms = None, rq_queue_sample_stale = None\<rparr>)"

subsection \<open>Flags\<close>

record telemetry_args =
  ta_ndjson :: "ustr option"
  ta_telemetry :: "ustr option"
  ta_require_telemetry :: bool
  ta_require_failures :: "32 word"

datatype args_error = RequireNeedsYaml | YamlNeedsNdjson | BadConfig config_error

definition resolve_telemetry_config ::
  "(ustr \<Rightarrow> config_error + telemetry_config) \<Rightarrow> telemetry_args \<Rightarrow> args_error + telemetry_config option" where
  "resolve_telemetry_config load_yaml args =
     (if ta_require_telemetry args \<and> ta_telemetry args = None then Inl RequireNeedsYaml
      else if ta_telemetry args \<noteq> None \<and> ta_ndjson args = None then Inl YamlNeedsNdjson
      else case ta_telemetry args of
        None \<Rightarrow> Inr None
      | Some path \<Rightarrow> map_sum BadConfig Some (load_yaml path))"

subsection \<open>The session\<close>

record window =
  w_start_ns :: nat
  w_end_ns :: nat

definition widen :: "window option \<Rightarrow> nat \<Rightarrow> nat \<Rightarrow> window option" where
  "widen w start_ns end_ns =
     Some (case w of
        Some v \<Rightarrow> \<lparr>w_start_ns = min (w_start_ns v) start_ns, w_end_ns = max (w_end_ns v) end_ns\<rparr>
      | None \<Rightarrow> \<lparr>w_start_ns = start_ns, w_end_ns = end_ns\<rparr>)"

datatype telemetry_session_error =
    WriterClosed
  | WriteFailed ustr
  | ProbesFailed probe_error
  | ConfigRejected config_error
  | ScraperFailed ustr
  | BoundaryFailed ustr

text \<open>
  \<open>ss_sent\<close> holds the rows the writer's channel has accepted, of the session and of the scrapers, in
  order. \<open>ss_scrapers\<close> is the number of scrape tasks not joined yet; \<open>ss_scraper\<close> is the state
  of the scrapers, with the history of sample times they share with the session.
\<close>

record telemetry_session =
  ss_run_id :: ustr
  ss_ndjson :: ustr
  ss_sent :: "row_body row list"
  ss_scrapers :: nat
  ss_stop_scrapers :: bool
  ss_require_telemetry :: bool
  ss_sources :: nat
  ss_load :: "f64 option"
  ss_warmup :: "window option"
  ss_measure :: "window option"
  ss_write_error :: "telemetry_session_error option"
  ss_boundary_plan :: "(nat \<times> compiled_source list) option"
  ss_abort :: "stop_flag option"
  ss_boundary_failure :: "ustr option"
  ss_scraper :: scraper

definition send_priority :: "bool \<Rightarrow> row_body row \<Rightarrow> telemetry_session \<Rightarrow> telemetry_session_error + telemetry_session" where
  "send_priority accepted row s = (if accepted then Inr (s\<lparr>ss_sent := ss_sent s @ [row]\<rparr>) else Inl WriterClosed)"

text \<open>While a scrape task is not joined, rows of it reach the channel at any time; then no more.\<close>

definition scraper_sends :: "scraper_row list \<Rightarrow> telemetry_session \<Rightarrow> telemetry_session" where
  "scraper_sends rows s = (if ss_scrapers s = 0 then s else s\<lparr>ss_sent := ss_sent s @ map scraper_body rows\<rparr>)"

record run_stamp =
  rs_run_id :: ustr
  rs_tool_version :: ustr
  rs_sut :: "json option"
  rs_config :: json

record session_options =
  so_ndjson :: ustr
  so_config :: "telemetry_config option"
  so_require_telemetry :: bool
  so_abort :: "stop_flag option"
  so_request_timeout_s :: "nat option"

definition history_caps :: "nat option \<Rightarrow> compiled_source list \<Rightarrow> (ustr, nat) btree" where
  "history_caps timeout sources =
     fold (\<lambda>src m. bt_insert (cs_name src) (sample_history_cap (cs_interval_ms src) (unwrap_or timeout 300)) m) sources []"

text \<open>The plan, the stamps of the probes and the history; \<open>None\<close> is the panic of a probe.\<close>

definition start_plan ::
  "(ustr \<Rightarrow> f64 option) \<Rightarrow> (ustr list \<Rightarrow> include_set option) \<Rightarrow> (compiled_source \<Rightarrow> http_result) \<Rightarrow> session_options \<Rightarrow>
     (telemetry_session_error + ((nat \<times> compiled_source list) option \<times> source_stamp list \<times> (ustr, nat) btree)) option" where
  "start_plan pf regex_set respond opts =
     (case so_config opts of
        None \<Rightarrow> Some (Inr (None, [], []))
      | Some cfg \<Rightarrow>
          (case compile regex_set cfg of
             Inl e \<Rightarrow> Some (Inl (ConfigRejected e))
           | Inr sources \<Rightarrow>
               map_option (\<lambda>r. case r of
                   Inl e \<Rightarrow> Inl (ProbesFailed e)
                 | Inr stamps \<Rightarrow> Inr (Some (max_body_bytes cfg, sources), stamps,
                     history_caps (so_request_timeout_s opts) sources))
                 (probe_sources pf (max_body_bytes cfg) respond sources)))"

definition session_start ::
  "(ustr \<Rightarrow> f64 option) \<Rightarrow> (ustr list \<Rightarrow> include_set option) \<Rightarrow> (compiled_source \<Rightarrow> http_result) \<Rightarrow> ustr \<Rightarrow> bool \<Rightarrow>
     run_stamp \<Rightarrow> session_options \<Rightarrow> (telemetry_session_error + telemetry_session) option" where
  "session_start pf regex_set respond t0_wall accepted stamp opts =
     (case start_plan pf regex_set respond opts of
        None \<Rightarrow> None
      | Some (Inl e) \<Rightarrow> Some (Inl e)
      | Some (Inr (plan, stamps, caps)) \<Rightarrow>
          Some (map_sum id (\<lambda>s. case plan of
               None \<Rightarrow> s
             | Some (_, sources) \<Rightarrow> s\<lparr>ss_boundary_plan := plan, ss_scrapers := length sources,
                 ss_abort := option_filter (\<lambda>_. so_require_telemetry opts) (so_abort opts)\<rparr>)
            (send_priority accepted
              (Run (RunBody \<lparr>run_run_id = rs_run_id stamp, run_t0_wall = t0_wall, run_tool_version = rs_tool_version stamp,
                 run_schema_version = TELEMETRY_SCHEMA_VERSION, run_sut = rs_sut stamp, run_config = rs_config stamp,
                 run_telemetry_sources = stamps\<rparr>))
              \<lparr>ss_run_id = rs_run_id stamp, ss_ndjson = so_ndjson opts, ss_sent = [], ss_scrapers = 0, ss_stop_scrapers = False,
               ss_require_telemetry = so_require_telemetry opts,
               ss_sources = (case plan of None \<Rightarrow> 0 | Some (_, sources) \<Rightarrow> length sources),
               ss_load = None, ss_warmup = None, ss_measure = None, ss_write_error = None, ss_boundary_plan = None,
               ss_abort = None, ss_boundary_failure = None,
               ss_scraper = \<lparr>sc_failures = 0, sc_history = new_sample_history caps, sc_rows = [], sc_errors = [],
                 sc_stop = False\<rparr>\<rparr>)))"

definition set_load :: "f64 \<Rightarrow> telemetry_session \<Rightarrow> telemetry_session" where
  "set_load load s = s\<lparr>ss_load := Some load\<rparr>"

text \<open>The task around a required scraper trips the stop flag when the scraper fails.\<close>

definition scraper_failed :: "telemetry_session \<Rightarrow> telemetry_session" where
  "scraper_failed s = s\<lparr>ss_abort := map_option (\<lambda>f. if is_stopped f then f else stop f) (ss_abort s)\<rparr>"

subsection \<open>The boundary sample\<close>

definition BOUNDARY_PRE_MEASURED :: ustr where
  "BOUNDARY_PRE_MEASURED = lit ''pre-measured''"

record boundary_outcome =
  bo_ok :: bool
  bo_matched_series :: nat
  bo_failed_sources :: "ustr list"

definition gate_failure :: "ustr \<Rightarrow> telemetry_session \<Rightarrow> telemetry_session" where
  "gate_failure message s =
     (if ss_require_telemetry s
      then s\<lparr>ss_boundary_failure := Some message, ss_abort := map_option stop (ss_abort s)\<rparr>
      else s)"

text \<open>
  The scrapes in turn; a tick is a clock reading, a duration and a response. The rows the scrapers'
  state gained go to the channel, source by source.
\<close>

definition gained_rows :: "scraper \<Rightarrow> scraper \<Rightarrow> scraper_row list" where
  "gained_rows sc sc' = map Sampled (drop (length (sc_rows sc)) (sc_rows sc')) @
     map Missed (drop (length (sc_errors sc)) (sc_errors sc'))"

fun boundary_scrapes ::
  "(ustr \<Rightarrow> f64 option) \<Rightarrow> nat \<Rightarrow> ustr \<Rightarrow> (compiled_source \<times> (nat \<times> f64 \<times> http_result)) list \<Rightarrow>
     nat \<times> ustr list \<times> scraper \<times> scraper_row list \<Rightarrow> (nat \<times> ustr list \<times> scraper \<times> scraper_row list) option" where
  "boundary_scrapes pf mb rid [] acc = Some acc"
| "boundary_scrapes pf mb rid ((src, tick) # rest) (matched, bad, sc, sent) =
     (case boundary_scrape_once pf src mb rid BOUNDARY_PRE_MEASURED tick sc of
        None \<Rightarrow> None
      | Some (Inr n, sc') \<Rightarrow> boundary_scrapes pf mb rid rest (matched + n, bad, sc', sent @ gained_rows sc sc')
      | Some (Inl e, sc') \<Rightarrow>
          (let sc'' = boundary_scrape_error src rid BOUNDARY_PRE_MEASURED (fst tick) e sc' in
           boundary_scrapes pf mb rid rest
             (matched, bad @ [cs_name src @ lit '': '' @ fetch_message e], sc'', sent @ gained_rows sc sc'')))"

definition boundary_message :: "ustr list \<Rightarrow> ustr" where
  "boundary_message bad =
     lit ''telemetry boundary sample failed before measured issuance: '' @ join (lit ''; '') bad"

definition boundary_sample ::
  "(ustr \<Rightarrow> f64 option) \<Rightarrow> (nat \<times> f64 \<times> http_result) list \<Rightarrow> telemetry_session \<Rightarrow> (boundary_outcome \<times> telemetry_session) option" where
  "boundary_sample pf ticks s =
     (case ss_boundary_plan s of
        None \<Rightarrow> Some (\<lparr>bo_ok = True, bo_matched_series = 0, bo_failed_sources = []\<rparr>, s)
      | Some (mb, sources) \<Rightarrow>
          map_option (\<lambda>(matched, bad, sc, sent).
              let s1 = s\<lparr>ss_scraper := sc, ss_sent := ss_sent s @ map scraper_body sent\<rparr> in
              (\<lparr>bo_ok = (bad = []), bo_matched_series = matched, bo_failed_sources = bad\<rparr>,
               if bad = [] then s1 else gate_failure (boundary_message bad) s1))
            (boundary_scrapes pf mb (ss_run_id s) (zip sources ticks) (0, [], ss_scraper s, [])))"

text \<open>
  The same call when its future is dropped by the time-out after some scrapes: the plan was taken
  out of the session and is not put back.
\<close>

definition boundary_sample_cancelled ::
  "(ustr \<Rightarrow> f64 option) \<Rightarrow> (nat \<times> f64 \<times> http_result) list \<Rightarrow> telemetry_session \<Rightarrow> telemetry_session option" where
  "boundary_sample_cancelled pf ticks s =
     (case ss_boundary_plan s of
        None \<Rightarrow> Some s
      | Some (mb, sources) \<Rightarrow>
          map_option (\<lambda>(matched, bad, sc, sent). s\<lparr>ss_boundary_plan := None, ss_scraper := sc,
              ss_sent := ss_sent s @ map scraper_body sent\<rparr>)
            (boundary_scrapes pf mb (ss_run_id s) (zip sources ticks) (0, [], ss_scraper s, [])))"

definition timeout_message :: "nat \<Rightarrow> ustr" where
  "timeout_message budget_ms =
     lit ''telemetry boundary sample exceeded the '' @ show_nat budget_ms @ lit ''ms budget before measured issuance''"

definition note_boundary_timeout :: "nat \<Rightarrow> nat \<Rightarrow> bool \<Rightarrow> telemetry_session \<Rightarrow> boundary_outcome \<times> telemetry_session" where
  "note_boundary_timeout budget_ms t_ns accepted s =
     (let message = timeout_message budget_ms;
          row = ScrapeError (ErrorBody \<lparr>se_run_id = ss_run_id s, se_t_ns = t_ns, se_src = lit ''boundary'',
            se_http_status = None, se_error = message, se_boundary = Some BOUNDARY_PRE_MEASURED\<rparr>);
          s1 = (case send_priority accepted row s of Inl _ \<Rightarrow> s | Inr s' \<Rightarrow> s')
      in (\<lparr>bo_ok = False, bo_matched_series = 0, bo_failed_sources = [message]\<rparr>, gate_failure message s1))"

subsection \<open>Request rows\<close>

definition freshness_bound_ms :: "nat \<Rightarrow> f64" where
  "freshness_bound_ms interval_ms =
     (let interval = f_of_nat interval_ms in fadd interval (fmin (fmul interval (rnd (1 / 10))) (Fin 100)))"

definition sample_age_ms :: "sample_history \<Rightarrow> ustr \<Rightarrow> nat \<Rightarrow> f64" where
  "sample_age_ms h source t_sent =
     (case sample_at_or_before source t_sent h of
        Some t \<Rightarrow> fdiv (f_of_nat (t_sent - t)) (Fin 1000000)
      | None \<Rightarrow> PInf)"

definition stamp_freshness :: "sample_history \<Rightarrow> compiled_source list \<Rightarrow> request_row \<Rightarrow> request_row" where
  "stamp_freshness h sources row =
     (let age = (\<lambda>src. sample_age_ms h (cs_name src) (rq_t_sent_ns row));
          ages = fold (\<lambda>src m. bt_insert (cs_name src) (age src) m) sources [];
          stale = map cs_name (filter (\<lambda>src. flt (freshness_bound_ms (cs_interval_ms src)) (age src)) sources)
      in if ages = [] then row
         else row\<lparr>rq_queue_sample_age_ms := Some ages, rq_queue_sample_stale := Some stale\<rparr>)"

definition row_to_send :: "telemetry_session \<Rightarrow> request_record \<Rightarrow> nat \<Rightarrow> request_row" where
  "row_to_send s r base_ns =
     (let row = request_row_of (ss_run_id s) r base_ns (unwrap_or (ss_load s) (Fin 0)) in
      case ss_boundary_plan s of
        None \<Rightarrow> row
      | Some (_, sources) \<Rightarrow> stamp_freshness (sc_history (ss_scraper s)) sources row)"

definition widen_phase :: "phase_kind \<Rightarrow> request_row \<Rightarrow> telemetry_session \<Rightarrow> telemetry_session" where
  "widen_phase ph row s =
     (case ph of
        Warmup \<Rightarrow> s\<lparr>ss_warmup := widen (ss_warmup s) (rq_t_sent_ns row) (rq_t_done_ns row)\<rparr>
      | Measure \<Rightarrow> s\<lparr>ss_measure := widen (ss_measure s) (rq_t_sent_ns row) (rq_t_done_ns row)\<rparr>
      | Drain \<Rightarrow> s)"

text \<open>\<open>base_ns\<close> is the start of the run on the epoch.\<close>

definition record_request :: "request_record \<Rightarrow> nat \<Rightarrow> bool \<Rightarrow> telemetry_session \<Rightarrow> telemetry_session" where
  "record_request r base_ns accepted s =
     (if ss_write_error s \<noteq> None then s
      else let row = row_to_send s r base_ns; s1 = widen_phase (rr_phase r) row s in
        case send_priority accepted (Request (RequestBody row)) s1 of
          Inr s2 \<Rightarrow> s2
        | Inl e \<Rightarrow> s1\<lparr>ss_write_error := Some e\<rparr>)"

subsection \<open>The end of a run\<close>

text \<open>
  The stop flag is set and every task is awaited, in order; the first failure is the one reported.
  \<open>rows\<close> are the rows of the tasks the channel accepts before the last of them has ended.
\<close>

definition join_scrapers ::
  "(telemetry_session_error + unit) list \<Rightarrow> scraper_row list \<Rightarrow> telemetry_session \<Rightarrow>
     (telemetry_session_error + unit) \<times> telemetry_session" where
  "join_scrapers outcomes rows s =
     ((case List.map_filter (\<lambda>r. case r of Inl e \<Rightarrow> Some e | Inr _ \<Rightarrow> None) (take (ss_scrapers s) outcomes) of
         e # _ \<Rightarrow> if ss_require_telemetry s then Inl e else Inr ()
       | [] \<Rightarrow> Inr ()),
      (scraper_sends rows s)\<lparr>ss_stop_scrapers := True, ss_scrapers := 0\<rparr>)"

record run_info =
  ri_schema_version :: string
  ri_ndjson :: ustr
  ri_sources :: nat
  ri_request_rows :: "64 word"
  ri_stage_rows :: "64 word"
  ri_telemetry_rows :: "64 word"
  ri_scrape_error_rows :: "64 word"
  ri_dropped_telemetry_rows :: "64 word"

text \<open>
  What the scrape tasks not joined yet and the writer answer while the session ends: the tasks'
  outcomes, their rows accepted before the join and, if they were still there, after each of the
  rows the session sends; whether the channel takes the two stage rows and the summary; the
  counters after the flush, and the final counters unless the writer task failed.
\<close>

record writer_end =
  we_outcomes :: "(telemetry_session_error + unit) list"
  we_join_rows :: "scraper_row list"
  we_warmup_rows :: "scraper_row list"
  we_measure_rows :: "scraper_row list"
  we_summary_rows :: "scraper_row list"
  we_warmup_accepted :: bool
  we_measure_accepted :: bool
  we_snapshot :: writer_stats
  we_summary_accepted :: bool
  we_shutdown :: "writer_stats option"

definition stage_row_of :: "telemetry_session \<Rightarrow> row_phase \<Rightarrow> window \<Rightarrow> row_body row" where
  "stage_row_of s ph w =
     (let load = unwrap_or (ss_load s) (Fin 0) in
      Stage (StageBody \<lparr>sg_run_id = ss_run_id s, sg_stage = load, sg_load = load, sg_phase = ph,
        sg_t_start_ns = w_start_ns w, sg_t_end_ns = w_end_ns w\<rparr>))"

definition send_stage :: "bool \<Rightarrow> row_phase \<Rightarrow> window option \<Rightarrow> telemetry_session \<Rightarrow> telemetry_session_error + telemetry_session" where
  "send_stage accepted ph w s =
     (case w of None \<Rightarrow> Inr s | Some v \<Rightarrow> send_priority accepted (stage_row_of s ph v) s)"

definition summary_row_of :: "telemetry_session \<Rightarrow> bool \<Rightarrow> writer_stats \<Rightarrow> row_body row" where
  "summary_row_of s partial snap =
     Summary (SummaryBody \<lparr>su_run_id = ss_run_id s, su_partial = partial,
       su_dropped_telemetry_rows = dropped_telemetry_rows snap, su_request_rows = request_rows snap,
       su_telemetry_rows = telemetry_rows snap, su_scrape_error_rows = scrape_error_rows snap,
       su_stage_rows = stage_rows snap\<rparr>)"

text \<open>The scrapers that are still there are joined first; only a warning tells of their failures.\<close>

definition scrapers_settled :: "writer_end \<Rightarrow> telemetry_session \<Rightarrow> telemetry_session" where
  "scrapers_settled w s = (if ss_scrapers s = 0 then s else snd (join_scrapers (we_outcomes w) (we_join_rows w) s))"

text \<open>
  The rows accepted are returned with the result, so that a failure shows what the file holds. The
  file is closed when every sender is gone, so a task that is still there keeps adding to it.
\<close>

definition session_finish ::
  "(ustr \<Rightarrow> ustr) \<Rightarrow> bool \<Rightarrow> writer_end \<Rightarrow> telemetry_session \<Rightarrow> (telemetry_session_error + run_info) \<times> row_body row list" where
  "session_finish file_name partial w s =
     (case ss_write_error s of
        Some e \<Rightarrow> (Inl (WriteFailed (ss_ndjson s)), ss_sent (scraper_sends (we_join_rows w) s))
      | None \<Rightarrow>
          (let s0 = scrapers_settled w s in
           case send_stage (we_warmup_accepted w) WarmupStage (ss_warmup s0) s0 of
             Inl e \<Rightarrow> (Inl e, ss_sent (scraper_sends (we_warmup_rows w) s0))
           | Inr s1 \<Rightarrow>
               (let s1 = scraper_sends (we_warmup_rows w) s1 in
                case send_stage (we_measure_accepted w) MeasureStage (ss_measure s1) s1 of
                  Inl e \<Rightarrow> (Inl e, ss_sent (scraper_sends (we_measure_rows w) s1))
                | Inr s2 \<Rightarrow>
                    (let s2 = scraper_sends (we_measure_rows w) s2 in
                     case send_priority (we_summary_accepted w) (summary_row_of s2 partial (we_snapshot w)) s2 of
                       Inl e \<Rightarrow> (Inl e, ss_sent (scraper_sends (we_summary_rows w) s2))
                     | Inr s3 \<Rightarrow>
                         ((case we_shutdown w of
                             None \<Rightarrow> Inl WriterClosed
                           | Some stats \<Rightarrow>
                               Inr \<lparr>ri_schema_version = TELEMETRY_SCHEMA_VERSION, ri_ndjson = file_name (ss_ndjson s),
                                 ri_sources = ss_sources s, ri_request_rows = request_rows stats,
                                 ri_stage_rows = stage_rows stats, ri_telemetry_rows = telemetry_rows stats,
                                 ri_scrape_error_rows = scrape_error_rows stats,
                                 ri_dropped_telemetry_rows = dropped_telemetry_rows stats\<rparr>),
                          ss_sent (scraper_sends (we_summary_rows w) s3))))))"

definition close_session ::
  "(ustr \<Rightarrow> ustr) \<Rightarrow> bool \<Rightarrow> writer_end \<Rightarrow> telemetry_session option \<Rightarrow>
     (run_info option \<times> (telemetry_session_error + unit)) \<times> row_body row list" where
  "close_session file_name was_stopped w session =
     (case session of
        None \<Rightarrow> ((None, Inr ()), [])
      | Some s0 \<Rightarrow>
          (case join_scrapers (we_outcomes w) (we_join_rows w) s0 of
             (joined, s) \<Rightarrow>
               (let verdict = (case joined of
                      Inl e \<Rightarrow> Inl e
                    | Inr _ \<Rightarrow> (case ss_boundary_failure s of None \<Rightarrow> Inr () | Some m \<Rightarrow> Inl (BoundaryFailed m)));
                    s1 = s\<lparr>ss_boundary_failure := None\<rparr> in
                case session_finish file_name (was_stopped \<or> verdict \<noteq> Inr ()) w s1 of
                  (Inr info, rows) \<Rightarrow> ((Some info, verdict), rows)
                | (Inl e, rows) \<Rightarrow> ((None, case verdict of Inl e0 \<Rightarrow> Inl e0 | Inr _ \<Rightarrow> Inl e), rows))))"

subsection \<open>What the file holds at the end\<close>

text \<open>
  While requests are recorded, the scrapers change the shared history and get rows accepted at any
  time.
\<close>

datatype session_event = Recorded request_record bool | ScraperMoved scraper "scraper_row list"

fun on_session_event :: "nat \<Rightarrow> session_event \<Rightarrow> telemetry_session \<Rightarrow> telemetry_session" where
  "on_session_event base_ns (Recorded r accepted) s = record_request r base_ns accepted s"
| "on_session_event base_ns (ScraperMoved sc rows) s = (scraper_sends rows s)\<lparr>ss_scraper := sc\<rparr>"

fun recorded :: "session_event list \<Rightarrow> request_record list" where
  "recorded [] = []"
| "recorded (Recorded r _ # evs) = r # recorded evs"
| "recorded (ScraperMoved _ _ # evs) = recorded evs"

fun request_of :: "row_body row \<Rightarrow> request_row option" where
  "request_of (Request (RequestBody q)) = Some q"
| "request_of _ = None"

fun stage_of :: "row_body row \<Rightarrow> stage_row option" where
  "stage_of (Stage (StageBody g)) = Some g"
| "stage_of _ = None"

definition requests_of :: "row_body row list \<Rightarrow> request_row list" where
  "requests_of rows = List.map_filter request_of rows"

definition stages_of :: "row_body row list \<Rightarrow> stage_row list" where
  "stages_of rows = List.map_filter stage_of rows"

definition sent_at :: "nat \<Rightarrow> request_record \<Rightarrow> nat" where
  "sent_at base_ns r = u64_add base_ns (secs_to_ns (unwrap_or (rr_send_offset_s r) (Fin 0)))"

definition done_at :: "nat \<Rightarrow> request_record \<Rightarrow> nat" where
  "done_at base_ns r = u64_add (sent_at base_ns r) (secs_to_ns (rr_latency_s r))"

text \<open>From the first send to the last completion.\<close>

definition span :: "nat \<Rightarrow> request_record list \<Rightarrow> window option" where
  "span base_ns rs =
     (if rs = [] then None
      else Some \<lparr>w_start_ns = Min (sent_at base_ns ` set rs), w_end_ns = Max (done_at base_ns ` set rs)\<rparr>)"

definition in_phase :: "phase_kind \<Rightarrow> request_record list \<Rightarrow> request_record list" where
  "in_phase ph rs = filter (\<lambda>r. rr_phase r = ph) rs"

definition session_shows :: "nat \<Rightarrow> telemetry_session \<Rightarrow> request_record list \<Rightarrow> bool" where
  "session_shows base_ns s rs \<longleftrightarrow>
     map (\<lambda>q. (rq_seq q, rq_t_sent_ns q, rq_t_done_ns q)) (requests_of (ss_sent s)) =
       map (\<lambda>r. (rr_seq r, sent_at base_ns r, done_at base_ns r)) rs \<and>
     stages_of (ss_sent s) = [] \<and>
     ss_warmup s = span base_ns (in_phase Warmup rs) \<and> ss_measure s = span base_ns (in_phase Measure rs)"

lemma requests_of_simps [simp]:
  "requests_of [] = []" "requests_of (xs @ ys) = requests_of xs @ requests_of ys"
  "requests_of [r] = (case request_of r of None \<Rightarrow> [] | Some q \<Rightarrow> [q])"
  by (simp_all add: requests_of_def map_filter_append List.map_filter_def split: option.split)

lemma stages_of_simps [simp]:
  "stages_of [] = []" "stages_of (xs @ ys) = stages_of xs @ stages_of ys"
  "stages_of [r] = (case stage_of r of None \<Rightarrow> [] | Some g \<Rightarrow> [g])"
  by (simp_all add: stages_of_def map_filter_append List.map_filter_def split: option.split)

lemma scraper_body_kinds [simp]: "request_of (scraper_body x) = None" "stage_of (scraper_body x) = None"
  by (cases x; simp)+

lemma map_filter_None: "(\<And>x. x \<in> set xs \<Longrightarrow> f x = None) \<Longrightarrow> List.map_filter f xs = []"
  by (induction xs) (simp_all add: List.map_filter_def)

lemma scraper_sends_rows [simp]:
  "requests_of (ss_sent (scraper_sends rows s)) = requests_of (ss_sent s)"
  "stages_of (ss_sent (scraper_sends rows s)) = stages_of (ss_sent s)"
  by (auto simp: scraper_sends_def requests_of_def stages_of_def map_filter_append intro!: map_filter_None)

lemma scraper_sends_frame [simp]:
  "ss_write_error (scraper_sends rows s) = ss_write_error s" "ss_load (scraper_sends rows s) = ss_load s"
  "ss_run_id (scraper_sends rows s) = ss_run_id s" "ss_warmup (scraper_sends rows s) = ss_warmup s"
  "ss_measure (scraper_sends rows s) = ss_measure s" "ss_scrapers (scraper_sends rows s) = ss_scrapers s"
  "ss_boundary_failure (scraper_sends rows s) = ss_boundary_failure s"
  by (simp_all add: scraper_sends_def)

lemma scraper_sends_joined [simp]: "ss_scrapers s = 0 \<Longrightarrow> scraper_sends rows s = s"
  by (simp add: scraper_sends_def)

lemma span_snoc: "span base_ns (rs @ [r]) = widen (span base_ns rs) (sent_at base_ns r) (done_at base_ns r)"
proof (cases "rs = []")
  case False
  then have "Min (insert a (sent_at base_ns ` set rs)) = min (Min (sent_at base_ns ` set rs)) a"
    "Max (insert a (done_at base_ns ` set rs)) = max (Max (done_at base_ns ` set rs)) a" for a
    by (simp_all add: min.commute max.commute)
  with False show ?thesis by (simp add: span_def widen_def)
qed (simp add: span_def widen_def)

lemma row_to_send_times:
  "rq_seq (row_to_send s r b) = rr_seq r" "rq_t_sent_ns (row_to_send s r b) = sent_at b r"
  "rq_t_done_ns (row_to_send s r b) = done_at b r"
  by (simp_all add: row_to_send_def stamp_freshness_def request_row_of_def sent_at_def done_at_def Let_def
      split: option.split prod.split)

lemma widen_phase_frame [simp]:
  "ss_sent (widen_phase ph row s) = ss_sent s" "ss_write_error (widen_phase ph row s) = ss_write_error s"
  by (simp_all add: widen_phase_def split: phase_kind.splits)

lemma widen_phase_windows:
  "ss_warmup (widen_phase ph row s) =
     (if ph = Warmup then widen (ss_warmup s) (rq_t_sent_ns row) (rq_t_done_ns row) else ss_warmup s)"
  "ss_measure (widen_phase ph row s) =
     (if ph = Measure then widen (ss_measure s) (rq_t_sent_ns row) (rq_t_done_ns row) else ss_measure s)"
  by (simp_all add: widen_phase_def split: phase_kind.splits)

lemma in_phase_snoc: "in_phase ph (rs @ [r]) = (if rr_phase r = ph then in_phase ph rs @ [r] else in_phase ph rs)"
  by (simp add: in_phase_def)

lemma record_request_shows:
  assumes "session_shows b s rs" "ss_write_error (record_request r b accepted s) = None"
  shows "session_shows b (record_request r b accepted s) (rs @ [r])"
proof -
  have w: "ss_write_error s = None" using assms(2) by (auto simp: record_request_def split: if_splits)
  then have "accepted" using assms(2) by (auto simp: record_request_def Let_def send_priority_def split: if_splits)
  then have "record_request r b accepted s =
      (let s1 = widen_phase (rr_phase r) (row_to_send s r b) s in
       s1\<lparr>ss_sent := ss_sent s @ [Request (RequestBody (row_to_send s r b))]\<rparr>)"
    using w by (simp add: record_request_def send_priority_def Let_def)
  then show ?thesis using assms(1)
    by (simp add: session_shows_def Let_def widen_phase_windows row_to_send_times in_phase_snoc span_snoc)
qed

lemma recorded_append: "recorded (xs @ ys) = recorded xs @ recorded ys"
  by (induction xs rule: recorded.induct) auto

lemma events_show:
  assumes "ss_write_error (fold (on_session_event b) evs s) = None" "session_shows b s []"
  shows "session_shows b (fold (on_session_event b) evs s) (recorded evs)"
  using assms(1)
proof (induction evs rule: rev_induct)
  case (snoc e evs)
  let ?t = "fold (on_session_event b) evs s"
  have "ss_write_error ?t = None"
    using snoc.prems by (cases e) (auto simp: record_request_def split: if_splits)
  note IH = snoc.IH [OF this]
  show ?case
  proof (cases e)
    case (Recorded r accepted)
    then show ?thesis using record_request_shows [OF IH, of r accepted] snoc.prems by (simp add: recorded_append)
  next
    case (ScraperMoved sc rows)
    then show ?thesis using IH by (simp add: recorded_append session_shows_def)
  qed
qed (simp add: assms(2))

definition stage_rows_for :: "telemetry_session \<Rightarrow> nat \<Rightarrow> row_phase \<Rightarrow> request_record list \<Rightarrow> stage_row list" where
  "stage_rows_for s base_ns ph rs =
     (if rs = [] then []
      else [\<lparr>sg_run_id = ss_run_id s, sg_stage = unwrap_or (ss_load s) (Fin 0), sg_load = unwrap_or (ss_load s) (Fin 0),
        sg_phase = ph, sg_t_start_ns = Min (sent_at base_ns ` set rs), sg_t_end_ns = Max (done_at base_ns ` set rs)\<rparr>])"

lemma send_stage_shows:
  assumes "send_stage accepted ph w s = Inr s'" "w = span b rs"
  shows "stages_of (ss_sent s') = stages_of (ss_sent s) @ stage_rows_for s b ph rs \<and>
    requests_of (ss_sent s') = requests_of (ss_sent s) \<and> ss_load s' = ss_load s \<and> ss_run_id s' = ss_run_id s \<and>
    ss_measure s' = ss_measure s \<and> ss_scrapers s' = ss_scrapers s"
  using assms
  by (auto simp: send_stage_def send_priority_def stage_row_of_def span_def stage_rows_for_def Let_def split: if_splits)

lemma frame_events:
  "ss_load (fold (on_session_event b) evs s) = ss_load s \<and> ss_run_id (fold (on_session_event b) evs s) = ss_run_id s"
proof (induction evs rule: rev_induct)
  case (snoc e evs)
  then show ?case
    by (cases e) (auto simp: record_request_def Let_def send_priority_def widen_phase_def split: phase_kind.splits)
qed simp

lemma scrapers_settled_simps [simp]:
  "ss_scrapers (scrapers_settled w s) = 0" "ss_warmup (scrapers_settled w s) = ss_warmup s"
  "ss_measure (scrapers_settled w s) = ss_measure s" "ss_load (scrapers_settled w s) = ss_load s"
  "ss_run_id (scrapers_settled w s) = ss_run_id s" "requests_of (ss_sent (scrapers_settled w s)) = requests_of (ss_sent s)"
  "stages_of (ss_sent (scrapers_settled w s)) = stages_of (ss_sent s)"
  by (simp_all add: scrapers_settled_def join_scrapers_def)

lemma send_stage_scrapers: "send_stage accepted ph v s = Inr s' \<Longrightarrow> ss_scrapers s' = ss_scrapers s"
  by (auto simp: send_stage_def send_priority_def split: option.splits if_splits)

lemma finish_done:
  assumes "session_finish file_name partial w s = (Inr info, rows)"
  obtains s1 s2 where "ss_write_error s = None"
    "send_stage (we_warmup_accepted w) WarmupStage (ss_warmup s) (scrapers_settled w s) = Inr s1"
    "send_stage (we_measure_accepted w) MeasureStage (ss_measure s1) s1 = Inr s2"
    "rows = ss_sent s2 @ [summary_row_of s2 partial (we_snapshot w)]"
proof -
  have e: "ss_write_error s = None" using assms by (auto simp: session_finish_def split: option.splits)
  with assms obtain s1 where s1: "send_stage (we_warmup_accepted w) WarmupStage (ss_warmup s) (scrapers_settled w s) = Inr s1"
    by (auto simp: session_finish_def Let_def split: sum.splits)
  then have z: "ss_scrapers s1 = 0" using send_stage_scrapers by fastforce
  with e s1 assms obtain s2 where s2: "send_stage (we_measure_accepted w) MeasureStage (ss_measure s1) s1 = Inr s2"
    by (auto simp: session_finish_def Let_def split: sum.splits)
  then have "ss_scrapers s2 = 0" using z send_stage_scrapers by fastforce
  with e s1 s2 z assms have "rows = ss_sent s2 @ [summary_row_of s2 partial (we_snapshot w)]"
    by (auto simp: session_finish_def Let_def send_priority_def split: sum.splits if_splits)
  with e s1 s2 show ?thesis by (rule that)
qed

text \<open>
  C28: A telemetry file that is closed without an error holds one request row for every record, in
  order, with the times of the record, whatever rows the scrapers get accepted in between and until
  they are joined; for each of the warmup and the measured phase exactly one stage row if the phase
  had requests and none otherwise, which spans from the first send to the last completion of the
  phase; and the summary row comes last, after every row of a scraper, because the scrapers are
  joined before it is sent.
\<close>

theorem closed_file_complete:
  assumes "session_shows b s []" and "ss_write_error s = None"
    and "session_finish file_name partial w (fold (on_session_event b) evs s) = (Inr info, rows)"
  shows "map (\<lambda>q. (rq_seq q, rq_t_sent_ns q, rq_t_done_ns q)) (requests_of rows) =
      map (\<lambda>r. (rr_seq r, sent_at b r, done_at b r)) (recorded evs) \<and>
    stages_of rows = stage_rows_for s b WarmupStage (in_phase Warmup (recorded evs)) @
      stage_rows_for s b MeasureStage (in_phase Measure (recorded evs)) \<and>
    (\<exists>q. last rows = Summary (SummaryBody q) \<and> su_partial q = partial)"
proof -
  let ?t = "fold (on_session_event b) evs s"
  from finish_done [OF assms(3)] obtain s1 s2 where e: "ss_write_error ?t = None"
    and s1: "send_stage (we_warmup_accepted w) WarmupStage (ss_warmup ?t) (scrapers_settled w ?t) = Inr s1"
    and s2: "send_stage (we_measure_accepted w) MeasureStage (ss_measure s1) s1 = Inr s2"
    and rows: "rows = ss_sent s2 @ [summary_row_of s2 partial (we_snapshot w)]" .
  have sh: "session_shows b ?t (recorded evs)" by (rule events_show [OF e assms(1)])
  note w1 = send_stage_shows [OF s1, of b "in_phase Warmup (recorded evs)"]
  note w2 = send_stage_shows [OF s2, of b "in_phase Measure (recorded evs)"]
  show ?thesis using sh w1 w2 frame_events [of b evs s]
    by (auto simp: rows session_shows_def summary_row_of_def stage_rows_for_def)
qed

lemma first_failure:
  fixes outcomes :: "('e + unit) list"
  assumes "\<exists>e. Inl e \<in> set outcomes"
  shows "\<exists>k e rest es. outcomes = replicate k (Inr ()) @ Inl e # rest \<and>
    List.map_filter (\<lambda>r. case r of Inl e \<Rightarrow> Some e | Inr _ \<Rightarrow> None) outcomes = e # es"
  using assms
proof (induction outcomes)
  case (Cons r rs)
  show ?case
  proof (cases r)
    case (Inl e)
    then show ?thesis by (intro exI [of _ 0]) (simp add: List.map_filter_def)
  next
    case (Inr u)
    with Cons obtain k e rest es where "rs = replicate k (Inr ()) @ Inl e # rest"
      "List.map_filter (\<lambda>r. case r of Inl e \<Rightarrow> Some e | Inr _ \<Rightarrow> None) rs = e # es" by auto
    then show ?thesis using Inr by (intro exI [of _ "Suc k"]) (simp add: List.map_filter_def)
  qed
qed simp

lemma finish_verdict:
  assumes "session_finish file_name partial w s = (r, rows)" "\<forall>q. Summary (SummaryBody q) \<notin> set (ss_sent s)"
    and "ss_scrapers s = 0"
  shows "((\<exists>e. r = Inl e) \<longleftrightarrow> ss_write_error s \<noteq> None \<or> (ss_warmup s \<noteq> None \<and> \<not> we_warmup_accepted w) \<or>
      (ss_measure s \<noteq> None \<and> \<not> we_measure_accepted w) \<or> \<not> we_summary_accepted w \<or> we_shutdown w = None) \<and>
    (\<forall>q. Summary (SummaryBody q) \<in> set rows \<longrightarrow> su_partial q = partial) \<and>
    (\<forall>i. r = Inr i \<longrightarrow> (\<exists>q. last rows = Summary (SummaryBody q)))"
  using assms
  by (auto simp: session_finish_def scrapers_settled_def send_stage_def send_priority_def stage_row_of_def
      summary_row_of_def Let_def
    split: option.splits sum.splits if_splits)

text \<open>
  C29: The verdict of a closed session is an error exactly when a required source failed, the
  boundary sample failed in required mode, or the file could not be completed (a row of a request,
  a stage or the summary was refused, or the writer task failed); it is the failure of the first
  source that failed, else that of the boundary sample, else that of the file. The run information is there
  exactly when the file was completed, so the first two failures never cost the stamp. The summary
  row says that the run is partial exactly when it was stopped or one of the first two happened.
\<close>

theorem close_session_verdict:
  assumes "close_session file_name was_stopped w (Some s) = ((info, verdict), rows)"
    and "\<forall>q. Summary (SummaryBody q) \<notin> set (ss_sent s)"
  shows "let required = ss_require_telemetry s \<and> (\<exists>e. Inl e \<in> set (take (ss_scrapers s) (we_outcomes w)));
      gated = ss_boundary_failure s \<noteq> None;
      incomplete = ss_write_error s \<noteq> None \<or> (ss_warmup s \<noteq> None \<and> \<not> we_warmup_accepted w) \<or>
        (ss_measure s \<noteq> None \<and> \<not> we_measure_accepted w) \<or> \<not> we_summary_accepted w \<or> we_shutdown w = None in
    (verdict = Inr () \<longleftrightarrow> \<not> required \<and> \<not> gated \<and> \<not> incomplete) \<and> (info = None \<longleftrightarrow> incomplete) \<and>
    (required \<longrightarrow> (\<exists>k e rest. take (ss_scrapers s) (we_outcomes w) = replicate k (Inr ()) @ Inl e # rest \<and>
       verdict = Inl e)) \<and>
    (\<not> required \<and> gated \<longrightarrow> verdict = Inl (BoundaryFailed (the (ss_boundary_failure s)))) \<and>
    (\<forall>q. Summary (SummaryBody q) \<in> set rows \<longrightarrow> su_partial q = (was_stopped \<or> required \<or> gated)) \<and>
    (info \<noteq> None \<longrightarrow> (\<exists>q. last rows = Summary (SummaryBody q)))"
proof -
  define outcomes where "outcomes = take (ss_scrapers s) (we_outcomes w)"
  define errors where "errors = List.map_filter (\<lambda>r. case r of Inl e \<Rightarrow> Some e | Inr (_ :: unit) \<Rightarrow> None) outcomes"
  have in_errors: "e \<in> set errors \<longleftrightarrow> Inl e \<in> set outcomes" for e
    by (force simp: errors_def List.map_filter_def split: sum.splits)
  then have ex: "errors \<noteq> [] \<longleftrightarrow> (\<exists>e. Inl e \<in> set outcomes)" by (cases errors) fastforce+
  define v :: "telemetry_session_error + unit" where
    "v = (case (case errors of e # _ \<Rightarrow> if ss_require_telemetry s then Inl e else Inr () | [] \<Rightarrow> Inr ()) of
       Inl e \<Rightarrow> Inl e
     | Inr _ \<Rightarrow> (case ss_boundary_failure s of None \<Rightarrow> Inr () | Some m \<Rightarrow> Inl (BoundaryFailed m)))"
  have vv: "v = Inr () \<longleftrightarrow> \<not> (ss_require_telemetry s \<and> (\<exists>e. Inl e \<in> set outcomes)) \<and> ss_boundary_failure s = None"
    unfolding ex [symmetric] by (auto simp: v_def split: list.splits option.splits)
  have v1: "\<exists>k e rest. outcomes = replicate k (Inr ()) @ Inl e # rest \<and> v = Inl e"
    if "ss_require_telemetry s" "\<exists>e. Inl e \<in> set outcomes"
    using that(1) first_failure [OF that(2)] unfolding v_def errors_def by fastforce
  have v2: "\<not> (ss_require_telemetry s \<and> (\<exists>e. Inl e \<in> set outcomes)) \<Longrightarrow> ss_boundary_failure s = Some m \<Longrightarrow>
      v = Inl (BoundaryFailed m)" for m
    unfolding ex [symmetric] by (auto simp: v_def split: list.splits)
  let ?s = "(scraper_sends (we_join_rows w) s)\<lparr>ss_stop_scrapers := True, ss_scrapers := 0, ss_boundary_failure := None\<rparr>"
  obtain r rws where f: "session_finish file_name (was_stopped \<or> v \<noteq> Inr ()) w ?s = (r, rws)" by fastforce
  have c: "rows = rws" "info = (case r of Inl _ \<Rightarrow> None | Inr i \<Rightarrow> Some i)"
    "verdict = (case r of Inl e \<Rightarrow> (case v of Inl e0 \<Rightarrow> Inl e0 | Inr _ \<Rightarrow> Inl e) | Inr _ \<Rightarrow> v)"
    using assms(1) f
    by (auto simp: close_session_def join_scrapers_def outcomes_def errors_def v_def Let_def split: sum.splits)
  have body: "scraper_body x \<noteq> Summary y" for x y by (cases x) simp_all
  have "\<forall>q. Summary (SummaryBody q) \<notin> set (ss_sent ?s)"
    using assms(2) body by (auto simp: scraper_sends_def dest!: sym [of "Summary _"])
  note p = finish_verdict [OF f this, simplified]
  show ?thesis unfolding Let_def outcomes_def [symmetric] using p c vv v1 v2 by (cases r; cases v) auto
qed

subsection \<open>Examples\<close>

definition demo_session :: telemetry_session where
  "demo_session =
     \<lparr>ss_run_id = lit ''run'', ss_ndjson = lit ''run.ndjson'', ss_sent = [], ss_scrapers = 1, ss_stop_scrapers = False,
      ss_require_telemetry = True, ss_sources = 1, ss_load = Some (Fin 4), ss_warmup = None, ss_measure = None,
      ss_write_error = None,
      ss_boundary_plan = Some (1024, [\<lparr>cs_name = lit ''engine'', cs_url = lit ''u'', cs_interval_ms = 1000,
        cs_include = \<lparr>include_is_empty = False, include_is_match = (\<lambda>_. True)\<rparr>, cs_units = [], cs_bearer_env = None, cs_basic_auth_env = None, cs_insecure_tls = False,
        cs_allow_empty = False\<rparr>]),
      ss_abort = Some stop_new, ss_boundary_failure = None,
      ss_scraper = \<lparr>sc_failures = 0, sc_history = new_sample_history [], sc_rows = [], sc_errors = [], sc_stop = False\<rparr>\<rparr>"

definition demo_miss :: scraper_row where
  "demo_miss = Missed \<lparr>se_run_id = lit ''run'', se_t_ns = 7, se_src = lit ''engine'', se_http_status = None,
     se_error = lit ''timed out'', se_boundary = None\<rparr>"

definition demo_end :: "(telemetry_session_error + unit) list \<Rightarrow> writer_end" where
  "demo_end outcomes = \<lparr>we_outcomes = outcomes, we_join_rows = [demo_miss], we_warmup_rows = [demo_miss],
     we_measure_rows = [demo_miss], we_summary_rows = [demo_miss],
     we_warmup_accepted = True, we_measure_accepted = True, we_snapshot = stats_snapshot counters_default,
     we_summary_accepted = True, we_shutdown = Some (stats_snapshot counters_default)\<rparr>"

definition demo_events :: "session_event list" where
  "demo_events = [Recorded demo_record True, ScraperMoved (ss_scraper demo_session) [demo_miss]]"

lemma demo_shows: "session_shows 0 demo_session []"
  by (simp add: session_shows_def demo_session_def span_def in_phase_def)

lemma demo_phase: "rr_phase demo_record = Measure"
  by (simp add: demo_record_def success_def Let_def with_phase_metrics_def)

lemma demo_flags [simp]:
  "ss_write_error demo_session = None" "ss_warmup demo_session = None" "ss_measure demo_session = None"
  "ss_scrapers demo_session = 1" "ss_sent demo_session = []" "ss_boundary_failure demo_session = None"
  "ss_require_telemetry demo_session"
  by (simp_all add: demo_session_def)

lemma demo_end_flags [simp]:
  "we_outcomes (demo_end os) = os" "we_warmup_accepted (demo_end os)" "we_measure_accepted (demo_end os)"
  "we_summary_accepted (demo_end os)" "we_shutdown (demo_end os) = Some (stats_snapshot counters_default)"
  by (simp_all add: demo_end_def)

lemma demo_recorded:
  "fold (on_session_event 0) demo_events demo_session = demo_session\<lparr>
     ss_sent := [Request (RequestBody (row_to_send demo_session demo_record 0)), scraper_body demo_miss],
     ss_measure := span 0 [demo_record]\<rparr>"
  by (simp add: demo_events_def record_request_def Let_def send_priority_def widen_phase_def demo_phase
      scraper_sends_def row_to_send_times widen_def span_def)

lemma demo_finishes:
  "\<exists>info rows. session_finish id False (demo_end [Inr ()]) (fold (on_session_event 0) demo_events demo_session) = (Inr info, rows)"
  unfolding demo_recorded
  by (simp add: session_finish_def Let_def scrapers_settled_def join_scrapers_def send_priority_def send_stage_def
      scraper_sends_def span_def)

theorem closed_file_complete_witness:
  "\<exists>rows q. stages_of rows = stage_rows_for demo_session 0 MeasureStage [demo_record] \<and>
     length (requests_of rows) = 1 \<and> last rows = Summary (SummaryBody q)"
proof -
  obtain info rows where f: "session_finish id False (demo_end [Inr ()])
      (fold (on_session_event 0) demo_events demo_session) = (Inr info, rows)"
    using demo_finishes by blast
  have "ss_write_error demo_session = None" by (simp add: demo_session_def)
  from closed_file_complete [OF demo_shows this f] demo_phase show ?thesis
    by (auto simp: in_phase_def stage_rows_for_def demo_events_def dest: arg_cong [of _ _ length])
qed

theorem close_session_verdict_witness:
  "\<exists>info rows. close_session id False (demo_end [Inl WriterClosed]) (Some demo_session) = ((Some info, Inl WriterClosed), rows)"
proof -
  obtain info verdict rows where c:
    "close_session id False (demo_end [Inl WriterClosed]) (Some demo_session) = ((info, verdict), rows)"
    by (metis prod.collapse)
  have "\<forall>q. Summary (SummaryBody q) \<notin> set (ss_sent demo_session)" by (simp add: demo_session_def)
  moreover have "e = WriterClosed" if "[Inl WriterClosed] = replicate k (Inr ()) @ Inl e # rest" for k e rest
    using that by (cases k) auto
  ultimately show ?thesis
    using close_session_verdict [OF c] c by (fastforce simp: Let_def)
qed

text \<open>
  After a boundary sample that ran out of its budget the plan is gone: the rows of the requests carry
  no freshness at all, as if no source were configured, although the same row before the time-out
  lists its stale sources.
\<close>

lemma timeout_loses_plan:
  assumes "ss_boundary_plan s = Some (mb, src # sources)" "boundary_sample_cancelled pf ticks s = Some s1"
  shows "rq_queue_sample_stale (row_to_send s r base_ns) \<noteq> None"
    and "rq_queue_sample_stale (row_to_send (snd (note_boundary_timeout budget t accepted s1)) r base_ns) = None"
proof -
  have "fold (\<lambda>src m. bt_insert (cs_name src) (f src) m) (src # sources) [] \<noteq> []" for f
    by (rule fold_insert_not_Nil) simp
  from this [of "\<lambda>src. sample_age_ms (sc_history (ss_scraper s)) (cs_name src)
      (rq_t_sent_ns (request_row_of (ss_run_id s) r base_ns (unwrap_or (ss_load s) (Fin 0))))"]
  show "rq_queue_sample_stale (row_to_send s r base_ns) \<noteq> None"
    using assms(1) by (simp add: row_to_send_def stamp_freshness_def Let_def)
  show "rq_queue_sample_stale (row_to_send (snd (note_boundary_timeout budget t accepted s1)) r base_ns) = None"
    using assms
    by (auto simp: boundary_sample_cancelled_def row_to_send_def note_boundary_timeout_def gate_failure_def
      send_priority_def request_row_of_def Let_def split: option.splits sum.splits if_splits)
qed

end
