(* ===== verification/Compare.thy ===== *)
theory Compare
  imports Strategic Library_Files Float_Format
begin

text \<open>
  Comparison of sweeps (\<open>src/compare.rs\<close>): points from a strategic JSON or a request CSV, the
  table of metrics and deltas by load, labels, and the Markdown table. The JSON parser and printer
  and the CSV reader are parameters.
\<close>

datatype compare_error =
    RunUnreadable
  | RunInvalid
  | PointsMissing
  | PointsEmpty
  | PointWithoutLoad
  | CsvUnreadable
  | CsvWithoutRows
  | NoMeasurableStage
  | NeitherFormat
  | TooFewRuns
  | LabelCount nat nat

record compare_point =
  cp_load :: f64
  cp_throughput :: "f64 option"
  cp_p50_s :: "f64 option"
  cp_p95_s :: "f64 option"
  cp_p99_s :: "f64 option"
  cp_goodput :: "f64 option"
  cp_user_tps_mean :: "f64 option"
  cp_users_at_slo :: "f64 option"
  cp_cost_per_million_output_tokens :: "f64 option"
  cp_error_rate :: "f64 option"

record labeled_run =
  run_label :: ustr
  run_path :: ustr
  run_points :: "compare_point list"

record labeled_run_meta =
  meta_label :: ustr
  meta_path :: ustr
  meta_stages :: nat

record compare_stage =
  stage_load :: f64
  stage_metrics :: "(ustr, (ustr, json) btree) btree"

record compare_report =
  report_schema_version :: string
  report_baseline :: ustr
  report_runs :: "labeled_run_meta list"
  report_stages :: "compare_stage list"

subsection \<open>Loading a run\<close>

definition get_f64 :: "json \<Rightarrow> string \<Rightarrow> f64 option" where
  "get_f64 v k = Option.bind (jget v k) as_f64"

definition pointer_f64 :: "json \<Rightarrow> string list \<Rightarrow> f64 option" where
  "pointer_f64 v p = Option.bind (pointer v p) as_f64"

definition compare_point_from_value :: "json \<Rightarrow> compare_error + compare_point" where
  "compare_point_from_value point =
     (case get_f64 point ''load'' of
        None \<Rightarrow> Inl PointWithoutLoad
      | Some load \<Rightarrow>
          Inr \<lparr>cp_load = load, cp_throughput = get_f64 point ''throughput'', cp_p50_s = get_f64 point ''p50_s'',
            cp_p95_s = get_f64 point ''p95_s'', cp_p99_s = get_f64 point ''p99_s'', cp_goodput = get_f64 point ''goodput'',
            cp_user_tps_mean =
              option_or (pointer_f64 point [''user_tps'', ''avg''])
                (option_or (pointer_f64 point [''user_tps'', ''mean'']) (get_f64 point ''user_tps_mean'')),
            cp_users_at_slo = get_f64 point ''users_at_slo'',
            cp_cost_per_million_output_tokens = get_f64 point ''cost_per_million_output_tokens'',
            cp_error_rate = get_f64 point ''error_rate''\<rparr>)"

fun points_of_values :: "json list \<Rightarrow> compare_error + compare_point list" where
  "points_of_values [] = Inr []"
| "points_of_values (v # vs) =
     (case compare_point_from_value v of
        Inl e \<Rightarrow> Inl e
      | Inr p \<Rightarrow> map_sum id (Cons p) (points_of_values vs))"

text \<open>A file is its text, \<open>None\<close> when it cannot be read.\<close>

definition points_from_json :: "serde \<Rightarrow> ustr option \<Rightarrow> compare_error + compare_point list" where
  "points_from_json sj raw =
     (case raw of
        None \<Rightarrow> Inl RunUnreadable
      | Some txt \<Rightarrow>
          (case from_str sj txt of
             None \<Rightarrow> Inl RunInvalid
           | Some v \<Rightarrow>
               (case get_array v ''points'' of
                  None \<Rightarrow> Inl PointsMissing
                | Some arr \<Rightarrow>
                    (case points_of_values arr of
                       Inl e \<Rightarrow> Inl e
                     | Inr [] \<Rightarrow> Inl PointsEmpty
                     | Inr ps \<Rightarrow> Inr ps))))"

definition compare_point_from_sweep :: "sweep_point \<Rightarrow> compare_point" where
  "compare_point_from_sweep p =
     \<lparr>cp_load = sp_load p, cp_throughput = sp_throughput p, cp_p50_s = sp_p50_s p, cp_p95_s = sp_p95_s p,
      cp_p99_s = sp_p99_s p, cp_goodput = sp_goodput p, cp_user_tps_mean = ds_avg (sd_user_tps (sp_dists p)),
      cp_users_at_slo = sp_users_at_slo p, cp_cost_per_million_output_tokens = sp_cost_per_million_output_tokens p,
      cp_error_rate = sp_error_rate p\<rparr>"

definition stage_key :: "bench_record \<Rightarrow> nat" where
  "stage_key r = f_to_usize (f_round (fmul (br_stage r) (Fin 1000)))"

definition by_stage :: "bench_record list \<Rightarrow> (nat, bench_record list) btree" where
  "by_stage rs = fold (\<lambda>r m. bt_push (stage_key r) r m) rs []"

text \<open>\<open>None\<close> only if a stage summary does not return.\<close>

definition stage_point :: "bench_record list \<Rightarrow> compare_point list option" where
  "stage_point rs =
     (case stage_window_seconds rs of
        None \<Rightarrow> Some []
      | Some w \<Rightarrow>
          (let load = (case rs of [] \<Rightarrow> Fin 0 | r # _ \<Rightarrow> br_stage r) in
           map_option (\<lambda>p. [compare_point_from_sweep p]) (summarize_stage load rs w slo_default None)))"

definition points_from_csv :: "bench_record list option \<Rightarrow> (compare_error + compare_point list) option" where
  "points_from_csv rows =
     (case rows of
        None \<Rightarrow> Some (Inl CsvUnreadable)
      | Some [] \<Rightarrow> Some (Inl CsvWithoutRows)
      | Some rs \<Rightarrow>
          map_option (\<lambda>ps. if concat ps = [] then Inl NoMeasurableStage else Inr (concat ps))
            (collect_some (map stage_point (bt_values (by_stage rs)))))"

definition load_run ::
  "serde \<Rightarrow> ustr \<Rightarrow> ustr option \<Rightarrow> bench_record list option \<Rightarrow> ustr \<Rightarrow> ustr \<Rightarrow> (compare_error + labeled_run) option" where
  "load_run sj ext raw rows path label =
     (let e = to_ascii_lowercase ext in
      map_option (map_sum id (\<lambda>ps. \<lparr>run_label = label, run_path = path, run_points = ps\<rparr>))
        (if e = lit ''csv'' then points_from_csv rows
         else if e = lit ''json'' then Some (points_from_json sj raw)
         else (case points_from_json sj raw of
             Inr ps \<Rightarrow> Some (Inr ps)
           | Inl _ \<Rightarrow> map_option (\<lambda>r. case r of Inl _ \<Rightarrow> Inl NeitherFormat | Inr ps \<Rightarrow> Inr ps) (points_from_csv rows))))"

subsection \<open>The table\<close>

definition close_loads :: "f64 \<Rightarrow> f64 \<Rightarrow> bool" where
  "close_loads a b \<longleftrightarrow> flt (fabs (fsub a b)) (rnd (1 / 10 ^ 9))"

text \<open>\<open>dedup_by\<close> compares each load with the one kept last.\<close>

fun dedup_loads :: "f64 list \<Rightarrow> f64 list" where
  "dedup_loads (a # b # xs) =
     (if close_loads b a then dedup_loads (a # xs) else a # dedup_loads (b # xs))"
| "dedup_loads xs = xs"

definition METRIC_NAMES :: "string list" where
  "METRIC_NAMES =
     [''throughput'', ''p50_s'', ''p95_s'', ''p99_s'', ''goodput'', ''user_tps_mean'', ''users_at_slo'',
      ''cost_per_million_output_tokens'', ''error_rate'']"

definition metric_value :: "compare_point \<Rightarrow> string \<Rightarrow> f64 option" where
  "metric_value p name =
     (if name = ''throughput'' then cp_throughput p
      else if name = ''p50_s'' then cp_p50_s p
      else if name = ''p95_s'' then cp_p95_s p
      else if name = ''p99_s'' then cp_p99_s p
      else if name = ''goodput'' then cp_goodput p
      else if name = ''user_tps_mean'' then cp_user_tps_mean p
      else if name = ''users_at_slo'' then cp_users_at_slo p
      else if name = ''cost_per_million_output_tokens'' then cp_cost_per_million_output_tokens p
      else if name = ''error_rate'' then cp_error_rate p
      else None)"

definition delta_key :: "ustr \<Rightarrow> ustr \<Rightarrow> ustr" where
  "delta_key label baseline = lit ''delta_'' @ label @ lit ''_vs_'' @ baseline"

definition pct_key :: "ustr \<Rightarrow> ustr \<Rightarrow> ustr" where
  "pct_key label baseline = lit ''pct_'' @ label @ lit ''_vs_'' @ baseline"

definition run_value :: "f64 \<Rightarrow> string \<Rightarrow> labeled_run \<Rightarrow> f64 option" where
  "run_value load name run =
     Option.bind (find (\<lambda>p. close_loads (cp_load p) load) (run_points run)) (\<lambda>p. metric_value p name)"

definition pct_of :: "f64 \<Rightarrow> f64 \<Rightarrow> f64 option" where
  "pct_of base delta =
     (if flt (Fin (1 / 2 ^ 52)) (fabs base) then Some (fmul (fdiv delta base) (Fin 100)) else None)"

definition add_delta :: "ustr \<Rightarrow> ustr \<Rightarrow> f64 option \<Rightarrow> f64 option \<Rightarrow> (ustr, json) btree \<Rightarrow> (ustr, json) btree" where
  "add_delta label baseline base v row =
     (case (base, v) of
        (Some b, Some x) \<Rightarrow>
          (let delta = fsub x b in
           bt_insert (pct_key label baseline) (jopt jf64 (pct_of b delta))
             (bt_insert (delta_key label baseline) (jf64 delta) row))
      | _ \<Rightarrow> row)"

text \<open>The loop over the runs; the first one sets the baseline value.\<close>

fun compare_row ::
  "f64 \<Rightarrow> string \<Rightarrow> ustr \<Rightarrow> (nat \<times> labeled_run) list \<Rightarrow> f64 option \<Rightarrow> (ustr, json) btree \<Rightarrow> (ustr, json) btree" where
  "compare_row load name baseline [] base row = row"
| "compare_row load name baseline ((index, run) # runs) base row =
     (let v = run_value load name run;
          base' = (if index = 0 then v else base);
          row1 = bt_insert (run_label run) (jopt jf64 v) row;
          row2 = (if 0 < index then add_delta (run_label run) baseline base' v row1 else row1)
      in compare_row load name baseline runs base' row2)"

definition compare_stage_of :: "labeled_run list \<Rightarrow> ustr \<Rightarrow> f64 \<Rightarrow> compare_stage" where
  "compare_stage_of runs baseline load =
     \<lparr>stage_load = load,
      stage_metrics = fold (\<lambda>name m. bt_insert (lit name) (compare_row load name baseline (enumerate 0 runs) None []) m)
        METRIC_NAMES []\<rparr>"

text \<open>The sort orders numbers; a load NaN, which no file of the tool holds, is not covered.\<close>

definition compare_loads :: "labeled_run list \<Rightarrow> f64 list" where
  "compare_loads runs = dedup_loads (sort (concat (map (\<lambda>r. map cp_load (run_points r)) runs)))"

definition compare_runs :: "labeled_run list \<Rightarrow> compare_error + compare_report" where
  "compare_runs runs =
     (if length runs < 2 then Inl TooFewRuns
      else (let baseline = run_label (hd runs) in
        Inr \<lparr>report_schema_version = ''metrum-ai-bench-cli.compare.v1'', report_baseline = baseline,
          report_runs = map (\<lambda>r. \<lparr>meta_label = run_label r, meta_path = run_path r, meta_stages = length (run_points r)\<rparr>) runs,
          report_stages = map (compare_stage_of runs baseline) (compare_loads runs)\<rparr>))"

subsection \<open>Labels and text\<close>

definition file_stem :: "ustr \<Rightarrow> ustr option" where
  "file_stem path =
     map_option (\<lambda>name.
         (let suffix = takeWhile (\<lambda>c. c \<noteq> 46) (rev name); stem = rev (drop (length suffix + 1) (rev name)) in
          if 46 \<notin> set name \<or> stem = [] then name else stem))
       (file_name path)"

definition resolve_labels :: "ustr list \<Rightarrow> ustr list option \<Rightarrow> compare_error + ustr list" where
  "resolve_labels paths labels =
     (case labels of
        Some ls \<Rightarrow> if length ls \<noteq> length paths then Inl (LabelCount (length ls) (length paths)) else Inr ls
      | None \<Rightarrow> Inr (map (\<lambda>p. unwrap_or (file_stem p) (lit ''run'')) paths))"

definition fmt_cell :: "serde \<Rightarrow> json option \<Rightarrow> ustr" where
  "fmt_cell sj v =
     (case v of
        None \<Rightarrow> lit ''-''
      | Some JNull \<Rightarrow> lit ''-''
      | Some (JNumber n) \<Rightarrow>
          (case as_f64 (JNumber n) of Some f \<Rightarrow> fmt_fixed 4 f | None \<Rightarrow> to_string sj (JNumber n))
      | Some other \<Rightarrow> to_string sj other)"

definition fmt_pct :: "json option \<Rightarrow> ustr" where
  "fmt_pct v = (case Option.bind v as_f64 of Some f \<Rightarrow> fmt_fixed 2 f @ lit ''%'' | None \<Rightarrow> lit ''-'')"

definition markdown_row ::
  "serde \<Rightarrow> compare_report \<Rightarrow> f64 \<Rightarrow> ustr \<times> (ustr, json) btree \<Rightarrow> ustr" where
  "markdown_row sj report load cells =
     (case cells of (metric, row) \<Rightarrow>
        lit ''| '' @ fmt_fixed 4 load @ lit '' | '' @ metric @ lit '' |'' @
        concat (map (\<lambda>r. lit '' '' @ fmt_cell sj (bt_get row (meta_label r)) @ lit '' |'') (report_runs report)) @
        concat (map (\<lambda>r.
            lit '' '' @ fmt_cell sj (bt_get row (delta_key (meta_label r) (report_baseline report))) @ lit '' |'' @
            lit '' '' @ fmt_pct (bt_get row (pct_key (meta_label r) (report_baseline report))) @ lit '' |'')
          (drop 1 (report_runs report))) @ [10])"

definition format_markdown :: "serde \<Rightarrow> compare_report \<Rightarrow> ustr" where
  "format_markdown sj report =
     lit ''# Strategic compare'' @ [10, 10] @ lit ''Baseline: **'' @ report_baseline report @ lit ''**'' @ [10, 10] @
     lit ''| Load | Metric |'' @
     concat (map (\<lambda>r. lit '' '' @ meta_label r @ lit '' |'') (report_runs report)) @
     concat (map (\<lambda>r.
         lit '' delta '' @ meta_label r @ lit '' vs '' @ report_baseline report @ lit '' |'' @
         lit '' pct '' @ meta_label r @ lit '' vs '' @ report_baseline report @ lit '' |'')
       (drop 1 (report_runs report))) @ [10] @
     lit ''| --- | --- |'' @ concat (map (\<lambda>_. lit '' --- |'') (report_runs report)) @
     concat (map (\<lambda>_. lit '' --- | --- |'') (drop 1 (report_runs report))) @ [10] @
     concat (map (\<lambda>s. concat (map (markdown_row sj report (stage_load s)) (stage_metrics s))) (report_stages report))"

subsection \<open>The loads of the table\<close>

lemma tolerance_pos: "flt (Fin 0) (rnd (1 / 10 ^ 9))"
  by code_simp

lemma close_loads_refl: "is_finite a \<Longrightarrow> close_loads a a"
  using tolerance_pos by (elim is_finiteE) (simp add: close_loads_def fsub_def)

lemma dedup_loads_head: "\<exists>ys. dedup_loads (a # xs) = a # ys"
  by (induction "a # xs" arbitrary: xs rule: dedup_loads.induct) auto

lemma dedup_loads_subset: "set (dedup_loads xs) \<subseteq> set xs"
  by (induction xs rule: dedup_loads.induct) auto

lemma dedup_loads_covers:
  assumes "\<forall>a \<in> set xs. is_finite a" and "x \<in> set xs"
  shows "\<exists>y \<in> set (dedup_loads xs). close_loads x y"
  using assms
proof (induction xs rule: dedup_loads.induct)
  case (1 a b xs)
  show ?case
  proof (cases "x = b \<and> close_loads b a")
    case True
    then show ?thesis using dedup_loads_head [of a xs] by auto
  qed (use 1 close_loads_refl in \<open>auto split: if_splits\<close>)
qed (auto simp: close_loads_refl)

lemma dedup_loads_apart:
  "\<forall>a \<in> set xs. is_finite a \<Longrightarrow> sorted xs \<Longrightarrow>
     successively (\<lambda>a b. a < b \<and> \<not> close_loads b a) (dedup_loads xs)"
proof (induction xs rule: dedup_loads.induct)
  case (1 a b xs)
  show ?case
  proof (cases "close_loads b a")
    case False
    then have "a < b" using 1(3,4) close_loads_refl [of a] by (auto simp: less_le)
    then show ?thesis using False 1 dedup_loads_head [of b xs] by auto
  qed (use 1 in auto)
qed auto

subsection \<open>The cells of a row\<close>

definition row_keys :: "ustr \<Rightarrow> nat \<times> labeled_run \<Rightarrow> ustr list" where
  "row_keys baseline run =
     run_label (snd run) #
     (if 0 < fst run then [delta_key (run_label (snd run)) baseline, pct_key (run_label (snd run)) baseline] else [])"

definition delta_cell :: "f64 option \<Rightarrow> f64 option \<Rightarrow> json option" where
  "delta_cell base v = (case (base, v) of (Some b, Some x) \<Rightarrow> Some (jf64 (fsub x b)) | _ \<Rightarrow> None)"

lemma compare_row_other:
  "k \<notin> set (concat (map (row_keys baseline) runs)) \<Longrightarrow>
     bt_get (compare_row load name baseline runs base row) k = bt_get row k"
  by (induction load name baseline runs base row rule: compare_row.induct)
     (auto simp: row_keys_def bt_get_insert add_delta_def Let_def split: option.splits if_splits)

lemma add_delta_other:
  "k \<noteq> delta_key label baseline \<Longrightarrow> k \<noteq> pct_key label baseline \<Longrightarrow>
     bt_get (add_delta label baseline base v row) k = bt_get row k"
  by (cases base; cases v) (simp_all add: add_delta_def bt_get_insert Let_def)

lemma compare_row_cells:
  assumes "distinct (concat (map (row_keys baseline) runs))" and "(i, run) \<in> set runs"
    and "\<forall>k \<in> set (concat (map (row_keys baseline) runs)). bt_get row k = None"
    and "\<forall>(j, r) \<in> set runs. j = 0 \<longrightarrow> run_value load name r = base"
  shows "bt_get (compare_row load name baseline runs base row) (run_label run) = Some (jopt jf64 (run_value load name run)) \<and>
    (0 < i \<longrightarrow> bt_get (compare_row load name baseline runs base row) (delta_key (run_label run) baseline) =
       delta_cell base (run_value load name run))"
  using assms
proof (induction load name baseline runs base row rule: compare_row.induct)
  case (2 load name baseline index r runs base row)
  define row1 where "row1 = bt_insert (run_label r) (jopt jf64 (run_value load name r)) row"
  define row2 where
    "row2 = (if 0 < index then add_delta (run_label r) baseline base (run_value load name r) row1 else row1)"
  have base: "(if index = 0 then run_value load name r else base) = base" using 2(5) by auto
  have unfold: "compare_row load name baseline ((index, r) # runs) base row = compare_row load name baseline runs base row2"
    using base by (simp add: row2_def row1_def Let_def)
  show ?case
  proof (cases "(i, run) \<in> set runs")
    case True
    have "\<forall>k \<in> set (concat (map (row_keys baseline) runs)). bt_get row2 k = None"
    proof
      fix k assume k: "k \<in> set (concat (map (row_keys baseline) runs))"
      then have "k \<notin> set (row_keys baseline (index, r))" using 2(2) by auto
      then have "bt_get row2 k = bt_get row k"
        by (auto simp: row_keys_def row2_def row1_def add_delta_other bt_get_insert split: if_splits)
      then show "bt_get row2 k = None" using 2(4) k by simp
    qed
    moreover have "\<forall>(j, r) \<in> set runs. j = 0 \<longrightarrow> run_value load name r = base" using 2(5) by auto
    moreover have "distinct (concat (map (row_keys baseline) runs))" using 2(2) by simp
    ultimately show ?thesis
      unfolding unfold using 2(1) [OF refl refl refl refl, folded row1_def, unfolded base, folded row2_def] True by blast
  next
    case False
    then have r: "i = index" "run = r" using 2(3) by auto
    have "set (row_keys baseline (index, r)) \<inter> set (concat (map (row_keys baseline) runs)) = {}"
      using 2(2) by simp
    then have other: "bt_get (compare_row load name baseline runs base row2) k = bt_get row2 k"
      if "k \<in> set (row_keys baseline (index, r))" for k
      using that by (intro compare_row_other) blast
    have ne: "0 < index \<Longrightarrow> run_label r \<noteq> delta_key (run_label r) baseline \<and> run_label r \<noteq> pct_key (run_label r) baseline
        \<and> delta_key (run_label r) baseline \<noteq> pct_key (run_label r) baseline
        \<and> delta_key (run_label r) baseline \<noteq> run_label r"
      using 2(2) by (auto simp: row_keys_def)
    have none: "0 < index \<Longrightarrow> bt_get row (delta_key (run_label r) baseline) = None"
      using 2(4) by (auto simp: row_keys_def)
    have label: "bt_get row2 (run_label r) = Some (jopt jf64 (run_value load name r))"
      using ne by (cases base; cases "run_value load name r")
        (simp_all add: row2_def row1_def add_delta_def bt_get_insert Let_def)
    moreover have "0 < index \<Longrightarrow> bt_get row2 (delta_key (run_label r) baseline) = delta_cell base (run_value load name r)"
      using ne none by (cases base; cases "run_value load name r")
        (simp_all add: row2_def row1_def add_delta_def bt_get_insert delta_cell_def Let_def)
    ultimately show ?thesis
      unfolding unfold r by (simp add: other row_keys_def)
  qed
qed simp

subsection \<open>The report\<close>

lemma fold_insert_get:
  "bt_get (fold (\<lambda>n m. bt_insert (lit n) (f n) m) ns m) (lit k) = (if k \<in> set ns then Some (f k) else bt_get m (lit k))"
  by (induction ns arbitrary: m) (auto simp: bt_get_insert)

lemma compare_stage_row:
  assumes "distinct (concat (map (row_keys baseline) (enumerate 0 runs)))" and "i < length runs" and "name \<in> set METRIC_NAMES"
  shows "\<exists>row. bt_get (stage_metrics (compare_stage_of runs baseline load)) (lit name) = Some row \<and>
    bt_get row (run_label (runs ! i)) = Some (jopt jf64 (run_value load name (runs ! i))) \<and>
    (0 < i \<longrightarrow> bt_get row (delta_key (run_label (runs ! i)) baseline) =
       delta_cell (run_value load name (hd runs)) (run_value load name (runs ! i)))"
proof -
  let ?base = "run_value load name (hd runs)"
  obtain r rs where "runs = r # rs" using assms(2) by (cases runs) auto
  then have row: "compare_row load name baseline (enumerate 0 runs) None [] = compare_row load name baseline (enumerate 0 runs) ?base []"
    by simp
  have "bt_get (stage_metrics (compare_stage_of runs baseline load)) (lit name) =
      Some (compare_row load name baseline (enumerate 0 runs) ?base [])"
    using assms(3) by (simp add: compare_stage_of_def fold_insert_get row)
  moreover have "(i, runs ! i) \<in> set (enumerate 0 runs)" using assms(2) by (simp add: in_set_enumerate_eq)
  moreover have "\<forall>(j, x) \<in> set (enumerate 0 runs). j = 0 \<longrightarrow> run_value load name x = ?base"
    by (auto simp: in_set_enumerate_eq hd_conv_nth)
  moreover have "\<forall>k \<in> set (concat (map (row_keys baseline) (enumerate 0 runs))). bt_get ([] :: (ustr, json) btree) k = None"
    by (simp add: bt_get_def)
  ultimately show ?thesis
    using compare_row_cells [OF assms(1)] by blast
qed

text \<open>
  C22: The table of a comparison: the loads rise and no two adjacent ones are within the tolerance,
  every point of every run has a line at its load and every line is at the load of a point, and in
  each line, for each metric, the cell of a run holds that run's value and the delta cell of a
  later run its value minus the first run's, when the runs' row keys are distinct. The loads must be
  finite.
\<close>

theorem compare_report_sound:
  assumes "compare_runs runs = Inr rep"
    and "\<forall>r \<in> set runs. \<forall>p \<in> set (run_points r). is_finite (cp_load p)"
    and "distinct (concat (map (row_keys (run_label (hd runs))) (enumerate 0 runs)))"
  shows "successively (\<lambda>a b. a < b \<and> \<not> close_loads b a) (map stage_load (report_stages rep)) \<and>
    (\<forall>r \<in> set runs. \<forall>p \<in> set (run_points r). \<exists>s \<in> set (report_stages rep). close_loads (cp_load p) (stage_load s)) \<and>
    (\<forall>s \<in> set (report_stages rep). \<exists>r \<in> set runs. \<exists>p \<in> set (run_points r). cp_load p = stage_load s) \<and>
    (\<forall>s \<in> set (report_stages rep). \<forall>name \<in> set METRIC_NAMES. \<forall>i < length runs.
       \<exists>row. bt_get (stage_metrics s) (lit name) = Some row \<and>
         bt_get row (run_label (runs ! i)) = Some (jopt jf64 (run_value (stage_load s) name (runs ! i))) \<and>
         (0 < i \<longrightarrow> bt_get row (delta_key (run_label (runs ! i)) (report_baseline rep)) =
            delta_cell (run_value (stage_load s) name (hd runs)) (run_value (stage_load s) name (runs ! i))))"
proof -
  let ?loads = "sort (concat (map (\<lambda>r. map cp_load (run_points r)) runs))"
  have rep: "report_baseline rep = run_label (hd runs)"
      "report_stages rep = map (compare_stage_of runs (run_label (hd runs))) (compare_loads runs)"
    using assms(1) by (auto simp: compare_runs_def Let_def split: if_splits)
  have load [simp]: "stage_load (compare_stage_of runs b l) = l" for b l by (simp add: compare_stage_of_def)
  have fin: "\<forall>a \<in> set ?loads. is_finite a" using assms(2) by auto
  have "map stage_load (report_stages rep) = compare_loads runs" by (simp add: rep o_def)
  then have "successively (\<lambda>a b. a < b \<and> \<not> close_loads b a) (map stage_load (report_stages rep))"
    using dedup_loads_apart [OF fin] by (simp add: compare_loads_def)
  moreover have "\<exists>s \<in> set (report_stages rep). close_loads (cp_load p) (stage_load s)"
    if "r \<in> set runs" and "p \<in> set (run_points r)" for r p
    using dedup_loads_covers [OF fin, of "cp_load p"] that by (auto simp: rep compare_loads_def)
  moreover have "\<exists>r \<in> set runs. \<exists>p \<in> set (run_points r). cp_load p = stage_load s" if "s \<in> set (report_stages rep)" for s
    using that dedup_loads_subset [of ?loads] by (fastforce simp: rep compare_loads_def)
  ultimately show ?thesis
    using compare_stage_row [OF assms(3)] by (auto simp: rep)
qed

definition example_point :: "f64 \<Rightarrow> f64 option \<Rightarrow> compare_point" where
  "example_point load throughput =
     \<lparr>cp_load = load, cp_throughput = throughput, cp_p50_s = None, cp_p95_s = None, cp_p99_s = None, cp_goodput = None,
      cp_user_tps_mean = None, cp_users_at_slo = None, cp_cost_per_million_output_tokens = None, cp_error_rate = None\<rparr>"

definition example_runs :: "ustr \<Rightarrow> ustr \<Rightarrow> labeled_run list" where
  "example_runs a b =
     [\<lparr>run_label = a, run_path = lit ''x/r.json'', run_points = [example_point (Fin 1) (Some (Fin 10)), example_point (Fin 2) None]\<rparr>,
      \<lparr>run_label = b, run_path = lit ''y/r.json'', run_points = [example_point (Fin 1) (Some (Fin 12))]\<rparr>]"

definition example_report :: "ustr \<Rightarrow> ustr \<Rightarrow> compare_report" where
  "example_report a b = (case compare_runs (example_runs a b) of Inr rep \<Rightarrow> rep)"

theorem compare_report_sound_witness:
  "\<exists>rep. compare_runs (example_runs (lit ''a'') (lit ''b'')) = Inr rep \<and> report_baseline rep = lit ''a'' \<and>
     (\<forall>s \<in> set (report_stages rep). \<exists>r \<in> set (example_runs (lit ''a'') (lit ''b'')).
        \<exists>p \<in> set (run_points r). cp_load p = stage_load s)"
proof -
  let ?runs = "example_runs (lit ''a'') (lit ''b'')"
  have ok: "compare_runs ?runs = Inr (example_report (lit ''a'') (lit ''b''))"
    by (simp add: example_report_def compare_runs_def example_runs_def Let_def)
  have "\<forall>r \<in> set ?runs. \<forall>p \<in> set (run_points r). is_finite (cp_load p)"
    by (simp add: example_runs_def example_point_def)
  moreover have "distinct (concat (map (row_keys (run_label (hd ?runs))) (enumerate 0 ?runs)))"
    by code_simp
  moreover have "report_baseline (example_report (lit ''a'') (lit ''b'')) = lit ''a''"
    by (simp add: example_report_def compare_runs_def example_runs_def Let_def)
  ultimately show ?thesis using ok compare_report_sound [OF ok] by blast
qed

text \<open>
  A row is keyed by the label, and the default label is the file's stem: two files with the same
  stem share a column, and the later run's value replaces the baseline's.
\<close>

lemma same_stem_overwrites:
  "resolve_labels [lit ''x/r.json'', lit ''y/r.json''] None = Inr [lit ''r'', lit ''r''] \<and>
   run_value (Fin 1) ''throughput'' (hd (example_runs (lit ''r'') (lit ''r''))) = Some (Fin 10) \<and>
   bt_get (compare_row (Fin 1) ''throughput'' (lit ''r'') (enumerate 0 (example_runs (lit ''r'') (lit ''r''))) None [])
      (lit ''r'') = Some (jf64 (Fin 12))"
  by code_simp

end
