(* ===== verification/Preflight.thy ===== *)
theory Preflight
  imports Chat_Stream Endpoints Float_Format
begin

text \<open>
  Probes of an endpoint before a run (\<open>src/preflight.rs\<close>): the chat and models URLs, the four
  staged checks and their report, and the check that a model is listed. The HTTP client is a
  parameter: what each call answers and the clock reading when it does. A slice inside a character
  panics, \<open>None\<close>.
\<close>

datatype check_status = Pass | Fail | Warn

record preflight_check =
  pc_name :: string
  pc_status :: check_status
  pc_detail :: ustr
  pc_remediation :: "ustr option"

record preflight_report =
  pr_schema_version :: string
  pr_url :: ustr
  pr_model :: ustr
  pr_checks :: "preflight_check list"
  pr_all_passed :: bool
  pr_limits :: string

subsection \<open>URLs\<close>

definition trim_slashes :: "ustr \<Rightarrow> ustr" where
  "trim_slashes s = rev (dropWhile (\<lambda>c. c = 47) (rev s))"

definition normalize_chat_url :: "ustr \<Rightarrow> ustr" where
  "normalize_chat_url url =
     (let trimmed = trim_slashes (trim url) in
      if contains_sub (lit ''/chat/completions'') trimmed \<or> contains_sub (lit ''/completions'') trimmed then trimmed
      else if ends_with (lit ''/v1'') trimmed then trimmed @ lit ''/chat/completions''
      else trimmed @ lit ''/v1/chat/completions'')"

text \<open>\<open>split_once("://")\<close>.\<close>

definition split_scheme :: "ustr \<Rightarrow> (ustr \<times> ustr) option" where
  "split_scheme s = map_option (\<lambda>i. (take i s, drop (i + 3) s)) (find_sub (lit ''://'') s)"

definition split_prefix :: "ustr \<Rightarrow> ustr \<times> ustr" where
  "split_prefix trimmed =
     (case split_scheme trimmed of
        Some (scheme, rest) \<Rightarrow>
          (case split_once 47 rest of
             Some (auth, path) \<Rightarrow> (scheme @ lit ''://'' @ auth, 47 # path)
           | None \<Rightarrow> (scheme @ lit ''://'' @ rest, []))
      | None \<Rightarrow> ([], trimmed))"

definition v1_segment :: "ustr \<Rightarrow> nat \<Rightarrow> bool" where
  "v1_segment path i \<longleftrightarrow>
     (case strip_prefix (lit ''/v1'') (drop i path) of
        Some after \<Rightarrow> after = [] \<or> starts_with [47] after
      | None \<Rightarrow> False)"

definition derive_models_url :: "ustr \<Rightarrow> ustr" where
  "derive_models_url endpoint_url =
     (case split_prefix (trim_slashes (trim endpoint_url)) of
        (prefix, path) \<Rightarrow>
          (case find (v1_segment path) (rev [0..<length path]) of
             Some i \<Rightarrow> prefix @ take (i + 3) path @ lit ''/models''
           | None \<Rightarrow> prefix @ lit ''/v1/models''))"

subsection \<open>What the client answers\<close>

record reply =
  re_status :: nat
  re_status_text :: ustr
  re_body :: ustr

record probe_client =
  pl_get :: "ustr \<Rightarrow> (ustr + reply) \<times> duration"
  pl_post :: "nat \<Rightarrow> ustr \<Rightarrow> json \<Rightarrow> (ustr + reply) \<times> duration"
  pl_stream :: "nat \<Rightarrow> ustr \<Rightarrow> json \<Rightarrow> (ustr + reply) \<times> stream_item list \<times> duration"
  pl_parse_error :: "ustr \<Rightarrow> ustr"

definition is_2xx :: "nat \<Rightarrow> bool" where
  "is_2xx s \<longleftrightarrow> 200 \<le> s \<and> s \<le> 299"

definition is_5xx :: "nat \<Rightarrow> bool" where
  "is_5xx s \<longleftrightarrow> 500 \<le> s \<and> s \<le> 599"

definition elapsed_ms :: "duration \<Rightarrow> f64" where
  "elapsed_ms d = fmul (as_secs_f64 d) (Fin 1000)"

definition PLATFORMS_DOCKER_DOCS :: ustr where
  "PLATFORMS_DOCKER_DOCS =
     lit ''https://docs.metrum.ai/metrum-ai-bench-cli/latest/docs/platforms/#serving-stacks-docker-first''"

definition remediation_docker :: ustr where
  "remediation_docker =
     lit ''Prefer vendor Docker for vLLM/SGLang rather than bare-metal pip; see '' @ PLATFORMS_DOCKER_DOCS"

definition remediation_streaming :: ustr where
  "remediation_streaming =
     lit ''Streaming may be broken or gateways may synthesize SSE; check engine flags. '' @
     lit ''For a thinking model, retry with --extra-body-json '' @ [39] @
     lit ''{\"chat_template_kwargs\":{\"enable_thinking\":false}}'' @ [39] @ lit ''. '' @ remediation_docker"

definition pass :: "string \<Rightarrow> ustr \<Rightarrow> preflight_check" where
  "pass name detail = \<lparr>pc_name = name, pc_status = Pass, pc_detail = detail, pc_remediation = None\<rparr>"

definition fail_docker :: "string \<Rightarrow> ustr \<Rightarrow> preflight_check" where
  "fail_docker name detail =
     \<lparr>pc_name = name, pc_status = Fail, pc_detail = detail, pc_remediation = Some remediation_docker\<rparr>"

subsection \<open>The checks\<close>

definition is_control :: "nat \<Rightarrow> bool" where
  "is_control c \<longleftrightarrow> c < 32 \<or> 127 \<le> c \<and> c \<le> 159"

definition truncate_flat :: "ustr \<Rightarrow> nat \<Rightarrow> ustr option" where
  "truncate_flat txt max_len =
     (let flat = map (\<lambda>c. if is_control c then 32 else c) txt in
      if str_len flat \<le> max_len then Some flat else map_option (\<lambda>s. s @ lit ''...'') (slice_to max_len flat))"

definition check_reachability :: "probe_client \<Rightarrow> ustr \<Rightarrow> preflight_check" where
  "check_reachability cl url =
     (case pl_get cl url of
        (Inr r, d) \<Rightarrow>
          (let told = lit ''HTTP '' @ re_status_text r @ lit '' in '' @ fmt_fixed 0 (elapsed_ms d) @ lit '' ms'' in
           if is_5xx (re_status r) then fail_docker ''reachability'' (told @ lit '' (server error on probe)'')
           else pass ''reachability'' told)
      | (Inl err, d) \<Rightarrow> fail_docker ''reachability'' (lit ''connect/request failed: '' @ err))"

text \<open>\<open>expect\<close> panics on an override that is no object.\<close>

definition chat_body :: "ustr \<Rightarrow> bool \<Rightarrow> nat \<Rightarrow> json option \<Rightarrow> json option" where
  "chat_body model streaming max_tokens extra_body =
     (let body = fold (\<lambda>(k, v). bt_insert (lit k) v)
            [(''model'', JString model), (''stream'', JBool streaming), (''max_tokens'', jnat max_tokens),
             (''temperature'', jf64 (Fin 0)),
             (''messages'', JArray [jobject [(''role'', jstr ''user''), (''content'', jstr ''ping'')]])] [] in
      case extra_body of
        None \<Rightarrow> Some (JObject body)
      | Some extra \<Rightarrow> (case merge_extra_body body extra of Inl _ \<Rightarrow> None | Inr b \<Rightarrow> Some (JObject b)))"

definition unary_verdict :: "serde \<Rightarrow> probe_client \<Rightarrow> reply \<Rightarrow> duration \<Rightarrow> preflight_check option" where
  "unary_verdict sj cl r d =
     (let ms = fmt_fixed 0 (elapsed_ms d) @ lit '' ms'' in
      if \<not> is_2xx (re_status r) then
        map_option (\<lambda>s. fail_docker ''chat_probe'' (lit ''HTTP '' @ re_status_text r @ lit '' in '' @ ms @ lit '': '' @ s))
          (truncate_flat (re_body r) 160)
      else (case from_str sj (re_body r) of
          Some v \<Rightarrow>
            Some (if jget v ''choices'' \<noteq> None then pass ''chat_probe'' (lit ''unary chat OK in '' @ ms)
              else \<lparr>pc_name = ''chat_probe'', pc_status = Warn,
                pc_detail = lit ''HTTP 2xx without choices in '' @ ms @ lit '' (non-OpenAI shape?)'',
                pc_remediation = Some (lit ''Confirm --url points at an OpenAI-compatible /v1/chat/completions path'')\<rparr>)
        | None \<Rightarrow> Some (fail_docker ''chat_probe'' (lit ''invalid JSON body ('' @ pl_parse_error cl (re_body r) @ lit '')''))))"

text \<open>Calls are numbered in the order they are made.\<close>

definition check_chat_unary ::
  "serde \<Rightarrow> probe_client \<Rightarrow> ustr \<Rightarrow> ustr \<Rightarrow> json option \<Rightarrow> preflight_check option" where
  "check_chat_unary sj cl url model extra =
     Option.bind (chat_body model False 4 extra) (\<lambda>body.
       case pl_post cl 0 url body of
         (Inr r, d) \<Rightarrow> unary_verdict sj cl r d
       | (Inl err, d) \<Rightarrow> Some (fail_docker ''chat_probe'' (lit ''request failed: '' @ err)))"

definition streaming_check :: "request_error + chat_stream_result \<Rightarrow> preflight_check" where
  "streaming_check result =
     (case result of
        Inr r \<Rightarrow>
          (case (r_ttft r, r_first_reasoning r) of
             (Some ttft, _) \<Rightarrow>
               pass ''streaming_first_token'' (lit ''first visible token in '' @ fmt_fixed 0 (elapsed_ms ttft) @ lit '' ms'')
           | (None, Some reasoning) \<Rightarrow>
               pass ''streaming_first_token''
                 (lit ''first token was reasoning in '' @ fmt_fixed 0 (elapsed_ms reasoning) @
                  lit '' ms (no visible content within the probe'' @ [39] @ lit ''s max_tokens)'')
           | (None, None) \<Rightarrow>
               \<lparr>pc_name = ''streaming_first_token'', pc_status = Fail,
                pc_detail = lit ''stream finished without a visible output or reasoning token'',
                pc_remediation = Some remediation_streaming\<rparr>)
      | Inl err \<Rightarrow>
          \<lparr>pc_name = ''streaming_first_token'', pc_status = Fail,
           pc_detail = lit ''stream smoke failed: '' @ display_error err, pc_remediation = Some remediation_streaming\<rparr>)"

definition check_streaming_first_token ::
  "serde \<Rightarrow> probe_client \<Rightarrow> ustr \<Rightarrow> ustr \<Rightarrow> json option \<Rightarrow> preflight_check option" where
  "check_streaming_first_token sj cl url model extra =
     Option.bind (chat_body model True 8 extra) (\<lambda>body.
       case pl_stream cl 1 url body of
         (Inl err, _) \<Rightarrow> Some (fail_docker ''streaming_first_token'' (lit ''request failed: '' @ err))
       | (Inr r, items, latency) \<Rightarrow>
           if \<not> is_2xx (re_status r) then
             map_option (\<lambda>s. fail_docker ''streaming_first_token'' (lit ''HTTP '' @ re_status_text r @ lit '': '' @ s))
               (truncate_flat (re_body r) 160)
           else Some (streaming_check (consume_with_options sj items latency True False)))"

text \<open>The loop of the latency samples: its first failure, or the readings.\<close>

fun latency_loop :: "probe_client \<Rightarrow> ustr \<Rightarrow> json \<Rightarrow> nat list \<Rightarrow> f64 list \<Rightarrow> preflight_check + f64 list" where
  "latency_loop cl url body [] acc = Inr acc"
| "latency_loop cl url body (n # ns) acc =
     (case pl_post cl n url body of
        (Inr r, d) \<Rightarrow>
          if is_2xx (re_status r) then latency_loop cl url body ns (acc @ [elapsed_ms d])
          else Inl (fail_docker ''latency_sample'' (lit ''sample HTTP '' @ re_status_text r))
      | (Inl err, d) \<Rightarrow> Inl (fail_docker ''latency_sample'' (lit ''sample failed: '' @ err)))"

definition latency_verdict :: "nat \<Rightarrow> f64 list \<Rightarrow> preflight_check" where
  "latency_verdict samples readings =
     (let sorted_ms = sort readings; median = sorted_ms ! (length sorted_ms div 2);
          slow = flt (Fin 30000) median in
      \<lparr>pc_name = ''latency_sample'', pc_status = (if slow then Warn else Pass),
       pc_detail = lit ''n='' @ show_nat samples @ lit '' median='' @ fmt_fixed 0 median @ lit '' ms (min='' @
         fmt_fixed 0 (unwrap_or (hd_opt sorted_ms) (Fin 0)) @ lit '' max='' @
         fmt_fixed 0 (unwrap_or (last_opt sorted_ms) (Fin 0)) @ lit '')'',
       pc_remediation = (if slow then Some (lit
         ''Median unary latency over 30s; check cold load, WAN RTT, or serve path (Docker-first Platforms docs)'')
         else None)\<rparr>)"

definition check_latency_sample ::
  "probe_client \<Rightarrow> ustr \<Rightarrow> ustr \<Rightarrow> nat \<Rightarrow> json option \<Rightarrow> preflight_check option" where
  "check_latency_sample cl url model samples extra =
     map_option (\<lambda>body.
         case latency_loop cl url body [2..<2 + samples] [] of
           Inl c \<Rightarrow> c
         | Inr readings \<Rightarrow> latency_verdict samples readings)
       (chat_body model False 4 extra)"

subsection \<open>The report\<close>

datatype preflight_error = ExtraNotObject | ExtraNotJson | ClientNotBuilt | RuntimeNotStarted

definition LIMITS :: string where
  "LIMITS = ''Client HTTP probes only. Cannot observe CUDA toolkit, compiler, SM vs wheel, or remote GPU inventory. Prefer vendor Docker images on the serving host.''"

definition skipped :: "string \<Rightarrow> preflight_check" where
  "skipped name = fail_docker name (lit ''skipped: endpoint not reachable'')"

definition preflight_checks ::
  "serde \<Rightarrow> probe_client \<Rightarrow> ustr \<Rightarrow> ustr \<Rightarrow> nat \<Rightarrow> json option \<Rightarrow> preflight_check list option" where
  "preflight_checks sj cl chat_url model samples extra =
     (let reach = check_reachability cl chat_url in
      if pc_status reach = Pass then
        Option.bind (check_chat_unary sj cl chat_url model extra) (\<lambda>unary.
        Option.bind (check_streaming_first_token sj cl chat_url model extra) (\<lambda>streaming.
        Option.bind (check_latency_sample cl chat_url model (max samples 1) extra) (\<lambda>latency.
          Some [reach, unary, streaming, latency])))
      else Some [reach, skipped ''chat_probe'', skipped ''streaming_first_token'', skipped ''latency_sample''])"

text \<open>\<open>build_http_client\<close> fails with \<open>built = None\<close>.\<close>

definition run_preflight ::
  "serde \<Rightarrow> probe_client option \<Rightarrow> ustr \<Rightarrow> ustr \<Rightarrow> nat \<Rightarrow> json option \<Rightarrow> (preflight_error + preflight_report) option" where
  "run_preflight sj built url model samples extra =
     (if (case extra of Some e \<Rightarrow> as_object e = None | None \<Rightarrow> False) then Some (Inl ExtraNotObject)
      else (case built of
          None \<Rightarrow> Some (Inl ClientNotBuilt)
        | Some cl \<Rightarrow>
            map_option (\<lambda>checks. Inr
                \<lparr>pr_schema_version = ''metrum-ai-bench-cli.preflight.v1'', pr_url = normalize_chat_url url,
                 pr_model = model, pr_checks = checks,
                 pr_all_passed = list_all (\<lambda>c. pc_status c \<noteq> Fail) checks, pr_limits = LIMITS\<rparr>)
              (preflight_checks sj cl (normalize_chat_url url) model samples extra)))"

definition run_preflight_blocking ::
  "serde \<Rightarrow> bool \<Rightarrow> probe_client option \<Rightarrow> ustr \<Rightarrow> ustr \<Rightarrow> nat \<Rightarrow> ustr option \<Rightarrow> (preflight_error + preflight_report) option" where
  "run_preflight_blocking sj runtime built url model samples extra_json =
     (case (case extra_json of
          None \<Rightarrow> Inr None
        | Some raw \<Rightarrow>
            (case from_str sj raw of
               None \<Rightarrow> Inl ExtraNotJson
             | Some v \<Rightarrow> if as_object v = None then Inl ExtraNotObject else Inr (Some v))) of
        Inl e \<Rightarrow> Some (Inl e)
      | Inr extra \<Rightarrow>
          if runtime then run_preflight sj built url model samples extra else Some (Inl RuntimeNotStarted))"

definition exit_failure :: "preflight_report \<Rightarrow> bool" where
  "exit_failure report \<longleftrightarrow> \<not> pr_all_passed report"

definition pad_right :: "nat \<Rightarrow> nat \<Rightarrow> ustr \<Rightarrow> ustr" where
  "pad_right fill w s = s @ replicate (w - length s) fill"

definition status_text :: "check_status \<Rightarrow> ustr" where
  "status_text s = (case s of Pass \<Rightarrow> lit ''PASS'' | Fail \<Rightarrow> lit ''FAIL'' | Warn \<Rightarrow> lit ''WARN'')"

definition format_table :: "preflight_report \<Rightarrow> ustr" where
  "format_table report =
     lit ''preflight: '' @ pr_url report @ lit ''  model='' @ pr_model report @ [10] @
     pad_right 32 24 (lit ''CHECK'') @ [32] @ pad_right 32 6 (lit ''STATUS'') @ [32] @ lit ''DETAIL'' @ [10] @
     pad_right 45 24 [] @ [32] @ pad_right 45 6 [] @ [32] @ pad_right 45 40 [] @ [10] @
     concat (map (\<lambda>c.
         pad_right 32 24 (lit (pc_name c)) @ [32] @ pad_right 32 6 (status_text (pc_status c)) @ [32] @ pc_detail c @ [10] @
         (case pc_remediation c of None \<Rightarrow> [] | Some rem \<Rightarrow> lit ''  remediation: '' @ rem @ [10]))
       (pr_checks report)) @
     [10] @ lit ''limits: '' @ lit (pr_limits report) @ [10] @
     (if pr_all_passed report then lit ''preflight: ok'' else lit ''preflight: FAILED'') @ [10]"

subsection \<open>Is the model listed?\<close>

definition MODEL_ID_ECHO_CAP :: nat where
  "MODEL_ID_ECHO_CAP = 50"

record model_preflight_report =
  mp_schema_version :: string
  mp_endpoint_url :: ustr
  mp_models_url :: ustr
  mp_model :: ustr
  mp_validated_alias :: "ustr option"
  mp_listed :: bool
  mp_http_status :: "nat option"
  mp_server_model_ids :: "ustr list"
  mp_detail :: ustr

definition checked_id :: "model_preflight_report \<Rightarrow> ustr" where
  "checked_id r = unwrap_or (mp_validated_alias r) (mp_model r)"

text \<open>The error of the client, or the status, the text of the body and the body as JSON or the
  reader's error. URLs in errors are stripped by the client.\<close>

datatype models_answer = Unanswered ustr | Answered nat ustr "ustr + json"

definition model_ids :: "json \<Rightarrow> ustr list" where
  "model_ids body = (case get_array body ''data'' of None \<Rightarrow> [] | Some es \<Rightarrow> List.map_filter (\<lambda>e. get_str e ''id'') es)"

definition echoed_ids :: "ustr list \<Rightarrow> ustr list" where
  "echoed_ids ids =
     (if MODEL_ID_ECHO_CAP < length ids
      then take MODEL_ID_ECHO_CAP ids @ [lit ''(+'' @ show_nat (length ids - MODEL_ID_ECHO_CAP) @ lit '' more)'']
      else ids)"

definition quoted :: "ustr \<Rightarrow> ustr" where
  "quoted s = [39] @ s @ [39]"

definition judge_models :: "serde \<Rightarrow> ustr \<Rightarrow> models_answer \<Rightarrow> model_preflight_report \<Rightarrow> model_preflight_report" where
  "judge_models sj shown answer report =
     (case answer of
        Unanswered err \<Rightarrow> report\<lparr>mp_detail := lit ''GET '' @ shown @ lit '' failed: '' @ err\<rparr>
      | Answered status txt body \<Rightarrow>
          (let r1 = report\<lparr>mp_http_status := Some status\<rparr> in
           if \<not> is_2xx status then
             (let snippet = take 200 txt in
              r1\<lparr>mp_detail := lit ''GET '' @ shown @ lit '' returned HTTP '' @ show_nat status @ lit '': '' @
                (if snippet = [] then lit ''<empty body>'' else snippet)\<rparr>)
           else (case body of
               Inl err \<Rightarrow>
                 r1\<lparr>mp_detail := lit ''GET '' @ shown @ lit '' succeeded but the body is not the expected '' @
                   lit ''{\"data\":[{\"id\"}...]} JSON: '' @ err\<rparr>
             | Inr v \<Rightarrow>
                 (let ids = model_ids v; listed = checked_id report \<in> set ids in
                  if ids = [] then
                    r1\<lparr>mp_detail := lit ''GET '' @ shown @ lit '' returned no model ids (body: '' @ to_string sj v @ lit '')''\<rparr>
                  else r1\<lparr>mp_listed := listed, mp_server_model_ids := echoed_ids ids,
                    mp_detail := quoted (checked_id report) @
                      (if listed then lit '' is listed at '' else lit '' is NOT listed at '') @ shown\<rparr>))))"

definition validate_model_listed ::
  "serde \<Rightarrow> 'u url_ops \<Rightarrow> (ustr \<Rightarrow> models_answer) \<Rightarrow> ustr \<Rightarrow> ustr \<Rightarrow> ustr option \<Rightarrow> model_preflight_report" where
  "validate_model_listed sj ops get_models endpoint_url model alias =
     (let models_url = derive_models_url endpoint_url in
      judge_models sj (redact_url ops models_url) (get_models models_url)
        \<lparr>mp_schema_version = ''metrum-ai-bench-cli.model-preflight.v1'', mp_endpoint_url = redact_url ops endpoint_url,
         mp_models_url = redact_url ops models_url, mp_model = model, mp_validated_alias = alias, mp_listed = False,
         mp_http_status = None, mp_server_model_ids = [], mp_detail = []\<rparr>)"

subsection \<open>When the checks pass\<close>

lemma check_reachability_Pass:
  "pc_status (check_reachability cl url) = Pass \<longleftrightarrow> (\<exists>r d. pl_get cl url = (Inr r, d) \<and> \<not> is_5xx (re_status r))"
  by (auto simp: check_reachability_def pass_def fail_docker_def Let_def split: prod.splits sum.splits)

lemma check_reachability_Fail:
  "pc_status (check_reachability cl url) \<noteq> Fail \<longleftrightarrow> pc_status (check_reachability cl url) = Pass"
  by (auto simp: check_reachability_def pass_def fail_docker_def Let_def split: prod.splits sum.splits)

lemma check_chat_unary_ok:
  "check_chat_unary sj cl url model extra = Some c \<Longrightarrow> pc_status c \<noteq> Fail \<longleftrightarrow>
     (\<exists>body r d v. chat_body model False 4 extra = Some body \<and> pl_post cl 0 url body = (Inr r, d) \<and> is_2xx (re_status r) \<and>
        from_str sj (re_body r) = Some v)"
proof -
  assume c: "check_chat_unary sj cl url model extra = Some c"
  then obtain body where body: "chat_body model False 4 extra = Some body"
    by (auto simp: check_chat_unary_def bind_eq_Some_conv)
  obtain answer d where answer: "pl_post cl 0 url body = (answer, d)" by (cases "pl_post cl 0 url body")
  show ?thesis
  proof (cases answer)
    case (Inl err)
    then have "pc_status c = Fail" using c body answer by (auto simp: check_chat_unary_def fail_docker_def)
    then show ?thesis using Inl body answer by simp
  next
    case (Inr r)
    then have "unary_verdict sj cl r d = Some c" using c body answer by (simp add: check_chat_unary_def)
    then have "pc_status c \<noteq> Fail \<longleftrightarrow> is_2xx (re_status r) \<and> from_str sj (re_body r) \<noteq> None"
      by (auto simp: unary_verdict_def pass_def fail_docker_def Let_def split: if_splits option.splits)
    then show ?thesis using Inr body answer by auto
  qed
qed

lemma streaming_check_ok:
  "pc_status (streaming_check res) \<noteq> Fail \<longleftrightarrow> (\<exists>r. res = Inr r \<and> (r_ttft r \<noteq> None \<or> r_first_reasoning r \<noteq> None))"
  by (auto simp: streaming_check_def pass_def split: sum.splits option.splits)

lemma check_streaming_ok:
  "check_streaming_first_token sj cl url model extra = Some c \<Longrightarrow> pc_status c \<noteq> Fail \<longleftrightarrow>
     (\<exists>body r items latency res. chat_body model True 8 extra = Some body \<and>
        pl_stream cl 1 url body = (Inr r, items, latency) \<and> is_2xx (re_status r) \<and>
        consume_with_options sj items latency True False = Inr res \<and> (r_ttft res \<noteq> None \<or> r_first_reasoning res \<noteq> None))"
proof -
  assume c: "check_streaming_first_token sj cl url model extra = Some c"
  then obtain body where body: "chat_body model True 8 extra = Some body"
    by (auto simp: check_streaming_first_token_def bind_eq_Some_conv)
  obtain answer items latency where answer: "pl_stream cl 1 url body = (answer, items, latency)" by (metis prod_cases3)
  show ?thesis
  proof (cases "\<exists>r. answer = Inr r \<and> is_2xx (re_status r)")
    case True
    then have "c = streaming_check (consume_with_options sj items latency True False)"
      using c body answer by (auto simp: check_streaming_first_token_def)
    then show ?thesis using streaming_check_ok True body answer by auto
  next
    case False
    then have "pc_status c = Fail"
      using c body answer by (auto simp: check_streaming_first_token_def fail_docker_def split: sum.splits)
    then show ?thesis using False body answer by auto
  qed
qed

lemma latency_loop_Inr:
  "(\<exists>readings. latency_loop cl url body ns acc = Inr readings) \<longleftrightarrow>
     (\<forall>n \<in> set ns. \<exists>r d. pl_post cl n url body = (Inr r, d) \<and> is_2xx (re_status r))"
  by (induction cl url body ns acc rule: latency_loop.induct) (auto split: prod.splits sum.splits)

lemma latency_loop_Inl: "latency_loop cl url body ns acc = Inl c \<Longrightarrow> pc_status c = Fail"
  by (induction cl url body ns acc rule: latency_loop.induct)
     (auto simp: fail_docker_def split: prod.splits sum.splits if_splits)

lemma check_latency_ok:
  assumes "check_latency_sample cl url model samples extra = Some c"
  shows "pc_status c \<noteq> Fail \<longleftrightarrow>
     (\<exists>body. chat_body model False 4 extra = Some body \<and>
        (\<forall>n \<in> {2..<2 + samples}. \<exists>r d. pl_post cl n url body = (Inr r, d) \<and> is_2xx (re_status r)))"
proof -
  obtain body where body: "chat_body model False 4 extra = Some body" using assms by (auto simp: check_latency_sample_def)
  have all: "(\<exists>readings. latency_loop cl url body [2..<2 + samples] [] = Inr readings) \<longleftrightarrow>
      (\<forall>n \<in> {2..<2 + samples}. \<exists>r d. pl_post cl n url body = (Inr r, d) \<and> is_2xx (re_status r))"
    using latency_loop_Inr [of cl url body "[2..<2 + samples]" "[]"] by (simp only: set_upt)
  have c: "c = (case latency_loop cl url body [2..<2 + samples] [] of Inl c \<Rightarrow> c | Inr readings \<Rightarrow> latency_verdict samples readings)"
    using assms body by (simp add: check_latency_sample_def)
  show ?thesis
  proof (cases "latency_loop cl url body [2..<2 + samples] []")
    case (Inl x)
    then have "pc_status c = Fail" using c latency_loop_Inl by simp
    then show ?thesis using all Inl body by simp
  next
    case (Inr readings)
    then have "pc_status c \<noteq> Fail" using c by (simp add: latency_verdict_def Let_def)
    then show ?thesis using all Inr body by auto
  qed
qed

lemma preflight_checks_ok:
  assumes "preflight_checks sj cl url model samples extra = Some checks"
  shows "list_all (\<lambda>c. pc_status c \<noteq> Fail) checks \<longleftrightarrow>
    pc_status (check_reachability cl url) = Pass \<and>
    (\<exists>a b c. checks = [check_reachability cl url, a, b, c] \<and> check_chat_unary sj cl url model extra = Some a \<and>
       check_streaming_first_token sj cl url model extra = Some b \<and>
       check_latency_sample cl url model (max samples 1) extra = Some c \<and>
       pc_status a \<noteq> Fail \<and> pc_status b \<noteq> Fail \<and> pc_status c \<noteq> Fail)"
  using assms
  by (auto simp: preflight_checks_def Let_def skipped_def fail_docker_def bind_eq_Some_conv split: if_splits)

text \<open>
  C33: The report of a preflight passes exactly when every probe really succeeded: the endpoint
  answered the first request without a server error, the chat request got a 2xx answer with a JSON
  body, the streamed one a 2xx answer whose stream was read to its end and brought a visible or a
  reasoning token, and each of the latency samples, of which there is at least one, a 2xx answer.
\<close>

theorem preflight_passes_exactly:
  assumes "run_preflight sj (Some cl) url model samples extra = Some (Inr rep)"
  shows "pr_all_passed rep \<longleftrightarrow>
    (\<exists>r d. pl_get cl (pr_url rep) = (Inr r, d) \<and> \<not> is_5xx (re_status r)) \<and>
    (\<exists>body r d v. chat_body model False 4 extra = Some body \<and> pl_post cl 0 (pr_url rep) body = (Inr r, d) \<and>
       is_2xx (re_status r) \<and> from_str sj (re_body r) = Some v) \<and>
    (\<exists>body r items latency res. chat_body model True 8 extra = Some body \<and>
       pl_stream cl 1 (pr_url rep) body = (Inr r, items, latency) \<and> is_2xx (re_status r) \<and>
       consume_with_options sj items latency True False = Inr res \<and> (r_ttft res \<noteq> None \<or> r_first_reasoning res \<noteq> None)) \<and>
    (\<exists>body. chat_body model False 4 extra = Some body \<and>
       (\<forall>n \<in> {2..<2 + max samples 1}. \<exists>r d. pl_post cl n (pr_url rep) body = (Inr r, d) \<and> is_2xx (re_status r)))"
    (is "_ \<longleftrightarrow> ?reach \<and> ?unary \<and> ?stream \<and> ?latency")
proof -
  let ?url = "normalize_chat_url url"
  obtain checks where checks: "preflight_checks sj cl ?url model samples extra = Some checks"
      and rep: "pr_url rep = ?url" "pr_all_passed rep \<longleftrightarrow> list_all (\<lambda>c. pc_status c \<noteq> Fail) checks"
    using assms by (auto simp: run_preflight_def split: if_splits)
  show ?thesis
  proof (cases "pc_status (check_reachability cl ?url) = Pass")
    case False
    then show ?thesis using preflight_checks_ok [OF checks] check_reachability_Pass [of cl ?url] rep by auto
  next
    case True
    then obtain a b c where abc: "check_chat_unary sj cl ?url model extra = Some a"
        "check_streaming_first_token sj cl ?url model extra = Some b"
        "check_latency_sample cl ?url model (max samples 1) extra = Some c" "checks = [check_reachability cl ?url, a, b, c]"
      using checks by (auto simp: preflight_checks_def Let_def bind_eq_Some_conv)
    have "pr_all_passed rep \<longleftrightarrow> pc_status a \<noteq> Fail \<and> pc_status b \<noteq> Fail \<and> pc_status c \<noteq> Fail"
      using rep(2) abc(4) True by simp
    moreover have ?reach using True check_reachability_Pass rep(1) by simp
    ultimately show ?thesis
      using check_chat_unary_ok [OF abc(1)] check_streaming_ok [OF abc(2)] check_latency_ok [OF abc(3)] rep(1) by simp
  qed
qed

definition demo_client :: "nat \<Rightarrow> probe_client" where
  "demo_client failing =
     \<lparr>pl_get = (\<lambda>_. (Inr \<lparr>re_status = 404, re_status_text = lit ''404 Not Found'', re_body = []\<rparr>, 5000000)),
      pl_post = (\<lambda>n _ _. if n = failing then (Inl (lit ''reset''), 0)
        else (Inr \<lparr>re_status = 200, re_status_text = lit ''200 OK'', re_body = lit ''use''\<rparr>, 7000000)),
      pl_stream = (\<lambda>_ _ _. (Inr \<lparr>re_status = 200, re_status_text = lit ''200 OK'', re_body = []\<rparr>, frame_items demo_frames, 90)),
      pl_parse_error = (\<lambda>_. [])\<rparr>"

lemma demo_stream: "consume_with_options demo_serde (frame_items demo_frames) 90 True False = Inr demo_result"
proof -
  let ?c0 = "consumer_default\<lparr>trace := None\<rparr>"
  have "case read_frames demo_serde ?c0 demo_frames of
      (c, e, n) \<Rightarrow> e = None \<and> finish c 90 True = Inr demo_result" by code_simp
  then obtain c n where "read_frames demo_serde ?c0 demo_frames = (c, None, n)"
    "finish c 90 True = Inr demo_result" by auto
  moreover have "parser ?c0 = sse_new" by (simp add: consumer_default_def)
  ultimately show ?thesis
    using read_body_frames [OF demo_payloads(1), of ?c0 demo_serde]
    by (simp add: consume_with_options_def consume_preserving_usage_def consume_with_clock_def)
qed

lemma demo_preflight: "\<exists>rep. run_preflight demo_serde (Some (demo_client n)) (lit ''http://h'') (lit ''m'') 3 None = Some (Inr rep)"
proof -
  have "\<exists>body. chat_body (lit ''m'') b k None = Some body" for b k by (simp add: chat_body_def Let_def)
  moreover obtain v where "from_str demo_serde (lit ''use'') = Some v" by (simp add: demo_serde_def)
  ultimately show ?thesis
    by (auto simp: run_preflight_def preflight_checks_def Let_def check_chat_unary_def check_streaming_first_token_def
        check_latency_sample_def demo_client_def unary_verdict_def is_2xx_def demo_stream bind_eq_Some_conv)
qed

theorem preflight_passes_exactly_witness:
  "\<exists>rep. run_preflight demo_serde (Some (demo_client 3)) (lit ''http://h'') (lit ''m'') 3 None = Some (Inr rep) \<and>
     \<not> pr_all_passed rep"
proof -
  obtain rep where rep: "run_preflight demo_serde (Some (demo_client 3)) (lit ''http://h'') (lit ''m'') 3 None = Some (Inr rep)"
    using demo_preflight by blast
  have "(3 :: nat) \<in> {2..<2 + max 3 1} \<and> (\<forall>url body r d. pl_post (demo_client 3) 3 url body \<noteq> (Inr r, d))"
    by (simp add: demo_client_def)
  then have "\<not> pr_all_passed rep" unfolding preflight_passes_exactly [OF rep] by blast
  then show ?thesis using rep by blast
qed

text \<open>
  The body of an error answer is cut at a byte index: one whose character covers that index
  panics the probe instead of being reported.
\<close>

lemma error_body_splits_character: "truncate_flat (replicate 159 97 @ [233, 97]) 160 = None"
  by code_simp

subsection \<open>The models URL\<close>

lemma contains_sub_step:
  assumes "\<not> contains_sub (c # p) b" and "c \<notin> set p" and "\<not> contains_sub (c # p) (c # q)"
  shows "\<not> contains_sub (c # p) (b @ c # q)"
proof
  assume "contains_sub (c # p) (b @ c # q)"
  then obtain x y where xy: "b @ c # q = x @ (c # p) @ y" by (auto simp: contains_sub_iff)
  then obtain us where "b = x @ us \<and> us @ c # q = (c # p) @ y \<or> b @ us = x \<and> c # q = us @ (c # p) @ y"
    by (auto simp: append_eq_append_conv2)
  then show False
  proof
    assume us: "b @ us = x \<and> c # q = us @ (c # p) @ y"
    then show False using assms(3) unfolding contains_sub_iff by blast
  next
    assume us: "b = x @ us \<and> us @ c # q = (c # p) @ y"
    then obtain vs where "us = (c # p) @ vs \<or> us @ vs = c # p \<and> c # q = vs @ y"
      using append_eq_append_conv2 [of us "c # q" "c # p" y] by blast
    then show False
    proof
      assume "us = (c # p) @ vs"
      then show False using assms(1) us unfolding contains_sub_iff by blast
    next
      assume vs: "us @ vs = c # p \<and> c # q = vs @ y"
      show False
      proof (cases "us = [] \<or> vs = []")
        case True
        then show False
        proof
          assume "us = []"
          then show False using us assms(3) unfolding contains_sub_iff by (metis append_Nil)
        next
          assume "vs = []"
          then show False using vs us assms(1) unfolding contains_sub_iff by (metis append.right_neutral)
        qed
      next
        case False
        then have "c \<in> set vs" "set vs \<subseteq> set p" using vs by (cases vs; cases us; auto)+
        then show False using assms(2) by blast
      qed
    qed
  qed
qed

lemma find_rev_upt: "k < n \<Longrightarrow> P k \<Longrightarrow> \<forall>i. k < i \<and> i < n \<longrightarrow> \<not> P i \<Longrightarrow> find P (rev [0..<n]) = Some k"
proof (induction n)
  case (Suc n)
  then show ?case by (cases "k = n") auto
qed simp

lemma find_sub_fresh: "c \<notin> set a \<Longrightarrow> find_sub (c # p) (a @ c # p @ s) = Some (length a)"
  by (induction a) (auto simp: starts_with_iff split: list.splits)

lemma split_once_fresh: "c \<notin> set a \<Longrightarrow> split_once c (a @ c # s) = Some (a, s)"
  by (induction a) auto

lemma trim_slashes_id: "s \<noteq> [] \<Longrightarrow> last s \<noteq> 47 \<Longrightarrow> trim_slashes s = s"
  by (cases s rule: rev_cases) (auto simp: trim_slashes_def)

lemma trim_slashes_snoc: "trim_slashes (s @ [47]) = trim_slashes s"
  by (simp add: trim_slashes_def)

lemma v1_text: "lit ''/v1'' = 47 # [118, 49]" "lit ''/v1/'' = lit ''/v1'' @ [47]" "lit ''://'' = 58 # [47, 47]"
    "lit ''/v1/chat/completions'' = 47 # lit ''v1/chat/completions''"
    "lit ''/v1/chat/completions'' = lit ''/v1'' @ lit ''/chat/completions''" "lit ''/v1/models'' = lit ''/v1'' @ lit ''/models''"
    "lit ''/v1/chat/completions'' = lit ''/v1/chat'' @ lit ''/completions''"
    "lit ''/chat/completions'' = lit ''/chat'' @ lit ''/completions''" "lit ''/completions'' = 47 # lit ''completions''"
    "last (lit ''/v1/chat/completions'') = 115"
  by code_simp+

lemma v1_scan: "\<forall>j \<in> set [1..<20]. \<not> v1_segment (lit ''/v1/chat/completions'') j"
    "length (lit ''/v1/chat/completions'') = 20" "v1_segment (lit ''/v1/chat/completions'') 0"
    "\<not> contains_sub (lit ''/completions'') (lit ''/v1'')" "47 \<notin> set (lit ''completions'')"
  by code_simp+

definition serving_base :: "ustr \<Rightarrow> ustr \<Rightarrow> ustr \<Rightarrow> bool" where
  "serving_base base scheme rest \<longleftrightarrow>
     base = scheme @ lit ''://'' @ rest \<and> scheme \<noteq> [] \<and> 58 \<notin> set scheme \<and> \<not> is_whitespace (hd scheme) \<and>
     rest \<noteq> [] \<and> last rest \<noteq> 47 \<and> \<not> is_whitespace (last rest) \<and>
     \<not> contains_sub (lit ''/completions'') base \<and> \<not> ends_with (lit ''/v1'') base"

lemma split_prefix_base:
  assumes "58 \<notin> set scheme"
  shows "split_prefix (scheme @ lit ''://'' @ rest @ 47 # s) =
    (scheme @ lit ''://'' @ takeWhile (\<lambda>c. c \<noteq> 47) rest, dropWhile (\<lambda>c. c \<noteq> 47) rest @ 47 # s)"
proof -
  let ?auth = "takeWhile (\<lambda>c. c \<noteq> 47) rest" and ?path = "dropWhile (\<lambda>c. c \<noteq> 47) rest"
  have scheme: "split_scheme (scheme @ lit ''://'' @ rest @ 47 # s) = Some (scheme, rest @ 47 # s)"
    using find_sub_fresh [OF assms, of "[47, 47]"] by (simp add: split_scheme_def v1_text(3))
  have fresh: "47 \<notin> set ?auth" by (auto dest: set_takeWhileD)
  have "split_once 47 (rest @ 47 # s) = Some (?auth, tl (?path @ 47 # s))"
  proof (cases ?path)
    case Nil
    then have "rest = ?auth" by (metis append.right_neutral takeWhile_dropWhile_id)
    then show ?thesis unfolding Nil using split_once_fresh [OF fresh, of s] by (metis append_Nil list.sel(3))
  next
    case (Cons c p)
    have "hd ?path = 47" using Cons hd_dropWhile [of "\<lambda>c. c \<noteq> 47" rest] by force
    then have "?path = 47 # p" using Cons by simp
    then have "rest @ 47 # s = ?auth @ 47 # (p @ 47 # s)"
      using takeWhile_dropWhile_id [of "\<lambda>c. c \<noteq> 47" rest] by (metis append.assoc append_Cons)
    then have "split_once 47 (rest @ 47 # s) = Some (?auth, p @ 47 # s)" using split_once_fresh [OF fresh, of "p @ 47 # s"] by metis
    then show ?thesis using Cons by simp
  qed
  moreover have "hd (?path @ 47 # s) = 47" using hd_dropWhile [of "\<lambda>c. c \<noteq> 47" rest]
    by (cases "?path = []") (auto simp: hd_append simp del: dropWhile_eq_Nil_conv)
  then have "47 # tl (?path @ 47 # s) = ?path @ 47 # s" by (metis append_is_Nil_conv list.collapse list.distinct(1))
  ultimately show ?thesis by (simp add: split_prefix_def scheme)
qed

lemma derive_models_url_base:
  assumes "serving_base base scheme rest"
  shows "derive_models_url (base @ lit ''/v1/chat/completions'') = base @ lit ''/v1/models''"
proof -
  let ?s = "lit ''/v1/chat/completions''" and ?path = "dropWhile (\<lambda>c. c \<noteq> 47) rest"
  have base: "base = scheme @ lit ''://'' @ rest" "58 \<notin> set scheme" "scheme \<noteq> []" "\<not> is_whitespace (hd scheme)"
    using assms by (auto simp: serving_base_def)
  have "trim (base @ ?s) = base @ ?s"
    using base(1,3,4) v1_text(10) by (intro trim_id) (auto simp: is_whitespace_def)
  moreover have "trim_slashes (base @ ?s) = base @ ?s" using v1_text(10) by (intro trim_slashes_id) auto
  moreover have "split_prefix (base @ ?s) = (scheme @ lit ''://'' @ takeWhile (\<lambda>c. c \<noteq> 47) rest, ?path @ ?s)"
    using split_prefix_base [OF base(2), of rest "lit ''v1/chat/completions''"] by (simp add: base(1) v1_text(4))
  moreover have "find (v1_segment (?path @ ?s)) (rev [0..<length (?path @ ?s)]) = Some (length ?path)"
  proof (intro find_rev_upt allI impI)
    have shift: "v1_segment (?path @ ?s) (length ?path + j) = v1_segment ?s j" for j by (simp add: v1_segment_def)
    show "length ?path < length (?path @ ?s)" using v1_scan(2) by simp
    show "v1_segment (?path @ ?s) (length ?path)" using shift [of 0] v1_scan(3) by simp
    fix i assume i: "length ?path < i \<and> i < length (?path @ ?s)"
    then have "i - length ?path \<in> set [1..<20]" using v1_scan(2) by auto
    then show "\<not> v1_segment (?path @ ?s) i" using v1_scan(1) shift [of "i - length ?path"] i by auto
  qed
  moreover have "take (length ?path + 3) (?path @ ?s) = ?path @ lit ''/v1''" by (simp add: v1_text(1,5))
  ultimately show ?thesis by (simp add: derive_models_url_def base(1) v1_text(6))
qed

text \<open>
  Every way to name one server leads to the same endpoints: for a base URL with any path prefix,
  the base with or without a final slash, with \<open>/v1\<close> or with the full chat path is normalized to
  the base's chat URL, and the models URL derived from that keeps the prefix.
\<close>

lemma models_url_of_chat_url:
  assumes "serving_base base scheme rest"
    and "url \<in> {base, base @ [47], base @ lit ''/v1'', base @ lit ''/v1/'', base @ lit ''/v1/chat/completions''}"
  shows "normalize_chat_url url = base @ lit ''/v1/chat/completions'' \<and>
    derive_models_url (normalize_chat_url url) = base @ lit ''/v1/models''"
proof -
  have base: "base \<noteq> []" "\<not> is_whitespace (hd base)" "\<not> is_whitespace (last base)" "last base \<noteq> 47"
      "\<not> contains_sub (lit ''/completions'') base" "\<not> ends_with (lit ''/v1'') base"
    using assms(1) by (auto simp: serving_base_def)
  have slash: "\<not> is_whitespace 47" "\<not> is_whitespace 49" "\<not> is_whitespace 115" by (simp_all add: is_whitespace_def)
  have "trim url = url"
    using assms(2) base(1-3) slash v1_text(10) by (intro trim_id) (auto simp: v1_text(1,2))
  moreover have "trim_slashes url \<in> {base, base @ lit ''/v1'', base @ lit ''/v1/chat/completions''}"
    using assms(2) base(1,4) v1_text(10) trim_slashes_snoc [of base] trim_slashes_snoc [of "base @ lit ''/v1''"]
    by (auto simp: trim_slashes_id v1_text(1,2))
  moreover have "\<not> contains_sub (lit ''/completions'') (base @ lit ''/v1'')"
    using contains_sub_step [of 47 "lit ''completions''" base "[118, 49]"] base(5) v1_scan(4,5) by (simp add: v1_text(1,9))
  moreover have "contains_sub (lit ''/completions'') (base @ lit ''/v1/chat/completions'')"
    unfolding contains_sub_iff v1_text(7) by (metis append.assoc append.right_neutral)
  moreover have "contains_sub (lit ''/chat/completions'') t \<Longrightarrow> contains_sub (lit ''/completions'') t" for t
    unfolding contains_sub_iff v1_text(8) by (metis append.assoc)
  moreover have "ends_with (lit ''/v1'') (base @ lit ''/v1'')" by (auto simp: ends_with_iff)
  ultimately have "normalize_chat_url url = base @ lit ''/v1/chat/completions''"
    using base(5,6) by (auto simp: normalize_chat_url_def Let_def v1_text(5))
  then show ?thesis using derive_models_url_base [OF assms(1)] by simp
qed

lemma models_url_of_chat_url_example:
  "derive_models_url (normalize_chat_url (lit ''https://proxy.example/llm/'')) = lit ''https://proxy.example/llm/v1/models''"
proof -
  have "serving_base (lit ''https://proxy.example/llm'') (lit ''https'') (lit ''proxy.example/llm'')" by code_simp
  moreover have "lit ''https://proxy.example/llm/'' = lit ''https://proxy.example/llm'' @ [47]"
      "lit ''https://proxy.example/llm/v1/models'' = lit ''https://proxy.example/llm'' @ lit ''/v1/models''" by code_simp+
  ultimately show ?thesis using models_url_of_chat_url by (metis insertI1 insertI2)
qed

end
