(* ===== verification/Endpoints_Export.thy ===== *)
theory Endpoints_Export
  imports Json Stats Sut
begin

text \<open>
  The adapter of a data log to an Endpoints bundle (\<open>src/endpoints_export.rs\<close>): the complete run
  of a log, the source of its first-token times, its metrics with the check against the summary,
  and the files of the bundle. Reading and writing files, the JSON reader and printers, the date
  reader, the digest, \<open>Display\<close> of floats and the escapes of \<open>Debug\<close> are parameters.
\<close>

datatype export_error =
    AmbiguousSummaries
  | OnlyPartialSummaries
  | NoSummary
  | AmbiguousRunIds
  | NoMatchingRows ustr
  | NoMeasuredRows ustr
  | NoWindow
  | LogUnreadable
  | LogInvalid
  | SutInvalid
  | PowerUnreadable
  | PowerInvalid

datatype scenario_kind = Server | Offline | Loadstair | Pareto

record bench_run =
  bn_run_id :: ustr
  bn_summary :: json
  bn_records :: "json list"
  bn_total_records :: nat

subsection \<open>The complete run of a log\<close>

definition schema_has :: "string \<Rightarrow> json \<Rightarrow> bool" where
  "schema_has part row = (case get_str row ''schema_version'' of Some v \<Rightarrow> contains_sub (lit part) v | None \<Rightarrow> False)"

definition is_partial :: "json \<Rightarrow> bool" where
  "is_partial s = unwrap_or (Option.bind (jget s ''partial'') as_bool) False"

definition run_id_of :: "json \<Rightarrow> ustr" where
  "run_id_of summary =
     unwrap_or (Option.bind (option_or (jget summary ''run_id'') (pointer summary [''config'', ''run_id''])) as_str) []"

definition select_rows :: "ustr \<Rightarrow> json list \<Rightarrow> export_error + json list" where
  "select_rows run_id requests =
     (if run_id = [] then
        (if 1 < card (set (List.map_filter (\<lambda>r. get_str r ''run_id'') requests)) then Inl AmbiguousRunIds else Inr requests)
      else Inr (filter (\<lambda>r. get_str r ''run_id'' = Some run_id) requests))"

definition select_complete_run :: "json list \<Rightarrow> export_error + bench_run" where
  "select_complete_run rows =
     (let summaries = filter (schema_has ''.summary.'') rows; complete = filter (\<lambda>s. \<not> is_partial s) summaries in
      if 1 < length complete then Inl AmbiguousSummaries
      else if summaries \<noteq> [] \<and> complete = [] then Inl OnlyPartialSummaries
      else (case complete of
          [] \<Rightarrow> Inl NoSummary
        | summary # _ \<Rightarrow>
            (case select_rows (run_id_of summary) (filter (schema_has ''.request.'') rows) of
               Inl e \<Rightarrow> Inl e
             | Inr selected \<Rightarrow>
                 if selected = [] then Inl (NoMatchingRows (run_id_of summary))
                 else Inr \<lparr>bn_run_id = run_id_of summary, bn_summary = summary,
                   bn_records = filter (\<lambda>r. get_str r ''phase'' = Some (lit ''measure'')) selected,
                   bn_total_records = length selected\<rparr>)))"

subsection \<open>First-token times\<close>

definition f64_field :: "json \<Rightarrow> string \<Rightarrow> f64 option" where
  "f64_field row key = Option.bind (jget row key) as_f64"

definition succeeded :: "json \<Rightarrow> bool" where
  "succeeded row = (case jget row ''error'' of None \<Rightarrow> True | Some e \<Rightarrow> is_null e)"

text \<open>\<open>rsplit_once(pat)\<close> keeps what follows the last occurrence.\<close>

definition after_last :: "ustr \<Rightarrow> ustr \<Rightarrow> ustr option" where
  "after_last pat s = map_option (\<lambda>i. drop (length s - i) s) (find_sub (rev pat) (rev s))"

definition request_version :: "json \<Rightarrow> nat option" where
  "request_version row =
     Option.bind (Option.bind (get_str row ''schema_version'') (after_last (lit ''.request.v'')))
       (\<lambda>v. option_filter (\<lambda>n. n < 2 ^ 32) (parse_u64 v))"

definition provenance_label :: "json \<Rightarrow> string" where
  "provenance_label row =
     (let source = get_str row ''ttft_source''; version = request_version row in
      if source = Some (lit ''first_byte_approx'') then ''HTTP first-byte approximation''
      else if source = Some (lit ''stream'') \<and> version = Some 5 then ''v5 first-any reasoning or visible output delta''
      else if (source = Some (lit ''stream'') \<or> source = None) \<and> (case version of Some v \<Rightarrow> 1 \<le> v \<and> v \<le> 4 | None \<Rightarrow> False)
        then ''historical visible output token''
      else if source = Some (lit ''first_token_fallback'') then ''historical first-token fallback (semantics require review)''
      else ''unknown TTFT provenance'')"

definition has_ttft_sample :: "json \<Rightarrow> bool" where
  "has_ttft_sample row \<longleftrightarrow> succeeded row \<and> (case f64_field row ''ttft_s'' of Some x \<Rightarrow> is_finite x | None \<Rightarrow> False)"

definition ttft_provenance :: "json list \<Rightarrow> ustr" where
  "ttft_provenance rows =
     (let sources = fold (\<lambda>row m. bt_insert (lit (provenance_label row)) () m) (filter has_ttft_sample rows) [] in
      if sources = [] then lit ''no TTFT samples; provenance unavailable'' else join (lit ''; '') (map fst sources))"

subsection \<open>Metrics\<close>

record native_metrics =
  nm_values :: "(ustr, json) btree"
  nm_crosscheck :: "(ustr \<times> f64 option \<times> f64 option \<times> bool) list"

definition pointer_num :: "json \<Rightarrow> string list \<Rightarrow> f64 option" where
  "pointer_num v p = Option.bind (pointer v p) as_f64"

definition values_match :: "f64 option \<Rightarrow> f64 option \<Rightarrow> bool" where
  "values_match record_value summary_value =
     (case (record_value, summary_value) of
        (Some a, Some b) \<Rightarrow> fle (fabs (fsub a b)) (fmul (rnd (1 / 10 ^ 6)) (fmax (fabs a) (Fin 1)))
      | _ \<Rightarrow> True)"

definition metric_json :: "json \<Rightarrow> string \<Rightarrow> ustr \<Rightarrow> ustr \<Rightarrow> json" where
  "metric_json v unit meaning comparability =
     jobject [(''value'', v), (''unit'', jstr unit), (''definition'', JString meaning), (''comparability'', JString comparability)]"

definition put :: "string \<Rightarrow> f64 option \<Rightarrow> string \<Rightarrow> ustr \<Rightarrow> ustr \<Rightarrow> f64 option \<Rightarrow> native_metrics \<Rightarrow> native_metrics" where
  "put name value unit meaning comparability summary_value m =
     m\<lparr>nm_crosscheck := nm_crosscheck m @ [(lit name, value, summary_value, values_match value summary_value)],
       nm_values := bt_insert (lit name) (metric_json (jopt jf64 value) unit meaning comparability) (nm_values m)\<rparr>"

definition put_extra :: "string \<Rightarrow> nat \<Rightarrow> string \<Rightarrow> string \<Rightarrow> native_metrics \<Rightarrow> native_metrics" where
  "put_extra name n meaning comparability m =
     m\<lparr>nm_values := bt_insert (lit name) (metric_json (jnat n) ''requests'' (lit meaning) (lit comparability)) (nm_values m)\<rparr>"

text \<open>Seconds and nanoseconds of an RFC 3339 date, by the date library.\<close>

definition parse_iso_epoch :: "(ustr \<Rightarrow> (int \<times> nat) option) \<Rightarrow> ustr \<Rightarrow> f64 option" where
  "parse_iso_epoch parse_rfc3339 v =
     map_option (\<lambda>(s, ns). fadd (rnd (of_int s)) (fdiv (f_of_nat ns) (Fin 1000000000))) (parse_rfc3339 v)"

definition F64_MAX :: rat where
  "F64_MAX = (2 - 1 / 2 ^ 52) * 2 ^ 1023"

definition epochs :: "(ustr \<Rightarrow> (int \<times> nat) option) \<Rightarrow> string \<Rightarrow> json list \<Rightarrow> f64 list" where
  "epochs parse_rfc3339 key rows =
     List.map_filter (\<lambda>r. Option.bind (get_str r key) (parse_iso_epoch parse_rfc3339)) rows"

definition records_span :: "(ustr \<Rightarrow> (int \<times> nat) option) \<Rightarrow> json list \<Rightarrow> export_error + f64" where
  "records_span parse_rfc3339 rows =
     (let start = foldl fmin (Fin F64_MAX) (epochs parse_rfc3339 ''started_at'' rows);
          stop = foldl fmax (Fin (- F64_MAX)) (epochs parse_rfc3339 ''completed_at'' rows) in
      if is_finite start \<and> is_finite stop \<and> flt start stop then Inr (fsub stop start) else Inl NoWindow)"

definition export_window :: "(ustr \<Rightarrow> (int \<times> nat) option) \<Rightarrow> json \<Rightarrow> json list \<Rightarrow> export_error + f64" where
  "export_window parse_rfc3339 summary rows =
     (case f64_field summary ''window_seconds'' of
        Some w \<Rightarrow> if flt (Fin 0) w then Inr w else records_span parse_rfc3339 rows
      | None \<Rightarrow> records_span parse_rfc3339 rows)"

definition usage_is_missing :: "json \<Rightarrow> bool" where
  "usage_is_missing r = unwrap_or (Option.bind (jget r ''usage_missing'') as_bool) False"

definition usage_sum :: "string \<Rightarrow> json list \<Rightarrow> f64 option" where
  "usage_sum key rows =
     (if list_all (\<lambda>r. \<not> usage_is_missing r) rows then Some (f_sum (List.map_filter (\<lambda>r. f64_field r key) rows)) else None)"

definition tpot_of :: "json \<Rightarrow> f64 option" where
  "tpot_of r =
     (case (f64_field r ''completion_tokens'', f64_field r ''ttft_s'', f64_field r ''latency_s'') of
        (Some n, Some ttft, Some lat) \<Rightarrow>
          if flt (Fin 1) n \<and> flt ttft lat then Some (fdiv (fsub lat ttft) (fsub n (Fin 1))) else None
      | _ \<Rightarrow> None)"

definition percentile_ms :: "f64 list \<Rightarrow> nat \<Rightarrow> f64 option" where
  "percentile_ms xs p = map_option (\<lambda>v. fmul v (Fin 1000)) (percentile_type7 xs (Fin (of_nat p)))"

definition rate_metrics :: "json \<Rightarrow> json list \<Rightarrow> json list \<Rightarrow> f64 \<Rightarrow> native_metrics" where
  "rate_metrics summary rows good window =
     (let output_tokens = usage_sum ''completion_tokens'' good; input_tokens = usage_sum ''prompt_tokens'' good;
          failures = length rows - length good; usage_missing = length (filter usage_is_missing good);
          m1 = put ''requests_s'' (Some (fdiv (f_of_nat (length good)) window)) ''requests/s''
            (lit ''successful measure-phase requests divided by the run window'') (lit ''native-arithmetic'')
            (pointer_num summary [''window_requests_per_second'']) \<lparr>nm_values = [], nm_crosscheck = []\<rparr>;
          m2 = put ''error_rate'' (Some (fdiv (f_of_nat failures) (f_of_nat (max (length rows) 1)))) ''fraction''
            (lit ''failed measure-phase requests divided by all measure-phase requests'') (lit ''native-arithmetic'')
            (pointer_num summary [''error_rate'']) m1;
          m3 = put ''system_output_tok_s'' (map_option (\<lambda>t. fdiv t window) output_tokens) ''output tokens/s''
            (lit ''sum of server-reported completion tokens over successful requests, divided by the run window; absent when any success is usage_missing'')
            (lit ''native-arithmetic (usage-complete only)'') (pointer_num summary [''completion_tokens_per_second'']) m2;
          m4 = put ''total_tok_s''
            (Option.bind input_tokens (\<lambda>i. map_option (\<lambda>t. fdiv (fadd i t) window) output_tokens)) ''tokens/s''
            (lit ''sum of prompt + completion tokens over successful requests, divided by the run window; absent when any success is usage_missing'')
            (lit ''native-arithmetic (usage-complete only)'') None m3 in
      if 0 < usage_missing then
        put_extra ''usage_missing_requests'' usage_missing
          ''successful rows without server token usage; token rates are dropped instead of undercounted'' ''coverage'' m4
      else m4)"

definition put_percentile ::
  "string \<Rightarrow> f64 list \<Rightarrow> nat \<Rightarrow> ustr \<Rightarrow> ustr \<Rightarrow> f64 option \<Rightarrow> native_metrics \<Rightarrow> native_metrics" where
  "put_percentile name xs p meaning comparability summary_value =
     put name (percentile_ms xs p) ''ms'' meaning comparability summary_value"

definition latency_metrics :: "json \<Rightarrow> json list \<Rightarrow> json list \<Rightarrow> native_metrics \<Rightarrow> native_metrics" where
  "latency_metrics summary rows good m =
     (let latency = sort_finite (List.map_filter (\<lambda>r. f64_field r ''latency_s'') good);
          ttft = sort_finite (List.map_filter (\<lambda>r. f64_field r ''ttft_s'') good);
          tpot = sort_finite (List.map_filter tpot_of good);
          ttft_put = (\<lambda>name p key. put_percentile name ttft p (lit ''type-7 percentile of TTFT: '' @ ttft_provenance rows)
            (lit ''flag-definition: bench TTFT provenance varies; Endpoints TTFT semantics differ '' @ [8212] @ lit '' review before comparing'')
            (map_option (\<lambda>v. fmul v (Fin 1000)) (pointer_num summary [''ttft_s'', key])));
          tpot_put = (\<lambda>name p. put_percentile name tpot p
            (lit ''type-7 percentile of per-request (latency '' @ [8722] @ lit '' ttft) / (completion_tokens '' @ [8722] @ lit '' 1)'')
            (lit ''flag-definition: per-request TPOT from bench records; Endpoints TPOT is a steady-state aggregate '' @ [8212] @
             lit '' review before comparing'') None);
          e2e_put = (\<lambda>name p. put_percentile name latency p (lit ''type-7 percentile of send-to-completion latency'')
            (lit ''native-arithmetic'') None) in
      put_extra ''sample_count'' (length good) ''successful measure-phase requests'' ''native-arithmetic''
        (e2e_put ''e2e_p99_ms'' 99 (e2e_put ''e2e_p90_ms'' 90 (e2e_put ''e2e_p50_ms'' 50
          (tpot_put ''tpot_p90_ms'' 90 (tpot_put ''tpot_p50_ms'' 50
            (ttft_put ''ttft_p99_ms'' 99 ''p99'' (ttft_put ''ttft_p90_ms'' 90 ''p90'' (ttft_put ''ttft_p50_ms'' 50 ''p50'' m)))))))))"

definition native_metrics_of :: "(ustr \<Rightarrow> (int \<times> nat) option) \<Rightarrow> bench_run \<Rightarrow> export_error + native_metrics" where
  "native_metrics_of parse_rfc3339 run =
     (let rows = bn_records run; good = filter succeeded rows in
      if rows = [] then Inl (NoMeasuredRows (bn_run_id run))
      else map_sum id (\<lambda>w. latency_metrics (bn_summary run) rows good (rate_metrics (bn_summary run) rows good w))
        (export_window parse_rfc3339 (bn_summary run) rows))"

subsection \<open>The bundle\<close>

definition DISCLAIMER :: ustr where
  "DISCLAIMER = lit
     ''EXPLICITLY NON-CERTIFYING: this bundle was produced by Metrum AI Bench CLI's Endpoints-compatible artifact adapter. It is NOT an MLPerf or Endpoints submission, and bench-native metric definitions (TTFT with input-dependent provenance, per-request TPOT, closed-loop arrival) must not be read as Endpoints metric definitions without a definition review.''"

definition ADAPTER_SCHEMA_VERSION :: string where
  "ADAPTER_SCHEMA_VERSION = ''metrum-ai-bench-cli.endpoints-adapter.v1''"

definition quote_with :: "nat \<Rightarrow> ustr \<Rightarrow> ustr" where
  "quote_with q s = [q] @ s @ [q]"

definition scenario_name :: "scenario_kind \<Rightarrow> string" where
  "scenario_name k = (case k of Server \<Rightarrow> ''Server'' | Offline \<Rightarrow> ''Offline'' | Loadstair \<Rightarrow> ''LoadStair'' | Pareto \<Rightarrow> ''Pareto'')"

definition unsupported_scenario :: "string \<Rightarrow> ustr" where
  "unsupported_scenario name =
     lit name @ lit '' is not a bench load pattern; exported with an explicit unsupported-scenario disclosure. No mapping to a bench arrival process exists.''"

definition scenario_disclosure :: "scenario_kind \<Rightarrow> ustr \<Rightarrow> ustr option" where
  "scenario_disclosure k arrival =
     (case k of
        Server \<Rightarrow> None
      | Offline \<Rightarrow> Some (lit ''Declared Offline on a bench '' @ quote_with 39 arrival @ lit
          '' run: bench has no native Offline burst mode (#309). This point is a closed-loop/fixed-rate run exported with an Offline intent label; it is not a native Offline arrival process.'')
      | Loadstair \<Rightarrow> Some (unsupported_scenario ''LoadStair'')
      | Pareto \<Rightarrow> Some (unsupported_scenario ''Pareto''))"

record export_options =
  xo_sut :: "(sut_error + sut) option"
  xo_workload :: ustr
  xo_scenario :: scenario_kind
  xo_power_desc :: "ustr option option"
  xo_notes :: "ustr option"

record bundle_summary =
  bs_files :: "string list"
  bs_run_id :: ustr
  bs_sample_count :: nat
  bs_scenario_disclosure :: "ustr option"
  bs_warnings :: "ustr list"

record exporter =
  ex_serde :: serde
  ex_rfc3339 :: "ustr \<Rightarrow> (int \<times> nat) option"
  ex_sha256 :: "ustr \<Rightarrow> ustr"
  ex_debug :: "ustr \<Rightarrow> ustr"
  ex_show :: "f64 \<Rightarrow> ustr"
  ex_sut_fields :: "sut \<Rightarrow> (string \<times> json) list"
  ex_version :: ustr

datatype file_body = TextFile ustr | JsonFile json

definition yaml_line :: "string \<Rightarrow> ustr \<Rightarrow> ustr" where
  "yaml_line key v = lit key @ v @ [10]"

definition opt_line :: "string \<Rightarrow> ('a \<Rightarrow> ustr) \<Rightarrow> 'a option \<Rightarrow> ustr" where
  "opt_line key show_v v = (case v of None \<Rightarrow> [] | Some x \<Rightarrow> yaml_line key (show_v x))"

definition point_yaml ::
  "exporter \<Rightarrow> export_options \<Rightarrow> bench_run \<Rightarrow> ustr \<Rightarrow> ustr option \<Rightarrow> ustr \<Rightarrow> ustr \<Rightarrow> ustr" where
  "point_yaml ex xo run tool_version model_id arrival ttft =
     lit ''# '' @ DISCLAIMER @ [10] @ yaml_line ''schema_version: '' (lit ADAPTER_SCHEMA_VERSION) @ lit ''point:'' @ [10] @
     yaml_line ''  tool: '' (lit ''metrum-ai-bench-cli'') @ yaml_line ''  tool_version: '' (quote_with 34 tool_version) @
     yaml_line ''  run_id: '' (quote_with 34 (bn_run_id run)) @
     yaml_line ''  model: '' (case model_id of Some m \<Rightarrow> quote_with 34 m | None \<Rightarrow> lit ''null'') @
     yaml_line ''  workload: '' (quote_with 34 (xo_workload xo)) @
     yaml_line ''  scenario_declared: '' (lit (scenario_name (xo_scenario xo))) @
     yaml_line ''  arrival_observed: '' (quote_with 34 arrival) @
     opt_line ''  scenario_disclosure: '' (ex_debug ex) (scenario_disclosure (xo_scenario xo) arrival) @
     opt_line ''  operator_notes: '' (ex_debug ex) (xo_notes xo) @
     yaml_line ''  ttft_definition: '' (ex_debug ex ttft) @
     lit ''  units:'' @ [10] @ lit ''    latency: ms'' @ [10] @
     lit ''    throughput: output tokens/s or requests/s per metric definition'' @ [10] @
     lit ''    power: W (board power only, declared descriptors only)'' @ [10] @
     lit ''  provenance: bench data log converted by the adapter; see NONCOMPLIANCE.md for the checks that remain impossible'' @ [10]"

definition adapter_head :: "(string \<times> json) list" where
  "adapter_head = [(''schema_version'', jstr ADAPTER_SCHEMA_VERSION), (''disclaimer'', JString DISCLAIMER)]"

definition system_desc :: "exporter \<Rightarrow> sut option \<Rightarrow> json" where
  "system_desc ex decl =
     jobject (adapter_head @ [(''declared_only'', JBool True)] @
       (case decl of
          Some d \<Rightarrow> ex_sut_fields ex d
        | None \<Rightarrow> [(''missing'', JBool True), (''reason'', jstr ''no --sut file provided; nothing is synthesized'')]))"

definition system_power :: "exporter \<Rightarrow> ustr option option \<Rightarrow> export_error + json" where
  "system_power ex desc =
     (case desc of
        None \<Rightarrow> Inr (jobject (adapter_head @ [(''declared'', JBool False),
          (''reason'', jstr ''no operator-declared power descriptors; PDU/whole-system facts are never synthesized by the adapter'')]))
      | Some None \<Rightarrow> Inl PowerUnreadable
      | Some (Some raw) \<Rightarrow>
          (case from_str (ex_serde ex) raw of
             None \<Rightarrow> Inl PowerInvalid
           | Some v \<Rightarrow> Inr (jobject (adapter_head @ [(''declared'', JBool True),
               (''source_file_hash_sha256'', JString (ex_sha256 ex raw)), (''descriptors'', v)]))))"

definition metric_of :: "native_metrics \<Rightarrow> string \<Rightarrow> f64 option" where
  "metric_of m name = Option.bind (bt_get (nm_values m) (lit name)) (\<lambda>v. as_f64 (jindex v ''value''))"

definition bucket_ns :: "native_metrics \<Rightarrow> string \<Rightarrow> json" where
  "bucket_ns m name = jopt jf64 (map_option (\<lambda>v. fmul v (Fin 1000000)) (metric_of m name))"

definition completed_count :: "native_metrics \<Rightarrow> nat" where
  "completed_count m = f_to_usize (unwrap_or (metric_of m ''sample_count'') (Fin 0))"

definition result_summary :: "bench_run \<Rightarrow> native_metrics \<Rightarrow> ustr \<Rightarrow> ustr \<Rightarrow> json" where
  "result_summary run m tool_version ttft =
     (let window = unwrap_or (f64_field (bn_summary run) ''window_seconds'') (Fin 0);
          attempted = length (bn_records run) in
      jobject [(''disclaimer'', JString DISCLAIMER), (''qps'', jopt jf64 (metric_of m ''requests_s'')),
        (''warmup_rows'', jnat (bn_total_records run - length (bn_records run))),
        (''n_samples_issued'', jnat attempted), (''n_samples_completed'', jnat (completed_count m)),
        (''n_samples_failed'', jnat (attempted - completed_count m)),
        (''duration_ns'', jnat (f_to_usize (fmul window (Fin 1000000000)))),
        (''test_datetime'', JString (unwrap_or (get_str (bn_summary run) ''started_at'') [])),
        (''git_sha'', JString tool_version),
        (''result_completed_tokens_per_second'', jopt jf64 (metric_of m ''system_output_tok_s'')),
        (''result_scheduled_samples_per_sec'', jopt jf64 (metric_of m ''requests_s'')),
        (''latency'', jobject [
          (''early_stopping_percentiles'', jobject [(''50.0'', bucket_ns m ''e2e_p50_ms''), (''90.0'', bucket_ns m ''e2e_p90_ms''),
             (''99.0'', bucket_ns m ''e2e_p99_ms'')]),
          (''bench_definition'', jstr ''E2E send-to-completion latency, ns'')]),
        (''ttft'', jobject [
          (''early_stopping_percentiles'', jobject [(''50.0'', bucket_ns m ''ttft_p50_ms''), (''90.0'', bucket_ns m ''ttft_p90_ms''),
             (''99.0'', bucket_ns m ''ttft_p99_ms'')]),
          (''bench_definition'', JString (lit ''bench TTFT, ns: '' @ ttft @
             lit ''; do not equate with Endpoints TTFT without a definition review''))]),
        (''tpot'', jobject [
          (''early_stopping_percentiles'', jobject [(''50.0'', bucket_ns m ''tpot_p50_ms''), (''90.0'', bucket_ns m ''tpot_p90_ms'')]),
          (''bench_definition'', jstr
             ''per-request (latency - ttft) / (completion_tokens - 1) percentile, ns; not a steady-state aggregate'')])])"

definition config_yaml :: "exporter \<Rightarrow> export_options \<Rightarrow> bench_run \<Rightarrow> ustr \<Rightarrow> ustr" where
  "config_yaml ex xo run arrival =
     (let s = bn_summary run; streaming = unwrap_or (Option.bind (pointer s [''config'', ''streaming'']) as_bool) False in
      lit ''# '' @ DISCLAIMER @ [10] @ yaml_line ''version: '' (quote_with 34 (lit ADAPTER_SCHEMA_VERSION)) @
      yaml_line ''type: '' (lit (scenario_name (xo_scenario xo))) @ lit ''model_params:'' @ [10] @
      yaml_line ''  streaming: '' (if streaming then lit ''true'' else lit ''false'') @ lit ''settings:'' @ [10] @
      lit ''  load_pattern:'' @ [10] @ yaml_line ''    type: '' (quote_with 34 arrival) @
      opt_line ''    concurrency: '' show_nat (Option.bind (pointer s [''config'', ''concurrency'']) as_u64) @
      opt_line ''    target_qps: '' (ex_show ex) (pointer_num s [''config'', ''request_rate'']) @
      opt_line ''    disclosure: '' (ex_debug ex) (scenario_disclosure (xo_scenario xo) arrival))"

definition crosscheck_json :: "export_options \<Rightarrow> native_metrics \<Rightarrow> ustr option \<Rightarrow> json" where
  "crosscheck_json xo m model_id =
     jobject (adapter_head @ [(''checker_commit'', jstr ''unavailable''),
       (''scope'', JString (lit ''Adapter-internal cross-check only: record-derived vs summary-derived arithmetic. '' @
          lit ''The study'' @ [39] @ lit ''s upstream PointSummary cross-check (checker fda43ef8) is not publicly fetchable; supplying it is an operator/Phase-2 step.'')),
       (''points'', JArray [jobject [(''tool'', jstr ''metrum-ai-bench-cli''), (''model'', jopt JString model_id),
          (''workload'', JString (xo_workload xo)), (''native_or_adapter'', jstr ''explicit adapter bundle; not a native export''),
          (''checks'', JArray (map (\<lambda>(name, r, sv, ok). jobject [(''metric'', JString name), (''record_derived'', jopt jf64 r),
             (''summary_derived'', jopt jf64 sv), (''match'', JBool ok)])
             (filter (\<lambda>(name, _). name \<noteq> lit ''sample_count'') (nm_crosscheck m))))]])])"

definition crosscheck_warnings :: "native_metrics \<Rightarrow> ustr list" where
  "crosscheck_warnings m =
     (let bad = List.map_filter (\<lambda>(name, _, _, ok). if ok then None else Some name) (nm_crosscheck m) in
      if bad = [] then []
      else [lit ''crosscheck mismatches (record-derived vs summary-derived): '' @ join (lit '', '') bad])"

definition accuracy_note :: ustr where
  "accuracy_note =
     DISCLAIMER @ [10, 10] @ lit ''The adapter never fabricates accuracy/coverage evidence.'' @ [10] @
     lit ''A real Endpoints submission needs its accuracy run; this directory is intentionally empty.'' @ [10]"

definition noncompliance :: "ustr \<Rightarrow> ustr" where
  "noncompliance ttft =
     lit ''# '' @ DISCLAIMER @ [10, 10] @ lit
       ''This bundle is parseable by the upstream Endpoints result parser, but the following submission checks remain IMPOSSIBLE from bench artifacts and are not attempted:'' @ [10, 10] @
     lit ''- Accuracy/coverage gating (no accuracy run exists in the bundle; the accuracy directory is empty by design).'' @ [10] @
     lit ''- Config-locked client settings and LoadGen validity checks.'' @ [10] @
     lit ''- The pinned upstream PointSummary cross-check (checker commit fda43ef88fffcef4e9da81df2b71dbb355dd78e8 is not publicly fetchable; supply it as an operator step and record results in crosscheck.json).'' @ [10] @
     lit ''- Power Working Group evidence: system_power.json carries operator-declared descriptors only; PDU/whole-system facts are never synthesized.'' @ [10] @
     lit ''- Scenario conformance: bench has no LoadStair/Pareto arrival pattern and no native Offline burst mode (#309); such intent labels are exported with an explicit disclosure, never as equivalent runs.'' @ [10, 10] @
     lit ''Metric definitions requiring Endpoints review: TTFT ('' @ ttft @
     lit '') and per-request TPOT are described in performance/result_summary.json and point.yaml.'' @ [10]"

fun log_rows :: "serde \<Rightarrow> ustr list \<Rightarrow> json list option" where
  "log_rows sj [] = Some []"
| "log_rows sj (l # ls) =
     (case from_str sj l of None \<Rightarrow> None | Some v \<Rightarrow> map_option (Cons v) (log_rows sj ls))"

definition arrival_of :: "json \<Rightarrow> ustr" where
  "arrival_of summary = unwrap_or (Option.bind (pointer summary [''config'', ''arrival'']) as_str) (lit ''closed-loop'')"

definition tool_version_of :: "exporter \<Rightarrow> json \<Rightarrow> ustr" where
  "tool_version_of ex summary =
     unwrap_or (Option.bind (option_or (pointer summary [''tool_version'']) (pointer summary [''config'', ''tool_version''])) as_str)
       (ex_version ex)"

definition model_id_of :: "sut option \<Rightarrow> json \<Rightarrow> ustr option" where
  "model_id_of decl summary =
     option_or (Option.bind (Option.bind decl sut_model_decl) sm_id) (Option.bind (pointer summary [''config'', ''model'']) as_str)"

text \<open>The files in the order they are written; writing them is assumed to succeed. A descriptor that is
  read later may still fail, and then the files written before it stay; that result is the error.\<close>

definition bundle_files ::
  "exporter \<Rightarrow> export_options \<Rightarrow> bench_run \<Rightarrow> native_metrics \<Rightarrow> sut option \<Rightarrow> json \<Rightarrow> (string \<times> file_body) list" where
  "bundle_files ex xo run m decl pw =
     (let ttft = ttft_provenance (bn_records run); arrival = arrival_of (bn_summary run);
          model_id = model_id_of decl (bn_summary run); tool_version = tool_version_of ex (bn_summary run) in
      [(''point.yaml'', TextFile (point_yaml ex xo run tool_version model_id arrival ttft)),
       (''system_desc.json'', JsonFile (system_desc ex decl)),
       (''system_power.json'', JsonFile pw),
       (''performance/result_summary.json'', JsonFile (result_summary run m tool_version ttft)),
       (''config.yaml'', TextFile (config_yaml ex xo run arrival)),
       (''accuracy/NOT_PROVIDED'', TextFile accuracy_note),
       (''crosscheck.json'', JsonFile (crosscheck_json xo m model_id)),
       (''NONCOMPLIANCE.md'', TextFile (noncompliance ttft))])"

definition export_bundle ::
  "exporter \<Rightarrow> export_options \<Rightarrow> ustr option \<Rightarrow> export_error + bundle_summary \<times> (string \<times> file_body) list" where
  "export_bundle ex xo data_log =
     (case data_log of
        None \<Rightarrow> Inl LogUnreadable
      | Some raw \<Rightarrow>
          (case log_rows (ex_serde ex) (filter (\<lambda>l. trim l \<noteq> []) (str_lines raw)) of
             None \<Rightarrow> Inl LogInvalid
           | Some rows \<Rightarrow>
               (case select_complete_run rows of
                  Inl e \<Rightarrow> Inl e
                | Inr run \<Rightarrow>
                    (case native_metrics_of (ex_rfc3339 ex) run of
                       Inl e \<Rightarrow> Inl e
                     | Inr m \<Rightarrow>
                         (case xo_sut xo of
                            Some (Inl _) \<Rightarrow> Inl SutInvalid
                          | loaded \<Rightarrow>
                              (let decl = (case loaded of Some (Inr d) \<Rightarrow> Some d | _ \<Rightarrow> None) in
                               case system_power ex (xo_power_desc xo) of
                                 Inl e \<Rightarrow> Inl e
                               | Inr pw \<Rightarrow>
                                   (let files = bundle_files ex xo run m decl pw in
                                    Inr (\<lparr>bs_files = map fst files, bs_run_id = bn_run_id run,
                                      bs_sample_count = completed_count m,
                                      bs_scenario_disclosure = scenario_disclosure (xo_scenario xo) (arrival_of (bn_summary run)),
                                      bs_warnings = crosscheck_warnings m\<rparr>, files))))))))"

subsection \<open>Which run is exported\<close>

lemma select_rows_Inr:
  "select_rows run_id requests = Inr selected \<Longrightarrow>
     (run_id \<noteq> [] \<longrightarrow> selected = filter (\<lambda>r. get_str r ''run_id'' = Some run_id) requests) \<and>
     (run_id = [] \<longrightarrow> selected = requests \<and> card (set (List.map_filter (\<lambda>r. get_str r ''run_id'') requests)) \<le> 1)"
  by (auto simp: select_rows_def split: if_splits)

lemma isolated_run:
  assumes "select_complete_run rows = Inr run"
  defines "requests \<equiv> filter (schema_has ''.request.'') rows"
    and "measured \<equiv> (\<lambda>r. get_str r ''phase'' = Some (lit ''measure''))"
  shows "filter (\<lambda>r. schema_has ''.summary.'' r \<and> \<not> is_partial r) rows = [bn_summary run]"
    and "bn_run_id run = run_id_of (bn_summary run)"
    and "bn_run_id run \<noteq> [] \<Longrightarrow>
      bn_records run = filter (\<lambda>r. get_str r ''run_id'' = Some (bn_run_id run) \<and> measured r) requests"
    and "bn_run_id run = [] \<Longrightarrow> bn_records run = filter measured requests \<and>
      (\<forall>r \<in> set requests. \<forall>q \<in> set requests. \<forall>a b.
         get_str r ''run_id'' = Some a \<and> get_str q ''run_id'' = Some b \<longrightarrow> a = b)"
proof -
  obtain summary rest where complete: "filter (\<lambda>s. \<not> is_partial s) (filter (schema_has ''.summary.'') rows) = summary # rest"
      and one: "\<not> 1 < length (summary # rest)"
    using assms(1) by (auto simp: select_complete_run_def Let_def split: if_splits list.splits)
  obtain selected where selected: "select_rows (run_id_of summary) requests = Inr selected"
      and run: "run = \<lparr>bn_run_id = run_id_of summary, bn_summary = summary, bn_records = filter measured selected,
        bn_total_records = length selected\<rparr>"
    using assms(1) complete by (auto simp: select_complete_run_def Let_def requests_def measured_def split: if_splits sum.splits)
  have "filter (\<lambda>r. schema_has ''.summary.'' r \<and> \<not> is_partial r) rows = summary # rest"
    using complete by (simp add: conj_commute)
  then show "filter (\<lambda>r. schema_has ''.summary.'' r \<and> \<not> is_partial r) rows = [bn_summary run]"
    using one by (simp add: run)
  show "bn_run_id run = run_id_of (bn_summary run)" by (simp add: run)
  show "bn_records run = filter (\<lambda>r. get_str r ''run_id'' = Some (bn_run_id run) \<and> measured r) requests" if "bn_run_id run \<noteq> []"
    using select_rows_Inr [OF selected] that by (simp add: run conj_commute)
  show "bn_records run = filter measured requests \<and> (\<forall>r \<in> set requests. \<forall>q \<in> set requests. \<forall>a b.
         get_str r ''run_id'' = Some a \<and> get_str q ''run_id'' = Some b \<longrightarrow> a = b)" if "bn_run_id run = []"
  proof -
    let ?ids = "set (List.map_filter (\<lambda>r. get_str r ''run_id'') requests)"
    have sel: "selected = requests" "card ?ids \<le> 1" using select_rows_Inr [OF selected] that by (simp_all add: run)
    have "a = b" if "r \<in> set requests" "q \<in> set requests" "get_str r ''run_id'' = Some a" "get_str q ''run_id'' = Some b" for r q a b
    proof -
      have "a \<in> ?ids" "b \<in> ?ids" using that by (force simp: List.map_filter_def)+
      then show ?thesis using sel(2) card_le_Suc0_iff_eq [of ?ids] by simp
    qed
    then show ?thesis using sel by (auto simp: run)
  qed
qed

text \<open>
  C35: The exported run is never a mixture: its summary is the only complete summary row of the log,
  and its records are exactly the measured request rows with the run id of that summary, which is
  not empty; or, when the summary has no run id, all measured request rows, and then no two request
  rows of the log have different run ids.
\<close>

theorem exported_run_is_isolated:
  assumes "select_complete_run rows = Inr run"
  shows "filter (\<lambda>r. schema_has ''.summary.'' r \<and> \<not> is_partial r) rows = [bn_summary run] \<and>
    bn_run_id run = run_id_of (bn_summary run) \<and>
    (bn_run_id run \<noteq> [] \<longrightarrow>
       bn_records run = filter (\<lambda>r. get_str r ''run_id'' = Some (bn_run_id run) \<and> get_str r ''phase'' = Some (lit ''measure''))
         (filter (schema_has ''.request.'') rows)) \<and>
    (bn_run_id run = [] \<longrightarrow>
       bn_records run = filter (\<lambda>r. get_str r ''phase'' = Some (lit ''measure'')) (filter (schema_has ''.request.'') rows) \<and>
       (\<forall>r \<in> set (filter (schema_has ''.request.'') rows). \<forall>q \<in> set (filter (schema_has ''.request.'') rows). \<forall>a b.
          get_str r ''run_id'' = Some a \<and> get_str q ''run_id'' = Some b \<longrightarrow> a = b))"
  using isolated_run [OF assms] by blast

definition demo_export_row :: "string \<Rightarrow> string \<Rightarrow> json" where
  "demo_export_row run_id phase =
     jobject [(''schema_version'', jstr ''metrum-ai-bench-cli.request.v5''), (''run_id'', jstr run_id), (''phase'', jstr phase),
       (''started_at'', jstr ''a''), (''completed_at'', jstr ''b''), (''completion_tokens'', jnat 10),
       (''prompt_tokens'', jnat 20), (''ttft_s'', jf64 (Fin 1)), (''latency_s'', jf64 (Fin 2))]"

definition demo_log :: "json list" where
  "demo_log =
     [demo_export_row ''r1'' ''measure'', demo_export_row ''r2'' ''measure'', demo_export_row ''r1'' ''warmup'',
      jobject [(''schema_version'', jstr ''metrum-ai-bench-cli.summary.v5''), (''run_id'', jstr ''r1''),
        (''requests_per_second'', jf64 (Fin 7))]]"

definition demo_run :: bench_run where
  "demo_run = \<lparr>bn_run_id = lit ''r1'', bn_summary = demo_log ! 3, bn_records = [demo_export_row ''r1'' ''measure''], bn_total_records = 2\<rparr>"

theorem exported_run_is_isolated_witness:
  "select_complete_run demo_log = Inr demo_run \<and> bn_records demo_run =
     filter (\<lambda>r. get_str r ''run_id'' = Some (lit ''r1'') \<and> get_str r ''phase'' = Some (lit ''measure''))
       (filter (schema_has ''.request.'') demo_log)"
proof -
  have "select_complete_run demo_log = Inr demo_run" by code_simp
  then show ?thesis using exported_run_is_isolated [of demo_log demo_run] by (simp add: demo_run_def)
qed

text \<open>
  Without a window in the summary the rates use the span of the records, here two seconds, while
  the duration of the bundle is zero.
\<close>

definition demo_rfc3339 :: "ustr \<Rightarrow> (int \<times> nat) option" where
  "demo_rfc3339 s = (if s = lit ''a'' then Some (100, 0) else if s = lit ''b'' then Some (102, 0) else None)"

lemma bt_get_fold_lit: "bt_get (fold (\<lambda>(k, v). bt_insert (lit k) v) kvs m) (lit k) = option_or (map_of (rev kvs) k) (bt_get m (lit k))"
  by (induction kvs arbitrary: m) (auto simp: bt_get_insert option_or_def map_add_def split: option.splits)

lemma jget_jobject: "jget (jobject kvs) k = map_of (rev kvs) k"
  by (simp add: jget_def jobject_def bt_get_fold_lit) (simp add: option_or_def bt_get_def split: option.splits)

lemma duration_without_window:
  shows "export_window demo_rfc3339 (bn_summary demo_run) (bn_records demo_run) = Inr (Fin 2)"
    and "\<forall>m t u. jget (result_summary demo_run m t u) ''duration_ns'' = Some (jnat 0)"
proof -
  have w: "f64_field (bn_summary demo_run) ''window_seconds'' = None" by code_simp
  have "epochs demo_rfc3339 ''started_at'' (bn_records demo_run) = [Fin 100]"
      "epochs demo_rfc3339 ''completed_at'' (bn_records demo_run) = [Fin 102]" by code_simp+
  moreover have "1000 \<le> F64_MAX" by (simp add: F64_MAX_def)
  moreover have "fsub (Fin 102) (Fin 100) = Fin 2" by code_simp
  ultimately show "export_window demo_rfc3339 (bn_summary demo_run) (bn_records demo_run) = Inr (Fin 2)"
    using w by (simp add: export_window_def records_span_def fmin_def fmax_def min_def max_def)
  have "jnat (f_to_usize (fmul (unwrap_or (f64_field (bn_summary demo_run) ''window_seconds'') (Fin 0)) (Fin 1000000000))) = jnat 0"
    using w by (simp add: fmul_def)
  then show "\<forall>m t u. jget (result_summary demo_run m t u) ''duration_ns'' = Some (jnat 0)"
    by (simp only: result_summary_def Let_def jget_jobject rev.simps append.simps map_of.simps prod.sel fun_upd_apply
        list.inject list.distinct char.inject if_True if_False simp_thms)
qed

text \<open>
  The request rate is compared with a field that no summary has (the field is
  \<open>requests_per_second\<close>), so it matches whatever the summary says.
\<close>

lemma request_rate_unchecked:
  "\<exists>m. native_metrics_of demo_rfc3339 demo_run = Inr m \<and>
     hd (nm_crosscheck m) = (lit ''requests_s'', Some (Fin (1 / 2)), None, True) \<and>
     pointer_num (bn_summary demo_run) [''requests_per_second''] = Some (Fin 7)"
proof -
  let ?s = "bn_summary demo_run" and ?rows = "bn_records demo_run" and ?good = "filter succeeded (bn_records demo_run)"
  have "?rows \<noteq> []" by (simp add: demo_run_def)
  then have run: "native_metrics_of demo_rfc3339 demo_run = Inr (latency_metrics ?s ?rows ?good (rate_metrics ?s ?rows ?good (Fin 2)))"
    by (simp add: native_metrics_of_def Let_def duration_without_window)
  have "hd (nm_crosscheck (latency_metrics s rows good m)) = hd (nm_crosscheck m)" if "nm_crosscheck m \<noteq> []" for s rows good m
    using that by (simp add: latency_metrics_def put_percentile_def put_def put_extra_def Let_def)
  moreover have "nm_crosscheck (rate_metrics ?s ?rows ?good (Fin 2)) \<noteq> []"
    by (simp add: rate_metrics_def put_def put_extra_def Let_def)
  moreover have "hd (nm_crosscheck (rate_metrics ?s ?rows ?good (Fin 2))) =
      (lit ''requests_s'', Some (fdiv (f_of_nat (length ?good)) (Fin 2)), pointer_num ?s [''window_requests_per_second''],
       values_match (Some (fdiv (f_of_nat (length ?good)) (Fin 2))) (pointer_num ?s [''window_requests_per_second'']))"
    by (simp add: rate_metrics_def put_def put_extra_def Let_def)
  moreover have "pointer_num ?s [''window_requests_per_second''] = None" by code_simp
  moreover have "fdiv (f_of_nat (length ?good)) (Fin 2) = Fin (1 / 2)" by code_simp
  moreover have "pointer_num ?s [''requests_per_second''] = Some (Fin 7)" by code_simp
  ultimately show ?thesis unfolding run by (simp add: values_match_def)
qed

end
