(* ===== verification/Telemetry_Analysis.thy ===== *)
theory Telemetry_Analysis
  imports Json F64_Exact Float_Format "HOL-Library.Product_Lexorder"
begin

text \<open>
  The offline analysis of a telemetry file (\<open>xtask/src/telemetry_analysis.rs\<close>): quantiles, means
  over time and counter differences, the choice of a metric, the figures of each stage, the knee
  and the report. The JSON and number parsers and the JSON printer are parameters.
\<close>

type_synonym series_labels = "(ustr, ustr) btree"
type_synonym series_key = "ustr \<times> series_labels"
type_synonym samples = "(nat \<times> f64) list"

subsection \<open>Names\<close>

definition POWER_PREFERENCE :: "string list" where
  "POWER_PREFERENCE =
     [''all_smi_gpu_power_consumption_watts'', ''DCGM_FI_DEV_POWER_USAGE'', ''nvidia_smi_power_draw_watts'',
      ''nv_gpu_power_usage'', ''gpu_power_usage'', ''gpu_package_power'', ''hw_power'']"

definition ENERGY_PREFERENCE :: "string list" where
  "ENERGY_PREFERENCE =
     [''all_smi_gpu_energy_hw_millijoules_total'', ''DCGM_FI_DEV_TOTAL_ENERGY_CONSUMPTION'',
      ''nvidia_smi_energy_joules_total'', ''nv_energy_consumption'', ''gpu_energy_consumed'', ''hw_energy'',
      ''habanalabs_energy'']"

definition LEGACY_KNEE_MIN_POINTS :: nat where
  "LEGACY_KNEE_MIN_POINTS = 5"

definition KV_METRICS :: "string list" where
  "KV_METRICS =
     [''vllm:kv_cache_usage_perc'', ''vllm:gpu_cache_usage_perc'', ''sglang:token_usage'', ''trtllm_kv_cache_utilization'',
      ''llamacpp:kv_cache_usage_ratio'']"

definition DERIVED_FAMILIES :: "(string \<times> string list) list" where
  "DERIVED_FAMILIES =
     [(''gpu_util_mean'', [''all_smi_gpu_utilization'', ''DCGM_FI_DEV_GPU_UTIL'', ''nvidia_smi_utilization_gpu_ratio'',
         ''gpu_gfx_activity'']),
      (''sm_active_p50'', [''all_smi_gpu_sm_active_ratio'', ''DCGM_FI_PROF_SM_ACTIVE'']),
      (''sm_occupancy_p50'', [''all_smi_gpu_sm_occupancy'', ''DCGM_FI_PROF_SM_OCCUPANCY'']),
      (''tensor_active_p50'', [''all_smi_gpu_tensor_active_ratio'', ''DCGM_FI_PROF_PIPE_TENSOR_ACTIVE'']),
      (''kv_cache_util_mean'', KV_METRICS)]"

definition PREEMPTION_METRICS :: "string list" where
  "PREEMPTION_METRICS = [''vllm:num_preemptions_total'', ''sglang:num_preemptions_total'']"

subsection \<open>Quantiles, means and differences\<close>

record quantile =
  q_value :: "f64 option"
  q_reason :: "string option"
  q_bound :: "f64 option"

definition empty_quantile :: quantile where
  "empty_quantile = \<lparr>q_value = None, q_reason = None, q_bound = None\<rparr>"

definition type7 :: "f64 list \<Rightarrow> f64 \<Rightarrow> f64 option" where
  "type7 values p =
     (if values = [] \<or> \<not> (fle (Fin 0) p \<and> fle p (Fin 100)) then None
      else (let xs = sort values; h = fdiv (fmul (f_of_nat (length xs - 1)) p) (Fin 100);
                lo = f_to_usize (f_floor h); hi = f_to_usize (f_ceil h) in
        Some (if lo = hi then xs ! lo
          else fadd (fmul (xs ! lo) (fsub (f_of_nat hi) h)) (fmul (xs ! hi) (fsub h (f_of_nat lo))))))"

definition is_infinite :: "f64 \<Rightarrow> bool" where
  "is_infinite x \<longleftrightarrow> x = PInf \<or> x = NInf"

definition bucket_quantile :: "f64 \<Rightarrow> f64 option \<Rightarrow> f64 \<Rightarrow> f64 \<Rightarrow> f64 \<Rightarrow> quantile" where
  "bucket_quantile rank prev_le prev_count le cnt =
     (if is_infinite le then
        (case prev_le of
           None \<Rightarrow> empty_quantile
         | Some bound \<Rightarrow> \<lparr>q_value = None, q_reason = Some ''above_last_bucket'', q_bound = Some bound\<rparr>)
      else (case prev_le of
          Some lower \<Rightarrow>
            \<lparr>q_value = Some (if feq cnt prev_count then le
               else fadd lower (fdiv (fmul (fsub le lower) (fsub rank prev_count)) (fsub cnt prev_count))),
             q_reason = None, q_bound = None\<rparr>
        | None \<Rightarrow> \<lparr>q_value = None, q_reason = Some ''below_first_bucket'', q_bound = Some le\<rparr>))"

fun quantile_scan :: "f64 \<Rightarrow> f64 option \<Rightarrow> f64 \<Rightarrow> (f64 \<times> f64) list \<Rightarrow> quantile" where
  "quantile_scan rank prev_le prev_count [] = empty_quantile"
| "quantile_scan rank prev_le prev_count ((le, cnt) # bins) =
     (if fle rank cnt then bucket_quantile rank prev_le prev_count le cnt else quantile_scan rank (Some le) cnt bins)"

definition histogram_quantile :: "(f64 \<times> f64) list \<Rightarrow> f64 \<Rightarrow> quantile" where
  "histogram_quantile buckets q =
     (if buckets = [] \<or> \<not> (fle (Fin 0) q \<and> fle q (Fin 1)) then empty_quantile
      else (let bins = sort_key fst buckets; total = snd (last bins) in
        if fle total (Fin 0) then empty_quantile else quantile_scan (fmul q total) None (Fin 0) bins))"

definition gap_seconds :: "nat \<times> f64 \<Rightarrow> nat \<times> f64 \<Rightarrow> f64" where
  "gap_seconds a b = fdiv (f_of_nat (fst b - fst a)) (Fin 1000000000)"

fun mean_loop :: "samples \<Rightarrow> f64 \<Rightarrow> f64 \<Rightarrow> f64 \<times> f64" where
  "mean_loop (a # b # xs) weighted elapsed =
     (let dt = gap_seconds a b in
      if flt (Fin 0) dt
      then mean_loop (b # xs) (fadd weighted (fmul (fmul (fadd (snd a) (snd b)) (Fin (1 / 2))) dt)) (fadd elapsed dt)
      else mean_loop (b # xs) weighted elapsed)"
| "mean_loop xs weighted elapsed = (weighted, elapsed)"

definition time_weighted_mean :: "samples \<Rightarrow> f64 option" where
  "time_weighted_mean values =
     (if length values < 2 then None
      else (case mean_loop (sort_key fst values) (Fin 0) (Fin 0) of
          (weighted, elapsed) \<Rightarrow> if flt (Fin 0) elapsed then Some (fdiv weighted elapsed) else None))"

fun decreases :: "samples \<Rightarrow> bool" where
  "decreases (a # b # xs) \<longleftrightarrow> flt (snd b) (snd a) \<or> decreases (b # xs)"
| "decreases xs = False"

definition counter_delta :: "samples \<Rightarrow> f64 option" where
  "counter_delta values =
     (if length values < 2 then None
      else (let xs = sort_key fst values in if decreases xs then None else Some (fsub (snd (last xs)) (snd (hd xs)))))"

subsection \<open>Rows\<close>

definition string_labels :: "serde \<Rightarrow> json \<Rightarrow> series_labels" where
  "string_labels sj row =
     (case Option.bind (jget row ''labels'') as_object of
        Some m \<Rightarrow> map (\<lambda>(k, v). (k, unwrap_or (as_str v) (to_string sj v))) m
      | None \<Rightarrow> [])"

definition source_of :: "json \<Rightarrow> ustr" where
  "source_of row = unwrap_or (get_str row ''src'') []"

definition metric :: "json \<Rightarrow> ustr" where
  "metric row = unwrap_or (get_str row ''metric'') []"

definition row_time :: "json \<Rightarrow> nat option" where
  "row_time row = get_u64 row ''t_ns''"

definition row_value :: "json \<Rightarrow> f64 option" where
  "row_value row = Option.bind (jget row ''value'') as_f64"

definition has_metric :: "string \<Rightarrow> json \<Rightarrow> bool" where
  "has_metric name row \<longleftrightarrow> metric row = lit name"

definition EXCLUDED_PARTS :: "string list" where
  "EXCLUDED_PARTS =
     [''limit'', ''cap'', ''max'', ''min'', ''threshold'', ''default'', ''enforced'', ''chassis'', ''node'', ''ipmi'', ''redfish'']"

definition is_reading :: "string list \<Rightarrow> string \<Rightarrow> string \<Rightarrow> json \<Rightarrow> bool" where
  "is_reading preference part unit row \<longleftrightarrow>
     metric row \<in> lit ` set preference \<or>
     contains_sub (lit part) (to_ascii_lowercase (metric row)) \<and> jindex row ''unit'' = jstr unit \<and>
     \<not> list_ex (\<lambda>p. contains_sub (lit p) (to_ascii_lowercase (metric row))) EXCLUDED_PARTS"

definition is_power_draw :: "json \<Rightarrow> bool" where
  "is_power_draw row = is_reading POWER_PREFERENCE ''power'' ''W'' row"

definition is_energy_counter :: "json \<Rightarrow> bool" where
  "is_energy_counter row = is_reading ENERGY_PREFERENCE ''energy'' ''J'' row"

definition pick_metric :: "json list \<Rightarrow> string list \<Rightarrow> (json \<Rightarrow> bool) \<Rightarrow> ustr option" where
  "pick_metric rows preferred accepts =
     (let present = map fst (fold (\<lambda>r. bt_insert (metric r) ()) (filter accepts rows) []) in
      option_or (find (\<lambda>name. name \<in> set present) (map lit preferred)) (hd_opt present))"

definition family_metric :: "json list \<Rightarrow> string list \<Rightarrow> string option" where
  "family_metric rows family = find (\<lambda>name. list_ex (has_metric name) rows) family"

text \<open>Grouping the timed values of the rows by a key.\<close>

definition timed :: "(json \<Rightarrow> f64 option) \<Rightarrow> json \<Rightarrow> (nat \<times> f64) option" where
  "timed val row = Option.bind (row_time row) (\<lambda>t. map_option (Pair t) (val row))"

definition series_by :: "(json \<Rightarrow> 'k::linorder) \<Rightarrow> (json \<Rightarrow> f64 option) \<Rightarrow> json list \<Rightarrow> ('k, samples) btree" where
  "series_by key val rows =
     fold (\<lambda>row m. case timed val row of Some tv \<Rightarrow> bt_push (key row) tv m | None \<Rightarrow> m) rows []"

definition mean_of :: "f64 list \<Rightarrow> f64 option" where
  "mean_of means = (if means = [] then None else Some (fdiv (f_sum means) (f_of_nat (length means))))"

definition family_value :: "serde \<Rightarrow> json list \<Rightarrow> string \<Rightarrow> string \<Rightarrow> f64 option" where
  "family_value sj rows name metric_name =
     (let scale = (if name = ''gpu_util_mean'' \<and> metric_name \<noteq> ''nvidia_smi_utilization_gpu_ratio'' then rnd (1 / 100) else Fin 1);
          series = series_by (string_labels sj) (\<lambda>r. map_option (\<lambda>v. fmul v scale) (row_value r))
            (filter (has_metric metric_name) rows) in
      if ends_with ''_p50'' name then type7 (concat (map (map snd) (bt_values series))) (Fin 50)
      else mean_of (List.map_filter time_weighted_mean (bt_values series)))"

definition hollow_source :: "json list \<Rightarrow> string option" where
  "hollow_source rows =
     (if list_ex (has_metric ''all_smi_gpu_hollow_utilization_ratio'') rows then Some ''all_smi_gpu_hollow_utilization_ratio''
      else if list_ex (has_metric ''DCGM_FI_PROF_GR_ENGINE_ACTIVE'') rows \<and> list_ex (has_metric ''DCGM_FI_PROF_SM_ACTIVE'') rows
      then Some ''DCGM_FI_PROF_GR_ENGINE_ACTIVE - DCGM_FI_PROF_SM_ACTIVE'' else None)"

definition series_key_of :: "serde \<Rightarrow> json \<Rightarrow> series_key" where
  "series_key_of sj row = (source_of row, string_labels sj row)"

text \<open>The sum of the differences, if there is one for every series.\<close>

definition total_delta :: "samples list \<Rightarrow> f64 option" where
  "total_delta series =
     (let deltas = map counter_delta series in
      if deltas \<noteq> [] \<and> list_all (\<lambda>d. d \<noteq> None) deltas then Some (f_sum (List.map_filter id deltas)) else None)"

definition preemption_delta :: "serde \<Rightarrow> json list \<Rightarrow> f64 option" where
  "preemption_delta sj rows =
     (case find (\<lambda>name. filter (has_metric name) rows \<noteq> []) PREEMPTION_METRICS of
        None \<Rightarrow> None
      | Some name \<Rightarrow> total_delta (bt_values (series_by (series_key_of sj) row_value (filter (has_metric name) rows))))"

definition energy_joules :: "json \<Rightarrow> f64 option" where
  "energy_joules row =
     map_option (\<lambda>v. if contains_sub (lit ''millijoule'') (to_ascii_lowercase (metric row)) \<and> jget row ''raw'' = None
         then fmul v (rnd (1 / 1000)) else v)
       (row_value row)"

subsection \<open>Histograms of a stage\<close>

text \<open>\<open>str::parse::<f64>\<close> is a parameter.\<close>

definition bucket_bound :: "(ustr \<Rightarrow> f64 option) \<Rightarrow> series_labels \<Rightarrow> f64 option" where
  "bucket_bound parse_f64 ls =
     Option.bind (bt_get ls (lit ''le'')) (\<lambda>s. if s = lit ''+Inf'' then Some PInf else parse_f64 s)"

definition bucket_step ::
  "(ustr \<Rightarrow> f64 option) \<Rightarrow> series_key \<times> samples \<Rightarrow> (series_key, (f64 \<times> f64) list) btree \<times> series_key set \<Rightarrow>
     (series_key, (f64 \<times> f64) list) btree \<times> series_key set" where
  "bucket_step parse_f64 entry st =
     (case (entry, st) of (((src, ls), xs), (deltas, resets)) \<Rightarrow>
        (case bucket_bound parse_f64 ls of
           None \<Rightarrow> (deltas, resets)
         | Some le \<Rightarrow>
             (let key = (src, bt_remove (lit ''le'') ls) in
              case counter_delta xs of
                Some d \<Rightarrow> (bt_push key (le, d) deltas, resets)
              | None \<Rightarrow> (deltas, insert key resets))))"

definition le_key :: "f64 \<Rightarrow> ustr" where
  "le_key le = (if is_infinite le then lit ''+Inf'' else fmt_fixed 17 le)"

definition add_bucket :: "f64 \<times> f64 \<Rightarrow> (ustr, f64 \<times> f64) btree \<Rightarrow> (ustr, f64 \<times> f64) btree" where
  "add_bucket b m =
     (case b of (le, d) \<Rightarrow>
        (case unwrap_or (bt_get m (le_key le)) (le, Fin 0) of (le', cnt) \<Rightarrow> bt_insert (le_key le) (le', fadd cnt d) m))"

definition stage_buckets :: "serde \<Rightarrow> (ustr \<Rightarrow> f64 option) \<Rightarrow> json list \<Rightarrow> ustr \<Rightarrow> (f64 \<times> f64) list" where
  "stage_buckets sj parse_f64 rows base =
     (let series = series_by (series_key_of sj) row_value (filter (\<lambda>r. metric r = base @ lit ''_bucket'') rows) in
      case fold (bucket_step parse_f64) series ([], {}) of
        (deltas, resets) \<Rightarrow>
          bt_values (fold add_bucket (concat (map snd (filter (\<lambda>(key, _). key \<notin> resets) deltas))) []))"

definition stage_histogram_quantile :: "serde \<Rightarrow> (ustr \<Rightarrow> f64 option) \<Rightarrow> json list \<Rightarrow> ustr \<Rightarrow> f64 \<Rightarrow> quantile" where
  "stage_histogram_quantile sj parse_f64 rows base q = histogram_quantile (stage_buckets sj parse_f64 rows base) q"

subsection \<open>The knee\<close>

record knee =
  kn_load :: "json option"
  kn_index :: "nat option"
  kn_reason :: "ustr option"
  kn_source :: "string option"

definition no_knee :: "ustr option \<Rightarrow> string option \<Rightarrow> knee" where
  "no_knee reason src = \<lparr>kn_load = None, kn_index = None, kn_reason = reason, kn_source = src\<rparr>"

definition is_present :: "json option \<Rightarrow> bool" where
  "is_present v = (case v of Some x \<Rightarrow> \<not> is_null x | None \<Rightarrow> False)"

definition detected_knee :: "json list \<Rightarrow> json_map \<Rightarrow> knee" where
  "detected_knee points det =
     (if \<not> is_present (bt_get det (lit ''index'')) then
        no_knee (Option.bind (bt_get det (lit ''reason'')) as_str) (Some ''knee_detection'')
      else (case option_filter (\<lambda>i. i < length points) (Option.bind (bt_get det (lit ''index'')) as_u64) of
          None \<Rightarrow> no_knee (Some (lit ''knee_index_out_of_range'')) (Some ''knee_detection'')
        | Some i \<Rightarrow>
            \<lparr>kn_load = jget (points ! i) ''load'', kn_index = Some i, kn_reason = None, kn_source = Some ''knee_detection''\<rparr>))"

definition index_of :: "('a \<Rightarrow> bool) \<Rightarrow> 'a list \<Rightarrow> nat option" where
  "index_of P xs = find (\<lambda>i. P (xs ! i)) [0..<length xs]"

definition legacy_knee :: "json list \<Rightarrow> json \<Rightarrow> knee" where
  "legacy_knee points stdout =
     (if length (filter (\<lambda>p. is_present (jget p ''p95_s'')) points) < LEGACY_KNEE_MIN_POINTS then
        no_knee (Some (lit ''insufficient_points'')) (Some ''legacy_knee'')
      else (case option_filter (\<lambda>v. \<not> is_null v) (jget stdout ''knee'') of
          None \<Rightarrow> no_knee (Some (lit ''legacy_knee_null'')) (Some ''legacy_knee'')
        | Some k \<Rightarrow>
            \<lparr>kn_load = jget k ''load'', kn_index = index_of (\<lambda>p. jget p ''load'' = jget k ''load'') points, kn_reason = None,
             kn_source = Some ''legacy_knee''\<rparr>))"

definition resolve_knee :: "json option \<Rightarrow> knee" where
  "resolve_knee stdout =
     (case stdout of
        None \<Rightarrow> no_knee (Some (lit ''no_strategic_stdout'')) None
      | Some out \<Rightarrow>
          (let points = unwrap_or (get_array out ''points'') [] in
           case Option.bind (jget out ''knee_detection'') as_object of
             Some det \<Rightarrow> detected_knee points det
           | None \<Rightarrow> legacy_knee points out))"

subsection \<open>The report\<close>

definition kind_is :: "string \<Rightarrow> json \<Rightarrow> bool" where
  "kind_is k row \<longleftrightarrow> jindex row ''kind'' = jstr k"

definition row_counts :: "json list \<Rightarrow> (ustr, nat) btree" where
  "row_counts rows =
     fold (\<lambda>r m. let k = unwrap_or (as_str (jindex r ''kind'')) (lit ''?'') in bt_insert k (unwrap_or (bt_get m k) 0 + 1) m) rows []"

definition is_measured_stage :: "json \<Rightarrow> bool" where
  "is_measured_stage s \<longleftrightarrow> kind_is ''stage'' s \<and> jindex s ''phase'' = jstr ''measure''"

definition stage_bounds :: "json \<Rightarrow> (nat \<times> nat) option" where
  "stage_bounds stage =
     (case (as_u64 (jindex stage ''t_start_ns''), as_u64 (jindex stage ''t_end_ns'')) of
        (Some a, Some b) \<Rightarrow> Some (a, b)
      | _ \<Rightarrow> None)"

definition in_window :: "json \<Rightarrow> nat \<times> nat \<Rightarrow> json \<Rightarrow> bool" where
  "in_window stage w r \<longleftrightarrow>
     kind_is ''telemetry'' r \<and> jindex r ''run_id'' = jindex stage ''run_id'' \<and>
     (case row_time r of Some t \<Rightarrow> fst w \<le> t \<and> t < snd w | None \<Rightarrow> False)"

definition stage_window :: "json list \<Rightarrow> json \<Rightarrow> nat \<times> nat \<Rightarrow> json list" where
  "stage_window rows stage w = filter (in_window stage w) rows"

text \<open>Readings of one instant are added.\<close>

definition add_reading :: "json \<Rightarrow> (nat, f64) btree \<Rightarrow> (nat, f64) btree" where
  "add_reading row m =
     (case timed row_value row of
        Some (t, v) \<Rightarrow> bt_insert t (fadd (unwrap_or (bt_get m t) (Fin 0)) v) m
      | None \<Rightarrow> m)"

definition power_samples :: "json list \<Rightarrow> samples" where
  "power_samples rows =
     (let p = pick_metric rows POWER_PREFERENCE is_power_draw in
      fold add_reading (filter (\<lambda>r. p = Some (metric r)) rows) [])"

fun trapezoids :: "samples \<Rightarrow> f64 list" where
  "trapezoids (a # b # xs) = fmul (fmul (fadd (snd a) (snd b)) (Fin (1 / 2))) (gap_seconds a b) # trapezoids (b # xs)"
| "trapezoids xs = []"

definition energy_trap :: "samples \<Rightarrow> f64 option" where
  "energy_trap xs = (if length xs < 2 then None else Some (f_sum (trapezoids xs)))"

definition energy_delta :: "serde \<Rightarrow> json list \<Rightarrow> f64 option" where
  "energy_delta sj rows =
     (let e = pick_metric rows ENERGY_PREFERENCE is_energy_counter in
      total_delta (bt_values (series_by (string_labels sj) energy_joules (filter (\<lambda>r. e = Some (metric r)) rows))))"

definition stage_output_tokens :: "json list \<Rightarrow> json \<Rightarrow> nat" where
  "stage_output_tokens rows stage =
     sum_u64 (map (\<lambda>r. unwrap_or (as_u64 (jindex r ''output_tokens'')) 0)
       (filter (\<lambda>r. kind_is ''request'' r \<and> jindex r ''run_id'' = jindex stage ''run_id'' \<and>
          jindex r ''stage'' = jindex stage ''stage'' \<and> jindex r ''success'' = JBool True \<and> jindex r ''warmup'' \<noteq> JBool True) rows))"

definition joules_per_token :: "f64 option \<Rightarrow> f64 option \<Rightarrow> nat \<Rightarrow> f64 option" where
  "joules_per_token delta trap n =
     (if 0 < n then map_option (\<lambda>j. fdiv j (f_of_nat n)) (option_or delta trap) else None)"

definition quantile_json :: "quantile \<Rightarrow> json" where
  "quantile_json q =
     jobject [(''value'', jopt jf64 (q_value q)), (''reason'', jopt jstr (q_reason q)), (''bound'', jopt jf64 (q_bound q))]"

definition histogram_bases :: "json list \<Rightarrow> ustr list" where
  "histogram_bases rows =
     map fst (fold (\<lambda>r m. case option_filter (ends_with (lit ''_seconds'')) (strip_suffix (lit ''_bucket'') (metric r)) of
         Some b \<Rightarrow> bt_insert b () m | None \<Rightarrow> m) rows [])"

definition stage_report :: "serde \<Rightarrow> (ustr \<Rightarrow> f64 option) \<Rightarrow> json list \<Rightarrow> json \<Rightarrow> json" where
  "stage_report sj parse_f64 rows stage =
     (case stage_bounds stage of
        None \<Rightarrow> jobject [(''stage'', jindex stage ''stage''), (''load'', jindex stage ''load''), (''error'', jstr ''invalid stage window'')]
      | Some w \<Rightarrow>
          (let win = stage_window rows stage w; ps = power_samples win; trap = energy_trap ps; delta = energy_delta sj win;
               tokens = stage_output_tokens rows stage in
           jobject [(''stage'', jindex stage ''stage''), (''load'', jindex stage ''load''),
             (''power_source'', jopt JString (pick_metric win POWER_PREFERENCE is_power_draw)),
             (''power_mean_w'', jopt jf64 (time_weighted_mean ps)), (''power_p95_w'', jopt jf64 (type7 (map snd ps) (Fin 95))),
             (''energy_source'', jopt JString (pick_metric win ENERGY_PREFERENCE is_energy_counter)),
             (''energy_counter_j'', jopt jf64 delta), (''energy_trap_j'', jopt jf64 trap), (''output_tokens'', jnat tokens),
             (''j_per_output_token'', jopt jf64 (joules_per_token delta trap tokens)),
             (''derived_sources'', jobject (map (\<lambda>(name, family). (name, jopt jstr (family_metric win family))) DERIVED_FAMILIES)),
             (''derived_values'', jobject (map (\<lambda>(name, family).
                (name, jopt jf64 (Option.bind (family_metric win family) (family_value sj win name)))) DERIVED_FAMILIES)),
             (''hollow_source'', jopt jstr (hollow_source win)),
             (''preemption_source'', jopt jstr (family_metric win PREEMPTION_METRICS)),
             (''preemptions_delta'', jopt jf64 (preemption_delta sj win)),
             (''engine_histograms'', JObject (map (\<lambda>b. (b, jobject
                [(''p50'', quantile_json (stage_histogram_quantile sj parse_f64 win b (Fin (1 / 2)))),
                 (''p95'', quantile_json (stage_histogram_quantile sj parse_f64 win b (rnd (95 / 100))))])) (histogram_bases win))),
             (''telemetry_rows'', jnat (length win))]))"

definition kv_at_knee :: "serde \<Rightarrow> json list \<Rightarrow> knee \<Rightarrow> f64 option \<times> ustr option" where
  "kv_at_knee sj rows k =
     (case kn_load k of
        None \<Rightarrow> (None, kn_reason k)
      | Some load \<Rightarrow>
          (case find (\<lambda>s. is_measured_stage s \<and> jindex s ''load'' = load) rows of
             None \<Rightarrow> (None, Some (lit ''knee_stage_not_in_ndjson''))
           | Some stage \<Rightarrow>
               (case stage_bounds stage of
                  None \<Rightarrow> (None, Some (lit ''invalid_knee_stage_window''))
                | Some w \<Rightarrow>
                    (case family_metric (stage_window rows stage w) KV_METRICS of
                       None \<Rightarrow> (None, Some (lit ''no_kv_cache_series''))
                     | Some name \<Rightarrow>
                         (case mean_of (List.map_filter time_weighted_mean (bt_values
                             (series_by (string_labels sj) row_value (filter (has_metric name) (stage_window rows stage w))))) of
                            None \<Rightarrow> (None, Some (lit ''insufficient_kv_samples''))
                          | Some m \<Rightarrow> (Some m, None))))))"

definition knee_json :: "knee \<Rightarrow> json" where
  "knee_json k =
     jobject [(''load'', jopt id (kn_load k)), (''index'', jopt jnat (kn_index k)), (''reason'', jopt JString (kn_reason k)),
       (''source'', jopt jstr (kn_source k))]"

definition analyze_rows :: "serde \<Rightarrow> (ustr \<Rightarrow> f64 option) \<Rightarrow> json list \<Rightarrow> json option \<Rightarrow> json" where
  "analyze_rows sj parse_f64 rows stdout =
     (let k = resolve_knee stdout; kv = kv_at_knee sj rows k in
      jobject [(''row_counts'', JObject (map (\<lambda>(kd, n). (kd, jnat n)) (row_counts rows))),
        (''stages'', JArray (map (stage_report sj parse_f64 rows) (filter is_measured_stage rows))),
        (''knee'', knee_json k), (''kv_cache_util_at_knee'', jopt jf64 (fst kv)),
        (''kv_cache_util_at_knee_reason'', jopt JString (snd kv))])"

subsection \<open>Its text\<close>

definition display :: "serde \<Rightarrow> json \<Rightarrow> ustr" where
  "display sj v = (if is_null v then lit ''null'' else unwrap_or (as_str v) (to_string sj v))"

definition format_quantile :: "serde \<Rightarrow> json \<Rightarrow> ustr" where
  "format_quantile sj q =
     (if as_str (jindex q ''reason'') = Some (lit ''below_first_bucket'') then lit ''<='' @ display sj (jindex q ''bound'')
      else if as_str (jindex q ''reason'') = Some (lit ''above_last_bucket'') then lit ''>'' @ display sj (jindex q ''bound'')
      else display sj (jindex q ''value''))"

definition members :: "json \<Rightarrow> json_map" where
  "members v = unwrap_or (as_object v) []"

definition items :: "json \<Rightarrow> json list" where
  "items v = unwrap_or (as_array v) []"

definition tabbed :: "ustr list \<Rightarrow> ustr" where
  "tabbed cells = join [9] cells @ [10]"

definition render_text :: "serde \<Rightarrow> json \<Rightarrow> ustr" where
  "render_text sj report =
     lit ''row_counts'' @ [10] @
     concat (map (\<lambda>(k, v). tabbed [k, to_string sj v]) (members (jindex report ''row_counts''))) @ [10] @
     tabbed [lit ''stage'', lit ''load'', lit ''power_source'', lit ''energy_source'', lit ''telemetry_rows''] @
     concat (map (\<lambda>s. tabbed (map (\<lambda>k. display sj (jindex s k))
         [''stage'', ''load'', ''power_source'', ''energy_source'', ''telemetry_rows'']))
       (items (jindex report ''stages''))) @
     concat (map (\<lambda>s. concat (map (\<lambda>(name, qs). tabbed [lit ''histogram'', display sj (jindex s ''load''), name,
           lit ''p50='' @ format_quantile sj (jindex qs ''p50''), lit ''p95='' @ format_quantile sj (jindex qs ''p95'')])
         (members (jindex s ''engine_histograms''))))
       (items (jindex report ''stages''))) @ [10] @
     tabbed [lit ''knee_load'', display sj (jindex (jindex report ''knee'') ''load'')] @
     tabbed [lit ''kv_cache_util_at_knee'', display sj (jindex report ''kv_cache_util_at_knee'')]"

datatype analysis_error = TelemetryUnreadable | TelemetryInvalid | SummaryUnreadable | SummaryInvalid

fun read_rows :: "serde \<Rightarrow> ustr list \<Rightarrow> json list option" where
  "read_rows sj [] = Some []"
| "read_rows sj (l # ls) = (case from_str sj l of None \<Rightarrow> None | Some v \<Rightarrow> map_option (Cons v) (read_rows sj ls))"

text \<open>What is printed: the pretty printer is a parameter.\<close>

definition run_analysis ::
  "serde \<Rightarrow> (json \<Rightarrow> ustr) \<Rightarrow> (ustr \<Rightarrow> f64 option) \<Rightarrow> ustr option \<Rightarrow> ustr option option \<Rightarrow> bool \<Rightarrow> analysis_error + ustr" where
  "run_analysis sj pretty parse_f64 ndjson summary json_output =
     (case ndjson of
        None \<Rightarrow> Inl TelemetryUnreadable
      | Some txt \<Rightarrow>
          (case read_rows sj (filter (\<lambda>l. trim l \<noteq> []) (str_lines txt)) of
             None \<Rightarrow> Inl TelemetryInvalid
           | Some rows \<Rightarrow>
               (case (case summary of
                    None \<Rightarrow> Inr None
                  | Some None \<Rightarrow> Inl SummaryUnreadable
                  | Some (Some raw) \<Rightarrow> (case from_str sj raw of None \<Rightarrow> Inl SummaryInvalid | Some v \<Rightarrow> Inr (Some v))) of
                  Inl e \<Rightarrow> Inl e
                | Inr stdout \<Rightarrow>
                    (let report = analyze_rows sj parse_f64 rows stdout in
                     Inr (if json_output then pretty report @ [10] else render_text sj report)))))"

subsection \<open>The bucket of a quantile\<close>

definition before :: "f64 option \<times> f64 \<Rightarrow> (f64 \<times> f64) list \<Rightarrow> f64 option \<times> f64" where
  "before start pre = (if pre = [] then start else (Some (fst (last pre)), snd (last pre)))"

lemma quantile_scan_cases:
  "quantile_scan rank pl pc bins = empty_quantile \<or>
   (\<exists>pre le cnt post. bins = pre @ (le, cnt) # post \<and> (\<forall>(l, c) \<in> set pre. \<not> fle rank c) \<and> fle rank cnt \<and>
      quantile_scan rank pl pc bins = bucket_quantile rank (fst (before (pl, pc) pre)) (snd (before (pl, pc) pre)) le cnt)"
proof (induction rank pl pc bins rule: quantile_scan.induct)
  case (2 rank pl pc le cnt bins)
  show ?case
  proof (cases "fle rank cnt")
    case True
    then show ?thesis by (intro disjI2 exI [of _ "[]"] exI [of _ le] exI [of _ cnt] exI [of _ bins]) (simp add: before_def)
  next
    case False
    show ?thesis
    proof (cases "quantile_scan rank (Some le) cnt bins = empty_quantile")
      case False
      with 2 \<open>\<not> fle rank cnt\<close> obtain pre le' cnt' post where pre: "bins = pre @ (le', cnt') # post"
          "\<forall>(l, c) \<in> set pre. \<not> fle rank c" "fle rank cnt'"
          "quantile_scan rank (Some le) cnt bins =
             bucket_quantile rank (fst (before (Some le, cnt) pre)) (snd (before (Some le, cnt) pre)) le' cnt'"
        by blast
      moreover have "before (pl, pc) ((le, cnt) # pre) = before (Some le, cnt) pre" by (simp add: before_def)
      ultimately show ?thesis using \<open>\<not> fle rank cnt\<close>
        by (intro disjI2 exI [of _ "(le, cnt) # pre"] exI [of _ le'] exI [of _ cnt'] exI [of _ post]) simp
    qed (use False in simp)
  qed
qed simp

definition bucket_ok :: "f64 \<times> f64 \<Rightarrow> bool" where
  "bucket_ok b \<longleftrightarrow> is_f64 (fst b) \<and> nonneg (fst b) \<and> is_f64 (snd b) \<and> nonneg (snd b) \<and> is_finite (snd b)"

lemma fsub_ok:
  assumes "is_f64 x" "is_finite x" "nonneg y" "y \<le> x"
  shows "nonneg (fsub x y) \<and> is_finite (fsub x y)"
proof -
  obtain a where x: "x = Fin a" using assms(2) by (rule is_finiteE)
  then obtain b where y: "y = Fin b" "0 \<le> b" "b \<le> a" using assms(3,4) by (cases y) auto
  have "rnd (a - b) \<le> rnd a" "Fin 0 \<le> rnd (a - b)" using y rnd_mono [of "a - b" a] f64_round.nonneg [of "a - b"] by auto
  moreover have "rnd a = Fin a" using assms(1) x by simp
  ultimately show ?thesis by (cases "rnd (a - b)") (auto simp: x y fsub_def nonneg_def)
qed

lemma unit_scaled_ok:
  assumes "fle (Fin 0) q" "fle q (Fin 1)" "is_f64 x" "is_finite x" "nonneg x"
  shows "is_f64 (fmul q x) \<and> is_finite (fmul q x)"
proof -
  obtain t where t: "x = Fin t" "0 \<le> t" using assms(4,5) by (auto elim!: is_finiteE)
  obtain a where a: "q = Fin a" "0 \<le> a" "a \<le> 1" using assms(1,2) by (cases q) (auto simp: fle_def)
  have "rnd (a * t) \<le> rnd t" "Fin 0 \<le> rnd (a * t)"
    using a t mult_right_mono [of a 1 t] by (auto intro: rnd_mono f64_round.nonneg)
  then show ?thesis using assms(3) by (cases "rnd (a * t)") (auto simp: a t fmul_def dest: rnd_idem)
qed

lemma interpolated_above:
  assumes "bucket_ok (l, c0)" "bucket_ok (u, c1)" "is_finite u" "l \<le> u" "is_f64 rank" "is_finite rank"
    and "\<not> fle rank c0" "fle rank c1"
    and "q_value (bucket_quantile rank (Some l) c0 u c1) = Some v"
  shows "l \<le> v"
proof (cases "feq c1 c0")
  case True
  then show ?thesis using assms(3,4,9) by (auto simp: bucket_quantile_def is_infinite_def elim: is_finiteE)
next
  case False
  obtain r a b where fin: "rank = Fin r" "c0 = Fin a" "c1 = Fin b" using assms(1,2,6) by (auto simp: bucket_ok_def elim!: is_finiteE)
  then have ab: "a < r" "r \<le> b" "a < b" using assms(7,8) by auto
  have v: "v = fadd l (fdiv (fmul (fsub u l) (fsub rank c0)) (fsub c1 c0))"
    using assms(3,9) False by (auto simp: bucket_quantile_def is_infinite_def elim: is_finiteE)
  have "nonneg (fsub u l) \<and> is_finite (fsub u l)" using assms(1-4) by (intro fsub_ok) (auto simp: bucket_ok_def)
  moreover have "nonneg (fsub rank c0) \<and> is_finite (fsub rank c0)"
    using assms(1,5,6) ab by (intro fsub_ok) (auto simp: bucket_ok_def fin)
  moreover have "is_finite (fsub c1 c0) \<and> flt (Fin 0) (fsub c1 c0)"
    using fsub_ok [of c1 c0] flt_fsub [of c1 c0] assms(1,2) ab by (auto simp: bucket_ok_def fin)
  ultimately have "nonneg (fdiv (fmul (fsub u l) (fsub rank c0)) (fsub c1 c0))" by (intro nonneg_fdiv nonneg_fmul) auto
  then show ?thesis using assms(1) unfolding v by (intro fadd_ge) (auto simp: bucket_ok_def)
qed

text \<open>What a result says of the buckets in the order of their bounds.\<close>

definition quantile_spec :: "(f64 \<times> f64) list \<Rightarrow> f64 \<Rightarrow> quantile \<Rightarrow> bool" where
  "quantile_spec bins rank res \<longleftrightarrow>
    (\<forall>v. q_value res = Some v \<longrightarrow>
       (\<exists>pre l c0 u c1 post. bins = pre @ (l, c0) # (u, c1) # post \<and> (\<forall>(le, c) \<in> set (pre @ [(l, c0)]). \<not> fle rank c) \<and>
          fle rank c1 \<and> is_finite u \<and> l \<le> v)) \<and>
    (q_reason res = Some ''below_first_bucket'' \<longrightarrow>
       (\<exists>u c1 post. bins = (u, c1) # post \<and> fle rank c1 \<and> q_bound res = Some u)) \<and>
    (q_reason res = Some ''above_last_bucket'' \<longrightarrow>
       (\<exists>pre l c0 u c1 post. bins = pre @ (l, c0) # (u, c1) # post \<and> (\<forall>(le, c) \<in> set (pre @ [(l, c0)]). \<not> fle rank c) \<and>
          fle rank c1 \<and> is_infinite u \<and> q_bound res = Some l))"

lemma quantile_spec_first:
  assumes "fle rank cnt" shows "quantile_spec ((le, cnt) # post) rank (bucket_quantile rank None (Fin 0) le cnt)"
  using assms by (auto simp: quantile_spec_def bucket_quantile_def empty_quantile_def split: if_splits)

lemma quantile_spec_later:
  assumes bins: "bins = pre @ (l, c0) # (le, cnt) # post" and ok: "\<forall>b \<in> set bins. bucket_ok b" and "l \<le> le"
    and not: "\<forall>(le, c) \<in> set (pre @ [(l, c0)]). \<not> fle rank c" and cnt: "fle rank cnt"
    and rank: "is_f64 rank" "is_finite rank"
  shows "quantile_spec bins rank (bucket_quantile rank (Some l) c0 le cnt)"
proof -
  define res where "res = bucket_quantile rank (Some l) c0 le cnt"
  have okb: "bucket_ok (l, c0)" "bucket_ok (le, cnt)" using ok by (auto simp: bins)
  have "l \<le> v \<and> is_finite le" if "q_value res = Some v" for v
  proof -
    have "is_finite le" using that okb(2) unfolding res_def
      by (cases le) (auto simp: bucket_quantile_def is_infinite_def bucket_ok_def)
    then show ?thesis
      using interpolated_above [OF okb(1,2) _ \<open>l \<le> le\<close>] rank not cnt that unfolding res_def by auto
  qed
  moreover have "q_reason res = Some ''above_last_bucket'' \<Longrightarrow> is_infinite le \<and> q_bound res = Some l"
      "q_reason res \<noteq> Some ''below_first_bucket''"
    unfolding res_def by (auto simp: bucket_quantile_def split: if_splits)
  ultimately show ?thesis using bins not cnt unfolding quantile_spec_def res_def [symmetric] by blast
qed

text \<open>
  C36: The quantile of a histogram: a value is interpolated in the first bucket, in the order of the
  bounds, whose cumulative count reaches the rank, and is never below that bucket's lower bound; a
  report of a quantile below or above the buckets names the first bucket, which then holds the rank,
  or the last bound before the infinite bucket that holds it. Bounds and counts must be non-negative
  binary64 numbers, the counts finite.
\<close>

theorem histogram_quantile_bucket:
  assumes "list_all bucket_ok buckets"
  shows "let bins = sort_key fst buckets; rank = fmul q (snd (last bins)); res = histogram_quantile buckets q in
    (\<forall>v. q_value res = Some v \<longrightarrow>
       (\<exists>pre l c0 u c1 post. bins = pre @ (l, c0) # (u, c1) # post \<and> (\<forall>(le, c) \<in> set (pre @ [(l, c0)]). \<not> fle rank c) \<and>
          fle rank c1 \<and> is_finite u \<and> l \<le> v)) \<and>
    (q_reason res = Some ''below_first_bucket'' \<longrightarrow>
       (\<exists>u c1 post. bins = (u, c1) # post \<and> fle rank c1 \<and> q_bound res = Some u)) \<and>
    (q_reason res = Some ''above_last_bucket'' \<longrightarrow>
       (\<exists>pre l c0 u c1 post. bins = pre @ (l, c0) # (u, c1) # post \<and> (\<forall>(le, c) \<in> set (pre @ [(l, c0)]). \<not> fle rank c) \<and>
          fle rank c1 \<and> is_infinite u \<and> q_bound res = Some l))"
proof -
  define bins where "bins = sort_key fst buckets"
  define rank where "rank = fmul q (snd (last bins))"
  define res where "res = histogram_quantile buckets q"
  have ok: "\<forall>b \<in> set bins. bucket_ok b" and sorted: "sorted (map fst bins)" using assms by (auto simp: bins_def list_all_iff)
  have scan: "res = empty_quantile \<or> bins \<noteq> [] \<and> fle (Fin 0) q \<and> fle q (Fin 1) \<and> res = quantile_scan rank None (Fin 0) bins"
    unfolding res_def histogram_quantile_def Let_def bins_def [symmetric] rank_def [symmetric]
    by (auto simp: bins_def dest: arg_cong [of _ _ set])
  consider "res = empty_quantile"
    | pre le cnt post where "bins = pre @ (le, cnt) # post" "\<forall>(l, c) \<in> set pre. \<not> fle rank c" "fle rank cnt"
        "res = bucket_quantile rank (fst (before (None, Fin 0) pre)) (snd (before (None, Fin 0) pre)) le cnt"
        "bins \<noteq> []" "fle (Fin 0) q" "fle q (Fin 1)"
    using quantile_scan_cases [of rank None "Fin 0" bins] scan by metis
  then have "quantile_spec bins rank res"
  proof cases
    case 1
    then show ?thesis by (simp add: quantile_spec_def empty_quantile_def)
  next
    case (2 pre le cnt post)
    have "is_f64 rank \<and> is_finite rank"
      using ok 2(5-7) unfolding rank_def by (intro unit_scaled_ok) (auto simp: bucket_ok_def)
    then show ?thesis
      using 2 quantile_spec_first quantile_spec_later [OF _ ok] sorted
      by (cases pre rule: rev_cases) (auto simp: before_def sorted_append)
  qed
  then show ?thesis unfolding quantile_spec_def bins_def [symmetric] Let_def rank_def [symmetric] res_def [symmetric] .
qed

definition demo_buckets :: "(f64 \<times> f64) list" where
  "demo_buckets = [(PInf, Fin 10), (Fin 1, Fin 2), (Fin 2, Fin 10)]"

theorem histogram_quantile_bucket_witness:
  "q_value (histogram_quantile demo_buckets (Fin (1 / 2))) = Some (Fin (11 / 8)) \<and>
   (\<exists>pre l c0 u c1 post. sort_key fst demo_buckets = pre @ (l, c0) # (u, c1) # post \<and> is_finite u \<and> l \<le> Fin (11 / 8))"
proof -
  have v: "q_value (histogram_quantile demo_buckets (Fin (1 / 2))) = Some (Fin (11 / 8))" by code_simp
  have "list_all bucket_ok demo_buckets" by code_simp
  from histogram_quantile_bucket [OF this, of "Fin (1 / 2)"] v show ?thesis unfolding Let_def by blast
qed

subsection \<open>Several sources\<close>

definition reading :: "string \<Rightarrow> string \<Rightarrow> nat \<Rightarrow> nat \<Rightarrow> json" where
  "reading src name t v =
     jobject [(''kind'', jstr ''telemetry''), (''src'', jstr src), (''metric'', jstr name), (''t_ns'', jnat t), (''value'', jnat v)]"

text \<open>
  Power is added only over readings of the very same instant: two hosts that draw 300 W each, read
  in turns, have a mean of 300 W, but 600 W at an instant at which both are read.
\<close>

lemma alternating_power_is_averaged:
  "time_weighted_mean (power_samples
      [reading ''a'' ''hw_power'' 0 300, reading ''b'' ''hw_power'' 1000000000 300]) = Some (Fin 300) \<and>
   power_samples [reading ''a'' ''hw_power'' 0 300, reading ''b'' ''hw_power'' 0 300] = [(0, Fin 600)]"
  by code_simp

text \<open>
  The energy counters are grouped by their labels alone, without the source: the counters of two
  hosts become one series, which seems to fall.
\<close>

lemma energy_of_two_hosts_is_lost:
  "let a = [reading ''a'' ''hw_energy'' 0 100, reading ''a'' ''hw_energy'' 2 150];
       b = [reading ''b'' ''hw_energy'' 1 10, reading ''b'' ''hw_energy'' 3 60] in
   energy_delta sj a = Some (Fin 50) \<and> energy_delta sj b = Some (Fin 50) \<and> energy_delta sj (a @ b) = None"
  by code_simp

end
