(* ===== verification/Count_Points.thy ===== *)
theory Count_Points
  imports Json Float_Format
begin

text \<open>
  The count of the quantities in a data log (\<open>src/count_points.rs\<close>): the distributions, blocks and
  scalars of a summary, the numeric fields of the requests, duplicates, and the table of two tools.
  Files are their text; the JSON reader and printer are parameters. The printer pads no value.
\<close>

definition BENCH_SKIP :: "string list" where
  "BENCH_SKIP = [''config'', ''environment'', ''sut'', ''per_endpoint'', ''schema_version'', ''errors_by_type'']"

definition REQUEST_SKIP :: "string list" where
  "REQUEST_SKIP = [''seq'', ''error'']"

datatype shape = Distribution | Block | Scalar

record quantity =
  qu_shape :: shape
  qu_values :: nat

definition shape_label :: "shape \<Rightarrow> string" where
  "shape_label s = (case s of Distribution \<Rightarrow> ''distribution'' | Block \<Rightarrow> ''block'' | Scalar \<Rightarrow> ''scalar'')"

fun is_num :: "json \<Rightarrow> bool" where
  "is_num (JNumber n) = True"
| "is_num v = False"

definition number :: "json \<Rightarrow> f64 option" where
  "number v = as_f64 v"

fun numeric_leaves :: "json \<Rightarrow> nat" where
  "numeric_leaves (JNumber n) = 1"
| "numeric_leaves (JArray xs) = sum_list (map numeric_leaves xs)"
| "numeric_leaves (JObject m) = sum_list (map (\<lambda>kv. numeric_leaves (snd kv)) m)"
| "numeric_leaves v = 0"

definition is_distribution :: "json_map \<Rightarrow> bool" where
  "is_distribution m \<longleftrightarrow> list_all (\<lambda>k. bt_get m (lit k) \<noteq> None) [''n'', ''p50'', ''p99'']"

definition n_is_zero :: "json_map \<Rightarrow> bool" where
  "n_is_zero m = (case Option.bind (bt_get m (lit ''n'')) number of Some x \<Rightarrow> feq x (Fin 0) | None \<Rightarrow> False)"

definition distribution_slots :: "json_map \<Rightarrow> f64 option list" where
  "distribution_slots m =
     List.map_filter (\<lambda>(k, v).
         if k = lit ''percentile_method'' \<or> k = lit ''p99_unreliable'' then None
         else if n_is_zero m then map_option Some (number v)
         else if is_null v then Some None
         else map_option Some (number v)) m"

type_synonym found = "(ustr, shape \<times> f64 option list) btree"

definition note_distribution :: "ustr \<times> json_map \<Rightarrow> found \<times> ustr set \<Rightarrow> found \<times> ustr set" where
  "note_distribution d st =
     (case (d, st) of ((path, m), (found, empties)) \<Rightarrow>
        (bt_insert path (Distribution, distribution_slots m) found, if n_is_zero m then insert path empties else empties))"

lemma size_enumerate [termination_simp]:
  assumes "(i, v) \<in> set (enumerate n xs)"
  shows "size v < Suc (size_list size xs)"
proof -
  have "v \<in> set xs" using assms by (auto simp: in_set_enumerate_eq)
  then show ?thesis using size_list_estimation' [of v xs "size v" size] by simp
qed

fun split_quantities :: "json \<Rightarrow> ustr \<Rightarrow> found \<times> ustr set \<Rightarrow> nat \<times> found \<times> ustr set" where
  "split_quantities (JObject m) path st =
     (if is_distribution m then (0, note_distribution (path, m) st)
      else fold (\<lambda>(k, child) acc. case split_quantities child (path @ [46] @ k) (snd acc) of (n, st') \<Rightarrow> (fst acc + n, st'))
        m (0, st))"
| "split_quantities (JArray xs) path st =
     fold (\<lambda>(i, child) acc.
         case split_quantities child (path @ [91] @ show_nat i @ [93]) (snd acc) of (n, st') \<Rightarrow> (fst acc + n, st'))
       (enumerate 0 xs) (0, st)"
| "split_quantities (JNumber n) path st = (1, st)"
| "split_quantities v path st = (0, st)"

definition collect_member :: "string list \<Rightarrow> ustr \<times> json \<Rightarrow> found \<times> ustr set \<Rightarrow> found \<times> ustr set" where
  "collect_member skip kv st =
     (case kv of (k, v) \<Rightarrow>
        if k \<in> lit ` set skip then st
        else (case number v of
            Some x \<Rightarrow> (bt_insert k (Scalar, [Some x]) (fst st), snd st)
          | None \<Rightarrow>
              if as_object v \<noteq> None then
                (case split_quantities v k st of (leftovers, st') \<Rightarrow>
                   if 0 < leftovers then (bt_insert k (Block, replicate leftovers (Some (Fin 0))) (fst st'), snd st') else st')
              else st))"

definition collect_quantities :: "json \<Rightarrow> string list \<Rightarrow> ustr set \<Rightarrow> found \<times> ustr set" where
  "collect_quantities summary skip empties =
     (case as_object summary of None \<Rightarrow> ([], empties) | Some m \<Rightarrow> fold (collect_member skip) m ([], empties))"

definition schema_quantities :: "json \<Rightarrow> string list \<Rightarrow> (ustr, quantity) btree" where
  "schema_quantities summary skip =
     map (\<lambda>(name, (s, vs)). (name, \<lparr>qu_shape = s, qu_values = length (filter (\<lambda>v. v \<noteq> None) vs)\<rparr>))
       (fst (collect_quantities summary skip {}))"

fun is_num_array :: "json \<Rightarrow> bool" where
  "is_num_array (JArray xs) = (xs \<noteq> [] \<and> list_all is_num xs)"
| "is_num_array v = False"

fun walk_fields :: "json \<Rightarrow> ustr \<Rightarrow> bool \<Rightarrow> string list \<Rightarrow> ustr set \<Rightarrow> ustr set" where
  "walk_fields (JObject m) pre top_level skip out =
     fold (\<lambda>(k, child) out.
         if top_level \<and> k \<in> lit ` set skip then out
         else if is_num child \<or> is_num_array child then insert (pre @ k) out
         else walk_fields child (pre @ k @ [46]) False skip out) m out"
| "walk_fields v pre top_level skip out = out"

definition schema_fields :: "json \<Rightarrow> string list \<Rightarrow> ustr set" where
  "schema_fields row skip = walk_fields row [] True skip {}"

definition slot_text :: "f64 option \<Rightarrow> ustr" where
  "slot_text v = (case v of Some x \<Rightarrow> fmt_fixed 12 x | None \<Rightarrow> lit ''null'')"

definition values_key :: "f64 option list \<Rightarrow> ustr" where
  "values_key vs = join [44] (map slot_text vs)"

definition group_sizes :: "ustr list \<Rightarrow> (ustr, nat) btree" where
  "group_sizes keys = fold (\<lambda>k m. bt_insert k (unwrap_or (bt_get m k) 0 + 1) m) keys []"

definition duplicate_count :: "(ustr, f64 option list) btree \<Rightarrow> nat" where
  "duplicate_count quantities =
     sum_list (map (\<lambda>n. n - 1) (bt_values (group_sizes (map values_key (filter (\<lambda>vs. 2 \<le> length vs) (bt_values quantities))))))"

definition median :: "f64 list \<Rightarrow> f64" where
  "median values =
     (let xs = sort values; middle = length xs div 2 in
      if even (length xs) then fdiv (fadd (xs ! (middle - 1)) (xs ! middle)) (Fin 2) else xs ! middle)"

datatype count_error =
    LogUnreadable
  | LineInvalid
  | NoSummary
  | SummaryNotObject
  | PacingIncomplete
  | PacingTooHigh f64 f64
  | RowWithoutTool
  | ArtifactUnreadable
  | ArtifactInvalid

fun parse_lines :: "serde \<Rightarrow> ustr list \<Rightarrow> count_error + json list" where
  "parse_lines sj [] = Inr []"
| "parse_lines sj (l # ls) =
     (if trim l = [] then parse_lines sj ls
      else (case from_str sj l of None \<Rightarrow> Inl LineInvalid | Some v \<Rightarrow> map_sum id (Cons v) (parse_lines sj ls)))"

definition read_jsonl :: "serde \<Rightarrow> ustr option \<Rightarrow> count_error + json list" where
  "read_jsonl sj file = (case file of None \<Rightarrow> Inl LogUnreadable | Some txt \<Rightarrow> parse_lines sj (str_lines txt))"

definition schema_ends :: "string list \<Rightarrow> json \<Rightarrow> bool" where
  "schema_ends suffixes row =
     (case as_str (jindex row ''schema_version'') of Some v \<Rightarrow> list_ex (\<lambda>s. ends_with (lit s) v) suffixes | None \<Rightarrow> False)"

text \<open>The check that the answers were paced: the median of the ratios of the successes.\<close>

definition pacing_of :: "f64 list \<Rightarrow> nat \<Rightarrow> f64 \<Rightarrow> count_error + f64" where
  "pacing_of ratios successes max_ttft_ratio =
     (if successes = 0 \<or> length ratios < successes then Inl PacingIncomplete
      else (let pacing = median ratios in
        if flt max_ttft_ratio pacing then Inl (PacingTooHigh pacing max_ttft_ratio) else Inr pacing))"

definition ratio_of :: "json \<Rightarrow> json \<Rightarrow> f64 option" where
  "ratio_of ttft e2e =
     (case (number ttft, number e2e) of
        (Some t, Some e) \<Rightarrow> if flt (Fin 0) e then Some (fdiv t e) else None
      | _ \<Rightarrow> None)"

definition shapes_of :: "shape \<Rightarrow> found \<Rightarrow> nat" where
  "shapes_of s found = length (filter (\<lambda>(_, (t, _)). t = s) found)"

definition total_values :: "(ustr, f64 option list) btree \<Rightarrow> nat" where
  "total_values quantities = sum_list (map length (bt_values quantities))"

definition null_count :: "(ustr, f64 option list) btree \<Rightarrow> nat" where
  "null_count quantities = length (filter (\<lambda>v. v = None) (concat (bt_values quantities)))"

definition member_values :: "json \<Rightarrow> json list" where
  "member_values v = (case as_object v of None \<Rightarrow> [] | Some m \<Rightarrow> map snd m)"

definition endpoint_quantities :: "json \<Rightarrow> nat" where
  "endpoint_quantities endpoint =
     length (filter (\<lambda>v. number v \<noteq> None \<or> as_object v \<noteq> None \<and> 0 < numeric_leaves v) (member_values endpoint))"

definition measured_requests :: "json list \<Rightarrow> json list" where
  "measured_requests rows =
     filter (\<lambda>r. schema_ends [''.request.v3'', ''.request.v4'', ''.request.v5''] r \<and> jindex r ''phase'' = jstr ''measure'') rows"

definition succeeded_rows :: "json list \<Rightarrow> json list" where
  "succeeded_rows rows = filter (\<lambda>r. is_null (jindex r ''error'')) rows"

definition bench_report :: "json \<Rightarrow> json list \<Rightarrow> found \<times> ustr set \<Rightarrow> f64 \<Rightarrow> json" where
  "bench_report summary measured classified pacing =
     (let found = fst classified; quantities = map (\<lambda>(k, (_, vs)). (k, vs)) found;
          fields = fold (\<lambda>row out. out \<union> schema_fields row REQUEST_SKIP) measured {} in
      jobject [(''tool'', jstr ''bench''), (''tool_version'', jindex (jindex summary ''environment'') ''package_version''),
        (''quantities'', jnat (length quantities)), (''values'', jnat (total_values quantities)),
        (''null_values'', jnat (null_count quantities)), (''empty_dists'', jnat (card (snd classified))),
        (''per_request'', jnat (card fields)), (''duplicates'', jnat (duplicate_count quantities)),
        (''dists'', jnat (shapes_of Distribution found)), (''blocks'', jnat (shapes_of Block found)),
        (''measured_requests'', jnat (length measured)),
        (''error_quantities'', jnat (length (filter (\<lambda>v. 0 < numeric_leaves v) (member_values (jindex summary ''errors_by_type''))))),
        (''per_endpoint_quantities'', jnat (sum_list (map endpoint_quantities (member_values (jindex summary ''per_endpoint''))))),
        (''median_ttft_over_e2e'', jf64 pacing)])"

definition count_bench :: "serde \<Rightarrow> ustr option \<Rightarrow> f64 \<Rightarrow> count_error + json" where
  "count_bench sj file max_ttft_ratio =
     (case read_jsonl sj file of
        Inl e \<Rightarrow> Inl e
      | Inr rows \<Rightarrow>
          (case find (schema_ends [''.summary.v3'', ''.summary.v4'', ''.summary.v5'']) (rev rows) of
             None \<Rightarrow> Inl NoSummary
           | Some summary \<Rightarrow>
               if as_object summary = None then Inl SummaryNotObject
               else (let measured = measured_requests rows; good = succeeded_rows measured;
                         ratios = List.map_filter (\<lambda>r. ratio_of (jindex r ''ttft_s'') (jindex r ''latency_s'')) good in
                 map_sum id (bench_report summary measured (collect_quantities summary BENCH_SKIP {}))
                   (pacing_of ratios (length good) max_ttft_ratio))))"

subsection \<open>The other tool\<close>

record aiperf_state =
  ap_quantities :: "(ustr, f64 option list) btree"
  ap_empty :: "ustr set"
  ap_distributions :: nat
  ap_blocks :: nat
  ap_error_quantities :: nat

definition AIPERF_SKIP :: "string list" where
  "AIPERF_SKIP = [''input_config'', ''run_info'', ''warmup_metrics'', ''error_summary'']"

definition block_slots :: "bool \<Rightarrow> json_map \<Rightarrow> f64 option list" where
  "block_slots is_empty values =
     List.map_filter (\<lambda>(k, v).
         if k = lit ''unit'' then None
         else if is_empty then map_option Some (number v)
         else if is_null v then Some None
         else map_option Some (number v)) values"

definition aiperf_member :: "ustr \<times> json \<Rightarrow> aiperf_state \<Rightarrow> aiperf_state" where
  "aiperf_member kv st =
     (case kv of (name, block) \<Rightarrow>
        if name \<in> lit ` set AIPERF_SKIP then st
        else (case option_filter (\<lambda>m. bt_get m (lit ''unit'') \<noteq> None) (as_object block) of
            None \<Rightarrow> st
          | Some values \<Rightarrow>
              if starts_with (lit ''error_'') name then st\<lparr>ap_error_quantities := ap_error_quantities st + 1\<rparr>
              else (let is_empty = (case Option.bind (bt_get values (lit ''count'')) number of Some x \<Rightarrow> feq x (Fin 0) | None \<Rightarrow> False);
                        slots = block_slots is_empty values in
                if list_all (\<lambda>v. v = None) slots then st
                else (let st1 = st\<lparr>ap_quantities := bt_insert name slots (ap_quantities st),
                            ap_empty := (if is_empty then insert name (ap_empty st) else ap_empty st)\<rparr> in
                  if 1 < length slots then
                    (if bt_get values (lit ''count'') \<noteq> None \<and> bt_get values (lit ''p1'') \<noteq> None
                     then st1\<lparr>ap_distributions := ap_distributions st + 1\<rparr> else st1\<lparr>ap_blocks := ap_blocks st + 1\<rparr>)
                  else st1))))"

definition metric_names :: "json \<Rightarrow> ustr list" where
  "metric_names metrics =
     (case as_object metrics of
        None \<Rightarrow> []
      | Some m \<Rightarrow> map fst (filter (\<lambda>(_, v). \<not> is_null (jindex v ''value'')) m))"

definition metric_value_of :: "json \<Rightarrow> string \<Rightarrow> json" where
  "metric_value_of row name = jindex (jindex (jindex row ''metrics'') name) ''value''"

definition count_aiperf :: "serde \<Rightarrow> ustr option \<Rightarrow> ustr option \<Rightarrow> f64 \<Rightarrow> count_error + json" where
  "count_aiperf sj summary_file records_file max_ttft_ratio =
     (case summary_file of
        None \<Rightarrow> Inl ArtifactUnreadable
      | Some raw \<Rightarrow>
          (case from_str sj raw of
             None \<Rightarrow> Inl ArtifactInvalid
           | Some summary \<Rightarrow>
               (case as_object summary of
                  None \<Rightarrow> Inl SummaryNotObject
                | Some blocks \<Rightarrow>
                    (case read_jsonl sj records_file of
                       Inl e \<Rightarrow> Inl e
                     | Inr rows \<Rightarrow>
                         (let st = fold aiperf_member blocks
                              \<lparr>ap_quantities = [], ap_empty = {}, ap_distributions = 0, ap_blocks = 0, ap_error_quantities = 0\<rparr>;
                            measured = filter (\<lambda>r. Option.bind (pointer r [''metadata'', ''benchmark_phase'']) as_str = Some (lit ''profiling'')) rows;
                            good = succeeded_rows measured;
                            fields = fold (\<lambda>r out. out \<union> set (metric_names (jindex r ''metrics''))) good {};
                            ratios = List.map_filter
                              (\<lambda>r. ratio_of (metric_value_of r ''time_to_first_token'') (metric_value_of r ''request_latency'')) good in
                          map_sum id (\<lambda>pacing. jobject [(''tool'', jstr ''aiperf''), (''tool_version'', jindex summary ''aiperf_version''),
                              (''quantities'', jnat (length (ap_quantities st))), (''values'', jnat (total_values (ap_quantities st))),
                              (''null_values'', jnat (null_count (ap_quantities st))), (''empty_dists'', jnat (card (ap_empty st))),
                              (''per_request'', jnat (card fields)), (''duplicates'', jnat (duplicate_count (ap_quantities st))),
                              (''dists'', jnat (ap_distributions st)), (''blocks'', jnat (ap_blocks st)),
                              (''measured_requests'', jnat (length measured)), (''error_quantities'', jnat (ap_error_quantities st)),
                              (''median_ttft_over_e2e'', jf64 pacing)])
                            (pacing_of ratios (length good) max_ttft_ratio))))))"

subsection \<open>The table\<close>

definition pad_left_to :: "nat \<Rightarrow> ustr \<Rightarrow> ustr" where
  "pad_left_to w s = replicate (w - length s) 32 @ s"

definition pad_to :: "nat \<Rightarrow> ustr \<Rightarrow> ustr" where
  "pad_to w s = s @ replicate (w - length s) 32"

fun table_rows :: "json list \<Rightarrow> (ustr, (ustr, json) btree) btree \<Rightarrow> count_error + (ustr, (ustr, json) btree) btree" where
  "table_rows [] m = Inr m"
| "table_rows (row # rows) m =
     (case as_str (jindex row ''tool'') of
        None \<Rightarrow> Inl RowWithoutTool
      | Some tool \<Rightarrow>
          (let scenario = unwrap_or (as_str (jindex row ''scenario'')) (lit ''?'') in
           table_rows rows (bt_insert scenario (bt_insert tool row (unwrap_or (bt_get m scenario) [])) m)))"

definition bar :: "ustr list \<Rightarrow> ustr" where
  "bar cells = lit ''| '' @ join (lit '' | '') cells @ lit '' |'' @ [10]"

definition format_cell :: "serde \<Rightarrow> (ustr, json) btree \<Rightarrow> string \<Rightarrow> ustr" where
  "format_cell sj tools tool =
     (case bt_get tools (lit tool) of
        None \<Rightarrow> lit ''n/a''
      | Some row \<Rightarrow> join (lit '' / '') (map (\<lambda>k. to_string sj (jindex row k)) [''quantities'', ''values'', ''per_request'']))"

definition detail_line :: "serde \<Rightarrow> ustr \<Rightarrow> (ustr, json) btree \<Rightarrow> string \<Rightarrow> ustr" where
  "detail_line sj scenario tools tool =
     (case bt_get tools (lit tool) of
        None \<Rightarrow> []
      | Some row \<Rightarrow>
          (let ratio = (case as_f64 (jindex row ''median_ttft_over_e2e'') of Some x \<Rightarrow> fmt_fixed 3 x | None \<Rightarrow> lit ''n/a'') in
           bar ([pad_to 10 scenario, pad_to 6 (lit tool)] @
             map (\<lambda>k. to_string sj (jindex row k))
               [''dists'', ''empty_dists'', ''blocks'', ''duplicates'', ''null_values'', ''measured_requests''] @
             [pad_left_to 15 ratio])))"

definition TABLE_HEAD :: ustr where
  "TABLE_HEAD =
     lit ''| Scenario   | AIPerf quantities / values / per-request | Bench quantities / values / per-request |'' @ [10] @
     lit ''|------------|------------------------------------------|-----------------------------------------|'' @ [10]"

definition DETAIL_HEAD :: ustr where
  "DETAIL_HEAD =
     [10] @ lit ''| Scenario   | Tool   | dists | empty dists | blocks | duplicates | null values | measured | median TTFT/E2E |'' @ [10] @
     lit ''|------------|--------|-------|-------------|--------|------------|-------------|----------|-----------------|'' @ [10]"

definition table :: "serde \<Rightarrow> ustr option \<Rightarrow> count_error + ustr" where
  "table sj file =
     (case read_jsonl sj file of
        Inl e \<Rightarrow> Inl e
      | Inr rows \<Rightarrow>
          map_sum id (\<lambda>m.
              TABLE_HEAD @
              concat (map (\<lambda>(scenario, tools).
                bar [pad_to 10 scenario, pad_to 40 (format_cell sj tools ''aiperf''), pad_to 39 (format_cell sj tools ''bench'')]) m) @
              DETAIL_HEAD @
              concat (map (\<lambda>(scenario, tools). concat (map (detail_line sj scenario tools) [''aiperf'', ''bench''])) m))
            (table_rows rows []))"

subsection \<open>Every number is counted once\<close>

text \<open>The numbers outside distributions, and the distributions with their paths, in order.\<close>

fun bare_leaves :: "json \<Rightarrow> nat" where
  "bare_leaves (JObject m) = (if is_distribution m then 0 else sum_list (map (\<lambda>(_, child). bare_leaves child) m))"
| "bare_leaves (JArray xs) = sum_list (map bare_leaves xs)"
| "bare_leaves (JNumber n) = 1"
| "bare_leaves v = 0"

fun distributions :: "json \<Rightarrow> ustr \<Rightarrow> (ustr \<times> json_map) list" where
  "distributions (JObject m) path =
     (if is_distribution m then [(path, m)] else concat (map (\<lambda>(k, child). distributions child (path @ [46] @ k)) m))"
| "distributions (JArray xs) path =
     concat (map (\<lambda>(i, child). distributions child (path @ [91] @ show_nat i @ [93])) (enumerate 0 xs))"
| "distributions v path = []"

lemma fold_split:
  fixes add :: "'d \<Rightarrow> 's \<Rightarrow> 's"
  assumes "\<And>k c st. (k, c) \<in> set cs \<Longrightarrow> split c (p k) st = (b c, fold add (ds c (p k)) st)"
  shows "fold (\<lambda>(k, c) acc. case split c (p k) (snd acc) of (n, st') \<Rightarrow> (fst acc + n, st')) cs (a, st) =
    (a + sum_list (map (\<lambda>(_, c). b c) cs), fold add (concat (map (\<lambda>(k, c). ds c (p k)) cs)) st)"
  using assms by (induction cs arbitrary: a st) (auto simp: add.assoc)

lemma map_enumerate_snd: "map (\<lambda>(_, c). f c) (enumerate n xs) = map f xs"
  by (induction xs arbitrary: n) auto

lemma split_quantities_exact:
  "split_quantities v path st = (bare_leaves v, fold note_distribution (distributions v path) st)"
proof (induction v path arbitrary: st rule: distributions.induct)
  case (1 m path)
  then show ?case
    using fold_split [of m split_quantities "\<lambda>k. path @ [46] @ k" bare_leaves note_distribution distributions 0 st] by auto
next
  case (2 xs path)
  show ?case
    using 2 map_enumerate_snd [of bare_leaves 0 xs] fold_split [of "enumerate 0 xs" split_quantities "\<lambda>i. path @ [91] @ show_nat i @ [93]" bare_leaves note_distribution
        distributions 0 st] by simp
qed simp_all

lemma leaves_partition:
  "numeric_leaves v = bare_leaves v + sum_list (map (\<lambda>(_, m). numeric_leaves (JObject m)) (distributions v path))"
proof (induction v path rule: distributions.induct)
  case (1 m path)
  show ?case
  proof (cases "is_distribution m")
    case False
    have "sum_list (map (\<lambda>kv. numeric_leaves (snd kv)) m) =
        sum_list (map (\<lambda>(k, c). bare_leaves c +
          sum_list (map (\<lambda>(_, m). numeric_leaves (JObject m)) (distributions c (path @ [46] @ k)))) m)"
      using 1 [OF False] by (intro arg_cong [of _ _ sum_list] map_cong) (auto simp del: numeric_leaves.simps)
    also have "\<dots> = sum_list (map (\<lambda>(_, c). bare_leaves c) m) +
        sum_list (map (\<lambda>(_, m). numeric_leaves (JObject m)) (concat (map (\<lambda>(k, c). distributions c (path @ [46] @ k)) m)))"
      by (induction m) (auto simp del: numeric_leaves.simps)
    finally show ?thesis using False by simp
  qed simp
next
  case (2 xs path)
  let ?step = "\<lambda>i. path @ [91] @ show_nat i @ [93]"
  have "sum_list (map (\<lambda>(_, c). numeric_leaves c) es) =
      sum_list (map (\<lambda>(_, c). bare_leaves c) es) +
      sum_list (map (\<lambda>(_, m). numeric_leaves (JObject m)) (concat (map (\<lambda>(i, c). distributions c (?step i)) es)))"
    if "set es \<subseteq> set (enumerate 0 xs)" for es
    using that
  proof (induction es)
    case (Cons e es)
    then obtain i c where e: "e = (i, c)" "(i, c) \<in> set (enumerate 0 xs)" by (cases e) auto
    show ?case using Cons 2 [OF e(2) refl] by (simp add: e(1) del: numeric_leaves.simps)
  qed simp
  from this [OF subset_refl]
  have "sum_list (map (\<lambda>(_, c). numeric_leaves c) (enumerate 0 xs)) =
      sum_list (map (\<lambda>(_, c). bare_leaves c) (enumerate 0 xs)) +
      sum_list (map (\<lambda>(_, m). numeric_leaves (JObject m)) (distributions (JArray xs) path))" by simp
  then show ?case by (simp add: map_enumerate_snd)
qed simp_all

text \<open>What the walk notes, by path: the last distribution with a path is the one that stays.\<close>

lemma noted_found:
  "bt_get (fst (fold note_distribution ds (found, empties))) k =
     (case map_of (rev ds) k of Some m \<Rightarrow> Some (Distribution, distribution_slots m) | None \<Rightarrow> bt_get found k)"
proof (induction ds arbitrary: found empties)
  case (Cons d ds)
  obtain path m where d: "d = (path, m)" by (cases d)
  show ?case
    using Cons.IH
    by (simp add: d note_distribution_def map_add_def bt_get_insert split: option.split)
qed simp

lemma noted_empties:
  "snd (fold note_distribution ds (found, empties)) = empties \<union> set (map fst (filter (\<lambda>d. n_is_zero (snd d)) ds))"
proof (induction ds arbitrary: found empties)
  case (Cons d ds)
  obtain path m where d: "d = (path, m)" by (cases d)
  show ?case using Cons.IH by (auto simp: d note_distribution_def)
qed simp

text \<open>
  C37: The walk over a summary block counts each of its numbers once: it returns the numbers
  outside distributions, and the numbers of the block are those and the ones inside its
  distributions. What it records is exactly this: under the path of a distribution the slots of the
  last distribution with that path, under every other path what was there before; and the empty
  distributions are added to the set of empty ones. So with distinct paths every distribution is
  recorded; of several with one path only the last is.
\<close>

theorem split_accounts_numbers:
  assumes "split_quantities v path (found, empties) = (n, found', empties')"
  defines "ds \<equiv> distributions v path"
  shows "n = bare_leaves v \<and>
    numeric_leaves v = n + sum_list (map (\<lambda>(_, m). numeric_leaves (JObject m)) ds) \<and>
    (\<forall>k. bt_get found' k = (case map_of (rev ds) k of
       Some m \<Rightarrow> Some (Distribution, distribution_slots m) | None \<Rightarrow> bt_get found k)) \<and>
    empties' = empties \<union> set (map fst (filter (\<lambda>d. n_is_zero (snd d)) ds)) \<and>
    (distinct (map fst ds) \<longrightarrow>
       list_all (\<lambda>(p, m). bt_get found' p = Some (Distribution, distribution_slots m)) ds)"
proof -
  have e: "n = bare_leaves v" "(found', empties') = fold note_distribution ds (found, empties)"
    using assms(1) by (simp_all add: split_quantities_exact ds_def)
  have f: "bt_get found' k = (case map_of (rev ds) k of
      Some m \<Rightarrow> Some (Distribution, distribution_slots m) | None \<Rightarrow> bt_get found k)" for k
    using noted_found [of ds found empties k] unfolding e(2) [symmetric] by simp
  have "map_of (rev ds) p = Some m" if "distinct (map fst ds)" "(p, m) \<in> set ds" for p m
    using that by (simp add: rev_map [symmetric])
  then show ?thesis
    using e(1) f noted_empties [of ds found empties] leaves_partition [of v path] unfolding e(2) [symmetric]
    by (auto simp: ds_def list_all_iff simp del: numeric_leaves.simps)
qed

definition demo_dist :: "nat \<Rightarrow> json_map" where
  "demo_dist k = [(lit ''n'', jnat 1), (lit ''p50'', jnat k), (lit ''p99'', jnat k)]"

definition demo_block :: json where
  "demo_block = JObject [(lit ''d'', JObject (demo_dist 7)), (lit ''x'', jnat 3)]"

text \<open>A nested distribution and one whose own key has a dot share a path.\<close>

definition demo_collision :: json where
  "demo_collision = JObject [(lit ''a'', JObject [(lit ''b'', JObject (demo_dist 7))]), (lit ''a.b'', JObject (demo_dist 9))]"

lemma demo_walks:
  "bare_leaves demo_block = 1 \<and> distributions demo_block (lit ''s'') = [(lit ''s.d'', demo_dist 7)] \<and>
   \<not> n_is_zero (demo_dist 7) \<and>
   distributions demo_collision (lit ''s'') = [(lit ''s.a.b'', demo_dist 7), (lit ''s.a.b'', demo_dist 9)] \<and>
   numeric_leaves demo_collision = 6 \<and> distribution_slots (demo_dist 9) = [Some (Fin 1), Some (Fin 9), Some (Fin 9)]"
  by code_simp

theorem split_accounts_numbers_witness:
  "\<exists>found. split_quantities demo_block (lit ''s'') ([], {}) = (1, found, {}) \<and>
     bt_get found (lit ''s.d'') = Some (Distribution, distribution_slots (demo_dist 7))"
proof -
  obtain n found es where s: "split_quantities demo_block (lit ''s'') ([], {}) = (n, found, es)"
    by (metis prod.collapse)
  show ?thesis using split_accounts_numbers [OF s] s demo_walks by simp
qed

text \<open>
  A block whose member names hold dots loses numbers: two distributions come under one path, and the
  three numbers of the first are in no quantity.
\<close>

lemma colliding_paths_lose_numbers:
  "fst (snd (split_quantities demo_collision (lit ''s'') ([], {}))) =
     [(lit ''s.a.b'', Distribution, [Some (Fin 1), Some (Fin 9), Some (Fin 9)])] \<and>
   numeric_leaves demo_collision = 6"
  using demo_walks
  by (simp add: split_quantities_exact note_distribution_def)

end
