(* ===== verification/Modality.thy ===== *)
theory Modality
  imports Asr Strategic Library_Files
begin

text \<open>
  Image generation bodies and answers (\<open>src/imagegen.rs\<close>), and the values a modality adds to a
  stage of a sweep (\<open>src/sweep_modality.rs\<close>). Base64, the image decoder and the digest are
  parameters.
\<close>

subsection \<open>Bodies and answers\<close>

record generation_body =
  gb_model :: ustr
  gb_prompt :: ustr
  gb_n :: nat
  gb_size :: ustr
  gb_response_format :: ustr
  gb_seed :: "int option"
  gb_negative_prompt :: "ustr option"
  gb_num_inference_steps :: "nat option"
  gb_guidance_scale :: "f64 option"
  gb_true_cfg_scale :: "f64 option"
  gb_extra :: "json_map option"

definition put_opt :: "string \<Rightarrow> ('a \<Rightarrow> json) \<Rightarrow> 'a option \<Rightarrow> json_map \<Rightarrow> json_map" where
  "put_opt k f v m = (case v of None \<Rightarrow> m | Some x \<Rightarrow> bt_insert (lit k) (f x) m)"

text \<open>The extra fields are an object, so the merge does not fail.\<close>

definition generation_json :: "generation_body \<Rightarrow> json" where
  "generation_json b =
     (let base = fold (\<lambda>(k, v). bt_insert (lit k) v)
            [(''model'', JString (gb_model b)), (''prompt'', JString (gb_prompt b)), (''n'', jnat (gb_n b)),
             (''size'', JString (gb_size b)), (''response_format'', JString (gb_response_format b))] [];
          body = put_opt ''true_cfg_scale'' jf64 (gb_true_cfg_scale b)
            (put_opt ''guidance_scale'' jf64 (gb_guidance_scale b)
              (put_opt ''num_inference_steps'' jnat (gb_num_inference_steps b)
                (put_opt ''negative_prompt'' JString (gb_negative_prompt b) (put_opt ''seed'' jint (gb_seed b) base)))) in
      JObject (case gb_extra b of
          None \<Rightarrow> body
        | Some extra \<Rightarrow> (case merge_extra_body body (JObject extra) of Inr m \<Rightarrow> m | Inl _ \<Rightarrow> body)))"

record image_codec =
  ic_base64 :: "ustr \<Rightarrow> ustr + bytes"
  ic_dimensions :: "bytes \<Rightarrow> ustr + nat \<times> nat"
  ic_sha256 :: "bytes \<Rightarrow> bytes"

definition hex_sha256 :: "image_codec \<Rightarrow> bytes \<Rightarrow> ustr" where
  "hex_sha256 cd bs = hex_digest (ic_sha256 cd bs)"

record decoded_image =
  di_bytes :: bytes
  di_sha256 :: ustr
  di_width :: nat
  di_height :: nat

type_synonym decode_error = "string \<times> ustr"

definition response_items :: "json \<Rightarrow> decode_error + json list" where
  "response_items parsed =
     (case get_array parsed ''data'' of
        Some xs \<Rightarrow> Inr xs
      | None \<Rightarrow> Inl (''schema_error'', lit ''response missing data array''))"

definition decode_image_item :: "image_codec \<Rightarrow> json \<Rightarrow> decode_error + decoded_image" where
  "decode_image_item cd item =
     (case get_str item ''b64_json'' of
        None \<Rightarrow> Inl (''schema_error'', lit ''image item missing b64_json'')
      | Some b64 \<Rightarrow>
          (case ic_base64 cd b64 of
             Inl e \<Rightarrow> Inl (''decode_error'', e)
           | Inr bs \<Rightarrow>
               (case ic_dimensions cd bs of
                  Inl e \<Rightarrow> Inl (''decode_error'', e)
                | Inr (w, h) \<Rightarrow> Inr \<lparr>di_bytes = bs, di_sha256 = hex_sha256 cd bs, di_width = w, di_height = h\<rparr>)))"

fun decode_all :: "image_codec \<Rightarrow> json list \<Rightarrow> decode_error + ustr list" where
  "decode_all cd [] = Inr []"
| "decode_all cd (item # items) =
     (case decode_image_item cd item of
        Inl e \<Rightarrow> Inl e
      | Inr im \<Rightarrow> map_sum id (Cons (di_sha256 im)) (decode_all cd items))"

definition response_image_digests :: "image_codec \<Rightarrow> json \<Rightarrow> bool \<Rightarrow> decode_error + nat \<times> ustr list" where
  "response_image_digests cd parsed b64_json =
     (case response_items parsed of
        Inl e \<Rightarrow> Inl e
      | Inr items \<Rightarrow> map_sum id (Pair (length items)) (if b64_json then decode_all cd items else Inr []))"

subsection \<open>Samples of a stage\<close>

definition VLM_KEYS :: "string list" where
  "VLM_KEYS = [''image_bytes'', ''image_count'']"

definition ASR_KEYS :: "string list" where
  "ASR_KEYS = [''audio_duration_s'', ''cer'', ''rtfx_client'', ''wer'']"

definition IMAGEGEN_KEYS :: "string list" where
  "IMAGEGEN_KEYS = [''images_requested'', ''images_returned'']"

record modality_sample =
  ms_metrics :: "(ustr, f64) btree"
  ms_image_sha256 :: "ustr list"

definition no_sample :: modality_sample where
  "no_sample = \<lparr>ms_metrics = [], ms_image_sha256 = []\<rparr>"

definition put_metric :: "string \<Rightarrow> f64 \<Rightarrow> modality_sample \<Rightarrow> modality_sample" where
  "put_metric key v s = (if is_finite v then s\<lparr>ms_metrics := bt_insert (lit key) v (ms_metrics s)\<rparr> else s)"

definition sample_vlm :: "nat \<Rightarrow> nat \<Rightarrow> modality_sample" where
  "sample_vlm image_count image_bytes =
     put_metric ''image_bytes'' (f_of_nat image_bytes) (put_metric ''image_count'' (f_of_nat image_count) no_sample)"

definition sample_asr ::
  "unicode \<Rightarrow> ustr \<Rightarrow> ustr option \<Rightarrow> normalizer \<Rightarrow> f64 option \<Rightarrow> f64 \<Rightarrow> modality_sample" where
  "sample_asr u transcript reference n audio_seconds latency =
     (let s1 = (case reference of
            None \<Rightarrow> no_sample
          | Some ref \<Rightarrow>
              (case transcript_error_rates u ref transcript n of
                 (wer, cer) \<Rightarrow> put_metric ''cer'' cer (put_metric ''wer'' wer no_sample))) in
      case option_filter (\<lambda>s. is_finite s \<and> flt (Fin 0) s) audio_seconds of
        None \<Rightarrow> s1
      | Some secs \<Rightarrow>
          (let s2 = put_metric ''audio_duration_s'' secs s1 in
           case rtfx secs latency of None \<Rightarrow> s2 | Some r \<Rightarrow> put_metric ''rtfx_client'' r s2))"

definition sample_imagegen :: "nat \<Rightarrow> nat \<Rightarrow> ustr list \<Rightarrow> modality_sample" where
  "sample_imagegen requested returned image_sha256 =
     (put_metric ''images_returned'' (f_of_nat returned) (put_metric ''images_requested'' (f_of_nat requested) no_sample))
       \<lparr>ms_image_sha256 := image_sha256\<rparr>"

record image_digests =
  id_images :: nat
  id_distinct :: nat

definition measured_samples :: "bench_record list \<Rightarrow> modality_sample list \<Rightarrow> modality_sample list" where
  "measured_samples rs samples =
     map snd (filter (\<lambda>(r, _). \<not> br_warmup r \<and> br_success r) (zip rs samples))"

definition stage_metrics :: "string list \<Rightarrow> bench_record list \<Rightarrow> modality_sample list \<Rightarrow> (ustr, dist_summary) btree" where
  "stage_metrics keys rs samples =
     fold (\<lambda>k m. bt_insert (lit k)
         (dist_from_values (List.map_filter (\<lambda>s. bt_get (ms_metrics s) (lit k)) (measured_samples rs samples))) m)
       keys []"

definition stage_image_digests :: "bench_record list \<Rightarrow> modality_sample list \<Rightarrow> image_digests" where
  "stage_image_digests rs samples =
     (let digests = concat (map ms_image_sha256 (measured_samples rs samples)) in
      \<lparr>id_images = length digests, id_distinct = card (set digests)\<rparr>)"

end
