(* ===== verification/Imagegen_Run.thy ===== *)
theory Imagegen_Run
  imports Modality Endpoints Runner Measurement
begin

text \<open>
  The image generation program (\<open>src/bin/metrum-ai-bench-cli-imagegen.rs\<close>): its arguments,
  endpoints and prompts, one logical request with its retries and the record made of it. One
  request is modelled at a time; what the client answers, the clock and the file system are
  parameters, and \<open>None\<close> is a panic.
\<close>

datatype image_format_kind = B64Json | Url

datatype seed_mode = Fixed | Increment | PromptSeed

datatype image_balancer = IbRoundRobin | IbLeastInflight | IbRandom | IbWeightedRoundRobin

definition format_text :: "image_format_kind \<Rightarrow> ustr" where
  "format_text f = (case f of B64Json \<Rightarrow> lit ''b64_json'' | Url \<Rightarrow> lit ''url'')"

record image_args =
  ia_model :: ustr
  ia_prompt :: "ustr option"
  ia_prompts :: "ustr option"
  ia_prompt_field :: ustr
  ia_id_field :: ustr
  ia_shuffle_prompts :: bool
  ia_url :: "ustr option"
  ia_endpoint :: "ustr list"
  ia_endpoints_file :: "ustr option"
  ia_api_key :: "ustr option"
  ia_size :: ustr
  ia_n :: nat
  ia_response_format :: image_format_kind
  ia_seed :: "int option"
  ia_seed_mode :: seed_mode
  ia_negative_prompt :: "ustr option"
  ia_num_inference_steps :: "nat option"
  ia_guidance_scale :: "f64 option"
  ia_true_cfg_scale :: "f64 option"
  ia_extra_body_json :: "ustr option"
  ia_extra_body_file :: "ustr option"
  ia_load_balancer :: image_balancer
  ia_request_rate :: "f64 option"
  ia_arrival :: string
  ia_concurrency :: nat
  ia_max_concurrency :: "nat option"
  ia_retry_attempts :: nat
  ia_warmup_requests :: nat
  ia_num_requests :: nat
  ia_artifact_dir :: ustr
  ia_save_response_json :: bool
  ia_no_save_images :: bool
  ia_fail_on_error :: bool
  ia_fail_on_partial :: bool

datatype image_error =
    PromptMissing
  | UrlWithEndpoint
  | UrlWithFile
  | EndpointWithFile
  | SizeMalformed
  | WarmupTooLong gate_error
  | UrlRejected url_error
  | FileUrlRejected url_error ustr
  | FileUnreadable
  | FileMalformed
  | FileWithoutEndpoints
  | NoEndpointGiven
  | PromptFieldMissing nat ustr
  | NoPrompts
  | ExtraUnreadable
  | ExtraMalformed
  | ExtraNoObject

subsection \<open>Arguments\<close>

text \<open>\<open>str::parse::<u32>\<close>.\<close>

definition parse_u32 :: "ustr \<Rightarrow> nat option" where
  "parse_u32 s = option_filter (\<lambda>n. n < 2 ^ 32) (parse_u64 s)"

definition parse_size :: "ustr \<Rightarrow> (nat \<times> nat) option" where
  "parse_size s =
     Option.bind (split_once 120 s) (\<lambda>(w, h). Option.bind (parse_u32 w) (\<lambda>a. map_option (Pair a) (parse_u32 h)))"

definition validate_args :: "image_args \<Rightarrow> image_error + unit" where
  "validate_args a =
     (if ia_prompt a = None \<and> ia_prompts a = None then Inl PromptMissing
      else if ia_url a \<noteq> None \<and> ia_endpoint a \<noteq> [] then Inl UrlWithEndpoint
      else if ia_url a \<noteq> None \<and> ia_endpoints_file a \<noteq> None then Inl UrlWithFile
      else if ia_endpoint a \<noteq> [] \<and> ia_endpoints_file a \<noteq> None then Inl EndpointWithFile
      else if parse_size (ia_size a) = None then Inl SizeMalformed
      else (case ensure_warmup_leaves_measurement (ia_warmup_requests a) (ia_num_requests a) of
          Inl e \<Rightarrow> Inl (WarmupTooLong e)
        | Inr _ \<Rightarrow> Inr ()))"

subsection \<open>Endpoints\<close>

record image_endpoint =
  ie_name :: ustr
  ie_url :: ustr
  ie_api_key :: ustr
  ie_weight :: nat

record endpoint_record =
  er_name :: "ustr option"
  er_url :: ustr
  er_api_key :: "ustr option"
  er_weight :: "nat option"

definition trim_end_slashes :: "ustr \<Rightarrow> ustr" where
  "trim_end_slashes s = rev (dropWhile (\<lambda>c. c = 47) (rev s))"

definition normalize_base_url :: "ustr \<Rightarrow> ustr" where
  "normalize_base_url url = trim_end_slashes url"

definition generations_url :: "ustr \<Rightarrow> ustr" where
  "generations_url url =
     (let trimmed = trim_end_slashes url in
      if ends_with (lit ''/images/generations'') trimmed then trimmed else trimmed @ lit ''/images/generations'')"

definition endpoint_name :: "ustr \<Rightarrow> nat \<Rightarrow> ustr" where
  "endpoint_name url idx =
     (let rest = unwrap_or (option_or (strip_prefix (lit ''https://'') url) (strip_prefix (lit ''http://'') url)) url;
          host = takeWhile (\<lambda>c. c \<noteq> 47) rest in
      if host \<noteq> [] then host else lit ''endpoint-'' @ show_nat idx)"

definition default_key :: "image_args \<Rightarrow> ustr" where
  "default_key a = unwrap_or (ia_api_key a) (lit ''dummy-api-key'')"

definition plain_endpoint :: "image_args \<Rightarrow> nat \<times> ustr \<Rightarrow> image_endpoint" where
  "plain_endpoint a p =
     (case p of (i, url) \<Rightarrow>
        \<lparr>ie_name = endpoint_name url i, ie_url = normalize_base_url url, ie_api_key = default_key a, ie_weight = 1\<rparr>)"

definition listed_endpoint :: "image_args \<Rightarrow> nat \<times> endpoint_record \<Rightarrow> image_endpoint" where
  "listed_endpoint a p =
     (case p of (i, r) \<Rightarrow>
        \<lparr>ie_name = unwrap_or (er_name r) (endpoint_name (er_url r) i), ie_url = normalize_base_url (er_url r),
         ie_api_key = unwrap_or (er_api_key r) (default_key a), ie_weight = max (unwrap_or (er_weight r) 1) 1\<rparr>)"

text \<open>The derived reader: an absent or null member is \<open>None\<close>, another type is an error.\<close>

definition opt_member :: "(json \<Rightarrow> 'a option) \<Rightarrow> json \<Rightarrow> string \<Rightarrow> 'a option option" where
  "opt_member rd v k =
     (case jget v k of
        None \<Rightarrow> Some None
      | Some x \<Rightarrow> if is_null x then Some None else map_option Some (rd x))"

definition endpoint_record_of :: "json \<Rightarrow> endpoint_record option" where
  "endpoint_record_of v =
     Option.bind (opt_member as_str v ''name'') (\<lambda>name.
     Option.bind (get_str v ''url'') (\<lambda>url.
     Option.bind (opt_member as_str v ''api_key'') (\<lambda>key.
     map_option (\<lambda>weight. \<lparr>er_name = name, er_url = url, er_api_key = key, er_weight = weight\<rparr>)
       (opt_member (\<lambda>x. option_filter (\<lambda>n. n < 2 ^ 32) (as_u64 x)) v ''weight''))))"

definition parse_endpoints_file :: "serde \<Rightarrow> ustr \<Rightarrow> endpoint_record list option" where
  "parse_endpoints_file sj raw =
     (if starts_with (lit ''{'') (trim_start raw) then
        Option.bind (from_str sj raw) (\<lambda>v. Option.bind (get_array v ''endpoints'') (\<lambda>xs. collect_some (map endpoint_record_of xs)))
      else if starts_with (lit ''['') (trim_start raw) then
        Option.bind (Option.bind (from_str sj raw) as_array) (\<lambda>xs. collect_some (map endpoint_record_of xs))
      else collect_some (map (\<lambda>l. Option.bind (from_str sj l) endpoint_record_of) (filter (\<lambda>l. trim l \<noteq> []) (str_lines raw))))"

fun first_error :: "('e + unit) list \<Rightarrow> 'e option" where
  "first_error [] = None"
| "first_error (Inl e # rs) = Some e"
| "first_error (Inr _ # rs) = first_error rs"

definition resolve_image_endpoints ::
  "serde \<Rightarrow> 'u url_ops \<Rightarrow> (ustr \<Rightarrow> ustr option) \<Rightarrow> image_args \<Rightarrow> image_error + image_endpoint list" where
  "resolve_image_endpoints sj ops read_file a =
     (case ia_url a of
        Some url \<Rightarrow>
          (case validate_endpoint_url ops url of
             Inl e \<Rightarrow> Inl (UrlRejected e)
           | Inr _ \<Rightarrow> Inr [plain_endpoint a (0, url)])
      | None \<Rightarrow>
          if ia_endpoint a \<noteq> [] then
            (case first_error (map (validate_endpoint_url ops) (ia_endpoint a)) of
               Some e \<Rightarrow> Inl (UrlRejected e)
             | None \<Rightarrow> Inr (map (plain_endpoint a) (enumerate 0 (ia_endpoint a))))
          else (case ia_endpoints_file a of
              None \<Rightarrow> Inl NoEndpointGiven
            | Some path \<Rightarrow>
                (case read_file path of
                   None \<Rightarrow> Inl FileUnreadable
                 | Some raw \<Rightarrow>
                     (case parse_endpoints_file sj raw of
                        None \<Rightarrow> Inl FileMalformed
                      | Some [] \<Rightarrow> Inl FileWithoutEndpoints
                      | Some rs \<Rightarrow>
                          (case first_error (map (\<lambda>r. validate_endpoint_url ops (er_url r)) rs) of
                             Some e \<Rightarrow> Inl (FileUrlRejected e path)
                           | None \<Rightarrow> Inr (map (listed_endpoint a) (enumerate 0 rs)))))))"

subsection \<open>Prompts\<close>

record prompt_row =
  pw_id :: ustr
  pw_prompt :: ustr
  pw_seed :: "int option"
  pw_size :: "ustr option"
  pw_negative_prompt :: "ustr option"

definition get_key :: "json \<Rightarrow> ustr \<Rightarrow> json option" where
  "get_key v k = Option.bind (as_object v) (\<lambda>m. bt_get m k)"

definition prompt_row_of :: "image_args \<Rightarrow> nat \<Rightarrow> json \<Rightarrow> image_error + prompt_row" where
  "prompt_row_of a idx v =
     (case Option.bind (get_key v (ia_prompt_field a)) as_str of
        None \<Rightarrow> Inl (PromptFieldMissing idx (ia_prompt_field a))
      | Some p \<Rightarrow>
          Inr \<lparr>pw_id = unwrap_or (Option.bind (get_key v (ia_id_field a)) as_str) (lit ''prompt-'' @ show_nat idx), pw_prompt = p,
            pw_seed = Option.bind (jget v ''seed'') as_i64, pw_size = get_str v ''size'',
            pw_negative_prompt = get_str v ''negative_prompt''\<rparr>)"

fun prompt_rows :: "serde \<Rightarrow> image_args \<Rightarrow> (nat \<times> ustr) list \<Rightarrow> image_error + prompt_row list" where
  "prompt_rows sj a [] = Inr []"
| "prompt_rows sj a ((idx, l) # ls) =
     (if trim l = [] then prompt_rows sj a ls
      else (case from_str sj l of
          None \<Rightarrow> Inl FileMalformed
        | Some v \<Rightarrow>
            (case prompt_row_of a idx v of
               Inl e \<Rightarrow> Inl e
             | Inr row \<Rightarrow> map_sum id (Cons row) (prompt_rows sj a ls))))"

text \<open>The seeded shuffle is code of the random package.\<close>

definition load_image_prompts ::
  "serde \<Rightarrow> (nat \<Rightarrow> prompt_row list \<Rightarrow> prompt_row list) \<Rightarrow> (ustr \<Rightarrow> ustr option) \<Rightarrow> image_args \<Rightarrow> image_error + prompt_row list" where
  "load_image_prompts sj shuffled read_file a =
     (case ia_prompt a of
        Some p \<Rightarrow>
          Inr [\<lparr>pw_id = lit ''prompt-0'', pw_prompt = p, pw_seed = None, pw_size = None, pw_negative_prompt = ia_negative_prompt a\<rparr>]
      | None \<Rightarrow>
          (case Option.bind (ia_prompts a) read_file of
             None \<Rightarrow> Inl FileUnreadable
           | Some raw \<Rightarrow>
               (case prompt_rows sj a (enumerate 0 (str_lines raw)) of
                  Inl e \<Rightarrow> Inl e
                | Inr [] \<Rightarrow> Inl NoPrompts
                | Inr rows \<Rightarrow>
                    Inr (if ia_shuffle_prompts a then shuffled (nat (unwrap_or (ia_seed a) 0 mod 2 ^ 64)) rows else rows))))"

definition load_extra_body :: "serde \<Rightarrow> (ustr \<Rightarrow> ustr option) \<Rightarrow> image_args \<Rightarrow> image_error + json_map option" where
  "load_extra_body sj read_file a =
     (let parse = (\<lambda>raw. case from_str sj raw of
            None \<Rightarrow> Inl ExtraMalformed
          | Some v \<Rightarrow> (case as_object v of None \<Rightarrow> Inl ExtraNoObject | Some m \<Rightarrow> Inr (Some m))) in
      case ia_extra_body_json a of
        Some s \<Rightarrow> parse s
      | None \<Rightarrow>
          (case ia_extra_body_file a of
             None \<Rightarrow> Inr None
           | Some path \<Rightarrow> (case read_file path of None \<Rightarrow> Inl ExtraUnreadable | Some raw \<Rightarrow> parse raw)))"

text \<open>Adding wraps at 64 bits in a release build.\<close>

definition resolve_seed :: "image_args \<Rightarrow> prompt_row \<Rightarrow> nat \<Rightarrow> int option" where
  "resolve_seed a p request_index =
     (case ia_seed_mode a of
        Increment \<Rightarrow>
          option_or (pw_seed p) (map_option (\<lambda>s. sint (word_of_int (s + int request_index) :: 64 word)) (ia_seed a))
      | _ \<Rightarrow> option_or (pw_seed p) (ia_seed a))"

subsection \<open>Choosing an endpoint\<close>

record ep_runtime =
  er_inflight :: nat
  er_failures :: nat
  er_ejected_until :: "nat option"

record run_state =
  st_runtime :: "(ustr, ep_runtime) btree"
  st_rr :: nat

definition is_out :: "nat \<Rightarrow> run_state \<Rightarrow> ustr \<Rightarrow> bool" where
  "is_out now st name =
     (case Option.bind (bt_get (st_runtime st) name) er_ejected_until of Some until \<Rightarrow> now < until | None \<Rightarrow> False)"

definition inflight_key :: "nat \<Rightarrow> run_state \<Rightarrow> image_endpoint \<Rightarrow> nat \<times> nat" where
  "inflight_key now st ep =
     (if is_out now st (ie_name ep) then 1 else 0,
      case bt_get (st_runtime st) (ie_name ep) of Some rt \<Rightarrow> er_inflight rt | None \<Rightarrow> 2 ^ 64 - 1)"

definition next_rr :: "run_state \<Rightarrow> run_state" where
  "next_rr st = st\<lparr>st_rr := (st_rr st + 1) mod 2 ^ 64\<rparr>"

definition weighted_list :: "image_endpoint list \<Rightarrow> image_endpoint list" where
  "weighted_list eps = concat (map (\<lambda>ep. replicate (ie_weight ep) ep) eps)"

definition choose_endpoint ::
  "image_balancer \<Rightarrow> image_endpoint list \<Rightarrow> nat \<Rightarrow> nat \<Rightarrow> run_state \<Rightarrow> (image_endpoint \<times> run_state) option" where
  "choose_endpoint strategy eps random_index now st =
     (case strategy of
        IbLeastInflight \<Rightarrow> if eps = [] then None else Some (eps ! min_index (map (inflight_key now st) eps), st)
      | IbRandom \<Rightarrow> if eps = [] then None else Some (eps ! (random_index mod length eps), st)
      | IbWeightedRoundRobin \<Rightarrow>
          (let ws = weighted_list eps in if ws = [] then None else Some (ws ! (st_rr st mod length ws), next_rr st))
      | IbRoundRobin \<Rightarrow> if eps = [] then None else Some (eps ! (st_rr st mod length eps), next_rr st))"

definition random_index_of :: "image_args \<Rightarrow> nat \<Rightarrow> nat \<Rightarrow> nat" where
  "random_index_of a request_index attempt_index =
     (request_index * 2654435761 + attempt_index + nat (unwrap_or (ia_seed a) 0 mod 2 ^ 64)) mod 2 ^ 64"

subsection \<open>One attempt\<close>

record image_artifact =
  af_index :: nat
  af_path :: ustr
  af_sha256 :: ustr
  af_bytes :: nat
  af_width :: nat
  af_height :: nat

record attempt_record =
  at_attempt :: nat
  at_endpoint :: ustr
  at_http_status :: "nat option"
  at_latency_ms :: f64

record image_success =
  is_status :: nat
  is_artifacts :: "image_artifact list"
  is_response_bytes :: nat
  is_returned :: nat
  is_first_byte :: duration
  is_service :: duration

type_synonym image_failure = "string \<times> nat option \<times> ustr"

text \<open>What the client answers: no answer, an answer whose body breaks off, or an answer with the
  clock readings at its headers and at its end.\<close>

datatype http_answer =
    SendError reqwest_error
  | BodyError nat reqwest_error
  | HttpAnswer nat bytes duration duration

record image_world =
  iw_started_at :: datetime
  iw_answer :: "nat \<Rightarrow> ustr \<Rightarrow> ustr \<Rightarrow> json \<Rightarrow> http_answer"
  iw_elapsed :: "nat \<Rightarrow> duration"
  iw_choose_at :: "nat \<Rightarrow> nat"
  iw_eject_at :: "nat \<Rightarrow> nat"
  iw_from_slice :: "bytes \<Rightarrow> ustr + json"
  iw_pretty :: "json \<Rightarrow> bytes"
  iw_write :: "ustr \<Rightarrow> bytes \<Rightarrow> ustr option"
  iw_codec :: image_codec
  iw_read_file :: "ustr \<Rightarrow> ustr option"
  iw_serde :: serde
  iw_extra_error :: "image_error \<Rightarrow> ustr"
  iw_trace :: "nat \<Rightarrow> http_trace"

definition send_kind :: "request_error \<Rightarrow> string" where
  "send_kind e = (case e of Timeout \<Rightarrow> ''timeout'' | Connect \<Rightarrow> ''connect'' | _ \<Rightarrow> ''request_error'')"

definition body_kind :: "request_error \<Rightarrow> string" where
  "body_kind e = (case e of Timeout \<Rightarrow> ''timeout'' | Connect \<Rightarrow> ''connect'' | _ \<Rightarrow> ''connection_error'')"

definition pad_six :: "nat \<Rightarrow> ustr" where
  "pad_six n = (let s = show_nat n in replicate (6 - length s) 48 @ s)"

definition join_path :: "ustr \<Rightarrow> ustr \<Rightarrow> ustr" where
  "join_path dir name = (if dir = [] \<or> ends_with [47] dir then dir @ name else dir @ [47] @ name)"

fun save_images ::
  "image_world \<Rightarrow> image_args \<Rightarrow> nat \<Rightarrow> nat \<Rightarrow> (nat \<times> json) list \<Rightarrow> image_artifact list \<Rightarrow> image_failure + image_artifact list" where
  "save_images w a request_index status [] acc = Inr acc"
| "save_images w a request_index status ((idx, item) # items) acc =
     (case decode_image_item (iw_codec w) item of
        Inl (kind, msg) \<Rightarrow> Inl (kind, Some status, msg)
      | Inr im \<Rightarrow>
          (let path = join_path (ia_artifact_dir a) (pad_six (request_index + 1) @ [45] @ show_nat idx @ lit ''.png'') in
           case (if ia_no_save_images a then None else iw_write w path (di_bytes im)) of
             Some err \<Rightarrow> Inl (''artifact_error'', Some status, err)
           | None \<Rightarrow>
               save_images w a request_index status items (acc @
                 [\<lparr>af_index = idx, af_path = (if ia_no_save_images a then [] else path), af_sha256 = di_sha256 im,
                   af_bytes = length (di_bytes im), af_width = di_width im, af_height = di_height im\<rparr>])))"

definition request_body :: "image_args \<Rightarrow> prompt_row \<Rightarrow> int option \<Rightarrow> ustr \<Rightarrow> json_map option \<Rightarrow> json" where
  "request_body a p seed size_text extra =
     generation_json \<lparr>gb_model = ia_model a, gb_prompt = pw_prompt p, gb_n = ia_n a, gb_size = size_text,
       gb_response_format = format_text (ia_response_format a), gb_seed = seed,
       gb_negative_prompt = option_or (pw_negative_prompt p) (ia_negative_prompt a),
       gb_num_inference_steps = ia_num_inference_steps a, gb_guidance_scale = ia_guidance_scale a,
       gb_true_cfg_scale = ia_true_cfg_scale a, gb_extra = extra\<rparr>"

definition save_response :: "image_world \<Rightarrow> image_args \<Rightarrow> nat \<Rightarrow> nat \<Rightarrow> json \<Rightarrow> ustr option" where
  "save_response w a request_index attempt_index parsed =
     (if ia_save_response_json a then
        iw_write w (join_path (join_path (ia_artifact_dir a) (lit ''responses''))
          (pad_six (request_index + 1) @ lit ''-attempt-'' @ show_nat (attempt_index + 1) @ lit ''.json'')) (iw_pretty w parsed)
      else None)"

definition read_answer ::
  "image_world \<Rightarrow> image_args \<Rightarrow> nat \<Rightarrow> nat \<Rightarrow> nat \<Rightarrow> bytes \<Rightarrow> duration \<Rightarrow> duration \<Rightarrow> image_failure + image_success" where
  "read_answer w a request_index attempt_index status body first_byte service =
     (if \<not> (200 \<le> status \<and> status < 300) then Inl (''http_error'', Some status, from_utf8_lossy body)
      else (case iw_from_slice w body of
          Inl e \<Rightarrow> Inl (''schema_error'', Some status, e)
        | Inr parsed \<Rightarrow>
            (case save_response w a request_index attempt_index parsed of
               Some err \<Rightarrow> Inl (''artifact_error'', Some status, err)
             | None \<Rightarrow>
                 (case response_items parsed of
                    Inl (kind, msg) \<Rightarrow> Inl (kind, Some status, msg)
                  | Inr items \<Rightarrow>
                      map_sum id (\<lambda>artifacts.
                          \<lparr>is_status = status, is_artifacts = artifacts, is_response_bytes = length body,
                           is_returned = length items mod 2 ^ 32, is_first_byte = first_byte, is_service = service\<rparr>)
                        (if ia_response_format a = B64Json then save_images w a request_index status (enumerate 0 items) []
                         else Inr [])))))"

definition make_image_request ::
  "image_world \<Rightarrow> image_args \<Rightarrow> nat \<Rightarrow> nat \<Rightarrow> image_endpoint \<Rightarrow> prompt_row \<Rightarrow> int option \<Rightarrow> ustr \<Rightarrow> image_failure + image_success" where
  "make_image_request w a request_index attempt_index ep p seed size_text =
     (case load_extra_body (iw_serde w) (iw_read_file w) a of
        Inl e \<Rightarrow> Inl (''schema_error'', None, iw_extra_error w e)
      | Inr extra \<Rightarrow>
          (case iw_answer w attempt_index (generations_url (ie_url ep)) (ie_api_key ep) (request_body a p seed size_text extra) of
             SendError e \<Rightarrow> Inl (send_kind (from_reqwest e), err_status e, redacted_text e)
           | BodyError status e \<Rightarrow> Inl (body_kind (from_reqwest e), Some status, redacted_text e)
           | HttpAnswer status body first_byte service \<Rightarrow>
               read_answer w a request_index attempt_index status body first_byte service))"

subsection \<open>One logical request\<close>

record request_outcome =
  ro_request_id :: ustr
  ro_prompt_id :: ustr
  ro_prompt_sha256 :: ustr
  ro_endpoint_name :: ustr
  ro_endpoint_url :: ustr
  ro_started_at :: datetime
  ro_latency_ms :: f64
  ro_first_byte_s :: "f64 option"
  ro_status :: string
  ro_http_status :: "nat option"
  ro_n_requested :: nat
  ro_n_returned :: nat
  ro_size :: ustr
  ro_response_format :: ustr
  ro_seed :: "int option"
  ro_artifacts :: "image_artifact list"
  ro_response_bytes :: nat
  ro_attempts :: "attempt_record list"
  ro_error_type :: "string option"
  ro_error_message :: "ustr option"
  ro_http_trace :: "http_trace option"

definition update_runtime :: "ustr \<Rightarrow> (ep_runtime \<Rightarrow> ep_runtime) \<Rightarrow> run_state \<Rightarrow> run_state" where
  "update_runtime name f st =
     st\<lparr>st_runtime := (case bt_get (st_runtime st) name of Some rt \<Rightarrow> bt_insert name (f rt) (st_runtime st) | None \<Rightarrow> st_runtime st)\<rparr>"

definition millis :: "duration \<Rightarrow> f64" where
  "millis d = fmul (as_secs_f64 d) (Fin 1000)"

text \<open>The settings of a request that do not change between its attempts.\<close>

record request_plan =
  rp_index :: nat
  rp_prompt :: prompt_row
  rp_seed :: "int option"
  rp_size :: ustr

definition success_outcome ::
  "image_world \<Rightarrow> image_args \<Rightarrow> request_plan \<Rightarrow> image_endpoint \<Rightarrow> nat \<Rightarrow> image_success \<Rightarrow> attempt_record list \<Rightarrow> request_outcome" where
  "success_outcome w a pl ep attempt_index ok attempts =
     \<lparr>ro_request_id = pad_six (rp_index pl + 1), ro_prompt_id = pw_id (rp_prompt pl),
      ro_prompt_sha256 = hex_sha256 (iw_codec w) (utf8_encode (pw_prompt (rp_prompt pl))), ro_endpoint_name = ie_name ep,
      ro_endpoint_url = ie_url ep, ro_started_at = iw_started_at w, ro_latency_ms = f_sum (map at_latency_ms attempts),
      ro_first_byte_s = Some (as_secs_f64 (is_first_byte ok)), ro_status = ''success'', ro_http_status = Some (is_status ok),
      ro_n_requested = ia_n a, ro_n_returned = is_returned ok, ro_size = rp_size pl,
      ro_response_format = format_text (ia_response_format a), ro_seed = rp_seed pl,
      ro_artifacts = is_artifacts ok, ro_response_bytes = is_response_bytes ok, ro_attempts = attempts, ro_error_type = None,
      ro_error_message = None, ro_http_trace = Some (iw_trace w attempt_index)\<rparr>"

definition failure_outcome ::
  "image_world \<Rightarrow> image_args \<Rightarrow> request_plan \<Rightarrow> image_endpoint list \<Rightarrow> attempt_record list \<Rightarrow> (nat \<times> string \<times> ustr) option \<Rightarrow> request_outcome" where
  "failure_outcome w a pl eps attempts final =
     (let ep = (case last_opt attempts of Some r \<Rightarrow> at_endpoint r | None \<Rightarrow> lit ''unknown'') in
      \<lparr>ro_request_id = pad_six (rp_index pl + 1), ro_prompt_id = pw_id (rp_prompt pl),
       ro_prompt_sha256 = hex_sha256 (iw_codec w) (utf8_encode (pw_prompt (rp_prompt pl))), ro_endpoint_name = ep,
       ro_endpoint_url = (case find (\<lambda>e. ie_name e = ep) eps of Some e \<Rightarrow> ie_url e | None \<Rightarrow> []),
       ro_started_at = iw_started_at w,
       ro_latency_ms = f_sum (map at_latency_ms attempts), ro_first_byte_s = None,
       ro_status = (case final of Some (_, kind, _) \<Rightarrow> kind | None \<Rightarrow> ''error''),
       ro_http_status = Option.bind (last_opt attempts) at_http_status, ro_n_requested = ia_n a, ro_n_returned = 0,
       ro_size = rp_size pl, ro_response_format = format_text (ia_response_format a),
       ro_seed = rp_seed pl, ro_artifacts = [], ro_response_bytes = 0, ro_attempts = attempts,
       ro_error_type = map_option (\<lambda>(_, kind, _). kind) final, ro_error_message = map_option (\<lambda>(_, _, msg). msg) final,
       ro_http_trace = map_option (\<lambda>(i, _, _). iw_trace w i) final\<rparr>)"

definition note_failure :: "image_world \<Rightarrow> nat \<Rightarrow> ustr \<Rightarrow> string \<Rightarrow> run_state \<Rightarrow> run_state" where
  "note_failure w attempt_index name kind st =
     update_runtime name (\<lambda>rt. rt\<lparr>er_failures := er_failures rt + 1,
         er_ejected_until := (if kind = ''connect'' \<or> kind = ''connection_error''
           then Some (iw_eject_at w attempt_index + 5000000000) else er_ejected_until rt)\<rparr>) st"

fun attempt_loop ::
  "image_world \<Rightarrow> image_args \<Rightarrow> request_plan \<Rightarrow> image_endpoint list \<Rightarrow> nat list \<Rightarrow> attempt_record list \<Rightarrow>
     (nat \<times> string \<times> ustr) option \<Rightarrow> run_state \<Rightarrow> (request_outcome \<times> run_state) option" where
  "attempt_loop w a pl eps [] attempts final st = Some (failure_outcome w a pl eps attempts final, st)"
| "attempt_loop w a pl eps (i # is) attempts final st =
     (case choose_endpoint (ia_load_balancer a) eps (random_index_of a (rp_index pl) i) (iw_choose_at w i) st of
        None \<Rightarrow> None
      | Some (ep, st1) \<Rightarrow>
          if bt_get (st_runtime st1) (ie_name ep) = None then None
          else (let st2 = update_runtime (ie_name ep) (\<lambda>rt. rt\<lparr>er_inflight := er_inflight rt + 1\<rparr>) st1;
                    res = make_image_request w a (rp_index pl) i ep (rp_prompt pl) (rp_seed pl) (rp_size pl);
                    st3 = update_runtime (ie_name ep) (\<lambda>rt. rt\<lparr>er_inflight := er_inflight rt - 1\<rparr>) st2 in
            case res of
              Inr ok \<Rightarrow>
                (let attempts' = attempts @ [\<lparr>at_attempt = i + 1, at_endpoint = ie_name ep, at_http_status = Some (is_status ok),
                       at_latency_ms = millis (is_service ok)\<rparr>] in
                 Some (success_outcome w a pl ep i ok attempts', update_runtime (ie_name ep) (\<lambda>rt. rt\<lparr>er_failures := 0\<rparr>) st3))
            | Inl (kind, status, msg) \<Rightarrow>
                attempt_loop w a pl eps is
                  (attempts @ [\<lparr>at_attempt = i + 1, at_endpoint = ie_name ep, at_http_status = status,
                     at_latency_ms = millis (iw_elapsed w i)\<rparr>])
                  (Some (i, kind, msg)) (note_failure w i (ie_name ep) kind st3)))"

definition run_logical_request ::
  "image_world \<Rightarrow> image_args \<Rightarrow> image_endpoint list \<Rightarrow> prompt_row list \<Rightarrow> nat \<Rightarrow> run_state \<Rightarrow> (request_outcome \<times> run_state) option" where
  "run_logical_request w a eps prompts request_index st =
     (if prompts = [] then None
      else (let p = prompts ! (request_index mod length prompts) in
        attempt_loop w a
          \<lparr>rp_index = request_index, rp_prompt = p, rp_seed = resolve_seed a p request_index,
           rp_size = unwrap_or (pw_size p) (ia_size a)\<rparr>
          eps [0..<Suc (ia_retry_attempts a)] [] None st))"

subsection \<open>The record of a request\<close>

text \<open>A time stamp is unbounded here: the addition of the program panics past the year 262143.\<close>

definition completed_at_from_start :: "datetime \<Rightarrow> duration \<Rightarrow> datetime" where
  "completed_at_from_start started latency =
     started + (if latency \<le> (2 ^ 63 - 1) * 1000000 then int latency else 0)"

definition image_error_of :: "request_outcome \<Rightarrow> request_error" where
  "image_error_of out =
     (if ro_error_type out = Some ''timeout'' then Timeout
      else if ro_error_type out = Some ''connect'' \<or> ro_error_type out = Some ''connection_error'' then Connect
      else (case ro_http_status out of
          Some status \<Rightarrow> from_status status
        | None \<Rightarrow> OtherError (unwrap_or (ro_error_message out) (lit (ro_status out)))))"

definition artifact_key :: "nat \<Rightarrow> string \<Rightarrow> ustr" where
  "artifact_key i what = lit ''artifact_'' @ show_nat i @ lit what"

definition outcome_metrics :: "request_outcome \<Rightarrow> (ustr, f64) btree \<Rightarrow> (ustr, f64) btree" where
  "outcome_metrics out m =
     fold (\<lambda>(i, af). bt_insert (artifact_key i ''_bytes'') (f_of_nat (af_bytes af))) (enumerate 0 (ro_artifacts out))
       (bt_insert (lit ''response_bytes'') (f_of_nat (ro_response_bytes out))
         (bt_insert (lit ''images_returned'') (f_of_nat (ro_n_returned out))
           (bt_insert (lit ''images_requested'') (f_of_nat (ro_n_requested out)) m)))"

definition outcome_labels :: "request_outcome \<Rightarrow> (ustr, ustr) btree \<Rightarrow> (ustr, ustr) btree" where
  "outcome_labels out m =
     fold (\<lambda>(i, af). bt_insert (artifact_key i ''_sha256'') (af_sha256 af)) (enumerate 0 (ro_artifacts out))
       (case ro_seed out of Some seed \<Rightarrow> bt_insert (lit ''seed'') (show_int seed) m | None \<Rightarrow> m)"

record send_info =
  si_slot :: request_slot
  si_phase :: phase_kind
  si_in_flight :: nat
  si_send_offset :: duration
  si_queue_delay :: duration
  si_arrival :: arrival_kind
  si_run_id :: ustr

definition outcome_base :: "send_info \<Rightarrow> request_outcome \<Rightarrow> request_record option" where
  "outcome_base si out =
     Option.bind (from_secs_f64 (fdiv (ro_latency_ms out) (Fin 1000))) (\<lambda>latency.
       let completed = completed_at_from_start (ro_started_at out) latency in
       if ro_status out = ''success'' then
         (let rec = with_in_flight (si_in_flight si)
            (success (slot_seq (si_slot si)) (si_phase si) (ro_endpoint_name out) (ro_started_at out) completed latency
               None None [] 0 0 0) in
          case ro_first_byte_s out of
            None \<Rightarrow> Some rec
          | Some fb \<Rightarrow> map_option (\<lambda>d. with_first_byte d rec) (from_secs_f64 fb))
       else Some (with_in_flight (si_in_flight si)
         (failed (slot_seq (si_slot si)) (si_phase si) (ro_endpoint_name out) (ro_started_at out) completed latency
            (image_error_of out))))"

definition record_of_outcome :: "send_info \<Rightarrow> request_outcome \<Rightarrow> request_record option" where
  "record_of_outcome si out =
     map_option (\<lambda>rec.
         (let r1 = (case ro_http_trace out of Some tr \<Rightarrow> with_http_trace tr rec | None \<Rightarrow> rec);
              r2 = with_send_offset (si_send_offset si) r1;
              r3 = (if should_record_schedule (si_arrival si)
                    then with_schedule (scheduled_delay (si_slot si)) (si_queue_delay si) r2 else r2);
              r4 = r3\<lparr>rr_modality_metrics := outcome_metrics out (rr_modality_metrics r3),
                      rr_modality_labels := outcome_labels out (rr_modality_labels r3)\<rparr> in
          with_run_id (si_run_id si) r4))
       (outcome_base si out)"

subsection \<open>Load, verdict and summary stamps\<close>

text \<open>The first match of the program, over the arguments; \<open>None\<close> is its exit with code 2.\<close>

definition requested_arrival :: "image_args \<Rightarrow> arrival_kind option" where
  "requested_arrival a =
     (case (ia_request_rate a, ia_arrival a = ''burst'') of
        (None, True) \<Rightarrow> Some Burst
      | (Some _, True) \<Rightarrow> None
      | (None, False) \<Rightarrow> Some ClosedLoop
      | (Some _, False) \<Rightarrow> Some (if ia_arrival a = ''poisson'' then Poisson else Constant))"

text \<open>The second match, whose result the schedule and the summary use.\<close>

definition issued_arrival :: "image_args \<Rightarrow> arrival_kind" where
  "issued_arrival a =
     (case ia_request_rate a of
        None \<Rightarrow> ClosedLoop
      | Some _ \<Rightarrow> if ia_arrival a = ''poisson'' then Poisson else Constant)"

definition concurrency_cap_of :: "image_args \<Rightarrow> arrival_kind \<Rightarrow> nat" where
  "concurrency_cap_of a kind =
     (case ia_max_concurrency a of
        Some cap \<Rightarrow> cap
      | None \<Rightarrow> if kind = Burst then ia_num_requests a else ia_concurrency a)"

definition stamped_balancer :: "image_balancer \<Rightarrow> load_balancer" where
  "stamped_balancer b = (case b of IbLeastInflight \<Rightarrow> LeastInflight | _ \<Rightarrow> RoundRobin)"

definition boundary_budget_ms :: "(nat \<times> nat) option \<Rightarrow> nat" where
  "boundary_budget_ms cfg =
     (case cfg of None \<Rightarrow> 5000 | Some (timeout_ms, sources) \<Rightarrow> max timeout_ms 1 * sources * 2 + 1000)"

definition counts_as_failed :: "nat \<Rightarrow> request_outcome \<Rightarrow> bool" where
  "counts_as_failed warmup out \<longleftrightarrow>
     (case parse_u32 (ro_request_id out) of Some n \<Rightarrow> warmup < n | None \<Rightarrow> True) \<and> ro_status out \<noteq> ''success''"

datatype run_verdict = RunOk | RunHadErrors nat | RunInterrupted

definition image_verdict :: "image_args \<Rightarrow> request_outcome list \<Rightarrow> bool \<Rightarrow> run_verdict" where
  "image_verdict a outcomes was_stopped =
     (let n = length (filter (counts_as_failed (ia_warmup_requests a)) outcomes) in
      if ia_fail_on_error a \<and> 0 < n then RunHadErrors n
      else if ia_fail_on_partial a \<and> was_stopped then RunInterrupted
      else RunOk)"

subsection \<open>Lemmas\<close>

lemma bt_get_update_runtime:
  "bt_get (st_runtime (update_runtime name f st)) k =
     (if k = name then map_option f (bt_get (st_runtime st) name) else bt_get (st_runtime st) k)"
  by (auto simp: update_runtime_def bt_get_insert split: option.splits)

lemma next_rr_runtime [simp]: "st_runtime (next_rr st) = st_runtime st"
  by (simp add: next_rr_def)

lemma set_weighted_list: "set (weighted_list eps) = {ep \<in> set eps. 0 < ie_weight ep}"
  by (auto simp: weighted_list_def)

lemma weighted_list_Nil: "weighted_list eps = [] \<longleftrightarrow> (\<forall>ep \<in> set eps. ie_weight ep = 0)"
  by (auto simp: weighted_list_def)

lemma choose_endpoint_total:
  assumes "eps \<noteq> []" "\<forall>ep \<in> set eps. 0 < ie_weight ep"
  obtains ep st1 where "choose_endpoint b eps r now st = Some (ep, st1)" "ep \<in> set eps" "st_runtime st1 = st_runtime st"
proof -
  have w: "weighted_list eps \<noteq> []" using assms by (cases eps) (auto simp: weighted_list_Nil)
  then have wi: "weighted_list eps ! (st_rr st mod length (weighted_list eps)) \<in> set eps"
    using set_weighted_list [of eps] nth_mem [of "st_rr st mod length (weighted_list eps)" "weighted_list eps"] by auto
  have li: "eps ! min_index (map (inflight_key now st) eps) \<in> set eps"
    using min_index_least [of "map (inflight_key now st) eps"] assms(1) by simp
  have "\<exists>ep st1. choose_endpoint b eps r now st = Some (ep, st1) \<and> ep \<in> set eps \<and> st_runtime st1 = st_runtime st"
    using assms(1) w wi li by (cases b) (auto simp: choose_endpoint_def Let_def)
  then show ?thesis using that by blast
qed

lemma map_sum_Inl: "map_sum f g s = Inl x \<longleftrightarrow> (\<exists>y. s = Inl y \<and> x = f y)"
  by (cases s) auto

lemma map_sum_Inr: "map_sum f g s = Inr x \<longleftrightarrow> (\<exists>y. s = Inr y \<and> x = g y)"
  by (cases s) auto

lemma decode_item_kind: "decode_image_item cd item = Inl (kind, msg) \<Longrightarrow> kind \<noteq> ''success''"
  by (auto simp: decode_image_item_def split: option.splits sum.splits prod.splits)

lemma save_images_kind:
  "save_images w a i status items acc = Inl (kind, st, msg) \<Longrightarrow> kind \<noteq> ''success''"
proof (induction w a i status items acc rule: save_images.induct)
  case (2 w a i status idx item items acc)
  then show ?case
    by (cases "decode_image_item (iw_codec w) item")
      (auto simp: Let_def dest: decode_item_kind split: option.splits if_split_asm)
qed simp

lemma read_answer_kind: "read_answer w a i k status body fb sv = Inl (kind, st, msg) \<Longrightarrow> kind \<noteq> ''success''"
  by (auto simp: read_answer_def response_items_def map_sum_Inl save_images_kind split: if_splits sum.splits option.splits)

lemma image_request_kind: "make_image_request w a i k ep p seed size_text = Inl (kind, st, msg) \<Longrightarrow> kind \<noteq> ''success''"
  by (auto simp: make_image_request_def read_answer_kind send_kind_def body_kind_def
      split: sum.splits http_answer.splits request_error.splits)

lemma read_answer_2xx: "read_answer w a i k status body fb sv = Inr ok \<Longrightarrow> 200 \<le> is_status ok \<and> is_status ok < 300"
  by (auto simp: read_answer_def map_sum_Inr split: if_splits sum.splits option.splits)

lemma image_request_2xx:
  "make_image_request w a i k ep p seed size_text = Inr ok \<Longrightarrow> 200 \<le> is_status ok \<and> is_status ok < 300"
  by (auto simp: make_image_request_def read_answer_2xx split: sum.splits http_answer.splits)

text \<open>The attempts are numbered from 1; each is the answer of one endpoint of the run to its index.\<close>

definition attempts_made ::
  "image_world \<Rightarrow> image_args \<Rightarrow> request_plan \<Rightarrow> image_endpoint list \<Rightarrow> attempt_record list \<Rightarrow>
     (image_failure + image_success) list \<Rightarrow> bool" where
  "attempts_made w a pl eps attempts results \<longleftrightarrow>
     length results = length attempts \<and>
     (\<forall>k < length attempts. \<exists>ep \<in> set eps.
        results ! k = make_image_request w a (rp_index pl) k ep (rp_prompt pl) (rp_seed pl) (rp_size pl) \<and>
        attempts ! k = \<lparr>at_attempt = k + 1, at_endpoint = ie_name ep,
          at_http_status = (case results ! k of Inl (_, status, _) \<Rightarrow> status | Inr ok \<Rightarrow> Some (is_status ok)),
          at_latency_ms = millis (case results ! k of Inl _ \<Rightarrow> iw_elapsed w k | Inr ok \<Rightarrow> is_service ok)\<rparr>)"

text \<open>What the outcome of a request says about the result of its last attempt.\<close>

definition tells_result :: "image_args \<Rightarrow> request_outcome \<Rightarrow> image_failure + image_success \<Rightarrow> bool" where
  "tells_result a out result \<longleftrightarrow>
     (case result of
        Inr ok \<Rightarrow> ro_status out = ''success'' \<and> ro_error_type out = None \<and> ro_error_message out = None \<and>
          ro_http_status out = Some (is_status ok) \<and> 200 \<le> is_status ok \<and> is_status ok < 300 \<and>
          ro_artifacts out = is_artifacts ok \<and> ro_n_returned out = is_returned ok
      | Inl (kind, status, msg) \<Rightarrow> ro_status out = kind \<and> kind \<noteq> ''success'' \<and> ro_error_type out = Some kind \<and>
          ro_error_message out = Some msg \<and> ro_http_status out = status \<and>
          ro_artifacts out = [] \<and> ro_n_returned out = 0 \<and>
          length (ro_attempts out) = Suc (ia_retry_attempts a))"

definition outcome_ok :: "image_world \<Rightarrow> image_args \<Rightarrow> request_plan \<Rightarrow> image_endpoint list \<Rightarrow> request_outcome \<Rightarrow> bool" where
  "outcome_ok w a pl eps out \<longleftrightarrow>
     (\<exists>failures result. attempts_made w a pl eps (ro_attempts out) (map Inl failures @ [result]) \<and> tells_result a out result) \<and>
     length (ro_attempts out) \<le> Suc (ia_retry_attempts a) \<and>
     ro_endpoint_name out = at_endpoint (last (ro_attempts out)) \<and>
     ro_latency_ms out = f_sum (map at_latency_ms (ro_attempts out)) \<and>
     ro_http_trace out = Some (iw_trace w (length (ro_attempts out) - 1))"

lemma attempts_made_snoc:
  assumes "attempts_made w a pl eps attempts results" "ep \<in> set eps" "k = length attempts"
    and "result = make_image_request w a (rp_index pl) k ep (rp_prompt pl) (rp_seed pl) (rp_size pl)"
  shows "attempts_made w a pl eps (attempts @ [\<lparr>at_attempt = k + 1, at_endpoint = ie_name ep,
      at_http_status = (case result of Inl (_, status, _) \<Rightarrow> status | Inr ok \<Rightarrow> Some (is_status ok)),
      at_latency_ms = millis (case result of Inl _ \<Rightarrow> iw_elapsed w k | Inr ok \<Rightarrow> is_service ok)\<rparr>])
    (results @ [result])"
  using assms unfolding attempts_made_def by (auto simp: nth_append less_Suc_eq)

definition inflights :: "run_state \<Rightarrow> ustr \<Rightarrow> nat option" where
  "inflights st name = map_option er_inflight (bt_get (st_runtime st) name)"

lemma inflights_update:
  "inflights (update_runtime name f st) k =
     (if k = name then map_option (er_inflight \<circ> f) (bt_get (st_runtime st) name) else inflights st k)"
  by (simp add: inflights_def bt_get_update_runtime option.map_comp)

lemma inflights_keep:
  assumes "\<And>rt. er_inflight (f rt) = er_inflight rt" shows "inflights (update_runtime name f st) = inflights st"
  by (simp add: fun_eq_iff inflights_update comp_def assms) (simp add: inflights_def)

lemma inflights_pair:
  assumes "bt_get (st_runtime st) name \<noteq> None"
  shows "inflights (update_runtime name (\<lambda>rt. rt\<lparr>er_inflight := er_inflight rt - Suc 0\<rparr>)
     (update_runtime name (\<lambda>rt. rt\<lparr>er_inflight := Suc (er_inflight rt)\<rparr>) st)) = inflights st"
  using assms by (auto simp: fun_eq_iff inflights_update bt_get_update_runtime comp_def option.map_comp) (auto simp: inflights_def)

lemma note_failure_inflights [simp]: "inflights (note_failure w i name kind st) = inflights st"
  by (simp add: note_failure_def inflights_keep)

lemma attempts_spent:
  assumes "attempts_made w a pl eps attempts (map Inl failures)" "length attempts = Suc (ia_retry_attempts a)"
    and "final = (case last failures of (kind, _, msg) \<Rightarrow> Some (length attempts - 1, kind, msg))"
    and "list_all (\<lambda>(kind, _). kind \<noteq> ''success'') failures"
  shows "outcome_ok w a pl eps (failure_outcome w a pl eps attempts final)"
proof -
  have len: "length failures = length attempts" using assms(1) by (simp add: attempts_made_def)
  then have ne: "failures \<noteq> []" "attempts \<noteq> []" using assms(2) by auto
  obtain kind status msg where l: "last failures = (kind, status, msg)" by (cases "last failures")
  have split: "map Inl failures = map Inl (butlast failures) @ [Inl (kind, status, msg)]"
    using ne(1) l by (metis append_butlast_last_id map_append list.simps(8,9))
  have kd: "kind \<noteq> ''success''" using assms(4) ne(1) l last_in_set [OF ne(1)] by (auto simp: list_all_iff)
  have "map Inl failures ! (length attempts - 1) = Inl (kind, status, msg)"
    using ne len l by (simp add: last_conv_nth)
  then have "at_http_status (last attempts) = status"
    using assms(1) ne unfolding attempts_made_def
    by (auto simp: last_conv_nth dest!: spec [of _ "length attempts - 1"])
      (metis old.prod.case old.sum.simps(5))
  then have "tells_result a (failure_outcome w a pl eps attempts final) (Inl (kind, status, msg))"
    using assms(2,3) ne l kd by (simp add: tells_result_def failure_outcome_def last_opt_def Let_def)
  moreover have "attempts_made w a pl eps attempts (map Inl (butlast failures) @ [Inl (kind, status, msg)])"
    using assms(1) unfolding split .
  ultimately show ?thesis using assms(2,3) ne l
    by (auto simp: outcome_ok_def failure_outcome_def last_opt_def Let_def)
qed

lemma attempt_loop_ok:
  assumes "eps \<noteq> []" "\<forall>ep \<in> set eps. 0 < ie_weight ep \<and> inflights st (ie_name ep) \<noteq> None"
    and "k \<le> Suc (ia_retry_attempts a)" "length attempts = k"
    and "attempts_made w a pl eps attempts (map Inl failures)" "list_all (\<lambda>(kind, _). kind \<noteq> ''success'') failures"
    and "failures \<noteq> [] \<longrightarrow> final = (case last failures of (kind, _, msg) \<Rightarrow> Some (length attempts - 1, kind, msg))"
  shows "\<exists>out st'. attempt_loop w a pl eps [k..<Suc (ia_retry_attempts a)] attempts final st = Some (out, st') \<and>
     outcome_ok w a pl eps out \<and> inflights st' = inflights st"
  using assms
proof (induction "Suc (ia_retry_attempts a) - k" arbitrary: k attempts failures final st)
  case 0
  then have k: "k = Suc (ia_retry_attempts a)" by simp
  then have "failures \<noteq> []" using 0 by (auto simp: attempts_made_def)
  then show ?case using 0 k attempts_spent [of w a pl eps attempts failures final] by simp
next
  case (Suc n)
  have up: "[k..<Suc (ia_retry_attempts a)] = k # [Suc k..<Suc (ia_retry_attempts a)]"
    using Suc.hyps(2) by (intro upt_conv_Cons) simp
  have w: "\<forall>ep \<in> set eps. 0 < ie_weight ep" using Suc.prems by simp
  obtain ep st1 where ch: "choose_endpoint (ia_load_balancer a) eps (random_index_of a (rp_index pl) k) (iw_choose_at w k) st = Some (ep, st1)"
      "ep \<in> set eps" "st_runtime st1 = st_runtime st"
    by (rule choose_endpoint_total [OF Suc.prems(1) w])
  have rt: "bt_get (st_runtime st1) (ie_name ep) \<noteq> None" and same: "inflights st1 = inflights st"
    using Suc.prems(2) ch by (auto simp: inflights_def fun_eq_iff)
  define st3 where "st3 = update_runtime (ie_name ep) (\<lambda>rt. rt\<lparr>er_inflight := er_inflight rt - Suc 0\<rparr>)
     (update_runtime (ie_name ep) (\<lambda>rt. rt\<lparr>er_inflight := Suc (er_inflight rt)\<rparr>) st1)"
  have st3: "inflights st3 = inflights st" using inflights_pair [OF rt] same by (simp add: st3_def)
  note made = attempts_made_snoc [OF Suc.prems(5) ch(2) Suc.prems(4) [symmetric] refl]
  show ?case
  proof (cases "make_image_request w a (rp_index pl) k ep (rp_prompt pl) (rp_seed pl) (rp_size pl)")
    case (Inr ok)
    let ?att = "attempts @ [\<lparr>at_attempt = k + 1, at_endpoint = ie_name ep, at_http_status = Some (is_status ok),
      at_latency_ms = millis (is_service ok)\<rparr>]"
    have "tells_result a (success_outcome w a pl ep k ok ?att) (Inr ok)"
      using image_request_2xx [OF Inr] by (simp add: tells_result_def success_outcome_def)
    then have "outcome_ok w a pl eps (success_outcome w a pl ep k ok ?att)"
      using made Inr Suc.hyps(2) Suc.prems(4) by (auto simp: outcome_ok_def success_outcome_def)
    then show ?thesis
      using ch rt Inr st3 unfolding up
      by (auto simp: Let_def st3_def [symmetric] inflights_keep)
  next
    case (Inl e)
    obtain kind status msg where e: "e = (kind, status, msg)" by (cases e)
    have kd: "kind \<noteq> ''success''" using Inl e image_request_kind by blast
    let ?att = "attempts @ [\<lparr>at_attempt = k + 1, at_endpoint = ie_name ep, at_http_status = status,
      at_latency_ms = millis (iw_elapsed w k)\<rparr>]"
    let ?st = "note_failure w k (ie_name ep) kind st3"
    have "attempts_made w a pl eps ?att (map Inl (failures @ [e]))" using made Inl e by simp
    then have "\<exists>out st'. attempt_loop w a pl eps [Suc k..<Suc (ia_retry_attempts a)] ?att (Some (k, kind, msg)) ?st = Some (out, st') \<and>
        outcome_ok w a pl eps out \<and> inflights st' = inflights ?st"
      using Suc.prems Suc.hyps(2) kd st3 e by (intro Suc.hyps(1) [where failures = "failures @ [e]"]) simp_all
    then show ?thesis
      using ch rt Inl e st3 unfolding up by (auto simp: Let_def st3_def [symmetric])
  qed
qed

subsection \<open>A concrete run\<close>

definition demo_image_trace :: http_trace where
  "demo_image_trace = \<lparr>ht_connect_s = Fin 0, ht_connection_reused = True, ht_dns_s = Fin 0, ht_bytes_sent = None,
     ht_receive_s = None, ht_bytes_received = None, ht_chunks_received = None\<rparr>"

text \<open>The first attempt answers 200 with a body that is no JSON, the second with one image.\<close>

definition demo_image_world :: image_world where
  "demo_image_world =
     \<lparr>iw_started_at = 0,
      iw_answer = (\<lambda>i url key body. if i = 0 then HttpAnswer 200 [120] 0 0 else HttpAnswer 200 [121] 0 0),
      iw_elapsed = (\<lambda>_. 0), iw_choose_at = (\<lambda>_. 0), iw_eject_at = (\<lambda>_. 0),
      iw_from_slice = (\<lambda>b. if b = [121] then Inr (JObject [(lit ''data'', JArray [JObject [(lit ''b64_json'', JString [65])]])])
        else Inl (lit ''expected value'')),
      iw_pretty = (\<lambda>_. []), iw_write = (\<lambda>_ _. None),
      iw_codec = \<lparr>ic_base64 = (\<lambda>_. Inr [1]), ic_dimensions = (\<lambda>_. Inr (512, 512)), ic_sha256 = id\<rparr>,
      iw_read_file = (\<lambda>_. None), iw_serde = \<lparr>from_str = (\<lambda>_. None), to_string = (\<lambda>_. [])\<rparr>, iw_extra_error = (\<lambda>_. []), iw_trace = (\<lambda>_. demo_image_trace)\<rparr>"

definition demo_image_args :: image_args where
  "demo_image_args =
     \<lparr>ia_model = [], ia_prompt = Some (lit ''cat''), ia_prompts = None, ia_prompt_field = [], ia_id_field = [],
      ia_shuffle_prompts = False, ia_url = None, ia_endpoint = [lit ''http://u:k@h/a'', lit ''http://u:k@h/b''],
      ia_endpoints_file = None, ia_api_key = None, ia_size = lit ''512x512'', ia_n = 1, ia_response_format = B64Json,
      ia_seed = None, ia_seed_mode = Fixed, ia_negative_prompt = None, ia_num_inference_steps = None,
      ia_guidance_scale = None, ia_true_cfg_scale = None, ia_extra_body_json = None, ia_extra_body_file = None,
      ia_load_balancer = IbRoundRobin, ia_request_rate = None, ia_arrival = ''burst'', ia_concurrency = 1,
      ia_max_concurrency = None, ia_retry_attempts = 1, ia_warmup_requests = 0, ia_num_requests = 10,
      ia_artifact_dir = [], ia_save_response_json = False, ia_no_save_images = True, ia_fail_on_error = True,
      ia_fail_on_partial = True\<rparr>"

definition demo_image_endpoints :: "image_endpoint list" where
  "demo_image_endpoints = map (plain_endpoint demo_image_args) (enumerate 0 (ia_endpoint demo_image_args))"

definition demo_image_prompts :: "prompt_row list" where
  "demo_image_prompts =
     [\<lparr>pw_id = lit ''prompt-0'', pw_prompt = lit ''cat'', pw_seed = None, pw_size = None, pw_negative_prompt = None\<rparr>]"

definition demo_image_state :: run_state where
  "demo_image_state =
     \<lparr>st_runtime = [(lit ''u:k@h'', \<lparr>er_inflight = 0, er_failures = 0, er_ejected_until = None\<rparr>)], st_rr = 1\<rparr>"

definition demo_image_outcome :: "image_args \<Rightarrow> request_outcome option" where
  "demo_image_outcome a =
     map_option fst (run_logical_request demo_image_world a demo_image_endpoints demo_image_prompts 0 demo_image_state)"

lemma demo_image_shape:
  "demo_image_prompts \<noteq> []" "demo_image_endpoints \<noteq> []"
  "\<forall>ep \<in> set demo_image_endpoints. 0 < ie_weight ep \<and> inflights demo_image_state (ie_name ep) \<noteq> None"
  by code_simp+

lemma demo_image_failure:
  "map_option (\<lambda>out. (ro_error_type out, image_error_of out, ro_endpoint_url out))
     (demo_image_outcome (demo_image_args\<lparr>ia_retry_attempts := 0\<rparr>)) =
     Some (Some ''schema_error'', HttpStatus 200, lit ''http://u:k@h/a'')"
  by code_simp

subsection \<open>Behaviour worth knowing\<close>

text \<open>An answer that arrived with status 200 but could not be read is recorded as the status error 200.\<close>

lemma unreadable_answer_is_status_200:
  "map_option (\<lambda>out. (ro_error_type out, image_error_of out)) (demo_image_outcome (demo_image_args\<lparr>ia_retry_attempts := 0\<rparr>)) =
     Some (Some ''schema_error'', HttpStatus 200)"
  using demo_image_failure by auto

text \<open>Endpoints are told apart by their host alone: the failed request went to the second endpoint,
  its outcome carries the address of the first.\<close>

lemma failed_url_of_shared_host:
  "choose_endpoint IbRoundRobin demo_image_endpoints 0 0 demo_image_state =
     Some (demo_image_endpoints ! 1, next_rr demo_image_state)"
  "ie_url (demo_image_endpoints ! 1) = lit ''http://u:k@h/b''"
  "map_option ro_endpoint_url (demo_image_outcome (demo_image_args\<lparr>ia_retry_attempts := 0\<rparr>)) = Some (lit ''http://u:k@h/a'')"
proof -
  show "choose_endpoint IbRoundRobin demo_image_endpoints 0 0 demo_image_state =
      Some (demo_image_endpoints ! 1, next_rr demo_image_state)"
    by (simp add: choose_endpoint_def demo_image_endpoints_def demo_image_args_def demo_image_state_def next_rr_def)
  show "ie_url (demo_image_endpoints ! 1) = lit ''http://u:k@h/b''" by code_simp
qed (use demo_image_failure in auto)

text \<open>The name of an endpoint, which every record carries, keeps the user and password of its address.\<close>

lemma endpoint_name_keeps_userinfo: "endpoint_name (lit ''http://u:k@h/a'') 0 = lit ''u:k@h''"
  by code_simp

text \<open>The summary does not name two of the four balancers.\<close>

lemma random_balancer_is_stamped_round_robin:
  "stamped_balancer IbRandom = RoundRobin" "stamped_balancer IbWeightedRoundRobin = RoundRobin"
  by (simp_all add: stamped_balancer_def)

text \<open>A burst is given its own cap, and then scheduled and summarised as a closed loop: the second
  match over the arrival arguments does not know a burst.\<close>

lemma burst_is_issued_as_closed_loop:
  assumes "requested_arrival a = Some Burst"
  shows "issued_arrival a = ClosedLoop"
    and "ia_max_concurrency a = None \<Longrightarrow> effective_max_concurrency_source Burst False = ''uncapped-burst'' \<and>
      effective_max_concurrency_source (issued_arrival a) False = ''concurrency'' \<and>
      concurrency_cap_of a Burst = ia_num_requests a"
  using assms
  by (auto simp: requested_arrival_def issued_arrival_def effective_max_concurrency_source_def concurrency_cap_of_def
      split: option.splits if_splits bool.splits)

lemma other_arrivals_agree: "requested_arrival a = Some k \<Longrightarrow> k \<noteq> Burst \<Longrightarrow> issued_arrival a = k"
  by (auto simp: requested_arrival_def issued_arrival_def split: option.splits if_splits bool.splits)

subsection \<open>Properties\<close>

text \<open>
  C34: A logical image request ends and does not panic when it has prompts, endpoints of positive
  weight and a counter for each endpoint. Its attempts are numbered from 1 and at most one more
  than the retries; each is the answer of one endpoint of the run, recorded with its status and
  time, and every attempt before the last one failed. The outcome carries the last attempt's
  endpoint, status and trace and the sum of the attempts' latencies. It is a success exactly when
  the last attempt is one, with a status in the two hundreds and that attempt's images; otherwise
  all retries were used, the kind of the last attempt's failure is both the status and the error
  type, its text is the error message, and no image is returned. Every endpoint has the requests in
  flight that it had before.
\<close>

theorem image_request_retries:
  assumes "prompts \<noteq> []" "eps \<noteq> []" "\<forall>ep \<in> set eps. 0 < ie_weight ep \<and> inflights st (ie_name ep) \<noteq> None"
  shows "let prompt = prompts ! (i mod length prompts);
        pl = \<lparr>rp_index = i, rp_prompt = prompt, rp_seed = resolve_seed a prompt i,
          rp_size = unwrap_or (pw_size prompt) (ia_size a)\<rparr> in
     \<exists>out st'. run_logical_request w a eps prompts i st = Some (out, st') \<and>
       outcome_ok w a pl eps out \<and> inflights st' = inflights st"
  using assms attempt_loop_ok [of eps st 0 a "[]" w _ "[]" None]
  by (simp add: run_logical_request_def Let_def attempts_made_def del: upt_Suc)

theorem image_request_retries_witness:
  "\<exists>out st' pl. run_logical_request demo_image_world demo_image_args demo_image_endpoints demo_image_prompts 0 demo_image_state =
       Some (out, st') \<and> outcome_ok demo_image_world demo_image_args pl demo_image_endpoints out \<and>
       inflights st' = inflights demo_image_state"
  using image_request_retries [OF demo_image_shape, of 0 demo_image_args demo_image_world]
  unfolding Let_def by blast

end
