(* ===== verification/Spec2Isabelle.thy ===== *)
theory Spec2Isabelle
  imports Chat_Stream Measurement Asr Endpoints Prompt_Sequence Knee Ndjson_Writer Telemetry_Scraper
    Prompt_Inputs Sessions Mix_Proven Library_Files
    Vlm Telemetry_Session Compare Preflight Endpoints_Export
    Telemetry_Analysis Count_Points Imagegen_Run
begin

text \<open>
  A model of the measurement core of the Metrum AI benchmark client (\<open>src/src\<close> of the
  repository). The client sends requests to inference endpoints on a schedule, reads their
  streamed answers, keeps one record per request, and reports rates, percentiles and
  time-weighted averages over the measured ones; sweeps repeat this at several loads and look
  for a knee, and a telemetry task scrapes the servers meanwhile. The development follows the
  data through these parts; each theory names its source file at its start and keeps the names
  of its functions where Isabelle allows it.

  Foundations.
    \<open>Prelude\<close>: text as lists of code points (\<open>ustr\<close>), the string functions of the
    standard library in use, options, durations as nanoseconds, saturating and wrapping sums.
    \<open>F64\<close>: binary64 arithmetic as exact rationals with rounding to nearest even,
    infinities and NaN; the order of the type is \<open>total_cmp\<close>, and \<open>flt\<close>, \<open>fle\<close>,
    \<open>feq\<close> are the IEEE comparisons. Signed zeros are identified. The locale
    \<open>monotone_rounding\<close> holds what the clients use of rounding.
    \<open>Ordered_Map\<close>: ordered maps as sorted association lists. \<open>Json\<close>, \<open>Utf8\<close>: JSON
    values and lossy decoding. \<open>Systems\<close>: the locale \<open>invariant_system\<close> of a step
    relation with an invariant, interpreted by the slots and by the row writer.

  One request.
    \<open>Sse\<close> (\<open>sse.rs\<close>): framing of the event stream, with a round trip and independence
    of how the bytes are cut into chunks. \<open>Usage\<close> (\<open>usage.rs\<close>, \<open>request.rs\<close>):
    token accounting of one answer and request body overrides. \<open>Errors\<close> (\<open>error.rs\<close>):
    classification of failures. \<open>Chat_Stream\<close> (\<open>chat_stream.rs\<close>): the consumer's
    state and step, its read loop, and a refinement to an abstract view of the events.
    \<open>Connect_Timing\<close> (\<open>connect_timing.rs\<close>): the phase trace of a connection.
    \<open>Request_Record\<close> (\<open>record.rs\<close>): the record, its constructors, builders and derived
    metrics. \<open>Endpoints\<close> (\<open>endpoints.rs\<close>): resolution of endpoints, the selector with
    its leases and ejections, and redaction of URLs. \<open>Preflight\<close> (\<open>preflight.rs\<close>): URLs of a
    server and the probes before a run.

  A run.
    \<open>Concurrency\<close> (\<open>concurrency.rs\<close>): the gauge on 64-bit words and the interleavings
    of the tasks that hold slots. \<open>Runner\<close> (\<open>load.rs\<close>, \<open>runner.rs\<close>): schedules,
    signals, the warmup barrier and the window. \<open>Prompt_Sequence\<close> (\<open>prompt_sequence.rs\<close>):
    recording and replaying an order of prompts, and the prompts a run of
    \<open>bin/metrum-ai-bench-cli-llm.rs\<close> takes from it. \<open>Measurement\<close> (\<open>measurement.rs\<close>,
    \<open>isl_osl.rs\<close>): gates on the first token and on prompt and completion lengths.
    \<open>Asr\<close> (\<open>asr.rs\<close>): error rates of transcripts by edit distance.
    \<open>Modality\<close> (\<open>imagegen.rs\<close>, \<open>sweep_modality.rs\<close>): bodies and answers of image
    requests, and what a modality adds to a stage. \<open>Imagegen_Run\<close>
    (\<open>bin/metrum-ai-bench-cli-imagegen.rs\<close>): one logical image request with its retries, and
    the record, arrival and verdict of the program.

  Prompts.
    \<open>Prompt_Inputs\<close> (\<open>prompt_inputs.rs\<close>): the loaders of prompt files and inline images.
    \<open>Prompt_Library\<close>, \<open>Mix_Search\<close> (\<open>prompt_library.rs\<close>): rows, requests, the score
    of a mix of prompts, and the selection: a draw from one cell of equal lengths, the exhaustive
    search over compositions of the cells, and the seeded local search. \<open>F64_Exact\<close>: sums of
    integers below \<open>2 ^ 53\<close> are exact. \<open>Mix_Correct\<close>: what an admissible mix is, and that
    only such mixes are returned. \<open>Mix_Exhaustive\<close>: the backtracking loop visits exactly the
    compositions of a reference enumeration, and the table of counts is exact below its cap.
    \<open>Mix_Proven\<close>: a proof of emptiness is truthful and the selection returns.
    \<open>Vlm\<close> (\<open>vlm.rs\<close>): the image cache, which is an exact LRU cache of the images served, and
    the request bytes with spliced payloads, which are the serialized body.
    \<open>Library_Files\<close>: the loaders of the library, its checksums, and the report of a selection.

  Aggregation.
    \<open>Stats\<close> (\<open>stats.rs\<close>): percentiles and distributions. \<open>Time_Weighted\<close>
    (\<open>time_weighted.rs\<close>): segments of the requests and the sweep line over them.
    \<open>Sut\<close> (\<open>sut.rs\<close>): the declared system under test and its publication profiles.
    \<open>Summary\<close> (\<open>summary.rs\<close>): thresholds, token accounting and the run summary.
    \<open>Strategic\<close> (\<open>strategic.rs\<close>): records and sweep point of a stage.
    \<open>Sessions\<close> (\<open>strategic.rs\<close>): metric lines of a server, session data sets, prefixes.
    \<open>Knee\<close> (\<open>strategic.rs\<close>): saturated stages, Kneedle and their combination.
    \<open>Float_Format\<close>, \<open>Compare\<close> (\<open>compare.rs\<close>): decimal text of floats, and the table
    that compares several result files load by load. \<open>Endpoints_Export\<close>
    (\<open>endpoints_export.rs\<close>): the run selected from a data log and the files of its bundle.
    \<open>Count_Points\<close> (\<open>count_points.rs\<close>): the count of the quantities in a log.
    \<open>Telemetry_Analysis\<close> (\<open>xtask/src/telemetry_analysis.rs\<close>): the figures of the stages of a
    telemetry file.

  Telemetry.
    \<open>Telemetry_Parser\<close> (\<open>telemetry/parser.rs\<close>): exposition lines.
    \<open>Telemetry_Scraper\<close> (\<open>telemetry/config.rs\<close>, \<open>telemetry/scraper.rs\<close>): sources,
    the scrape loop, probes and the bounded history of sample times.
    \<open>Ndjson_Writer\<close> (\<open>telemetry/writer.rs\<close>): the bounded channel and the writer task, whose
    buffer and file hold bytes, so a row can be torn until the final flush.
    \<open>Telemetry_Session\<close> (\<open>telemetry/session.rs\<close>): the session over the two: its rows and those the
    scrapers interleave until they are joined, phase windows, boundary sample and verdict.

  What the lemmas show. Equivalences and refinements relate an optimized routine to a reference:
  the edit distance to the cheapest alignment, the stream consumer to the view of its events, the
  sweep line's peak to the largest number of requests open at one instant, the single pass over
  the p95s to the maximum of all rises, the bounded sample history to an unbounded one. Invariants
  are kept by every operation or step: the gauge, the leases, the writer's counters and bytes, the
  derived metrics of a record, the partition of a summary's counts. Round trips: event frames,
  exposition lines, prompt sequences. Error paths: the verdict of a session, the failure of an image
  request, the gates of a run. Two locales state what several parts share: \<open>invariant_system\<close>,
  and \<open>coverage_rows\<close> for the runs and stages that count first-token coverage.

  Loops and bounds. Loops are structural recursions or carry a measure; the sweep line is a
  \<open>partial_function\<close>, as its inner loop need not advance on NaN times, and it is proved to
  return for every list of spans. So are the backtracking loop of the mix search, which returns with
  the compositions visited, and the loop that seeds a mix, which returns for every generator when
  there are as many candidates as prompts wanted. Counters of 64 bits are words where they can wrap, and naturals
  with \<open>sat64\<close> or \<open>sum_u64\<close> where the code saturates or sums; theorems that need it
  assume fewer than \<open>2 ^ 64\<close> rows. Panics are the value \<open>None\<close> or a flag of their own: a slice
  inside a character, a clamp with crossed bounds, a vector larger than the address space, a
  deadline beyond the clock. A request for memory that the allocator refuses ends the process and is
  not modelled.

  Parameters. Code outside the repository is an argument: the JSON, YAML and URL parsers, the
  number parser, regular expressions, random draws and the logarithm, digests, the HTTP client and
  the clock readings. The records of the sweep point and of the summary keep some of their fields
  in records of their own (token counts, distributions, the phase trace), which the code
  flattens when it serializes.

  Not modelled: the other command-line programs under \<open>src/src/bin\<close> and their arguments, console
  and HTML output, CSV and NDJSON files and their readers, the hardware probes of the telemetry,
  the tokenizer, downloads, the environment
  probe, and the development tooling. They are input and output around the parts above, or further
  modalities that feed the same records.
\<close>

end
